(* ===== verification/Errors.thy ===== *)
theory Errors
  imports GoPrelude "HOL-Library.Char_ord" "HOL-Library.List_Lexorder"
begin

text \<open>
  The error type of Couper (\<open>errors/error.go\<close>, \<open>couper.go\<close>), its table of definitions
  (\<open>errors/type_defintions.go\<close>), the generator of the tables the configuration uses
  (\<open>errors/generate/types.go\<close>) and its checked-in output (\<open>errors/types_generated.go\<close>).

  A Go \<open>error\<close> is a Couper error, the diagnostics of the HCL library, or any other error, of
  which only the text matters. The methods that return a changed copy of their receiver are
  functions; the two that also write to an existing error return it: \<open>Kind\<close> marks its receiver
  as a parent, and \<open>LogError\<close> clears the synopsis of an inner error it would repeat.
\<close>

datatype go_error =
    PlainError string
  | DiagError string
  | CouperError (httpStatus: nat) (inner: "go_error option") (isParent: bool)
      (kinds: "string list") (label: string) (message: string) (synopsis: string)
      (contexts: "string list")

fun is_couper :: "go_error \<Rightarrow> bool" where
  "is_couper (CouperError st i p ks l m s cs) = True"
| "is_couper _ = False"

text \<open>The operations on a Couper error; they are methods of \<open>*Error\<close> and not reached for others.\<close>

fun err_Status :: "nat \<Rightarrow> go_error \<Rightarrow> go_error" where
  "err_Status n (CouperError st i p ks l m s cs) = CouperError n i p ks l m s cs"
| "err_Status n e = e"

fun err_Kind :: "string \<Rightarrow> go_error \<Rightarrow> go_error \<times> go_error" where
  "err_Kind k (CouperError st i p ks l m s cs) =
     (CouperError st i True ks l m s cs, CouperError st i False (k # ks) l m s cs)"
| "err_Kind k e = (e, e)"

fun err_Context :: "string \<Rightarrow> go_error \<Rightarrow> go_error" where
  "err_Context c (CouperError st i p ks l m s cs) = CouperError st i p ks l m s (cs @ [c])"
| "err_Context c e = e"

fun err_Label :: "string \<Rightarrow> go_error \<Rightarrow> go_error" where
  "err_Label n (CouperError st i p ks l m s cs) = CouperError st i p ks n m s cs"
| "err_Label n e = e"

fun err_Message :: "string \<Rightarrow> go_error \<Rightarrow> go_error" where
  "err_Message msg (CouperError st i p ks l m s cs) = CouperError st i p ks l msg s cs"
| "err_Message msg e = e"

fun err_With :: "go_error option \<Rightarrow> go_error \<Rightarrow> go_error" where
  "err_With None e = e"
| "err_With (Some e') (CouperError st i p ks l m s cs) = CouperError st (Some e') p ks l m s cs"
| "err_With (Some e') e = e"

text \<open>\<open>Kinds\<close>: the kinds of the inner error first, they are the more specific ones.\<close>

fun err_Kinds :: "go_error \<Rightarrow> string list" where
  "err_Kinds (CouperError st i p ks l m s cs) =
     (case i of None \<Rightarrow> [] | Some e \<Rightarrow> err_Kinds e) @ ks"
| "err_Kinds e = []"

definition err_HTTPStatus :: "go_error \<Rightarrow> nat" where
  "err_HTTPStatus e = (if httpStatus e = 0 then 500 else httpStatus e)"

fun err_Error :: "go_error \<Rightarrow> string" where
  "err_Error (PlainError t) = t"
| "err_Error (DiagError t) = t"
| "err_Error (CouperError st i p ks l m s cs) = s"

fun AppendMsg :: "string \<Rightarrow> string list \<Rightarrow> string" where
  "AppendMsg target [] = target"
| "AppendMsg target (m # ms) =
     AppendMsg ((if target \<noteq> [] \<and> m \<noteq> [] then target @ '': '' else target) @ m) ms"

fun getDiags :: "go_error \<Rightarrow> string option" where
  "getDiags (CouperError st i p ks l m s cs) =
     (case i of
        None \<Rightarrow> None
      | Some e \<Rightarrow> (case e of DiagError d \<Rightarrow> Some d | _ \<Rightarrow> getDiags e))"
| "getDiags e = None"

text \<open>\<open>Equals\<close> for two Couper errors, given their synopses.\<close>

definition same_kind :: "string \<Rightarrow> go_error \<Rightarrow> go_error \<Rightarrow> bool" where
  "same_kind syn a b \<longleftrightarrow> syn = synopsis b \<and> concat (kinds a) = concat (kinds b)"

text \<open>\<open>LogError\<close>: the text, and the error with the synopses it cleared. The first argument is the
  receiver's synopsis, which the caller may just have cleared.\<close>

fun log_as :: "string \<Rightarrow> go_error \<Rightarrow> string \<times> go_error" where
  "log_as syn (CouperError st i p ks l m s cs) =
     (case getDiags (CouperError st i p ks l m s cs) of
        Some d \<Rightarrow> (d, CouperError st i p ks l m syn cs)
      | None \<Rightarrow>
          let msg = AppendMsg syn [l, m] in
          (case i of
             None \<Rightarrow> (msg, CouperError st i p ks l m syn cs)
           | Some e \<Rightarrow>
               if is_couper e then
                 (case log_as (if same_kind syn (CouperError st i p ks l m s cs) e then [] else synopsis e) e of
                    (t, e') \<Rightarrow> (AppendMsg msg [t], CouperError st (Some e') p ks l m syn cs))
               else (AppendMsg msg [err_Error e], CouperError st i p ks l m syn cs)))"
| "log_as syn e = (err_Error e, e)"

definition err_LogError :: "go_error \<Rightarrow> string \<times> go_error" where
  "err_LogError e = log_as (if is_couper e then synopsis e else []) e"

section \<open>The predefined errors\<close>

definition base_error :: "nat \<Rightarrow> string list \<Rightarrow> string \<Rightarrow> string list \<Rightarrow> go_error" where
  "base_error st ks s cs = CouperError st None False ks [] [] s cs"

definition E_AccessControl :: go_error where
  "E_AccessControl = base_error 403 [''access_control''] ''access control error'' []"
definition E_Backend :: go_error where
  "E_Backend = base_error 502 [''backend''] ''backend error'' [''api'', ''endpoint'']"
definition E_ClientRequest :: go_error where
  "E_ClientRequest = base_error 400 [] ''client request error'' []"
definition E_Endpoint :: go_error where
  "E_Endpoint = base_error 502 [''endpoint''] ''endpoint error'' [''endpoint'']"
definition E_Evaluation :: go_error where
  "E_Evaluation = base_error 500 [''evaluation''] ''expression evaluation error'' []"
definition E_Configuration :: go_error where
  "E_Configuration = base_error 500 [''configuration''] ''configuration error'' []"
definition E_MethodNotAllowed :: go_error where
  "E_MethodNotAllowed = base_error 405 [] ''method not allowed error'' []"
definition E_Proxy :: go_error where
  "E_Proxy = base_error 502 [] ''proxy error'' []"
definition E_Request :: go_error where
  "E_Request = base_error 502 [] ''request error'' []"
definition E_RouteNotFound :: go_error where
  "E_RouteNotFound = base_error 404 [] ''route not found error'' []"
definition E_Server :: go_error where
  "E_Server = base_error 500 [] ''internal server error'' []"
definition E_ServerShutdown :: go_error where
  "E_ServerShutdown = base_error 500 [] ''server shutdown error'' []"

text \<open>The variables after the initialisation of \<open>Definitions\<close>, which has called \<open>Kind\<close> on them.\<close>

definition as_parent :: "go_error \<Rightarrow> go_error" where
  "as_parent e = fst (err_Kind [] e)"

definition sub_kind :: "string \<Rightarrow> go_error \<Rightarrow> go_error" where
  "sub_kind k e = snd (err_Kind k e)"

definition error_definitions :: "go_error list" where
  "error_definitions = [
     as_parent E_AccessControl,
     err_Status 401 (sub_kind ''basic_auth'' E_AccessControl),
     err_Status 401 (sub_kind ''basic_auth_credentials_missing'' (sub_kind ''basic_auth'' E_AccessControl)),
     err_Status 401 (sub_kind ''jwt'' E_AccessControl),
     err_Status 401 (sub_kind ''jwt_token_expired'' (sub_kind ''jwt'' E_AccessControl)),
     err_Status 401 (sub_kind ''jwt_token_invalid'' (sub_kind ''jwt'' E_AccessControl)),
     err_Status 401 (sub_kind ''jwt_token_missing'' (sub_kind ''jwt'' E_AccessControl)),
     sub_kind ''oauth2'' E_AccessControl,
     sub_kind ''saml2'' E_AccessControl,
     sub_kind ''saml'' (sub_kind ''saml2'' E_AccessControl),
     err_Context ''endpoint'' (err_Context ''api'' (sub_kind ''insufficient_permissions'' E_AccessControl)),
     as_parent E_Backend,
     err_Status 400 (sub_kind ''backend_openapi_validation'' E_Backend),
     err_Status 429 (sub_kind ''beta_backend_rate_limit_exceeded'' E_Backend),
     err_Status 504 (sub_kind ''backend_timeout'' E_Backend),
     sub_kind ''beta_backend_token_request'' E_Backend,
     sub_kind ''backend_unhealthy'' E_Backend,
     as_parent E_Endpoint,
     sub_kind ''sequence'' E_Endpoint,
     sub_kind ''unexpected_status'' E_Endpoint]"

section \<open>Names\<close>

text \<open>\<open>SnakeToCamel\<close>; the names are ASCII, so its runes are bytes.\<close>

fun camel_rest :: "bool \<Rightarrow> string \<Rightarrow> string" where
  "camel_rest up [] = []"
| "camel_rest up (c # cs) =
     (if c = CHR ''_'' then camel_rest True cs
      else (if up then upper_char c else lower_char c) # camel_rest False cs)"

fun SnakeToCamel :: "string \<Rightarrow> string" where
  "SnakeToCamel [] = []"
| "SnakeToCamel (c # cs) = upper_char c # camel_rest False cs"

section \<open>The generated tables\<close>

text \<open>The kind a definition is registered under: the first of its kinds. The generator stops with
  an error when there is none or when two definitions share it.\<close>

fun generate_kinds :: "string list \<Rightarrow> go_error list \<Rightarrow> string list option" where
  "generate_kinds seen [] = Some []"
| "generate_kinds seen (d # ds) =
     (case err_Kinds d of
        [] \<Rightarrow> None
      | k # _ \<Rightarrow> if k \<in> set seen then None else map_option ((#) k) (generate_kinds (k # seen) ds))"

text \<open>\<open>types\<close>: every kind with the index of its definition.\<close>

definition generate_types :: "(string \<times> nat) list option" where
  "generate_types =
     map_option (\<lambda>ks. zip ks [0..<length ks]) (generate_kinds [] error_definitions)"

type_synonym super_types = "(string \<times> (string \<times> string list) list) list"

fun add_sub :: "string \<Rightarrow> string \<Rightarrow> (string \<times> string list) list \<Rightarrow> (string \<times> string list) list" where
  "add_sub super sub [] = [(super, [sub])]"
| "add_sub super sub ((k, ks) # m) =
     (if k = super then (k, ks @ [sub]) # m else (k, ks) # add_sub super sub m)"

fun add_context :: "string \<Rightarrow> string list \<Rightarrow> string \<Rightarrow> super_types \<Rightarrow> super_types" where
  "add_context c supers sub [] = [(c, fold (\<lambda>s. add_sub s sub) supers [])]"
| "add_context c supers sub ((c', m) # t) =
     (if c' = c then (c', fold (\<lambda>s. add_sub s sub) supers m) # t
      else (c', m) # add_context c supers sub t)"

definition generate_super :: "go_error \<Rightarrow> super_types \<Rightarrow> super_types" where
  "generate_super d t =
     (if isParent d \<or> contexts d = [] then t
      else (case err_Kinds d @ [''*''] of
              [] \<Rightarrow> t
            | kind # supers \<Rightarrow> fold (\<lambda>c. add_context c supers kind) (contexts d) t))"

definition generate_super_types :: super_types where
  "generate_super_types = fold generate_super error_definitions []"

text \<open>The checked-in file.\<close>

definition error_types :: "(string \<times> nat) list" where
  "error_types = [
     (''access_control'', 0), (''basic_auth'', 1), (''basic_auth_credentials_missing'', 2),
     (''jwt'', 3), (''jwt_token_expired'', 4), (''jwt_token_invalid'', 5), (''jwt_token_missing'', 6),
     (''oauth2'', 7), (''saml2'', 8), (''saml'', 9), (''insufficient_permissions'', 10),
     (''backend'', 11), (''backend_openapi_validation'', 12),
     (''beta_backend_rate_limit_exceeded'', 13), (''backend_timeout'', 14),
     (''beta_backend_token_request'', 15), (''backend_unhealthy'', 16),
     (''endpoint'', 17), (''sequence'', 18), (''unexpected_status'', 19)]"

definition IsKnown :: "string \<Rightarrow> bool" where
  "IsKnown errorType \<longleftrightarrow> map_of error_types errorType \<noteq> None"

definition backend_kinds :: "string list" where
  "backend_kinds = [''backend_openapi_validation'', ''beta_backend_rate_limit_exceeded'',
     ''backend_timeout'', ''beta_backend_token_request'', ''backend_unhealthy'']"

definition SuperTypesMapsByContext :: super_types where
  "SuperTypesMapsByContext = [
     (''api'', [
        (''*'', ''insufficient_permissions'' # backend_kinds),
        (''access_control'', [''insufficient_permissions'']),
        (''backend'', backend_kinds)]),
     (''endpoint'', [
        (''*'', ''insufficient_permissions'' # backend_kinds @ [''sequence'', ''unexpected_status'']),
        (''access_control'', [''insufficient_permissions'']),
        (''backend'', backend_kinds),
        (''endpoint'', [''sequence'', ''unexpected_status''])])]"

text \<open>The definitions the rest of the program refers to by name.\<close>

definition error_def :: "string \<Rightarrow> go_error" where
  "error_def k = (case map_of error_types k of Some i \<Rightarrow> error_definitions ! i | None \<Rightarrow> E_Server)"

section \<open>Lemmas\<close>

text \<open>The three shapes of a Couper error that \<open>LogError\<close> distinguishes.\<close>

lemma log_as_diags:
  "getDiags (CouperError st i p ks l m s cs) = Some d \<Longrightarrow>
     log_as syn (CouperError st i p ks l m s cs) = (d, CouperError st i p ks l m syn cs)"
  by simp

lemma log_as_other:
  assumes "getDiags (CouperError st i p ks l m s cs) = None" "\<not> (\<exists>e. i = Some e \<and> is_couper e)"
  shows "log_as syn (CouperError st i p ks l m s cs) =
     (case i of None \<Rightarrow> AppendMsg syn [l, m] | Some e \<Rightarrow> AppendMsg (AppendMsg syn [l, m]) [err_Error e],
      CouperError st i p ks l m syn cs)"
  using assms by (cases i) (simp_all add: Let_def del: getDiags.simps)

definition inner_synopsis :: "string \<Rightarrow> string list \<Rightarrow> go_error \<Rightarrow> string" where
  "inner_synopsis syn ks e = (if syn = synopsis e \<and> concat ks = concat (kinds e) then [] else synopsis e)"

lemma log_as_inner:
  assumes "getDiags (CouperError st (Some e) p ks l m s cs) = None" "is_couper e"
  shows "log_as syn (CouperError st (Some e) p ks l m s cs) =
     (AppendMsg (AppendMsg syn [l, m]) [fst (log_as (inner_synopsis syn ks e) e)],
      CouperError st (Some (snd (log_as (inner_synopsis syn ks e) e))) p ks l m syn cs)"
  using assms
  by (simp add: Let_def inner_synopsis_def same_kind_def case_prod_beta del: getDiags.simps)

lemmas log_as_cases = log_as_diags log_as_other log_as_inner

lemma log_as_keeps:
  "is_couper e \<Longrightarrow> is_couper (snd (log_as syn e)) \<and> kinds (snd (log_as syn e)) = kinds e \<and>
     synopsis (snd (log_as syn e)) = syn"
proof (cases e)
  case (CouperError st i p ks l m s cs)
  show ?thesis unfolding CouperError
  proof (cases "getDiags (CouperError st i p ks l m s cs)")
    case None
    then show "is_couper (snd (log_as syn (CouperError st i p ks l m s cs))) \<and>
        kinds (snd (log_as syn (CouperError st i p ks l m s cs))) = kinds (CouperError st i p ks l m s cs) \<and>
        synopsis (snd (log_as syn (CouperError st i p ks l m s cs))) = syn"
      by (cases "\<exists>e. i = Some e \<and> is_couper e") (auto simp: log_as_inner log_as_other simp del: log_as.simps getDiags.simps)
  qed (simp add: log_as_diags del: log_as.simps getDiags.simps)
qed simp_all

lemma getDiags_inner: "is_couper e \<Longrightarrow> getDiags (CouperError st (Some e) p ks l m s cs) = getDiags e"
  by (cases e) simp_all

lemma getDiags_log_as: "getDiags (snd (log_as syn e)) = getDiags e"
proof (induction e arbitrary: syn)
  case (CouperError st i p ks l m s cs)
  let ?e = "CouperError st i p ks l m s cs"
  show ?case
  proof (cases "getDiags ?e")
    case None
    show ?thesis
    proof (cases "\<exists>e. i = Some e \<and> is_couper e")
      case True
      then obtain e where e: "i = Some e" "is_couper e" by auto
      have "getDiags (snd (log_as (inner_synopsis syn ks e) e)) = getDiags e"
        by (rule CouperError.IH) (simp add: e)
      then show ?thesis using None e log_as_keeps[OF e(2)]
        by (simp add: log_as_inner getDiags_inner del: log_as.simps getDiags.simps)
    next
      case False
      have "getDiags (CouperError st i p ks l m syn cs) = getDiags ?e" by (cases i) auto
      then show ?thesis using None False by (simp add: log_as_other del: log_as.simps getDiags.simps)
    qed
  next
    case (Some d)
    have "getDiags (CouperError st i p ks l m syn cs) = getDiags ?e" by (cases i) auto
    then show ?thesis using Some by (simp add: log_as_diags del: log_as.simps getDiags.simps)
  qed
qed simp_all

lemma log_as_stable: "is_couper e \<Longrightarrow> log_as syn (snd (log_as syn e)) = log_as syn e"
proof (induction e arbitrary: syn)
  case (CouperError st i p ks l m s cs)
  let ?e = "CouperError st i p ks l m s cs"
  have swap: "getDiags (CouperError st i p ks l m syn cs) = getDiags ?e" by (cases i) auto
  show ?case
  proof (cases "getDiags ?e")
    case None
    show ?thesis
    proof (cases "\<exists>e. i = Some e \<and> is_couper e")
      case True
      then obtain e where e: "i = Some e" "is_couper e" by auto
      let ?n = "inner_synopsis syn ks e"
      let ?e1 = "snd (log_as ?n e)"
      have IH: "log_as ?n ?e1 = log_as ?n e"
        by (rule CouperError.IH) (simp_all add: e)
      note k = log_as_keeps[OF e(2), of ?n]
      have "inner_synopsis syn ks ?e1 = (if syn = ?n \<and> concat ks = concat (kinds e) then [] else ?n)"
        using k by (simp add: inner_synopsis_def [of syn ks ?e1])
      moreover have "?n = [] \<or> \<not> (syn = ?n \<and> concat ks = concat (kinds e))"
        by (simp add: inner_synopsis_def)
      ultimately have "inner_synopsis syn ks ?e1 = ?n" by metis
      moreover have "getDiags (CouperError st (Some ?e1) p ks l m syn cs) = None"
        using None e k by (simp add: getDiags_inner getDiags_log_as del: log_as.simps getDiags.simps)
      moreover have "is_couper ?e1" using k by simp
      ultimately show ?thesis using None e IH
        by (simp add: log_as_inner del: log_as.simps getDiags.simps)
    next
      case False
      then show ?thesis using None swap by (simp add: log_as_other del: log_as.simps getDiags.simps)
    qed
  next
    case (Some d)
    then show ?thesis using swap by (simp add: log_as_diags del: log_as.simps getDiags.simps)
  qed
qed simp_all

text \<open>
  The log text of an error does not depend on how often it was logged: logging
  clears synopses of inner errors, and the error it leaves has the same text and is not changed
  by logging it again.
\<close>

theorem log_text_stable:
  "err_LogError (snd (err_LogError e)) = err_LogError e"
proof (cases "is_couper e")
  case True
  then show ?thesis
    using log_as_keeps[OF True, of "synopsis e"] log_as_stable[OF True, of "synopsis e"]
    by (simp add: err_LogError_def)
next
  case False
  then show ?thesis by (cases e) (simp_all add: err_LogError_def)
qed

lemma super_contexts: "map fst generate_super_types = map fst SuperTypesMapsByContext"
  by code_simp

lemma super_tables:
  "list_all (\<lambda>c. list_all (\<lambda>k. map_of (the (map_of generate_super_types c)) k = map_of (the (map_of SuperTypesMapsByContext c)) k)
      (map fst (the (map_of generate_super_types c)) @ map fst (the (map_of SuperTypesMapsByContext c))))
    [''api'', ''endpoint'']"
  by code_simp

lemma map_of_eqI:
  assumes "list_all (\<lambda>k. map_of m k = map_of m' k) (map fst m @ map fst m')"
  shows "map_of m = map_of m'"
proof
  fix k
  show "map_of m k = map_of m' k"
  proof (cases "k \<in> set (map fst m @ map fst m')")
    case False
    then have "map_of m k = None" "map_of m' k = None" by (simp_all add: map_of_eq_None_iff)
    then show ?thesis by simp
  qed (use assms in \<open>simp only: list_all_iff\<close>)
qed

text \<open>
  The checked-in tables are the output of the generator on the error definitions:
  every kind with its definition, and for every context the same sub kinds, in the same order,
  for each super kind.
\<close>

theorem generated_tables:
  "generate_types = Some error_types \<and>
   (\<forall>c. map_option map_of (map_of generate_super_types c) = map_option map_of (map_of SuperTypesMapsByContext c))"
proof
  show "generate_types = Some error_types" by code_simp
  show "\<forall>c. map_option map_of (map_of generate_super_types c) = map_option map_of (map_of SuperTypesMapsByContext c)"
  proof
    fix c
    have keys: "map fst generate_super_types = [''api'', ''endpoint'']" "map fst SuperTypesMapsByContext = [''api'', ''endpoint'']"
      by code_simp+
    show "map_option map_of (map_of generate_super_types c) = map_option map_of (map_of SuperTypesMapsByContext c)"
    proof (cases "c \<in> {''api'', ''endpoint''}")
      case True
      then have c: "c \<in> set (map fst generate_super_types)" "c \<in> set (map fst SuperTypesMapsByContext)"
        unfolding keys by simp_all
      from c obtain m where m: "map_of generate_super_types c = Some m"
        by (cases "map_of generate_super_types c") (auto simp only: map_of_eq_None_iff set_map)
      from c obtain m' where m': "map_of SuperTypesMapsByContext c = Some m'"
        by (cases "map_of SuperTypesMapsByContext c") (auto simp only: map_of_eq_None_iff set_map)
      from True super_tables have "list_all (\<lambda>k. map_of (the (map_of generate_super_types c)) k =
          map_of (the (map_of SuperTypesMapsByContext c)) k)
          (map fst (the (map_of generate_super_types c)) @ map fst (the (map_of SuperTypesMapsByContext c)))"
        by (simp only: list_all_iff list.set) blast
      from map_of_eqI[OF this] show ?thesis by (simp add: m m')
    next
      case False
      then have "c \<notin> set (map fst generate_super_types)" "c \<notin> set (map fst SuperTypesMapsByContext)"
        unfolding keys by simp_all
      then have "map_of generate_super_types c = None" "map_of SuperTypesMapsByContext c = None"
        by (simp_all only: map_of_eq_None_iff set_map not_False_eq_True)
      then show ?thesis by simp
    qed
  qed
qed

end
