(* ===== verification/Seetie.thy ===== *)
theory Seetie
  imports GoPrelude Complex_Main
begin

text \<open>
  The values of configuration expressions (\<open>cty.Value\<close>) and of Go (\<open>interface{}\<close>), and the
  conversions between them in \<open>internal/seetie/convert.go\<close>.

  A \<open>cty.Value\<close> is null or unknown of a type, or a value of one of the types the program builds;
  \<open>cty.NilVal\<close> is the null value of the type \<open>TNil\<close>. \<open>GInt64\<close> and \<open>GInt\<close> are the Go types \<open>int64\<close> and
  \<open>int\<close>, \<open>GNilList\<close> is the nil slice of \<open>[]interface{}\<close>, \<open>GOther\<close> a value of any type the conversions do not
  name.
  Numbers are rationals: \<open>cty\<close> keeps them exactly, and a Go \<open>float64\<close> is the rational it stands
  for; the rounding of a number to the nearest \<open>float64\<close> is an argument. The maps of both sides
  are association lists in their order of iteration. Methods of \<open>cty\<close> panic when applied to values
  they do not support; \<open>None\<close> is that panic.
\<close>

section \<open>Values\<close>

datatype cty_type =
    TNil | TDyn | TBool | TNumber | TString
  | TList cty_type | TMap cty_type | TTuple "cty_type list" | TObject "(string \<times> cty_type) list"

datatype cty =
    CNull cty_type
  | CUnknown cty_type
  | CBool bool
  | CNumber rat
  | CString string
  | CList cty_type "cty list"
  | CTuple "cty list"
  | CMap cty_type "(string \<times> cty) list"
  | CObject "(string \<times> cty) list"

datatype goval =
    GNil
  | GString string
  | GBool bool
  | GInt64 int
  | GInt int
  | GFloat rat
  | GStrings "string list"
  | GList "goval list"
  | GNilList
  | GMap "(string \<times> goval) list option"
  | GOther

fun cty_type_of :: "cty \<Rightarrow> cty_type" where
  "cty_type_of (CNull t) = t"
| "cty_type_of (CUnknown t) = t"
| "cty_type_of (CBool b) = TBool"
| "cty_type_of (CNumber n) = TNumber"
| "cty_type_of (CString s) = TString"
| "cty_type_of (CList t vs) = TList t"
| "cty_type_of (CTuple vs) = TTuple (map cty_type_of vs)"
| "cty_type_of (CMap t kvs) = TMap t"
| "cty_type_of (CObject kvs) = TObject (map (\<lambda>(k, v). (k, cty_type_of v)) kvs)"

fun is_null :: "cty \<Rightarrow> bool" where
  "is_null (CNull t) \<longleftrightarrow> True"
| "is_null _ \<longleftrightarrow> False"

fun is_known :: "cty \<Rightarrow> bool" where
  "is_known (CUnknown t) \<longleftrightarrow> False"
| "is_known _ \<longleftrightarrow> True"

fun wholly_known :: "cty \<Rightarrow> bool" where
  "wholly_known (CUnknown t) \<longleftrightarrow> False"
| "wholly_known (CList t vs) \<longleftrightarrow> list_all wholly_known vs"
| "wholly_known (CTuple vs) \<longleftrightarrow> list_all wholly_known vs"
| "wholly_known (CMap t kvs) \<longleftrightarrow> list_all (\<lambda>(k, v). wholly_known v) kvs"
| "wholly_known (CObject kvs) \<longleftrightarrow> list_all (\<lambda>(k, v). wholly_known v) kvs"
| "wholly_known _ \<longleftrightarrow> True"

text \<open>\<open>AsValueMap\<close> and \<open>AsValueSlice\<close>. A null or unknown value has a length only if it is of a
  tuple or object type, and an empty list or tuple has the empty map.\<close>

fun as_value_map :: "cty \<Rightarrow> (string \<times> cty) list option" where
  "as_value_map (CMap t kvs) = Some kvs"
| "as_value_map (CObject kvs) = Some kvs"
| "as_value_map (CList t vs) = (if vs = [] then Some [] else None)"
| "as_value_map (CTuple vs) = (if vs = [] then Some [] else None)"
| "as_value_map (CNull t) = (if t = TTuple [] \<or> t = TObject [] then Some [] else None)"
| "as_value_map (CUnknown t) = (if t = TTuple [] \<or> t = TObject [] then Some [] else None)"
| "as_value_map _ = None"

fun as_value_slice :: "cty \<Rightarrow> cty list option" where
  "as_value_slice (CMap t kvs) = Some (map snd kvs)"
| "as_value_slice (CObject kvs) = Some (map snd kvs)"
| "as_value_slice (CList t vs) = Some vs"
| "as_value_slice (CTuple vs) = Some vs"
| "as_value_slice (CNull t) = (if t = TTuple [] \<or> t = TObject [] then Some [] else None)"
| "as_value_slice (CUnknown t) = (if t = TTuple [] \<or> t = TObject [] then Some [] else None)"
| "as_value_slice _ = None"

fun isMapOrObject :: "cty \<Rightarrow> bool" where
  "isMapOrObject (CNull t) \<longleftrightarrow> False"
| "isMapOrObject v \<longleftrightarrow> (case cty_type_of v of TMap t \<Rightarrow> True | TObject ts \<Rightarrow> True | _ \<Rightarrow> False)"

fun isListOrTuple :: "cty \<Rightarrow> bool" where
  "isListOrTuple (CNull t) \<longleftrightarrow> False"
| "isListOrTuple v \<longleftrightarrow> (case cty_type_of v of TList t \<Rightarrow> True | TTuple ts \<Rightarrow> True | _ \<Rightarrow> False)"

section \<open>From expressions to Go\<close>

text \<open>\<open>ValueToGo\<close>, \<open>valueToGoDefault\<close> and the entries of \<open>ValueToMap\<close>. A map type without element
  type, the type of the empty map, has no Go value.\<close>

fun ValueToGo :: "(rat \<Rightarrow> rat) \<Rightarrow> cty \<Rightarrow> goval" where
  "ValueToGo f64 (CNull t) = GNil"
| "ValueToGo f64 (CUnknown t) = GNil"
| "ValueToGo f64 (CBool b) = GBool b"
| "ValueToGo f64 (CString s) = GString s"
| "ValueToGo f64 (CNumber n) = GFloat (f64 n)"
| "ValueToGo f64 (CMap t kvs) =
     (if t = TNil then GNil
      else GMap (Some (map (\<lambda>(k, v). (k, if is_null v \<or> \<not> wholly_known v then GNil else ValueToGo f64 v)) kvs)))"
| "ValueToGo f64 (CObject kvs) =
     GMap (Some (map (\<lambda>(k, v). (k, if is_null v \<or> \<not> wholly_known v then GNil else ValueToGo f64 v)) kvs))"
| "ValueToGo f64 (CList t vs) = (if vs = [] then GNilList else GList (map (ValueToGo f64) vs))"
| "ValueToGo f64 (CTuple vs) = (if vs = [] then GNilList else GList (map (ValueToGo f64) vs))"

definition ValueToMap :: "(rat \<Rightarrow> rat) \<Rightarrow> cty \<Rightarrow> (string \<times> goval) list option" where
  "ValueToMap f64 v =
     (if is_null v \<or> \<not> is_known v then Some []
      else (let m = (if isListOrTuple v
                     then (case as_value_slice v of Some (x # _) \<Rightarrow> as_value_map x | _ \<Rightarrow> None)
                     else as_value_map v)
            in map_option (map (\<lambda>(k, v). (k, if is_null v \<or> \<not> wholly_known v then GNil else ValueToGo f64 v))) m))"

text \<open>\<open>ValueToPermission\<close>; the outer option is the panic for a null or unknown string.\<close>

definition permission_entry :: "string \<times> cty \<Rightarrow> (string + string \<times> string) option" where
  "permission_entry kv =
     (case kv of (k, v) \<Rightarrow>
        if cty_type_of v \<noteq> TString then Some (Inl (''unsupported value for method '' @ CHR 0x22 # k @ CHR 0x22 # '' in required_permission''))
        else (case v of CString s \<Rightarrow> Some (Inr (to_upper k, s)) | _ \<Rightarrow> None))"

fun permission_entries :: "(string \<times> cty) list \<Rightarrow> (string + (string \<times> string) list) option" where
  "permission_entries [] = Some (Inr [])"
| "permission_entries (kv # kvs) =
     (case permission_entry kv of
        None \<Rightarrow> None
      | Some (Inl e) \<Rightarrow> Some (Inl e)
      | Some (Inr p) \<Rightarrow> map_option (map_sum id ((#) p)) (permission_entries kvs))"

definition ValueToPermission :: "cty \<Rightarrow> (string + string \<times> (string \<rightharpoonup> string) option) option" where
  "ValueToPermission val =
     (case cty_type_of val of
        TNil \<Rightarrow> Some (Inr ([], None))
      | TString \<Rightarrow> (case val of CString s \<Rightarrow> Some (Inr (s, None)) | _ \<Rightarrow> None)
      | TObject ts \<Rightarrow>
          (case as_value_map val of
             None \<Rightarrow> None
           | Some kvs \<Rightarrow>
              map_option (map_sum id (\<lambda>ps. ([], Some (map_of (rev ps))))) (permission_entries kvs))
      | _ \<Rightarrow> Some (Inl ''unsupported value for required_permission''))"

text \<open>\<open>ValueToString\<close>. A number that is no integer is printed by \<open>big.Float.String\<close>, the argument
  \<open>btext\<close>.\<close>

definition ValueToString :: "(rat \<Rightarrow> string) \<Rightarrow> cty \<Rightarrow> string" where
  "ValueToString btext v =
     (case v of
        CString s \<Rightarrow> if list_all (\<lambda>c. c \<in> set [CHR 0x09, CHR 0x0A, CHR 0x0C, CHR 0x0D, CHR '' '']) s then [] else s
      | CNumber n \<Rightarrow> if of_int \<lfloor>n\<rfloor> = n then itoa \<lfloor>n\<rfloor> else btext n
      | _ \<Rightarrow> [])"

definition ValueToStringSlice :: "(rat \<Rightarrow> string) \<Rightarrow> cty \<Rightarrow> string list option" where
  "ValueToStringSlice btext src =
     (if \<not> is_known src \<or> is_null src then Some []
      else (case cty_type_of src of
         TBool \<Rightarrow> Some [ValueToString btext src]
       | TNumber \<Rightarrow> Some [ValueToString btext src]
       | TString \<Rightarrow> Some [ValueToString btext src]
       | _ \<Rightarrow> map_option (\<lambda>vs. map (ValueToString btext) (filter is_known vs)) (as_value_slice src)))"

text \<open>\<open>ValueToInt\<close>: a number is cut off at the point and at the bounds of an \<open>int64\<close>; a null string or
  number panics.\<close>

definition int64_of_rat :: "rat \<Rightarrow> int" where
  "int64_of_rat r =
     (let n = (if 0 \<le> r then \<lfloor>r\<rfloor> else \<lceil>r\<rceil>) in max (- max_int64 - 1) (min max_int64 n))"

definition ValueToInt :: "cty \<Rightarrow> int option" where
  "ValueToInt v =
     (if \<not> wholly_known v then Some 0
      else (case cty_type_of v of
         TString \<Rightarrow> (case v of CString s \<Rightarrow> Some (case go_atoi s of Some i \<Rightarrow> i | None \<Rightarrow> 0) | _ \<Rightarrow> None)
       | TNumber \<Rightarrow> (case v of CNumber n \<Rightarrow> Some (int64_of_rat n) | _ \<Rightarrow> None)
       | _ \<Rightarrow> Some 0))"

definition can_iterate :: "cty \<Rightarrow> bool" where
  "can_iterate v = (case cty_type_of v of TList t \<Rightarrow> True | TMap t \<Rightarrow> True | TTuple ts \<Rightarrow> True | TObject ts \<Rightarrow> True | _ \<Rightarrow> False)"

definition ValueToIntSlice :: "cty \<Rightarrow> int list option" where
  "ValueToIntSlice src =
     (if \<not> is_known src \<or> is_null src \<or> \<not> can_iterate src then Some []
      else (case as_value_slice src of
         None \<Rightarrow> None
       | Some vs \<Rightarrow> those (map ValueToInt (filter is_known vs))))"

section \<open>From Go to expressions\<close>

definition stringListToValue :: "string list \<Rightarrow> cty" where
  "stringListToValue l = CList TString (map CString l)"

text \<open>\<open>GoToValue\<close> with \<open>listToValue\<close> and \<open>MapToValue\<close>; the entries of a map are converted as other
  values are.\<close>

fun GoToValue :: "goval \<Rightarrow> cty" where
  "GoToValue (GString s) = CString s"
| "GoToValue (GBool b) = CBool b"
| "GoToValue (GInt64 i) = CNumber (of_int i)"
| "GoToValue (GFloat r) = CNumber r"
| "GoToValue (GStrings l) = stringListToValue l"
| "GoToValue (GList l) = CTuple (map GoToValue l)"
| "GoToValue GNilList = CTuple []"
| "GoToValue (GMap None) = CMap TNil []"
| "GoToValue (GMap (Some m)) =
     (if m = [] then CMap TNil [] else CObject (map (\<lambda>(k, v). (k, GoToValue v)) m))"
| "GoToValue GNil = CNull TString"
| "GoToValue (GInt i) = CNull TString"
| "GoToValue GOther = CNull TString"

definition MapToValue :: "(string \<times> goval) list option \<Rightarrow> cty" where
  "MapToValue m = GoToValue (GMap m)"

definition ValuesMapToValue :: "(string \<times> string list) list \<Rightarrow> cty" where
  "ValuesMapToValue m = MapToValue (Some (map (\<lambda>(k, v). (k, GStrings v)) m))"

definition map_value :: "(string \<times> cty) list \<Rightarrow> cty" where
  "map_value m = CMap TString m"

definition HeaderToMapValue :: "(string \<times> string list) list \<Rightarrow> cty" where
  "HeaderToMapValue h =
     map_value (fold (\<lambda>(k, vs). set_key (to_lower k) (CString (case vs of [] \<Rightarrow> [] | v # _ \<Rightarrow> v))) h [])"

definition CookiesToMapValue :: "(string \<times> string) list \<Rightarrow> cty" where
  "CookiesToMapValue cs = map_value (fold (\<lambda>(n, v). set_key n (CString v)) cs [])"

section \<open>From Go to text\<close>

text \<open>\<open>%0.f\<close>: the nearest integer, ties to even.\<close>

definition round_even :: "rat \<Rightarrow> int" where
  "round_even r =
     (let n = \<lfloor>r\<rfloor>; d = r - of_int n in
      if d < 1 / 2 then n else if 1 / 2 < d then n + 1 else if even n then n else n + 1)"

definition float_text :: "rat \<Rightarrow> string" where
  "float_text r = (if r < 0 then CHR ''-'' # itoa (round_even (- r)) else itoa (round_even r))"

fun ToString :: "goval \<Rightarrow> string" where
  "ToString (GStrings l) = join_with '','' l"
| "ToString (GList l) = join_with '','' (filter (\<lambda>s. s \<noteq> []) (map ToString l))"
| "ToString (GString s) = s"
| "ToString (GInt i) = itoa i"
| "ToString (GFloat r) = float_text r"
| "ToString (GBool b) = (if b then ''true'' else ''false'')"
| "ToString _ = []"

definition SliceToString :: "goval list \<Rightarrow> string" where
  "SliceToString l = ToString (GList l)"

section \<open>Round trip\<close>

text \<open>The values that decoding a JSON text yields, and what the round trip makes of them.\<close>

fun json_value :: "goval \<Rightarrow> bool" where
  "json_value GNil \<longleftrightarrow> True"
| "json_value (GString s) \<longleftrightarrow> True"
| "json_value (GBool b) \<longleftrightarrow> True"
| "json_value (GFloat r) \<longleftrightarrow> True"
| "json_value (GList l) \<longleftrightarrow> list_all json_value l"
| "json_value (GMap (Some m)) \<longleftrightarrow> list_all (\<lambda>(k, v). json_value v) m"
| "json_value _ \<longleftrightarrow> False"

fun floats_of :: "goval \<Rightarrow> rat list" where
  "floats_of (GFloat r) = [r]"
| "floats_of (GList l) = concat (map floats_of l)"
| "floats_of (GMap (Some m)) = concat (map (\<lambda>(k, v). floats_of v) m)"
| "floats_of _ = []"

fun without_empty :: "goval \<Rightarrow> goval" where
  "without_empty (GList l) = (if l = [] then GNilList else GList (map without_empty l))"
| "without_empty (GMap (Some m)) =
     (if m = [] then GNil else GMap (Some (map (\<lambda>(k, v). (k, without_empty v)) m)))"
| "without_empty v = v"

lemma wholly_known_GoToValue: "wholly_known (GoToValue v)"
  by (induction v rule: GoToValue.induct) (auto simp: list_all_iff stringListToValue_def)

lemma is_null_GoToValue: "json_value v \<Longrightarrow> is_null (GoToValue v) \<longleftrightarrow> v = GNil"
  by (cases v rule: json_value.cases) (auto simp: stringListToValue_def)

text \<open>
  A value decoded from JSON survives the conversion to an expression value and back,
  except that every empty object in it becomes null and every empty array a nil slice.
\<close>

theorem json_roundtrip:
  assumes "json_value v" "\<forall>r \<in> set (floats_of v). f64 r = r"
  shows "ValueToGo f64 (GoToValue v) = without_empty v"
  using assms
proof (induction v rule: without_empty.induct)
  case (2 m)
  show ?case
  proof (cases "m = []")
    case False
    have "ValueToGo f64 (GoToValue v) = without_empty v \<and> (is_null (GoToValue v) \<longrightarrow> without_empty v = GNil)"
      if "(k, v) \<in> set m" for k v
    proof -
      from 2 that have "json_value v" "\<forall>r \<in> set (floats_of v). f64 r = r"
        by (auto simp: list_all_iff)
      with 2 that False have "ValueToGo f64 (GoToValue v) = without_empty v" by auto
      with \<open>json_value v\<close> show ?thesis by (simp add: is_null_GoToValue)
    qed
    with False show ?thesis by (auto simp: wholly_known_GoToValue)
  qed simp
qed (auto simp: list_all_iff)

lemma json_roundtrip_witness:
  "ValueToGo id (GoToValue (GMap (Some [(''a'', GList [GFloat 1, GNil]), (''b'', GMap (Some []))]))) =
     GMap (Some [(''a'', GList [GFloat 1, GNil]), (''b'', GNil)])"
  using json_roundtrip[of "GMap (Some [(''a'', GList [GFloat 1, GNil]), (''b'', GMap (Some []))])" id]
  by simp

text \<open>
  \<open>ValueToMap\<close> panics exactly for a string, a number or a boolean, and for a list or
  tuple that is empty or whose first element is none of an object, a map and an empty list or
  tuple (or null or unknown of an empty object or tuple type).
\<close>

theorem ValueToMap_panics_iff:
  "ValueToMap f64 v = None \<longleftrightarrow>
     (case v of
        CBool b \<Rightarrow> True
      | CNumber n \<Rightarrow> True
      | CString s \<Rightarrow> True
      | CList t vs \<Rightarrow> vs = [] \<or> as_value_map (hd vs) = None
      | CTuple vs \<Rightarrow> vs = [] \<or> as_value_map (hd vs) = None
      | _ \<Rightarrow> False)"
  by (cases v) (auto simp: ValueToMap_def Let_def split: list.splits)

end
