(* ===== verification/HttpModel.thy ===== *)
theory HttpModel
  imports GoPrelude
begin

text \<open>
  The part of the packages \<open>net/http\<close>, \<open>net/textproto\<close> and \<open>encoding/base64\<close> that the components
  use: headers, cookies and basic credentials of a request.

  A header is a map from canonical names to lists of values; \<open>Get\<close>, \<open>Set\<close>, \<open>Add\<close>, \<open>Del\<close> and
  \<open>Values\<close> canonicalise the name they are given.
\<close>

section \<open>Names\<close>

definition is_alpha :: "char \<Rightarrow> bool" where
  "is_alpha c \<longleftrightarrow> (let n = of_char c :: nat in (65 \<le> n \<and> n \<le> 90) \<or> (97 \<le> n \<and> n \<le> 122))"

definition is_alnum :: "char \<Rightarrow> bool" where
  "is_alnum c \<longleftrightarrow> is_alpha c \<or> (let n = of_char c :: nat in 48 \<le> n \<and> n \<le> 57)"

definition is_token_char :: "char \<Rightarrow> bool" where
  "is_token_char c \<longleftrightarrow> is_alnum c \<or> c \<in> set (CHR 0x60 # CHR 0x27 # ''!#$%&*+-.^_|~'')"

fun canonical_rest :: "bool \<Rightarrow> string \<Rightarrow> string" where
  "canonical_rest up [] = []"
| "canonical_rest up (c # cs) = (if up then upper_char c else lower_char c) # canonical_rest (c = CHR ''-'') cs"

definition canonical_key :: "string \<Rightarrow> string" where
  "canonical_key s = (if list_all is_token_char s then canonical_rest True s else s)"

lemma upper_char_cases: "upper_char c = c \<or> (is_alpha c \<and> is_alpha (upper_char c))"
proof (cases "97 \<le> (of_char c :: nat) \<and> (of_char c :: nat) \<le> 122")
  case True
  then have "(of_char (upper_char c) :: nat) = (of_char c - 32) mod 256" by (simp add: upper_char_def Let_def)
  also have "\<dots> = of_char c - 32" using True by (intro mod_less) linarith
  finally show ?thesis using True by (auto simp: is_alpha_def Let_def)
qed (auto simp: upper_char_def Let_def)

lemma lower_char_cases: "lower_char c = c \<or> (is_alpha c \<and> is_alpha (lower_char c))"
proof (cases "65 \<le> (of_char c :: nat) \<and> (of_char c :: nat) \<le> 90")
  case True
  then have "(of_char (lower_char c) :: nat) = (of_char c + 32) mod 256" by (simp add: lower_char_def Let_def)
  also have "\<dots> = of_char c + 32" using True by (intro mod_less) linarith
  finally show ?thesis using True by (auto simp: is_alpha_def Let_def)
qed (auto simp: lower_char_def Let_def)

lemma upper_lower_token: "is_token_char c \<Longrightarrow> is_token_char (upper_char c) \<and> is_token_char (lower_char c)"
  using upper_char_cases[of c] lower_char_cases[of c] by (auto simp: is_token_char_def is_alnum_def)

lemma dash_not_alpha: "\<not> is_alpha CHR ''-''"
  by (simp add: is_alpha_def)

lemma case_dash: "(upper_char c = CHR ''-'') = (c = CHR ''-'')" "(lower_char c = CHR ''-'') = (c = CHR ''-'')"
  using upper_char_cases[of c] lower_char_cases[of c] dash_not_alpha by auto

lemma canonical_rest_idem: "canonical_rest up (canonical_rest up s) = canonical_rest up s"
  by (induction up s rule: canonical_rest.induct) (simp_all add: case_dash)

lemma canonical_rest_token: "list_all is_token_char s \<Longrightarrow> list_all is_token_char (canonical_rest up s)"
  by (induction up s rule: canonical_rest.induct) (simp_all add: upper_lower_token)

lemma canonical_key_idem [simp]: "canonical_key (canonical_key s) = canonical_key s"
  by (simp add: canonical_key_def canonical_rest_idem canonical_rest_token)

section \<open>Headers\<close>

type_synonym header = "string \<rightharpoonup> string list"

definition h_values :: "header \<Rightarrow> string \<Rightarrow> string list" where
  "h_values h k = (case h (canonical_key k) of None \<Rightarrow> [] | Some vs \<Rightarrow> vs)"

definition h_get :: "header \<Rightarrow> string \<Rightarrow> string" where
  "h_get h k = (case h_values h k of [] \<Rightarrow> [] | v # _ \<Rightarrow> v)"

definition h_set :: "string \<Rightarrow> string \<Rightarrow> header \<Rightarrow> header" where
  "h_set k v h = h(canonical_key k \<mapsto> [v])"

definition h_add :: "string \<Rightarrow> string \<Rightarrow> header \<Rightarrow> header" where
  "h_add k v h = h(canonical_key k \<mapsto> h_values h k @ [v])"

definition h_del :: "string \<Rightarrow> header \<Rightarrow> header" where
  "h_del k h = h(canonical_key k := None)"

lemma h_values_set: "h_values (h_set k v h) k' = (if canonical_key k' = canonical_key k then [v] else h_values h k')"
  by (simp add: h_values_def h_set_def)

lemma h_values_add:
  "h_values (h_add k v h) k' = (if canonical_key k' = canonical_key k then h_values h k @ [v] else h_values h k')"
  by (simp add: h_values_def h_add_def)

lemma h_values_del: "h_values (h_del k h) k' = (if canonical_key k' = canonical_key k then [] else h_values h k')"
  by (simp add: h_values_def h_del_def)

lemmas h_values_simps = h_values_set h_values_add h_values_del

lemma h_get_set: "h_get (h_set k v h) k' = (if canonical_key k' = canonical_key k then v else h_get h k')"
  by (simp add: h_get_def h_values_set)

lemma h_get_del: "h_get (h_del k h) k' = (if canonical_key k' = canonical_key k then [] else h_get h k')"
  by (simp add: h_get_def h_values_del)

text \<open>The parts of a request that the model's components read. \<open>req_query\<close> is the raw query.\<close>

record request =
  req_method :: string
  req_host :: string
  req_path :: string
  req_query :: string
  req_header :: header

section \<open>Cookies\<close>

text \<open>\<open>strings.Cut\<close> with a separator of one byte: the parts and whether it was found.\<close>

fun cut :: "char \<Rightarrow> string \<Rightarrow> string \<times> string \<times> bool" where
  "cut c [] = ([], [], False)"
| "cut c (x # xs) = (if x = c then ([], xs, True) else (case cut c xs of (a, b, f) \<Rightarrow> (x # a, b, f)))"

definition text_space :: "char \<Rightarrow> bool" where
  "text_space c \<longleftrightarrow> c \<in> set [CHR '' '', CHR 0x09, CHR 0x0A, CHR 0x0D]"

definition valid_cookie_byte :: "char \<Rightarrow> bool" where
  "valid_cookie_byte c \<longleftrightarrow> (let n = of_char c :: nat in 32 \<le> n \<and> n < 127) \<and> c \<notin> set [CHR 0x22, CHR '';'', CHR 0x5C]"

definition cookie_value :: "string \<Rightarrow> string option" where
  "cookie_value raw =
     (let v = (if length raw > 1 \<and> hd raw = CHR 0x22 \<and> last raw = CHR 0x22 then butlast (tl raw) else raw) in
      if list_all valid_cookie_byte v then Some v else None)"

definition read_cookie :: "string \<Rightarrow> (string \<times> string) list" where
  "read_cookie part0 =
     (let part = trim text_space part0 in
      if part = [] then []
      else (case cut CHR ''='' part of (n, v, _) \<Rightarrow>
        let name = trim text_space n in
        if name = [] \<or> \<not> list_all is_token_char name then []
        else (case cookie_value v of None \<Rightarrow> [] | Some val \<Rightarrow> [(name, val)])))"

text \<open>All cookies of a request in the order of its header lines.\<close>

definition read_cookies :: "header \<Rightarrow> (string \<times> string) list" where
  "read_cookies h = concat (map (\<lambda>line. concat (map read_cookie (split_on CHR '';'' (trim text_space line)))) (h_values h ''Cookie''))"

text \<open>\<open>Request.Cookie\<close>: \<open>None\<close> stands for \<open>http.ErrNoCookie\<close>.\<close>

definition req_cookie :: "header \<Rightarrow> string \<Rightarrow> string option" where
  "req_cookie h name = (if name = [] then None else map_of (read_cookies h) name)"

section \<open>Base64\<close>

definition b64_alphabet :: string where
  "b64_alphabet = ''ABCDEFGHIJKLMNOPQRSTUVWXYZabcdefghijklmnopqrstuvwxyz0123456789+/''"

definition b64_char :: "nat \<Rightarrow> char" where
  "b64_char n = b64_alphabet ! n"

definition b64_val :: "char \<Rightarrow> nat option" where
  "b64_val c = index_of c b64_alphabet"

definition byte :: "nat \<Rightarrow> char" where
  "byte n = char_of n"

text \<open>\<open>StdEncoding.EncodeToString\<close>.\<close>

fun b64_encode :: "string \<Rightarrow> string" where
  "b64_encode [] = []"
| "b64_encode [a] =
     (let x = of_char a :: nat in
      [b64_char (x div 4), b64_char (x mod 4 * 16), CHR ''='', CHR ''=''])"
| "b64_encode [a, b] =
     (let x = of_char a :: nat; y = of_char b in
      [b64_char (x div 4), b64_char (x mod 4 * 16 + y div 16), b64_char (y mod 16 * 4), CHR ''=''])"
| "b64_encode (a # b # c # cs) =
     (let x = of_char a :: nat; y = of_char b; z = of_char c in
      b64_char (x div 4) # b64_char (x mod 4 * 16 + y div 16) # b64_char (y mod 16 * 4 + z div 64) #
      b64_char (z mod 64) # b64_encode cs)"

text \<open>\<open>StdEncoding.DecodeString\<close>: line breaks are skipped, padding is required at the end, and
  the unused bits of the last digit are not checked.\<close>

fun b64_groups :: "string \<Rightarrow> string option" where
  "b64_groups [] = Some []"
| "b64_groups [a, b, c, d] =
     (case (b64_val a, b64_val b) of
        (Some x, Some y) \<Rightarrow>
          if c = CHR ''='' then (if d = CHR ''='' then Some [byte (x * 4 + y div 16)] else None)
          else (case b64_val c of
             None \<Rightarrow> None
           | Some z \<Rightarrow>
               if d = CHR ''='' then Some [byte (x * 4 + y div 16), byte (y mod 16 * 16 + z div 4)]
               else map_option (\<lambda>w. [byte (x * 4 + y div 16), byte (y mod 16 * 16 + z div 4), byte (z mod 4 * 64 + w)])
                      (b64_val d))
      | _ \<Rightarrow> None)"
| "b64_groups (a # b # c # d # cs) =
     (case (b64_val a, b64_val b, b64_val c, b64_val d, b64_groups cs) of
        (Some x, Some y, Some z, Some w, Some r) \<Rightarrow>
          Some (byte (x * 4 + y div 16) # byte (y mod 16 * 16 + z div 4) # byte (z mod 4 * 64 + w) # r)
      | _ \<Rightarrow> None)"
| "b64_groups _ = None"

definition b64_decode :: "string \<Rightarrow> string option" where
  "b64_decode s = b64_groups (filter (\<lambda>c. c \<noteq> CHR 0x0A \<and> c \<noteq> CHR 0x0D) s)"

section \<open>Basic credentials\<close>

text \<open>\<open>Request.BasicAuth\<close> and the value \<open>Request.SetBasicAuth\<close> writes.\<close>

definition basic_auth_value :: "string \<Rightarrow> string \<Rightarrow> string" where
  "basic_auth_value user pass = ''Basic '' @ b64_encode (user @ '':'' @ pass)"

definition parse_basic_auth :: "string \<Rightarrow> (string \<times> string) option" where
  "parse_basic_auth auth =
     (if length auth < 6 \<or> \<not> equal_fold (take 6 auth) ''Basic '' then None
      else (case b64_decode (drop 6 auth) of
         None \<Rightarrow> None
       | Some cs \<Rightarrow> (case cut CHR '':'' cs of (u, p, found) \<Rightarrow> if found then Some (u, p) else None)))"

definition req_basic_auth :: "header \<Rightarrow> (string \<times> string) option" where
  "req_basic_auth h = (let auth = h_get h ''Authorization'' in if auth = [] then None else parse_basic_auth auth)"

section \<open>Round trips\<close>

lemma b64_chars:
  "list_all (\<lambda>n. b64_val (b64_char n) = Some n \<and> b64_char n \<noteq> CHR ''='' \<and>
     b64_char n \<noteq> CHR 0x0A \<and> b64_char n \<noteq> CHR 0x0D) [0..<64]"
  by code_simp

lemma b64_char_facts [simp]:
  "n < 64 \<Longrightarrow> b64_val (b64_char n) = Some n" "n < 64 \<Longrightarrow> b64_char n \<noteq> CHR ''=''"
  "n < 64 \<Longrightarrow> b64_char n \<noteq> CHR 0x0A" "n < 64 \<Longrightarrow> b64_char n \<noteq> CHR 0x0D"
  using b64_chars by (auto simp: list_all_iff)

lemma b64_digits [simp]:
  fixes x y z :: nat
  shows "x < 256 \<Longrightarrow> x div 4 < 64" "x mod 4 * 16 < 64"
    "y < 256 \<Longrightarrow> x mod 4 * 16 + y div 16 < 64" "y mod 16 * 4 < 64"
    "z < 256 \<Longrightarrow> y mod 16 * 4 + z div 64 < 64"
    "y < 256 \<Longrightarrow> y div 16 div 16 = 0" "z < 256 \<Longrightarrow> z div 64 div 4 = 0"
    "y < 256 \<Longrightarrow> y div 16 mod 16 * 16 + y mod 16 = y"
    "z < 256 \<Longrightarrow> z div 64 mod 4 * 64 + z mod 64 = z"
proof -
  show "y < 256 \<Longrightarrow> y div 16 mod 16 * 16 + y mod 16 = y"
    by (metis div_less_iff_less_mult div_mult_mod_eq mod_less numeral_times_numeral semiring_norm(12) semiring_norm(13) zero_less_numeral)
  show "z < 256 \<Longrightarrow> z div 64 mod 4 * 64 + z mod 64 = z" by simp
qed simp_all

lemma b64_groups_Cons:
  "cs \<noteq> [] \<Longrightarrow> b64_groups (a # b # c # d # cs) =
     (case (b64_val a, b64_val b, b64_val c, b64_val d, b64_groups cs) of
        (Some x, Some y, Some z, Some w, Some r) \<Rightarrow>
          Some (byte (x * 4 + y div 16) # byte (y mod 16 * 16 + z div 4) # byte (z mod 4 * 64 + w) # r)
      | _ \<Rightarrow> None)"
  by (cases cs) simp_all

lemma b64_encode_nonempty: "s \<noteq> [] \<Longrightarrow> b64_encode s \<noteq> []"
  by (induction s rule: b64_encode.induct) (simp_all add: Let_def)

lemma byte_of_char [simp]: "byte (of_char c) = c"
  by (simp add: byte_def)

lemma b64_groups_encode: "b64_groups (b64_encode s) = Some s"
proof (induction s rule: b64_encode.induct)
  case (4 a b c cs)
  then show ?case
    by (cases "cs = []") (simp_all add: Let_def b64_groups_Cons b64_encode_nonempty)
qed (simp_all add: Let_def)

lemma b64_encode_no_breaks: "c \<in> set (b64_encode s) \<Longrightarrow> c \<noteq> CHR 0x0A \<and> c \<noteq> CHR 0x0D"
  by (induction s rule: b64_encode.induct) (auto simp: Let_def)

lemma b64_decode_encode [simp]: "b64_decode (b64_encode s) = Some s"
proof -
  have "filter (\<lambda>c. c \<noteq> CHR 0x0A \<and> c \<noteq> CHR 0x0D) (b64_encode s) = b64_encode s"
    using b64_encode_no_breaks by (auto intro!: filter_True)
  then show ?thesis by (simp add: b64_decode_def b64_groups_encode)
qed

lemma cut_append: "c \<notin> set u \<Longrightarrow> cut c (u @ c # p) = (u, p, True)"
  by (induction u) auto

lemma parse_basic_auth_value:
  "CHR '':'' \<notin> set u \<Longrightarrow> parse_basic_auth (basic_auth_value u p) = Some (u, p)"
  by (simp add: parse_basic_auth_def basic_auth_value_def cut_append)

end
