(* ===== verification/QueryString.thy ===== *)
theory QueryString
  imports HttpModel "HOL-Library.Char_ord" "HOL-Library.List_Lexorder"
begin

text \<open>
  The part of \<open>net/url\<close> for queries and forms: escaping, and \<open>url.Values\<close> with \<open>ParseQuery\<close> (whose
  errors \<open>URL.Query\<close> drops) and \<open>Encode\<close>. Values are a Go map; they are an association list without
  repeated keys.
\<close>

section \<open>Query escaping\<close>

text \<open>\<open>url.QueryEscape\<close> and \<open>url.QueryUnescape\<close>.\<close>

definition unreserved :: "char \<Rightarrow> bool" where
  "unreserved c \<longleftrightarrow> is_alnum c \<or> c \<in> set ''-_.~''"

definition upper_hex :: "nat \<Rightarrow> char" where
  "upper_hex n = (''0123456789ABCDEF'') ! n"

definition escape_char :: "char \<Rightarrow> string" where
  "escape_char c =
     (if unreserved c then [c] else if c = CHR '' '' then ''+''
      else (let n = of_char c :: nat in [CHR ''%'', upper_hex (n div 16), upper_hex (n mod 16)]))"

definition query_escape :: "string \<Rightarrow> string" where
  "query_escape s = concat (map escape_char s)"

definition hex_value :: "char \<Rightarrow> nat option" where
  "hex_value c = index_of (upper_char c) ''0123456789ABCDEF''"

fun query_unescape :: "string \<Rightarrow> string option" where
  "query_unescape [] = Some []"
| "query_unescape (c # cs) =
     (if c = CHR ''%'' then
        (case cs of
           a # b # r \<Rightarrow>
             (case (hex_value a, hex_value b, query_unescape r) of
                (Some x, Some y, Some t) \<Rightarrow> Some (byte (x * 16 + y) # t)
              | _ \<Rightarrow> None)
         | _ \<Rightarrow> None)
      else map_option ((#) (if c = CHR ''+'' then CHR '' '' else c)) (query_unescape cs))"

section \<open>Values\<close>

type_synonym url_values = "(string \<times> string list) list"

definition v_add :: "string \<Rightarrow> string \<Rightarrow> url_values \<Rightarrow> url_values" where
  "v_add k v m = set_key k ((case map_of m k of None \<Rightarrow> [] | Some vs \<Rightarrow> vs) @ [v]) m"

definition v_del :: "string \<Rightarrow> url_values \<Rightarrow> url_values" where
  "v_del k m = filter (\<lambda>(k', vs). k' \<noteq> k) m"

definition parse_pair :: "string \<Rightarrow> url_values \<Rightarrow> url_values" where
  "parse_pair part m =
     (if CHR '';'' \<in> set part \<or> part = [] then m
      else (case cut CHR ''='' part of (key, val, found) \<Rightarrow>
        (case (query_unescape key, query_unescape val) of
           (Some k, Some v) \<Rightarrow> v_add k v m
         | _ \<Rightarrow> m)))"

definition parse_query :: "string \<Rightarrow> url_values" where
  "parse_query q = fold parse_pair (split_on CHR ''&'' q) []"

definition encode_pair :: "string \<times> string \<Rightarrow> string" where
  "encode_pair kv = query_escape (fst kv) @ ''='' @ query_escape (snd kv)"

definition values_pairs :: "url_values \<Rightarrow> (string \<times> string) list" where
  "values_pairs m = concat (map (\<lambda>k. map (Pair k) (the (map_of m k))) (sort (map fst m)))"

definition values_encode :: "url_values \<Rightarrow> string" where
  "values_encode m = join_with ''&'' (map encode_pair (values_pairs m))"

text \<open>\<open>strings.ReplaceAll\<close> for a single byte.\<close>

definition replace_char :: "char \<Rightarrow> string \<Rightarrow> string \<Rightarrow> string" where
  "replace_char c new s = concat (map (\<lambda>x. if x = c then new else [x]) s)"

section \<open>Escaping is inverted\<close>

lemma hex_digits: "n < 16 \<Longrightarrow> hex_value (upper_hex n) = Some n \<and> unreserved (upper_hex n)"
proof -
  have "list_all (\<lambda>n. hex_value (upper_hex n) = Some n \<and> unreserved (upper_hex n)) [0..<16]" by code_simp
  then show "n < 16 \<Longrightarrow> hex_value (upper_hex n) = Some n \<and> unreserved (upper_hex n)" by (auto simp: list_all_iff)
qed

lemma char_digits: "(of_char c :: nat) div 16 < 16" "(of_char c :: nat) mod 16 < 16"
  by (rule less_mult_imp_div_less) simp_all

lemma escape_bytes: "c \<in> set (query_escape s) \<Longrightarrow> unreserved c \<or> c = CHR ''+'' \<or> c = CHR ''%''"
  using hex_digits[OF char_digits(1)] hex_digits[OF char_digits(2)]
  by (auto simp: query_escape_def escape_char_def Let_def split: if_splits)

lemma escape_no_separator:
  "CHR '':'' \<notin> set (query_escape s)" "CHR ''&'' \<notin> set (query_escape s)" "CHR ''='' \<notin> set (query_escape s)"
  "CHR '';'' \<notin> set (query_escape s)"
proof -
  have "\<not> unreserved CHR '':'' \<and> \<not> unreserved CHR ''&'' \<and> \<not> unreserved CHR ''='' \<and> \<not> unreserved CHR '';''" by code_simp
  then show "CHR '':'' \<notin> set (query_escape s)" "CHR ''&'' \<notin> set (query_escape s)"
    "CHR ''='' \<notin> set (query_escape s)" "CHR '';'' \<notin> set (query_escape s)"
    using escape_bytes[of "CHR '':''" s] escape_bytes[of "CHR ''&''" s] escape_bytes[of "CHR ''=''" s] escape_bytes[of "CHR '';''" s]
    by auto
qed

lemmas escape_no_colon = escape_no_separator(1)

text \<open>A space may be written as \<open>+\<close> or as \<open>%20\<close>.\<close>

definition space_as :: "string \<Rightarrow> bool" where
  "space_as sp \<longleftrightarrow> sp \<in> {''+'', ''%20''}"

lemma unescape_space: "space_as sp \<Longrightarrow> query_unescape (sp @ s) = map_option ((#) CHR '' '') (query_unescape s)"
proof -
  have "hex_value CHR ''2'' = Some 2" "hex_value CHR ''0'' = Some 0" "byte 32 = CHR '' ''" by code_simp+
  then show "space_as sp \<Longrightarrow> query_unescape (sp @ s) = map_option ((#) CHR '' '') (query_unescape s)"
    by (auto simp: space_as_def split: option.split)
qed

lemma unescape_escape_as: "space_as sp \<Longrightarrow> query_unescape (replace_char CHR ''+'' sp (query_escape s)) = Some s"
proof (induction s)
  case (Cons c s)
  have c: "\<not> unreserved CHR ''%''" "\<not> unreserved CHR ''+''" by code_simp+
  have hex: "upper_hex n \<noteq> CHR ''+''" if "n < 16" for n using hex_digits[OF that] c by auto
  have split: "replace_char CHR ''+'' sp (query_escape (c # s)) =
      replace_char CHR ''+'' sp (escape_char c) @ replace_char CHR ''+'' sp (query_escape s)"
    by (simp add: replace_char_def query_escape_def)
  consider (plain) "unreserved c" | (space) "c = CHR '' ''" | (hex) "\<not> unreserved c" "c \<noteq> CHR '' ''" by blast
  then show ?case
  proof cases
    case plain
    with c have "c \<noteq> CHR ''%''" "c \<noteq> CHR ''+''" by auto
    with plain Cons show ?thesis unfolding split by (simp add: escape_char_def replace_char_def)
  next
    case space
    then have "replace_char CHR ''+'' sp (escape_char c) = sp" if "\<not> unreserved CHR '' ''"
      using that by (simp add: escape_char_def replace_char_def)
    moreover have "\<not> unreserved CHR '' ''" by code_simp
    ultimately show ?thesis unfolding split using unescape_space[OF Cons.prems] Cons space by simp
  next
    case hex
    from hex(1,2) have "replace_char CHR ''+'' sp (escape_char c) =
        [CHR ''%'', upper_hex (of_char c div 16), upper_hex (of_char c mod 16)]"
      using \<open>\<And>n. n < 16 \<Longrightarrow> upper_hex n \<noteq> CHR ''+''\<close> char_digits[of c]
      by (simp add: escape_char_def replace_char_def Let_def)
    with Cons hex_digits[OF char_digits(1)[of c]] hex_digits[OF char_digits(2)[of c]] show ?thesis
      unfolding split by simp
  qed
qed (simp add: query_escape_def replace_char_def)

lemma replace_plus_plus: "replace_char c [c] s = s"
  by (induction s) (simp_all add: replace_char_def)

lemma unescape_escape: "query_unescape (query_escape s) = Some s"
  using unescape_escape_as[of "''+''" s] by (simp add: space_as_def replace_plus_plus)

section \<open>Encoding is inverted\<close>

text \<open>What a key has in a map of values; a key without values is as good as no key.\<close>

definition values_of :: "url_values \<Rightarrow> string \<Rightarrow> string list" where
  "values_of m k = (case map_of m k of None \<Rightarrow> [] | Some vs \<Rightarrow> vs)"

lemma values_of_Nil [simp]: "values_of [] k = []"
  by (simp add: values_of_def)

lemma values_of_add [simp]: "values_of (v_add k v m) k' = values_of m k' @ (if k' = k then [v] else [])"
  by (simp add: values_of_def v_add_def)

lemma values_of_del [simp]: "values_of (v_del k m) k' = (if k' = k then [] else values_of m k')"
proof -
  have "map_of (v_del k m) k' = (if k' = k then None else map_of m k')"
    by (induction m) (auto simp: v_del_def)
  then show ?thesis by (simp add: values_of_def)
qed

lemma values_of_set [simp]: "values_of (set_key k vs m) k' = (if k' = k then vs else values_of m k')"
  by (simp add: values_of_def)

lemma values_of_fold_add:
  "values_of (fold (\<lambda>(k, v). v_add k v) kvs m) k = values_of m k @ map snd (filter (\<lambda>(k', v). k' = k) kvs)"
  by (induction kvs arbitrary: m) auto

lemma replace_char_append [simp]: "replace_char c new (s @ t) = replace_char c new s @ replace_char c new t"
  by (simp add: replace_char_def)

lemma replace_char_other: "c \<notin> set s \<Longrightarrow> replace_char c new s = s"
  by (induction s) (auto simp: replace_char_def)

lemma replace_char_join: "c \<noteq> CHR ''&'' \<Longrightarrow> replace_char c new (join_with ''&'' ps) = join_with ''&'' (map (replace_char c new) ps)"
  by (induction "''&''" ps rule: join_with.induct) (simp_all add: replace_char_def)

lemma replace_char_set: "x \<in> set (replace_char c new s) \<Longrightarrow> x \<in> set s \<or> x \<in> set new"
  by (induction s) (auto simp: replace_char_def split: if_splits)

lemma parse_encoded_pair:
  assumes "space_as sp"
  shows "parse_pair (replace_char CHR ''+'' sp (encode_pair (k, v))) m = v_add k v m"
proof -
  let ?e = "\<lambda>s. replace_char CHR ''+'' sp (query_escape s)"
  have form: "replace_char CHR ''+'' sp (encode_pair (k, v)) = ?e k @ CHR ''='' # ?e v"
    by (simp add: encode_pair_def) (simp add: replace_char_def)
  have sp: "CHR ''='' \<notin> set sp" "CHR '';'' \<notin> set sp" using assms by (auto simp: space_as_def)
  then have no: "CHR ''='' \<notin> set (?e k)" "CHR '';'' \<notin> set (?e k)" "CHR '';'' \<notin> set (?e v)"
    using escape_no_separator replace_char_set by metis+
  show ?thesis
    unfolding form parse_pair_def cut_append[OF no(1)] using no unescape_escape_as[OF assms] by simp
qed

lemma fold_parse_pairs:
  "space_as sp \<Longrightarrow> fold parse_pair (map (\<lambda>kv. replace_char CHR ''+'' sp (encode_pair kv)) kvs) m =
     fold (\<lambda>(k, v). v_add k v) kvs m"
  by (induction kvs arbitrary: m) (auto simp: parse_encoded_pair)

lemma parse_encode_pairs:
  assumes "space_as sp"
  shows "parse_query (replace_char CHR ''+'' sp (values_encode m)) = fold (\<lambda>(k, v). v_add k v) (values_pairs m) []"
proof (cases "values_pairs m = []")
  case True
  then show ?thesis by (simp add: values_encode_def parse_query_def parse_pair_def replace_char_def)
next
  case False
  let ?ps = "map (\<lambda>kv. replace_char CHR ''+'' sp (encode_pair kv)) (values_pairs m)"
  have "CHR ''&'' \<notin> set sp" using assms by (auto simp: space_as_def)
  then have "CHR ''&'' \<notin> set (replace_char CHR ''+'' sp (encode_pair kv))" for kv
    using replace_char_set[of "CHR ''&''" "CHR ''+''" sp "encode_pair kv"] escape_no_separator(2)
    by (auto simp: encode_pair_def)
  then have "split_on CHR ''&'' (join_with ''&'' ?ps) = ?ps" using False by (intro split_join_with) auto
  then show ?thesis
    using fold_parse_pairs[OF assms, of "values_pairs m" "[]"] replace_char_join[of "CHR ''+''" sp]
    by (simp add: values_encode_def parse_query_def comp_def)
qed

lemma filter_values_pairs:
  assumes "distinct (map fst m)"
  shows "map snd (filter (\<lambda>(k', v). k' = k) (values_pairs m)) = values_of m k"
proof -
  have "map snd (filter (\<lambda>(k', v). k' = k) (concat (map (\<lambda>k. map (Pair k) (f k)) ks))) = (if k \<in> set ks then f k else [])"
    if "distinct ks" for ks :: "string list" and f :: "string \<Rightarrow> string list"
    using that
  proof (induction ks)
    case (Cons a ks)
    have "map snd (filter (\<lambda>(k', v). k' = k) (map (Pair a) (f a))) = (if a = k then f a else [])"
      by (simp add: comp_def filter_map)
    with Cons show ?case by auto
  qed simp
  from this[of "sort (map fst m)" "\<lambda>k. the (map_of m k)"] assms
  show ?thesis by (auto simp: values_pairs_def values_of_def map_of_eq_None_iff split: option.split) (force dest: map_of_SomeD)
qed

lemma query_roundtrip:
  assumes "distinct (map fst m)" and "space_as sp"
  shows "values_of (parse_query (replace_char CHR ''+'' sp (values_encode m))) = values_of m"
  unfolding parse_encode_pairs[OF assms(2)]
  by (rule ext) (simp add: values_of_fold_add filter_values_pairs[OF assms(1)])

end
