(* ===== verification/Paths.thy ===== *)
theory Paths
  imports GoPrelude
begin

text \<open>
  Joining of paths (\<open>utils/path.go\<close>) with \<open>path.Clean\<close> and \<open>path.Join\<close> of the standard library, by
  the rules of their documentation: empty elements and \<open>.\<close> disappear, \<open>..\<close> removes what precedes it
  and disappears at the start of a rooted path.
\<close>

section \<open>The package path\<close>

definition clean_step :: "bool \<Rightarrow> string \<Rightarrow> string list \<Rightarrow> string list" where
  "clean_step rooted seg acc =
     (if seg = [] \<or> seg = ''.'' then acc
      else if seg = ''..''
      then (case acc of
         [] \<Rightarrow> if rooted then [] else [''..'']
       | a # rest \<Rightarrow> if a = ''..'' then ''..'' # acc else rest)
      else seg # acc)"

definition clean_segments :: "bool \<Rightarrow> string \<Rightarrow> string list" where
  "clean_segments rooted p = rev (fold (clean_step rooted) (split_on CHR ''/'' p) [])"

definition path_clean :: "string \<Rightarrow> string" where
  "path_clean p =
     (let rooted = has_prefix p ''/''; s = join_with ''/'' (clean_segments rooted p) in
      if rooted then ''/'' @ s else if s = [] then ''.'' else s)"

definition join_step :: "string \<Rightarrow> string \<Rightarrow> string" where
  "join_step e buf = (if buf \<noteq> [] then buf @ ''/'' @ e else e)"

definition path_join :: "string list \<Rightarrow> string" where
  "path_join es = (let buf = fold join_step es [] in if buf = [] then [] else path_clean buf)"

section \<open>utils/path.go\<close>

definition JoinPath :: "string list \<Rightarrow> string" where
  "JoinPath es =
     (if es = [] then []
      else (let suffix = (if has_suffix (last es) ''/'' then ''/'' else []); p = path_join es in
        if p = ''/'' then p else p @ suffix))"

definition open_api_step :: "string \<Rightarrow> string \<Rightarrow> string" where
  "open_api_step e0 res =
     (let e = (if e0 = [] then ''/'' else e0);
          slash = (res \<noteq> [] \<and> has_suffix res ''/'') in
      (if has_prefix e ''/'' \<and> \<not> slash then res @ ''/'' else res) @ trim_prefix e ''/'')"

definition JoinOpenAPIPath :: "string list \<Rightarrow> string" where
  "JoinOpenAPIPath es =
     (if es = [] then []
      else fold open_api_step (if last es = ''/'' then butlast es else es) [])"

section \<open>Segments\<close>

text \<open>A clean list of segments: no empty one, no \<open>.\<close> and no \<open>..\<close>.\<close>

definition clean_list :: "string list \<Rightarrow> bool" where
  "clean_list segs \<longleftrightarrow> list_all (\<lambda>s. s \<notin> {[], ''.'', ''..''} \<and> CHR ''/'' \<notin> set s) segs"

lemma clean_step_clean: "clean_list acc \<Longrightarrow> CHR ''/'' \<notin> set s \<Longrightarrow> clean_list (clean_step True s acc)"
  by (cases acc) (auto simp: clean_step_def clean_list_def)

lemma fold_clean:
  "\<forall>s \<in> set segs. CHR ''/'' \<notin> set s \<Longrightarrow> clean_list acc \<Longrightarrow> clean_list (fold (clean_step True) segs acc)"
  by (induction segs arbitrary: acc) (simp_all add: clean_step_clean)

lemma clean_segments_clean: "clean_list (clean_segments True p)"
proof -
  have "clean_list (fold (clean_step True) (split_on CHR ''/'' p) [])"
    using split_on_no_sep by (intro fold_clean) (auto simp: clean_list_def)
  then show ?thesis by (simp add: clean_segments_def clean_list_def)
qed

definition plain_segments :: "string \<Rightarrow> string list" where
  "plain_segments p = filter (\<lambda>s. s \<noteq> [] \<and> s \<noteq> ''.'') (split_on CHR ''/'' p)"

lemma fold_plain:
  "''..'' \<notin> set segs \<Longrightarrow>
     fold (clean_step rooted) segs acc = rev (filter (\<lambda>s. s \<noteq> [] \<and> s \<noteq> ''.'') segs) @ acc"
  by (induction segs arbitrary: acc) (auto simp: clean_step_def)

lemma clean_segments_append:
  assumes "''..'' \<notin> set (split_on CHR ''/'' q)"
  shows "clean_segments rooted (p @ ''/'' @ q) = clean_segments rooted p @ plain_segments q"
proof -
  have "split_on CHR ''/'' (p @ ''/'' @ q) = split_on CHR ''/'' p @ split_on CHR ''/'' q"
    using split_on_append[of "CHR ''/''" p q] by simp
  then show ?thesis by (simp add: clean_segments_def plain_segments_def fold_plain[OF assms])
qed

lemma clean_segments_rooted: "clean_segments rooted (''/'' @ p) = clean_segments rooted p"
  using split_on_append[of "CHR ''/''" "[]" p] by (simp add: clean_segments_def clean_step_def)

lemma clean_list_fixed:
  assumes "clean_list segs" shows "clean_segments rooted (join_with ''/'' segs) = segs"
proof (cases "segs = []")
  case True
  then show ?thesis by (simp add: clean_segments_def clean_step_def)
next
  case False
  from assms have no: "''..'' \<notin> set segs" "\<forall>x \<in> set segs. CHR ''/'' \<notin> set x"
    and keep: "filter (\<lambda>s. s \<noteq> [] \<and> s \<noteq> ''.'') segs = segs"
    by (auto simp: clean_list_def list_all_iff intro!: filter_True)
  have "split_on CHR ''/'' (join_with ''/'' segs) = segs" by (rule split_join_with) (use False no in auto)
  then show ?thesis by (simp add: clean_segments_def fold_plain[OF no(1)] keep)
qed

section \<open>Joined paths\<close>

definition joined_segments :: "string list \<Rightarrow> string list" where
  "joined_segments es = clean_segments True (fold join_step es ''/'')"

lemma fold_join_step: "buf \<noteq> [] \<Longrightarrow> \<exists>t. fold join_step es buf = buf @ t"
proof (induction es arbitrary: buf)
  case (Cons e es)
  from Cons.IH[of "buf @ ''/'' @ e"] Cons.prems show ?case by (auto simp: join_step_def)
qed simp

lemma path_join_root: "path_join (''/'' # es) = ''/'' @ join_with ''/'' (joined_segments es)"
proof -
  obtain t where t: "fold join_step es ''/'' = ''/'' @ t" using fold_join_step by blast
  then have "has_prefix (fold join_step es ''/'') ''/''" by (simp add: has_prefix_def)
  moreover from t have "fold join_step es ''/'' \<noteq> []" by simp
  moreover have "join_step ''/'' [] = ''/''" by (simp add: join_step_def)
  ultimately show ?thesis
    by (simp add: path_join_def path_clean_def joined_segments_def Let_def)
qed

lemma joined_segments_clean: "clean_list (joined_segments es)"
  by (simp add: joined_segments_def clean_segments_clean)

lemma plain_segments_clean:
  assumes "clean_list segs"
  shows "plain_segments (''/'' @ join_with ''/'' segs) = segs" "plain_segments (''/'' @ join_with ''/'' segs @ ''/'') = segs"
proof -
  have split: "split_on CHR ''/'' (join_with ''/'' segs) = (if segs = [] then [[]] else segs)"
    using assms by (auto simp: clean_list_def list_all_iff intro!: split_join_with)
  have keep: "filter (\<lambda>s. s \<noteq> [] \<and> s \<noteq> ''.'') segs = segs"
    using assms by (auto simp: clean_list_def list_all_iff intro!: filter_True)
  show "plain_segments (''/'' @ join_with ''/'' segs) = segs"
    by (simp add: plain_segments_def split keep)
  show "plain_segments (''/'' @ join_with ''/'' segs @ ''/'') = segs"
    using split_on_append[of "CHR ''/''" "join_with ''/'' segs" "[]"] by (simp add: plain_segments_def split keep)
qed

lemma join_with_clean_empty: "clean_list segs \<Longrightarrow> join_with ''/'' segs = [] \<longleftrightarrow> segs = []"
  by (cases segs; cases "tl segs") (auto simp: clean_list_def)

lemma JoinPath_root:
  "JoinPath (''/'' # es) = ''/'' @ join_with ''/'' (joined_segments es) @
     (if joined_segments es \<noteq> [] \<and> has_suffix (last (''/'' # es)) ''/'' then ''/'' else [])"
  using join_with_clean_empty[OF joined_segments_clean, of es]
  by (auto simp: JoinPath_def path_join_root Let_def)

lemma JoinPath_segments: "plain_segments (JoinPath (''/'' # es)) = joined_segments es"
  by (simp add: JoinPath_root plain_segments_clean[OF joined_segments_clean, simplified])

lemma joined_segments_snoc:
  assumes "''..'' \<notin> set (split_on CHR ''/'' q)"
  shows "joined_segments (es @ [q]) = joined_segments es @ plain_segments q"
proof -
  obtain t where t: "fold join_step es ''/'' = ''/'' @ t" using fold_join_step by blast
  then have "fold join_step (es @ [q]) ''/'' = fold join_step es ''/'' @ ''/'' @ q" by (simp add: join_step_def)
  then show ?thesis unfolding joined_segments_def by (simp only: clean_segments_append[OF assms])
qed

text \<open>
  What is joined below a prefix stays below it: the segments of \<open>JoinPath\<close> of a root, other
  elements and a last element without \<open>..\<close> segments are those of the other elements followed by those of
  the last one; none of them is empty, \<open>.\<close> or \<open>..\<close>.
\<close>

theorem joined_below_prefix:
  assumes "''..'' \<notin> set (split_on CHR ''/'' q)"
  shows "plain_segments (JoinPath (''/'' # es @ [q])) = plain_segments (JoinPath (''/'' # es)) @ plain_segments q \<and>
    clean_list (plain_segments (JoinPath (''/'' # es @ [q])))"
  by (simp only: JoinPath_segments joined_segments_snoc[OF assms]
      joined_segments_clean[of "es @ [q]", unfolded joined_segments_snoc[OF assms]] simp_thms)

lemma joined_below_prefix_witness:
  "JoinPath [''/'', ''/v1/'', ''/a//b''] = ''/v1/a/b'' \<and>
   plain_segments (JoinPath [''/'', ''/v1/'', ''/a//b'']) = [''v1'', ''a'', ''b''] \<and>
   plain_segments (JoinPath [''/'', ''/v1/'']) @ plain_segments ''/a//b'' = [''v1'', ''a'', ''b'']"
proof -
  have no: "''..'' \<notin> set (split_on CHR ''/'' ''/a//b'')" by simp
  have "JoinPath [''/'', ''/v1/'', ''/a//b''] = ''/v1/a/b''"
    "plain_segments (JoinPath [''/'', ''/v1/'']) @ plain_segments ''/a//b'' = [''v1'', ''a'', ''b'']" by code_simp+
  with joined_below_prefix[OF no, of "[''/v1/'']"] show ?thesis by simp
qed

text \<open>A path with \<open>..\<close> leaves the prefix.\<close>

lemma joined_outside_prefix: "JoinPath [''/'', ''/v1'', ''/../admin''] = ''/admin''"
  by code_simp

end
