(* ===== verification/Modifiers.thy ===== *)
theory Modifiers
  imports Errors Seetie QueryString Paths
begin

text \<open>
  The modification of requests and responses (\<open>eval/http.go\<close>): the attributes for the path, headers,
  query and form parameters of a request, and for the headers and the status of a response.

  An attribute is given by its value in the context of the evaluation, or the error of that. Where the
  code ranges over a Go map of values, the order is the field \<open>ev_order\<close>; \<open>None\<close> is a panic. In the texts
  of errors a value that Go prints quoted is written between plain quotes.
\<close>

record evaluation =
  ev_f64 :: "rat \<Rightarrow> rat"
  ev_btext :: "rat \<Rightarrow> string"
  ev_order :: "(string \<times> goval) list \<Rightarrow> (string \<times> goval) list"

type_synonym attrs = "string \<rightharpoonup> go_error + cty"

section \<open>Values as text\<close>

fun toString :: "goval \<Rightarrow> string option" where
  "toString (GBool b) = Some (if b then ''true'' else ''false'')"
| "toString (GString s) = Some s"
| "toString (GFloat r) = Some (float_text r)"
| "toString _ = None"

fun toSlice :: "goval \<Rightarrow> string list" where
  "toSlice (GBool b) = [if b then ''true'' else ''false'']"
| "toSlice (GFloat r) = [float_text r]"
| "toSlice (GString s) = [s]"
| "toSlice (GList l) = List.map_filter toString l"
| "toSlice _ = []"

text \<open>The entries of a value that are not nil, in the order of the iteration.\<close>

definition entries :: "evaluation \<Rightarrow> cty \<Rightarrow> (string \<times> string list) list option" where
  "entries ev v =
     map_option (\<lambda>m. map (\<lambda>(k, g). (k, toSlice g)) (filter (\<lambda>(k, g). g \<noteq> GNil) (ev_order ev m))) (ValueToMap (ev_f64 ev) v)"

section \<open>Headers\<close>

definition set_entries :: "(string \<times> string list) list \<Rightarrow> header \<Rightarrow> header" where
  "set_entries es h = fold (\<lambda>(k, vs) h. h(canonical_key k \<mapsto> vs)) es h"

definition SetHeader :: "evaluation \<Rightarrow> cty \<Rightarrow> header \<Rightarrow> header option" where
  "SetHeader ev v h = map_option (\<lambda>es. set_entries es h) (entries ev v)"

definition deleteHeader :: "evaluation \<Rightarrow> cty \<Rightarrow> header \<Rightarrow> header option" where
  "deleteHeader ev v h = map_option (\<lambda>ks. fold (\<lambda>key. h_del (canonical_key key)) ks h) (ValueToStringSlice (ev_btext ev) v)"

definition append_header :: "header \<Rightarrow> header \<Rightarrow> header" where
  "append_header added h = (\<lambda>k. case added k of None \<Rightarrow> h k | Some vs \<Rightarrow> Some ((case h k of None \<Rightarrow> [] | Some ws \<Rightarrow> ws) @ vs))"

datatype header_op = DelOp | SetOp | AddOp

definition header_op_of :: "string \<Rightarrow> header_op" where
  "header_op_of name =
     (if name = ''remove_request_headers'' \<or> name = ''remove_response_headers'' then DelOp
      else if name = ''set_request_headers'' \<or> name = ''set_response_headers'' then SetOp else AddOp)"

definition apply_header_op :: "evaluation \<Rightarrow> header_op \<Rightarrow> cty \<Rightarrow> header \<Rightarrow> header option" where
  "apply_header_op ev ho v h =
     (case ho of
        DelOp \<Rightarrow> deleteHeader ev v h
      | SetOp \<Rightarrow> SetHeader ev v h
      | AddOp \<Rightarrow> map_option (\<lambda>added. append_header added h) (SetHeader ev v Map.empty))"

text \<open>The operations on one header, which keeps what was done before an error.\<close>

fun apply_names :: "evaluation \<Rightarrow> attrs \<Rightarrow> string list \<Rightarrow> header \<Rightarrow> (header \<times> go_error option) option" where
  "apply_names ev as [] h = Some (h, None)"
| "apply_names ev as (name # names) h =
     (case as name of
        None \<Rightarrow> apply_names ev as names h
      | Some (Inl e) \<Rightarrow> Some (h, Some e)
      | Some (Inr v) \<Rightarrow>
          (case apply_header_op ev (header_op_of name) v h of
             None \<Rightarrow> None
           | Some h' \<Rightarrow> apply_names ev as names h'))"

fun applyHeaderOps :: "evaluation \<Rightarrow> attrs \<Rightarrow> string list \<Rightarrow> header list \<Rightarrow> (header list \<times> go_error option) option" where
  "applyHeaderOps ev as names [] = Some ([], None)"
| "applyHeaderOps ev as names (h # hs) =
     (case apply_names ev as names h of
        None \<Rightarrow> None
      | Some (h', Some e) \<Rightarrow> Some (h' # hs, Some e)
      | Some (h', None) \<Rightarrow> map_option (\<lambda>(hs', e). (h' # hs', e)) (applyHeaderOps ev as names hs))"

definition request_header_names :: "string list" where
  "request_header_names = [''remove_request_headers'', ''set_request_headers'', ''add_request_headers'']"

definition response_header_names :: "string list" where
  "response_header_names = [''remove_response_headers'', ''set_response_headers'', ''add_response_headers'']"

text \<open>\<open>getAllAttributes\<close> is the argument \<open>attrs\<close>, or its diagnostics.\<close>

definition ApplyResponseHeaderOps ::
    "evaluation \<Rightarrow> go_error + attrs \<Rightarrow> header list \<Rightarrow> (header list \<times> go_error option) option" where
  "ApplyResponseHeaderOps ev attrs hs =
     (case attrs of Inl e \<Rightarrow> Some (hs, Some e) | Inr as \<Rightarrow> applyHeaderOps ev as response_header_names hs)"

section \<open>Requests\<close>

text \<open>The request to a backend: the wildcard of its context, the parsed form, and the body that is set.\<close>

record bereq = request +
  br_wildcard :: "string option"
  br_form :: "url_values option"
  br_body :: "string option"
  br_length :: int

text \<open>
  The type of \<open>mime.ParseMediaType\<close>: the part before the parameters, in lower case, if it is a token or two of them with
  a slash, and no text otherwise. An error in the parameters does not change it; a parameter given twice,
  for which there is no type either, is not looked at.
\<close>

definition mime_token_char :: "char \<Rightarrow> bool" where
  "mime_token_char c \<longleftrightarrow>
     (let n = of_char c :: nat in 32 < n \<and> n < 127) \<and> c \<notin> set (CHR 0x22 # CHR 0x5C # ''()<>@,;:/[]?='')"

definition media_type :: "string \<Rightarrow> string" where
  "media_type v =
     (let base = to_lower (trim_space (takeWhile (\<lambda>c. c \<noteq> CHR '';'') v));
          parts = split_first (CHR ''/'') base
      in if list_all (\<lambda>p. p \<noteq> [] \<and> list_all mime_token_char p) parts then base else [])"

text \<open>
  \<open>parseForm\<close>: the standard library reads the body as a form if its type says so, and otherwise leaves an empty form. The
  parts of a multipart body are not modelled.
\<close>

definition parseForm :: "bereq \<Rightarrow> bereq" where
  "parseForm req =
     (case (br_body req, br_form req) of
        (Some body, None) \<Rightarrow>
          if req_method req \<in> {''PUT'', ''PATCH'', ''POST''}
          then req\<lparr>br_form := Some (if media_type (h_get (req_header req) ''Content-Type'') = ''application/x-www-form-urlencoded''
                                    then parse_query body else [])\<rparr>
          else req
      | _ \<Rightarrow> req)"

definition SetBody :: "string \<Rightarrow> bereq \<Rightarrow> bereq" where
  "SetBody body req =
     parseForm (req\<lparr>br_body := Some body, req_header := h_set ''Content-Length'' (itoa (int (length body))) (req_header req),
                    br_length := int (length body)\<rparr>)"

text \<open>\<open>SetGetBody\<close>; the body that is still to be read is an argument, \<open>None\<close> when there is none.\<close>

definition SetGetBody :: "(int \<Rightarrow> string) \<Rightarrow> bool \<Rightarrow> int \<Rightarrow> string option \<Rightarrow> bereq \<Rightarrow> go_error + bereq" where
  "SetGetBody human buffered limit body req =
     (if req_method req = ''TRACE'' \<or> \<not> buffered then Inr req
      else (case body of
         None \<Rightarrow> Inr req
       | Some b \<Rightarrow>
           if br_body req \<noteq> None then Inr req
           else (let buf = take (nat (limit + 1)) b in
             if int (length buf) > limit
             then Inl (err_Message (''body size exceeded: '' @ human limit) (err_Status 413 E_ClientRequest))
             else Inr (SetBody buf req))))"

definition path_error :: "string \<Rightarrow> string \<Rightarrow> go_error" where
  "path_error what path =
     err_Message (''invalid '' @ what @ '' found in '' @ [CHR 0x22] @ path @ [CHR 0x22]) (err_Label ''path attribute'' E_Configuration)"

text \<open>\<open>strings.ReplaceAll(path, "/**", "/")\<close>.\<close>

fun strip_wildcards :: "string \<Rightarrow> string" where
  "strip_wildcards (a # b # c # cs) =
     (if [a, b, c] = ''/**'' then ''/'' @ strip_wildcards cs else a # strip_wildcards (b # c # cs))"
| "strip_wildcards s = s"

definition evalPathAttr :: "evaluation \<Rightarrow> (go_error + cty) option \<Rightarrow> bereq \<Rightarrow> go_error + bereq" where
  "evalPathAttr ev attr req =
     (case attr of
        None \<Rightarrow> Inr req
      | Some (Inl e) \<Rightarrow> Inl e
      | Some (Inr v) \<Rightarrow>
          (let path = ValueToString (ev_btext ev) v in
           if path = [] then Inr req
           else if CHR ''#'' \<in> set path then Inl (path_error ''fragment'' path)
           else if CHR ''?'' \<in> set path then Inl (path_error ''query string'' path)
           else (case (br_wildcard req, has_suffix path ''/**'') of
              (Some pathMatch, True) \<Rightarrow>
                (let pm = (if has_suffix (req_path req) ''/'' \<and> \<not> has_suffix pathMatch ''/'' then pathMatch @ ''/'' else pathMatch) in
                 Inr (req\<lparr>req_path := JoinPath [''/'', strip_wildcards path, pm]\<rparr>))
            | _ \<Rightarrow> Inr (req\<lparr>req_path := JoinPath [''/'', path]\<rparr>))))"

section \<open>Query and form parameters\<close>

definition del_params :: "evaluation \<Rightarrow> cty \<Rightarrow> url_values \<Rightarrow> url_values option" where
  "del_params ev v m = map_option (\<lambda>ks. fold v_del ks m) (ValueToStringSlice (ev_btext ev) v)"

definition set_params :: "evaluation \<Rightarrow> cty \<Rightarrow> url_values \<Rightarrow> url_values option" where
  "set_params ev v m = map_option (\<lambda>es. fold (\<lambda>(k, vs). set_key k vs) es m) (entries ev v)"

definition add_params :: "evaluation \<Rightarrow> cty \<Rightarrow> url_values \<Rightarrow> url_values option" where
  "add_params ev v m =
     map_option (\<lambda>es. fold (\<lambda>(k, vs) m. case map_of m k of None \<Rightarrow> set_key k vs m | Some ws \<Rightarrow> set_key k (ws @ vs) m) es m)
       (entries ev v)"

text \<open>An optional modification: \<open>None\<close> is a panic, \<open>Inl\<close> an error.\<close>

definition param_op ::
    "(cty \<Rightarrow> url_values \<Rightarrow> url_values option) \<Rightarrow> (go_error + cty) option \<Rightarrow> url_values \<Rightarrow> (go_error + url_values) option" where
  "param_op f attr m =
     (case attr of
        None \<Rightarrow> Some (Inr m)
      | Some (Inl e) \<Rightarrow> Some (Inl e)
      | Some (Inr v) \<Rightarrow> map_option Inr (f v m))"

definition then_do :: "('e + 'a) option \<Rightarrow> ('a \<Rightarrow> ('e + 'b) option) \<Rightarrow> ('e + 'b) option" where
  "then_do r f = (case r of None \<Rightarrow> None | Some (Inl e) \<Rightarrow> Some (Inl e) | Some (Inr x) \<Rightarrow> f x)"

definition modify_params ::
    "evaluation \<Rightarrow> (go_error + cty) option \<Rightarrow> (go_error + cty) option \<Rightarrow> (go_error + cty) option \<Rightarrow> url_values
       \<Rightarrow> (go_error + url_values) option" where
  "modify_params ev ad as aa m =
     then_do (then_do (param_op (del_params ev) ad m) (param_op (set_params ev) as)) (param_op (add_params ev) aa)"

definition query_values :: "bereq \<Rightarrow> url_values" where
  "query_values req = parse_query (replace_char CHR ''+'' ''%2B'' (req_query req))"

definition modify_query :: "evaluation \<Rightarrow> attrs \<Rightarrow> bereq \<Rightarrow> (go_error + bereq) option" where
  "modify_query ev as req =
     then_do (modify_params ev (as ''remove_query_params'') (as ''set_query_params'') (as ''add_query_params'') (query_values req))
       (\<lambda>m. Some (Inr (if as ''remove_query_params'' = None \<and> as ''set_query_params'' = None \<and> as ''add_query_params'' = None
          then req else req\<lparr>req_query := replace_char CHR ''+'' ''%20'' (values_encode m)\<rparr>)))"

definition getFormParams :: "evaluation \<Rightarrow> attrs \<Rightarrow> bereq \<Rightarrow> (go_error + bereq) option" where
  "getFormParams ev as req =
     (let attrDel = as ''remove_form_params''; attrSet = as ''set_form_params''; attrAdd = as ''add_form_params'' in
      if attrDel = None \<and> attrSet = None \<and> attrAdd = None then Some (Inr req)
      else if req_method req \<noteq> ''POST'' then Some (Inr req)
      else if \<not> has_prefix (to_lower (h_get (req_header req) ''Content-Type'')) ''application/x-www-form-urlencoded''
      then Some (Inr req)
      else (let values = (case br_form req of None \<Rightarrow> [] | Some m \<Rightarrow> m) in
        then_do (modify_params ev attrDel attrSet attrAdd values)
          (\<lambda>m. Some (Inr (SetBody (values_encode m) (case br_form req of None \<Rightarrow> req | Some _ \<Rightarrow> req\<lparr>br_form := Some m\<rparr>))))))"

definition ApplyRequestContext :: "evaluation \<Rightarrow> (go_error + cty) option \<Rightarrow> go_error + attrs \<Rightarrow> bereq \<Rightarrow> (go_error + bereq) option" where
  "ApplyRequestContext ev path attrs req =
     (case evalPathAttr ev path req of
        Inl e \<Rightarrow> Some (Inl e)
      | Inr req1 \<Rightarrow>
         (case attrs of
            Inl e \<Rightarrow> Some (Inl e)
          | Inr as \<Rightarrow>
             (case applyHeaderOps ev as request_header_names [req_header req1] of
                None \<Rightarrow> None
              | Some (hs, Some e) \<Rightarrow> Some (Inl e)
              | Some (hs, None) \<Rightarrow>
                  then_do (modify_query ev as (req1\<lparr>req_header := hd hs\<rparr>)) (getFormParams ev as))))"

section \<open>Responses\<close>

definition upgradeType :: "header \<Rightarrow> string" where
  "upgradeType h = to_lower (h_get h ''Upgrade'')"

text \<open>The context of the request says whether websockets are allowed.\<close>

definition IsUpgradeRequest :: "bool \<Rightarrow> header \<Rightarrow> bool" where
  "IsUpgradeRequest allowed h \<longleftrightarrow>
     allowed \<and> contains_str (to_lower (h_get h ''Connection'')) ''upgrade'' \<and> upgradeType h = ''websocket''"

definition IsUpgradeResponse :: "bool \<Rightarrow> header \<Rightarrow> header \<Rightarrow> bool" where
  "IsUpgradeResponse allowed req_h res_h \<longleftrightarrow> IsUpgradeRequest allowed req_h \<and> upgradeType req_h = upgradeType res_h"

record beresp =
  bs_status :: int
  bs_header :: header
  bs_body :: string
  bs_length :: int

definition status_error :: "int \<Rightarrow> go_error" where
  "status_error st = err_Message (''invalid http status code: '' @ itoa st) (err_Label ''set_response_status'' E_Configuration)"

definition ApplyResponseStatus :: "go_error + cty \<Rightarrow> beresp \<Rightarrow> (go_error + int \<times> beresp) option" where
  "ApplyResponseStatus val res =
     (case val of
        Inl e \<Rightarrow> Some (Inl e)
      | Inr v \<Rightarrow>
          (case ValueToInt v of
             None \<Rightarrow> None
           | Some st \<Rightarrow>
               if st < 100 \<or> st > 599 then Some (Inl (status_error st))
               else (let res1 = (if st = 204 then res\<lparr>bs_body := [], bs_length := - 1, bs_header := h_del ''Content-Length'' (bs_header res)\<rparr>
                                 else res) in
                 Some (Inr (st, res1\<lparr>bs_status := st\<rparr>)))))"

text \<open>\<open>ApplyResponseContext\<close>; the headers are changed also when there is an error.\<close>

definition ApplyResponseContext ::
    "evaluation \<Rightarrow> go_error + attrs \<Rightarrow> (go_error + cty) option \<Rightarrow> bool \<Rightarrow> header \<Rightarrow> beresp \<Rightarrow> (beresp \<times> go_error option) option" where
  "ApplyResponseContext ev attrs status allowed req_h res =
     (case ApplyResponseHeaderOps ev attrs [bs_header res] of
        None \<Rightarrow> None
      | Some (hs, Some e) \<Rightarrow> Some (res\<lparr>bs_header := hd hs\<rparr>, Some e)
      | Some (hs, None) \<Rightarrow>
          (let res1 = res\<lparr>bs_header := hd hs\<rparr> in
           if IsUpgradeResponse allowed req_h (bs_header res1) then Some (res1, None)
           else (case status of
              None \<Rightarrow> Some (res1, None)
            | Some val \<Rightarrow>
                (case ApplyResponseStatus val res1 of
                   None \<Rightarrow> None
                 | Some (Inl e) \<Rightarrow> Some (res1, Some e)
                 | Some (Inr (st, res2)) \<Rightarrow> Some (res2, None)))))"

section \<open>Bodies\<close>

text \<open>\<open>GetBody\<close>: the text and its content type. JSON encoding is an argument.\<close>

definition form_pairs :: "evaluation \<Rightarrow> (string \<times> cty) list \<Rightarrow> url_values option" where
  "form_pairs ev kvs =
     fold (\<lambda>(k, v) r. case (r, ValueToStringSlice (ev_btext ev) v) of
         (Some m, Some vs) \<Rightarrow> Some (fold (v_add k) vs m) | _ \<Rightarrow> None) kvs (Some [])"

definition GetBody ::
    "evaluation \<Rightarrow> (cty \<Rightarrow> go_error + string) \<Rightarrow> attrs \<Rightarrow> (go_error + string \<times> string) option" where
  "GetBody ev json as =
     (case as ''json_body'' of
        Some (Inl e) \<Rightarrow> Some (Inl e)
      | Some (Inr v) \<Rightarrow>
          (case json v of Inl e \<Rightarrow> Some (Inl (err_With (Some e) E_Server)) | Inr t \<Rightarrow> Some (Inr (t, ''application/json'')))
      | None \<Rightarrow>
         (case as ''form_body'' of
            Some (Inl e) \<Rightarrow> Some (Inl e)
          | Some (Inr v) \<Rightarrow>
              (case cty_type_of v of
                 TObject ts \<Rightarrow> then_do (map_option Inr (Option.bind (as_value_map v) (form_pairs ev)))
                                (\<lambda>m. Some (Inr (values_encode m, ''application/x-www-form-urlencoded'')))
               | TMap t \<Rightarrow> then_do (map_option Inr (Option.bind (as_value_map v) (form_pairs ev)))
                                (\<lambda>m. Some (Inr (values_encode m, ''application/x-www-form-urlencoded'')))
               | _ \<Rightarrow> Some (Inl (err_Message ''value of form_body must be an object'' E_Configuration)))
          | None \<Rightarrow>
             (case as ''body'' of
                Some (Inl e) \<Rightarrow> Some (Inl e)
              | Some (Inr v) \<Rightarrow> Some (Inr (ValueToString (ev_btext ev) v, ''text/plain''))
              | None \<Rightarrow> Some (Inr ([], [])))))"

section \<open>What the header attributes do\<close>

definition given_keys :: "evaluation \<Rightarrow> (go_error + cty) option \<Rightarrow> string list option" where
  "given_keys ev attr =
     (case attr of None \<Rightarrow> Some [] | Some (Inl e) \<Rightarrow> None | Some (Inr v) \<Rightarrow> ValueToStringSlice (ev_btext ev) v)"

definition given_entries :: "evaluation \<Rightarrow> (go_error + cty) option \<Rightarrow> (string \<times> string list) list option" where
  "given_entries ev attr =
     (case attr of None \<Rightarrow> Some [] | Some (Inl e) \<Rightarrow> None | Some (Inr v) \<Rightarrow> entries ev v)"

definition canonical_entries :: "(string \<times> string list) list \<Rightarrow> (string \<times> string list) list" where
  "canonical_entries es = map (\<lambda>e. (canonical_key (fst e), snd e)) es"

lemma set_entries_value:
  "distinct (map fst (canonical_entries es)) \<Longrightarrow>
     set_entries es h k = (case map_of (canonical_entries es) k of Some vs \<Rightarrow> Some vs | None \<Rightarrow> h k)"
proof (induction es arbitrary: h)
  case (Cons e es)
  obtain a vs where e: "e = (a, vs)" by (cases e)
  have step: "set_entries (e # es) h = set_entries es (h(canonical_key a \<mapsto> vs))" by (simp add: set_entries_def e)
  have none: "map_of (canonical_entries es) (canonical_key a) = None"
    using Cons.prems by (force simp: canonical_entries_def e map_of_eq_None_iff)
  from Cons.prems have d: "distinct (map fst (canonical_entries es))" by (simp add: canonical_entries_def)
  show ?case
    unfolding step Cons.IH[OF d] using none
    by (auto simp: canonical_entries_def e split: option.split)
qed (simp add: set_entries_def canonical_entries_def)

lemma delete_value:
  "fold (\<lambda>key. h_del (canonical_key key)) ks h k = (if k \<in> canonical_key ` set ks then None else h k)"
  by (induction ks arbitrary: h) (auto simp: h_del_def)

lemma delete_names:
  assumes "given_keys ev (as ''remove_request_headers'') = Some ks"
  shows "\<exists>h'. apply_names ev as (''remove_request_headers'' # names) h = apply_names ev as names h' \<and>
    (\<forall>k. h' k = (if k \<in> canonical_key ` set ks then None else h k))"
proof (cases "as ''remove_request_headers''")
  case None
  with assms show ?thesis by (intro exI[of _ h]) (simp add: given_keys_def)
next
  case (Some r)
  with assms obtain v where "r = Inr v" "ValueToStringSlice (ev_btext ev) v = Some ks"
    by (auto simp: given_keys_def split: sum.splits)
  with Some show ?thesis
    by (intro exI[of _ "fold (\<lambda>key. h_del (canonical_key key)) ks h"])
       (simp add: apply_header_op_def header_op_of_def deleteHeader_def delete_value)
qed

lemma set_names:
  assumes "given_entries ev (as ''set_request_headers'') = Some es" and "distinct (map fst (canonical_entries es))"
  shows "\<exists>h'. apply_names ev as (''set_request_headers'' # names) h = apply_names ev as names h' \<and>
    (\<forall>k. h' k = (case map_of (canonical_entries es) k of Some vs \<Rightarrow> Some vs | None \<Rightarrow> h k))"
proof (cases "as ''set_request_headers''")
  case None
  with assms show ?thesis by (intro exI[of _ h]) (simp add: given_entries_def canonical_entries_def)
next
  case (Some r)
  with assms obtain v where "r = Inr v" "entries ev v = Some es"
    by (auto simp: given_entries_def split: sum.splits)
  with Some assms(2) show ?thesis
    by (intro exI[of _ "set_entries es h"])
       (simp add: apply_header_op_def header_op_of_def SetHeader_def set_entries_value)
qed

lemma add_names:
  assumes "given_entries ev (as ''add_request_headers'') = Some es" and "distinct (map fst (canonical_entries es))"
  shows "\<exists>h'. apply_names ev as (''add_request_headers'' # names) h = apply_names ev as names h' \<and>
    (\<forall>k. h_values h' k = h_values h k @ (case map_of (canonical_entries es) (canonical_key k) of Some vs \<Rightarrow> vs | None \<Rightarrow> []))"
proof (cases "as ''add_request_headers''")
  case None
  with assms show ?thesis by (intro exI[of _ h]) (simp add: given_entries_def canonical_entries_def)
next
  case (Some r)
  with assms obtain v where "r = Inr v" "entries ev v = Some es"
    by (auto simp: given_entries_def split: sum.splits)
  with Some assms(2) show ?thesis
    by (intro exI[of _ "append_header (set_entries es Map.empty) h"])
       (auto simp: apply_header_op_def header_op_of_def SetHeader_def set_entries_value append_header_def h_values_def
         split: option.split)
qed

text \<open>
  Property C30: the header attributes of a request act in the order remove, set, add: if no two names of
  one attribute are the same header, a header has afterwards the values that are set for it, or nothing if
  it is removed and not set, or else what it had, followed by the values that are added.
\<close>

theorem header_modification:
  assumes "given_keys ev (as ''remove_request_headers'') = Some ks"
    and "given_entries ev (as ''set_request_headers'') = Some es" and "distinct (map fst (canonical_entries es))"
    and "given_entries ev (as ''add_request_headers'') = Some ea" and "distinct (map fst (canonical_entries ea))"
  shows "\<exists>h'. applyHeaderOps ev as request_header_names [h] = Some ([h'], None) \<and>
    (\<forall>k. h_values h' k =
       (case map_of (canonical_entries es) (canonical_key k) of
          Some vs \<Rightarrow> vs
        | None \<Rightarrow> if canonical_key k \<in> canonical_key ` set ks then [] else h_values h k) @
       (case map_of (canonical_entries ea) (canonical_key k) of Some vs \<Rightarrow> vs | None \<Rightarrow> []))"
proof -
  obtain h1 where h1: "apply_names ev as request_header_names h = apply_names ev as [''set_request_headers'', ''add_request_headers''] h1"
    "\<forall>k. h1 k = (if k \<in> canonical_key ` set ks then None else h k)"
    unfolding request_header_names_def using delete_names[of ev "as" ks, OF assms(1)] by blast
  obtain h2 where h2: "apply_names ev as [''set_request_headers'', ''add_request_headers''] h1 = apply_names ev as [''add_request_headers''] h2"
    "\<forall>k. h2 k = (case map_of (canonical_entries es) k of Some vs \<Rightarrow> Some vs | None \<Rightarrow> h1 k)"
    using set_names[of ev "as" es, OF assms(2,3)] by blast
  obtain h3 where h3: "apply_names ev as [''add_request_headers''] h2 = apply_names ev as [] h3"
    "\<forall>k. h_values h3 k = h_values h2 k @ (case map_of (canonical_entries ea) (canonical_key k) of Some vs \<Rightarrow> vs | None \<Rightarrow> [])"
    using add_names[of ev "as" ea, OF assms(4,5)] by blast
  have "h_values h2 k = (case map_of (canonical_entries es) (canonical_key k) of
          Some vs \<Rightarrow> vs | None \<Rightarrow> if canonical_key k \<in> canonical_key ` set ks then [] else h_values h k)" for k
    by (simp add: h_values_def h2(2) h1(2) split: option.split)
  with h1(1) h2(1) h3 show ?thesis by (intro exI[of _ h3]) simp
qed

definition demo_evaluation :: evaluation where
  "demo_evaluation = \<lparr>ev_f64 = id, ev_btext = (\<lambda>r. []), ev_order = id\<rparr>"

definition demo_attrs :: attrs where
  "demo_attrs = [''remove_request_headers'' \<mapsto> Inr (CTuple [CString ''cookie'', CString ''x-a'']),
     ''set_request_headers'' \<mapsto> Inr (CObject [(''x-a'', CString ''1'')]),
     ''add_request_headers'' \<mapsto> Inr (CObject [(''X-A'', CTuple [CString ''2'', CString ''3''])])]"

lemma header_modification_witness:
  "\<exists>h'. applyHeaderOps demo_evaluation demo_attrs request_header_names [[''Cookie'' \<mapsto> [''c''], ''X-A'' \<mapsto> [''0'']]] = Some ([h'], None) \<and>
     h_values h' ''x-a'' = [''1'', ''2'', ''3''] \<and> h_values h' ''Cookie'' = []"
proof -
  have given: "given_keys demo_evaluation (demo_attrs ''remove_request_headers'') = Some [''cookie'', ''x-a'']"
    "given_entries demo_evaluation (demo_attrs ''set_request_headers'') = Some [(''x-a'', [''1''])]"
    "distinct (map fst (canonical_entries [(''x-a'', [''1''])]))"
    "given_entries demo_evaluation (demo_attrs ''add_request_headers'') = Some [(''X-A'', [''2'', ''3''])]"
    "distinct (map fst (canonical_entries [(''X-A'', [''2'', ''3''])]))" by code_simp+
  have keys: "canonical_key ''x-a'' = ''X-A''" "canonical_key ''X-A'' = ''X-A''" "canonical_key ''cookie'' = ''Cookie''"
    "canonical_key ''Cookie'' = ''Cookie''" by code_simp+
  from header_modification[OF given, of "[''Cookie'' \<mapsto> [''c''], ''X-A'' \<mapsto> [''0'']]"]
  show ?thesis by (fastforce simp: canonical_entries_def keys)
qed

text \<open>
  Two names of one attribute that are the same header are both written to it, so which one
  stays is up to the iteration order of a Go map.
\<close>

theorem header_by_map_order:
  "let v = CObject [(''x-a'', CString ''1''), (''X-A'', CString ''2'')];
       first = SetHeader (demo_evaluation\<lparr>ev_order := id\<rparr>) v Map.empty;
       second = SetHeader (demo_evaluation\<lparr>ev_order := rev\<rparr>) v Map.empty in
   map_option (\<lambda>h. h_get h ''x-a'') first = Some ''2'' \<and> map_option (\<lambda>h. h_get h ''x-a'') second = Some ''1''"
  by code_simp

section \<open>What the query attributes do\<close>

lemma fold_del_values: "values_of (fold v_del ks m) k = (if k \<in> set ks then [] else values_of m k)"
  by (induction ks arbitrary: m) auto

lemma fold_set_values:
  "distinct (map fst es) \<Longrightarrow> values_of (fold (\<lambda>(k, vs). set_key k vs) es m) k =
     (case map_of es k of Some vs \<Rightarrow> vs | None \<Rightarrow> values_of m k)"
proof (induction es arbitrary: m)
  case (Cons e es)
  obtain a vs where e: "e = (a, vs)" by (cases e)
  from Cons.prems e have "map_of es a = None" by (simp add: map_of_eq_None_iff)
  with Cons e show ?case by (auto split: option.split)
qed simp

definition add_entry :: "string \<times> string list \<Rightarrow> url_values \<Rightarrow> url_values" where
  "add_entry e m = (case e of (k, vs) \<Rightarrow> case map_of m k of None \<Rightarrow> set_key k vs m | Some ws \<Rightarrow> set_key k (ws @ vs) m)"

lemma add_entry_values: "values_of (add_entry (a, vs) m) k = values_of m k @ (if k = a then vs else [])"
  by (simp add: add_entry_def values_of_def split: option.split)

lemma fold_add_values:
  "distinct (map fst es) \<Longrightarrow> values_of (fold add_entry es m) k = values_of m k @ (case map_of es k of Some vs \<Rightarrow> vs | None \<Rightarrow> [])"
proof (induction es arbitrary: m)
  case (Cons e es)
  obtain a vs where e: "e = (a, vs)" by (cases e)
  from Cons.prems e have "map_of es a = None" by (simp add: map_of_eq_None_iff)
  with Cons e show ?case by (auto simp: add_entry_values split: option.split)
qed simp

lemma add_params_fold: "add_params ev v m = map_option (\<lambda>es. fold add_entry es m) (entries ev v)"
  by (simp add: add_params_def add_entry_def[abs_def] split_beta')

lemma distinct_keys:
  "distinct (map fst m) \<Longrightarrow> distinct (map fst (v_del k m))"
  "distinct (map fst m) \<Longrightarrow> distinct (map fst (v_add k v m))"
  "distinct (map fst m) \<Longrightarrow> distinct (map fst (add_entry e m))"
  by (auto simp: v_del_def v_add_def add_entry_def distinct_map_filter split: prod.split option.split)

lemma distinct_fold: "(\<And>x m. distinct (map fst m) \<Longrightarrow> distinct (map fst (f x m))) \<Longrightarrow>
    distinct (map fst m) \<Longrightarrow> distinct (map fst (fold f xs m))"
  by (induction xs arbitrary: m) simp_all

lemma distinct_parse: "distinct (map fst (parse_query q))"
  unfolding parse_query_def
  by (rule distinct_fold) (auto simp: parse_pair_def distinct_keys split: prod.split option.split)

lemma modify_params_given:
  assumes "given_keys ev ad = Some ks" and "given_entries ev as = Some es" and "given_entries ev aa = Some ea"
  shows "modify_params ev ad as aa m =
    Some (Inr (fold add_entry ea (fold (\<lambda>(k, vs). set_key k vs) es (fold v_del ks m))))"
proof -
  have "param_op (del_params ev) ad m = Some (Inr (fold v_del ks m))" for m
    using assms(1) by (auto simp: given_keys_def param_op_def del_params_def split: option.splits sum.splits)
  moreover have "param_op (set_params ev) as m = Some (Inr (fold (\<lambda>(k, vs). set_key k vs) es m))" for m
    using assms(2) by (auto simp: given_entries_def param_op_def set_params_def split: option.splits sum.splits)
  moreover have "param_op (add_params ev) aa m = Some (Inr (fold add_entry ea m))" for m
    using assms(3) by (auto simp: given_entries_def param_op_def add_params_fold split: option.splits sum.splits)
  ultimately show ?thesis by (simp add: modify_params_def then_do_def)
qed

text \<open>
  What the backend reads from the query after the query attributes of a request, in the order
  remove, set, add: a parameter has the values that are set for it, or nothing if it is removed and not
  set, or else what it had (with \<open>+\<close> as itself), followed by the values that are added.
\<close>

theorem query_modification:
  assumes "given_keys ev (as ''remove_query_params'') = Some ks"
    and "given_entries ev (as ''set_query_params'') = Some es" and "distinct (map fst es)"
    and "given_entries ev (as ''add_query_params'') = Some ea" and "distinct (map fst ea)"
    and "list_ex (\<lambda>n. as n \<noteq> None) [''remove_query_params'', ''set_query_params'', ''add_query_params'']"
  shows "\<exists>req'. modify_query ev as req = Some (Inr req') \<and>
    (\<forall>k. values_of (parse_query (req_query req')) k =
       (case map_of es k of Some vs \<Rightarrow> vs | None \<Rightarrow> if k \<in> set ks then [] else values_of (query_values req) k) @
       (case map_of ea k of Some vs \<Rightarrow> vs | None \<Rightarrow> []))"
proof -
  let ?m = "fold add_entry ea (fold (\<lambda>(k, vs). set_key k vs) es (fold v_del ks (query_values req)))"
  have "distinct (map fst (fold v_del ks (query_values req)))"
    unfolding query_values_def by (rule distinct_fold) (simp_all add: distinct_keys distinct_parse)
  then have "distinct (map fst (fold (\<lambda>(k, vs). set_key k vs) es (fold v_del ks (query_values req))))"
    by (rule distinct_fold[rotated]) (auto split: prod.split)
  then have "distinct (map fst ?m)"
    by (rule distinct_fold[rotated]) (rule distinct_keys)
  then have parse: "values_of (parse_query (replace_char CHR ''+'' ''%20'' (values_encode ?m))) = values_of ?m"
    by (rule query_roundtrip) (simp add: space_as_def)
  have run: "modify_query ev as req = Some (Inr (req\<lparr>req_query := replace_char CHR ''+'' ''%20'' (values_encode ?m)\<rparr>))"
    using assms(6) by (auto simp: modify_query_def modify_params_given[OF assms(1,2,4)] then_do_def)
  have "values_of ?m k = (case map_of es k of Some vs \<Rightarrow> vs | None \<Rightarrow> if k \<in> set ks then [] else values_of (query_values req) k) @
       (case map_of ea k of Some vs \<Rightarrow> vs | None \<Rightarrow> [])" for k
    by (simp add: fold_add_values[OF assms(5)] fold_set_values[OF assms(3)] fold_del_values split: option.split)
  with run parse show ?thesis by simp
qed

lemma query_modification_witness:
  "\<exists>req'. modify_query demo_evaluation [''set_query_params'' \<mapsto> Inr (CObject [(''b'', CString ''x y'')])]
      \<lparr>req_method = ''GET'', req_host = [], req_path = ''/'', req_query = ''a=1+1&b=0'', req_header = Map.empty,
       br_wildcard = None, br_form = None, br_body = None, br_length = 0\<rparr> = Some (Inr req') \<and>
     values_of (parse_query (req_query req')) ''b'' = [''x y''] \<and> values_of (parse_query (req_query req')) ''a'' = [''1+1'']"
proof -
  let ?as = "[''set_query_params'' \<mapsto> Inr (CObject [(''b'', CString ''x y'')])] :: attrs"
  let ?req = "\<lparr>req_method = ''GET'', req_host = [], req_path = ''/'', req_query = ''a=1+1&b=0'', req_header = Map.empty,
       br_wildcard = None, br_form = None, br_body = None, br_length = 0\<rparr> :: bereq"
  have given: "given_keys demo_evaluation (?as ''remove_query_params'') = Some []"
    "given_entries demo_evaluation (?as ''set_query_params'') = Some [(''b'', [''x y''])]" "distinct (map fst [(''b'', [''x y''])])"
    "given_entries demo_evaluation (?as ''add_query_params'') = Some []" "distinct (map fst ([] :: (string \<times> string list) list))"
    "list_ex (\<lambda>n. ?as n \<noteq> None) [''remove_query_params'', ''set_query_params'', ''add_query_params'']"
    by (simp_all add: given_keys_def given_entries_def entries_def ValueToMap_def demo_evaluation_def)
  have "values_of (query_values ?req) ''a'' = [''1+1'']" by code_simp
  with query_modification[OF given, of ?req] show ?thesis by fastforce
qed

section \<open>Bounds\<close>

text \<open>
  A response whose status an attribute sets has a status from 100 to 599, and one with the
  status 204 has neither a body nor a length.
\<close>

theorem response_status_bounds:
  "case ApplyResponseContext ev attrs (Some val) False req_h res of
     Some (res', None) \<Rightarrow> 100 \<le> bs_status res' \<and> bs_status res' \<le> 599 \<and>
       (if bs_status res' = 204 then bs_body res' = [] \<and> h_values (bs_header res') ''Content-Length'' = [] else True)
   | _ \<Rightarrow> True"
  by (auto simp: ApplyResponseContext_def ApplyResponseStatus_def IsUpgradeResponse_def IsUpgradeRequest_def Let_def h_values_del
      split: option.split sum.split prod.split)

text \<open>
  A request body that is buffered is kept whole and is not longer than the limit; a longer
  one is refused with the status 413.
\<close>

theorem buffered_body_bound:
  assumes "req_method req \<noteq> ''TRACE''" and "br_body req = None" and "0 \<le> limit"
  shows "case SetGetBody human True limit (Some b) req of
     Inl e \<Rightarrow> limit < int (length b) \<and> err_HTTPStatus e = 413
   | Inr req' \<Rightarrow> int (length b) \<le> limit \<and> br_body req' = Some b \<and> br_length req' = int (length b)"
proof -
  have body: "br_body (SetBody b req) = Some b" "br_length (SetBody b req) = int (length b)" for b
    by (auto simp: SetBody_def parseForm_def split: option.split)
  show ?thesis
  proof (cases "int (length b) \<le> limit")
    case True
    then have "take (nat (limit + 1)) b = b" by simp
    with True assms show ?thesis by (simp add: SetGetBody_def body)
  next
    case False
    then have "int (length (take (nat (limit + 1)) b)) > limit" using assms(3) by simp
    with False assms show ?thesis
      by (simp add: SetGetBody_def Let_def err_HTTPStatus_def E_ClientRequest_def base_error_def)
  qed
qed

lemma buffered_body_bound_witness:
  "let req = \<lparr>req_method = ''POST'', req_host = [], req_path = ''/'', req_query = [], req_header = Map.empty,
       br_wildcard = None, br_form = None, br_body = None, br_length = 0\<rparr> in
   case SetGetBody (\<lambda>n. ''2B'') True 2 (Some ''abc'') req of Inl e \<Rightarrow> err_HTTPStatus e = 413 | Inr req' \<Rightarrow> False"
  using buffered_body_bound[of "\<lparr>req_method = ''POST'', req_host = [], req_path = ''/'', req_query = [], req_header = Map.empty,
       br_wildcard = None, br_form = None, br_body = None, br_length = 0\<rparr>" 2 "''abc''" "\<lambda>n. ''2B''"]
  by (simp split: sum.splits)

end
