(* ===== verification/Buffer.thy ===== *)
theory Buffer
  imports GoPrelude "HOL-Library.Word"
begin

text \<open>
  Which bodies have to be read into memory (\<open>eval/buffer/option.go\<close> with \<open>config/body/collect.go\<close>).

  An \<open>Option\<close> is a byte of flags. A body of the configuration is its attributes and nested blocks; of an
  expression the code reads only the traversals of its variables, which the library \<open>hcl\<close> collects, so
  an attribute holds them. A step of a traversal has a field \<open>Name\<close> only when it is an
  attribute; the reflection gives the text \<open><invalid Value>\<close> for the others.
\<close>

unbundle bit_operations_syntax

section \<open>Options\<close>

type_synonym buffer_option = "8 word"

definition BufNone :: buffer_option where "BufNone = 0"
definition BufRequest :: buffer_option where "BufRequest = 1"
definition BufResponse :: buffer_option where "BufResponse = 2"
definition BufJSONParseRequest :: buffer_option where "BufJSONParseRequest = 4"
definition BufJSONParseResponse :: buffer_option where "BufJSONParseResponse = 8"

definition opt_Request :: "buffer_option \<Rightarrow> bool" where
  "opt_Request i \<longleftrightarrow> i AND BufRequest = BufRequest"

definition opt_JSONRequest :: "buffer_option \<Rightarrow> bool" where
  "opt_JSONRequest i \<longleftrightarrow> i AND BufJSONParseRequest = BufJSONParseRequest"

definition opt_Response :: "buffer_option \<Rightarrow> bool" where
  "opt_Response i \<longleftrightarrow> i AND BufResponse = BufResponse"

definition opt_JSONResponse :: "buffer_option \<Rightarrow> bool" where
  "opt_JSONResponse i \<longleftrightarrow> i AND BufJSONParseResponse = BufJSONParseResponse"

definition opt_GoString :: "(buffer_option \<Rightarrow> string) \<Rightarrow> buffer_option \<Rightarrow> string" where
  "opt_GoString text i =
     (let result = map text (filter (\<lambda>f. i AND f = f) [BufRequest, BufResponse, BufJSONParseRequest, BufJSONParseResponse])
      in if result = [] then text BufNone else join_with ''|'' result)"

section \<open>Bodies\<close>

datatype traverser = TraverseAttr string | TraverseIndex string | TraverseSplat

record traversal =
  tr_root :: string
  tr_steps :: "traverser list"

record attribute =
  at_name :: string
  at_variables :: "traversal list"

datatype body = Body (body_attributes: "attribute list") (body_blocks: "(string \<times> body) list")

fun attributes_of :: "body \<Rightarrow> attribute list" where
  "attributes_of (Body as bs) = as @ concat (map (\<lambda>(t, b). attributes_of b) bs)"

definition CollectAttributes :: "body list \<Rightarrow> attribute list" where
  "CollectAttributes bs = concat (map attributes_of bs)"

text \<open>The set of types, as a list in the order in which they are added.\<close>

definition add_unique :: "string list \<Rightarrow> string list \<Rightarrow> string list" where
  "add_unique types unique = fold (\<lambda>t u. if t \<in> set u then u else u @ [t]) types unique"

fun block_types :: "body \<Rightarrow> string list" where
  "block_types (Body as bs) = fold add_unique (map (\<lambda>(t, b). t # block_types b) bs) []"

definition CollectBlockTypes :: "body list \<Rightarrow> string list" where
  "CollectBlockTypes bs =
     fold add_unique (concat (map (\<lambda>b. map (\<lambda>(t, b'). t # block_types b') (body_blocks b)) bs)) []"

section \<open>What must be buffered\<close>

definition bufferWithAttribute :: "string \<Rightarrow> buffer_option" where
  "bufferWithAttribute name =
     (if name \<in> {''add_form_params'', ''set_form_params'', ''remove_form_params''} then BufRequest else BufNone)"

definition bufferWithBlock :: "string \<Rightarrow> buffer_option" where
  "bufferWithBlock name = (if name = ''openapi'' then BufResponse else BufNone)"

definition request_roots :: "string list" where
  "request_roots = [''request'', ''backend_request'', ''backend_requests'']"

definition response_roots :: "string list" where
  "response_roots = [''backend_response'', ''backend_responses'']"

fun traverser_name :: "traverser \<Rightarrow> string" where
  "traverser_name (TraverseAttr n) = n"
| "traverser_name _ = ''<invalid Value>''"

definition buffer_step :: "string \<Rightarrow> nat \<Rightarrow> traverser \<Rightarrow> buffer_option" where
  "buffer_step rootName len t =
     (let name = traverser_name t in
      if name = ''body''
      then (if rootName \<in> set request_roots then BufRequest
            else if rootName \<in> set response_roots then BufResponse else BufNone)
      else if name = ''context'' \<or> name = ''form_body''
      then (if rootName \<in> set request_roots then BufRequest else BufNone)
      else if name = ''json_body''
      then (if rootName \<in> set request_roots then BufRequest OR BufJSONParseRequest
            else if rootName \<in> set response_roots then BufResponse OR BufJSONParseResponse else BufNone)
      else if len = 2
      then (if rootName \<in> set response_roots then BufResponse else BufNone) OR
           (if rootName = ''backend_request'' \<or> rootName = ''backend_requests'' then BufRequest else BufNone)
      else BufNone)"

definition buffer_traversal :: "traversal \<Rightarrow> buffer_option" where
  "buffer_traversal tr =
     (if tr_steps tr = []
      then (if tr_root tr \<in> set request_roots then BufRequest else BufNone) OR
           (if tr_root tr \<in> set response_roots then BufResponse else BufNone)
      else if tr_root tr \<notin> set request_roots \<and> tr_root tr \<notin> set response_roots then BufNone
      else fold (\<lambda>t result. result OR buffer_step (tr_root tr) (Suc (length (tr_steps tr))) t) (tr_steps tr) BufNone)"

definition Must :: "body list \<Rightarrow> buffer_option" where
  "Must bodies =
     (if bodies = [] then BufNone
      else (let attrs = CollectAttributes bodies;
                r1 = fold (\<lambda>t result. result OR bufferWithBlock t) (CollectBlockTypes bodies) BufNone;
                r2 = fold (\<lambda>a result. result OR bufferWithAttribute (at_name a)) attrs r1
            in fold (\<lambda>tr result. result OR buffer_traversal tr) (concat (map at_variables attrs)) r2))"

section \<open>The union of the parts\<close>

lemma fold_or: "fold (\<lambda>x r. r OR f x) xs (r0 :: 'a::len word) = r0 OR fold (\<lambda>x r. r OR f x) xs 0"
proof (induction xs arbitrary: r0)
  case (Cons x xs)
  show ?case by (simp add: Cons[of "r0 OR f x"] Cons[of "f x"] or.assoc)
qed simp

lemma fold_or_append:
  "fold (\<lambda>x r. r OR f x) (xs @ ys) (0 :: 'a::len word) = fold (\<lambda>x r. r OR f x) xs 0 OR fold (\<lambda>x r. r OR f x) ys 0"
  by (simp add: fold_or[of f ys "fold (\<lambda>x r. r OR f x) xs 0"])

lemma bit_fold_or: "bit (fold (\<lambda>x r. r OR f x) xs (0 :: 'a::len word)) n \<longleftrightarrow> (\<exists>x\<in>set xs. bit (f x) n)"
proof (induction xs)
  case (Cons x xs)
  then show ?case by (simp add: fold_or[of f xs "f x"] bit_or_iff)
qed simp

lemma set_add_unique [simp]: "set (add_unique ts us) = set us \<union> set ts"
  by (induction ts arbitrary: us) (auto simp: add_unique_def)

lemma set_fold_add_unique [simp]: "set (fold add_unique tss us) = set us \<union> \<Union> (set ` set tss)"
  by (induction tss arbitrary: us) auto

lemma set_CollectBlockTypes:
  "set (CollectBlockTypes bs) = (\<Union>b\<in>set bs. \<Union>(t, b')\<in>set (body_blocks b). insert t (set (block_types b')))"
  by (auto simp: CollectBlockTypes_def)

lemma CollectAttributes_append [simp]: "CollectAttributes (as @ bs) = CollectAttributes as @ CollectAttributes bs"
  by (simp add: CollectAttributes_def)

text \<open>The bit of a result, as a union over what the bodies contain.\<close>

definition must_bit :: "body list \<Rightarrow> nat \<Rightarrow> bool" where
  "must_bit bodies n \<longleftrightarrow>
     (\<exists>t\<in>set (CollectBlockTypes bodies). bit (bufferWithBlock t) n) \<or>
     (\<exists>a\<in>set (CollectAttributes bodies). bit (bufferWithAttribute (at_name a)) n \<or>
        (\<exists>tr\<in>set (at_variables a). bit (buffer_traversal tr) n))"

lemma bit_Must: "bit (Must bodies) n \<longleftrightarrow> must_bit bodies n"
proof (cases "bodies = []")
  case True
  then show ?thesis by (simp add: Must_def must_bit_def BufNone_def CollectBlockTypes_def CollectAttributes_def)
next
  case False
  show ?thesis
    unfolding Must_def Let_def BufNone_def
    using False
    by (subst fold_or, subst fold_or) (auto simp: bit_or_iff bit_fold_or must_bit_def simp del: fold_simps)
qed

lemma must_bit_append: "must_bit (as @ bs) n \<longleftrightarrow> must_bit as n \<or> must_bit bs n"
  by (auto simp: must_bit_def set_CollectBlockTypes)

lemma Must_append: "Must (as @ bs) = Must as OR Must bs"
  by (rule bit_word_eqI) (simp add: bit_Must must_bit_append bit_or_iff)


section \<open>Which expressions ask for what\<close>

definition steps_to :: "traversal \<Rightarrow> string list \<Rightarrow> bool" where
  "steps_to tr names \<longleftrightarrow> list_ex (\<lambda>n. TraverseAttr n \<in> set (tr_steps tr)) names"

definition reads_request :: "traversal \<Rightarrow> bool" where
  "reads_request tr \<longleftrightarrow> tr_root tr \<in> set request_roots \<and>
     (tr_steps tr = [] \<or> steps_to tr [''body'', ''context'', ''form_body'', ''json_body''] \<or>
      tr_root tr \<noteq> ''request'' \<and> length (tr_steps tr) = 1)"

definition reads_response :: "traversal \<Rightarrow> bool" where
  "reads_response tr \<longleftrightarrow> tr_root tr \<in> set response_roots \<and>
     (tr_steps tr = [] \<or> steps_to tr [''body'', ''json_body''] \<or>
      length (tr_steps tr) = 1 \<and> \<not> steps_to tr [''context'', ''form_body''])"

definition reads_request_json :: "traversal \<Rightarrow> bool" where
  "reads_request_json tr \<longleftrightarrow> tr_root tr \<in> set request_roots \<and> steps_to tr [''json_body'']"

definition reads_response_json :: "traversal \<Rightarrow> bool" where
  "reads_response_json tr \<longleftrightarrow> tr_root tr \<in> set response_roots \<and> steps_to tr [''json_body'']"

definition some_variable :: "(traversal \<Rightarrow> bool) \<Rightarrow> body list \<Rightarrow> bool" where
  "some_variable p bodies \<longleftrightarrow> list_ex (\<lambda>a. list_ex p (at_variables a)) (CollectAttributes bodies)"

lemma flag_bits:
  "opt_Request m = bit m 0" "opt_Response m = bit m 1" "opt_JSONRequest m = bit m 2" "opt_JSONResponse m = bit m 3"
proof -
  have one: "(m AND push_bit n 1 = push_bit n 1) = bit m n" if "n < 8" for n
  proof
    assume "m AND push_bit n 1 = push_bit n 1"
    then have "bit (m AND push_bit n 1) n = bit (push_bit n (1 :: 8 word)) n" by simp
    then show "bit m n" using that by (simp add: bit_simps)
  next
    assume "bit m n"
    then show "m AND push_bit n 1 = push_bit n 1"
      by (intro bit_word_eqI) (auto simp: bit_simps)
  qed
  have v: "push_bit 0 (1 :: 8 word) = 1" "push_bit 1 (1 :: 8 word) = 2" "push_bit 2 (1 :: 8 word) = 4"
    "push_bit 3 (1 :: 8 word) = 8" by simp_all
  show "opt_Request m = bit m 0" using one[of 0] unfolding v opt_Request_def BufRequest_def by simp
  show "opt_Response m = bit m 1" using one[of 1] unfolding v opt_Response_def BufResponse_def by simp
  show "opt_JSONRequest m = bit m 2" using one[of 2] unfolding v opt_JSONRequest_def BufJSONParseRequest_def by simp
  show "opt_JSONResponse m = bit m 3" using one[of 3] unfolding v opt_JSONResponse_def BufJSONParseResponse_def by simp
qed

lemma flag_values:
  "bit BufNone n = False" "bit BufRequest n = (n = 0)" "bit BufResponse n = (n = 1)"
  "bit BufJSONParseRequest n = (n = 2)" "bit BufJSONParseResponse n = (n = 3)"
proof -
  have one: "bit (push_bit k (1 :: 8 word)) n = (n = k)" if "k < 8" for k n
    using that by (auto simp: bit_simps)
  have v: "push_bit 0 (1 :: 8 word) = 1" "push_bit 1 (1 :: 8 word) = 2" "push_bit 2 (1 :: 8 word) = 4"
    "push_bit 3 (1 :: 8 word) = 8" by simp_all
  show "bit BufNone n = False" by (simp add: BufNone_def)
  show "bit BufRequest n = (n = 0)" using one[of 0 n] unfolding v BufRequest_def by simp
  show "bit BufResponse n = (n = 1)" using one[of 1 n] unfolding v BufResponse_def by simp
  show "bit BufJSONParseRequest n = (n = 2)" using one[of 2 n] unfolding v BufJSONParseRequest_def by simp
  show "bit BufJSONParseResponse n = (n = 3)" using one[of 3 n] unfolding v BufJSONParseResponse_def by simp
qed

lemma roots_disjoint: "r \<in> set request_roots \<Longrightarrow> r \<notin> set response_roots"
  by (auto simp: request_roots_def response_roots_def)

lemma traverser_name_eq [simp]:
  "n \<noteq> ''<invalid Value>'' \<Longrightarrow> traverser_name t = n \<longleftrightarrow> t = TraverseAttr n"
  by (cases t) auto

definition step_among :: "string list \<Rightarrow> traverser \<Rightarrow> bool" where
  "step_among names t \<longleftrightarrow> list_ex (\<lambda>n. t = TraverseAttr n) names"

lemma bit_buffer_step_request:
  assumes "r \<in> set request_roots"
  shows "bit (buffer_step r len t) n \<longleftrightarrow>
     (n = 0 \<and> (step_among [''body'', ''context'', ''form_body'', ''json_body''] t \<or> (len = 2 \<and> r \<noteq> ''request''))) \<or>
     (n = 2 \<and> step_among [''json_body''] t)"
  using assms roots_disjoint[OF assms]
  by (auto simp: buffer_step_def Let_def flag_values bit_or_iff step_among_def request_roots_def)

lemma bit_buffer_step_response:
  assumes "r \<in> set response_roots"
  shows "bit (buffer_step r len t) n \<longleftrightarrow>
     (n = 1 \<and> (step_among [''body'', ''json_body''] t \<or> (len = 2 \<and> \<not> step_among [''context'', ''form_body''] t))) \<or>
     (n = 3 \<and> step_among [''json_body''] t)"
proof -
  have "r \<notin> set request_roots" using assms roots_disjoint by blast
  then have "r \<noteq> ''backend_request''" "r \<noteq> ''backend_requests''" by (auto simp: request_roots_def)
  with assms \<open>r \<notin> set request_roots\<close> show ?thesis
    by (auto simp: buffer_step_def Let_def flag_values bit_or_iff step_among_def)
qed

lemma steps_to_iff: "steps_to tr names \<longleftrightarrow> (\<exists>t\<in>set (tr_steps tr). step_among names t)"
  by (auto simp: steps_to_def step_among_def list_ex_iff)

lemma one_step: "(\<exists>t\<in>set ts. Suc (length ts) = 2 \<and> P t) \<longleftrightarrow> length ts = 1 \<and> (\<exists>t\<in>set ts. P t)"
  by auto

lemma single_not: "length ts = 1 \<Longrightarrow> (\<exists>t\<in>set ts. \<not> P t) \<longleftrightarrow> \<not> (\<exists>t\<in>set ts. P t)"
  by (cases ts) auto

lemma bit_buffer_traversal:
  "bit (buffer_traversal tr) n \<longleftrightarrow>
     (n = 0 \<and> reads_request tr) \<or> (n = 1 \<and> reads_response tr) \<or>
     (n = 2 \<and> reads_request_json tr) \<or> (n = 3 \<and> reads_response_json tr)"
proof (cases "tr_steps tr = []")
  case True
  then show ?thesis
    using roots_disjoint[of "tr_root tr"]
    by (auto simp: buffer_traversal_def flag_values bit_or_iff reads_request_def reads_response_def
        reads_request_json_def reads_response_json_def steps_to_def)
next
  case some: False
  consider (request) "tr_root tr \<in> set request_roots" | (response) "tr_root tr \<in> set response_roots"
    | (other) "tr_root tr \<notin> set request_roots" "tr_root tr \<notin> set response_roots" by blast
  then show ?thesis
  proof cases
    case request
    then show ?thesis
      using some roots_disjoint[OF request]
      by (simp add: buffer_traversal_def BufNone_def bit_fold_or bit_buffer_step_request reads_request_def
          reads_response_def reads_request_json_def reads_response_json_def steps_to_iff) (cases "tr_steps tr"; fastforce)
  next
    case response
    then have no: "tr_root tr \<notin> set request_roots" using roots_disjoint by blast
    have "bit (buffer_traversal tr) n \<longleftrightarrow>
       (\<exists>t\<in>set (tr_steps tr). (n = 1 \<and> (step_among [''body'', ''json_body''] t \<or>
            (Suc (length (tr_steps tr)) = 2 \<and> \<not> step_among [''context'', ''form_body''] t))) \<or>
          (n = 3 \<and> step_among [''json_body''] t))"
      using some response no by (simp add: buffer_traversal_def BufNone_def bit_fold_or bit_buffer_step_response)
    also have "\<dots> \<longleftrightarrow> (n = 1 \<and> reads_response tr) \<or> (n = 3 \<and> reads_response_json tr)"
      using response some single_not[of "tr_steps tr" "step_among [''context'', ''form_body'']"]
      unfolding reads_response_def reads_response_json_def steps_to_iff by auto
    finally show ?thesis using no by (simp add: reads_request_def reads_request_json_def)
  next
    case other
    then show ?thesis
      using some by (simp add: buffer_traversal_def flag_values reads_request_def reads_response_def
          reads_request_json_def reads_response_json_def)
  qed
qed

text \<open>
  A body is buffered, and parsed as JSON, exactly if a form attribute, an \<open>openapi\<close> block or an
  expression of the bodies reads it in one of the listed ways. A client body that is parsed is also buffered.
\<close>

theorem buffered_when_read:
  "opt_Request (Must bodies) =
     (list_ex (\<lambda>a. at_name a \<in> {''add_form_params'', ''set_form_params'', ''remove_form_params''}) (CollectAttributes bodies) \<or>
      some_variable reads_request bodies) \<and>
   opt_Response (Must bodies) =
     (''openapi'' \<in> set (CollectBlockTypes bodies) \<or> some_variable reads_response bodies) \<and>
   opt_JSONRequest (Must bodies) = some_variable reads_request_json bodies \<and>
   opt_JSONResponse (Must bodies) = some_variable reads_response_json bodies"
proof -
  have block: "bit (bufferWithBlock t) n \<longleftrightarrow> n = 1 \<and> t = ''openapi''" for t n
    by (simp add: bufferWithBlock_def flag_values)
  have attr: "bit (bufferWithAttribute t) n \<longleftrightarrow> n = 0 \<and> t \<in> {''add_form_params'', ''set_form_params'', ''remove_form_params''}" for t n
    by (simp add: bufferWithAttribute_def flag_values)
  show ?thesis
    unfolding flag_bits bit_Must must_bit_def bit_buffer_traversal block attr some_variable_def list_ex_iff
    by auto
qed

text \<open>
  An expression that takes a whole response asks for its body only, and its JSON is not parsed; so does
  a splat, whose variable is the root alone. A response named \<open>context\<close> is not even buffered.
\<close>

definition whole :: "string \<Rightarrow> traverser list \<Rightarrow> body list" where
  "whole r steps = [Body [\<lparr>at_name = ''json_body'', at_variables = [\<lparr>tr_root = r, tr_steps = steps\<rparr>]\<rparr>] []]"

lemma whole_object_not_parsed:
  "opt_Response (Must (whole ''backend_responses'' [])) \<and> \<not> opt_JSONResponse (Must (whole ''backend_responses'' []))"
  "opt_Response (Must (whole ''backend_responses'' [TraverseAttr ''default''])) \<and>
   \<not> opt_JSONResponse (Must (whole ''backend_responses'' [TraverseAttr ''default'']))"
  "\<not> opt_Response (Must (whole ''backend_responses'' [TraverseAttr ''context'']))"
  unfolding flag_bits bit_Must must_bit_def bit_buffer_traversal
  by (simp_all add: whole_def CollectAttributes_def CollectBlockTypes_def bufferWithAttribute_def flag_values
      reads_request_def reads_response_def reads_request_json_def reads_response_json_def steps_to_def
      request_roots_def response_roots_def)

end
