(* ===== verification/Functions.thy ===== *)
theory Functions
  imports Errors Seetie QueryString
begin

text \<open>
  The functions of expressions (\<open>eval/lib\<close>): merging of values, encodings, URLs, the default value and
  the authorization URL of an OAuth2 client.

  The framework of \<open>cty\<close> calls a function only with arguments of the declared types, so a text is given
  as one. \<open>url.Parse\<close>, the resolution of references and the challenge of a verifier are arguments.
\<close>

section \<open>Merging\<close>

fun is_primitive_type :: "cty_type \<Rightarrow> bool" where
  "is_primitive_type t = (t = TBool \<or> t = TNumber \<or> t = TString)"

fun is_object_type :: "cty_type \<Rightarrow> bool" where
  "is_object_type (TObject ts) = True"
| "is_object_type _ = False"

fun is_object_or_map_type :: "cty_type \<Rightarrow> bool" where
  "is_object_or_map_type (TObject ts) = True"
| "is_object_or_map_type (TMap t) = True"
| "is_object_or_map_type _ = False"

fun is_tuple_type :: "cty_type \<Rightarrow> bool" where
  "is_tuple_type (TTuple ts) = True"
| "is_tuple_type _ = False"

fun is_tuple_or_list_type :: "cty_type \<Rightarrow> bool" where
  "is_tuple_or_list_type (TTuple ts) = True"
| "is_tuple_or_list_type (TList t) = True"
| "is_tuple_or_list_type _ = False"

text \<open>The iteration over a value that is not null; \<open>None\<close> is the panic for an unknown or other value.\<close>

fun iterate_entries :: "cty \<Rightarrow> (string \<times> cty) list option" where
  "iterate_entries (CMap t kvs) = Some kvs"
| "iterate_entries (CObject kvs) = Some kvs"
| "iterate_entries _ = None"

fun iterate_elements :: "cty \<Rightarrow> cty list option" where
  "iterate_elements (CMap t kvs) = Some (map snd kvs)"
| "iterate_elements (CObject kvs) = Some (map snd kvs)"
| "iterate_elements (CList t vs) = Some vs"
| "iterate_elements (CTuple vs) = Some vs"
| "iterate_elements _ = None"

definition null_or :: "(cty \<Rightarrow> 'a list option) \<Rightarrow> cty \<Rightarrow> 'a list option" where
  "null_or f v = (if is_null v then Some [] else f v)"

definition mergeTuples :: "cty list \<Rightarrow> cty option" where
  "mergeTuples args = map_option (\<lambda>vss. CTuple (concat vss)) (those (map (null_or iterate_elements) args))"

text \<open>One value merged into an existing one. The merge of two objects starts with the entries of the
  first, whose keys are distinct.\<close>

fun merge_value :: "cty \<Rightarrow> cty \<Rightarrow> cty option" and merge_entries :: "(string \<times> cty) list \<Rightarrow> (string \<times> cty) list \<Rightarrow> (string \<times> cty) list option" where
  "merge_value old v =
     (if is_primitive_type (cty_type_of v) then Some v
      else if is_object_type (cty_type_of old) \<and> is_object_or_map_type (cty_type_of v)
      then (case null_or iterate_entries old of
         None \<Rightarrow> None
       | Some entries \<Rightarrow>
          (case v of
             CObject kvs \<Rightarrow> map_option CObject (merge_entries entries kvs)
           | CMap t kvs \<Rightarrow> map_option CObject (merge_entries entries kvs)
           | CNull t \<Rightarrow> Some (CObject entries)
           | _ \<Rightarrow> None))
      else if is_tuple_type (cty_type_of old) \<and> is_tuple_or_list_type (cty_type_of v) then mergeTuples [old, v]
      else Some v)"
| "merge_entries acc [] = Some acc"
| "merge_entries acc ((k, v) # kvs) =
     (case map_of acc k of
        None \<Rightarrow> merge_entries (set_key k v acc) kvs
      | Some old \<Rightarrow>
          (case merge_value old v of None \<Rightarrow> None | Some new \<Rightarrow> merge_entries (set_key k new acc) kvs))"

declare merge_value.simps [simp del]

fun merge_args :: "(string \<times> cty) list \<Rightarrow> cty list \<Rightarrow> (string \<times> cty) list option" where
  "merge_args acc [] = Some acc"
| "merge_args acc (arg # args) =
     (if is_null arg then merge_args acc args
      else (case iterate_entries arg of
         None \<Rightarrow> None
       | Some kvs \<Rightarrow> (case merge_entries acc kvs of None \<Rightarrow> None | Some acc' \<Rightarrow> merge_args acc' args)))"

definition mergeObjects :: "cty list \<Rightarrow> cty option" where
  "mergeObjects args = map_option CObject (merge_args [] args)"

datatype merge_kind = NoKind | Objects | Lists

definition merge_kind_of :: "cty_type \<Rightarrow> merge_kind" where
  "merge_kind_of t = (if is_object_or_map_type t then Objects else if is_tuple_or_list_type t then Lists else NoKind)"

fun check_merge :: "merge_kind \<Rightarrow> cty list \<Rightarrow> string + merge_kind" where
  "check_merge t [] = Inr t"
| "check_merge t (arg # args) =
     (if is_null arg then check_merge t args
      else if is_primitive_type (cty_type_of arg) then Inl ''cannot merge primitive value''
      else (let k = merge_kind_of (cty_type_of arg) in
        if k = NoKind then check_merge t args
        else if t = NoKind \<or> t = k then check_merge k args
        else Inl ''type mismatch''))"

definition Merge :: "cty list \<Rightarrow> (string + cty) option" where
  "Merge args =
     (case check_merge NoKind args of
        Inl e \<Rightarrow> Some (Inl e)
      | Inr Objects \<Rightarrow> map_option Inr (mergeObjects args)
      | Inr Lists \<Rightarrow> map_option Inr (mergeTuples args)
      | Inr NoKind \<Rightarrow> Some (Inr (CNull TBool)))"

section \<open>The default value\<close>

text \<open>\<open>convert.Convert\<close> and the common type of the arguments are arguments.\<close>

fun default_value :: "(cty \<Rightarrow> cty_type \<Rightarrow> string + cty) \<Rightarrow> cty_type \<Rightarrow> cty list \<Rightarrow> cty \<Rightarrow> string + cty" where
  "default_value conv retType [] final = Inr final"
| "default_value conv retType (arg # args) final =
     (if \<not> is_known arg then Inr (CUnknown retType)
      else if is_null arg then default_value conv retType args final
      else if arg = CString [] \<and> retType = TString then default_value conv retType args final
      else conv arg retType)"

definition DefaultFunc :: "(cty \<Rightarrow> cty_type \<Rightarrow> string + cty) \<Rightarrow> cty_type \<Rightarrow> cty list \<Rightarrow> (string + cty) option" where
  "DefaultFunc conv retType args = (if args = [] then None else Some (default_value conv retType args (last args)))"

section \<open>Encodings\<close>

definition url_decode :: "string \<Rightarrow> string option" where
  "url_decode s = query_unescape s"

definition url_encode :: "string \<Rightarrow> string" where
  "url_encode s = replace_char CHR ''+'' ''%20'' (query_escape s)"

definition base64_decode :: "string \<Rightarrow> string option" where
  "base64_decode s = b64_decode s"

definition base64_encode :: "string \<Rightarrow> string" where
  "base64_encode s = b64_encode s"

section \<open>URLs\<close>

record url_parts =
  up_scheme :: string
  up_authority :: string
  up_path :: string
  up_query :: string
  up_fragment :: string

text \<open>The expression of the program matches every text; the parts keep their delimiters.\<close>

definition parse_scheme :: "string \<Rightarrow> string \<times> string" where
  "parse_scheme s =
     (let n = takeWhile (\<lambda>c. c \<notin> set '':/?#'') s; r = drop (length n) s in
      if n \<noteq> [] \<and> has_prefix r '':'' then (n @ '':'', tl r) else ([], s))"

definition parse_authority :: "string \<Rightarrow> string \<times> string" where
  "parse_authority s =
     (if has_prefix s ''//''
      then (let n = takeWhile (\<lambda>c. c \<notin> set ''/?#'') (drop 2 s) in (''//'' @ n, drop (length n + 2) s))
      else ([], s))"

definition regexParseURL :: "string \<Rightarrow> url_parts" where
  "regexParseURL s =
     (case parse_scheme s of (scheme, s1) \<Rightarrow>
      (case parse_authority s1 of (auth, s2) \<Rightarrow>
        (let path = takeWhile (\<lambda>c. c \<noteq> CHR ''?'' \<and> c \<noteq> CHR ''#'') s2;
             s3 = drop (length path) s2;
             query = (if has_prefix s3 ''?'' then takeWhile (\<lambda>c. c \<noteq> CHR ''#'') s3 else []);
             s4 = drop (length query) s3;
             frag = (if has_prefix s4 ''#'' then takeWhile (\<lambda>c. c \<noteq> CHR 0x0A) s4 else []) in
         \<lparr>up_scheme = scheme, up_authority = auth, up_path = path, up_query = query, up_fragment = frag\<rparr>)))"

definition relative_url :: "(string \<Rightarrow> string option) \<Rightarrow> string \<Rightarrow> string + string" where
  "relative_url parse_error s =
     (let absURL = trim_space s in
      if \<not> has_prefix absURL ''/'' \<and> \<not> has_prefix absURL ''http://'' \<and> \<not> has_prefix absURL ''https://''
      then Inl (''invalid url given: '' @ [CHR 0x22] @ absURL @ [CHR 0x22])
      else (case parse_error absURL of
         Some e \<Rightarrow> Inl e
       | None \<Rightarrow>
          (let p = regexParseURL absURL;
               path = (if has_prefix (up_path p) ''/'' then up_path p else ''/'' @ up_path p) in
           Inr (path @ up_query p @ up_fragment p))))"

text \<open>\<open>url.Parse\<close> says whether a reference is absolute; the other one is resolved.\<close>

definition AbsoluteURL :: "(string \<Rightarrow> string + bool) \<Rightarrow> (string \<Rightarrow> string \<Rightarrow> string) \<Rightarrow> string \<Rightarrow> string \<Rightarrow> string + string" where
  "AbsoluteURL parse resolve urlRef origin =
     (case parse urlRef of Inl e \<Rightarrow> Inl e | Inr absolute \<Rightarrow> Inr (if absolute then urlRef else resolve origin urlRef))"

section \<open>The authorization URL\<close>

record oauth2_authorization =
  oa_endpoint :: "string + string \<times> url_values"
  oa_client_id :: string
  oa_redirect_uri :: string
  oa_scope :: string
  oa_verifier_method :: "string + string"

definition v_set :: "string \<Rightarrow> string \<Rightarrow> url_values \<Rightarrow> url_values" where
  "v_set k v m = set_key k [v] m"

text \<open>\<open>createCodeChallenge\<close> with the verifier of the request.\<close>

definition createCodeChallenge :: "(string \<Rightarrow> string) \<Rightarrow> string + string \<Rightarrow> string + string" where
  "createCodeChallenge s256 verifier = (case verifier of Inl e \<Rightarrow> Inl e | Inr v \<Rightarrow> Inr (s256 v))"

definition authorization_query ::
    "oauth2_authorization \<Rightarrow> string \<Rightarrow> url_values \<Rightarrow> url_values" where
  "authorization_query oa absRedirectURI query =
     (let q = v_set ''redirect_uri'' absRedirectURI
                (v_set ''client_id'' (oa_client_id oa) (v_set ''response_type'' ''code'' query)) in
      if oa_scope oa \<noteq> [] then v_set ''scope'' (oa_scope oa) q else q)"

definition oauth2_authorization_url ::
    "(string \<Rightarrow> string + bool) \<Rightarrow> (string \<Rightarrow> string \<Rightarrow> string) \<Rightarrow> (string \<Rightarrow> string) \<Rightarrow> string \<Rightarrow> string + string
       \<Rightarrow> (string \<rightharpoonup> oauth2_authorization) \<Rightarrow> string \<Rightarrow> string + string" where
  "oauth2_authorization_url parse resolve s256 origin verifier oauth2s name =
     (case oauth2s name of
        None \<Rightarrow> Inl (''missing oidc or beta_oauth2 block with referenced label '' @ [CHR 0x22] @ name @ [CHR 0x22])
      | Some oa \<Rightarrow>
         (case oa_endpoint oa of
            Inl e \<Rightarrow> Inl e
          | Inr (base, query) \<Rightarrow>
              if oa_redirect_uri oa = [] then Inl ''redirect_uri is required''
              else (case AbsoluteURL parse resolve (oa_redirect_uri oa) origin of
                 Inl e \<Rightarrow> Inl e
               | Inr absRedirectURI \<Rightarrow>
                  (case oa_verifier_method oa of
                     Inl e \<Rightarrow> Inl e
                   | Inr mtd \<Rightarrow>
                      (case createCodeChallenge s256 verifier of
                         Inl e \<Rightarrow> Inl e
                       | Inr challenge \<Rightarrow>
                          (let q = authorization_query oa absRedirectURI query;
                               q' = (if mtd = ''ccm_s256''
                                     then v_set ''code_challenge'' challenge (v_set ''code_challenge_method'' ''S256'' q)
                                     else v_set mtd challenge q) in
                           Inr (base @ ''?'' @ values_encode q')))))))"

section \<open>What they compute\<close>

text \<open>The encoding of a byte in a URI (RFC 3986), with the space as any other byte that is not unreserved.\<close>

definition percent_encoded :: "char \<Rightarrow> string" where
  "percent_encoded c =
     (if unreserved c then [c] else [CHR ''%'', upper_hex (of_char c div 16), upper_hex (of_char c mod 16)])"

lemma replaced_escape: "replace_char CHR ''+'' ''%20'' (escape_char c) = percent_encoded c"
proof -
  have plus: "\<not> unreserved CHR ''+''" "\<not> unreserved CHR '' ''" "upper_hex 2 = CHR ''2''" "upper_hex 0 = CHR ''0''" by code_simp+
  then have "c \<noteq> CHR ''+''" if "unreserved c" using that by auto
  moreover have "upper_hex (of_char c div 16) \<noteq> CHR ''+''" "upper_hex (of_char c mod 16) \<noteq> CHR ''+''"
    using hex_digits[OF char_digits(1), of c] hex_digits[OF char_digits(2), of c] plus(1) by metis+
  ultimately show ?thesis
    using plus by (auto simp: escape_char_def percent_encoded_def replace_char_def Let_def)
qed

text \<open>
  Property C37: \<open>url_encode\<close> writes every byte that is not unreserved with a percent sign, the space too, which the form encoding of the
  library writes as a plus sign; and \<open>url_decode\<close> inverts it on every text.
\<close>

theorem encodings_roundtrip:
  "url_encode s = concat (map percent_encoded s) \<and> url_decode (url_encode s) = Some s"
proof
  show "url_encode s = concat (map percent_encoded s)"
    unfolding url_encode_def query_escape_def
    by (induction s) (simp_all add: replaced_escape, simp add: replace_char_def)
  show "url_decode (url_encode s) = Some s"
    by (simp add: url_decode_def url_encode_def unescape_escape_as space_as_def)
qed

lemma base64_roundtrip: "base64_decode (base64_encode s) = Some s"
  by (simp add: base64_decode_def base64_encode_def)

lemma merge_entries_lookup:
  assumes "merge_entries acc kvs = Some r" and "distinct (map fst kvs)"
  shows "case (map_of acc k, map_of kvs k) of
     (Some old, Some v) \<Rightarrow> map_of r k = merge_value old v \<and> merge_value old v \<noteq> None
   | (None, Some v) \<Rightarrow> map_of r k = Some v
   | (x, None) \<Rightarrow> map_of r k = x"
  using assms
proof (induction kvs arbitrary: acc)
  case Nil
  then show ?case by (auto split: option.split)
next
  case (Cons p kvs)
  obtain k' v where p: "p = (k', v)" by fastforce
  from Cons.prems(2) p have fresh: "map_of kvs k' = None" "distinct (map fst kvs)" by (simp_all add: map_of_eq_None_iff)
  show ?case
  proof (cases "map_of acc k'")
    case None
    then have "merge_entries (set_key k' v acc) kvs = Some r" using Cons.prems(1) p by simp
    from Cons.IH[OF this fresh(2)] show ?thesis using p None fresh(1) by (cases "k = k'") (auto split: option.splits)
  next
    case (Some old)
    then obtain new where n: "merge_value old v = Some new" "merge_entries (set_key k' new acc) kvs = Some r"
      using Cons.prems(1) p by (auto split: option.splits)
    from Cons.IH[OF n(2) fresh(2)] show ?thesis using p Some n(1) fresh(1) by (cases "k = k'") (auto split: option.splits)
  qed
qed

lemma merge_args_two:
  "merge_args [] [CObject a, CObject b] = (case merge_entries [] a of None \<Rightarrow> None | Some r \<Rightarrow> merge_entries r b)"
  by (simp split: option.split)

lemma merge_entries_fresh:
  "distinct (map fst acc) \<Longrightarrow> distinct (map fst kvs) \<Longrightarrow> fst ` set acc \<inter> fst ` set kvs = {} \<Longrightarrow>
     \<exists>r. merge_entries acc kvs = Some r \<and> map_of r = map_of acc ++ map_of kvs"
proof (induction kvs arbitrary: acc)
  case (Cons p kvs)
  obtain k v where p: "p = (k, v)" by fastforce
  have keys: "fst ` set (set_key k v acc) = insert k (fst ` set acc)" for v
    by (induction k v acc rule: set_key.induct) auto
  have none: "map_of acc k = None" using Cons.prems(3) p by (auto simp: map_of_eq_None_iff)
  have fresh: "map_of kvs k = None" using Cons.prems(2) p by (auto simp: map_of_eq_None_iff)
  have "\<exists>r. merge_entries (set_key k v acc) kvs = Some r \<and> map_of r = map_of (set_key k v acc) ++ map_of kvs"
    using Cons.prems p by (intro Cons.IH) (auto simp: keys)
  moreover have "map_of (set_key k v acc) ++ map_of kvs = map_of acc ++ map_of (p # kvs)"
    using fresh by (intro ext) (auto simp: p map_add_def split: option.split)
  moreover have "merge_entries acc (p # kvs) = merge_entries (set_key k v acc) kvs" using p none by simp
  ultimately show ?case by metis
qed simp

text \<open>Merging two objects: a key of one of them keeps its value, and a key of both gets the
  second value merged into the first: a nested object takes a nested object or map entry by entry, a
  tuple is extended, and everything else is replaced.\<close>

theorem merge_lookup:
  assumes "distinct (map fst a)" "distinct (map fst b)" and "Merge [CObject a, CObject b] = Some (Inr r)"
  shows "\<exists>m. r = CObject m \<and>
     (case (map_of a k, map_of b k) of
        (Some old, Some v) \<Rightarrow> map_of m k = merge_value old v \<and> merge_value old v \<noteq> None
      | (None, Some v) \<Rightarrow> map_of m k = Some v
      | (x, None) \<Rightarrow> map_of m k = x)"
proof -
  have "check_merge NoKind [CObject a, CObject b] = Inr Objects" by (simp add: merge_kind_of_def)
  then obtain m where m: "r = CObject m" "merge_args [] [CObject a, CObject b] = Some m"
    using assms(3) by (auto simp: Merge_def mergeObjects_def simp del: merge_args.simps)
  obtain acc where acc: "merge_entries [] a = Some acc" "map_of acc = map_of a"
    using merge_entries_fresh[of "[]" a] assms(1) by auto
  have "merge_entries acc b = Some m" using m(2) acc(1) by (simp only: merge_args_two option.case)
  from merge_entries_lookup[OF this assms(2), of k] show ?thesis using m(1) acc(2) by simp
qed

definition demo_objects :: "(string \<times> cty) list \<times> (string \<times> cty) list" where
  "demo_objects = ([(''a'', CObject [(''x'', CNumber 1)]), (''b'', CTuple [CNumber 1])],
     [(''a'', CObject [(''y'', CNumber 2)]), (''b'', CTuple [CNumber 3]), (''c'', CString ''s'')])"

lemma merge_lookup_witness:
  "\<exists>r. Merge [CObject (fst demo_objects), CObject (snd demo_objects)] = Some (Inr r) \<and>
     (\<exists>m. r = CObject m \<and> map_of m ''b'' = Some (CTuple [CNumber 1, CNumber 3]))"
proof -
  have d: "distinct (map fst (fst demo_objects))" "distinct (map fst (snd demo_objects))" by (simp_all add: demo_objects_def)
  have v: "merge_value (CTuple [CNumber 1]) (CTuple [CNumber 3]) = Some (CTuple [CNumber 1, CNumber 3])"
    by (simp add: merge_value.simps mergeTuples_def null_or_def)
  have "\<exists>r. Merge [CObject (fst demo_objects), CObject (snd demo_objects)] = Some (Inr r)"
    by (simp add: demo_objects_def Merge_def merge_kind_of_def mergeObjects_def merge_value.simps mergeTuples_def null_or_def)
  then obtain r where r: "Merge [CObject (fst demo_objects), CObject (snd demo_objects)] = Some (Inr r)" by blast
  from merge_lookup[OF d r, of "''b''"] obtain m where "r = CObject m" "map_of m ''b'' = Some (CTuple [CNumber 1, CNumber 3])"
    using v by (auto simp: demo_objects_def)
  with r show ?thesis by blast
qed

text \<open>A nested value of a map type is replaced where an object would be merged.\<close>

lemma nested_map_replaced:
  "merge_value (CMap t kvs) (CObject kvs') = Some (CObject kvs')"
  by (simp add: merge_value.simps)

lemma authorization_query_distinct: "distinct (map fst q) \<Longrightarrow> distinct (map fst (authorization_query oa u q))"
  by (simp add: authorization_query_def v_set_def Let_def)

lemma values_of_encoded: "distinct (map fst m) \<Longrightarrow> values_of (parse_query (values_encode m)) = values_of m"
  using query_roundtrip[of m "''+''"] replace_plus_plus by (simp add: space_as_def)

lemma v_set_distinct: "distinct (map fst m) \<Longrightarrow> distinct (map fst (v_set k v m))"
  by (simp add: v_set_def)

lemma values_of_v_set: "values_of (v_set k v m) k' = (if k' = k then [v] else values_of m k')"
  by (simp add: v_set_def)

text \<open>The query of an authorization URL has exactly one response type, client id and redirect
  URI, the challenge of the verifier under the name of its method, and all other parameters of the
  endpoint.\<close>

theorem authorization_url_parameters:
  assumes "oauth2s name = Some oa" "oa_endpoint oa = Inr (base, query)" "distinct (map fst query)"
    "oa_verifier_method oa = Inr ''ccm_s256''" "verifier = Inr v"
  shows "case oauth2_authorization_url parse resolve s256 origin verifier oauth2s name of
     Inl e \<Rightarrow> True
   | Inr u \<Rightarrow>
       (\<exists>q. u = base @ ''?'' @ q \<and>
          values_of (parse_query q) ''response_type'' = [''code''] \<and>
          values_of (parse_query q) ''client_id'' = [oa_client_id oa] \<and>
          values_of (parse_query q) ''code_challenge'' = [s256 v] \<and>
          values_of (parse_query q) ''code_challenge_method'' = [''S256''] \<and>
          (case AbsoluteURL parse resolve (oa_redirect_uri oa) origin of
             Inr r \<Rightarrow> values_of (parse_query q) ''redirect_uri'' = [r] | Inl e \<Rightarrow> False) \<and>
          values_of (parse_query q) ''other'' = values_of query ''other'')"
proof (cases "oa_redirect_uri oa = []")
  case False
  show ?thesis
  proof (cases "AbsoluteURL parse resolve (oa_redirect_uri oa) origin")
    case (Inr r)
    let ?q = "v_set ''code_challenge'' (s256 v) (v_set ''code_challenge_method'' ''S256'' (authorization_query oa r query))"
    have d: "distinct (map fst ?q)"
      using assms(3) by (intro v_set_distinct authorization_query_distinct)
    have u: "oauth2_authorization_url parse resolve s256 origin verifier oauth2s name = Inr (base @ ''?'' @ values_encode ?q)"
      using False assms Inr by (simp add: oauth2_authorization_url_def createCodeChallenge_def)
    define Q where "Q = values_encode ?q"
    have "values_of (parse_query Q) k = values_of ?q k" for k unfolding Q_def values_of_encoded[OF d] ..
    moreover have "oauth2_authorization_url parse resolve s256 origin verifier oauth2s name = Inr (base @ ''?'' @ Q)"
      using u by (simp add: Q_def)
    ultimately show ?thesis using Inr by (auto simp: values_of_v_set authorization_query_def Let_def)
  qed (simp add: False assms oauth2_authorization_url_def)
qed (simp add: assms oauth2_authorization_url_def)

section \<open>Relative URLs\<close>

lemma parse_scheme_split: "s = fst (parse_scheme s) @ snd (parse_scheme s)"
proof -
  let ?n = "takeWhile (\<lambda>c. c \<notin> set '':/?#'') s"
  have s: "s = ?n @ drop (length ?n) s" by (metis dropWhile_eq_drop takeWhile_dropWhile_id)
  show ?thesis
  proof (cases "?n \<noteq> [] \<and> has_prefix (drop (length ?n) s) '':''")
    case True
    then obtain t where "drop (length ?n) s = CHR '':'' # t" by (auto simp: has_prefix_iff)
    then show ?thesis using s True by (auto simp: parse_scheme_def Let_def)
  qed (auto simp: parse_scheme_def Let_def)
qed

lemma parse_authority_split: "s = fst (parse_authority s) @ snd (parse_authority s)"
proof (cases "has_prefix s ''//''")
  case True
  then obtain t where t: "s = ''//'' @ t" by (auto simp: has_prefix_iff)
  have "t = takeWhile (\<lambda>c. c \<notin> set ''/?#'') t @ drop (length (takeWhile (\<lambda>c. c \<notin> set ''/?#'') t)) t"
    by (metis dropWhile_eq_drop takeWhile_dropWhile_id)
  then show ?thesis unfolding t by (simp add: parse_authority_def Let_def)
qed (simp add: parse_authority_def)

lemma take_drop_while: "takeWhile P s @ drop (length (takeWhile P s)) s = s"
  by (metis dropWhile_eq_drop takeWhile_dropWhile_id)

lemma regexParseURL_split:
  "\<exists>r. s = up_scheme (regexParseURL s) @ up_authority (regexParseURL s) @
         up_path (regexParseURL s) @ up_query (regexParseURL s) @ up_fragment (regexParseURL s) @ r"
proof -
  obtain sc s1 where 1: "parse_scheme s = (sc, s1)" by fastforce
  obtain au s2 where 2: "parse_authority s1 = (au, s2)" by fastforce
  have s: "s = sc @ au @ s2" using parse_scheme_split[of s] parse_authority_split[of s1] 1 2 by simp
  define path where "path = takeWhile (\<lambda>c. c \<noteq> CHR ''?'' \<and> c \<noteq> CHR ''#'') s2"
  define s3 where "s3 = drop (length path) s2"
  define query where "query = (if has_prefix s3 ''?'' then takeWhile (\<lambda>c. c \<noteq> CHR ''#'') s3 else [])"
  define s4 where "s4 = drop (length query) s3"
  define frag where "frag = (if has_prefix s4 ''#'' then takeWhile (\<lambda>c. c \<noteq> CHR 0x0A) s4 else [])"
  have "s2 = path @ s3" by (simp add: path_def s3_def take_drop_while)
  also have "s3 = query @ s4" by (simp add: query_def s4_def take_drop_while)
  also have "s4 = frag @ drop (length frag) s4" by (simp add: frag_def take_drop_while)
  finally have "s = sc @ au @ path @ query @ frag @ drop (length frag) s4" using s by simp
  moreover have "regexParseURL s = \<lparr>up_scheme = sc, up_authority = au, up_path = path, up_query = query, up_fragment = frag\<rparr>"
    by (simp add: regexParseURL_def 1 2 Let_def path_def s3_def query_def s4_def frag_def)
  ultimately show ?thesis by (metis url_parts.select_convs(1-5))
qed

text \<open>A relative URL begins with a slash and is the given one without its scheme and
  authority (and without what follows a line end in its fragment); a slash is added only before an
  empty or relative path.\<close>

theorem relative_url_keeps_rest:
  "case relative_url parse_error s of
     Inl e \<Rightarrow> True
   | Inr r \<Rightarrow>
       has_prefix r ''/'' \<and>
       (\<exists>rest. trim_space s = up_scheme (regexParseURL (trim_space s)) @ up_authority (regexParseURL (trim_space s)) @
            (if has_prefix (up_path (regexParseURL (trim_space s))) ''/'' then r else tl r) @ rest)"
proof (cases "relative_url parse_error s")
  case (Inr r)
  let ?p = "regexParseURL (trim_space s)"
  have r: "r = (if has_prefix (up_path ?p) ''/'' then up_path ?p else ''/'' @ up_path ?p) @ up_query ?p @ up_fragment ?p"
    using Inr by (auto simp: relative_url_def Let_def split: if_splits option.splits)
  have "has_prefix r ''/''" unfolding r by (auto simp: has_prefix_iff)
  moreover obtain rest where "trim_space s = up_scheme ?p @ up_authority ?p @ up_path ?p @ up_query ?p @ up_fragment ?p @ rest"
    using regexParseURL_split by blast
  ultimately show ?thesis using Inr r by auto
qed simp

text \<open>The result can name another host: a path that begins with two slashes is a reference with an
  authority.\<close>

lemma relative_url_names_host:
  "relative_url (\<lambda>u. None) ''https://good.example//evil.example/x'' = Inr ''//evil.example/x''"
  "up_authority (regexParseURL ''//evil.example/x'') = ''//evil.example''"
  by code_simp+

end
