(* ===== verification/MergeConfig.thy ===== *)
theory MergeConfig
  imports Errors Seetie
begin

text \<open>
  Merging the blocks of several configuration files (\<open>config/configload/merge.go\<close>).

  A block has a type, labels, attributes and blocks; source ranges are left out. Expressions are a
  type parameter, their evaluation without a context is an argument. Go maps are association lists;
  where the code ranges over one without sorting, the order is an argument. In a single file the keys
  of blocks get the text of a pointer, another argument, so that they do not collide.
\<close>

section \<open>Blocks\<close>

datatype 'e block =
  Block (bl_type: string) (bl_labels: "string list") (bl_attrs: "(string \<times> 'e) list") (bl_blocks: "'e block list")

datatype merge_error =
    MultipleBackends string
  | UniqueLabels string
  | ProxyUndefined string
  | NotString string
  | ExprError go_error
  | BadEnvironment string
  | MissingLabel

definition getSortedMapKeys :: "(string \<times> 'v) list \<Rightarrow> string list" where
  "getSortedMapKeys m = sort (map fst m)"

definition sorted_values :: "(string \<times> 'v) list \<Rightarrow> 'v list" where
  "sorted_values m = map (\<lambda>k. the (map_of m k)) (getSortedMapKeys m)"

definition attrStringValue :: "('e \<Rightarrow> go_error + cty) \<Rightarrow> string \<Rightarrow> 'e \<Rightarrow> merge_error + string" where
  "attrStringValue eval name e =
     (case eval e of
        Inl er \<Rightarrow> Inl (ExprError er)
      | Inr v \<Rightarrow> (case v of CString s \<Rightarrow> Inr s | _ \<Rightarrow> Inl (NotString name)))"

section \<open>One backend per block\<close>

text \<open>\<open>checkForMultipleBackendsInBackend\<close> and the count of the backends of a block that may have one.\<close>

fun checkForMultipleBackendsInBackend :: "'e block \<Rightarrow> merge_error option"
  and in_backend_blocks :: "'e block list \<Rightarrow> merge_error option"
  and count_backends :: "'e block list \<Rightarrow> nat \<Rightarrow> merge_error + nat" where
  "checkForMultipleBackendsInBackend (Block t ls as bs) = in_backend_blocks bs"
| "in_backend_blocks [] = None"
| "in_backend_blocks (Block t ls as bs # rest) =
     (if t \<noteq> ''oauth2'' \<and> t \<noteq> ''beta_token_request'' then in_backend_blocks rest
      else (case count_backends bs 0 of
         Inl e \<Rightarrow> Some e
       | Inr n \<Rightarrow>
          if n + (if ''backend'' \<in> set (map fst as) then 1 else 0) > 1 then Some (MultipleBackends t)
          else in_backend_blocks rest))"
| "count_backends [] n = Inr n"
| "count_backends (Block t ls as bs # rest) n =
     (if t = ''backend''
      then (case in_backend_blocks bs of Some e \<Rightarrow> Inl e | None \<Rightarrow> count_backends rest (n + 1))
      else count_backends rest n)"

fun endpoint_blocks_check :: "'e block list \<Rightarrow> merge_error option" where
  "endpoint_blocks_check [] = None"
| "endpoint_blocks_check (Block t ls as bs # rest) =
     (if t = ''error_handler'' then endpoint_blocks_check bs
      else if t \<noteq> ''proxy'' \<and> t \<noteq> ''request'' then endpoint_blocks_check rest
      else (case count_backends bs 0 of
         Inl e \<Rightarrow> Some e
       | Inr n \<Rightarrow>
          if n + (if ''backend'' \<in> set (map fst as) then 1 else 0) > 1 then Some (MultipleBackends t)
          else endpoint_blocks_check rest))"

definition checkForMultipleBackends :: "'e block \<Rightarrow> merge_error option" where
  "checkForMultipleBackends b = endpoint_blocks_check (bl_blocks b)"

text \<open>\<open>addProxy\<close>: the reference in an endpoint's attribute is replaced by the block.\<close>

definition addProxy ::
    "('e \<Rightarrow> go_error + cty) \<Rightarrow> (string \<times> 'e block) list \<Rightarrow> 'e block \<Rightarrow> merge_error + 'e block" where
  "addProxy eval proxies b =
     (case map_of (bl_attrs b) ''proxy'' of
        None \<Rightarrow> Inr b
      | Some e \<Rightarrow>
         (case attrStringValue eval ''proxy'' e of
            Inl er \<Rightarrow> Inl er
          | Inr ref \<Rightarrow>
             (case map_of proxies ref of
                None \<Rightarrow> Inl (ProxyUndefined ref)
              | Some p \<Rightarrow>
                  Inr (Block (bl_type b) (bl_labels b) (filter (\<lambda>(k, v). k \<noteq> ''proxy'') (bl_attrs b)) (bl_blocks b @ [p])))))"

definition newErrorHandlerKey :: "'e block \<Rightarrow> string" where
  "newErrorHandlerKey b =
     (if bl_labels b = [] then [] else join_with '' '' (sort (concat (map (split_on CHR '' '') (bl_labels b)))))"

section \<open>Servers\<close>

record 'e part =
  pt_labels :: "string list"
  pt_attrs :: "(string \<times> 'e) list"
  pt_blocks :: "(string \<times> 'e block) list"

record 'e api_part = "'e part" +
  ap_endpoints :: "(string \<times> 'e block) list"
  ap_error_handlers :: "(string \<times> 'e block) list"

record 'e tls_part =
  tl_attrs :: "(string \<times> 'e) list"
  tl_types :: "(string \<times> 'e block list) list"
  tl_preserved :: "(string \<times> 'e block) list"

record 'e server_part = "'e part" +
  sv_apis :: "(string \<times> 'e api_part) list"
  sv_endpoints :: "(string \<times> 'e block) list"
  sv_files :: "(string \<times> 'e part) list"
  sv_spas :: "(string \<times> 'e part) list"
  sv_tls :: "'e tls_part option"

definition first_label :: "'e block \<Rightarrow> string" where
  "first_label b = (case bl_labels b of [] \<Rightarrow> [] | l # _ \<Rightarrow> l)"

definition set_all :: "(string \<times> 'v) list \<Rightarrow> (string \<times> 'v) list \<Rightarrow> (string \<times> 'v) list" where
  "set_all new m = fold (\<lambda>(k, v). set_key k v) new m"

text \<open>The key of a block: its label, in a single file together with the text of a new pointer.\<close>

definition block_key :: "bool \<Rightarrow> (nat \<Rightarrow> string) \<Rightarrow> 'e block \<Rightarrow> nat \<Rightarrow> string \<times> nat" where
  "block_key multi ptr b n =
     (if multi then (first_label b, n) else (first_label b @ ''|'' @ ptr n, n + 1))"

definition part_of :: "string \<Rightarrow> (string \<times> 'e part) list \<Rightarrow> 'e block \<Rightarrow> 'e part" where
  "part_of key parts b =
     (case map_of parts key of
        Some p \<Rightarrow> p | None \<Rightarrow> \<lparr>pt_labels = bl_labels b, pt_attrs = [], pt_blocks = []\<rparr>)"

definition api_of :: "string \<Rightarrow> (string \<times> 'e api_part) list \<Rightarrow> 'e block \<Rightarrow> 'e api_part" where
  "api_of key apis b =
     (case map_of apis key of
        Some p \<Rightarrow> p
      | None \<Rightarrow> \<lparr>pt_labels = bl_labels b, pt_attrs = [], pt_blocks = [], ap_endpoints = [], ap_error_handlers = []\<rparr>)"

text \<open>The endpoint block that is kept, with its first label.\<close>

definition take_endpoint ::
    "('e \<Rightarrow> go_error + cty) \<Rightarrow> (string \<times> 'e block) list \<Rightarrow> 'e block \<Rightarrow> merge_error + string \<times> 'e block" where
  "take_endpoint eval proxies b =
     (case checkForMultipleBackends b of
        Some e \<Rightarrow> Inl e
      | None \<Rightarrow>
         if bl_labels b = [] then Inl (UniqueLabels (bl_type b))
         else map_sum id (\<lambda>b'. (hd (bl_labels b), b')) (addProxy eval proxies b))"

definition add_api_block ::
    "('e \<Rightarrow> go_error + cty) \<Rightarrow> (string \<times> 'e block) list \<Rightarrow> 'e block \<Rightarrow> 'e api_part \<Rightarrow> merge_error + 'e api_part" where
  "add_api_block eval proxies b ap =
     (if bl_type b = ''endpoint'' then
        (case take_endpoint eval proxies b of
           Inl e \<Rightarrow> Inl e
         | Inr (l, b') \<Rightarrow> Inr (ap\<lparr>ap_endpoints := set_key l b' (ap_endpoints ap)\<rparr>))
      else if bl_type b = ''error_handler'' then
        (case checkForMultipleBackends b of
           Some e \<Rightarrow> Inl e
         | None \<Rightarrow> Inr (ap\<lparr>ap_error_handlers := set_key (newErrorHandlerKey b) b (ap_error_handlers ap)\<rparr>))
      else Inr (ap\<lparr>pt_blocks := set_key (bl_type b) b (pt_blocks ap)\<rparr>))"

definition add_part :: "'e block \<Rightarrow> 'e part \<Rightarrow> 'e part" where
  "add_part b p =
     p\<lparr>pt_attrs := set_all (bl_attrs b) (pt_attrs p),
       pt_blocks := fold (\<lambda>sb. set_key (bl_type sb) sb) (bl_blocks b) (pt_blocks p)\<rparr>"

definition add_tls :: "'e block \<Rightarrow> 'e tls_part option \<Rightarrow> 'e tls_part" where
  "add_tls b t =
     (let p = (case t of None \<Rightarrow> \<lparr>tl_attrs = bl_attrs b, tl_types = [], tl_preserved = []\<rparr> | Some p \<Rightarrow> p);
          labelled = filter (\<lambda>sb. bl_labels sb \<noteq> []) (bl_blocks b);
          plain = filter (\<lambda>sb. bl_labels sb = []) (bl_blocks b);
          types = remdups (map bl_type plain) in
      \<lparr>tl_attrs = set_all (bl_attrs b) (tl_attrs p),
       tl_types = fold (\<lambda>ty. set_key ty (filter (\<lambda>sb. bl_type sb = ty) plain)) types (tl_types p),
       tl_preserved = fold (\<lambda>sb. set_key (bl_type sb @ ''_'' @ hd (bl_labels sb)) sb) labelled (tl_preserved p)\<rparr>)"

text \<open>One block of a server. The sets of labels are made anew for every block, so they are empty when
  they are asked.\<close>

definition add_server_block ::
    "('e \<Rightarrow> go_error + cty) \<Rightarrow> (string \<times> 'e block) list \<Rightarrow> bool \<Rightarrow> (nat \<Rightarrow> string)
       \<Rightarrow> 'e block \<Rightarrow> 'e server_part \<times> nat \<Rightarrow> merge_error + 'e server_part \<times> nat" where
  "add_server_block eval proxies multi ptr b s =
     (let uniqueAPILabels = ([] :: string list); uniqueSPALabels = ([] :: string list);
          uniqueFilesLabels = ([] :: string list); sv = fst s; n = snd s; key = block_key multi ptr b n in
      if bl_type b = ''endpoint'' then
        (case take_endpoint eval proxies b of
           Inl e \<Rightarrow> Inl e
         | Inr (l, b') \<Rightarrow> Inr (sv\<lparr>sv_endpoints := set_key l b' (sv_endpoints sv)\<rparr>, n))
      else if bl_type b = ''api'' then
        (if multi \<and> fst key \<in> set uniqueAPILabels then Inl (UniqueLabels (bl_type b))
         else (case try_fold (add_api_block eval proxies) (bl_blocks b)
                 ((api_of (fst key) (sv_apis sv) b)\<lparr>pt_attrs := set_all (bl_attrs b) (pt_attrs (api_of (fst key) (sv_apis sv) b))\<rparr>) of
            Inl e \<Rightarrow> Inl e
          | Inr ap \<Rightarrow> Inr (sv\<lparr>sv_apis := set_key (fst key) ap (sv_apis sv)\<rparr>, snd key)))
      else if bl_type b = ''spa'' then
        (if multi \<and> fst key \<in> set uniqueSPALabels then Inl (UniqueLabels (bl_type b))
         else Inr (sv\<lparr>sv_spas := set_key (fst key) (add_part b (part_of (fst key) (sv_spas sv) b)) (sv_spas sv)\<rparr>, snd key))
      else if bl_type b = ''files'' then
        (if multi \<and> fst key \<in> set uniqueFilesLabels then Inl (UniqueLabels (bl_type b))
         else Inr (sv\<lparr>sv_files := set_key (fst key) (add_part b (part_of (fst key) (sv_files sv) b)) (sv_files sv)\<rparr>, snd key))
      else if bl_type b = ''tls'' then Inr (sv\<lparr>sv_tls := Some (add_tls b (sv_tls sv))\<rparr>, n)
      else Inr (sv\<lparr>pt_blocks := set_key (bl_type b) b (pt_blocks sv)\<rparr>, n))"

type_synonym 'e servers = "(string \<times> 'e server_part) list"

definition new_server :: "'e block \<Rightarrow> 'e server_part" where
  "new_server b = \<lparr>pt_labels = bl_labels b, pt_attrs = [], pt_blocks = [], sv_apis = [], sv_endpoints = [], sv_files = [],
     sv_spas = [], sv_tls = None\<rparr>"

text \<open>One server block of a file: the labels of the file's servers so far, the servers and the number of
  the next pointer.\<close>

definition add_server ::
    "('e \<Rightarrow> go_error + cty) \<Rightarrow> (string \<times> 'e block) list \<Rightarrow> bool \<Rightarrow> (nat \<Rightarrow> string)
       \<Rightarrow> 'e block \<Rightarrow> string list \<times> 'e servers \<times> nat \<Rightarrow> merge_error + string list \<times> 'e servers \<times> nat" where
  "add_server eval proxies multi ptr b s =
     (case s of (uniqueLabels, results, n) \<Rightarrow>
        if bl_type b \<noteq> ''server'' then Inr s
        else (case block_key multi ptr b n of (key, n1) \<Rightarrow>
          if multi \<and> key \<in> set uniqueLabels then Inl (UniqueLabels (bl_type b))
          else (let sv = (case map_of results key of Some sv \<Rightarrow> sv | None \<Rightarrow> new_server b) in
            case try_fold (add_server_block eval proxies multi ptr) (bl_blocks b)
                   (sv\<lparr>pt_attrs := set_all (bl_attrs b) (pt_attrs sv)\<rparr>, n1) of
              Inl e \<Rightarrow> Inl e
            | Inr (sv', n2) \<Rightarrow>
                Inr (if multi then key # uniqueLabels else uniqueLabels, set_key key sv' results, n2))))"

definition add_body ::
    "('e \<Rightarrow> go_error + cty) \<Rightarrow> (string \<times> 'e block) list \<Rightarrow> bool \<Rightarrow> (nat \<Rightarrow> string)
       \<Rightarrow> 'e block list \<Rightarrow> 'e servers \<times> nat \<Rightarrow> merge_error + 'e servers \<times> nat" where
  "add_body eval proxies multi ptr body s =
     map_sum id snd (try_fold (add_server eval proxies multi ptr) body ([], s))"

section \<open>The merged blocks\<close>

definition merged_part :: "string \<Rightarrow> 'e part \<Rightarrow> 'e block" where
  "merged_part ty p = Block ty (pt_labels p) (pt_attrs p) (sorted_values (pt_blocks p))"

definition merged_api :: "'e api_part \<Rightarrow> 'e block" where
  "merged_api ap =
     Block ''api'' (pt_labels ap) (pt_attrs ap)
       (sorted_values (pt_blocks ap) @ sorted_values (ap_endpoints ap) @ sorted_values (ap_error_handlers ap))"

definition merged_tls :: "'e tls_part \<Rightarrow> 'e block" where
  "merged_tls t = Block ''tls'' [] (tl_attrs t) (concat (sorted_values (tl_types t)) @ sorted_values (tl_preserved t))"

text \<open>The APIs come in the order in which their map yields them.\<close>

definition merged_server :: "((string \<times> 'e api_part) list \<Rightarrow> 'e api_part list) \<Rightarrow> 'e server_part \<Rightarrow> 'e block" where
  "merged_server order sv =
     Block ''server'' (pt_labels sv) (pt_attrs sv)
       (sorted_values (pt_blocks sv) @ sorted_values (sv_endpoints sv) @ map merged_api (order (sv_apis sv)) @
        map (merged_part ''spa'') (sorted_values (sv_spas sv)) @ map (merged_part ''files'') (sorted_values (sv_files sv)) @
        (case sv_tls sv of None \<Rightarrow> [] | Some t \<Rightarrow> [merged_tls t]))"

definition mergeServers ::
    "('e \<Rightarrow> go_error + cty) \<Rightarrow> (nat \<Rightarrow> string) \<Rightarrow> ((string \<times> 'e api_part) list \<Rightarrow> 'e api_part list)
       \<Rightarrow> 'e block list list \<Rightarrow> (string \<times> 'e block) list \<Rightarrow> merge_error + 'e block list" where
  "mergeServers eval ptr order bodies proxies =
     (case try_fold (add_body eval proxies (length bodies > 1) ptr) bodies ([], 0) of
        Inl e \<Rightarrow> Inl e
      | Inr (results, n) \<Rightarrow> Inr (map (merged_server order) (sorted_values results)))"

section \<open>Definitions, defaults and settings\<close>

text \<open>A block of the definitions: its backends, directly or in an error handler. A block without a label
  makes the code panic, which is \<open>MissingLabel\<close>.\<close>

fun definition_check :: "'e block list \<Rightarrow> nat \<Rightarrow> merge_error + nat" where
  "definition_check [] n = Inr n"
| "definition_check (b # bs) n =
     (if bl_type b = ''error_handler'' then
        (case checkForMultipleBackends b of Some e \<Rightarrow> Inl e | None \<Rightarrow> definition_check bs n)
      else if bl_type b = ''backend'' then
        (case checkForMultipleBackendsInBackend b of Some e \<Rightarrow> Inl e | None \<Rightarrow> definition_check bs (n + 1))
      else definition_check bs n)"

type_synonym 'e definitions = "(string \<times> (string \<times> 'e block) list) list \<times> (string \<times> 'e block) list"

definition add_definition ::
    "('e \<Rightarrow> go_error + cty) \<Rightarrow> 'e block \<Rightarrow> 'e definitions \<Rightarrow> merge_error + 'e definitions" where
  "add_definition eval b s =
     (let defs = (if map_of (fst s) (bl_type b) = None then set_key (bl_type b) [] (fst s) else fst s) in
      case (if bl_type b = ''backend'' then checkForMultipleBackendsInBackend b else None) of
        Some e \<Rightarrow> Inl e
      | None \<Rightarrow>
         (case definition_check (bl_blocks b) 0 of
            Inl e \<Rightarrow> Inl e
          | Inr n \<Rightarrow>
             if n + (if ''backend'' \<in> set (map fst (bl_attrs b)) then 1 else 0) > 1 then Inl (MultipleBackends (bl_type b))
             else (case bl_labels b of
                [] \<Rightarrow> Inl MissingLabel
              | l # ls \<Rightarrow>
                 if bl_type b \<noteq> ''proxy''
                 then Inr (set_key (bl_type b) (set_key l b (the (map_of defs (bl_type b)))) defs, snd s)
                 else (case (case map_of (bl_attrs b) ''name'' of
                               None \<Rightarrow> Inr ''default''
                             | Some e \<Rightarrow> attrStringValue eval ''name'' e) of
                    Inl e \<Rightarrow> Inl e
                  | Inr name \<Rightarrow>
                      Inr (defs, set_key l (Block (bl_type b) (name # ls)
                                   (filter (\<lambda>(k, v). k \<noteq> ''name'') (bl_attrs b)) (bl_blocks b)) (snd s))))))"

definition mergeDefinitions ::
    "('e \<Rightarrow> go_error + cty) \<Rightarrow> 'e block list list \<Rightarrow> merge_error + 'e block \<times> (string \<times> 'e block) list" where
  "mergeDefinitions eval bodies =
     (case try_fold (add_definition eval)
             (concat (map bl_blocks (filter (\<lambda>b. bl_type b = ''definitions'') (concat bodies)))) ([], []) of
        Inl e \<Rightarrow> Inl e
      | Inr (defs, proxies) \<Rightarrow> Inr (Block ''definitions'' [] [] (concat (map sorted_values (sorted_values defs))), proxies))"

text \<open>The key of an item of an object expression: a traversal with its root name and length, or a template
  with its text if it is a literal.\<close>

datatype object_key = KeyTraversal string nat | KeyTemplate "string option" | KeyOther

definition environment_key :: "object_key \<Rightarrow> merge_error + string" where
  "environment_key k =
     (case k of
        KeyTraversal name n \<Rightarrow> if n > 1 then Inl (BadEnvironment ''unsupported key scope traversal expression'') else Inr name
      | KeyTemplate None \<Rightarrow> Inl (BadEnvironment ''unsupported key template expression'')
      | KeyTemplate (Some s) \<Rightarrow> Inr s
      | KeyOther \<Rightarrow> Inl (BadEnvironment ''unsupported key expression''))"

definition add_default ::
    "('e \<Rightarrow> (object_key \<times> 'e) list option) \<Rightarrow> string \<times> 'e \<Rightarrow> (string \<times> 'e) list \<times> (string \<times> 'e) list
       \<Rightarrow> merge_error + (string \<times> 'e) list \<times> (string \<times> 'e) list" where
  "add_default items a s =
     (if fst a \<noteq> ''environment_variables'' then Inr (set_key (fst a) (snd a) (fst s), snd s)
      else (case items (snd a) of
         None \<Rightarrow> Inl (BadEnvironment ''environment_variables must be object type'')
       | Some its \<Rightarrow>
           (case try_fold (\<lambda>(k, v) vars. map_sum id (\<lambda>name. set_key name v vars) (environment_key k)) its (snd s) of
              Inl e \<Rightarrow> Inl e
            | Inr vars \<Rightarrow> Inr (fst s, vars))))"

text \<open>\<open>mk_object\<close> builds an object expression; the map of the variables yields them in any order.\<close>

definition mergeDefaults ::
    "('e \<Rightarrow> (object_key \<times> 'e) list option) \<Rightarrow> ((string \<times> 'e) list \<Rightarrow> 'e) \<Rightarrow> ((string \<times> 'e) list \<Rightarrow> (string \<times> 'e) list)
       \<Rightarrow> 'e block list list \<Rightarrow> merge_error + 'e block" where
  "mergeDefaults items mk_object order bodies =
     (case try_fold (add_default items)
             (concat (map bl_attrs (filter (\<lambda>b. bl_type b = ''defaults'') (concat bodies)))) ([], []) of
        Inl e \<Rightarrow> Inl e
      | Inr (attrs, vars) \<Rightarrow>
          Inr (Block ''defaults'' []
            (if vars = [] then attrs else set_key ''environment_variables'' (mk_object (order vars)) attrs) []))"

definition mergeSettings :: "'e block list list \<Rightarrow> 'e block" where
  "mergeSettings bodies =
     Block ''settings'' []
       (set_all (concat (map bl_attrs (filter (\<lambda>b. bl_type b = ''settings'') (concat bodies)))) []) []"

section \<open>The check for several backends\<close>

text \<open>The reference: how many backends a block has, itself and in the blocks for tokens in its backends.\<close>

definition backends_of :: "'e block \<Rightarrow> nat" where
  "backends_of b = length (filter (\<lambda>sb. bl_type sb = ''backend'') (bl_blocks b)) +
     (if ''backend'' \<in> set (map fst (bl_attrs b)) then 1 else 0)"

lemma size_sub_block: "b \<in> set (bl_blocks x) \<Longrightarrow> size b < size x"
  by (cases x) (auto simp: less_Suc_eq_le intro: trans_le_add2 size_list_estimation')

lemma size_token_block: "x \<in> set bs \<Longrightarrow> b \<in> set (bl_blocks x) \<Longrightarrow> size b < Suc (n + size_list size bs)"
  using size_sub_block[of b x] size_list_estimation[of x bs "size b" size] by simp

function one_backend :: "'e block \<Rightarrow> bool" where
  "one_backend (Block t ls as bs) \<longleftrightarrow> backends_of (Block t ls as bs) \<le> 1 \<and>
     list_all (\<lambda>b. if bl_type b = ''backend''
       then list_all (\<lambda>tb. if bl_type tb \<in> {''oauth2'', ''beta_token_request''} then one_backend tb else True) (bl_blocks b)
       else True) bs"
  by pat_completeness auto

termination one_backend
  by (relation "measure size") (auto intro: size_token_block)

definition token_blocks_ok :: "'e block list \<Rightarrow> bool" where
  "token_blocks_ok bs \<longleftrightarrow>
     list_all (\<lambda>tb. if bl_type tb \<in> {''oauth2'', ''beta_token_request''} then one_backend tb else True) bs"

definition backend_blocks_ok :: "'e block list \<Rightarrow> bool" where
  "backend_blocks_ok bs \<longleftrightarrow> list_all (\<lambda>b. if bl_type b = ''backend'' then token_blocks_ok (bl_blocks b) else True) bs"

definition backend_count :: "'e block list \<Rightarrow> nat" where
  "backend_count bs = length (filter (\<lambda>sb. bl_type sb = ''backend'') bs)"

lemma one_backend_iff:
  "one_backend (Block t ls as bs) \<longleftrightarrow>
     backend_count bs + (if ''backend'' \<in> set (map fst as) then 1 else 0) \<le> 1 \<and> backend_blocks_ok bs"
  by (simp add: backends_of_def backend_count_def backend_blocks_ok_def token_blocks_ok_def)

definition request_blocks_ok :: "'e block list \<Rightarrow> bool" where
  "request_blocks_ok bs \<longleftrightarrow> list_all (\<lambda>sb. if bl_type sb \<in> {''proxy'', ''request''} then one_backend sb else True) bs"

lemma blocks_ok_Nil [simp]:
  "token_blocks_ok []" "backend_blocks_ok []" "backend_count [] = 0" "request_blocks_ok []"
  by (simp_all add: token_blocks_ok_def backend_blocks_ok_def backend_count_def request_blocks_ok_def)

lemma blocks_ok_Cons [simp]:
  "token_blocks_ok (b # bs) \<longleftrightarrow>
     (if bl_type b = ''oauth2'' \<or> bl_type b = ''beta_token_request'' then one_backend b else True) \<and> token_blocks_ok bs"
  "backend_blocks_ok (b # bs) \<longleftrightarrow>
     (if bl_type b = ''backend'' then token_blocks_ok (bl_blocks b) else True) \<and> backend_blocks_ok bs"
  "backend_count (b # bs) = (if bl_type b = ''backend'' then 1 else 0) + backend_count bs"
  "request_blocks_ok (b # bs) \<longleftrightarrow>
     (if bl_type b = ''proxy'' \<or> bl_type b = ''request'' then one_backend b else True) \<and> request_blocks_ok bs"
  by (simp_all add: token_blocks_ok_def backend_blocks_ok_def backend_count_def request_blocks_ok_def)

declare one_backend.simps [simp del]

lemma in_backend_correct:
  fixes b :: "'e block" and bs :: "'e block list"
  shows "checkForMultipleBackendsInBackend b = None \<longleftrightarrow> token_blocks_ok (bl_blocks b)"
  "in_backend_blocks bs = None \<longleftrightarrow> token_blocks_ok bs"
  "(case count_backends bs n of Inl e \<Rightarrow> \<not> backend_blocks_ok bs
      | Inr m \<Rightarrow> backend_blocks_ok bs \<and> m = n + backend_count bs)"
proof (induction b and bs and bs n rule: checkForMultipleBackendsInBackend_in_backend_blocks_count_backends.induct)
  case (3 t ls as bs rest)
  show ?case
  proof (cases "t = ''oauth2'' \<or> t = ''beta_token_request''")
    case True
    then have t: "\<not> (t \<noteq> ''oauth2'' \<and> t \<noteq> ''beta_token_request'')" by simp
    show ?thesis
    proof (cases "count_backends bs 0")
      case (Inl e)
      with 3(2)[OF t] True show ?thesis by (auto simp: one_backend_iff)
    next
      case (Inr n)
      with 3(2)[OF t] 3(3)[OF t Inr] True show ?thesis by (auto simp: one_backend_iff)
    qed
  next
    case False
    with 3(1) show ?thesis by simp
  qed
next
  case (5 t ls as bs rest n)
  show ?case
  proof (cases "t = ''backend''")
    case True
    show ?thesis
    proof (cases "in_backend_blocks bs")
      case None
      from 5(2)[OF True None] 5(1)[OF True] None True show ?thesis
        by (cases "count_backends rest (n + 1)") simp_all
    next
      case (Some e)
      with 5(1)[OF True] True show ?thesis by simp
    qed
  next
    case False
    from 5(3)[OF False] False show ?thesis by (cases "count_backends rest n") simp_all
  qed
qed simp_all

lemma count_backends_one:
  "(case count_backends bs 0 of Inl e \<Rightarrow> False | Inr n \<Rightarrow> \<not> n + (if ''backend'' \<in> set (map fst as) then 1 else 0) > 1)
     \<longleftrightarrow> one_backend (Block t ls as bs)"
  using in_backend_correct(3)[of bs 0] by (auto simp: one_backend_iff split: sum.splits)

lemma request_step:
  assumes "t = ''proxy'' \<or> t = ''request''"
  shows "endpoint_blocks_check (Block t ls as bs # rest) = None \<longleftrightarrow>
     one_backend (Block t ls as bs) \<and> endpoint_blocks_check rest = None"
proof (cases "count_backends bs 0")
  case (Inl e)
  with count_backends_one[where bs = bs and t = t and ls = ls and as = as] assms show ?thesis by auto
next
  case (Inr n)
  let ?many = "n + (if ''backend'' \<in> set (map fst as) then 1 else 0) > 1"
  from Inr count_backends_one[where bs = bs and t = t and ls = ls and as = as]
  have one: "one_backend (Block t ls as bs) \<longleftrightarrow> \<not> ?many" by simp
  from assms Inr
  have "endpoint_blocks_check (Block t ls as bs # rest) =
      (if ?many then Some (MultipleBackends t) else endpoint_blocks_check rest)" by (elim disjE) simp_all
  then show ?thesis by (cases ?many) (simp_all only: one if_True if_False option.distinct not_True_eq_False not_False_eq_True simp_thms)
qed

lemma endpoint_check_correct:
  "endpoint_blocks_check bs = None \<longleftrightarrow>
     request_blocks_ok (takeWhile (\<lambda>sb. bl_type sb \<noteq> ''error_handler'') bs) \<and>
     (case dropWhile (\<lambda>sb. bl_type sb \<noteq> ''error_handler'') bs of
        [] \<Rightarrow> True | eh # rest \<Rightarrow> endpoint_blocks_check (bl_blocks eh) = None)"
proof (induction bs)
  case (Cons b rest)
  obtain t ls as bs where b: "b = Block t ls as bs" by (cases b)
  show ?case
  proof (cases "t = ''proxy'' \<or> t = ''request''")
    case True
    then have "t \<noteq> ''error_handler''" by auto
    with Cons True show ?thesis unfolding b request_step[OF True] by auto
  next
    case False
    with Cons show ?thesis by (auto simp: b)
  qed
qed simp

text \<open>
  What the check of an endpoint, API or error handler for several backends accepts: every
  proxy and request block before its first error handler has at most one backend (block or attribute,
  and so has every block for tokens within), and so has that error handler. Blocks after the first
  error handler are not looked at.
\<close>

theorem backends_checked:
  "checkForMultipleBackends b = None \<longleftrightarrow>
     request_blocks_ok (takeWhile (\<lambda>sb. bl_type sb \<noteq> ''error_handler'') (bl_blocks b)) \<and>
     (case dropWhile (\<lambda>sb. bl_type sb \<noteq> ''error_handler'') (bl_blocks b) of
        [] \<Rightarrow> True | eh # rest \<Rightarrow> checkForMultipleBackends eh = None)"
  unfolding checkForMultipleBackends_def by (rule endpoint_check_correct)

section \<open>Repeated labels\<close>

lemma backend_errors:
  fixes b :: "'e block" and bs :: "'e block list"
  shows "checkForMultipleBackendsInBackend b \<noteq> Some (UniqueLabels t)"
  "in_backend_blocks bs \<noteq> Some (UniqueLabels t)"
  "count_backends bs n \<noteq> Inl (UniqueLabels t)"
  by (induction b and bs and bs n rule: checkForMultipleBackendsInBackend_in_backend_blocks_count_backends.induct)
     (auto split: sum.splits option.splits)

lemma check_errors: "checkForMultipleBackends b \<noteq> Some (UniqueLabels t)"
proof -
  have "endpoint_blocks_check bs \<noteq> Some (UniqueLabels t)" for bs :: "'e block list"
    by (induction bs rule: endpoint_blocks_check.induct) (auto simp: backend_errors split: sum.splits)
  then show ?thesis unfolding checkForMultipleBackends_def .
qed

lemma addProxy_errors: "addProxy eval proxies b \<noteq> Inl (UniqueLabels t)"
  by (simp add: addProxy_def attrStringValue_def split: option.split sum.split cty.split)

lemma take_endpoint_errors:
  "take_endpoint eval proxies b = Inl (UniqueLabels t) \<Longrightarrow> t = bl_type b"
  using check_errors[of b] addProxy_errors[of eval proxies b]
  by (cases "addProxy eval proxies b") (auto simp: take_endpoint_def split: option.splits if_splits)

lemma add_api_block_errors: "add_api_block eval proxies b ap = Inl (UniqueLabels t) \<Longrightarrow> t = ''endpoint''"
  using check_errors[of b] take_endpoint_errors[of eval proxies b t]
  by (auto simp: add_api_block_def split: option.splits if_splits sum.splits)

lemma add_server_block_errors:
  assumes "add_server_block eval proxies multi ptr b s = Inl (UniqueLabels t)"
  shows "t = ''endpoint''"
proof (cases "bl_type b = ''endpoint''")
  case True
  with assms take_endpoint_errors[of eval proxies b t] show ?thesis
    by (auto simp: add_server_block_def Let_def split: sum.splits)
next
  case False
  with assms obtain ap where "try_fold (add_api_block eval proxies) (bl_blocks b) ap = Inl (UniqueLabels t)"
    by (auto simp: add_server_block_def Let_def split: sum.splits if_splits)
  then show ?thesis using try_fold_error add_api_block_errors by metis
qed

lemma add_server_errors:
  assumes "add_server eval proxies multi ptr b s = Inl (UniqueLabels t)"
  shows "t \<in> {''server'', ''endpoint''}"
proof -
  obtain labels results n where s: "s = (labels, results, n)" by (cases s)
  from assms consider "t = ''server''"
    | sv where "try_fold (add_server_block eval proxies multi ptr) (bl_blocks b) sv = Inl (UniqueLabels t)"
    by (auto simp: add_server_def s Let_def split: sum.splits if_splits prod.splits)
  then show ?thesis
  proof cases
    case 2
    then show ?thesis using try_fold_error add_server_block_errors by (metis insertCI)
  qed simp
qed

text \<open>
  Repeated labels are only ever reported for servers and for endpoints (without a label).
  The labels of the \<open>api\<close>, \<open>spa\<close> and \<open>files\<close> blocks of a server are compared with sets that are made anew
  for every block, so two such blocks with the same label in a file are merged without an error.
\<close>

theorem labels_of_servers_only:
  "case mergeServers eval ptr order bodies proxies of
     Inl (UniqueLabels t) \<Rightarrow> t \<in> {''server'', ''endpoint''} | _ \<Rightarrow> True"
proof -
  have "t \<in> {''server'', ''endpoint''}" if merge: "mergeServers eval ptr order bodies proxies = Inl (UniqueLabels t)" for t
  proof -
    from merge have "try_fold (add_body eval proxies (length bodies > 1) ptr) bodies ([], 0) = Inl (UniqueLabels t)"
      by (auto simp: mergeServers_def split: sum.splits)
    then obtain body s where "add_body eval proxies (length bodies > 1) ptr body s = Inl (UniqueLabels t)"
      using try_fold_error by metis
    then have "try_fold (add_server eval proxies (length bodies > 1) ptr) body ([], s) = Inl (UniqueLabels t)"
      unfolding add_body_def by (cases "try_fold (add_server eval proxies (length bodies > 1) ptr) body ([], s)") simp_all
    then show ?thesis using try_fold_error add_server_errors by metis
  qed
  then show ?thesis by (simp split: sum.split merge_error.split)
qed

section \<open>The last definition wins\<close>

text \<open>The reference: the last endpoint with a label, with its proxy.\<close>

definition last_endpoint ::
    "('e \<Rightarrow> go_error + cty) \<Rightarrow> (string \<times> 'e block) list \<Rightarrow> string \<Rightarrow> 'e block list \<Rightarrow> 'e block option" where
  "last_endpoint eval proxies l bs =
     (case find (\<lambda>b. bl_type b = ''endpoint'' \<and> first_label b = l) (rev bs) of
        None \<Rightarrow> None
      | Some b \<Rightarrow> (case addProxy eval proxies b of Inl e \<Rightarrow> None | Inr b' \<Rightarrow> Some b'))"

definition server_blocks :: "string \<Rightarrow> 'e block list \<Rightarrow> 'e block list" where
  "server_blocks key body = concat (map bl_blocks (filter (\<lambda>b. bl_type b = ''server'' \<and> first_label b = key) body))"

definition endpoint_in :: "'e servers \<Rightarrow> string \<Rightarrow> string \<Rightarrow> 'e block option" where
  "endpoint_in results key l = (case map_of results key of None \<Rightarrow> None | Some sv \<Rightarrow> map_of (sv_endpoints sv) l)"

lemma find_append: "find P (xs @ ys) = (case find P xs of None \<Rightarrow> find P ys | Some x \<Rightarrow> Some x)"
  by (induction xs) auto

lemma find_rev_append [simp]:
  "find P (rev (xs @ ys)) = (case find P (rev ys) of None \<Rightarrow> find P (rev xs) | Some x \<Rightarrow> Some x)"
  by (simp add: find_append)

lemma take_endpoint_ok:
  "take_endpoint eval proxies b = Inr (l, b') \<longleftrightarrow>
     checkForMultipleBackends b = None \<and> bl_labels b \<noteq> [] \<and> l = first_label b \<and> addProxy eval proxies b = Inr b'"
  by (cases "addProxy eval proxies b")
     (auto simp: take_endpoint_def first_label_def split: option.split list.split)

lemma add_server_block_endpoints:
  assumes "add_server_block eval proxies multi ptr b (sv, n) = Inr (sv', n')"
  shows "if bl_type b = ''endpoint'' then bl_labels b \<noteq> [] \<and> (\<exists>b'. addProxy eval proxies b = Inr b' \<and>
       map_of (sv_endpoints sv') = (map_of (sv_endpoints sv))(first_label b \<mapsto> b'))
     else sv_endpoints sv' = sv_endpoints sv"
proof (cases "bl_type b = ''endpoint''")
  case True
  with assms obtain l b' where t: "take_endpoint eval proxies b = Inr (l, b')"
    and sv': "sv' = sv\<lparr>sv_endpoints := set_key l b' (sv_endpoints sv)\<rparr>"
    by (auto simp: add_server_block_def Let_def split: sum.splits)
  then show ?thesis using True by (simp add: take_endpoint_ok)
next
  case False
  with assms show ?thesis
    by (auto simp: add_server_block_def Let_def split: sum.splits if_splits)
qed

lemma add_server_blocks_endpoints:
  assumes "try_fold (add_server_block eval proxies multi ptr) bs s = Inr s'"
  shows "map_of (sv_endpoints (fst s')) l =
     (case find (\<lambda>b. bl_type b = ''endpoint'' \<and> first_label b = l) (rev bs) of
        None \<Rightarrow> map_of (sv_endpoints (fst s)) l
      | Some b \<Rightarrow> (case addProxy eval proxies b of Inl e \<Rightarrow> None | Inr b' \<Rightarrow> Some b'))"
  using assms
proof (induction bs arbitrary: s)
  case (Cons b bs)
  from Cons.prems obtain u where u: "add_server_block eval proxies multi ptr b s = Inr u"
    and rest: "try_fold (add_server_block eval proxies multi ptr) bs u = Inr s'"
    by (auto split: sum.splits)
  have step: "map_of (sv_endpoints (fst u)) l =
      (if bl_type b = ''endpoint'' \<and> first_label b = l
       then (case addProxy eval proxies b of Inl e \<Rightarrow> None | Inr b' \<Rightarrow> Some b')
       else map_of (sv_endpoints (fst s)) l)"
    using add_server_block_endpoints[of eval proxies multi ptr b "fst s" "snd s" "fst u" "snd u"] u
    by (auto split: if_splits)
  show ?case
    unfolding Cons.IH[OF rest] step
    by (cases "bl_type b = ''endpoint'' \<and> first_label b = l") (auto simp: find_append split: option.split)
qed simp

lemma add_server_endpoints:
  assumes "add_server eval proxies True ptr b (labels, results, n) = Inr (labels', results', n')"
  shows "endpoint_in results' key l =
     (case find (\<lambda>b. bl_type b = ''endpoint'' \<and> first_label b = l) (rev (server_blocks key [b])) of
        None \<Rightarrow> endpoint_in results key l
      | Some b \<Rightarrow> (case addProxy eval proxies b of Inl e \<Rightarrow> None | Inr b' \<Rightarrow> Some b'))"
proof (cases "bl_type b = ''server''")
  case True
  define sv where "sv = (case map_of results (first_label b) of Some sv \<Rightarrow> sv | None \<Rightarrow> new_server b)"
  from assms True obtain sv' n2 where
    fold: "try_fold (add_server_block eval proxies True ptr) (bl_blocks b)
        (sv\<lparr>pt_attrs := set_all (bl_attrs b) (pt_attrs sv)\<rparr>, n) = Inr (sv', n2)"
    and res: "results' = set_key (first_label b) sv' results"
    by (auto simp: add_server_def block_key_def Let_def sv_def split: sum.splits if_splits)
  have old: "map_of (sv_endpoints (fst (sv\<lparr>pt_attrs := set_all (bl_attrs b) (pt_attrs sv)\<rparr>, n))) l =
      endpoint_in results (first_label b) l"
    by (simp add: sv_def endpoint_in_def new_server_def split: option.split)
  show ?thesis
  proof (cases "key = first_label b")
    case same: True
    have "endpoint_in results' key l = map_of (sv_endpoints sv') l" by (simp add: res endpoint_in_def same)
    with add_server_blocks_endpoints[OF fold, of l, unfolded old] True show ?thesis
      unfolding same by (simp add: server_blocks_def)
  next
    case other: False
    with True show ?thesis by (simp add: res endpoint_in_def server_blocks_def)
  qed
next
  case False
  with assms show ?thesis by (simp add: add_server_def server_blocks_def)
qed

lemma server_blocks_Cons: "server_blocks key (b # body) = server_blocks key [b] @ server_blocks key body"
  by (simp add: server_blocks_def)

lemma server_blocks_append: "server_blocks key (xs @ ys) = server_blocks key xs @ server_blocks key ys"
  by (simp add: server_blocks_def)

lemma add_servers_endpoints:
  assumes "try_fold (add_server eval proxies True ptr) body s = Inr s'"
  shows "endpoint_in (fst (snd s')) key l =
     (case find (\<lambda>b. bl_type b = ''endpoint'' \<and> first_label b = l) (rev (server_blocks key body)) of
        None \<Rightarrow> endpoint_in (fst (snd s)) key l
      | Some b \<Rightarrow> (case addProxy eval proxies b of Inl e \<Rightarrow> None | Inr b' \<Rightarrow> Some b'))"
  using assms
proof (induction body arbitrary: s)
  case Nil
  then show ?case by (simp add: server_blocks_def)
next
  case (Cons b body)
  from Cons.prems obtain u where u: "add_server eval proxies True ptr b s = Inr u"
    and rest: "try_fold (add_server eval proxies True ptr) body u = Inr s'"
    by (auto split: sum.splits)
  obtain labels results n labels' results' n' where s: "s = (labels, results, n)" and u': "u = (labels', results', n')"
    by (metis prod.collapse)
  show ?case
    unfolding Cons.IH[OF rest] u' s using add_server_endpoints[OF u[unfolded s u'], of key l]
    by (simp only: server_blocks_Cons[of key b body] find_rev_append fst_conv snd_conv split: option.split) simp
qed

lemma add_bodies_endpoints:
  assumes "try_fold (add_body eval proxies True ptr) bodies s = Inr s'"
  shows "endpoint_in (fst s') key l =
     (case find (\<lambda>b. bl_type b = ''endpoint'' \<and> first_label b = l) (rev (server_blocks key (concat bodies))) of
        None \<Rightarrow> endpoint_in (fst s) key l
      | Some b \<Rightarrow> (case addProxy eval proxies b of Inl e \<Rightarrow> None | Inr b' \<Rightarrow> Some b'))"
  using assms
proof (induction bodies arbitrary: s)
  case Nil
  then show ?case by (simp add: server_blocks_def)
next
  case (Cons body bodies)
  from Cons.prems obtain u where u: "add_body eval proxies True ptr body s = Inr u"
    and rest: "try_fold (add_body eval proxies True ptr) bodies u = Inr s'"
    by (auto split: sum.splits)
  from u obtain labels where body: "try_fold (add_server eval proxies True ptr) body ([], s) = Inr (labels, u)"
    unfolding add_body_def by (cases "try_fold (add_server eval proxies True ptr) body ([], s)") auto
  show ?case
    unfolding Cons.IH[OF rest] using add_servers_endpoints[OF body, of key l]
    by (simp only: concat.simps server_blocks_append find_rev_append fst_conv snd_conv split: option.split) simp
qed

text \<open>
  Servers with the same label in several files are merged, and the last definition wins: if
  the merging of several files succeeds, the endpoint with a label that a server ends up with is the last
  one among all blocks of the files' servers with that label, with its proxy in place.
\<close>

theorem last_definition_wins:
  "case try_fold (add_body eval proxies True ptr) bodies ([], 0) of
     Inl e \<Rightarrow> True
   | Inr (results, n) \<Rightarrow> endpoint_in results key l = last_endpoint eval proxies l (server_blocks key (concat bodies))"
proof (cases "try_fold (add_body eval proxies True ptr) bodies ([], 0)")
  case (Inr s)
  have none: "endpoint_in (fst ([], 0 :: nat)) key l = (None :: 'a block option)" by (simp add: endpoint_in_def)
  from add_bodies_endpoints[OF Inr, of key l, unfolded none] Inr show ?thesis
    by (cases s) (simp add: last_endpoint_def)
qed simp

section \<open>What is merged\<close>

text \<open>No reference to a proxy is left in an endpoint; a merged server holds only its own kinds of blocks.\<close>

definition resolved :: "'e block \<Rightarrow> bool" where
  "resolved b \<longleftrightarrow> (if bl_type b = ''endpoint'' then ''proxy'' \<notin> set (map fst (bl_attrs b)) else True)"

definition api_resolved :: "'e block \<Rightarrow> bool" where
  "api_resolved b \<longleftrightarrow> resolved b \<and> (if bl_type b = ''api'' then list_all resolved (bl_blocks b) else True)"

definition all_values :: "('v \<Rightarrow> bool) \<Rightarrow> (string \<times> 'v) list \<Rightarrow> bool" where
  "all_values P m \<longleftrightarrow> (\<forall>v \<in> ran (map_of m). P v)"

definition api_ok :: "'e api_part \<Rightarrow> bool" where
  "api_ok ap \<longleftrightarrow> all_values resolved (pt_blocks ap) \<and> all_values resolved (ap_endpoints ap) \<and>
     all_values resolved (ap_error_handlers ap)"

definition server_ok :: "'e server_part \<Rightarrow> bool" where
  "server_ok sv \<longleftrightarrow> all_values api_resolved (pt_blocks sv) \<and>
     all_values api_resolved (sv_endpoints sv) \<and> all_values api_ok (sv_apis sv)"

lemma sorted_values_ran: "set (sorted_values m) = ran (map_of m)"
proof -
  have "set (sorted_values m) = (\<lambda>k. the (map_of m k)) ` dom (map_of m)"
    by (simp add: sorted_values_def getSortedMapKeys_def dom_map_of_conv_image_fst)
  also have "\<dots> = ran (map_of m)"
    by (force simp: ran_def dom_def image_iff)
  finally show ?thesis .
qed

lemma all_values_Nil [simp]: "all_values P []"
  by (simp add: all_values_def)

lemma all_values_set_key: "all_values P m \<Longrightarrow> P v \<Longrightarrow> all_values P (set_key k v m)"
  by (auto simp: all_values_def ran_def split: if_splits)

lemma all_values_get: "all_values P m \<Longrightarrow> map_of m k = Some v \<Longrightarrow> P v"
  by (auto simp: all_values_def ran_def)

lemma all_values_sorted: "list_all P (sorted_values m) \<longleftrightarrow> all_values P m"
  by (simp add: all_values_def list_all_iff sorted_values_ran)

lemma addProxy_resolved: "addProxy eval proxies b = Inr b' \<Longrightarrow> resolved b' \<and> bl_type b' = bl_type b"
  by (auto simp: addProxy_def resolved_def dest: weak_map_of_SomeI split: option.splits sum.splits)

lemma take_endpoint_resolved: "take_endpoint eval proxies b = Inr (l, b') \<Longrightarrow> resolved b' \<and> bl_type b' = bl_type b"
  using addProxy_resolved by (metis take_endpoint_ok)

lemma resolved_other: "bl_type b \<noteq> ''endpoint'' \<Longrightarrow> resolved b"
  by (simp add: resolved_def)

lemma api_resolved_other: "bl_type b \<noteq> ''api'' \<Longrightarrow> resolved b \<Longrightarrow> api_resolved b"
  by (simp add: api_resolved_def)

lemma add_api_block_ok:
  assumes "add_api_block eval proxies b ap = Inr ap'" and ok: "api_ok ap"
  shows "api_ok ap'"
proof (cases "bl_type b = ''endpoint''")
  case True
  with assms(1) obtain l b' where t: "take_endpoint eval proxies b = Inr (l, b')"
    and ap': "ap' = ap\<lparr>ap_endpoints := set_key l b' (ap_endpoints ap)\<rparr>"
    by (auto simp: add_api_block_def split: sum.splits)
  from take_endpoint_resolved[OF t] ok show ?thesis
    unfolding api_ok_def ap' by (simp add: all_values_set_key)
next
  case False
  then have b: "resolved b" by (rule resolved_other)
  show ?thesis
  proof (cases "bl_type b = ''error_handler''")
    case True
    with assms(1) have "ap' = ap\<lparr>ap_error_handlers := set_key (newErrorHandlerKey b) b (ap_error_handlers ap)\<rparr>"
      by (simp add: add_api_block_def split: option.splits)
    with b ok show ?thesis by (simp add: api_ok_def all_values_set_key)
  next
    case other: False
    with assms(1) False have "ap' = ap\<lparr>pt_blocks := set_key (bl_type b) b (pt_blocks ap)\<rparr>"
      by (simp add: add_api_block_def)
    with b ok show ?thesis by (simp add: api_ok_def all_values_set_key)
  qed
qed

lemma api_of_ok:
  assumes "server_ok sv"
  shows "api_ok (api_of key (sv_apis sv) b\<lparr>pt_attrs := as\<rparr>)"
proof (cases "map_of (sv_apis sv) key")
  case None
  then show ?thesis by (simp add: api_of_def api_ok_def)
next
  case (Some ap)
  from assms have "api_ok ap" unfolding server_ok_def using all_values_get[OF _ Some] by blast
  with Some show ?thesis by (simp add: api_of_def api_ok_def)
qed

lemma add_server_block_ok:
  assumes "add_server_block eval proxies multi ptr b s = Inr s'" and ok: "server_ok (fst s)"
  shows "server_ok (fst s')"
proof -
  consider (ep) "bl_type b = ''endpoint''" | (api) "bl_type b = ''api''"
    | (part) "bl_type b = ''spa'' \<or> bl_type b = ''files'' \<or> bl_type b = ''tls''"
    | (other) "bl_type b \<notin> {''endpoint'', ''api'', ''spa'', ''files'', ''tls''}" by blast
  then show ?thesis
  proof cases
    case ep
    with assms(1) obtain l b' where t: "take_endpoint eval proxies b = Inr (l, b')"
      and s': "fst s' = (fst s)\<lparr>sv_endpoints := set_key l b' (sv_endpoints (fst s))\<rparr>"
      by (auto simp: add_server_block_def Let_def split: sum.splits)
    from take_endpoint_resolved[OF t] ep have "api_resolved b'" by (simp add: api_resolved_def)
    with ok show ?thesis unfolding server_ok_def s' by (simp add: all_values_set_key)
  next
    case api
    with assms(1) obtain ap as key where
      fold: "try_fold (add_api_block eval proxies) (bl_blocks b) (api_of key (sv_apis (fst s)) b\<lparr>pt_attrs := as\<rparr>) = Inr ap"
      and s': "fst s' = (fst s)\<lparr>sv_apis := set_key key ap (sv_apis (fst s))\<rparr>"
      by (auto simp: add_server_block_def Let_def split: sum.splits if_splits)
    have "api_ok ap"
      by (rule try_fold_invariant[OF fold, where P = api_ok]) (rule api_of_ok[OF ok], rule add_api_block_ok)
    with ok show ?thesis unfolding server_ok_def s' by (simp add: all_values_set_key)
  next
    case part
    then have "pt_blocks (fst s') = pt_blocks (fst s) \<and> sv_endpoints (fst s') = sv_endpoints (fst s) \<and>
        sv_apis (fst s') = sv_apis (fst s)"
      using assms(1) by (elim disjE) (auto simp: add_server_block_def Let_def split: if_splits)
    with ok show ?thesis by (simp add: server_ok_def)
  next
    case other
    with assms(1) have "fst s' = (fst s)\<lparr>pt_blocks := set_key (bl_type b) b (pt_blocks (fst s))\<rparr>"
      by (auto simp: add_server_block_def Let_def)
    with ok other resolved_other[of b] show ?thesis
      by (simp add: server_ok_def all_values_set_key api_resolved_other)
  qed
qed

lemma add_server_ok:
  assumes "add_server eval proxies multi ptr b s = Inr s'" and ok: "all_values server_ok (fst (snd s))"
  shows "all_values server_ok (fst (snd s'))"
proof (cases "bl_type b = ''server''")
  case True
  obtain labels results n where s: "s = (labels, results, n)" by (cases s)
  obtain key n1 where key: "block_key multi ptr b n = (key, n1)" by fastforce
  define sv where "sv = (case map_of results key of Some sv \<Rightarrow> sv | None \<Rightarrow> new_server b)"
  from assms True obtain sv' n2 where
    fold: "try_fold (add_server_block eval proxies multi ptr) (bl_blocks b)
        (sv\<lparr>pt_attrs := set_all (bl_attrs b) (pt_attrs sv)\<rparr>, n1) = Inr (sv', n2)"
    and s': "fst (snd s') = set_key key sv' results"
    by (auto simp: add_server_def s key Let_def sv_def split: sum.splits if_splits)
  have "server_ok sv"
    using all_values_get[of server_ok results key] ok
    by (cases "map_of results key") (simp_all add: sv_def s new_server_def server_ok_def)
  then have start: "server_ok (fst (sv\<lparr>pt_attrs := set_all (bl_attrs b) (pt_attrs sv)\<rparr>, n1))"
    by (simp add: server_ok_def)
  have "server_ok (fst (sv', n2))"
    by (rule try_fold_invariant[OF fold, where P = "\<lambda>s. server_ok (fst s)"])
       (rule start, rule add_server_block_ok)
  with ok show ?thesis unfolding s' by (simp add: s all_values_set_key)
next
  case False
  with assms show ?thesis by (auto simp: add_server_def split: prod.splits)
qed

lemma add_bodies_ok:
  assumes "try_fold (add_body eval proxies multi ptr) bodies ([], 0) = Inr s"
  shows "all_values server_ok (fst s)"
proof (rule try_fold_invariant[OF assms])
  show "all_values server_ok (fst ([], 0 :: nat))" by simp
next
  fix body :: "'a block list" and u v :: "'a servers \<times> nat"
  assume u: "all_values server_ok (fst u)" and step: "add_body eval proxies multi ptr body u = Inr v"
  from step obtain labels where fold: "try_fold (add_server eval proxies multi ptr) body ([], u) = Inr (labels, v)"
    unfolding add_body_def by (cases "try_fold (add_server eval proxies multi ptr) body ([], u)") auto
  have "all_values server_ok (fst (snd (labels, v)))"
    by (rule try_fold_invariant[OF fold, where P = "\<lambda>s. all_values server_ok (fst (snd s))"])
       (simp add: u, rule add_server_ok)
  then show "all_values server_ok (fst v)" by simp
qed

lemma merged_api_resolved: "api_ok ap \<Longrightarrow> api_resolved (merged_api ap)"
  by (simp add: merged_api_def api_resolved_def resolved_def[of "Block ''api'' _ _ _"] api_ok_def all_values_sorted)

lemma merged_server_ok:
  assumes "set (order (sv_apis sv)) = ran (map_of (sv_apis sv))" and "server_ok sv"
  shows "list_all api_resolved (bl_blocks (merged_server order sv))"
proof -
  have parts: "list_all api_resolved (map (merged_part ty) ps)" if "ty = ''spa'' \<or> ty = ''files''" for ty ps
    using that by (auto simp: merged_part_def api_resolved_def resolved_def list_all_iff)
  have tls: "api_resolved (merged_tls t)" for t by (simp add: merged_tls_def api_resolved_def resolved_def)
  have apis: "list_all api_resolved (map merged_api (order (sv_apis sv)))"
    using assms by (auto simp: list_all_iff server_ok_def all_values_def intro: merged_api_resolved)
  from assms(2) apis show ?thesis
    by (simp add: merged_server_def server_ok_def all_values_sorted parts tls split: option.split)
qed

text \<open>
  Property C20: what \<open>mergeServers\<close> returns are server blocks in which no endpoint refers to a proxy of the
  definitions any more, neither directly in the server nor in an API; the order in which the APIs of a
  server come does not matter.
\<close>

theorem merged_servers_resolved:
  assumes "\<And>m. set (order m) = ran (map_of m)"
  shows "case mergeServers eval ptr order bodies proxies of
     Inl e \<Rightarrow> True
   | Inr bs \<Rightarrow> list_all (\<lambda>b. bl_type b = ''server'' \<and> list_all api_resolved (bl_blocks b)) bs"
proof (cases "try_fold (add_body eval proxies (length bodies > 1) ptr) bodies ([], 0)")
  case (Inr s)
  then have "list_all (\<lambda>sv. list_all api_resolved (bl_blocks (merged_server order sv))) (sorted_values (fst s))"
    using add_bodies_ok[OF Inr] merged_server_ok assms by (force simp: all_values_sorted all_values_def)
  moreover have "bl_type (merged_server order sv) = ''server''" for sv by (simp add: merged_server_def)
  ultimately show ?thesis using Inr by (cases s) (simp add: mergeServers_def list_all_iff)
qed (simp add: mergeServers_def)

definition demo_merge :: "merge_error + cty block list" where
  "demo_merge = mergeServers Inr (\<lambda>n. replicate n CHR ''x'') sorted_values
     [[Block ''server'' [] [] [Block ''api'' [] [] [Block ''endpoint'' [''/a''] [(''proxy'', CString ''p'')] []]]]]
     [(''p'', Block ''proxy'' [''default''] [] [])]"

lemma merged_servers_resolved_witness:
  "demo_merge = Inr [Block ''server'' [] []
       [Block ''api'' [] [] [Block ''endpoint'' [''/a''] [] [Block ''proxy'' [''default''] [] []]]]] \<and>
   (case demo_merge of Inl e \<Rightarrow> False
    | Inr bs \<Rightarrow> list_all (\<lambda>b. bl_type b = ''server'' \<and> list_all api_resolved (bl_blocks b)) bs)"
proof -
  have run: "demo_merge = Inr [Block ''server'' [] []
       [Block ''api'' [] [] [Block ''endpoint'' [''/a''] [] [Block ''proxy'' [''default''] [] []]]]]" by code_simp
  from merged_servers_resolved[OF sorted_values_ran,
      of Inr "\<lambda>n. replicate n CHR ''x''"
        "[[Block ''server'' [] [] [Block ''api'' [] [] [Block ''endpoint'' [''/a''] [(''proxy'', CString ''p'')] []]]]]"
        "[(''p'', Block ''proxy'' [''default''] [] [])]"]
  show ?thesis unfolding demo_merge_def[symmetric] run by simp
qed

end
