(* ===== verification/Validate.thy ===== *)
theory Validate
  imports MergeConfig Paths
begin

text \<open>
  Blocks of \<open>environment\<close> (\<open>config/configload/environment.go\<close>) and the checks of a configuration
  (\<open>config/configload/validate.go\<close>), before its files are merged and after it.

  A diagnostic is its format with the arguments of the verbs. \<open>Panic\<close> is a panic of the code: an index out of range,
  or \<open>AsString\<close> of a value that is not a known string.
\<close>

section \<open>Diagnostics\<close>

datatype check_error =
    Diag string "string list"
  | EvalError go_error
  | Panic string

definition quoted :: "string \<Rightarrow> string" where
  "quoted s = [CHR 0x22] @ s @ [CHR 0x22]"

section \<open>Labels and methods\<close>

definition is_alnum :: "char \<Rightarrow> bool" where
  "is_alnum c = (let n = of_char c :: nat in 48 \<le> n \<and> n \<le> 57 \<or> 65 \<le> n \<and> n \<le> 90 \<or> 97 \<le> n \<and> n \<le> 122)"

definition regexLabel :: "string \<Rightarrow> bool" where
  "regexLabel s = (s \<noteq> [] \<and> list_all (\<lambda>c. is_alnum c \<or> c = CHR ''_'') s)"

definition validLabel :: "string \<Rightarrow> check_error option" where
  "validLabel name =
     (if name = [] then Some (Diag ''label is empty'' [])
      else if \<not> regexLabel name
      then Some (Diag (''label contains invalid character(s), allowed are 'a-z', 'A-Z', '0-9' and '_'' @ [CHR 0x27]) [])
      else None)"

definition uniqueLabelName :: "string \<Rightarrow> string set \<Rightarrow> string \<Rightarrow> check_error + string set" where
  "uniqueLabelName scope unique name =
     (if name \<in> unique
      then Inl (Diag ''%s names (either default or explicitly set via label) must be unique: %q'' [scope, name])
      else Inr (insert name unique))"

definition method_char :: "char \<Rightarrow> bool" where
  "method_char c = (is_alnum c \<or> c \<in> set ''!#$%&'*+-.^_|~'' \<or> of_char c = (96 :: nat))"

definition methodRegExp :: "string \<Rightarrow> bool" where
  "methodRegExp s = (s \<noteq> [] \<and> list_all method_char s)"

definition validMethods :: "string list \<Rightarrow> check_error option" where
  "validMethods methods =
     (if list_all methodRegExp methods then None else Some (Diag ''method contains invalid character(s)'' []))"

section \<open>Attributes of a block\<close>

definition has_attr :: "'e block \<Rightarrow> string \<Rightarrow> bool" where
  "has_attr b name = (map_of (bl_attrs b) name \<noteq> None)"

definition verifyBodyAttributes :: "string \<Rightarrow> 'e block \<Rightarrow> check_error option" where
  "verifyBodyAttributes blockName b =
     (let existsBody = has_attr b ''body''; existsFormBody = has_attr b ''form_body''; existsJSONBody = has_attr b ''json_body'' in
      if existsBody \<and> existsFormBody \<or> existsBody \<and> existsJSONBody \<or> existsFormBody \<and> existsJSONBody
      then Some (Diag (blockName @ '' can only have one of body, form_body or json_body attributes'') [])
      else None)"

definition verifyResponseBodyAttrs :: "'e block \<Rightarrow> check_error option" where
  "verifyResponseBodyAttrs b =
     (if has_attr b ''body'' \<and> has_attr b ''json_body''
      then Some (Diag ''response can only have one of body or json_body attributes'' [])
      else None)"

definition BlocksOfType :: "'e block \<Rightarrow> string \<Rightarrow> 'e block list" where
  "BlocksOfType b t = filter (\<lambda>x. bl_type x = t) (bl_blocks b)"

definition validateBackendTLS :: "'e block \<Rightarrow> check_error option" where
  "validateBackendTLS b =
     (case BlocksOfType b ''tls'' of
        [] \<Rightarrow> None
      | tls # others \<Rightarrow>
          if \<not> has_attr b ''disable_certificate_validation'' then None
          else (let attrName = (if has_attr tls ''server_ca_certificate'' then ''server_ca_certificate''
                                else if has_attr tls ''server_ca_certificate_file'' then ''server_ca_certificate_file'' else []) in
            if attrName \<noteq> []
            then Some (Diag ''configured 'disable_certificate_validation' along with '%s' attribute'' [attrName])
            else None))"

section \<open>Environments\<close>

text \<open>The blocks of a body with those of the chosen environment in the place of its block.\<close>

fun splice ::
    "string \<Rightarrow> 'e block list \<Rightarrow> (string \<times> 'e) list \<Rightarrow> check_error + 'e block list \<times> (string \<times> 'e) list \<times> bool" where
  "splice env [] as = Inr ([], as, False)"
| "splice env (b # bs) as =
     (if bl_type b \<noteq> ''environment''
      then map_sum id (\<lambda>(blocks, as', found). (b # blocks, as', found)) (splice env bs as)
      else if bl_labels b = [] then Inl (Diag ''Missing label(s) for 'environment' block'' [])
      else (case find (\<lambda>l. validLabel l \<noteq> None) (bl_labels b) of
         Some l \<Rightarrow> Inl (the (validLabel l))
       | None \<Rightarrow>
          (let chosen = filter (\<lambda>l. l = env) (bl_labels b) in
           map_sum id (\<lambda>(blocks, as', found). (concat (map (\<lambda>l. bl_blocks b) chosen) @ blocks, as', True))
             (splice env bs (fold (\<lambda>l. set_all (bl_attrs b)) chosen as)))))"

fun block_depth :: "'e block \<Rightarrow> nat" where
  "block_depth (Block t ls as bs) = Suc (foldr (\<lambda>b n. max (block_depth b) n) bs 0)"

definition depth_of :: "'e block list \<Rightarrow> nat" where
  "depth_of bs = foldr (\<lambda>b n. max (block_depth b) n) bs 0"

lemma depth_of_simps [simp]: "depth_of [] = 0" "depth_of (b # bs) = max (block_depth b) (depth_of bs)"
  by (simp_all add: depth_of_def)

lemma depth_of_append [simp]: "depth_of (xs @ ys) = max (depth_of xs) (depth_of ys)"
  by (induction xs) auto

lemma depth_of_concat: "(\<And>x. x \<in> set xs \<Longrightarrow> depth_of (f x) \<le> n) \<Longrightarrow> depth_of (concat (map f xs)) \<le> n"
  by (induction xs) auto

lemma block_depth_blocks: "block_depth b = Suc (depth_of (bl_blocks b))"
  by (cases b) (simp add: depth_of_def)

lemma splice_depth: "splice env bs as = Inr (bs', as', f) \<Longrightarrow> depth_of bs' \<le> depth_of bs"
proof (induction bs arbitrary: as bs' as' f)
  case (Cons b bs)
  show ?case
  proof (cases "bl_type b = ''environment''")
    case False
    with Cons show ?thesis by (cases "splice env bs as") fastforce+
  next
    case True
    let ?chosen = "filter (\<lambda>l. l = env) (bl_labels b)"
    have "depth_of (concat (map (\<lambda>l. bl_blocks b) ?chosen)) \<le> depth_of (b # bs)"
      by (rule depth_of_concat) (simp add: block_depth_blocks)
    moreover from True Cons.prems obtain bs1 as1 f1 where
      "splice env bs (fold (\<lambda>l. set_all (bl_attrs b)) ?chosen as) = Inr (bs1, as1, f1)"
      "bs' = concat (map (\<lambda>l. bl_blocks b) ?chosen) @ bs1"
      by (cases "splice env bs (fold (\<lambda>l. set_all (bl_attrs b)) ?chosen as)")
        (auto simp: Let_def split: if_splits option.splits)
    ultimately show ?thesis using Cons.IH by fastforce
  qed
qed simp

function (sequential) preprocessBody :: "string \<Rightarrow> 'e block \<Rightarrow> check_error + bool \<times> 'e block"
  and preprocess_blocks :: "string \<Rightarrow> 'e block list \<Rightarrow> check_error + bool \<times> 'e block list"
where
  "preprocessBody env b =
     (case splice env (bl_blocks b) (bl_attrs b) of
        Inl e \<Rightarrow> Inl e
      | Inr (blocks, as, found) \<Rightarrow>
         (case preprocess_blocks env blocks of
            Inl e \<Rightarrow> Inl e
          | Inr (found', blocks') \<Rightarrow> Inr (found \<or> found', Block (bl_type b) (bl_labels b) as blocks')))"
| "preprocess_blocks env [] = Inr (False, [])"
| "preprocess_blocks env (b # bs) =
     (case preprocessBody env b of
        Inl e \<Rightarrow> Inl e
      | Inr (found, b') \<Rightarrow>
         (case preprocess_blocks env bs of Inl e \<Rightarrow> Inl e | Inr (found', bs') \<Rightarrow> Inr (found \<or> found', b' # bs')))"
  by pat_completeness auto
termination preprocessBody
  apply (relation "inv_image (less_than <*lex*> less_than)
    (\<lambda>x. case x of Inl (env, b) \<Rightarrow> (block_depth b, 0) | Inr (env, bs) \<Rightarrow> (depth_of bs, length bs))")
     apply (auto simp: block_depth_blocks dest!: splice_depth)
  done


declare preprocessBody.simps [simp del]

definition preprocessEnvironmentBlocks :: "'e block list \<Rightarrow> string \<Rightarrow> check_error + 'e block list" where
  "preprocessEnvironmentBlocks bodies env =
     (case preprocess_blocks env bodies of
        Inl e \<Rightarrow> Inl e
      | Inr (found, bodies') \<Rightarrow>
          if found \<and> env = []
          then Inl (Diag (quoted ''environment'' @ '' blocks found, but '' @ quoted ''COUPER_ENVIRONMENT'' @ '' setting is missing'') [])
          else Inr bodies')"

section \<open>The check of a configuration\<close>

text \<open>The sets of labels that a block of definitions keeps.\<close>

record label_sets =
  ls_backends :: "string set"
  ls_acs :: "string set"
  ls_profiles :: "string set"
  ls_proxies :: "string set"

definition no_labels :: label_sets where
  "no_labels = \<lparr>ls_backends = {}, ls_acs = {}, ls_profiles = {}, ls_proxies = {}\<rparr>"

definition IsReservedContextName :: "string \<Rightarrow> bool" where
  "IsReservedContextName name = (name = ''granted_permissions'' \<or> name = ''required_permission'')"

definition checkAC :: "bool \<Rightarrow> string \<Rightarrow> string set \<Rightarrow> check_error + string set" where
  "checkAC afterMerge l acs =
     (if \<not> afterMerge \<and> l = [] then Inl (Diag ''accessControl requires a label'' [])
      else if \<not> afterMerge \<and> IsReservedContextName l then Inl (Diag ''accessControl uses reserved name as label'' [])
      else if l \<in> acs then Inl (Diag ''AC labels must be unique'' [])
      else Inr (insert l acs))"

definition checkJWTSigningProfiles :: "string \<Rightarrow> string set \<Rightarrow> check_error + string set" where
  "checkJWTSigningProfiles l profiles =
     (if l \<in> profiles then Inl (Diag ''JWT signing profile labels must be unique'' []) else Inr (insert l profiles))"

definition check_backend :: "bool \<Rightarrow> string \<Rightarrow> 'e block \<Rightarrow> label_sets \<Rightarrow> check_error + label_sets" where
  "check_backend afterMerge l b st =
     (case (if afterMerge then Inr st
            else case validLabel l of
              Some e \<Rightarrow> Inl e
            | None \<Rightarrow>
                if has_prefix l ''anonymous_'' then Inl (Diag (''backend label must not start with 'anonymous_'' @ [CHR 0x27]) [])
                else if l \<in> ls_backends st then Inl (Diag ''backend labels must be unique'' [])
                else Inr (st\<lparr>ls_backends := insert l (ls_backends st)\<rparr>)) of
        Inl e \<Rightarrow> Inl e
      | Inr st' \<Rightarrow> (case validateBackendTLS b of Some e \<Rightarrow> Inl e | None \<Rightarrow> Inr st'))"

definition check_jwt :: "bool \<Rightarrow> string \<Rightarrow> 'e block \<Rightarrow> label_sets \<Rightarrow> check_error + label_sets" where
  "check_jwt afterMerge l b st =
     (case checkAC afterMerge l (ls_acs st) of
        Inl e \<Rightarrow> Inl e
      | Inr acs \<Rightarrow>
          if has_attr b ''signing_ttl''
          then map_sum id (\<lambda>ps. st\<lparr>ls_acs := acs, ls_profiles := ps\<rparr>) (checkJWTSigningProfiles l (ls_profiles st))
          else Inr (st\<lparr>ls_acs := acs\<rparr>))"

definition check_definition :: "bool \<Rightarrow> 'e block \<Rightarrow> label_sets \<Rightarrow> check_error + label_sets" where
  "check_definition afterMerge b st =
     (case bl_labels b of
        [] \<Rightarrow> Inl (if afterMerge then Panic ''index out of range'' else Diag ''missing label'' [])
      | l0 # _ \<Rightarrow>
         (let l = trim_space l0; t = bl_type b in
          if t = ''backend'' then check_backend afterMerge l b st
          else if t \<in> {''basic_auth'', ''beta_oauth2'', ''oidc'', ''saml''}
          then map_sum id (\<lambda>acs. st\<lparr>ls_acs := acs\<rparr>) (checkAC afterMerge l (ls_acs st))
          else if t = ''jwt'' then check_jwt afterMerge l b st
          else if t = ''jwt_signing_profile''
          then map_sum id (\<lambda>ps. st\<lparr>ls_profiles := ps\<rparr>) (checkJWTSigningProfiles l (ls_profiles st))
          else if t = ''proxy'' \<and> \<not> afterMerge
          then (if l \<in> ls_proxies st then Inl (Diag ''proxy labels must be unique'' [])
                else Inr (st\<lparr>ls_proxies := insert l (ls_proxies st)\<rparr>))
          else Inr st))"

definition checkPathSegments :: "string \<Rightarrow> string \<Rightarrow> check_error option" where
  "checkPathSegments pathType p =
     (if list_ex (\<lambda>segment. segment = ''.'' \<or> segment = ''..'') (split_on CHR ''/'' p)
      then Some (Diag (pathType @ '' must not contain '' @ quoted ''.'' @ '' or '' @ quoted ''..'' @ '' segments'') []) else None)"

definition getBasePath :: "('e \<Rightarrow> go_error + cty) \<Rightarrow> bool \<Rightarrow> 'e block \<Rightarrow> check_error + string" where
  "getBasePath eval afterMerge b =
     (case map_of (bl_attrs b) ''base_path'' of
        None \<Rightarrow> Inr []
      | Some e \<Rightarrow>
         (case eval e of
            Inl er \<Rightarrow> Inl (EvalError er)
          | Inr v \<Rightarrow>
              if \<not> afterMerge \<and> cty_type_of v \<noteq> TString then Inl (Diag ''base_path must evaluate to string'' [])
              else (case v of
                CString basePath \<Rightarrow>
                  if afterMerge then Inr basePath
                  else (case checkPathSegments ''base_path'' basePath of Some er \<Rightarrow> Inl er | None \<Rightarrow> Inr basePath)
              | _ \<Rightarrow> Inl (Panic ''not a string''))))"

text \<open>\<open>reCleanPattern\<close>: each parameter in braces becomes an empty pair of braces.\<close>

function (sequential) clean_pattern :: "string \<Rightarrow> string" where
  "clean_pattern [] = []"
| "clean_pattern (c # s) =
     (let name = takeWhile (\<lambda>x. x \<noteq> CHR ''}'') s; rest = dropWhile (\<lambda>x. x \<noteq> CHR ''}'') s in
      if c = CHR ''{'' \<and> name \<noteq> [] \<and> rest \<noteq> [] then ''{}'' @ clean_pattern (tl rest) else c # clean_pattern s)"
  by pat_completeness auto
termination clean_pattern
proof (relation "measure length")
  have "length (dropWhile P s) - 1 < Suc (length s)" for P and s :: string
    using length_dropWhile_le[of P s] by linarith
  then show "(tl rest, c # s) \<in> measure length" if "rest = dropWhile (\<lambda>x. x \<noteq> CHR ''}'') s" for rest c s
    using that by simp
qed simp_all

definition registerEndpointPattern ::
    "string \<Rightarrow> bool \<Rightarrow> 'e block \<Rightarrow> string set \<Rightarrow> check_error + string set" where
  "registerEndpointPattern basePath afterMerge b patterns =
     (case bl_labels b of
        [] \<Rightarrow> Inl (Panic ''index out of range'')
      | pattern # _ \<Rightarrow>
          if \<not> afterMerge \<and> \<not> has_prefix pattern ''/''
          then Inl (Diag (''endpoint path pattern must start with '' @ quoted ''/'') [])
          else (case (if afterMerge then None else checkPathSegments ''endpoint path pattern'' pattern) of
            Some e \<Rightarrow> Inl e
          | None \<Rightarrow>
             (let cleaned = clean_pattern (JoinOpenAPIPath [basePath, pattern]) in
              if cleaned \<in> patterns then Inl (Diag ''duplicate endpoint'' []) else Inr (insert cleaned patterns))))"

definition check_server_block ::
    "('e \<Rightarrow> go_error + cty) \<Rightarrow> bool \<Rightarrow> string \<Rightarrow> 'e block \<Rightarrow> string set \<Rightarrow> check_error + string set" where
  "check_server_block eval afterMerge serverBasePath b patterns =
     (if bl_type b = ''endpoint'' then registerEndpointPattern serverBasePath afterMerge b patterns
      else if bl_type b = ''api''
      then (case getBasePath eval afterMerge b of
              Inl e \<Rightarrow> Inl e
            | Inr basePath \<Rightarrow>
                try_fold (registerEndpointPattern (path_join [serverBasePath, basePath]) afterMerge)
                  (BlocksOfType b ''endpoint'') patterns)
      else Inr patterns)"

definition check_block :: "('e \<Rightarrow> go_error + cty) \<Rightarrow> bool \<Rightarrow> 'e block \<Rightarrow> check_error option" where
  "check_block eval afterMerge b =
     (if bl_type b = ''definitions''
      then (case try_fold (check_definition afterMerge) (bl_blocks b) no_labels of Inl e \<Rightarrow> Some e | Inr st \<Rightarrow> None)
      else if bl_type b = ''server''
      then (case getBasePath eval afterMerge b of
              Inl e \<Rightarrow> Some e
            | Inr basePath \<Rightarrow>
               (case try_fold (check_server_block eval afterMerge (path_join [''/'', basePath])) (bl_blocks b) {} of
                  Inl e \<Rightarrow> Some e | Inr patterns \<Rightarrow> None))
      else None)"

definition validateBody :: "('e \<Rightarrow> go_error + cty) \<Rightarrow> bool \<Rightarrow> 'e block list \<Rightarrow> check_error option" where
  "validateBody eval afterMerge blocks =
     (case find (\<lambda>b. check_block eval afterMerge b \<noteq> None) blocks of
        None \<Rightarrow> None
      | Some b \<Rightarrow> check_block eval afterMerge b)"


section \<open>Environments are resolved\<close>

fun environment_free :: "'e block \<Rightarrow> bool" where
  "environment_free (Block t ls as bs) = list_all (\<lambda>b. bl_type b \<noteq> ''environment'' \<and> environment_free b) bs"

text \<open>No environment stands directly inside another one.\<close>

fun environments_apart :: "'e block \<Rightarrow> bool" where
  "environments_apart (Block t ls as bs) =
     list_all (\<lambda>b. environments_apart b \<and> (t = ''environment'' \<longrightarrow> bl_type b \<noteq> ''environment'')) bs"

abbreviation free_blocks :: "'e block list \<Rightarrow> bool" where
  "free_blocks \<equiv> list_all (\<lambda>b. bl_type b \<noteq> ''environment'' \<and> environment_free b)"

lemma environment_free_iff: "environment_free b = free_blocks (bl_blocks b)"
  by (cases b) simp

lemma environments_apart_iff:
  "environments_apart b = list_all (\<lambda>x. environments_apart x \<and> (bl_type b = ''environment'' \<longrightarrow> bl_type x \<noteq> ''environment'')) (bl_blocks b)"
  by (cases b) simp

lemma splice_result:
  assumes "splice env bs as = Inr (bs', as', f)" "list_all environments_apart bs"
  shows "list_all (\<lambda>b. environments_apart b \<and> bl_type b \<noteq> ''environment'') bs' \<and>
    (f \<longleftrightarrow> list_ex (\<lambda>b. bl_type b = ''environment'') bs) \<and> (\<not> f \<longrightarrow> bs' = bs)"
  using assms
proof (induction bs arbitrary: as bs' as' f)
  case (Cons b bs)
  show ?case
  proof (cases "bl_type b = ''environment''")
    case False
    with Cons show ?thesis by (cases "splice env bs as") fastforce+
  next
    case True
    let ?chosen = "filter (\<lambda>l. l = env) (bl_labels b)"
    from True Cons.prems(1) obtain bs1 as1 f1 where
      "splice env bs (fold (\<lambda>l. set_all (bl_attrs b)) ?chosen as) = Inr (bs1, as1, f1)"
      "bs' = concat (map (\<lambda>l. bl_blocks b) ?chosen) @ bs1" "f"
      by (cases "splice env bs (fold (\<lambda>l. set_all (bl_attrs b)) ?chosen as)")
        (auto simp: Let_def split: if_splits option.splits)
    with Cons True show ?thesis
      by (fastforce simp: list_all_iff environments_apart_iff[of b])
  qed
qed simp

lemma preprocess_result:
  fixes b :: "'e block" and bs :: "'e block list"
  shows "preprocessBody env b = Inr (found, b') \<Longrightarrow> environments_apart b \<Longrightarrow>
    environment_free b' \<and> (found \<longleftrightarrow> \<not> environment_free b) \<and> bl_type b' = bl_type b"
  "preprocess_blocks env bs = Inr (found, bs') \<Longrightarrow> list_all environments_apart bs \<Longrightarrow>
    list_all environment_free bs' \<and> (found \<longleftrightarrow> \<not> list_all environment_free bs) \<and> map bl_type bs' = map bl_type bs"
proof (induction env b and env bs arbitrary: found b' and found bs' rule: preprocessBody_preprocess_blocks.induct)
  case (1 env b)
  obtain blocks as f where s: "splice env (bl_blocks b) (bl_attrs b) = Inr (blocks, as, f)"
    using 1(2) by (cases "splice env (bl_blocks b) (bl_attrs b)") (auto simp: preprocessBody.simps)
  obtain f' blocks' where r: "preprocess_blocks env blocks = Inr (f', blocks')"
    using 1(2) s by (cases "preprocess_blocks env blocks") (auto simp: preprocessBody.simps)
  have b': "b' = Block (bl_type b) (bl_labels b) as blocks'" "found = (f \<or> f')"
    using 1(2) s r by (auto simp: preprocessBody.simps)
  from 1(3) have apart: "list_all environments_apart (bl_blocks b)"
    by (auto simp: environments_apart_iff[of b] list_all_iff)
  note sp = splice_result[OF s apart]
  from sp have "list_all environments_apart blocks" by (auto simp: list_all_iff)
  from 1(1)[OF s refl refl r this]
  have ih: "list_all environment_free blocks'" "f' \<longleftrightarrow> \<not> list_all environment_free blocks" "map bl_type blocks' = map bl_type blocks"
    by auto
  from sp have "list_all (\<lambda>t. t \<noteq> ''environment'') (map bl_type blocks')" by (simp add: ih(3) list_all_iff)
  with ih(1) have "free_blocks blocks'" by (auto simp: list_all_iff)
  then have free: "environment_free b'" by (simp add: b')
  have "found \<longleftrightarrow> \<not> environment_free b"
  proof (cases f)
    case True
    with sp show ?thesis by (auto simp: b' environment_free_iff[of b] Ball_set[symmetric] Bex_set[symmetric])
  next
    case False
    with sp have "blocks = bl_blocks b" "free_blocks (bl_blocks b) \<longleftrightarrow> list_all environment_free (bl_blocks b)"
      by (auto simp: Ball_set[symmetric] Bex_set[symmetric])
    with False ih(2) show ?thesis by (simp add: b' environment_free_iff[of b])
  qed
  with free b' show ?case by simp
next
  case (3 env b bs)
  obtain f1 b1 where p1: "preprocessBody env b = Inr (f1, b1)" using 3(3) by (cases "preprocessBody env b") auto
  obtain f2 bs2 where p2: "preprocess_blocks env bs = Inr (f2, bs2)" using 3(3) p1 by (cases "preprocess_blocks env bs") auto
  have "bs' = b1 # bs2" "found = (f1 \<or> f2)" using 3(3) p1 p2 by auto
  moreover have "environment_free b1 \<and> (f1 \<longleftrightarrow> \<not> environment_free b) \<and> bl_type b1 = bl_type b"
    by (rule 3(1)[OF p1]) (use 3(4) in simp)
  moreover have "list_all environment_free bs2 \<and> (f2 \<longleftrightarrow> \<not> list_all environment_free bs) \<and> map bl_type bs2 = map bl_type bs"
    by (rule 3(2)[OF p1 refl p2]) (use 3(4) in simp)
  ultimately show ?case by auto
qed simp

text \<open>
  Where no environment stands directly inside another one, the files that the preprocessing accepts have no
  block of an environment at any depth, and without a chosen environment nothing but a configuration that never
  mentions one is accepted.
\<close>

theorem environments_resolved:
  assumes "preprocessEnvironmentBlocks bodies env = Inr bodies'" "list_all environments_apart bodies"
  shows "list_all environment_free bodies' \<and> (env = [] \<longrightarrow> list_all environment_free bodies)"
proof -
  obtain found where r: "preprocess_blocks env bodies = Inr (found, bodies')" "found \<longrightarrow> env \<noteq> []"
    using assms(1) unfolding preprocessEnvironmentBlocks_def by (cases "preprocess_blocks env bodies") (simp_all split: if_splits prod.splits)
  from preprocess_result(2)[OF r(1) assms(2)] r(2) show ?thesis by blast
qed


lemma environments_resolved_witness:
  "\<exists>b. preprocessEnvironmentBlocks [Block [] [] [] [Block ''environment'' [''prod''] [] [Block ''server'' [] [(''x'', True)] []]]] ''prod'' = Inr b \<and>
     list_all environment_free b"
proof -
  let ?bodies = "[Block [] [] [] [Block ''environment'' [''prod''] [] [Block ''server'' [] [(''x'', True)] []]]]"
  have "find (\<lambda>l. validLabel l \<noteq> None) [''prod''] = None" by code_simp
  then have "preprocessEnvironmentBlocks ?bodies ''prod'' = Inr [Block [] [] [] [Block ''server'' [] [(''x'', True)] []]]"
    by (simp add: preprocessEnvironmentBlocks_def preprocessBody.simps set_all_def)
  moreover have "list_all environments_apart ?bodies" by simp
  ultimately show ?thesis using environments_resolved[of ?bodies "''prod''"] by blast
qed

section \<open>What the check accepts\<close>

definition is_ac :: "'e block \<Rightarrow> bool" where
  "is_ac b = (bl_type b \<in> {''basic_auth'', ''beta_oauth2'', ''oidc'', ''saml'', ''jwt''})"

definition is_profile :: "'e block \<Rightarrow> bool" where
  "is_profile b = (bl_type b = ''jwt_signing_profile'' \<or> bl_type b = ''jwt'' \<and> has_attr b ''signing_ttl'')"

definition definition_label :: "'e block \<Rightarrow> string" where
  "definition_label b = trim_space (first_label b)"

definition labels_of :: "('e block \<Rightarrow> bool) \<Rightarrow> 'e block list \<Rightarrow> string list" where
  "labels_of P bs = map definition_label (filter P bs)"

definition fresh_all :: "string set \<Rightarrow> string list \<Rightarrow> bool" where
  "fresh_all S xs = (distinct xs \<and> set xs \<inter> S = {})"

lemma fresh_all_simps [simp]: "fresh_all S []" "fresh_all S (x # xs) \<longleftrightarrow> x \<notin> S \<and> fresh_all (insert x S) xs"
  by (auto simp: fresh_all_def)

lemma labels_of_simps [simp]:
  "labels_of P [] = []" "labels_of P (b # bs) = (if P b then definition_label b # labels_of P bs else labels_of P bs)"
  by (simp_all add: labels_of_def)

text \<open>One block of definitions, apart from the labels of the others.\<close>

definition definition_ok :: "bool \<Rightarrow> 'e block \<Rightarrow> bool" where
  "definition_ok afterMerge b =
     (bl_labels b \<noteq> [] \<and>
      (bl_type b = ''backend'' \<longrightarrow> validateBackendTLS b = None) \<and>
      (\<not> afterMerge \<longrightarrow>
        (bl_type b = ''backend'' \<longrightarrow> validLabel (definition_label b) = None \<and> \<not> has_prefix (definition_label b) ''anonymous_'') \<and>
        (is_ac b \<longrightarrow> definition_label b \<noteq> [] \<and> \<not> IsReservedContextName (definition_label b))))"

definition definitions_ok :: "bool \<Rightarrow> label_sets \<Rightarrow> 'e block list \<Rightarrow> bool" where
  "definitions_ok afterMerge st bs =
     (list_all (definition_ok afterMerge) bs \<and>
      fresh_all (ls_acs st) (labels_of is_ac bs) \<and> fresh_all (ls_profiles st) (labels_of is_profile bs) \<and>
      (\<not> afterMerge \<longrightarrow> fresh_all (ls_backends st) (labels_of (\<lambda>b. bl_type b = ''backend'') bs) \<and>
         fresh_all (ls_proxies st) (labels_of (\<lambda>b. bl_type b = ''proxy'') bs)))"

lemma check_definition_ok:
  "(case check_definition afterMerge b st of Inl e \<Rightarrow> False | Inr st' \<Rightarrow> definitions_ok afterMerge st' bs) \<longleftrightarrow>
     definitions_ok afterMerge st (b # bs)"
proof (cases "bl_labels b")
  case Nil
  then show ?thesis by (simp add: check_definition_def definitions_ok_def definition_ok_def)
next
  case (Cons l0 ls)
  then have l: "trim_space l0 = definition_label b" by (simp add: definition_label_def first_label_def)
  show ?thesis
    by (simp add: check_definition_def Cons l Let_def definitions_ok_def definition_ok_def is_ac_def is_profile_def
        check_backend_def check_jwt_def checkAC_def checkJWTSigningProfiles_def
        split: option.splits sum.splits if_splits) auto
qed

lemma definitions_accepted:
  "(\<exists>st'. try_fold (check_definition afterMerge) bs st = Inr st') \<longleftrightarrow> definitions_ok afterMerge st bs"
proof (induction bs arbitrary: st)
  case Nil
  then show ?case by (simp add: definitions_ok_def)
next
  case (Cons b bs)
  have "(\<exists>st'. try_fold (check_definition afterMerge) (b # bs) st = Inr st') \<longleftrightarrow>
     (case check_definition afterMerge b st of Inl e \<Rightarrow> False | Inr st1 \<Rightarrow> \<exists>st'. try_fold (check_definition afterMerge) bs st1 = Inr st')"
    by (simp split: sum.splits)
  also have "\<dots> \<longleftrightarrow> definitions_ok afterMerge st (b # bs)"
    unfolding Cons.IH by (rule check_definition_ok)
  finally show ?case .
qed


text \<open>The endpoints of a server with the base paths that they are below.\<close>

definition block_endpoints :: "('e \<Rightarrow> go_error + cty) \<Rightarrow> bool \<Rightarrow> string \<Rightarrow> 'e block \<Rightarrow> (string \<times> 'e block) list" where
  "block_endpoints eval afterMerge base b =
     (if bl_type b = ''endpoint'' then [(base, b)]
      else if bl_type b = ''api''
      then (case getBasePath eval afterMerge b of
              Inl e \<Rightarrow> []
            | Inr p \<Rightarrow> map (\<lambda>x. (path_join [base, p], x)) (BlocksOfType b ''endpoint''))
      else [])"

definition full_pattern :: "string \<times> 'e block \<Rightarrow> string" where
  "full_pattern = (\<lambda>(base, b). clean_pattern (JoinOpenAPIPath [base, first_label b]))"

definition endpoint_ok :: "bool \<Rightarrow> 'e block \<Rightarrow> bool" where
  "endpoint_ok afterMerge b =
     (bl_labels b \<noteq> [] \<and>
      (\<not> afterMerge \<longrightarrow> has_prefix (first_label b) ''/'' \<and> checkPathSegments ''endpoint path pattern'' (first_label b) = None))"

definition endpoints_ok :: "bool \<Rightarrow> string set \<Rightarrow> (string \<times> 'e block) list \<Rightarrow> bool" where
  "endpoints_ok afterMerge patterns eps =
     (list_all (\<lambda>e. endpoint_ok afterMerge (snd e)) eps \<and> fresh_all patterns (map full_pattern eps))"

definition base_path_ok :: "('e \<Rightarrow> go_error + cty) \<Rightarrow> bool \<Rightarrow> 'e block \<Rightarrow> bool" where
  "base_path_ok eval afterMerge b = (case getBasePath eval afterMerge b of Inl e \<Rightarrow> False | Inr p \<Rightarrow> True)"

lemma endpoints_ok_Nil [simp]: "endpoints_ok afterMerge patterns []"
  by (simp add: endpoints_ok_def)

lemma fresh_all_append: "fresh_all S (xs @ ys) \<longleftrightarrow> fresh_all S xs \<and> fresh_all (set xs \<union> S) ys"
  by (auto simp: fresh_all_def)

lemma endpoints_ok_append:
  "endpoints_ok afterMerge S (xs @ ys) \<longleftrightarrow>
     endpoints_ok afterMerge S xs \<and> endpoints_ok afterMerge (full_pattern ` set xs \<union> S) ys"
  by (auto simp: endpoints_ok_def fresh_all_append)

lemma register_result:
  "case registerEndpointPattern base afterMerge b S of
     Inl e \<Rightarrow> \<not> endpoints_ok afterMerge S [(base, b)]
   | Inr S' \<Rightarrow> endpoints_ok afterMerge S [(base, b)] \<and> S' = insert (full_pattern (base, b)) S"
  by (auto simp: registerEndpointPattern_def endpoints_ok_def endpoint_ok_def full_pattern_def first_label_def Let_def
      split: list.splits option.splits)

lemma register_all_result:
  "case try_fold (registerEndpointPattern base afterMerge) bs S of
     Inl e \<Rightarrow> \<not> endpoints_ok afterMerge S (map (\<lambda>x. (base, x)) bs)
   | Inr S' \<Rightarrow> endpoints_ok afterMerge S (map (\<lambda>x. (base, x)) bs) \<and> S' = full_pattern ` set (map (\<lambda>x. (base, x)) bs) \<union> S"
proof (induction bs arbitrary: S)
  case (Cons b bs)
  have split: "endpoints_ok afterMerge S (map (\<lambda>x. (base, x)) (b # bs)) \<longleftrightarrow>
     endpoints_ok afterMerge S [(base, b)] \<and> endpoints_ok afterMerge (insert (full_pattern (base, b)) S) (map (\<lambda>x. (base, x)) bs)"
    using endpoints_ok_append[of afterMerge S "[(base, b)]" "map (\<lambda>x. (base, x)) bs"] by simp
  show ?case
  proof (cases "registerEndpointPattern base afterMerge b S")
    case (Inl e)
    with register_result[where base = base and afterMerge = afterMerge and b = b and S = S] show ?thesis unfolding split by simp
  next
    case (Inr S1)
    with register_result[where base = base and afterMerge = afterMerge and b = b and S = S]
    have "endpoints_ok afterMerge S [(base, b)]" "S1 = insert (full_pattern (base, b)) S" by simp_all
    with Inr Cons.IH[of S1] show ?thesis unfolding split by (auto split: sum.splits)
  qed
qed simp

text \<open>The blocks of a server that have a base path of their own.\<close>

definition apis_ok :: "('e \<Rightarrow> go_error + cty) \<Rightarrow> bool \<Rightarrow> 'e block list \<Rightarrow> bool" where
  "apis_ok eval afterMerge bs = list_all (\<lambda>b. bl_type b = ''api'' \<longrightarrow> base_path_ok eval afterMerge b) bs"

lemma server_block_result:
  "case check_server_block eval afterMerge base b S of
     Inl e \<Rightarrow> \<not> (apis_ok eval afterMerge [b] \<and> endpoints_ok afterMerge S (block_endpoints eval afterMerge base b))
   | Inr S' \<Rightarrow> apis_ok eval afterMerge [b] \<and> endpoints_ok afterMerge S (block_endpoints eval afterMerge base b) \<and>
       S' = full_pattern ` set (block_endpoints eval afterMerge base b) \<union> S"
proof -
  consider "bl_type b = ''endpoint''" | "bl_type b = ''api''" | "bl_type b \<noteq> ''endpoint''" "bl_type b \<noteq> ''api''" by blast
  then show ?thesis
  proof cases
    case 1
    with register_result[where base = base and afterMerge = afterMerge and b = b and S = S] show ?thesis
      by (auto simp: check_server_block_def block_endpoints_def apis_ok_def split: sum.splits)
  next
    case 2
    show ?thesis
    proof (cases "getBasePath eval afterMerge b")
      case (Inr p)
      with 2 register_all_result[where base = "path_join [base, p]" and afterMerge = afterMerge and bs = "BlocksOfType b ''endpoint''" and S = S] show ?thesis
        by (cases "try_fold (registerEndpointPattern (path_join [base, p]) afterMerge) (BlocksOfType b ''endpoint'') S")
          (simp_all add: check_server_block_def block_endpoints_def apis_ok_def base_path_ok_def)
    qed (simp add: 2 check_server_block_def apis_ok_def base_path_ok_def)
  qed (simp add: check_server_block_def block_endpoints_def apis_ok_def)
qed

lemma server_accepted:
  "(\<exists>S'. try_fold (check_server_block eval afterMerge base) bs S = Inr S') \<longleftrightarrow>
     apis_ok eval afterMerge bs \<and> endpoints_ok afterMerge S (concat (map (block_endpoints eval afterMerge base) bs))"
proof (induction bs arbitrary: S)
  case (Cons b bs)
  have "apis_ok eval afterMerge (b # bs) \<longleftrightarrow> apis_ok eval afterMerge [b] \<and> apis_ok eval afterMerge bs"
    by (simp add: apis_ok_def)
  with Cons.IH server_block_result[where eval = eval and afterMerge = afterMerge and base = base and b = b and S = S] show ?case
    by (auto simp: endpoints_ok_append split: sum.splits)
qed (simp add: apis_ok_def)

definition server_endpoints :: "('e \<Rightarrow> go_error + cty) \<Rightarrow> bool \<Rightarrow> 'e block \<Rightarrow> (string \<times> 'e block) list" where
  "server_endpoints eval afterMerge b =
     (case getBasePath eval afterMerge b of
        Inl e \<Rightarrow> []
      | Inr p \<Rightarrow> concat (map (block_endpoints eval afterMerge (path_join [''/'', p])) (bl_blocks b)))"

lemma check_block_iff:
  "check_block eval afterMerge b = None \<longleftrightarrow>
     (bl_type b = ''definitions'' \<longrightarrow> definitions_ok afterMerge no_labels (bl_blocks b)) \<and>
     (bl_type b = ''server'' \<longrightarrow> base_path_ok eval afterMerge b \<and> apis_ok eval afterMerge (bl_blocks b) \<and>
        endpoints_ok afterMerge {} (server_endpoints eval afterMerge b))"
proof -
  consider "bl_type b = ''definitions''" | "bl_type b = ''server''" | "bl_type b \<noteq> ''definitions''" "bl_type b \<noteq> ''server''" by blast
  then show ?thesis
  proof cases
    case 1
    then show ?thesis by (simp add: check_block_def definitions_accepted[symmetric] split: sum.splits)
  next
    case 2
    then show ?thesis
      by (simp add: check_block_def base_path_ok_def server_endpoints_def server_accepted[symmetric] split: sum.splits)
  qed (simp add: check_block_def)
qed

text \<open>
  Property C13: a configuration is accepted exactly if every block of definitions has a label; the labels of access
  controls, of signing profiles and, before merging, of backends and proxies are unique without the space around
  them; no TLS options contradict each other; labels, base paths and patterns are well-formed; and no two endpoints
  of a server have the same pattern up to the names of its parameters, wherever they stand.
\<close>

theorem accepted_configurations:
  "validateBody eval afterMerge blocks = None \<longleftrightarrow>
     list_all (\<lambda>b.
       (bl_type b = ''definitions'' \<longrightarrow>
          list_all (definition_ok afterMerge) (bl_blocks b) \<and>
          distinct (labels_of is_ac (bl_blocks b)) \<and> distinct (labels_of is_profile (bl_blocks b)) \<and>
          (\<not> afterMerge \<longrightarrow> distinct (labels_of (\<lambda>x. bl_type x = ''backend'') (bl_blocks b)) \<and>
             distinct (labels_of (\<lambda>x. bl_type x = ''proxy'') (bl_blocks b)))) \<and>
       (bl_type b = ''server'' \<longrightarrow>
          base_path_ok eval afterMerge b \<and> apis_ok eval afterMerge (bl_blocks b) \<and>
          list_all (\<lambda>e. endpoint_ok afterMerge (snd e)) (server_endpoints eval afterMerge b) \<and>
          distinct (map full_pattern (server_endpoints eval afterMerge b)))) blocks"
proof -
  have "validateBody eval afterMerge blocks = None \<longleftrightarrow> list_all (\<lambda>b. check_block eval afterMerge b = None) blocks"
    by (auto simp: validateBody_def find_None_iff list_all_iff find_Some_iff split: option.splits)
  then show ?thesis
    by (simp add: check_block_iff definitions_ok_def endpoints_ok_def no_labels_def fresh_all_def)
qed

lemma accepted_configurations_witness:
  "validateBody (Inr :: cty \<Rightarrow> go_error + cty) False
     [Block ''definitions'' [] [] [Block ''basic_auth'' [''a''] [] [], Block ''jwt'' [''a''] [] []]] \<noteq> None"
  using accepted_configurations[of "Inr :: cty \<Rightarrow> go_error + cty" False
      "[Block ''definitions'' [] [] [Block ''basic_auth'' [''a''] [] [], Block ''jwt'' [''a''] [] []]]"]
  by (simp add: is_ac_def definition_label_def first_label_def)

text \<open>
  An endpoint without a label is not reported: the code takes the first of its labels and panics.
\<close>

theorem endpoint_without_label_panics:
  "validateBody eval False [Block ''server'' [] [] [Block ''endpoint'' [] as bs]] = Some (Panic ''index out of range'')"
  by (simp add: validateBody_def check_block_def getBasePath_def check_server_block_def registerEndpointPattern_def)

end
