(* ===== verification/Evaluation.thy ===== *)
theory Evaluation
  imports Seetie
begin

text \<open>
  The evaluation of configuration expressions (\<open>eval/value.go\<close>): an expression is cloned, its
  references to variables that do not exist are replaced by literals, and the result is evaluated.

  \<open>hcl_expr\<close> has the expressions of the syntax tree, with the names of the library's types; positions in the
  source and the marks of operators are left out, as nothing depends on them. The library's evaluation
  and its list of the variables of an expression are an argument, \<open>hcl_library\<close>. \<open>None\<close> is a panic.

  The code changes nodes in place. \<open>newLiteralValueExpr\<close> therefore yields two expressions: the one
  it returns and what its argument is afterwards; they differ where a node is replaced and not changed.
  \<open>clone\<close> marks the nodes of a copy that it did not copy, and \<open>original_after\<close> reads from these marks what the
  caller's expression is after an evaluation: the \<open>Each\<close> of a splat is shared with the copy, so a replacement
  in it is seen by every later evaluation.
\<close>

section \<open>Paths to variables\<close>

datatype trav_step = TraverseAttr string | TraverseIndex cty | TraverseSplat

type_synonym traversal = "string \<times> trav_step list"

type_synonym variables = "string \<Rightarrow> cty option"

abbreviation nil_val :: cty where
  "nil_val \<equiv> CNull TNil"

text \<open>\<open>HasIndex\<close> of a value that can be iterated, for a key of type number, and the test of its result.\<close>

definition index_below :: "rat \<Rightarrow> nat \<Rightarrow> bool" where
  "index_below i n \<longleftrightarrow> rat_of_int \<lfloor>i\<rfloor> = i \<and> 0 \<le> i \<and> nat \<lfloor>i\<rfloor> < n"

fun has_index :: "cty \<Rightarrow> cty \<Rightarrow> bool option" where
  "has_index (CList t vs) (CNumber i) = Some (index_below i (length vs))"
| "has_index (CTuple vs) (CNumber i) = Some (index_below i (length vs))"
| "has_index v k =
     (case (cty_type_of v, k) of
        (TMap t, _) \<Rightarrow> Some False
      | (TTuple ts, CNumber i) \<Rightarrow> Some (index_below i (length ts))
      | _ \<Rightarrow> None)"

text \<open>\<open>currentFn\<close>: the entry of an object or map.\<close>

definition entry_of :: "cty \<Rightarrow> string \<Rightarrow> cty option option" where
  "entry_of v name =
     (case cty_type_of v of
        TObject ts \<Rightarrow> map_option (\<lambda>m. map_of m name) (as_value_map v)
      | TMap t \<Rightarrow> map_option (\<lambda>m. map_of m name) (as_value_map v)
      | _ \<Rightarrow> Some None)"

fun walk :: "cty \<Rightarrow> cty \<Rightarrow> trav_step list \<Rightarrow> cty option" where
  "walk v fallback [] = Some v"
| "walk v fallback (TraverseAttr name # ts) =
     (case entry_of v name of
        None \<Rightarrow> None
      | Some None \<Rightarrow> Some fallback
      | Some (Some current) \<Rightarrow> walk current fallback ts)"
| "walk v fallback (TraverseIndex k # ts) =
     (if \<not> can_iterate v then Some fallback
      else (case cty_type_of k of
         TNumber \<Rightarrow>
           (case has_index v k of
              None \<Rightarrow> None
            | Some False \<Rightarrow> Some fallback
            | Some True \<Rightarrow>
                (if ts = [] then Some v
                 else (case (as_value_slice v, k) of
                         (Some vs, CNumber i) \<Rightarrow> walk (vs ! nat \<lfloor>i\<rfloor>) fallback ts
                       | _ \<Rightarrow> None)))
       | TString \<Rightarrow>
           (case k of
              CString s \<Rightarrow>
                (case entry_of v s of
                   None \<Rightarrow> None
                 | Some None \<Rightarrow> Some fallback
                 | Some (Some current) \<Rightarrow> (if ts = [] then Some v else walk current fallback ts))
            | _ \<Rightarrow> None)
       | _ \<Rightarrow> Some fallback))"
| "walk v fallback (TraverseSplat # ts) = None"

definition traversalValue :: "variables \<Rightarrow> traversal \<Rightarrow> cty option" where
  "traversalValue vars t =
     (case vars (fst t) of None \<Rightarrow> Some nil_val | Some v \<Rightarrow> walk v nil_val (snd t))"

section \<open>Expressions\<close>

text \<open>
  The symbol that a splat binds, or a copy of one, which no splat binds. What a copy of an expression shares with
  the original: a node, or also the field or slot of a slice that holds the node. \<open>SharedExpr\<close> is no expression of
  the library: it marks the shared nodes of a copy.
\<close>

datatype symbol = Sym nat | CopyOf symbol

datatype sharing = SameNode | SameSlot

datatype hcl_expr =
    ConditionalExpr hcl_expr hcl_expr hcl_expr
  | BinaryOpExpr string hcl_expr hcl_expr
  | ObjectConsKeyExpr bool hcl_expr
  | ObjectConsExpr "(hcl_expr \<times> hcl_expr) list"
  | TemplateExpr "hcl_expr list"
  | TemplateWrapExpr hcl_expr
  | ScopeTraversalExpr traversal
  | FunctionCallExpr string "hcl_expr list" bool
  | TupleConsExpr "hcl_expr list"
  | ForExpr string string hcl_expr "hcl_expr option" hcl_expr "hcl_expr option" bool
  | ParenthesesExpr hcl_expr
  | SplatExpr hcl_expr hcl_expr nat
  | IndexExpr hcl_expr hcl_expr
  | RelativeTraversalExpr hcl_expr "trav_step list"
  | UnaryOpExpr string hcl_expr
  | AnonSymbolExpr symbol
  | LiteralValueExpr cty
  | TemplateJoinExpr hcl_expr
  | SharedExpr sharing hcl_expr

record hcl_library =
  lib_value :: "variables \<Rightarrow> hcl_expr \<Rightarrow> (cty \<times> bool) option"
  lib_variables :: "hcl_expr \<Rightarrow> traversal list"

abbreviation empty_literal :: hcl_expr where
  "empty_literal \<equiv> LiteralValueExpr (CString [])"

text \<open>
  \<open>clone\<close>. The node of a splat and that of a \<open>for\<close> are copied as they are, with the nodes that
  their fields hold, and only the source and the collection are replaced by copies.
\<close>

fun clone :: "hcl_expr \<Rightarrow> hcl_expr option" where
  "clone (BinaryOpExpr p l r) =
     (case (clone l, clone r) of (Some l', Some r') \<Rightarrow> Some (BinaryOpExpr p l' r') | _ \<Rightarrow> None)"
| "clone (ConditionalExpr c t f) =
     (case (clone c, clone t, clone f) of
        (Some c', Some t', Some f') \<Rightarrow> Some (ConditionalExpr c' t' f') | _ \<Rightarrow> None)"
| "clone (ForExpr k v coll ke ve ce g) = 
     map_option (\<lambda>coll'. ForExpr k v coll' (map_option (SharedExpr SameNode) ke) (SharedExpr SameNode ve)
       (map_option (SharedExpr SameNode) ce) g) (clone coll)"
| "clone (FunctionCallExpr n args x) = map_option (\<lambda>args'. FunctionCallExpr n args' x) (those (map clone args))"
| "clone (ObjectConsExpr items) =
     map_option ObjectConsExpr
       (those (map (\<lambda>(k, v). case (clone k, clone v) of (Some k', Some v') \<Rightarrow> Some (k', v') | _ \<Rightarrow> None) items))"
| "clone (ObjectConsKeyExpr b w) = map_option (ObjectConsKeyExpr b) (clone w)"
| "clone (ParenthesesExpr e) = map_option ParenthesesExpr (clone e)"
| "clone (ScopeTraversalExpr t) = Some (ScopeTraversalExpr t)"
| "clone (TemplateExpr parts) = map_option TemplateExpr (those (map clone parts))"
| "clone (TemplateWrapExpr w) = map_option TemplateWrapExpr (clone w)"
| "clone (LiteralValueExpr v) = Some (LiteralValueExpr v)"
| "clone (TupleConsExpr es) = map_option TupleConsExpr (those (map clone es))"
| "clone (SplatExpr s e i) = map_option (\<lambda>s'. SplatExpr s' (SharedExpr SameNode e) i) (clone s)"
| "clone (IndexExpr c k) =
     (case (clone c, clone k) of (Some c', Some k') \<Rightarrow> Some (IndexExpr c' k') | _ \<Rightarrow> None)"
| "clone (RelativeTraversalExpr s t) = map_option (\<lambda>s'. RelativeTraversalExpr s' t) (clone s)"
| "clone (UnaryOpExpr p v) = map_option (UnaryOpExpr p) (clone v)"
| "clone (AnonSymbolExpr i) = Some (AnonSymbolExpr (CopyOf i))"
| "clone (TemplateJoinExpr t) = None"
| "clone (SharedExpr k e) = None"

text \<open>The copy without marks, as the library sees it, and the original that a copy was made from.\<close>

fun strip :: "(symbol \<Rightarrow> symbol) \<Rightarrow> hcl_expr \<Rightarrow> hcl_expr" where
  "strip g (BinaryOpExpr p l r) = BinaryOpExpr p (strip g l) (strip g r)"
| "strip g (ConditionalExpr c t f) = ConditionalExpr (strip g c) (strip g t) (strip g f)"
| "strip g (ForExpr k v coll ke ve ce b) =
     ForExpr k v (strip g coll) (map_option (strip g) ke) (strip g ve) (map_option (strip g) ce) b"
| "strip g (FunctionCallExpr n args x) = FunctionCallExpr n (map (strip g) args) x"
| "strip g (ObjectConsExpr items) = ObjectConsExpr (map (\<lambda>(k, v). (strip g k, strip g v)) items)"
| "strip g (ObjectConsKeyExpr b w) = ObjectConsKeyExpr b (strip g w)"
| "strip g (ParenthesesExpr e) = ParenthesesExpr (strip g e)"
| "strip g (ScopeTraversalExpr t) = ScopeTraversalExpr t"
| "strip g (TemplateExpr parts) = TemplateExpr (map (strip g) parts)"
| "strip g (TemplateWrapExpr w) = TemplateWrapExpr (strip g w)"
| "strip g (LiteralValueExpr v) = LiteralValueExpr v"
| "strip g (TupleConsExpr es) = TupleConsExpr (map (strip g) es)"
| "strip g (SplatExpr s e i) = SplatExpr (strip g s) (strip g e) i"
| "strip g (IndexExpr c k) = IndexExpr (strip g c) (strip g k)"
| "strip g (RelativeTraversalExpr s t) = RelativeTraversalExpr (strip g s) t"
| "strip g (UnaryOpExpr p v) = UnaryOpExpr p (strip g v)"
| "strip g (AnonSymbolExpr i) = AnonSymbolExpr (g i)"
| "strip g (TemplateJoinExpr t) = TemplateJoinExpr (strip g t)"
| "strip g (SharedExpr k e) = e"

fun original_symbol :: "symbol \<Rightarrow> symbol" where
  "original_symbol (CopyOf i) = i"
| "original_symbol (Sym n) = Sym n"

abbreviation unmarked :: "hcl_expr \<Rightarrow> hcl_expr" where
  "unmarked \<equiv> strip (\<lambda>i. i)"

abbreviation origin_of :: "hcl_expr \<Rightarrow> hcl_expr" where
  "origin_of \<equiv> strip original_symbol"

section \<open>Replacement of missing variables\<close>

text \<open>Whether one of the variables of a key is missing; the search stops at the first one.\<close>

fun any_missing :: "variables \<Rightarrow> traversal list \<Rightarrow> bool option" where
  "any_missing vars [] = Some False"
| "any_missing vars (t # ts) =
     (case traversalValue vars t of
        None \<Rightarrow> None
      | Some v \<Rightarrow> if v = nil_val then Some True else any_missing vars ts)"

definition replaced_key :: "hcl_library \<Rightarrow> variables \<Rightarrow> hcl_expr \<Rightarrow> hcl_expr option" where
  "replaced_key lib vars key =
     map_option (\<lambda>m. if m then empty_literal else unmarked key) (any_missing vars (lib_variables lib (unmarked key)))"

text \<open>The branch that a condition with the given value and diagnostics takes: \<open>None\<close> is the panic of
  \<open>False\<close> for an unknown value, \<open>Some None\<close> the return of the expression as it is.\<close>

fun branch_of :: "cty \<times> bool \<Rightarrow> bool option option" where
  "branch_of (v, failed) =
     (if cty_type_of v \<noteq> TBool \<or> failed then Some None
      else (case v of CBool b \<Rightarrow> Some (Some b) | CNull t \<Rightarrow> Some (Some False) | _ \<Rightarrow> None))"

definition template_literal :: "cty \<Rightarrow> hcl_expr" where
  "template_literal c = (if is_null c then empty_literal else LiteralValueExpr c)"

fun newLiteralValueExpr :: "hcl_library \<Rightarrow> variables \<Rightarrow> hcl_expr \<Rightarrow> (hcl_expr \<times> hcl_expr) option" where
  "newLiteralValueExpr lib vars (ConditionalExpr c t f) =
     (case newLiteralValueExpr lib vars c of
        None \<Rightarrow> None
      | Some (cond, c') \<Rightarrow>
         (case Option.bind (lib_value lib vars cond) branch_of of
            None \<Rightarrow> None
          | Some None \<Rightarrow> Some (unmarked (ConditionalExpr c' t f), ConditionalExpr c' t f)
          | Some (Some False) \<Rightarrow> map_option (\<lambda>(r, f'). (r, ConditionalExpr c' t f')) (newLiteralValueExpr lib vars f)
          | Some (Some True) \<Rightarrow> map_option (\<lambda>(r, t'). (r, ConditionalExpr c' t' f)) (newLiteralValueExpr lib vars t)))"
| "newLiteralValueExpr lib vars (BinaryOpExpr p l r) =
     (case (newLiteralValueExpr lib vars l, newLiteralValueExpr lib vars r) of
        (Some (l', _), Some (r', _)) \<Rightarrow> Some (BinaryOpExpr p l' r', BinaryOpExpr p l' r')
      | _ \<Rightarrow> None)"
| "newLiteralValueExpr lib vars (ObjectConsKeyExpr b w) =
     map_option (\<lambda>(w', _). (ObjectConsKeyExpr b w', ObjectConsKeyExpr b w')) (newLiteralValueExpr lib vars w)"
| "newLiteralValueExpr lib vars (ObjectConsExpr items) =
     map_option (\<lambda>items'. (ObjectConsExpr items', ObjectConsExpr items'))
       (those (map (\<lambda>(k, v). case (replaced_key lib vars k, newLiteralValueExpr lib vars v) of
                               (Some k', Some (v', _)) \<Rightarrow> Some (k', v') | _ \<Rightarrow> None) items))"
| "newLiteralValueExpr lib vars (TemplateExpr parts) =
     (case those (map (newLiteralValueExpr lib vars) parts) of
        None \<Rightarrow> None
      | Some ps \<Rightarrow>
          (let e = TemplateExpr (map fst ps) in map_option (\<lambda>(c, _). (template_literal c, e)) (lib_value lib vars e)))"
| "newLiteralValueExpr lib vars (TemplateWrapExpr w) =
     map_option (\<lambda>(w', _). (TemplateWrapExpr w', TemplateWrapExpr w')) (newLiteralValueExpr lib vars w)"
| "newLiteralValueExpr lib vars (ScopeTraversalExpr t) =
     map_option (\<lambda>v. (if v = nil_val then LiteralValueExpr nil_val else ScopeTraversalExpr t, ScopeTraversalExpr t))
       (traversalValue vars t)"
| "newLiteralValueExpr lib vars (FunctionCallExpr n args x) =
     map_option (\<lambda>ps. (FunctionCallExpr n (map fst ps) x, FunctionCallExpr n (map fst ps) x))
       (those (map (newLiteralValueExpr lib vars) args))"
| "newLiteralValueExpr lib vars (TupleConsExpr es) =
     map_option (\<lambda>ps. (TupleConsExpr (map fst ps), TupleConsExpr (map fst ps)))
       (those (map (newLiteralValueExpr lib vars) es))"
| "newLiteralValueExpr lib vars (ForExpr k v coll ke ve ce g) =
     map_option (\<lambda>(coll', _). let e = ForExpr k v coll' (map_option unmarked ke) (unmarked ve) (map_option unmarked ce) g in (e, e))
       (newLiteralValueExpr lib vars coll)"
| "newLiteralValueExpr lib vars (ParenthesesExpr e) =
     map_option (\<lambda>(e', _). (ParenthesesExpr e', ParenthesesExpr e')) (newLiteralValueExpr lib vars e)"
| "newLiteralValueExpr lib vars (SplatExpr s e i) =
     (case (newLiteralValueExpr lib vars e, newLiteralValueExpr lib vars s) of
        (Some (e', _), Some (s', _)) \<Rightarrow> Some (SplatExpr s' e' i, SplatExpr s' e' i)
      | _ \<Rightarrow> None)"
| "newLiteralValueExpr lib vars (IndexExpr c k) =
     (case (newLiteralValueExpr lib vars c, newLiteralValueExpr lib vars k) of
        (Some (c', _), Some (k', _)) \<Rightarrow> Some (IndexExpr c' k', IndexExpr c' k')
      | _ \<Rightarrow> None)"
| "newLiteralValueExpr lib vars (RelativeTraversalExpr s t) =
     map_option (\<lambda>(s', _). (RelativeTraversalExpr s' t, RelativeTraversalExpr s' t)) (newLiteralValueExpr lib vars s)"
| "newLiteralValueExpr lib vars (UnaryOpExpr p v) =
     map_option (\<lambda>(v', _). (UnaryOpExpr p v', UnaryOpExpr p v')) (newLiteralValueExpr lib vars v)"
| "newLiteralValueExpr lib vars (AnonSymbolExpr i) = Some (AnonSymbolExpr i, AnonSymbolExpr i)"
| "newLiteralValueExpr lib vars (LiteralValueExpr v) = Some (LiteralValueExpr v, LiteralValueExpr v)"
| "newLiteralValueExpr lib vars (TemplateJoinExpr t) = None"
| "newLiteralValueExpr lib vars (SharedExpr k e) = map_option (\<lambda>(r, n). (r, SharedExpr k n)) (newLiteralValueExpr lib vars e)"

section \<open>Evaluation\<close>

text \<open>\<open>Value\<close>, with whether the diagnostics had errors. An expression that is not one of the native syntax
  is evaluated as it is.\<close>

datatype any_expr = NativeExpr hcl_expr | OtherExpr nat

definition Value_of :: "hcl_library \<Rightarrow> (nat \<Rightarrow> (cty \<times> bool) option) \<Rightarrow> variables \<Rightarrow> any_expr \<Rightarrow> (cty \<times> bool) option" where
  "Value_of lib other vars x =
     (case x of
        OtherExpr n \<Rightarrow> other n
      | NativeExpr e \<Rightarrow>
          (case clone e of
             None \<Rightarrow> None
           | Some e' \<Rightarrow>
              (case newLiteralValueExpr lib vars e' of
                 None \<Rightarrow> None
               | Some (r, _) \<Rightarrow> lib_value lib vars r)))"

abbreviation Value :: "hcl_library \<Rightarrow> variables \<Rightarrow> hcl_expr \<Rightarrow> (cty \<times> bool) option" where
  "Value lib vars e \<equiv> Value_of lib (\<lambda>_. None) vars (NativeExpr e)"

definition ValueFromBodyAttribute ::
  "hcl_library \<Rightarrow> variables \<Rightarrow> (string \<Rightarrow> hcl_expr option) option \<Rightarrow> string \<Rightarrow> (cty \<times> bool) option" where
  "ValueFromBodyAttribute lib vars body name =
     (case body of
        None \<Rightarrow> Some (nil_val, False)
      | Some attrs \<Rightarrow>
          (case attrs name of None \<Rightarrow> Some (nil_val, False) | Some e \<Rightarrow> Value lib vars e))"

text \<open>
  What the caller's expression is after an evaluation of its copy that returns. Where the copy has nodes of its own the
  original keeps its nodes; a node that both have is what it became, and a slot that both have holds what was put there.
\<close>

fun original_after :: "hcl_library \<Rightarrow> variables \<Rightarrow> hcl_expr \<Rightarrow> hcl_expr option" where
  "original_after lib vars (SharedExpr k e) =
     map_option (\<lambda>(r, n). case k of SameNode \<Rightarrow> n | SameSlot \<Rightarrow> r) (newLiteralValueExpr lib vars e)"
| "original_after lib vars (ConditionalExpr c t f) =
     (case (original_after lib vars c, newLiteralValueExpr lib vars c) of
        (Some c0, Some (cond, _)) \<Rightarrow>
          (case Option.bind (lib_value lib vars cond) branch_of of
             None \<Rightarrow> None
           | Some None \<Rightarrow> Some (ConditionalExpr c0 (origin_of t) (origin_of f))
           | Some (Some False) \<Rightarrow> map_option (ConditionalExpr c0 (origin_of t)) (original_after lib vars f)
           | Some (Some True) \<Rightarrow> map_option (\<lambda>t0. ConditionalExpr c0 t0 (origin_of f)) (original_after lib vars t))
      | _ \<Rightarrow> None)"
| "original_after lib vars (BinaryOpExpr p l r) =
     (case (original_after lib vars l, original_after lib vars r) of
        (Some l0, Some r0) \<Rightarrow> Some (BinaryOpExpr p l0 r0) | _ \<Rightarrow> None)"
| "original_after lib vars (ObjectConsKeyExpr b w) = map_option (ObjectConsKeyExpr b) (original_after lib vars w)"
| "original_after lib vars (ObjectConsExpr items) =
     map_option ObjectConsExpr (those (map (\<lambda>(k, v). map_option (Pair (origin_of k)) (original_after lib vars v)) items))"
| "original_after lib vars (TemplateExpr parts) = map_option TemplateExpr (those (map (original_after lib vars) parts))"
| "original_after lib vars (TemplateWrapExpr w) = map_option TemplateWrapExpr (original_after lib vars w)"
| "original_after lib vars (FunctionCallExpr n args x) =
     map_option (\<lambda>args0. FunctionCallExpr n args0 x) (those (map (original_after lib vars) args))"
| "original_after lib vars (TupleConsExpr es) = map_option TupleConsExpr (those (map (original_after lib vars) es))"
| "original_after lib vars (ForExpr k v coll ke ve ce g) =
     map_option (\<lambda>coll0. ForExpr k v coll0 (map_option origin_of ke) (origin_of ve) (map_option origin_of ce) g)
       (original_after lib vars coll)"
| "original_after lib vars (ParenthesesExpr e) = map_option ParenthesesExpr (original_after lib vars e)"
| "original_after lib vars (SplatExpr s e i) =
     (case (original_after lib vars e, original_after lib vars s) of
        (Some e0, Some s0) \<Rightarrow> Some (SplatExpr s0 e0 i) | _ \<Rightarrow> None)"
| "original_after lib vars (IndexExpr c k) =
     (case (original_after lib vars c, original_after lib vars k) of
        (Some c0, Some k0) \<Rightarrow> Some (IndexExpr c0 k0) | _ \<Rightarrow> None)"
| "original_after lib vars (RelativeTraversalExpr s t) =
     map_option (\<lambda>s0. RelativeTraversalExpr s0 t) (original_after lib vars s)"
| "original_after lib vars (UnaryOpExpr p v) = map_option (UnaryOpExpr p) (original_after lib vars v)"
| "original_after lib vars (TemplateJoinExpr t) = None"
| "original_after lib vars (ScopeTraversalExpr t) = Some (ScopeTraversalExpr t)"
| "original_after lib vars (LiteralValueExpr v) = Some (LiteralValueExpr v)"
| "original_after lib vars (AnonSymbolExpr i) = Some (origin_of (AnonSymbolExpr i))"

definition after_evaluation :: "hcl_library \<Rightarrow> variables \<Rightarrow> hcl_expr \<Rightarrow> hcl_expr option" where
  "after_evaluation lib vars e = Option.bind (clone e) (original_after lib vars)"

text \<open>The values of one expression in one context after the other, with its state passed on.\<close>

fun evaluations :: "hcl_library \<Rightarrow> variables list \<Rightarrow> hcl_expr \<Rightarrow> (cty \<times> bool) list option" where
  "evaluations lib [] e = Some []"
| "evaluations lib (vars # vss) e =
     (case (Value lib vars e, after_evaluation lib vars e) of
        (Some r, Some e0) \<Rightarrow> map_option (Cons r) (evaluations lib vss e0)
      | _ \<Rightarrow> None)"

section \<open>No missing variable is left\<close>

text \<open>
  A position that the library evaluates in the context holds a reference to a missing variable.
  A conditional is left by the replacement only if its condition is not a truth value; its parts
  are not looked at.
\<close>

fun unresolved :: "hcl_library \<Rightarrow> variables \<Rightarrow> hcl_expr \<Rightarrow> bool" where
  "unresolved lib vars (BinaryOpExpr p l r) \<longleftrightarrow> unresolved lib vars l \<or> unresolved lib vars r"
| "unresolved lib vars (ObjectConsKeyExpr b w) \<longleftrightarrow> unresolved lib vars w"
| "unresolved lib vars (ObjectConsExpr items) \<longleftrightarrow>
     list_ex (\<lambda>(k, v). (k \<noteq> empty_literal \<and> any_missing vars (lib_variables lib k) \<noteq> Some False) \<or> unresolved lib vars v) items"
| "unresolved lib vars (TemplateExpr parts) \<longleftrightarrow> list_ex (unresolved lib vars) parts"
| "unresolved lib vars (TemplateWrapExpr w) \<longleftrightarrow> unresolved lib vars w"
| "unresolved lib vars (ScopeTraversalExpr t) \<longleftrightarrow> traversalValue vars t \<in> {None, Some nil_val}"
| "unresolved lib vars (FunctionCallExpr n args x) \<longleftrightarrow> list_ex (unresolved lib vars) args"
| "unresolved lib vars (TupleConsExpr es) \<longleftrightarrow> list_ex (unresolved lib vars) es"
| "unresolved lib vars (ForExpr k v coll ke ve ce g) \<longleftrightarrow> unresolved lib vars coll"
| "unresolved lib vars (ParenthesesExpr e) \<longleftrightarrow> unresolved lib vars e"
| "unresolved lib vars (SplatExpr s e i) \<longleftrightarrow> unresolved lib vars s \<or> unresolved lib vars e"
| "unresolved lib vars (IndexExpr c k) \<longleftrightarrow> unresolved lib vars c \<or> unresolved lib vars k"
| "unresolved lib vars (RelativeTraversalExpr s t) \<longleftrightarrow> unresolved lib vars s"
| "unresolved lib vars (UnaryOpExpr p v) \<longleftrightarrow> unresolved lib vars v"
| "unresolved lib vars _ \<longleftrightarrow> False"

lemma those_Some: "those xs = Some ys \<longleftrightarrow> xs = map Some ys"
proof (induction xs arbitrary: ys)
  case (Cons x xs)
  then show ?case by (cases x; cases ys) auto
qed auto

lemma those_list_all2:
  "those (map f xs) = Some ys \<longleftrightarrow> list_all2 (\<lambda>x y. f x = Some y) xs ys"
  by (auto simp: those_Some list_all2_conv_all_nth list_eq_iff_nth_eq)

lemma those_parts:
  assumes "those (map f xs) = Some ys"
  shows "list_ex P (map g ys) \<Longrightarrow> \<exists>x\<in>set xs. \<exists>y. f x = Some y \<and> P (g y)"
    and "x \<in> set xs \<Longrightarrow> \<exists>y\<in>set ys. f x = Some y"
  using assms by (fastforce simp: those_list_all2 list_all2_conv_all_nth list_ex_iff in_set_conv_nth)+

lemma those_exists:
  "those (map f xs) = Some ys \<Longrightarrow> list_ex P ys \<Longrightarrow> \<exists>x\<in>set xs. \<exists>y. f x = Some y \<and> P y"
  using those_parts(1)[where g = "\<lambda>y. y"] by simp

lemma replaced_key_resolved:
  "replaced_key lib vars k = Some k' \<Longrightarrow> k' = empty_literal \<or> any_missing vars (lib_variables lib k') = Some False"
  by (auto simp: replaced_key_def)

lemma literal_resolved:
  "newLiteralValueExpr lib vars e = Some (r, n) \<Longrightarrow> \<not> unresolved lib vars r"
proof (induction lib vars e arbitrary: r n rule: newLiteralValueExpr.induct)
  case (4 lib vars items)
  then show ?case
    by (fastforce split: option.splits prod.splits dest!: replaced_key_resolved dest: those_exists)
qed (auto split: option.splits bool.splits if_splits simp: template_literal_def Let_def dest!: those_parts(1))

section \<open>Expressions are evaluated more than once\<close>

text \<open>A path from the symbol of a splat, which refers to no variable.\<close>

fun symbol_path :: "hcl_expr \<Rightarrow> bool" where
  "symbol_path (AnonSymbolExpr i) \<longleftrightarrow> True"
| "symbol_path (RelativeTraversalExpr s t) \<longleftrightarrow> symbol_path s"
| "symbol_path (IndexExpr c (LiteralValueExpr v)) \<longleftrightarrow> symbol_path c"
| "symbol_path (SplatExpr s e i) \<longleftrightarrow> symbol_path s \<and> symbol_path e"
| "symbol_path _ \<longleftrightarrow> False"

fun reusable :: "hcl_expr \<Rightarrow> bool" where
  "reusable (ConditionalExpr c t f) \<longleftrightarrow> reusable c \<and> reusable t \<and> reusable f"
| "reusable (BinaryOpExpr p l r) \<longleftrightarrow> reusable l \<and> reusable r"
| "reusable (ObjectConsKeyExpr b w) \<longleftrightarrow> reusable w"
| "reusable (ObjectConsExpr items) \<longleftrightarrow> list_all (\<lambda>(k, v). reusable v) items"
| "reusable (TemplateExpr parts) \<longleftrightarrow> list_all reusable parts"
| "reusable (TemplateWrapExpr w) \<longleftrightarrow> reusable w"
| "reusable (FunctionCallExpr n args x) \<longleftrightarrow> list_all reusable args"
| "reusable (TupleConsExpr es) \<longleftrightarrow> list_all reusable es"
| "reusable (ForExpr k v coll ke ve ce g) \<longleftrightarrow> reusable coll"
| "reusable (ParenthesesExpr e) \<longleftrightarrow> reusable e"
| "reusable (SplatExpr s e i) \<longleftrightarrow> reusable s \<and> symbol_path e"
| "reusable (IndexExpr c k) \<longleftrightarrow> reusable c \<and> reusable k"
| "reusable (RelativeTraversalExpr s t) \<longleftrightarrow> reusable s"
| "reusable (UnaryOpExpr p v) \<longleftrightarrow> reusable v"
| "reusable _ \<longleftrightarrow> True"

lemma symbol_path_kept:
  "symbol_path e \<Longrightarrow> newLiteralValueExpr lib vars e = Some (e, e)"
  by (induction e rule: symbol_path.induct) auto

lemma those_back:
  assumes "those (map f xs) = Some ys" "\<And>x y. x \<in> set xs \<Longrightarrow> y \<in> set ys \<Longrightarrow> f x = Some y \<Longrightarrow> h y = Some x"
  shows "those (map h ys) = Some xs"
  using assms by (simp add: those_list_all2 list_all2_conv_all_nth)

lemma map_back:
  assumes "those (map f xs) = Some ys" "\<And>x y. x \<in> set xs \<Longrightarrow> f x = Some y \<Longrightarrow> h y = x"
  shows "map h ys = xs"
  using assms by (auto simp: those_list_all2 list_all2_conv_all_nth intro!: nth_equalityI)

lemma origin_of_copy: "clone e = Some c \<Longrightarrow> origin_of c = e"
proof (induction e arbitrary: c)
  case (ObjectConsExpr items)
  then obtain ys where ys: "c = ObjectConsExpr ys"
    "those (map (\<lambda>(k, v). case (clone k, clone v) of (Some k', Some v') \<Rightarrow> Some (k', v') | _ \<Rightarrow> None) items) = Some ys"
    by auto
  have "map (\<lambda>(k, v). (origin_of k, origin_of v)) ys = items"
    by (rule map_back[OF ys(2)]) (use ObjectConsExpr.IH in \<open>fastforce split: option.splits prod.splits\<close>)
  then show ?case by (simp add: ys(1))
next
  case (TemplateExpr parts)
  then show ?case by (auto intro!: map_back)
next
  case (FunctionCallExpr n args x)
  then show ?case by (auto intro!: map_back)
next
  case (TupleConsExpr es)
  then show ?case by (auto intro!: map_back)
qed (auto split: option.splits simp: option.map_comp comp_def option.map_ident)

lemma originals_kept:
  assumes "those (map clone es) = Some cs" "those (map (newLiteralValueExpr lib vars) cs) = Some ps"
    and "\<And>e c r. e \<in> set es \<Longrightarrow> clone e = Some c \<Longrightarrow> newLiteralValueExpr lib vars c = Some r \<Longrightarrow> original_after lib vars c = Some e"
  shows "those (map (original_after lib vars) cs) = Some es"
proof (rule those_back[OF assms(1)])
  fix e c assume e: "e \<in> set es" and c: "c \<in> set cs" "clone e = Some c"
  obtain r where "newLiteralValueExpr lib vars c = Some r" using those_parts(2)[OF assms(2) c(1)] by blast
  from assms(3)[OF e c(2) this] show "original_after lib vars c = Some e" .
qed

text \<open>A copy whose replacement returns leaves a reusable original as it was.\<close>

lemma original_kept:
  assumes "reusable e" and "clone e = Some c" and "newLiteralValueExpr lib vars c = Some rn"
  shows "original_after lib vars c = Some e"
  using assms
proof (induction e arbitrary: c rn)
  case (ObjectConsExpr items)
  then obtain ys where ys: "c = ObjectConsExpr ys"
    "those (map (\<lambda>(k, v). case (clone k, clone v) of (Some k', Some v') \<Rightarrow> Some (k', v') | _ \<Rightarrow> None) items) = Some ys"
    by auto
  have "those (map (\<lambda>(k, v). map_option (Pair (origin_of k)) (original_after lib vars v)) ys) = Some items"
  proof (rule those_back[OF ys(2)])
    fix x y assume x: "x \<in> set items" and y: "y \<in> set ys"
      and c: "(case x of (k, v) \<Rightarrow> case (clone k, clone v) of (Some k', Some v') \<Rightarrow> Some (k', v') | _ \<Rightarrow> None) = Some y"
    obtain k v where kv: "x = (k, v)" by (cases x)
    with c obtain k' v' where y': "y = (k', v')" "clone k = Some k'" "clone v = Some v'" by (auto split: option.splits)
    obtain r where "newLiteralValueExpr lib vars v' = Some r"
      using ObjectConsExpr.prems(3) y unfolding ys(1) y'(1) by (fastforce split: option.splits prod.splits dest: those_parts(2))
    then have "original_after lib vars v' = Some v"
      using ObjectConsExpr.IH[OF x, of v v' r] ObjectConsExpr.prems(1) x y'(3) by (auto simp: kv list_all_iff)
    then show "(case y of (k, v) \<Rightarrow> map_option (Pair (origin_of k)) (original_after lib vars v)) = Some x"
      by (simp add: y'(1) kv origin_of_copy[OF y'(2)])
  qed
  then show ?case by (simp add: ys(1))
next
  case (TemplateExpr parts)
  then obtain cs ps where "c = TemplateExpr cs" "those (map clone parts) = Some cs" "those (map (newLiteralValueExpr lib vars) cs) = Some ps"
    by (auto split: option.splits)
  with originals_kept[OF this(2,3)] TemplateExpr.IH TemplateExpr.prems(1) show ?case by (simp add: list_all_iff)
next
  case (FunctionCallExpr n args x)
  then obtain cs ps where "c = FunctionCallExpr n cs x" "those (map clone args) = Some cs" "those (map (newLiteralValueExpr lib vars) cs) = Some ps"
    by (auto split: option.splits)
  with originals_kept[OF this(2,3)] FunctionCallExpr.IH FunctionCallExpr.prems(1) show ?case by (simp add: list_all_iff)
next
  case (TupleConsExpr es)
  then obtain cs ps where "c = TupleConsExpr cs" "those (map clone es) = Some cs" "those (map (newLiteralValueExpr lib vars) cs) = Some ps"
    by (auto split: option.splits)
  with originals_kept[OF this(2,3)] TupleConsExpr.IH TupleConsExpr.prems(1) show ?case by (simp add: list_all_iff)
next
  case (ConditionalExpr e1 e2 e3)
  from ConditionalExpr.prems(2) obtain c1 c2 c3 where c: "clone e1 = Some c1" "clone e2 = Some c2" "clone e3 = Some c3"
      "c = ConditionalExpr c1 c2 c3"
    by (auto split: option.splits)
  from ConditionalExpr.prems(3) obtain cond m where m: "newLiteralValueExpr lib vars c1 = Some (cond, m)"
    by (auto simp: c(4) split: option.splits)
  have "original_after lib vars c1 = Some e1" using ConditionalExpr.IH(1)[OF _ c(1) m] ConditionalExpr.prems(1) by simp
  then show ?case
    using ConditionalExpr.prems(1,3) ConditionalExpr.IH(2)[OF _ c(2)] ConditionalExpr.IH(3)[OF _ c(3)]
    by (auto simp: c(4) m origin_of_copy[OF c(2)] origin_of_copy[OF c(3)] split: option.splits bool.splits)
qed (auto split: option.splits bool.splits prod.splits simp: symbol_path_kept option.map_comp comp_def option.map_ident)

lemma Value_original:
  assumes "reusable e" and "Value lib vars e = Some v"
  shows "after_evaluation lib vars e = Some e"
  using assms(2) original_kept[OF assms(1)] by (auto simp: Value_of_def after_evaluation_def split: option.splits prod.splits)

text \<open>
  Property C40: an expression gives in each context the value it gives when it is evaluated there
  only, however many contexts it has been evaluated in before, if the splats in it refer to no variable.
\<close>

theorem evaluations_independent:
  assumes "reusable e"
  shows "evaluations lib vss e = those (map (\<lambda>vars. Value lib vars e) vss)"
  by (induction vss) (auto simp: Value_original[OF assms] split: option.splits)

text \<open>
  What the library evaluates for an expression refers to no missing variable, outside of
  conditionals whose condition is not a truth value and of the element part of \<open>for\<close> expressions.
\<close>

theorem missing_variables_replaced:
  assumes "clone e = Some e'" and "newLiteralValueExpr lib vars e' = Some (r, n)"
  shows "Value lib vars e = lib_value lib vars r \<and> \<not> unresolved lib vars r"
  using assms literal_resolved[OF assms(2)] by (simp add: Value_of_def)

section \<open>Conditionals\<close>

text \<open>
  A conditional with a condition that is true or false has the value of the chosen branch,
  whatever the other branch refers to.
\<close>

theorem conditional_value:
  assumes "Value lib vars c = Some (CBool b, False)" and "clone t \<noteq> None" and "clone f \<noteq> None"
  shows "Value lib vars (ConditionalExpr c t f) = Value lib vars (if b then t else f)"
  using assms by (cases b) (auto simp: Value_of_def split: option.splits prod.splits)

section \<open>References\<close>

text \<open>The names of a path, and the lookup of names in a value as the code's documentation has it.\<close>

fun step_names :: "trav_step list \<Rightarrow> string list option" where
  "step_names [] = Some []"
| "step_names (TraverseAttr n # ts) = map_option (Cons n) (step_names ts)"
| "step_names (TraverseIndex (CString n) # ts) = map_option (Cons n) (step_names ts)"
| "step_names (t # ts) = None"

fun named_entries :: "cty \<Rightarrow> (string \<times> cty) list" where
  "named_entries (CMap t kvs) = kvs"
| "named_entries (CObject kvs) = kvs"
| "named_entries _ = []"

fun at_path :: "cty \<Rightarrow> string list \<Rightarrow> cty option" where
  "at_path v [] = Some v"
| "at_path v (n # ns) = (case map_of (named_entries v) n of None \<Rightarrow> None | Some w \<Rightarrow> at_path w ns)"

text \<open>No map or object in the value is null or unknown.\<close>

fun keyed_type :: "cty_type \<Rightarrow> bool" where
  "keyed_type (TMap t) \<longleftrightarrow> True"
| "keyed_type (TObject ts) \<longleftrightarrow> True"
| "keyed_type _ \<longleftrightarrow> False"

fun keyed_known :: "cty \<Rightarrow> bool" where
  "keyed_known (CNull t) \<longleftrightarrow> \<not> keyed_type t"
| "keyed_known (CUnknown t) \<longleftrightarrow> \<not> keyed_type t"
| "keyed_known (CMap t kvs) \<longleftrightarrow> list_all (\<lambda>(k, v). keyed_known v) kvs"
| "keyed_known (CObject kvs) \<longleftrightarrow> list_all (\<lambda>(k, v). keyed_known v) kvs"
| "keyed_known _ \<longleftrightarrow> True"

lemma entry_of_known: "keyed_known v \<Longrightarrow> entry_of v n = Some (map_of (named_entries v) n)"
  by (cases v) (auto simp: entry_of_def split: cty_type.splits)

lemma entry_known:
  assumes "keyed_known v" and "map_of (named_entries v) n = Some w"
  shows "keyed_known w \<and> can_iterate v \<and> v \<noteq> nil_val"
  using assms by (cases v) (auto simp: list_all_iff can_iterate_def dest!: map_of_SomeD)

lemma step_names_Cons:
  "step_names (t # ts) = Some ns \<longleftrightarrow>
     (\<exists>n ms. (t = TraverseAttr n \<or> t = TraverseIndex (CString n)) \<and> step_names ts = Some ms \<and> ns = n # ms)"
proof (cases t)
  case (TraverseIndex k)
  then show ?thesis by (cases k) auto
qed auto

lemma walk_named:
  assumes "keyed_known v" and "t = TraverseAttr n \<or> t = TraverseIndex (CString n)"
  shows "walk v fb (t # ts) =
    (case map_of (named_entries v) n of
       None \<Rightarrow> Some fb
     | Some w \<Rightarrow> if t \<noteq> TraverseAttr n \<and> ts = [] then Some v else walk w fb ts)"
  using assms by (auto simp: entry_of_known split: option.splits dest: entry_known)

lemma walk_absent:
  assumes "keyed_known v" and "step_names ts = Some ns" and "at_path v ns = None"
  shows "walk v fb ts = Some fb"
  using assms
proof (induction ts arbitrary: v ns)
  case (Cons t ts)
  then obtain n ms where t: "t = TraverseAttr n \<or> t = TraverseIndex (CString n)"
      and ms: "step_names ts = Some ms" and ns: "ns = n # ms"
    by (auto simp: step_names_Cons)
  show ?case
    using Cons.prems Cons.IH[OF _ ms] entry_known[OF Cons.prems(1)] ms
    unfolding walk_named[OF Cons.prems(1) t] ns by (auto split: option.splits)
qed simp

lemma walk_present:
  assumes "keyed_known v" and "step_names ts = Some ns" and "at_path v ns = Some w" and "w \<noteq> nil_val"
  shows "\<exists>x. walk v fb ts = Some x \<and> x \<noteq> nil_val"
  using assms
proof (induction ts arbitrary: v ns)
  case (Cons t ts)
  then obtain n ms where t: "t = TraverseAttr n \<or> t = TraverseIndex (CString n)"
      and ms: "step_names ts = Some ms" and ns: "ns = n # ms"
    by (auto simp: step_names_Cons)
  show ?case
    using Cons.prems Cons.IH[OF _ ms] entry_known[OF Cons.prems(1)] ms
    unfolding walk_named[OF Cons.prems(1) t] ns by (auto split: option.splits)
qed simp

text \<open>
  Property C29: a reference by names, as attributes or as keys, to something absent has no value and is no error, at
  whatever depth the path breaks off; a reference to a value that is there is left to the library. It never panics
  where no map or object is null.
\<close>

theorem absent_reference_is_nil:
  assumes "vars name = Some v" and "keyed_known v" and "step_names ts = Some ns"
    and "\<And>w. lib_value lib vars (LiteralValueExpr w) = Some (w, False)"
  shows "(at_path v ns = None \<longrightarrow> Value lib vars (ScopeTraversalExpr (name, ts)) = Some (nil_val, False)) \<and>
    (\<forall>w. at_path v ns = Some w \<and> w \<noteq> nil_val \<longrightarrow>
       Value lib vars (ScopeTraversalExpr (name, ts)) = lib_value lib vars (ScopeTraversalExpr (name, ts)))"
  using assms walk_absent[OF assms(2,3), of nil_val] walk_present[OF assms(2,3), of _ nil_val]
  by (auto simp: Value_of_def traversalValue_def)

text \<open>A template with a loop has a part that \<open>clone\<close> does not know.\<close>

lemma those_None: "those (xs @ None # ys) = None"
  by (induction xs) (auto split: option.splits)

theorem template_loop_panics:
  "Value lib vars (TemplateExpr (ps @ TemplateJoinExpr l # qs)) = None"
  by (simp add: Value_of_def those_None)

text \<open>A number as the key of an object panics.\<close>

theorem object_index_panics:
  "walk (CObject kvs) fb (TraverseIndex (CNumber i) # ts) = None"
  by (simp add: can_iterate_def)

text \<open>
  A missing variable in the key of a splat's element is replaced for good: a later evaluation does not
  see the variable.
\<close>

theorem splat_keeps_replacement:
  assumes "vars ''items'' = Some v" and "v \<noteq> nil_val" and "vars ''name'' = None"
  shows "after_evaluation lib vars
      (SplatExpr (ScopeTraversalExpr (''items'', [])) (IndexExpr (AnonSymbolExpr (Sym 0)) (ScopeTraversalExpr (''name'', []))) 0) =
    Some (SplatExpr (ScopeTraversalExpr (''items'', [])) (IndexExpr (AnonSymbolExpr (Sym 0)) (LiteralValueExpr nil_val)) 0)"
  using assms by (simp add: traversalValue_def after_evaluation_def)

section \<open>Witnesses\<close>

text \<open>A library that knows literals and references, and a request without the header that is referred to.\<close>

definition demo_library :: hcl_library where
  "demo_library = \<lparr>lib_value = (\<lambda>vars e. case e of
       LiteralValueExpr v \<Rightarrow> Some (v, False)
     | ScopeTraversalExpr t \<Rightarrow> map_option (\<lambda>v. (v, v = nil_val)) (traversalValue vars t)
     | _ \<Rightarrow> Some (CUnknown TDyn, True)), lib_variables = (\<lambda>e. case e of ScopeTraversalExpr t \<Rightarrow> [t] | _ \<Rightarrow> [])\<rparr>"

definition demo_vars :: variables where
  "demo_vars = [''request'' \<mapsto> CObject [(''headers'', CMap TString [(''host'', CString ''h'')]), (''flag'', CBool True)]]"

definition demo_missing :: hcl_expr where
  "demo_missing = ScopeTraversalExpr (''request'', [TraverseAttr ''headers'', TraverseAttr ''x''])"

lemma evaluations_independent_witness:
  "reusable (SplatExpr demo_missing (AnonSymbolExpr (Sym 0)) 0) \<and>
   evaluations demo_library [Map.empty, demo_vars] (SplatExpr demo_missing (AnonSymbolExpr (Sym 0)) 0) =
     Some [(CUnknown TDyn, True), (CUnknown TDyn, True)]"
  using evaluations_independent[of "SplatExpr demo_missing (AnonSymbolExpr (Sym 0)) 0" demo_library "[Map.empty, demo_vars]"]
  by (simp add: demo_missing_def demo_library_def demo_vars_def Value_of_def traversalValue_def entry_of_def after_evaluation_def)

lemma missing_variables_replaced_witness:
  "Value demo_library demo_vars (FunctionCallExpr ''f'' [demo_missing] False) =
     lib_value demo_library demo_vars (FunctionCallExpr ''f'' [LiteralValueExpr nil_val] False) \<and>
   \<not> unresolved demo_library demo_vars (FunctionCallExpr ''f'' [LiteralValueExpr nil_val] False)"
  using missing_variables_replaced[of "FunctionCallExpr ''f'' [demo_missing] False" _ demo_library demo_vars]
  by (simp add: demo_missing_def demo_vars_def traversalValue_def entry_of_def)

lemma conditional_value_witness:
  "Value demo_library demo_vars (ConditionalExpr (ScopeTraversalExpr (''request'', [TraverseAttr ''flag'']))
     (LiteralValueExpr (CString ''yes'')) demo_missing) = Some (CString ''yes'', False)"
  using conditional_value[of demo_library demo_vars "ScopeTraversalExpr (''request'', [TraverseAttr ''flag''])" True
      "LiteralValueExpr (CString ''yes'')" demo_missing]
  by (simp add: demo_missing_def demo_library_def demo_vars_def Value_of_def traversalValue_def entry_of_def)

lemma absent_reference_is_nil_witness:
  "Value demo_library demo_vars demo_missing = Some (nil_val, False)"
  using absent_reference_is_nil[of demo_vars "''request''"
      "CObject [(''headers'', CMap TString [(''host'', CString ''h'')]), (''flag'', CBool True)]"
      "[TraverseAttr ''headers'', TraverseAttr ''x'']" "[''headers'', ''x'']" demo_library]
  by (simp add: demo_missing_def demo_library_def demo_vars_def)

end
