(* ===== verification/EvalContext.thy ===== *)
theory EvalContext
  imports Modifiers Buffer Functions Validate Evaluation
begin

text \<open>
  The context in which expressions are evaluated (\<open>eval/context.go\<close>, \<open>eval/sync.go\<close>): the variables for
  the environment, the client's request, the requests to backends and their responses, and the functions.

  A \<open>Context\<close> is the record \<open>eval_ctx\<close>. The maps that become objects are lists of entries. A backend in the
  context is its name; \<open>objects\<close> is the value that each backend gives at the moment, \<open>None\<close> if it has none. What the
  request's Go context holds is \<open>request_context\<close>. The lexer, the decoding of JSON, the text of a URL and the
  order of the headers are arguments. \<open>None\<close> is a panic.
\<close>

section \<open>The environment\<close>

text \<open>\<open>decodeEnvironmentRefs\<close>: a token is whether it is a dot, and its bytes. \<open>LexConfig\<close> gives the tokens, or
  diagnostics, for which the code panics.\<close>

fun refs_of :: "(bool \<times> string) list \<Rightarrow> string list \<Rightarrow> string list" where
  "refs_of (t0 # t1 # t2 # ts) keys =
     refs_of (t1 # t2 # ts)
       (if fst t1 \<and> snd t0 = ''env'' \<and> snd t2 \<notin> set keys then keys @ [snd t2] else keys)"
| "refs_of ts keys = keys"

definition decodeEnvironmentRefs :: "(string \<Rightarrow> (bool \<times> string) list option) \<Rightarrow> string \<Rightarrow> string list option" where
  "decodeEnvironmentRefs lexer src = map_option (\<lambda>ts. refs_of ts []) (lexer src)"

fun env_pair :: "string \<Rightarrow> string \<times> string" where
  "env_pair p = (case split_first (CHR ''='') p of [k, v] \<Rightarrow> (k, v) | k # _ \<Rightarrow> (k, []) | [] \<Rightarrow> ([], []))"

definition set_default :: "string \<Rightarrow> (string \<times> string) list \<Rightarrow> (string \<times> string) list" where
  "set_default k m = (if map_of m k = None then set_key k [] m else m)"

text \<open>\<open>MapVal\<close> panics for a map without entries.\<close>

definition map_val :: "(string \<times> string) list \<Rightarrow> cty option" where
  "map_val m = (if m = [] then None else Some (CMap TString (map (\<lambda>(k, v). (k, CString v)) m)))"

definition newCtyEnvMap ::
  "(string \<Rightarrow> (bool \<times> string) list option) \<Rightarrow> string list \<Rightarrow> (string \<times> string) list \<Rightarrow> string list \<Rightarrow> cty option" where
  "newCtyEnvMap lexer srcBytes defaultValues envs =
     (let m1 = fold (\<lambda>(k, v). set_key k v) defaultValues [];
          m2 = fold (\<lambda>p. case env_pair p of (k, v) \<Rightarrow> set_key k v) envs m1
      in case those (map (decodeEnvironmentRefs lexer) srcBytes) of
           None \<Rightarrow> None
         | Some refs \<Rightarrow> map_val (fold (fold set_default) refs m2))"

definition newCtyCouperVariablesMap :: "string \<Rightarrow> string \<Rightarrow> cty" where
  "newCtyCouperVariablesMap version environment =
     CMap TString [(''environment'', CString environment), (''version'', CString version)]"

section \<open>Requests\<close>

record go_url =
  u_scheme :: string
  u_user :: "string option"
  u_host :: string
  u_path :: string
  u_force_query :: bool
  u_query :: string
  u_fragment :: string

text \<open>\<open>Port\<close> and \<open>Hostname\<close>: what follows the last colon is a port if it has digits only.\<close>

definition has_port :: "string \<Rightarrow> bool" where
  "has_port h \<longleftrightarrow> CHR '':'' \<in> set h \<and> list_all (\<lambda>c. digit_value c \<noteq> None) (takeWhile (\<lambda>c. c \<noteq> CHR '':'') (rev h))"

definition url_port :: "go_url \<Rightarrow> string" where
  "url_port u = (if has_port (u_host u) then rev (takeWhile (\<lambda>c. c \<noteq> CHR '':'') (rev (u_host u))) else [])"

definition url_hostname :: "go_url \<Rightarrow> string" where
  "url_hostname u =
     (let h = (if has_port (u_host u) then rev (tl (dropWhile (\<lambda>c. c \<noteq> CHR '':'') (rev (u_host u)))) else u_host u)
      in if has_prefix h ''['' \<and> has_suffix h '']'' then butlast (tl h) else h)"

text \<open>The port, with \<open>ParseInt\<close> at its bound for a number that is too large.\<close>

definition port_number :: "go_url \<Rightarrow> int" where
  "port_number u =
     (let p = (if url_port u = [] then (if u_scheme u = ''https'' then ''443'' else ''80'') else url_port u)
      in case digits_value 0 p of None \<Rightarrow> 0 | Some n \<Rightarrow> min n max_int64)"

definition NewRawOrigin :: "go_url \<Rightarrow> go_url" where
  "NewRawOrigin u = u\<lparr>u_path := [], u_query := [], u_fragment := []\<rparr>"

record request_context =
  rc_endpoint :: "string option"
  rc_uid :: "string option"
  rc_path_params :: "(string \<times> goval) list option"
  rc_buffer :: "buffer_option option"
  rc_access :: "(string \<times> goval) list"
  rc_granted :: "string list"
  rc_required :: "string option"
  rc_name :: "string option"
  rc_backend :: "string option"
  rc_token_request :: "string option"
  rc_websockets :: bool

record sent_request =
  sr_request :: bereq
  sr_url :: go_url
  sr_context :: request_context

record value_env =
  ve_unmarshal :: "string \<Rightarrow> cty option"
  ve_url_string :: "go_url \<Rightarrow> string"
  ve_headers :: "header \<Rightarrow> (string \<times> string list) list"
  ve_set_cookies :: "header \<Rightarrow> (string \<times> string) list"

definition isJSONMediaType :: "string \<Rightarrow> bool" where
  "isJSONMediaType contentType =
     (case split_on (CHR ''/'') (media_type contentType) of
        [t, s] \<Rightarrow> t = ''application'' \<and> (s = ''json'' \<or> has_suffix s ''+json'')
      | _ \<Rightarrow> False)"

definition parseJSONBytes :: "value_env \<Rightarrow> string \<Rightarrow> cty" where
  "parseJSONBytes env b = (case ve_unmarshal env b of Some v \<Rightarrow> v | None \<Rightarrow> CObject [])"

definition json_body_of :: "value_env \<Rightarrow> bool \<Rightarrow> header \<Rightarrow> string \<Rightarrow> cty" where
  "json_body_of env parseJSON h b =
     (if parseJSON \<and> isJSONMediaType (h_get h ''Content-Type'') then parseJSONBytes env b else CObject [])"

text \<open>The body of a request is in memory, so reading it does not fail.\<close>

definition parseReqBody :: "value_env \<Rightarrow> bereq \<Rightarrow> bool \<Rightarrow> cty \<times> cty" where
  "parseReqBody env req parseJSON =
     (case br_body req of
        None \<Rightarrow> (nil_val, CObject [])
      | Some b \<Rightarrow> (CString b, json_body_of env parseJSON (req_header req) b))"

definition ctx_Merge :: "(string \<times> cty) list \<Rightarrow> (string \<times> cty) list \<Rightarrow> (string \<times> cty) list" where
  "ctx_Merge m other = fold (\<lambda>(k, v). set_key k v) other m"

text \<open>\<open>newVariable\<close>: the data of access controls, the permissions, cookies and headers.\<close>

fun ac_entries :: "(string \<times> goval) list \<Rightarrow> (string \<times> cty) list \<Rightarrow> (string \<times> cty) list" where
  "ac_entries [] m = m"
| "ac_entries ((name, GMap d) # acs) m = ac_entries acs (set_key name (MapToValue d) m)"
| "ac_entries (ac # acs) m = ac_entries acs m"

definition context_entries :: "request_context \<Rightarrow> (string \<times> cty) list" where
  "context_entries rc =
     (let m1 = ac_entries (rc_access rc) [];
          gp = GoToValue (GStrings (rc_granted rc));
          m2 = (if rc_granted rc \<noteq> []
                then set_key ''beta_granted_permissions'' gp (set_key ''granted_permissions'' gp m1) else m1)
      in case rc_required rc of
           Some rp \<Rightarrow> set_key ''beta_required_permission'' (GoToValue (GString rp)) (set_key ''required_permission'' (GoToValue (GString rp)) m2)
         | None \<Rightarrow> m2)"

definition newVariable :: "value_env \<Rightarrow> request_context \<Rightarrow> header \<Rightarrow> (string \<times> string) list \<Rightarrow> (string \<times> cty) list" where
  "newVariable env rc h cookies =
     [(''context'', if context_entries rc \<noteq> [] then CObject (context_entries rc) else CMap TString []),
      (''cookies'', CookiesToMapValue cookies),
      (''headers'', HeaderToMapValue (ve_headers env h))]"

definition post_form :: "bereq \<Rightarrow> url_values" where
  "post_form req = (case br_form (parseForm req) of None \<Rightarrow> [] | Some f \<Rightarrow> f)"

definition url_entries :: "value_env \<Rightarrow> sent_request \<Rightarrow> (string \<times> cty) list" where
  "url_entries env sr =
     (let u = sr_url sr in
      [(''url'', CString (ve_url_string env u)), (''origin'', CString (ve_url_string env (NewRawOrigin u))),
       (''protocol'', CString (u_scheme u)), (''host'', CString (url_hostname u)),
       (''port'', CNumber (of_int (port_number u))), (''path'', CString (u_path u)),
       (''query'', ValuesMapToValue (parse_query (u_query u)))])"

definition client_request_value :: "value_env \<Rightarrow> sent_request \<Rightarrow> cty" where
  "client_request_value env sr =
     (let rc = sr_context sr; req = sr_request sr;
          (body, jsonBody) = parseReqBody env req (case rc_buffer rc of Some b \<Rightarrow> opt_JSONRequest b | None \<Rightarrow> False)
      in CObject (ctx_Merge (case rc_endpoint rc of Some e \<Rightarrow> [(''endpoint'', CString e)] | None \<Rightarrow> [])
           (ctx_Merge
              ([(''id'', CString (case rc_uid rc of Some i \<Rightarrow> i | None \<Rightarrow> [])), (''method'', CString (req_method req)),
                (''path_params'', MapToValue (rc_path_params rc))] @ url_entries env sr @
               [(''body'', body), (''json_body'', jsonBody), (''form_body'', ValuesMapToValue (post_form req))])
              (newVariable env rc (req_header req) (read_cookies (req_header req))))))"

section \<open>Responses\<close>

text \<open>
  The body of a response is absent, can be read to its end, or fails. What happens to it: it is left
  alone, read and replaced by what was read, closed, or read without being replaced.
\<close>

datatype raw_body = NoBody | BodyBytes string | BodyFails

datatype body_fate = Untouched | Replaced string | Closed | ReadOnly

fun parseSetRespBody :: "raw_body \<Rightarrow> string option \<times> body_fate" where
  "parseSetRespBody NoBody = (None, Untouched)"
| "parseSetRespBody (BodyBytes b) = (Some b, Replaced b)"
| "parseSetRespBody BodyFails = (None, ReadOnly)"

definition parseRespJsonBody :: "value_env \<Rightarrow> header \<Rightarrow> raw_body \<Rightarrow> bool \<Rightarrow> (cty \<times> cty) \<times> body_fate" where
  "parseRespJsonBody env h raw parseJSON =
     (case parseSetRespBody raw of
        (None, fate) \<Rightarrow> ((nil_val, CObject []), fate)
      | (Some b, fate) \<Rightarrow> ((CString b, json_body_of env parseJSON h b), fate))"

record backend_response =
  bp_status :: int
  bp_header :: header
  bp_body :: raw_body
  bp_request :: sent_request

definition roundtrip_name :: "request_context \<Rightarrow> string" where
  "roundtrip_name rc = (case rc_name rc of Some n \<Rightarrow> n | None \<Rightarrow> ''default'')"

text \<open>\<open>newBerespValues\<close>: \<open>rc\<close> is the context whose access data and permissions are shown.\<close>

definition bereq_value :: "value_env \<Rightarrow> request_context \<Rightarrow> sent_request \<Rightarrow> cty" where
  "bereq_value env rc sr =
     (let req = sr_request sr;
          (body, jsonBody) =
            (case rc_buffer (sr_context sr) of
               Some b \<Rightarrow> if opt_Request b then parseReqBody env req (opt_JSONRequest b) else (nil_val, nil_val)
             | None \<Rightarrow> (nil_val, nil_val))
      in CObject (ctx_Merge
           ([(''method'', CString (req_method req))] @ url_entries env sr @
            [(''body'', body), (''json_body'', jsonBody), (''form_body'', ValuesMapToValue (post_form req))])
           (newVariable env rc (req_header req) (read_cookies (req_header req)))))"

definition beresp_body :: "value_env \<Rightarrow> backend_response \<Rightarrow> (cty \<times> cty) \<times> body_fate" where
  "beresp_body env resp =
     (let rc = sr_context (bp_request resp);
          (readBody, json) = (case rc_buffer rc of Some b \<Rightarrow> (opt_Response b, opt_JSONResponse b) | None \<Rightarrow> (False, False))
      in if IsUpgradeResponse (rc_websockets rc) (req_header (sr_request (bp_request resp))) (bp_header resp)
         then ((nil_val, nil_val), Untouched)
         else if readBody then parseRespJsonBody env (bp_header resp) (bp_body resp) json
         else if bp_body resp \<noteq> NoBody \<and> roundtrip_name rc \<noteq> ''default'' then ((nil_val, nil_val), Closed)
         else ((nil_val, nil_val), Untouched))"

definition beresp_value :: "value_env \<Rightarrow> request_context \<Rightarrow> backend_response \<Rightarrow> cty" where
  "beresp_value env rc resp =
     (case beresp_body env resp of
        ((body, jsonBody), _) \<Rightarrow>
          CObject (ctx_Merge
            [(''status'', CNumber (of_int (bp_status resp))), (''json_body'', jsonBody), (''body'', body)]
            (newVariable env rc (bp_header resp) (ve_set_cookies env (bp_header resp)))))"

definition newBerespValues :: "value_env \<Rightarrow> request_context \<Rightarrow> backend_response \<Rightarrow> (string \<times> cty \<times> cty) \<times> body_fate" where
  "newBerespValues env rc resp =
     ((roundtrip_name (sr_context (bp_request resp)), bereq_value env rc (bp_request resp), beresp_value env rc resp),
      snd (beresp_body env resp))"

section \<open>Variables of backends\<close>

fun length_int :: "cty \<Rightarrow> nat option" where
  "length_int (CList t vs) = Some (length vs)"
| "length_int (CMap t kvs) = Some (length kvs)"
| "length_int v = (case cty_type_of v of TTuple ts \<Rightarrow> Some (length ts) | TObject ts \<Rightarrow> Some (length ts) | _ \<Rightarrow> None)"

definition var_value :: "variables \<Rightarrow> string \<Rightarrow> cty" where
  "var_value vars k = (case vars k of Some v \<Rightarrow> v | None \<Rightarrow> nil_val)"

definition mergeBackendVariables :: "string \<Rightarrow> (string \<times> cty) list \<Rightarrow> variables \<Rightarrow> variables option" where
  "mergeBackendVariables key cmap vars =
     (if is_null (var_value vars key) then Some (vars(key \<mapsto> CObject cmap))
      else (case length_int (var_value vars key) of
         None \<Rightarrow> None
       | Some 0 \<Rightarrow> Some (vars(key \<mapsto> CObject cmap))
       | Some (Suc n) \<Rightarrow>
          (case Merge [var_value vars key, CObject cmap] of
             None \<Rightarrow> None
           | Some (Inl e) \<Rightarrow> Some (vars(key \<mapsto> CString []))
           | Some (Inr merged) \<Rightarrow> Some (if is_null merged then vars else vars(key \<mapsto> merged)))))"

fun syncBackendVariables :: "(string \<Rightarrow> cty option) \<Rightarrow> string list \<Rightarrow> (string \<times> cty) list \<Rightarrow> (string \<times> cty) list option" where
  "syncBackendVariables objects [] m = Some m"
| "syncBackendVariables objects (b # bs) m =
     (case objects b of
        None \<Rightarrow> syncBackendVariables objects bs m
      | Some v \<Rightarrow>
         (case as_value_map v of
            None \<Rightarrow> None
          | Some vm \<Rightarrow>
             (case map_of vm ''name'' of
                Some (CString name) \<Rightarrow> syncBackendVariables objects bs (set_key name v m)
              | _ \<Rightarrow> None)))"

section \<open>Synchronised variables\<close>

record sync_pair =
  sp_name :: string
  sp_backend :: string
  sp_bereq :: cty
  sp_beresp :: cty

type_synonym synced_variables = "(string \<times> sync_pair) list"

definition sv_Set :: "request_context \<Rightarrow> string \<Rightarrow> cty \<Rightarrow> cty \<Rightarrow> synced_variables \<Rightarrow> synced_variables" where
  "sv_Set rc reqName bereqV berespV items =
     (let name = (case rc_token_request rc of
                    Some tr \<Rightarrow> if tr \<noteq> [] then ''_tr_'' @ tr else reqName
                  | None \<Rightarrow> reqName)
      in set_key name \<lparr>sp_name = name, sp_backend = (case rc_backend rc of Some b \<Rightarrow> b | None \<Rightarrow> []),
                       sp_bereq = bereqV, sp_beresp = berespV\<rparr> items)"

definition sv_SetResp :: "value_env \<Rightarrow> backend_response \<Rightarrow> synced_variables \<Rightarrow> synced_variables \<times> body_fate" where
  "sv_SetResp env resp items =
     (let rc = sr_context (bp_request resp) in
      case newBerespValues env rc resp of
        ((name, bereqV, berespV), fate) \<Rightarrow> (sv_Set rc name bereqV berespV items, fate))"

definition synced_entries :: "variables \<Rightarrow> string \<Rightarrow> (sync_pair \<Rightarrow> cty) \<Rightarrow> synced_variables \<Rightarrow> (string \<times> cty) list option" where
  "synced_entries vars key f items =
     map_option (\<lambda>m. fold (\<lambda>(name, p). set_key name (f p)) items m)
       (case vars key of None \<Rightarrow> Some [] | Some v \<Rightarrow> as_value_map v)"

definition sv_Sync :: "synced_variables \<Rightarrow> variables \<Rightarrow> variables option" where
  "sv_Sync items vars =
     (case (synced_entries vars ''backend_requests'' sp_bereq items, synced_entries vars ''backend_responses'' sp_beresp items) of
        (Some bereqs, Some beresps) \<Rightarrow>
          Some (vars(''backend_requests'' \<mapsto> CObject bereqs, ''backend_responses'' \<mapsto> CObject beresps))
      | _ \<Rightarrow> None)"

section \<open>The context\<close>

text \<open>
  A function is one that never changes, one made for the context from the names of what is configured, or the
  one that only reports that nothing is configured. The verifier of the context that made a function is
  the one the function uses.
\<close>

datatype fn =
    StdFn string
  | JwtSignFn "string list" | NoOpJwtSignFn
  | OAuthAuthorizationURLFn "string list" go_url | NoOpOAuthAuthorizationURLFn
  | OAuthCodeVerifierFn | OAuthCodeChallengeFn
  | SamlSsoURLFn "string list" go_url | NoOpSamlSsoURLFn

type_synonym fn_table = "string \<Rightarrow> fn option"

text \<open>What the memory store has under a key, as far as the context reads it.\<close>

datatype stored = RoundTripperItem string | OtherItem

record eval_ctx =
  cx_backends :: "string list"
  cx_loaded :: bool
  cx_variables :: variables
  cx_functions :: fn_table
  cx_inner :: request_context
  cx_memStore :: "(string \<times> stored) list option"
  cx_verifier :: "string option"
  cx_oauth2 :: "string list"
  cx_jwt :: "string list"
  cx_saml :: "string list"
  cx_synced :: "synced_variables option"

definition std_names :: "string list" where
  "std_names = [''base64_decode'', ''base64_encode'', ''can'', ''coalesce'', ''contains'', ''default'', ''join'',
     ''json_decode'', ''json_encode'', ''keys'', ''length'', ''lookup'', ''merge'', ''relative_url'', ''set_intersection'',
     ''split'', ''substr'', ''to_lower'', ''to_number'', ''to_upper'', ''trim'', ''unixtime'', ''url_decode'', ''url_encode'']"

definition newFunctionsMap :: fn_table where
  "newFunctionsMap name =
     (if name \<in> set std_names then Some (StdFn (if name = ''coalesce'' then ''default'' else name)) else None)"

definition NewContext ::
  "(string \<Rightarrow> (bool \<times> string) list option) \<Rightarrow> string \<Rightarrow> string list \<Rightarrow> string list \<Rightarrow> (string \<times> string) list
     \<Rightarrow> request_context \<Rightarrow> string \<Rightarrow> eval_ctx option" where
  "NewContext lexer version envs srcBytes defaults todo environment =
     map_option (\<lambda>env.
       \<lparr>cx_backends = [], cx_loaded = False,
        cx_variables = [''env'' \<mapsto> env, ''couper'' \<mapsto> newCtyCouperVariablesMap version environment],
        cx_functions = newFunctionsMap, cx_inner = todo, cx_memStore = None, cx_verifier = None,
        cx_oauth2 = [], cx_jwt = [], cx_saml = [], cx_synced = None\<rparr>)
       (newCtyEnvMap lexer srcBytes defaults envs)"

definition ctx_clone :: "eval_ctx \<Rightarrow> eval_ctx" where
  "ctx_clone c = c\<lparr>cx_loaded := False, cx_verifier := None, cx_synced := Some []\<rparr>"

definition updateFunctions :: "eval_ctx \<Rightarrow> eval_ctx" where
  "updateFunctions c =
     c\<lparr>cx_functions := (cx_functions c)(''jwt_sign'' \<mapsto> (if cx_jwt c \<noteq> [] then JwtSignFn (cx_jwt c) else NoOpJwtSignFn))\<rparr>"

definition updateRequestRelatedFunctions :: "go_url \<Rightarrow> eval_ctx \<Rightarrow> eval_ctx" where
  "updateRequestRelatedFunctions origin c =
     c\<lparr>cx_functions := (cx_functions c)
       (''oauth2_authorization_url'' \<mapsto>
          (if cx_oauth2 c \<noteq> [] then OAuthAuthorizationURLFn (cx_oauth2 c) origin else NoOpOAuthAuthorizationURLFn),
        ''oauth2_verifier'' \<mapsto> OAuthCodeVerifierFn,
        ''internal_oauth_hashed_verifier'' \<mapsto> OAuthCodeChallengeFn,
        ''saml_sso_url'' \<mapsto> (if cx_saml c \<noteq> [] then SamlSsoURLFn (cx_saml c) origin else NoOpSamlSsoURLFn))\<rparr>"

text \<open>The backends of the store, which are taken from it once, at the first request.\<close>

definition load_backends :: "eval_ctx \<Rightarrow> eval_ctx" where
  "load_backends c =
     (if cx_loaded c then c
      else (case cx_memStore c of
         None \<Rightarrow> c\<lparr>cx_loaded := True\<rparr>
       | Some items \<Rightarrow>
           c\<lparr>cx_loaded := True,
             cx_backends := cx_backends c @
               concat (map (\<lambda>(k, i). case i of RoundTripperItem b \<Rightarrow> if has_prefix k ''backend_'' then [b] else [] | OtherItem \<Rightarrow> []) items)\<rparr>))"

text \<open>\<open>WithClientRequest\<close>: the receiver afterwards, and the new context. The Go context of the request becomes the
  inner context.\<close>

definition WithClientRequest ::
  "value_env \<Rightarrow> (string \<Rightarrow> cty option) \<Rightarrow> sent_request \<Rightarrow> eval_ctx \<Rightarrow> (eval_ctx \<times> eval_ctx) option" where
  "WithClientRequest env objects sr c =
     (let c1 = load_backends c;
          ctx = (ctx_clone c1)\<lparr>cx_inner := sr_context sr\<rparr>;
          vars = (cx_variables ctx)
            (''request'' \<mapsto> client_request_value env sr, ''backend_requests'' \<mapsto> CObject [], ''backend_responses'' \<mapsto> CObject [])
      in case Option.bind (syncBackendVariables objects (cx_backends ctx) []) (\<lambda>bs. mergeBackendVariables ''backends'' bs vars) of
           None \<Rightarrow> None
         | Some vars' \<Rightarrow>
             Some (c1, updateFunctions (updateRequestRelatedFunctions (NewRawOrigin (sr_url sr)) (ctx\<lparr>cx_variables := vars'\<rparr>))))"

fun merge_all :: "(string \<times> (string \<times> cty) list) list \<Rightarrow> variables \<Rightarrow> variables option" where
  "merge_all [] vars = Some vars"
| "merge_all ((key, cmap) # ms) vars = Option.bind (mergeBackendVariables key cmap vars) (merge_all ms)"

definition WithBeresp ::
  "value_env \<Rightarrow> (string \<Rightarrow> cty option) \<Rightarrow> backend_response option \<Rightarrow> cty \<Rightarrow> eval_ctx
     \<Rightarrow> (eval_ctx \<times> (string \<times> cty \<times> cty) \<times> body_fate) option" where
  "WithBeresp env objects beresp backendVal c =
     (let ctx = ctx_clone c;
          ((name, reqV, respV), fate) =
            (case beresp of Some r \<Rightarrow> newBerespValues env (cx_inner c) r | None \<Rightarrow> (([], nil_val, nil_val), Untouched));
          vars = (case beresp of
                    Some r \<Rightarrow> (cx_variables ctx)(''backend_request'' \<mapsto> reqV, ''backend_response'' \<mapsto> respV, ''backend'' \<mapsto> backendVal)
                  | None \<Rightarrow> cx_variables ctx);
          (bereqs, resps) = (case beresp of Some r \<Rightarrow> ([(name, reqV)], [(name, respV)]) | None \<Rightarrow> ([], []))
      in case Option.bind (syncBackendVariables objects (cx_backends ctx) [])
                (\<lambda>bs. merge_all [(''backends'', bs), (''backend_requests'', bereqs), (''backend_responses'', resps)] vars) of
           None \<Rightarrow> None
         | Some vars' \<Rightarrow> Some (updateFunctions (ctx\<lparr>cx_variables := vars'\<rparr>), (name, reqV, respV), fate))"

definition WithJWTSigningConfigs :: "string list \<Rightarrow> eval_ctx \<Rightarrow> eval_ctx" where
  "WithJWTSigningConfigs configs c = updateFunctions (c\<lparr>cx_jwt := configs\<rparr>)"

definition WithOAuth2AC :: "string list \<Rightarrow> eval_ctx \<Rightarrow> eval_ctx" where
  "WithOAuth2AC names c = c\<lparr>cx_oauth2 := fold List.insert names (cx_oauth2 c)\<rparr>"

definition WithOidcConfig :: "string list \<Rightarrow> eval_ctx \<Rightarrow> eval_ctx" where
  "WithOidcConfig names c = c\<lparr>cx_oauth2 := fold List.insert names (cx_oauth2 c)\<rparr>"

definition WithMemStore :: "(string \<times> stored) list option \<Rightarrow> eval_ctx \<Rightarrow> eval_ctx" where
  "WithMemStore store c = c\<lparr>cx_memStore := store\<rparr>"

definition WithSAML :: "string list \<Rightarrow> eval_ctx \<Rightarrow> eval_ctx" where
  "WithSAML s c = c\<lparr>cx_saml := s\<rparr>"

definition HCLContextSync :: "(string \<Rightarrow> cty option) \<Rightarrow> eval_ctx \<Rightarrow> variables option" where
  "HCLContextSync objects c =
     (case cx_synced c of
        None \<Rightarrow> Some (cx_variables c)
      | Some items \<Rightarrow>
          Option.bind (sv_Sync items (cx_variables c)) (\<lambda>vars.
            Option.bind (syncBackendVariables objects (cx_backends c) []) (\<lambda>bs. mergeBackendVariables ''backends'' bs vars)))"

definition getCodeVerifier :: "string + string \<Rightarrow> eval_ctx \<Rightarrow> (string + string) \<times> eval_ctx" where
  "getCodeVerifier created c =
     (case cx_verifier c of
        Some v \<Rightarrow> (Inr v, c)
      | None \<Rightarrow> (case created of Inl e \<Rightarrow> (Inl e, c) | Inr v \<Rightarrow> (Inr v, c\<lparr>cx_verifier := Some v\<rparr>)))"

definition MapTokenResponse :: "string \<Rightarrow> variables \<Rightarrow> variables option" where
  "MapTokenResponse name vars =
     map_option (\<lambda>responses. vars(''beta_token_response'' \<mapsto>
         (case map_of responses (''_tr_'' @ (if name = [] then ''default'' else name)) of Some v \<Rightarrow> v | None \<Rightarrow> nil_val)))
       (as_value_map (var_value vars ''backend_responses''))"

section \<open>Environment variables\<close>

lemma map_of_fold_set_key: "map_of (fold (\<lambda>(k, v). set_key k v) kvs m) = map_of m ++ map_of (rev kvs)"
  by (induction kvs arbitrary: m) (auto simp: fun_eq_iff map_add_def split: option.splits)

lemma fold_pairs: "fold (\<lambda>x. case f x of (k, v) \<Rightarrow> set_key k v) xs m = fold (\<lambda>(k, v). set_key k v) (map f xs) m"
  by (induction xs arbitrary: m) auto

lemma map_of_set_default:
  "map_of (fold set_default ks m) k = (case map_of m k of Some v \<Rightarrow> Some v | None \<Rightarrow> if k \<in> set ks then Some [] else None)"
  by (induction ks arbitrary: m) (auto simp: set_default_def split: option.splits)

lemma map_of_set_defaults:
  "map_of (fold (fold set_default) kss m) k =
     (case map_of m k of Some v \<Rightarrow> Some v | None \<Rightarrow> if k \<in> set (concat kss) then Some [] else None)"
  by (induction kss arbitrary: m) (auto simp: map_of_set_default split: option.splits)

lemma refs_of_iff:
  "k \<in> set (refs_of ts keys) \<longleftrightarrow>
     k \<in> set keys \<or> (\<exists>xs a b d ys. ts = xs @ a # b # d # ys \<and> fst b \<and> snd a = ''env'' \<and> snd d = k)"
proof (induction ts keys rule: refs_of.induct)
  case (1 t0 t1 t2 ts keys)
  have "(\<exists>xs a b d ys. t0 # t1 # t2 # ts = xs @ a # b # d # ys \<and> fst b \<and> snd a = ''env'' \<and> snd d = k) \<longleftrightarrow>
      (fst t1 \<and> snd t0 = ''env'' \<and> snd t2 = k) \<or>
      (\<exists>xs a b d ys. t1 # t2 # ts = xs @ a # b # d # ys \<and> fst b \<and> snd a = ''env'' \<and> snd d = k)"
    (is "?l \<longleftrightarrow> ?h \<or> ?r")
  proof
    assume ?l
    then obtain xs a b d ys where e: "t0 # t1 # t2 # ts = xs @ a # b # d # ys" "fst b" "snd a = ''env''" "snd d = k" by blast
    show "?h \<or> ?r"
    proof (cases xs)
      case Nil
      with e show ?thesis by simp
    next
      case (Cons x xs')
      with e have "t1 # t2 # ts = xs' @ a # b # d # ys" by simp
      with e show ?thesis by blast
    qed
  next
    assume "?h \<or> ?r"
    then show ?l by (metis append_Cons append_Nil)
  qed
  with 1 show ?case by auto
qed auto

text \<open>The value of a name: the last entry of the process, then the configured default, then no text for a name that
  one of the files refers to.\<close>

definition env_value :: "(bool \<times> string) list list \<Rightarrow> (string \<times> string) list \<Rightarrow> string list \<Rightarrow> string \<Rightarrow> string option" where
  "env_value tokens defaults envs k =
     (case map_of (rev (map env_pair envs)) k of
        Some v \<Rightarrow> Some v
      | None \<Rightarrow> (case map_of (rev defaults) k of
           Some v \<Rightarrow> Some v
         | None \<Rightarrow> if k \<in> set (concat (map (\<lambda>ts. refs_of ts []) tokens)) then Some [] else None))"

lemma map_of_strings: "map_of (map (\<lambda>(k, v). (k, CString v)) m) k = map_option CString (map_of m k)"
  by (induction m) auto

lemma those_map_option: "those (map (\<lambda>x. map_option f (g x)) xs) = map_option (map f) (those (map g xs))"
  by (induction xs) (auto split: option.splits simp: option.map_comp comp_def)

lemma env_map_lookup:
  "map_of (fold (fold set_default) (map (\<lambda>ts. refs_of ts []) tokens)
      (fold (\<lambda>p. case env_pair p of (k, v) \<Rightarrow> set_key k v) envs (fold (\<lambda>(k, v). set_key k v) defaults []))) k =
    env_value tokens defaults envs k"
  unfolding map_of_set_defaults fold_pairs[of env_pair] map_of_fold_set_key env_value_def map_add_def
  by (simp split: option.splits)

lemma map_val_lookup:
  "case map_val m of None \<Rightarrow> \<forall>k. map_of m k = None | Some v \<Rightarrow> \<forall>k. at_path v [k] = map_option CString (map_of m k)"
  by (simp add: map_val_def map_of_strings split: option.splits)

text \<open>
  Every variable of the environment has its value from the process, else from the defaults, and each one
  that a file refers to exists; the construction fails only for files with errors of the lexer, or if no variable
  exists.
\<close>

theorem environment_complete:
  assumes "those (map lexer srcs) = Some tokens"
  shows "(case newCtyEnvMap lexer srcs defaults envs of
       None \<Rightarrow> \<forall>k. env_value tokens defaults envs k = None
     | Some v \<Rightarrow> \<forall>k. at_path v [k] = map_option CString (env_value tokens defaults envs k)) \<and>
    (\<forall>xs t dot t' k ys. xs @ (t, ''env'') # (True, dot) # (t', k) # ys \<in> set tokens \<longrightarrow>
       env_value tokens defaults envs k \<noteq> None)"
proof
  have refs: "those (map (decodeEnvironmentRefs lexer) srcs) = Some (map (\<lambda>ts. refs_of ts []) tokens)"
    using assms by (simp add: decodeEnvironmentRefs_def[abs_def] those_map_option)
  show "case newCtyEnvMap lexer srcs defaults envs of
       None \<Rightarrow> \<forall>k. env_value tokens defaults envs k = None
     | Some v \<Rightarrow> \<forall>k. at_path v [k] = map_option CString (env_value tokens defaults envs k)"
    unfolding env_map_lookup[symmetric] newCtyEnvMap_def refs Let_def option.case by (rule map_val_lookup)
  have "k \<in> set (refs_of (xs @ (t, ''env'') # (True, dot) # (t', k) # ys) [])" for xs t dot t' k ys
    unfolding refs_of_iff by force
  then show "\<forall>xs t dot t' k ys. xs @ (t, ''env'') # (True, dot) # (t', k) # ys \<in> set tokens \<longrightarrow>
       env_value tokens defaults envs k \<noteq> None"
    unfolding env_value_def by (fastforce split: option.splits)
qed

section \<open>What a request shows\<close>

lemma ac_entries_lookup:
  assumes "distinct (map fst acs)"
  shows "map_of (ac_entries acs m) k =
    (case map_of acs k of Some (GMap d) \<Rightarrow> Some (MapToValue d) | _ \<Rightarrow> map_of m k)"
  using assms
proof (induction acs arbitrary: m)
  case (Cons ac acs)
  obtain n d where ac: "ac = (n, d)" by (cases ac)
  with Cons.prems have "map_of acs n = None" by (auto simp: map_of_eq_None_iff)
  with Cons ac show ?case by (cases d) (auto split: option.splits goval.splits)
qed simp

lemma context_entries_lookup:
  "map_of (context_entries rc) k =
    (case (rc_required rc, k \<in> {''required_permission'', ''beta_required_permission''}) of
       (Some rp, True) \<Rightarrow> Some (CString rp)
     | _ \<Rightarrow> if rc_granted rc \<noteq> [] \<and> k \<in> {''granted_permissions'', ''beta_granted_permissions''}
            then Some (CList TString (map CString (rc_granted rc))) else map_of (ac_entries (rc_access rc) []) k)"
  by (auto simp: context_entries_def Let_def stringListToValue_def split: option.splits)

lemma at_path_one: "at_path v [k] = map_of (named_entries v) k"
  by (simp split: option.split)

lemma at_path_two: "at_path v [j, k] = Option.bind (map_of (named_entries v) j) (\<lambda>w. map_of (named_entries w) k)"
  by (simp split: option.split)

lemma map_of_rev: "distinct (map fst m) \<Longrightarrow> map_of (rev m) = map_of m"
  by (subst map_of_inject_set) (auto simp: rev_map[symmetric])

lemma distinct_ctx_Merge: "distinct (map fst m) \<Longrightarrow> distinct (map fst (ctx_Merge m other))"
  unfolding ctx_Merge_def by (induction other arbitrary: m) (auto simp del: map_map)

lemma ctx_Merge_lookup:
  "distinct (map fst other) \<Longrightarrow> map_of (ctx_Merge m other) k = (case map_of other k of Some v \<Rightarrow> Some v | None \<Rightarrow> map_of m k)"
  by (simp add: ctx_Merge_def map_of_fold_set_key map_of_rev map_add_def)

lemma client_context:
  "map_of (named_entries (client_request_value env sr)) ''context'' =
     Some (if context_entries (sr_context sr) \<noteq> [] then CObject (context_entries (sr_context sr)) else CMap TString [])"
proof -
  have d: "distinct (map fst ([(''id'', a), (''method'', b), (''path_params'', e)] @ url_entries env sr @
      [(''body'', f), (''json_body'', g), (''form_body'', h)]))" for a b e f g h
    by (simp add: url_entries_def Let_def)
  have n: "distinct (map fst (newVariable env rc h cs))" for rc h cs by (simp add: newVariable_def)
  show ?thesis
    by (simp only: client_request_value_def Let_def case_prod_beta named_entries.simps
        ctx_Merge_lookup[OF distinct_ctx_Merge[OF d]] ctx_Merge_lookup[OF n])
      (simp add: newVariable_def)
qed

lemma context_named:
  "named_entries (if es \<noteq> [] then CObject es else CMap TString []) = es"
  by simp

text \<open>
  Property C38: under \<open>request.context\<close> stand the data of every access control under its label, the granted permissions if there are
  any, the required permission, and nothing else; the names of the permissions win over a label.
\<close>

theorem request_context_shown:
  assumes "distinct (map fst (rc_access (sr_context sr)))"
  shows "at_path (client_request_value env sr) [''context'', k] =
    (case (rc_required (sr_context sr), k \<in> {''required_permission'', ''beta_required_permission''}) of
       (Some rp, True) \<Rightarrow> Some (CString rp)
     | _ \<Rightarrow>
        if rc_granted (sr_context sr) \<noteq> [] \<and> k \<in> {''granted_permissions'', ''beta_granted_permissions''}
        then Some (CList TString (map CString (rc_granted (sr_context sr))))
        else (case map_of (rc_access (sr_context sr)) k of Some (GMap d) \<Rightarrow> Some (MapToValue d) | _ \<Rightarrow> None))"
  unfolding at_path_two client_context bind.bind_lunit context_named context_entries_lookup ac_entries_lookup[OF assms] map_of.simps ..

text \<open>A label that is not reserved may hide the data of an access control.\<close>

theorem beta_name_hidden:
  assumes "rc_granted (sr_context sr) = [p]" and "rc_required (sr_context sr) = None"
    and "rc_access (sr_context sr) = [(''beta_granted_permissions'', GMap d)]"
  shows "\<not> IsReservedContextName ''beta_granted_permissions'' \<and>
    at_path (client_request_value env sr) [''context'', ''beta_granted_permissions''] = Some (CList TString [CString p])"
  unfolding at_path_two client_context bind.bind_lunit context_named context_entries_lookup
  using assms by (simp add: IsReservedContextName_def)

section \<open>What the responses show\<close>

lemma as_value_map_named: "as_value_map v = Some m \<Longrightarrow> m = named_entries v"
  by (cases v) (auto split: if_splits)

lemma merge_changes_key:
  "mergeBackendVariables key cmap vars = Some vars' \<Longrightarrow> k \<noteq> key \<Longrightarrow> vars' k = vars k"
  by (auto simp: mergeBackendVariables_def split: if_splits option.splits nat.splits sum.splits)

definition sync_name :: "request_context \<Rightarrow> string \<Rightarrow> string" where
  "sync_name rc name = (case rc_token_request rc of Some tr \<Rightarrow> if tr \<noteq> [] then ''_tr_'' @ tr else name | None \<Rightarrow> name)"

text \<open>The pairs that are set for a context, one after the other.\<close>

definition run_sets :: "(request_context \<times> string \<times> cty \<times> cty) list \<Rightarrow> synced_variables" where
  "run_sets hist = fold (\<lambda>(rc, name, q, r). sv_Set rc name q r) hist []"

definition sync_entry :: "request_context \<times> string \<times> cty \<times> cty \<Rightarrow> string \<times> sync_pair" where
  "sync_entry h = (case h of (rc, name, q, r) \<Rightarrow>
     (sync_name rc name, \<lparr>sp_name = sync_name rc name, sp_backend = (case rc_backend rc of Some b \<Rightarrow> b | None \<Rightarrow> []),
        sp_bereq = q, sp_beresp = r\<rparr>))"

lemma run_sets_fold: "run_sets hist = fold (\<lambda>(k, p). set_key k p) (map sync_entry hist) []"
proof -
  have "fold (\<lambda>(rc, name, q, r). sv_Set rc name q r) hist m = fold (\<lambda>(k, p). set_key k p) (map sync_entry hist) m" for m
    by (induction hist arbitrary: m) (auto simp: sync_entry_def sv_Set_def sync_name_def Let_def)
  then show ?thesis by (simp add: run_sets_def)
qed

lemma run_sets_lookup: "map_of (run_sets hist) n = map_of (rev (map sync_entry hist)) n"
  by (simp add: run_sets_fold map_of_fold_set_key)

lemma distinct_fold_set_key: "distinct (map fst m) \<Longrightarrow> distinct (map fst (fold (\<lambda>(k, p). set_key k p) kvs m))"
  by (induction kvs arbitrary: m) (auto simp del: map_map)

lemma map_of_synced:
  assumes "distinct (map fst items)"
  shows "map_of (fold (\<lambda>(k, p). set_key k (f p)) items m) n =
    (case map_of items n of Some p \<Rightarrow> Some (f p) | None \<Rightarrow> map_of m n)"
  using assms
proof (induction items arbitrary: m)
  case (Cons kp items)
  obtain k p where "kp = (k, p)" by (cases kp)
  moreover from this Cons.prems have "map_of items k = None" by (auto simp: map_of_eq_None_iff)
  ultimately show ?case using Cons by (auto split: option.splits)
qed simp

lemma synced_entries_lookup:
  assumes "synced_entries vars key f items = Some m" and "distinct (map fst items)"
  shows "map_of m n = (case map_of items n of Some p \<Rightarrow> Some (f p) | None \<Rightarrow> map_of (named_entries (var_value vars key)) n)"
  using assms(1)
  by (auto simp: synced_entries_def var_value_def map_of_synced[OF assms(2)] dest!: as_value_map_named split: option.splits)


text \<open>One response that is added to those that were there.\<close>

lemma Merge_one:
  assumes "Merge [CObject kvs, CObject [(n, v)]] = Some r" and "distinct (map fst kvs)"
  shows "\<exists>m. r = Inr (CObject m) \<and> (\<forall>k. k \<noteq> n \<longrightarrow> map_of m k = map_of kvs k) \<and> (map_of kvs n = None \<longrightarrow> map_of m n = Some v)"
proof -
  obtain a where a: "merge_entries [] kvs = Some a" "map_of a = map_of kvs"
    using merge_entries_fresh[of "[]" kvs] assms(2) by auto
  have "check_merge NoKind [CObject kvs, CObject [(n, v)]] = Inr Objects"
    by (simp add: merge_kind_of_def)
  with assms(1) a(1) obtain m where m: "merge_entries a [(n, v)] = Some m" "r = Inr (CObject m)"
    by (auto simp: Merge_def mergeObjects_def merge_args_two simp del: merge_entries.simps check_merge.simps split: option.splits)
  from m(1) show ?thesis unfolding m(2) a(2)[symmetric] by (auto split: option.splits)
qed

lemma merge_into_object:
  assumes "var_value vars key = CObject kvs" and "kvs \<noteq> []" and "mergeBackendVariables key cmap vars = Some vars'"
  obtains r where "Merge [CObject kvs, CObject cmap] = Some r"
    and "\<And>m. r = Inr (CObject m) \<Longrightarrow> vars' = vars(key \<mapsto> CObject m)"
proof -
  obtain l where l: "length_int (CObject kvs) = Some (Suc l)" using assms(2) by (cases kvs) auto
  have "\<not> is_null (CObject kvs)" by simp
  note e = assms(3)[unfolded mergeBackendVariables_def assms(1) l if_not_P[OF this] option.case nat.case]
  show thesis
  proof (cases "Merge [CObject kvs, CObject cmap]")
    case None
    with e show ?thesis by simp
  next
    case (Some r)
    show ?thesis by (rule that[OF Some]) (use e Some in simp)
  qed
qed

lemma merge_one_response:
  assumes "mergeBackendVariables key [(n, v)] vars = Some vars'" and "var_value vars key = CObject kvs" and "distinct (map fst kvs)"
  shows "(\<forall>k. k \<noteq> n \<longrightarrow> at_path (var_value vars' key) [k] = map_of kvs k) \<and>
    (map_of kvs n = None \<longrightarrow> at_path (var_value vars' key) [n] = Some v)"
proof (cases "kvs = []")
  case True
  with assms have "vars' = vars(key \<mapsto> CObject [(n, v)])" by (simp add: mergeBackendVariables_def)
  with True show ?thesis by (simp add: var_value_def)
next
  case False
  obtain r where r: "Merge [CObject kvs, CObject [(n, v)]] = Some r"
      and m: "\<And>m. r = Inr (CObject m) \<Longrightarrow> vars' = vars(key \<mapsto> CObject m)"
    using merge_into_object[OF assms(2) False assms(1)] by metis
  from Merge_one[OF r assms(3)] obtain m' where m': "r = Inr (CObject m')"
      and look: "\<forall>k. k \<noteq> n \<longrightarrow> map_of m' k = map_of kvs k" "map_of kvs n = None \<longrightarrow> map_of m' n = Some v" by (elim exE conjE)
  have "vars' = vars(key \<mapsto> CObject m')" by (rule m[OF m'])
  then have e: "var_value vars' key = CObject m'" by (simp add: var_value_def)
  show ?thesis unfolding e at_path_one named_entries.simps by (intro conjI look)
qed

text \<open>
  A response is the one of \<open>backend_response\<close>, is found among the responses under its name if there was none of that name,
  and leaves the others.
\<close>

theorem response_added:
  assumes "WithBeresp env objects (Some resp) bv c = Some (ctx', (name, q, r), fate)"
    and "var_value (cx_variables c) ''backend_responses'' = CObject kvs" and "distinct (map fst kvs)"
  shows "var_value (cx_variables ctx') ''backend_response'' = beresp_value env (cx_inner c) resp \<and>
    (\<forall>n. n \<noteq> name \<longrightarrow> at_path (var_value (cx_variables ctx') ''backend_responses'') [n] = map_of kvs n) \<and>
    (map_of kvs name = None \<longrightarrow>
       at_path (var_value (cx_variables ctx') ''backend_responses'') [name] = Some (beresp_value env (cx_inner c) resp))"
proof -
  let ?vars = "(cx_variables c)(''backend_request'' \<mapsto> q, ''backend_response'' \<mapsto> r, ''backend'' \<mapsto> bv)"
  have vals: "name = roundtrip_name (sr_context (bp_request resp))" "q = bereq_value env (cx_inner c) (bp_request resp)"
      "r = beresp_value env (cx_inner c) resp"
    and "\<exists>vars'. Option.bind (syncBackendVariables objects (cx_backends (ctx_clone c)) [])
       (\<lambda>bs. merge_all [(''backends'', bs), (''backend_requests'', [(name, q)]), (''backend_responses'', [(name, r)])]
          ((cx_variables (ctx_clone c))(''backend_request'' \<mapsto> q, ''backend_response'' \<mapsto> r, ''backend'' \<mapsto> bv))) = Some vars' \<and>
       ctx' = updateFunctions ((ctx_clone c)\<lparr>cx_variables := vars'\<rparr>)"
    using assms(1) unfolding WithBeresp_def newBerespValues_def Let_def option.case prod.case
    by (cases "Option.bind (syncBackendVariables objects (cx_backends (ctx_clone c)) [])
       (\<lambda>bs. merge_all [(''backends'', bs), (''backend_requests'', [(roundtrip_name (sr_context (bp_request resp)), bereq_value env (cx_inner c) (bp_request resp))]),
          (''backend_responses'', [(roundtrip_name (sr_context (bp_request resp)), beresp_value env (cx_inner c) resp)])]
          ((cx_variables (ctx_clone c))(''backend_request'' \<mapsto> bereq_value env (cx_inner c) (bp_request resp),
            ''backend_response'' \<mapsto> beresp_value env (cx_inner c) resp, ''backend'' \<mapsto> bv)))"; force)+
  then obtain bs v1 v2 v3 where v1: "mergeBackendVariables ''backends'' bs ?vars = Some v1"
      and v2: "mergeBackendVariables ''backend_requests'' [(name, q)] v1 = Some v2"
      and v3: "mergeBackendVariables ''backend_responses'' [(name, r)] v2 = Some v3"
      and ctx': "cx_variables ctx' = v3"
    unfolding bind_eq_Some_conv merge_all.simps by (auto simp: ctx_clone_def updateFunctions_def)
  have "v2 k = cx_variables c k" if "k \<notin> {''backends'', ''backend_requests'', ''backend_request'', ''backend_response'', ''backend''}" for k
    using merge_changes_key[OF v1, of k] merge_changes_key[OF v2, of k] that by simp
  then have "var_value v2 ''backend_responses'' = CObject kvs" using assms(2) by (simp add: var_value_def)
  note added = merge_one_response[OF v3 this assms(3)]
  have "v3 ''backend_response'' = Some r"
    using merge_changes_key[OF v1] merge_changes_key[OF v2] merge_changes_key[OF v3] by simp
  with added show ?thesis by (simp only: ctx' vals(3) var_value_def option.case)
qed

text \<open>
  A body that can be read is replaced by its bytes or closed, but for an upgrade and the default request, whose body the
  endpoint passes on; a body that fails is left open.
\<close>

theorem response_body_kept:
  assumes "bp_body resp = BodyBytes b"
  shows "snd (beresp_body env resp) \<in> {Replaced b, Closed, Untouched} \<and>
    (snd (beresp_body env resp) = Untouched \<longrightarrow>
       IsUpgradeResponse (rc_websockets (sr_context (bp_request resp))) (req_header (sr_request (bp_request resp))) (bp_header resp) \<or>
       roundtrip_name (sr_context (bp_request resp)) = ''default'')"
  using assms by (auto simp: beresp_body_def parseRespJsonBody_def Let_def split: prod.splits if_splits)

text \<open>The verifier of a context is made once.\<close>

theorem code_verifier_once:
  assumes "getCodeVerifier a c = (Inr v, c')"
  shows "getCodeVerifier b c' = (Inr v, c')"
  using assms by (auto simp: getCodeVerifier_def split: option.splits sum.splits)

text \<open>Without any variable in the environment of the process, the defaults and the files there is no context.\<close>

theorem empty_environment_panics:
  "NewContext lexer version [] [] [] todo environment = None"
  by (simp add: NewContext_def newCtyEnvMap_def map_val_def)

section \<open>Witnesses\<close>

definition demo_rc :: request_context where
  "demo_rc = \<lparr>rc_endpoint = Some ''/'', rc_uid = None, rc_path_params = None, rc_buffer = None,
     rc_access = [(''token'', GMap (Some [(''sub'', GString ''me'')]))], rc_granted = [''read''], rc_required = Some ''read'',
     rc_name = None, rc_backend = None, rc_token_request = None, rc_websockets = False\<rparr>"

definition demo_sent :: sent_request where
  "demo_sent = \<lparr>sr_request = \<lparr>req_method = ''GET'', req_host = ''h'', req_path = ''/'', req_query = [], req_header = Map.empty,
       br_wildcard = None, br_form = None, br_body = None, br_length = 0\<rparr>,
     sr_url = \<lparr>u_scheme = ''http'', u_user = None, u_host = ''h:8080'', u_path = ''/'', u_force_query = False, u_query = [], u_fragment = []\<rparr>,
     sr_context = demo_rc\<rparr>"

definition demo_env :: value_env where
  "demo_env = \<lparr>ve_unmarshal = (\<lambda>_. None), ve_url_string = u_host, ve_headers = (\<lambda>_. []), ve_set_cookies = (\<lambda>_. [])\<rparr>"

definition demo_ctx :: eval_ctx where
  "demo_ctx = \<lparr>cx_backends = [], cx_loaded = True,
     cx_variables = [''backend_requests'' \<mapsto> CObject [], ''backend_responses'' \<mapsto> CObject [(''old'', CBool True)]],
     cx_functions = newFunctionsMap, cx_inner = demo_rc, cx_memStore = None, cx_verifier = None, cx_oauth2 = [], cx_jwt = [], cx_saml = [],
     cx_synced = Some (run_sets [(demo_rc, ''r'', CBool False, CBool False), (demo_rc, ''r'', CBool True, CBool True)])\<rparr>"

lemma request_context_shown_witness:
  "at_path (client_request_value demo_env demo_sent) [''context'', ''token''] = Some (CObject [(''sub'', CString ''me'')]) \<and>
   at_path (client_request_value demo_env demo_sent) [''context'', ''granted_permissions''] = Some (CList TString [CString ''read''])"
  using request_context_shown[of demo_sent demo_env "''token''"] request_context_shown[of demo_sent demo_env "''granted_permissions''"]
  by (simp add: demo_sent_def demo_rc_def MapToValue_def)


lemma environment_complete_witness:
  "newCtyEnvMap (\<lambda>_. Some [(False, ''env''), (True, ''.''), (False, ''A'')]) [''x''] [(''B'', ''1'')] [''B=2''] \<noteq> None"
proof
  let ?lexer = "\<lambda>_. Some [(False, ''env''), (True, ''.''), (False, ''A'')]"
  let ?tokens = "[[(False, ''env''), (True, ''.''), (False, ''A'')]]"
  assume "newCtyEnvMap ?lexer [''x''] [(''B'', ''1'')] [''B=2''] = None"
  with environment_complete[of ?lexer "[''x'']" ?tokens "[(''B'', ''1'')]" "[''B=2'']"]
  have "env_value ?tokens [(''B'', ''1'')] [''B=2''] ''A'' = None" by simp
  then show False by (simp add: env_value_def)
qed

end
