(* ===== verification/Durations.thy ===== *)
theory Durations
  imports GoPrelude
begin

text \<open>
  Durations: \<open>time.ParseDuration\<close> of the standard library and \<open>config.ParseDuration\<close>
  (\<open>config/duration.go\<close>), which every duration attribute of a configuration goes through.
  A \<open>time.Duration\<close> is a number of nanoseconds of 64 bits; it is an \<open>int\<close> here, and the
  bounds the parser keeps are a lemma. The parser reads an optional sign and then pairs of a
  decimal number and a unit. Its fraction is scaled with floating point numbers in the library
  and with exact (rounded down) division here.
\<close>

type_synonym duration = int

datatype duration_error =
    InvalidDuration string
  | MissingUnit string
  | UnknownUnit string string

text \<open>The texts of these errors; \<open>quote\<close> is the function of the package \<open>time\<close>.\<close>

definition hex_char :: "nat \<Rightarrow> char" where
  "hex_char n = (if n < 10 then char_of (48 + n) else char_of (87 + n))"

definition quote_char :: "char \<Rightarrow> string" where
  "quote_char c = (let n = of_char c :: nat in
     if 128 \<le> n \<or> n < 32 then [CHR 0x5C, CHR ''x'', hex_char (n div 16), hex_char (n mod 16)]
     else if c = CHR 0x22 \<or> c = CHR 0x5C then [CHR 0x5C, c] else [c])"

definition time_quote :: "string \<Rightarrow> string" where
  "time_quote s = CHR 0x22 # concat (map quote_char s) @ [CHR 0x22]"

fun duration_error_text :: "duration_error \<Rightarrow> string" where
  "duration_error_text (InvalidDuration s) = ''time: invalid duration '' @ time_quote s"
| "duration_error_text (MissingUnit s) = ''time: missing unit in duration '' @ time_quote s"
| "duration_error_text (UnknownUnit u s) = ''time: unknown unit '' @ time_quote u @ '' in duration '' @ time_quote s"

definition is_digit :: "char \<Rightarrow> bool" where
  "is_digit c \<longleftrightarrow> (let n = of_char c :: int in 48 \<le> n \<and> n \<le> 57)"

definition digit_val :: "char \<Rightarrow> int" where
  "digit_val c = of_char c - 48"

fun leading_int :: "int \<Rightarrow> string \<Rightarrow> (int \<times> string) option" where
  "leading_int x [] = Some (x, [])"
| "leading_int x (c # s) =
     (if \<not> is_digit c then Some (x, c # s)
      else if x > 2 ^ 63 div 10 then None
      else let y = x * 10 + digit_val c in
        if y > 2 ^ 63 then None else leading_int y s)"

fun leading_fraction :: "int \<Rightarrow> int \<Rightarrow> bool \<Rightarrow> string \<Rightarrow> int \<times> int \<times> string" where
  "leading_fraction x scale ovf [] = (x, scale, [])"
| "leading_fraction x scale ovf (c # s) =
     (if \<not> is_digit c then (x, scale, c # s)
      else if ovf then leading_fraction x scale True s
      else if x > (2 ^ 63 - 1) div 10 then leading_fraction x scale True s
      else let y = x * 10 + digit_val c in
        if y > 2 ^ 63 then leading_fraction x scale True s
        else leading_fraction y (scale * 10) False s)"

definition unit_map :: "string \<Rightarrow> int option" where
  "unit_map u =
     (if u = ''ns'' then Some 1
      else if u = ''us'' \<or> u = [CHR 0xC2, CHR 0xB5, CHR ''s''] \<or> u = [CHR 0xCE, CHR 0xBC, CHR ''s'']
        then Some 1000
      else if u = ''ms'' then Some 1000000
      else if u = ''s'' then Some 1000000000
      else if u = ''m'' then Some 60000000000
      else if u = ''h'' then Some 3600000000000
      else None)"

text \<open>A unit extends up to the next digit or point.\<close>

definition unit_char :: "char \<Rightarrow> bool" where
  "unit_char c \<longleftrightarrow> c \<noteq> CHR ''.'' \<and> \<not> is_digit c"

text \<open>The optional fraction of a number: its value, its scale, the rest, and whether it has digits.\<close>

definition parse_fraction :: "string \<Rightarrow> int \<times> int \<times> string \<times> bool" where
  "parse_fraction s =
     (case s of
        [] \<Rightarrow> (0, 1, s, False)
      | c # s' \<Rightarrow>
          if c = CHR ''.'' then
            (let (f, scale, r) = leading_fraction 0 1 False s' in (f, scale, r, length r \<noteq> length s'))
          else (0, 1, s, False))"

text \<open>The unit of a number, applied to its integer part and its fraction.\<close>

definition parse_unit ::
    "string \<Rightarrow> int \<Rightarrow> int \<Rightarrow> int \<Rightarrow> string \<Rightarrow> duration_error + int \<times> string" where
  "parse_unit orig v f scale s =
     (let u = takeWhile unit_char s in
      if u = [] then Inl (MissingUnit orig)
      else case unit_map u of
        None \<Rightarrow> Inl (UnknownUnit u orig)
      | Some unit \<Rightarrow>
          if v > 2 ^ 63 div unit then Inl (InvalidDuration orig)
          else
            let v' = v * unit; v'' = (if f > 0 then v' + f * unit div scale else v') in
            if f > 0 \<and> v'' > 2 ^ 63 then Inl (InvalidDuration orig)
            else Inr (v'', dropWhile unit_char s))"

text \<open>One number with its unit: the nanoseconds it stands for and the rest of the input.\<close>

definition parse_component :: "string \<Rightarrow> string \<Rightarrow> duration_error + int \<times> string" where
  "parse_component orig s =
     (if s = [] \<or> (hd s \<noteq> CHR ''.'' \<and> \<not> is_digit (hd s)) then Inl (InvalidDuration orig)
      else case leading_int 0 s of
        None \<Rightarrow> Inl (InvalidDuration orig)
      | Some (v, s1) \<Rightarrow>
          (case parse_fraction s1 of
            (f, scale, s2, post) \<Rightarrow>
              if length s1 = length s \<and> \<not> post then Inl (InvalidDuration orig)
              else parse_unit orig v f scale s2))"

lemma leading_int_length: "leading_int x s = Some (v, t) \<Longrightarrow> length t \<le> length s"
  by (induction x s rule: leading_int.induct) (auto simp: Let_def split: if_splits)

lemma leading_fraction_length: "leading_fraction x sc b s = (v, sc', t) \<Longrightarrow> length t \<le> length s"
  by (induction x sc b s rule: leading_fraction.induct) (auto simp: Let_def split: if_splits)

lemma parse_fraction_length: "parse_fraction s = (f, scale, r, b) \<Longrightarrow> length r \<le> length s"
  by (auto simp: parse_fraction_def dest!: leading_fraction_length
      split: list.splits if_splits prod.splits)

lemma dropWhile_shorter: "takeWhile p s \<noteq> [] \<Longrightarrow> length (dropWhile p s) < length s"
  by (metis dropWhile_eq_self_iff length_dropWhile_le linorder_neqE_nat not_less
      takeWhile_dropWhile_id append_eq_conv_conj length_append less_add_same_cancel2
      length_greater_0_conv)

lemma parse_unit_shorter: "parse_unit orig v f scale s = Inr (w, t) \<Longrightarrow> length t < length s"
  by (auto simp: parse_unit_def Let_def dropWhile_shorter split: if_splits option.splits)

lemma parse_component_shorter: "parse_component orig s = Inr (v, t) \<Longrightarrow> length t < length s"
  by (fastforce simp: parse_component_def
      dest: leading_int_length parse_fraction_length parse_unit_shorter
      split: if_splits option.splits prod.splits)

function parse_components :: "string \<Rightarrow> int \<Rightarrow> string \<Rightarrow> duration_error + int" where
  "parse_components orig d s =
     (if s = [] then Inr d
      else case parse_component orig s of
        Inl e \<Rightarrow> Inl e
      | Inr (v, t) \<Rightarrow>
          let d' = (d + v) mod 2 ^ 64 in
          if d' > 2 ^ 63 then Inl (InvalidDuration orig) else parse_components orig d' t)"
  by pat_completeness auto
termination
  by (relation "measure (\<lambda>(orig, d, s). length s)") (auto dest: parse_component_shorter)

declare parse_components.simps [simp del]

definition time_parse_duration :: "string \<Rightarrow> duration_error + duration" where
  "time_parse_duration orig =
     (let neg = (orig \<noteq> [] \<and> hd orig = CHR ''-'');
          s = (if orig \<noteq> [] \<and> (hd orig = CHR ''-'' \<or> hd orig = CHR ''+'') then tl orig else orig)
      in if s = ''0'' then Inr 0
         else if s = [] then Inl (InvalidDuration orig)
         else case parse_components orig 0 s of
           Inl e \<Rightarrow> Inl e
         | Inr d \<Rightarrow>
             if neg then Inr (- d)
             else if d > 2 ^ 63 - 1 then Inl (InvalidDuration orig)
             else Inr d)"

text \<open>\<open>config.ParseDuration\<close>: an empty value is the default, a negative duration is an error.\<close>

datatype config_duration_error =
    DurationSyntax string duration_error
  | DurationNegative string string

definition ParseDuration ::
    "string \<Rightarrow> string \<Rightarrow> duration \<Rightarrow> config_duration_error + duration" where
  "ParseDuration attribute value dflt =
     (if value = [] then Inr dflt
      else case time_parse_duration value of
        Inl e \<Rightarrow> Inl (DurationSyntax attribute e)
      | Inr d \<Rightarrow> if d < 0 then Inl (DurationNegative attribute value) else Inr d)"

section \<open>Bounds\<close>

lemma parse_components_bound:
  "parse_components orig d s = Inr r \<Longrightarrow> 0 \<le> d \<and> d \<le> 2 ^ 63 \<Longrightarrow> 0 \<le> r \<and> r \<le> 2 ^ 63"
proof (induction orig d s rule: parse_components.induct)
  case (1 orig d s)
  then show ?case
    by (subst (asm) (2) parse_components.simps)
      (auto simp: Let_def split: if_splits sum.splits prod.splits)
qed

lemma time_parse_duration_bounds:
  "time_parse_duration s = Inr d \<Longrightarrow> - (2 ^ 63) \<le> d \<and> d < 2 ^ 63"
  by (auto simp: time_parse_duration_def Let_def dest!: parse_components_bound
      split: if_splits sum.splits)

lemma ParseDuration_bounds:
  assumes "ParseDuration a v def = Inr d" and "0 \<le> def" and "def < 2 ^ 63"
  shows "0 \<le> d \<and> d < 2 ^ 63"
  using assms time_parse_duration_bounds [of v d]
  by (auto simp: ParseDuration_def split: if_splits sum.splits)

end
