(* ===== verification/RingBuffer.thy ===== *)
theory RingBuffer
  imports GoPrelude
begin

text \<open>
  The ring buffer of the rate limiter (\<open>handler/ratelimit/ring_buffer.go\<close>). The indices are
  Go \<open>uint\<close>s of 64 bits, so \<open>len - 1\<close> and the increments are word operations. A slot holds
  a \<open>time.Time\<close>: \<open>None\<close> is the zero time a fresh buffer is filled with, \<open>Some t\<close> an instant
  in nanoseconds. \<open>put\<close> and \<open>get\<close> return \<open>None\<close> where the code panics: a remainder by
  the length 0, or an index out of range. The buffer's mutex is held for the whole of each
  operation, so the operations are atomic.

  The interface \<open>sliding_log\<close> is what the limiter needs of it: a log of fixed length that
  forgets its oldest entry with every \<open>put\<close> and whose \<open>get\<close> returns the oldest entry.
\<close>

type_synonym uint = "64 word"
type_synonym instant = int

record ring_buffer =
  rb_buf :: "instant option list"
  rb_len :: uint
  rb_r :: uint
  rb_w :: uint

definition newRingBuffer :: "uint \<Rightarrow> ring_buffer" where
  "newRingBuffer n =
     \<lparr>rb_buf = replicate (unat n) None, rb_len = n, rb_r = 0, rb_w = n - 1\<rparr>"

definition rb_put :: "instant \<Rightarrow> ring_buffer \<Rightarrow> ring_buffer option" where
  "rb_put t b =
     (if rb_len b = 0 then None
      else
        let r' = (rb_r b + 1) mod rb_len b;
            w' = (rb_w b + 1) mod rb_len b
        in if unat w' < length (rb_buf b)
           then Some (b\<lparr>rb_r := r', rb_w := w', rb_buf := (rb_buf b)[unat w' := Some t]\<rparr>)
           else None)"

definition rb_get :: "ring_buffer \<Rightarrow> instant option option" where
  "rb_get b =
     (if unat (rb_r b) < length (rb_buf b) then Some (rb_buf b ! unat (rb_r b)) else None)"

section \<open>The interface of a sliding log\<close>

definition put_all :: "('x \<Rightarrow> 'b \<Rightarrow> 'b option) \<Rightarrow> 'x list \<Rightarrow> 'b \<Rightarrow> 'b option" where
  "put_all put xs b = fold (\<lambda>x acc. Option.bind acc (put x)) xs (Some b)"

locale sliding_log =
  fixes inv :: "'b \<Rightarrow> bool"
    and entries :: "'b \<Rightarrow> 'x option list"
    and put :: "'x \<Rightarrow> 'b \<Rightarrow> 'b option"
    and get :: "'b \<Rightarrow> 'x option option"
  assumes log_nonempty: "inv b \<Longrightarrow> entries b \<noteq> []"
    and log_put: "inv b \<Longrightarrow> \<exists>b'. put x b = Some b' \<and> inv b' \<and> entries b' = tl (entries b) @ [Some x]"
    and log_get: "inv b \<Longrightarrow> get b = Some (hd (entries b))"
begin

lemma log_putE:
  assumes "inv b"
  obtains b' where "put x b = Some b'" "inv b'" "entries b' = tl (entries b) @ [Some x]"
  using log_put [OF assms] by blast

lemma log_put_all:
  "inv b \<Longrightarrow> \<exists>b'. put_all put xs b = Some b' \<and> inv b' \<and>
     entries b' = drop (length xs) (entries b @ map Some xs)"
proof (induction xs arbitrary: b)
  case Nil
  then show ?case by (simp add: put_all_def)
next
  case (Cons x xs)
  obtain b1 where b1: "put x b = Some b1" "inv b1" "entries b1 = tl (entries b) @ [Some x]"
    by (rule log_putE [OF Cons.prems])
  from Cons.IH [OF b1(2)] show ?case
    using b1 log_nonempty [OF Cons.prems] by (cases "entries b") (auto simp: put_all_def)
qed

text \<open>After \<open>n\<close> or more puts, a log of length \<open>n\<close> returns the entry put \<open>n\<close> puts before.\<close>

lemma log_get_put_all:
  assumes "inv b" and "length (entries b) \<le> length xs"
  shows "\<exists>b'. put_all put xs b = Some b' \<and>
     get b' = Some (Some (xs ! (length xs - length (entries b))))"
proof -
  obtain b' where b': "put_all put xs b = Some b'" "inv b'"
      "entries b' = drop (length xs) (entries b @ map Some xs)"
    using log_put_all [OF assms(1)] by blast
  have "entries b \<noteq> []" by (rule log_nonempty [OF assms(1)])
  then have "length xs < length (entries b @ map Some xs)"
    and lt: "length xs - length (entries b) < length xs"
    using assms(2) by (cases "entries b"; simp)+
  then have "hd (entries b') = (entries b @ map Some xs) ! length xs"
    using b'(3) by (simp add: hd_drop_conv_nth del: drop_append)
  also have "\<dots> = Some (xs ! (length xs - length (entries b)))"
    using assms(2) lt by (simp add: nth_append)
  finally show ?thesis using b' log_get by auto
qed

end

section \<open>The ring buffer is a sliding log\<close>

definition rb_inv :: "ring_buffer \<Rightarrow> bool" where
  "rb_inv b \<longleftrightarrow> rb_len b \<noteq> 0 \<and> length (rb_buf b) = unat (rb_len b) \<and>
     unat (rb_w b) < unat (rb_len b) \<and> unat (rb_r b) = Suc (unat (rb_w b)) mod unat (rb_len b)"

text \<open>The entries from the oldest to the newest: the buffer read from \<open>r\<close> around.\<close>

definition rb_entries :: "ring_buffer \<Rightarrow> instant option list" where
  "rb_entries b = rotate (unat (rb_r b)) (rb_buf b)"

lemma unat_uint64: "unat (x :: uint) < 2 ^ 64"
  by (rule order_less_le_trans [OF unsigned_less]) simp

lemma unat_inc_mod:
  fixes x n :: uint
  assumes "unat x < unat n"
  shows "unat ((x + 1) mod n) = Suc (unat x) mod unat n"
proof -
  have "unat x + 1 < 2 ^ 64" using assms unat_uint64 [of n] by simp
  then have "unat (x + 1) = Suc (unat x)"
    by (simp add: unat_word_ariths)
  then show ?thesis by (simp add: unat_mod_distrib)
qed

lemma rotate_Suc_update:
  assumes "k < length xs"
  shows "rotate (Suc k) (xs[k := x]) = tl (rotate k xs) @ [x]"
proof -
  have "rotate k xs = drop k xs @ take k xs"
    using assms by (simp add: rotate_drop_take)
  moreover have "drop k xs = xs ! k # drop (Suc k) xs"
    using assms by (simp add: Cons_nth_drop_Suc)
  ultimately have "tl (rotate k xs) @ [x] = drop (Suc k) xs @ take k xs @ [x]"
    by simp
  moreover have "rotate k (xs[k := x]) = x # drop (Suc k) xs @ take k xs"
    using assms by (simp add: rotate_drop_take upd_conv_take_nth_drop)
  ultimately show ?thesis by (simp add: rotate1_rotate_swap rotate_Suc)
qed

lemma rb_inv_new: "n \<noteq> 0 \<Longrightarrow> rb_inv (newRingBuffer n)"
proof -
  assume n: "n \<noteq> 0"
  then have "unat n > 0" by (simp add: unat_gt_0)
  then have "unat (n - 1) = unat n - 1"
    by (simp add: unat_minus_one n)
  with \<open>unat n > 0\<close> n show ?thesis
    by (simp add: rb_inv_def newRingBuffer_def)
qed

lemma rb_entries_new: "rb_entries (newRingBuffer n) = replicate (unat n) None"
  by (simp add: rb_entries_def newRingBuffer_def)

lemma rb_put_spec:
  assumes "rb_inv b"
  shows "\<exists>b'. rb_put t b = Some b' \<and> rb_inv b' \<and> rb_len b' = rb_len b \<and>
     rb_entries b' = tl (rb_entries b) @ [Some t]"
proof -
  let ?n = "unat (rb_len b)" and ?w = "unat (rb_w b)" and ?r = "unat (rb_r b)"
  let ?w' = "(rb_w b + 1) mod rb_len b" and ?r' = "(rb_r b + 1) mod rb_len b"
  from assms have n0: "rb_len b \<noteq> 0" and len: "length (rb_buf b) = ?n" and w: "?w < ?n"
    and r: "?r = Suc ?w mod ?n"
    by (auto simp: rb_inv_def)
  have r_lt: "?r < ?n" using r w by simp
  have w': "unat ?w' = ?r" using unat_inc_mod [OF w] r by simp
  have r': "unat ?r' = Suc ?r mod ?n" by (rule unat_inc_mod [OF r_lt])
  define b' where "b' = b\<lparr>rb_r := ?r', rb_w := ?w', rb_buf := (rb_buf b)[?r := Some t]\<rparr>"
  have "rb_put t b = Some b'"
    using n0 r_lt len w' by (simp add: rb_put_def Let_def b'_def)
  moreover have "rb_inv b'"
    using n0 len r_lt w' r' by (simp add: rb_inv_def b'_def)
  moreover have "rb_entries b' = tl (rb_entries b) @ [Some t]"
  proof -
    have "rb_entries b' = rotate (Suc ?r) ((rb_buf b)[?r := Some t])"
      using r' len rotate_conv_mod [of "Suc ?r" "(rb_buf b)[?r := Some t]"]
      by (simp add: rb_entries_def b'_def)
    then show ?thesis
      using rotate_Suc_update [of ?r "rb_buf b" "Some t"] r_lt len by (simp add: rb_entries_def)
  qed
  ultimately show ?thesis by (auto simp: b'_def)
qed

lemma rb_get_spec: "rb_inv b \<Longrightarrow> rb_get b = Some (hd (rb_entries b))"
  using hd_rotate_conv_nth [of "rb_buf b" "unat (rb_r b)"]
  by (auto simp: rb_inv_def rb_get_def rb_entries_def unat_gt_0 simp flip: length_0_conv)

lemma rb_entries_nonempty: "rb_inv b \<Longrightarrow> rb_entries b \<noteq> []"
  by (auto simp: rb_inv_def rb_entries_def unat_eq_0 simp flip: length_0_conv)

interpretation ring: sliding_log rb_inv rb_entries rb_put rb_get
  using rb_put_spec rb_get_spec rb_entries_nonempty by unfold_locales blast+

end
