(* ===== verification/RateLimit.thy ===== *)
theory RateLimit
  imports Durations RingBuffer
begin

text \<open>
  The rate limiter of a backend (\<open>handler/ratelimit/config.go\<close>, \<open>limiter.go\<close>).

  \<open>ConfigureRateLimits\<close> turns the \<open>beta_rate_limit\<close> blocks of a backend into limits. The
  limiter's goroutine \<open>slowTripper\<close> takes the requests one by one; \<open>slow_trip\<close> is one turn of
  its loop. What the turn does not decide itself is its environment \<open>trip_env\<close>: whether the
  request's context is already done, the clock readings, and which case the second \<open>select\<close>
  takes. The field \<open>lim_locked\<close> is the limiter's mutex, which only this goroutine locks.
  Instants and durations are nanoseconds; the counter of a fixed window is a \<open>uint\<close>.
\<close>

datatype rl_mode = ModeUnset | ModeBlock | ModeWait

datatype rl_window = WindowFixed | WindowSliding

text \<open>\<open>config.RateLimit\<close>, one block of the configuration.\<close>

record rl_conf =
  cf_Mode :: string
  cf_Period :: string
  cf_PerPeriod :: uint
  cf_PeriodWindow :: string

record rate_limit =
  rl_count :: uint
  rl_mode :: rl_mode
  rl_period :: duration
  rl_periodStart :: instant
  rl_perPeriod :: uint
  rl_ringBuffer :: "ring_buffer option"
  rl_window :: rl_window

datatype rl_error =
    RLDuration config_duration_error
  | PeriodZero
  | PerPeriodZero
  | DuplicatePeriod string
  | UnsupportedWindow string
  | UnsupportedMode string

section \<open>Configuration\<close>

definition parse_window :: "string \<Rightarrow> rl_error + rl_window" where
  "parse_window s =
     (if s = [] \<or> s = ''sliding'' then Inr WindowSliding
      else if s = ''fixed'' then Inr WindowFixed
      else Inl (UnsupportedWindow s))"

definition parse_mode :: "string \<Rightarrow> rl_error + rl_mode" where
  "parse_mode s =
     (if s = [] \<or> s = ''wait'' then Inr ModeWait
      else if s = ''block'' then Inr ModeBlock
      else Inl (UnsupportedMode s))"

text \<open>One turn of the loop; \<open>seen\<close> is the map \<open>uniqueDurations\<close>.\<close>

definition configure_one :: "duration list \<Rightarrow> rl_conf \<Rightarrow> rl_error + rate_limit" where
  "configure_one seen limit =
     (case ParseDuration ''period'' (cf_Period limit) 0 of
        Inl e \<Rightarrow> Inl (RLDuration e)
      | Inr d \<Rightarrow>
          if d = 0 then Inl PeriodZero
          else if cf_PerPeriod limit = 0 then Inl PerPeriodZero
          else if d \<in> set seen then Inl (DuplicatePeriod (cf_Period limit))
          else case parse_window (cf_PeriodWindow limit) of
            Inl e \<Rightarrow> Inl e
          | Inr window \<Rightarrow>
              (case parse_mode (cf_Mode limit) of
                 Inl e \<Rightarrow> Inl e
               | Inr mode \<Rightarrow>
                   Inr \<lparr>rl_count = 0, rl_mode = mode, rl_period = d, rl_periodStart = 0,
                     rl_perPeriod = cf_PerPeriod limit,
                     rl_ringBuffer =
                       (case window of WindowSliding \<Rightarrow> Some (newRingBuffer (cf_PerPeriod limit))
                        | WindowFixed \<Rightarrow> None),
                     rl_window = window\<rparr>))"

fun configure_all ::
    "duration list \<Rightarrow> rate_limit list \<Rightarrow> rl_conf list \<Rightarrow> rl_error + rate_limit list" where
  "configure_all seen acc [] = Inr acc"
| "configure_all seen acc (limit # limits) =
     (case configure_one seen limit of
        Inl e \<Rightarrow> Inl e
      | Inr rl \<Rightarrow> configure_all (rl_period rl # seen) (acc @ [rl]) limits)"

text \<open>The periods are distinct, so the order by descending period is unique and the library's
  (unstable) \<open>sort.Slice\<close> is any sorting function.\<close>

definition ConfigureRateLimits :: "rl_conf list \<Rightarrow> rl_error + rate_limit list" where
  "ConfigureRateLimits limits =
     (case configure_all [] [] limits of
        Inl e \<Rightarrow> Inl e
      | Inr rls \<Rightarrow> Inr (sort_key (\<lambda>rl. - rl_period rl) rls))"

section \<open>The limiter\<close>

record limiter =
  lim_limits :: "rate_limit list"
  lim_locked :: bool

text \<open>\<open>NewLimiter\<close>: no limiter without limits; every limit reads the clock for its start.\<close>

definition NewLimiter :: "instant list \<Rightarrow> rate_limit list \<Rightarrow> limiter option" where
  "NewLimiter nows limits =
     (if limits = [] then None
      else Some \<lparr>lim_limits = map2 (\<lambda>rl now. rl\<lparr>rl_periodStart := now\<rparr>) limits nows,
                 lim_locked = False\<rparr>)"

text \<open>One limit of \<open>checkCapacity\<close>: the updated limit, and the time to wait if there is one;
  \<open>None\<close> is the panic of a missing or broken ring buffer.\<close>

definition check_limit :: "instant \<Rightarrow> rate_limit \<Rightarrow> (rate_limit \<times> duration option) option" where
  "check_limit now rl =
     (case rl_window rl of
        WindowFixed \<Rightarrow>
          let multiplicator = go_div (now - rl_periodStart rl) (rl_period rl);
              rl' = (if multiplicator > 0
                then rl\<lparr>rl_periodStart := rl_periodStart rl + rl_period rl * multiplicator, rl_count := 0\<rparr>
                else rl)
          in Some (rl',
               if rl_perPeriod rl' \<le> rl_count rl' then Some (rl_periodStart rl' + rl_period rl' - now)
               else None)
      | WindowSliding \<Rightarrow>
          (case Option.bind (rl_ringBuffer rl) rb_get of
             None \<Rightarrow> None
           | Some None \<Rightarrow> Some (rl, None)
           | Some (Some latest) \<Rightarrow>
               Some (rl, if now < latest + rl_period rl then Some (latest + rl_period rl - now) else None)))"

text \<open>The loop over the limits: each limit that has to wait overwrites the mode and the time.\<close>

fun check_capacity ::
    "instant \<Rightarrow> rate_limit list \<Rightarrow> rl_mode \<times> duration \<Rightarrow> (rate_limit list \<times> rl_mode \<times> duration) option"
where
  "check_capacity now [] (mode, t) = Some ([], mode, t)"
| "check_capacity now (rl # rls) (mode, t) =
     (case check_limit now rl of
        None \<Rightarrow> None
      | Some (rl', wait) \<Rightarrow>
          (case check_capacity now rls
             (case wait of Some t' \<Rightarrow> (rl_mode rl', t') | None \<Rightarrow> (mode, t)) of
             None \<Rightarrow> None
           | Some (rls', r) \<Rightarrow> Some (rl' # rls', r)))"

text \<open>\<open>RateLimit.countRequest\<close>; the clock is read by the sliding window only.\<close>

definition count_limit :: "rate_limit \<Rightarrow> instant \<Rightarrow> rate_limit option" where
  "count_limit rl now =
     (case rl_window rl of
        WindowFixed \<Rightarrow> Some (rl\<lparr>rl_count := rl_count rl + 1\<rparr>)
      | WindowSliding \<Rightarrow>
          (case Option.bind (rl_ringBuffer rl) (rb_put now) of
             None \<Rightarrow> None
           | Some b \<Rightarrow> Some (rl\<lparr>rl_ringBuffer := Some b\<rparr>)))"

fun countRequest :: "rate_limit list \<Rightarrow> instant list \<Rightarrow> rate_limit list option" where
  "countRequest (rl # rls) (now # nows) =
     (case count_limit rl now of
        None \<Rightarrow> None
      | Some rl' \<Rightarrow> map_option ((#) rl') (countRequest rls nows))"
| "countRequest rls nows = Some rls"

record trip_env =
  env_done :: bool
  env_now :: instant
  env_cancel :: bool
  env_counts :: "instant list"

datatype trip_outcome =
    QueueCanceled
  | Blocked
  | WaitCanceled
  | Forwarded
  | Deadlocked
  | Panicked

definition slow_trip :: "trip_env \<Rightarrow> limiter \<Rightarrow> trip_outcome \<times> limiter" where
  "slow_trip env l =
     (if env_done env then (QueueCanceled, l)
      else if lim_locked l then (Deadlocked, l)
      else case check_capacity (env_now env) (lim_limits l) (ModeUnset, 0) of
        None \<Rightarrow> (Panicked, l\<lparr>lim_locked := True\<rparr>)
      | Some (limits, mode, t) \<Rightarrow>
          if mode = ModeBlock \<and> t > 0 then (Blocked, l\<lparr>lim_limits := limits\<rparr>)
          else if env_cancel env then (WaitCanceled, l\<lparr>lim_limits := limits, lim_locked := True\<rparr>)
          else case countRequest limits (env_counts env) of
            None \<Rightarrow> (Panicked, l\<lparr>lim_limits := limits, lim_locked := True\<rparr>)
          | Some limits' \<Rightarrow> (Forwarded, l\<lparr>lim_limits := limits'\<rparr>))"

text \<open>What \<open>RoundTrip\<close> returns for the outcome of its turn: the status of the response, if there
  is one, and the error. The transport's result is an argument; a response with status 429 becomes
  the error of an exceeded limit. There is no answer from a turn that never ends.\<close>

datatype 'e trip_error = CtxErr | RateLimitExceeded "'e option" | TransportErr 'e

definition trip_result :: "trip_outcome \<Rightarrow> nat option \<times> 'e option \<Rightarrow>
    (nat option \<times> 'e trip_error option) option" where
  "trip_result out upstream =
     (case out of
        QueueCanceled \<Rightarrow> Some (None, Some CtxErr)
      | WaitCanceled \<Rightarrow> Some (None, Some CtxErr)
      | Blocked \<Rightarrow> Some (None, Some (RateLimitExceeded None))
      | Forwarded \<Rightarrow>
          (case upstream of (res, err) \<Rightarrow>
             Some (res, if res = Some 429 then Some (RateLimitExceeded err) else map_option TransportErr err))
      | Deadlocked \<Rightarrow> None
      | Panicked \<Rightarrow> None)"

text \<open>The time a turn has to wait before it counts its request.\<close>

definition time_to_wait :: "trip_env \<Rightarrow> limiter \<Rightarrow> duration" where
  "time_to_wait env l =
     (case check_capacity (env_now env) (lim_limits l) (ModeUnset, 0) of
        None \<Rightarrow> 0 | Some (limits, mode, t) \<Rightarrow> t)"

text \<open>What the runtime provides: one clock reading per limit, none before the request was
  checked, and none before the timer of \<open>time.After\<close> has fired.\<close>

definition timely :: "limiter \<Rightarrow> trip_env \<Rightarrow> bool" where
  "timely l env \<longleftrightarrow> length (env_counts env) = length (lim_limits l) \<and>
     list_all (\<lambda>c. env_now env \<le> c \<and> env_now env + time_to_wait env l \<le> c) (env_counts env)"

text \<open>A run of the goroutine: the turns with their environments and outcomes. A turn that locks a
  locked mutex or panics is the last one.\<close>

definition halted :: "(trip_env \<times> trip_outcome) list \<Rightarrow> bool" where
  "halted tr \<longleftrightarrow> list_ex (\<lambda>(env, out). out = Deadlocked \<or> out = Panicked) tr"

inductive slow_run :: "limiter \<Rightarrow> (trip_env \<times> trip_outcome) list \<Rightarrow> limiter \<Rightarrow> bool" where
  run_Nil: "slow_run l [] l"
| run_step: "slow_run l tr l' \<Longrightarrow> \<not> halted tr \<Longrightarrow> timely l' env \<Longrightarrow>
    slow_trip env l' = (out, l'') \<Longrightarrow> slow_run l (tr @ [(env, out)]) l''"

text \<open>The instants at which the forwarded requests of a run were counted, as read for the last
  limit, the one with the shortest period.\<close>

definition released :: "(trip_env \<times> trip_outcome) list \<Rightarrow> instant list" where
  "released tr = map (\<lambda>(env, out). last (env_counts env)) (filter (\<lambda>(env, out). out = Forwarded) tr)"

section \<open>Configured limits\<close>

definition rl_ok :: "rate_limit \<Rightarrow> bool" where
  "rl_ok rl \<longleftrightarrow> 0 < rl_period rl \<and> rl_perPeriod rl \<noteq> 0 \<and> rl_mode rl \<noteq> ModeUnset \<and>
     (case rl_window rl of
        WindowFixed \<Rightarrow> rl_ringBuffer rl = None
      | WindowSliding \<Rightarrow> \<exists>b. rl_ringBuffer rl = Some b \<and> rb_inv b \<and> rb_len b = rl_perPeriod rl)"

text \<open>A limit that has not counted a request yet.\<close>

definition rl_fresh :: "rate_limit \<Rightarrow> bool" where
  "rl_fresh rl \<longleftrightarrow> rl_count rl = 0 \<and>
     rl_ringBuffer rl = (case rl_window rl of WindowFixed \<Rightarrow> None
       | WindowSliding \<Rightarrow> Some (newRingBuffer (rl_perPeriod rl)))"

lemma rl_fresh_start [simp]: "rl_fresh (rl\<lparr>rl_periodStart := t\<rparr>) = rl_fresh rl"
  by (cases "rl_window rl") (simp_all add: rl_fresh_def)

lemma rl_ok_start [simp]: "rl_ok (rl\<lparr>rl_periodStart := t\<rparr>) = rl_ok rl"
  by (cases "rl_window rl") (simp_all add: rl_ok_def)

lemma parse_mode_set: "parse_mode s = Inr m \<Longrightarrow> m \<noteq> ModeUnset"
  by (auto simp: parse_mode_def split: if_splits)

lemma configure_one_ok:
  assumes "configure_one seen c = Inr rl"
  shows "rl_ok rl \<and> rl_fresh rl \<and> rl_period rl \<notin> set seen \<and> rl_perPeriod rl = cf_PerPeriod c"
proof -
  from assms obtain d w m where d: "ParseDuration ''period'' (cf_Period c) 0 = Inr d" "d \<noteq> 0"
    and n: "cf_PerPeriod c \<noteq> 0" and seen: "d \<notin> set seen"
    and m: "parse_mode (cf_Mode c) = Inr m"
    and rl: "\<lparr>rl_count = 0, rl_mode = m, rl_period = d, rl_periodStart = 0,
        rl_perPeriod = cf_PerPeriod c,
        rl_ringBuffer = (case w of WindowSliding \<Rightarrow> Some (newRingBuffer (cf_PerPeriod c))
          | WindowFixed \<Rightarrow> None), rl_window = w\<rparr> = rl"
    unfolding configure_one_def by (simp split: sum.splits if_splits)
  from ParseDuration_bounds [OF d(1)] d(2) have "0 < d" by simp
  with n seen parse_mode_set [OF m] show ?thesis
    by (cases w) (simp_all add: rl [symmetric] rl_ok_def rl_fresh_def rb_inv_new, simp add: newRingBuffer_def)
qed

lemma configure_all_ok:
  assumes "configure_all seen acc cs = Inr rls"
    and "\<forall>rl\<in>set acc. rl_ok rl \<and> rl_fresh rl" and "distinct (map rl_period acc)"
    and "set (map rl_period acc) = set seen"
  shows "(\<forall>rl\<in>set rls. rl_ok rl \<and> rl_fresh rl) \<and> distinct (map rl_period rls) \<and>
    map rl_perPeriod rls = map rl_perPeriod acc @ map cf_PerPeriod cs"
  using assms
proof (induction seen acc cs rule: configure_all.induct)
  case (2 seen acc c cs)
  from "2.prems"(1) obtain rl where rl: "configure_one seen c = Inr rl"
    by (cases "configure_one seen c") simp_all
  note ok = configure_one_ok [OF rl]
  with "2.prems" have "(\<forall>rl'\<in>set (acc @ [rl]). rl_ok rl' \<and> rl_fresh rl')"
    and "distinct (map rl_period (acc @ [rl]))"
    and "set (map rl_period (acc @ [rl])) = set (rl_period rl # seen)"
    by auto
  from "2.IH" [OF rl _ this] "2.prems"(1) rl ok show ?case by simp
qed simp

lemma ConfigureRateLimits_ok:
  assumes "ConfigureRateLimits cs = Inr rls"
  shows "(\<forall>rl\<in>set rls. rl_ok rl \<and> rl_fresh rl) \<and> sorted_wrt (>) (map rl_period rls) \<and>
    length rls = length cs"
proof -
  from assms obtain rls' where all: "configure_all [] [] cs = Inr rls'"
    and rls: "rls = sort_key (\<lambda>rl. - rl_period rl) rls'"
    by (auto simp: ConfigureRateLimits_def split: sum.splits)
  from configure_all_ok [OF all] have ok: "\<forall>rl\<in>set rls'. rl_ok rl \<and> rl_fresh rl"
    and dist: "distinct (map rl_period rls')" and len: "map rl_perPeriod rls' = map cf_PerPeriod cs"
    by auto
  have "sorted (map (\<lambda>rl. - rl_period rl) rls)" by (simp add: rls)
  moreover have "distinct (map (\<lambda>rl. - rl_period rl) rls)"
    using dist by (simp add: rls distinct_map inj_on_def)
  ultimately have "sorted_wrt (<) (map (\<lambda>rl. - rl_period rl) rls)"
    by (simp add: strict_sorted_iff)
  then have "sorted_wrt (>) (map rl_period rls)" by (simp add: sorted_wrt_map)
  moreover have "length rls' = length cs" using len by (metis length_map)
  ultimately show ?thesis using ok by (simp add: rls)
qed

section \<open>One turn of the loop\<close>

lemma check_limit_ok:
  assumes "rl_ok rl"
  shows "\<exists>rl' w. check_limit now rl = Some (rl', w) \<and> rl_ok rl' \<and> rl_mode rl' = rl_mode rl"
  using assms ring.log_get
  by (cases "rl_window rl")
    (fastforce simp: check_limit_def rl_ok_def Let_def split: option.splits)+

lemma count_limit_ok:
  assumes "rl_ok rl"
  shows "\<exists>rl'. count_limit rl now = Some rl' \<and> rl_ok rl'"
proof (cases "rl_window rl")
  case WindowFixed
  with assms show ?thesis by (simp add: count_limit_def rl_ok_def)
next
  case WindowSliding
  with assms obtain b where b: "rl_ringBuffer rl = Some b" "rb_inv b" "rb_len b = rl_perPeriod rl"
    by (auto simp: rl_ok_def)
  from rb_put_spec [OF b(2), of now] obtain b' where "rb_put now b = Some b'" "rb_inv b'"
      "rb_len b' = rb_len b"
    by blast
  with assms WindowSliding b show ?thesis by (simp add: count_limit_def rl_ok_def)
qed

lemma check_capacity_ok:
  assumes "\<forall>rl\<in>set rls. rl_ok rl"
  shows "\<exists>rls' r. check_capacity now rls a = Some (rls', r) \<and> (\<forall>rl\<in>set rls'. rl_ok rl)"
  using assms
proof (induction now rls a rule: check_capacity.induct)
  case (2 now rl rls mode t)
  from "2.prems" check_limit_ok [of rl now] obtain rl' w where
    w: "check_limit now rl = Some (rl', w)" "rl_ok rl'" by auto
  have ok: "\<forall>rl\<in>set rls. rl_ok rl" using "2.prems" by simp
  from "2.IH" [OF w(1) refl ok] obtain rls' r where
    "check_capacity now rls (case w of Some t' \<Rightarrow> (rl_mode rl', t') | None \<Rightarrow> (mode, t)) = Some (rls', r)"
    "\<forall>rl\<in>set rls'. rl_ok rl" by blast
  then have "check_capacity now (rl # rls) (mode, t) = Some (rl' # rls', r)"
    and "\<forall>rl\<in>set (rl' # rls'). rl_ok rl"
    using w by simp_all
  then show ?case by blast
qed simp

lemma countRequest_ok:
  assumes "\<forall>rl\<in>set rls. rl_ok rl"
  shows "\<exists>rls'. countRequest rls nows = Some rls' \<and> (\<forall>rl\<in>set rls'. rl_ok rl)"
  using assms
proof (induction rls nows rule: countRequest.induct)
  case (1 rl rls now nows)
  from "1.prems" count_limit_ok [of rl now] obtain rl' where
    w: "count_limit rl now = Some rl'" "rl_ok rl'" by auto
  from "1.IH" [OF w(1)] "1.prems" w(2) show ?case by (auto simp: w(1))
qed simp_all

definition lim_ok :: "limiter \<Rightarrow> bool" where
  "lim_ok l \<longleftrightarrow> lim_limits l \<noteq> [] \<and> (\<forall>rl\<in>set (lim_limits l). rl_ok rl)"

lemma check_capacity_length:
  "check_capacity now rls a = Some (rls', r) \<Longrightarrow> length rls' = length rls"
proof (induction now rls a arbitrary: rls' r rule: check_capacity.induct)
  case (2 now rl rls mode t)
  from "2.prems" obtain rl' w rls'' r' where "check_limit now rl = Some (rl', w)"
    and "check_capacity now rls (case w of Some t' \<Rightarrow> (rl_mode rl', t') | None \<Rightarrow> (mode, t)) = Some (rls'', r')"
    and "rls' = rl' # rls''"
    by (simp split: option.splits prod.splits)
  with "2.IH" show ?case by fastforce
qed simp

lemma countRequest_length: "countRequest rls nows = Some rls' \<Longrightarrow> length rls' = length rls"
  by (induction rls nows arbitrary: rls' rule: countRequest.induct) (auto split: option.splits)

text \<open>The shape of a turn on well-formed limits: every outcome but a panic.\<close>

lemma slow_trip_shape:
  assumes "lim_ok l"
  obtains limits mode t limits' where
    "check_capacity (env_now env) (lim_limits l) (ModeUnset, 0) = Some (limits, mode, t)"
    "countRequest limits (env_counts env) = Some limits'"
    "lim_ok (l\<lparr>lim_limits := limits\<rparr>)" "lim_ok (l\<lparr>lim_limits := limits'\<rparr>)"
    "length limits = length (lim_limits l)" "length limits' = length (lim_limits l)"
    "slow_trip env l =
       (if env_done env then (QueueCanceled, l)
        else if lim_locked l then (Deadlocked, l)
        else if mode = ModeBlock \<and> t > 0 then (Blocked, l\<lparr>lim_limits := limits\<rparr>)
        else if env_cancel env then (WaitCanceled, l\<lparr>lim_limits := limits, lim_locked := True\<rparr>)
        else (Forwarded, l\<lparr>lim_limits := limits'\<rparr>))"
proof -
  from assms have ne: "lim_limits l \<noteq> []" and ok: "\<forall>rl\<in>set (lim_limits l). rl_ok rl"
    by (simp_all add: lim_ok_def)
  from check_capacity_ok [OF ok, of "env_now env" "(ModeUnset, 0)"]
  obtain limits mode t where cc:
    "check_capacity (env_now env) (lim_limits l) (ModeUnset, 0) = Some (limits, mode, t)"
    and ok1: "\<forall>rl\<in>set limits. rl_ok rl" by auto
  from countRequest_ok [OF ok1] obtain limits' where
    cr: "countRequest limits (env_counts env) = Some limits'" and ok2: "\<forall>rl\<in>set limits'. rl_ok rl"
    by blast
  have len: "length limits = length (lim_limits l)" "length limits' = length (lim_limits l)"
    using check_capacity_length [OF cc] countRequest_length [OF cr] by simp_all
  then have "limits \<noteq> []" "limits' \<noteq> []" using ne by auto
  then show thesis
    using that [OF cc cr _ _ len] ok1 ok2 by (simp add: lim_ok_def slow_trip_def cc cr)
qed

lemma slow_trip_ok:
  assumes "lim_ok l" and "slow_trip env l = (out, l')"
  shows "lim_ok l' \<and> out \<noteq> Panicked \<and> length (lim_limits l') = length (lim_limits l)"
proof -
  show ?thesis
  proof (rule slow_trip_shape [OF assms(1), where env = env], goal_cases)
    case 1
    with assms show ?case by (auto simp: lim_ok_def split: if_splits)
  qed
qed

section \<open>What a turn does to the last limit\<close>

lemma check_capacity_last:
  assumes "check_capacity now rls a = Some (limits, mode, t)" and "rls \<noteq> []"
  shows "\<exists>w. check_limit now (last rls) = Some (last limits, w) \<and> (\<forall>x. w = Some x \<longrightarrow> t = x)"
  using assms
proof (induction now rls a arbitrary: limits mode t rule: check_capacity.induct)
  case (2 now rl rls m t0)
  from "2.prems" obtain rl' w rls'' where w: "check_limit now rl = Some (rl', w)"
    and rest: "check_capacity now rls (case w of Some t' \<Rightarrow> (rl_mode rl', t') | None \<Rightarrow> (m, t0)) = Some (rls'', mode, t)"
    and limits: "limits = rl' # rls''"
    by (simp split: option.splits prod.splits)
  show ?case
  proof (cases "rls = []")
    case True
    with w rest limits show ?thesis by (cases w) auto
  next
    case False
    with check_capacity_length [OF rest] have "rls'' \<noteq> []" by auto
    with "2.IH" [OF w refl rest False] False limits show ?thesis by simp
  qed
qed simp

lemma countRequest_last:
  "countRequest rls nows = Some rls' \<Longrightarrow> length nows = length rls \<Longrightarrow> rls \<noteq> [] \<Longrightarrow>
     count_limit (last rls) (last nows) = Some (last rls')"
proof (induction rls nows arbitrary: rls' rule: countRequest.induct)
  case (1 rl rls now nows)
  from "1.prems"(1) obtain rl' rls'' where w: "count_limit rl now = Some rl'"
    and rest: "countRequest rls nows = Some rls''" and rls': "rls' = rl' # rls''"
    by (auto split: option.splits)
  show ?case
  proof (cases "rls = []")
    case True
    with "1.prems" w rest rls' show ?thesis by auto
  next
    case False
    with countRequest_length [OF rest] "1.prems"(2) have "rls'' \<noteq> []" "nows \<noteq> []" by auto
    with "1.IH" [OF w rest _ False] False "1.prems"(2) rls' show ?thesis by simp
  qed
qed simp_all

lemma turn_last:
  assumes "lim_ok l" and "timely l env" and "slow_trip env l = (out, l')"
  shows "\<exists>rl w. check_limit (env_now env) (last (lim_limits l)) = Some (rl, w) \<and>
    (if out = Forwarded
     then count_limit rl (last (env_counts env)) = Some (last (lim_limits l')) \<and>
       env_now env \<le> last (env_counts env) \<and> (\<forall>x. w = Some x \<longrightarrow> env_now env + x \<le> last (env_counts env))
     else if out = QueueCanceled \<or> out = Deadlocked then l' = l
     else last (lim_limits l') = rl)"
proof (rule slow_trip_shape [OF assms(1), where env = env], goal_cases)
  case (1 limits mode t limits')
  have ne: "lim_limits l \<noteq> []" using assms(1) by (simp add: lim_ok_def)
  from check_capacity_last [OF 1(1) ne] obtain w where
    w: "check_limit (env_now env) (last (lim_limits l)) = Some (last limits, w)"
    and t: "\<forall>x. w = Some x \<longrightarrow> t = x" by blast
  show ?case
  proof (cases "out = Forwarded")
    case True
    have counts: "length (env_counts env) = length limits" "env_counts env \<noteq> []"
      using assms(2) 1(5) ne by (auto simp: timely_def)
    then have "last (env_counts env) \<in> set (env_counts env)" by simp
    then have le: "env_now env \<le> last (env_counts env)" "env_now env + t \<le> last (env_counts env)"
      using assms(2) 1(1) by (auto simp: timely_def time_to_wait_def list_all_iff)
    have "limits \<noteq> []" using counts by auto
    from countRequest_last [OF 1(2) counts(1) this]
    have "count_limit (last limits) (last (env_counts env)) = Some (last limits')" .
    moreover have "l' = l\<lparr>lim_limits := limits'\<rparr>"
      using assms(3) 1(7) True by (auto split: if_splits)
    ultimately show ?thesis using True w le t by auto
  next
    case False
    with assms(3) 1(7) w show ?thesis by (auto split: if_splits)
  qed
qed

text \<open>Runs keep the limits well-formed and never panic.\<close>

lemma slow_run_ok:
  assumes "slow_run l tr l'" and "lim_ok l"
  shows "lim_ok l' \<and> length (lim_limits l') = length (lim_limits l) \<and> Panicked \<notin> snd ` set tr"
  using assms
proof (induction rule: slow_run.induct)
  case (run_step l tr l' env out l'')
  then show ?case using slow_trip_ok [of l' env out l''] by auto
qed simp

lemma released_Nil [simp]: "released [] = []"
  by (simp add: released_def)

lemma released_snoc [simp]:
  "released (tr @ [(env, out)]) = released tr @ (if out = Forwarded then [last (env_counts env)] else [])"
  by (simp add: released_def)

section \<open>The sliding window\<close>

text \<open>The ring of the last limit holds the last instants released, oldest first, and any
  \<open>per_period + 1\<close> consecutive instants span a period.\<close>

definition spaced :: "duration \<Rightarrow> nat \<Rightarrow> instant list \<Rightarrow> bool" where
  "spaced p n R \<longleftrightarrow> (\<forall>k. k + n < length R \<longrightarrow> R ! k + p \<le> R ! (k + n))"

definition sliding_inv :: "rate_limit \<Rightarrow> instant list \<Rightarrow> rate_limit \<Rightarrow> bool" where
  "sliding_inv rl0 R rl \<longleftrightarrow> rl_window rl = WindowSliding \<and> rl_period rl = rl_period rl0 \<and>
     rl_perPeriod rl = rl_perPeriod rl0 \<and>
     (\<exists>b. rl_ringBuffer rl = Some b \<and> rb_inv b \<and>
        rb_entries b = drop (length R) (replicate (unat (rl_perPeriod rl0)) None @ map Some R)) \<and>
     spaced (rl_period rl0) (unat (rl_perPeriod rl0)) R"

lemma spaced_snoc:
  assumes "spaced p n R" and "n \<le> length R \<Longrightarrow> R \<noteq> [] \<Longrightarrow> R ! (length R - n) + p \<le> x" and "0 < n"
  shows "spaced p n (R @ [x])"
  unfolding spaced_def
proof (intro allI impI)
  fix k assume k: "k + n < length (R @ [x])"
  show "(R @ [x]) ! k + p \<le> (R @ [x]) ! (k + n)"
  proof (cases "k + n < length R")
    case True
    with assms(1) show ?thesis by (simp add: spaced_def nth_append)
  next
    case False
    with k assms(3) have "k = length R - n" "n \<le> length R" "R \<noteq> []" "k < length R" by auto
    with assms(2) show ?thesis by (simp add: nth_append)
  qed
qed

lemma tl_drop_snoc: "m < length ys \<Longrightarrow> tl (drop m ys) @ [y] = drop (Suc m) (ys @ [y])"
  by (simp add: drop_Suc tl_drop)

lemma sliding_step:
  assumes inv: "sliding_inv rl0 R rl" and ok: "0 < unat (rl_perPeriod rl0)"
    and chk: "check_limit now rl = Some (rl1, w)" and cnt: "count_limit rl1 c = Some rl2"
    and now: "now \<le> c" and w: "\<forall>x. w = Some x \<longrightarrow> now + x \<le> c"
  shows "sliding_inv rl0 (R @ [c]) rl2"
proof -
  let ?n = "unat (rl_perPeriod rl0)"
  from inv obtain b where win: "rl_window rl = WindowSliding" and per: "rl_period rl = rl_period rl0"
    and b: "rl_ringBuffer rl = Some b" "rb_inv b"
    and ent: "rb_entries b = drop (length R) (replicate ?n None @ map Some R)"
    and sp: "spaced (rl_period rl0) ?n R"
    by (auto simp: sliding_inv_def)
  have rl1: "rl1 = rl" using chk win b rb_get_spec [OF b(2)]
    by (auto simp: check_limit_def split: option.splits)
  from rb_put_spec [OF b(2), of c] obtain b' where b': "rb_put c b = Some b'" "rb_inv b'"
      "rb_entries b' = tl (rb_entries b) @ [Some c]" by blast
  have rl2: "rl2 = rl\<lparr>rl_ringBuffer := Some b'\<rparr>"
    using cnt win b(1) b'(1) by (simp add: count_limit_def rl1)
  have "length R < length (replicate ?n None @ map Some R)" using ok by simp
  then have ent': "rb_entries b' = drop (length (R @ [c])) (replicate ?n None @ map Some (R @ [c]))"
    using b'(3) tl_drop_snoc [of "length R" "replicate ?n None @ map Some R" "Some c"]
    by (simp only: ent length_append_singleton map_append list.map append_assoc)
  have "spaced (rl_period rl0) ?n (R @ [c])"
  proof (rule spaced_snoc [OF sp _ ok])
    assume R: "?n \<le> length R" "R \<noteq> []"
    have "hd (rb_entries b) = Some (R ! (length R - ?n))"
      using R ok by (simp add: ent hd_drop_conv_nth)
    then have "rb_get b = Some (Some (R ! (length R - ?n)))"
      using rb_get_spec [OF b(2)] by simp
    with chk win b(1) per w now show "R ! (length R - ?n) + rl_period rl0 \<le> c"
      by (auto simp: check_limit_def split: if_splits)
  qed
  with inv ent' b'(2) show ?thesis by (auto simp: sliding_inv_def rl2)
qed

lemma sliding_check:
  "sliding_inv rl0 R rl \<Longrightarrow> check_limit now rl = Some (rl1, w) \<Longrightarrow> rl1 = rl"
  by (auto simp: sliding_inv_def check_limit_def split: option.splits)

lemma sliding_run:
  assumes "slow_run l tr l'" and "lim_ok l" and "sliding_inv rl0 [] (last (lim_limits l))"
    and "0 < unat (rl_perPeriod rl0)"
  shows "sliding_inv rl0 (released tr) (last (lim_limits l'))"
  using assms
proof (induction rule: slow_run.induct)
  case (run_step l tr l' env out l'')
  then have inv: "sliding_inv rl0 (released tr) (last (lim_limits l'))" by simp
  from run_step slow_run_ok have ok: "lim_ok l'" by blast
  from turn_last [OF ok run_step.hyps(3,4)] obtain rl w where
    chk: "check_limit (env_now env) (last (lim_limits l')) = Some (rl, w)"
    and rest: "if out = Forwarded
     then count_limit rl (last (env_counts env)) = Some (last (lim_limits l'')) \<and>
       env_now env \<le> last (env_counts env) \<and> (\<forall>x. w = Some x \<longrightarrow> env_now env + x \<le> last (env_counts env))
     else if out = QueueCanceled \<or> out = Deadlocked then l'' = l'
     else last (lim_limits l'') = rl" by blast
  show ?case
  proof (cases "out = Forwarded")
    case True
    with sliding_step [OF inv run_step.prems(3) chk] rest show ?thesis by simp
  next
    case False
    with rest inv sliding_check [OF inv chk] show ?thesis by (auto split: if_splits)
  qed
qed simp

lemma NewLimiter_last:
  assumes "NewLimiter nows limits = Some l" and "length nows = length limits"
  shows "limits \<noteq> [] \<and> lim_limits l \<noteq> [] \<and>
    last (lim_limits l) = (last limits)\<lparr>rl_periodStart := last nows\<rparr>"
proof -
  from assms have l: "lim_limits l = map2 (\<lambda>rl now. rl\<lparr>rl_periodStart := now\<rparr>) limits nows"
    and ne: "limits \<noteq> []" by (auto simp: NewLimiter_def split: if_splits)
  from ne assms(2) have "nows \<noteq> []" by auto
  with ne assms(2) have "last (zip limits nows) = (last limits, last nows)"
    by (simp add: last_conv_nth zip_eq_Nil_iff)
  with ne \<open>nows \<noteq> []\<close> show ?thesis by (simp add: l last_map zip_eq_Nil_iff)
qed

lemma NewLimiter_ok:
  assumes "ConfigureRateLimits cs = Inr limits" and "NewLimiter nows limits = Some l"
    and "length nows = length limits"
  shows "lim_ok l"
  using NewLimiter_last [OF assms(2,3)] ConfigureRateLimits_ok [OF assms(1)] assms(2)
  by (auto simp: lim_ok_def NewLimiter_def dest!: set_zip_leftD split: if_splits)

section \<open>The fixed window\<close>

text \<open>The number of instants in the period that starts at \<open>a\<close>.\<close>

definition in_period :: "duration \<Rightarrow> instant \<Rightarrow> instant list \<Rightarrow> nat" where
  "in_period p a R = length (filter (\<lambda>t. a \<le> t \<and> t < a + p) R)"

text \<open>The clock readings of a run, which a monotonic clock returns in ascending order.\<close>

definition clock_readings :: "(trip_env \<times> trip_outcome) list \<Rightarrow> instant list" where
  "clock_readings tr = concat (map (\<lambda>(env, out).
     if out = QueueCanceled \<or> out = Deadlocked then []
     else if out = Forwarded then [env_now env, last (env_counts env)] else [env_now env]) tr)"

definition monotonic_clock :: "instant \<Rightarrow> (trip_env \<times> trip_outcome) list \<Rightarrow> bool" where
  "monotonic_clock t0 tr \<longleftrightarrow> sorted (t0 # clock_readings tr)"

definition fixed_inv :: "rate_limit \<Rightarrow> instant \<Rightarrow> instant list \<Rightarrow> rate_limit \<Rightarrow> bool" where
  "fixed_inv rl0 T R rl \<longleftrightarrow>
     (let p = rl_period rl0; n = unat (rl_perPeriod rl0); S = rl_periodStart rl in
      rl_window rl = WindowFixed \<and> rl_period rl = p \<and> rl_perPeriod rl = rl_perPeriod rl0 \<and>
      (\<exists>j. S = rl_periodStart rl0 + j * p) \<and> S \<le> T \<and> (\<forall>t\<in>set R. t \<le> T) \<and>
      (\<forall>k. in_period p (rl_periodStart rl0 + k * p) R \<le> n + 1) \<and>
      (T < S + p \<longrightarrow> in_period p S R \<le> unat (rl_count rl) + 1) \<and>
      length (filter (\<lambda>t. S + p \<le> t) R) \<le> 1)"

lemma in_period_snoc: "in_period p a (R @ [c]) = in_period p a R + (if a \<le> c \<and> c < a + p then 1 else 0)"
  by (simp add: in_period_def)

lemma in_period_le_later: "b \<le> a \<Longrightarrow> in_period p a R \<le> length (filter (\<lambda>t. b \<le> t) R)"
  unfolding in_period_def by (induction R) auto

lemma in_period_after: "\<forall>t\<in>set R. t < a \<Longrightarrow> in_period p a R = 0"
  by (auto simp: in_period_def filter_empty_conv)

lemma periods_meet:
  fixes p :: int
  assumes "0 < p" and "s + j * p \<le> c" "c < s + j * p + p" "s + k * p \<le> c" "c < s + k * p + p"
  shows "j = k"
proof -
  have "(c - s) div p = j" "(c - s) div p = k"
    using assms by (auto intro!: int_div_pos_eq [of _ p _ "c - s - _ * p"])
  then show ?thesis by simp
qed

lemma fixed_check:
  assumes inv: "fixed_inv rl0 T R rl" and p: "0 < rl_period rl0" and T: "T \<le> now"
    and chk: "check_limit now rl = Some (rl1, w)"
  shows "fixed_inv rl0 now R rl1 \<and> now < rl_periodStart rl1 + rl_period rl0 \<and>
    (rl_perPeriod rl0 \<le> rl_count rl1 \<longrightarrow> w = Some (rl_periodStart rl1 + rl_period rl0 - now))"
proof -
  let ?p = "rl_period rl0" and ?S = "rl_periodStart rl"
  let ?m = "go_div (now - ?S) ?p"
  from inv have win: "rl_window rl = WindowFixed" and per: "rl_period rl = ?p"
    and n: "rl_perPeriod rl = rl_perPeriod rl0"
    and S: "?S \<le> T" and R: "\<forall>t\<in>set R. t \<le> T"
    and late: "length (filter (\<lambda>t. ?S + ?p \<le> t) R) \<le> 1"
    by (simp_all add: fixed_inv_def Let_def)
  from inv obtain j where j: "?S = rl_periodStart rl0 + j * ?p" by (auto simp: fixed_inv_def Let_def)
  have m: "?m = (now - ?S) div ?p" using S T p by (simp add: go_div_nonneg)
  then have m0: "0 \<le> ?m" using S T p by (simp add: pos_imp_zdiv_nonneg_iff)
  have bounds: "?S + ?p * ?m \<le> now" "now < ?S + ?p * ?m + ?p"
    using mult_div_mod_eq [of ?p "now - ?S"] pos_mod_bound [OF p, of "now - ?S"]
      pos_mod_sign [OF p, of "now - ?S"] unfolding m by linarith+
  show ?thesis
  proof (cases "?m = 0")
    case True
    then have rl1: "rl1 = rl" and w: "rl_perPeriod rl \<le> rl_count rl \<longrightarrow> w = Some (?S + ?p - now)"
      using chk win per by (auto simp: check_limit_def Let_def split: if_splits)
    from inv R T bounds True w n show ?thesis by (auto simp: fixed_inv_def Let_def rl1)
  next
    case False
    with m0 have pos: "1 \<le> ?m" by simp
    then have far: "?S + ?p \<le> ?S + ?p * ?m" using p mult_le_cancel_left1 [of ?p ?m] by simp
    have rl1: "rl1 = rl\<lparr>rl_periodStart := ?S + ?p * ?m, rl_count := 0\<rparr>"
      using chk win per pos by (auto simp: check_limit_def Let_def split: if_splits)
    have w: "rl_perPeriod rl0 \<le> 0 \<longrightarrow> w = Some (?S + ?p * ?m + ?p - now)"
      using chk win per n pos by (auto simp: check_limit_def Let_def split: if_splits)
    have "in_period ?p (?S + ?p * ?m) R \<le> 1"
      using in_period_le_later [OF far] late by (rule le_trans)
    moreover have "\<exists>j'. ?S + ?p * ?m = rl_periodStart rl0 + j' * ?p"
      by (rule exI [of _ "j + ?m"]) (simp add: j algebra_simps)
    moreover have "filter (\<lambda>t. ?S + ?p * ?m + ?p \<le> t) R = []"
      using R T bounds by (auto simp: filter_empty_conv)
    ultimately show ?thesis using inv R T bounds w by (auto simp: fixed_inv_def Let_def rl1)
  qed
qed

lemma fixed_count:
  assumes inv: "fixed_inv rl0 now R rl" and p: "0 < rl_period rl0"
    and cur: "now < rl_periodStart rl + rl_period rl0"
    and w: "rl_perPeriod rl0 \<le> rl_count rl \<longrightarrow> rl_periodStart rl + rl_period rl0 \<le> c"
    and c: "now \<le> c" and cnt: "count_limit rl c = Some rl'"
  shows "fixed_inv rl0 c (R @ [c]) rl'"
proof -
  let ?p = "rl_period rl0" and ?S = "rl_periodStart rl" and ?n = "unat (rl_perPeriod rl0)"
  let ?s = "rl_periodStart rl0"
  from inv have win: "rl_window rl = WindowFixed" and S: "?S \<le> now" and R: "\<forall>t\<in>set R. t \<le> now"
    and all: "\<And>k. in_period ?p (?s + k * ?p) R \<le> ?n + 1"
    and cnt_le: "in_period ?p ?S R \<le> unat (rl_count rl) + 1"
    using cur by (simp_all add: fixed_inv_def Let_def)
  from inv obtain j where j: "?S = ?s + j * ?p" by (auto simp: fixed_inv_def Let_def)
  have rl': "rl' = rl\<lparr>rl_count := rl_count rl + 1\<rparr>" using cnt win by (simp add: count_limit_def)
  have none: "filter (\<lambda>t. ?S + ?p \<le> t) R = []" using R cur by (auto simp: filter_empty_conv)
  have free: "c < ?S + ?p \<Longrightarrow> unat (rl_count rl) < ?n"
    using w by (auto simp: word_le_nat_alt not_le)
  then have inc: "c < ?S + ?p \<Longrightarrow> unat (rl_count rl + 1) = unat (rl_count rl) + 1"
    using unat_uint64 [of "rl_perPeriod rl0"] by (simp add: unat_word_ariths)
  have "in_period ?p (?s + k * ?p) (R @ [c]) \<le> ?n + 1" for k
  proof (cases "?s + k * ?p \<le> c \<and> c < ?s + k * ?p + ?p")
    case True
    show ?thesis
    proof (cases "c < ?S + ?p")
      case True': True
      have "j = k"
        by (rule periods_meet [OF p, where s = ?s and c = c]) (use True True' S c j in auto)
      with True True' cnt_le free j show ?thesis by (simp add: in_period_snoc)
    next
      case False
      then have "?S + ?p \<le> ?s + k * ?p"
      proof -
        have "j < k"
        proof (rule ccontr)
          assume "\<not> j < k"
          then have "k * ?p \<le> j * ?p" using p by simp
          with True False j show False by simp
        qed
        then have "(j + 1) * ?p \<le> k * ?p" using p by (intro mult_right_mono) auto
        then show ?thesis by (simp add: j algebra_simps)
      qed
      with R cur have "in_period ?p (?s + k * ?p) R = 0" by (intro in_period_after) auto
      then show ?thesis by (simp add: in_period_snoc)
    qed
  next
    case False
    with all [of k] show ?thesis by (auto simp: in_period_snoc)
  qed
  moreover have "c < ?S + ?p \<Longrightarrow> in_period ?p ?S (R @ [c]) \<le> unat (rl_count rl + 1) + 1"
    using cnt_le inc by (simp add: in_period_snoc)
  moreover have "length (filter (\<lambda>t. ?S + ?p \<le> t) (R @ [c])) \<le> 1"
    using none by simp
  moreover have "\<forall>t\<in>set (R @ [c]). t \<le> c" using R c by auto
  ultimately show ?thesis using inv S c by (auto simp: fixed_inv_def Let_def rl')
qed

lemma clock_readings_snoc:
  "clock_readings (tr @ [(env, out)]) = clock_readings tr @
     (if out = QueueCanceled \<or> out = Deadlocked then []
      else if out = Forwarded then [env_now env, last (env_counts env)] else [env_now env])"
  by (simp add: clock_readings_def)

lemma fixed_run:
  assumes "slow_run l tr l'" and "lim_ok l" and "fixed_inv rl0 t0 [] (last (lim_limits l))"
    and "0 < rl_period rl0" and "monotonic_clock t0 tr"
  shows "fixed_inv rl0 (last (t0 # clock_readings tr)) (released tr) (last (lim_limits l'))"
  using assms
proof (induction rule: slow_run.induct)
  case (run_Nil l)
  then show ?case by (simp add: clock_readings_def)
next
  case (run_step l tr l' env out l'')
  let ?T = "last (t0 # clock_readings tr)"
  from run_step.prems(4) have clock: "monotonic_clock t0 tr"
    by (auto simp: monotonic_clock_def clock_readings_snoc sorted_append)
  with run_step have inv: "fixed_inv rl0 ?T (released tr) (last (lim_limits l'))" by simp
  from run_step slow_run_ok have ok: "lim_ok l'" by blast
  from turn_last [OF ok run_step.hyps(3,4)] obtain rl w where
    chk: "check_limit (env_now env) (last (lim_limits l')) = Some (rl, w)"
    and rest: "if out = Forwarded
     then count_limit rl (last (env_counts env)) = Some (last (lim_limits l'')) \<and>
       env_now env \<le> last (env_counts env) \<and> (\<forall>x. w = Some x \<longrightarrow> env_now env + x \<le> last (env_counts env))
     else if out = QueueCanceled \<or> out = Deadlocked then l'' = l'
     else last (lim_limits l'') = rl" by blast
  show ?case
  proof (cases "out = QueueCanceled \<or> out = Deadlocked")
    case True
    with rest inv show ?thesis by (auto simp: clock_readings_snoc)
  next
    case False
    then have now: "?T \<le> env_now env"
      using run_step.prems(4) last_in_set [of "t0 # clock_readings tr"]
      by (auto simp: monotonic_clock_def clock_readings_snoc sorted_append split: if_splits)
    note chk' = fixed_check [OF inv run_step.prems(3) now chk]
    show ?thesis
    proof (cases "out = Forwarded")
      case True
      with rest chk' fixed_count [of rl0 "env_now env" "released tr" rl "last (env_counts env)"]
        run_step.prems(3) show ?thesis by (auto simp: clock_readings_snoc)
    next
      case False
      with \<open>\<not> (out = QueueCanceled \<or> out = Deadlocked)\<close> rest chk' show ?thesis
        by (auto simp: clock_readings_snoc)
    qed
  qed
qed

section \<open>An executable run\<close>

text \<open>Runs of given environments, for the concrete runs below.\<close>

fun run_turns :: "limiter \<Rightarrow> (trip_env \<times> trip_outcome) list \<Rightarrow> trip_env list \<Rightarrow>
    ((trip_env \<times> trip_outcome) list \<times> limiter) option" where
  "run_turns l tr [] = Some (tr, l)"
| "run_turns l tr (env # envs) =
     (if halted tr \<or> \<not> timely l env then None
      else case slow_trip env l of (out, l') \<Rightarrow> run_turns l' (tr @ [(env, out)]) envs)"

lemma run_turns_sound:
  "run_turns l tr envs = Some (tr', l') \<Longrightarrow> slow_run l0 tr l \<Longrightarrow> slow_run l0 tr' l'"
  by (induction l tr envs rule: run_turns.induct)
    (auto split: if_splits prod.splits intro: slow_run.run_step)

lemma run_from: "run_turns l [] envs = Some (tr, l') \<Longrightarrow> slow_run l tr l'"
  by (rule run_turns_sound [OF _ slow_run.run_Nil])

definition turn_at :: "instant \<Rightarrow> instant \<Rightarrow> nat \<Rightarrow> trip_env" where
  "turn_at now c n = \<lparr>env_done = False, env_now = now, env_cancel = False, env_counts = replicate n c\<rparr>"

definition limit_conf :: "string \<Rightarrow> string \<Rightarrow> uint \<Rightarrow> string \<Rightarrow> rl_conf" where
  "limit_conf mode period n window =
     \<lparr>cf_Mode = mode, cf_Period = period, cf_PerPeriod = n, cf_PeriodWindow = window\<rparr>"

text \<open>A check of the limits, the limiter and the trace of one concrete run.\<close>

definition run_check :: "rl_conf list \<Rightarrow> instant list \<Rightarrow> trip_env list \<Rightarrow>
    (rate_limit list \<Rightarrow> limiter \<Rightarrow> (trip_env \<times> trip_outcome) list \<Rightarrow> bool) \<Rightarrow> bool" where
  "run_check cs nows envs P =
     (case ConfigureRateLimits cs of
        Inl e \<Rightarrow> False
      | Inr limits \<Rightarrow>
          (case NewLimiter nows limits of
             None \<Rightarrow> False
           | Some l \<Rightarrow> (case run_turns l [] envs of None \<Rightarrow> False | Some (tr, l') \<Rightarrow> P limits l tr)))"

lemma run_checkE:
  assumes "run_check cs nows envs P"
  obtains limits l tr l' where "ConfigureRateLimits cs = Inr limits" "NewLimiter nows limits = Some l"
    "slow_run l tr l'" "P limits l tr"
  using assms by (auto simp: run_check_def dest: run_from split: sum.splits option.splits prod.splits)

definition conf_sliding :: "rl_conf list" where
  "conf_sliding = [limit_conf ''wait'' ''10ns'' 2 ''sliding'']"

definition conf_fixed :: "rl_conf list" where
  "conf_fixed = [limit_conf ''wait'' ''10ns'' 1 ''fixed'']"

definition conf_two :: "rl_conf list" where
  "conf_two = [limit_conf ''block'' ''1000ns'' 1 ''sliding'', limit_conf ''wait'' ''10ns'' 1 ''sliding'']"

section \<open>Properties\<close>

text \<open>
  Property C1: where the limit with the shortest period uses a sliding window, any
  \<open>per_period + 1\<close> consecutive requests the limiter forwards span at least a period, whatever
  the other limits are and however the requests and their cancellations are timed. So no interval
  of that length holds more than \<open>per_period\<close> forwarded requests, as documented.
\<close>

theorem sliding_window_respected:
  assumes conf: "ConfigureRateLimits cs = Inr limits" and new: "NewLimiter nows limits = Some l"
    and len: "length nows = length limits" and win: "rl_window (last limits) = WindowSliding"
    and run: "slow_run l tr l'"
    and k: "k + unat (rl_perPeriod (last limits)) < length (released tr)"
  shows "released tr ! k + rl_period (last limits)
    \<le> released tr ! (k + unat (rl_perPeriod (last limits)))"
proof -
  let ?rl = "last limits"
  have last: "limits \<noteq> []" "last (lim_limits l) = ?rl\<lparr>rl_periodStart := last nows\<rparr>"
    using NewLimiter_last [OF new len] by auto
  then have "rl_ok ?rl" "rl_fresh ?rl" using ConfigureRateLimits_ok [OF conf] by simp_all
  then have n: "0 < unat (rl_perPeriod ?rl)" "rl_perPeriod ?rl \<noteq> 0"
    and ring: "rl_ringBuffer ?rl = Some (newRingBuffer (rl_perPeriod ?rl))"
    by (auto simp: rl_ok_def rl_fresh_def win unat_gt_0)
  then have "sliding_inv ?rl [] (last (lim_limits l))"
    using n ring by (auto simp: sliding_inv_def last win rb_inv_new rb_entries_new spaced_def)
  from sliding_run [OF run NewLimiter_ok [OF conf new len] this n(1)] k show ?thesis
    by (auto simp: sliding_inv_def spaced_def)
qed

theorem sliding_window_respected_witness:
  "\<exists>limits l tr l'. ConfigureRateLimits conf_sliding = Inr limits \<and> NewLimiter [0] limits = Some l \<and>
     slow_run l tr l' \<and> 0 + unat (rl_perPeriod (last limits)) < length (released tr) \<and>
     released tr ! 0 + rl_period (last limits) \<le> released tr ! (0 + unat (rl_perPeriod (last limits)))"
proof -
  have "run_check conf_sliding [0] [turn_at 0 0 1, turn_at 1 1 1, turn_at 2 10 1]
    (\<lambda>limits l tr. length [0::instant] = length limits \<and> rl_window (last limits) = WindowSliding \<and>
       0 + unat (rl_perPeriod (last limits)) < length (released tr))"
    by code_simp
  then show ?thesis
    by (rule run_checkE) (use sliding_window_respected [of conf_sliding _ "[0]" _ _ _ 0] in blast)
qed

text \<open>
  Property C2: where the limit with the shortest period uses a fixed window and the clock is
  monotonic, each of its periods, counted from the limiter's start, holds at most
  \<open>per_period + 1\<close> forwarded requests.
\<close>

theorem fixed_window_bound:
  assumes conf: "ConfigureRateLimits cs = Inr limits" and new: "NewLimiter nows limits = Some l"
    and len: "length nows = length limits" and win: "rl_window (last limits) = WindowFixed"
    and run: "slow_run l tr l'" and clock: "monotonic_clock (last nows) tr"
  shows "in_period (rl_period (last limits)) (last nows + k * rl_period (last limits)) (released tr)
    \<le> unat (rl_perPeriod (last limits)) + 1"
proof -
  let ?rl0 = "last (lim_limits l)"
  have last: "limits \<noteq> []" "?rl0 = (last limits)\<lparr>rl_periodStart := last nows\<rparr>"
    using NewLimiter_last [OF new len] by auto
  then have p: "0 < rl_period ?rl0"
    using ConfigureRateLimits_ok [OF conf] by (simp add: rl_ok_def)
  have "fixed_inv ?rl0 (last nows) [] ?rl0"
    using p by (auto simp: fixed_inv_def Let_def in_period_def last win intro: exI [of _ 0])
  from fixed_run [OF run NewLimiter_ok [OF conf new len] this p clock] show ?thesis
    by (simp add: fixed_inv_def Let_def last)
qed

theorem fixed_window_bound_witness:
  "\<exists>limits l tr l'. ConfigureRateLimits conf_fixed = Inr limits \<and> NewLimiter [0] limits = Some l \<and>
     slow_run l tr l' \<and> monotonic_clock 0 tr \<and>
     in_period (rl_period (last limits)) (0 + 1 * rl_period (last limits)) (released tr)
       \<le> unat (rl_perPeriod (last limits)) + 1"
proof -
  have "run_check conf_fixed [0] [turn_at 0 0 1, turn_at 1 10 1, turn_at 11 11 1]
    (\<lambda>limits l tr. length [0::instant] = length limits \<and> rl_window (last limits) = WindowFixed \<and>
       monotonic_clock 0 tr)"
    by code_simp
  then show ?thesis
    by (rule run_checkE) (use fixed_window_bound [of conf_fixed _ "[0]" _ _ _ 1] in fastforce)
qed

text \<open>
  The bound of the fixed window is reached. A request that waited for the end of a
  period is counted in the period it waited in, and the next request resets that count, so with
  \<open>per_period = 1\<close> a period can hold two forwarded requests. The documentation promises
  \<open>per_period\<close> requests.
\<close>

theorem fixed_window_excess:
  "\<exists>limits l tr l'. ConfigureRateLimits conf_fixed = Inr limits \<and> NewLimiter [0] limits = Some l \<and>
     slow_run l tr l' \<and> monotonic_clock 0 tr \<and> length limits = 1 \<and> rl_perPeriod (hd limits) = 1 \<and>
     in_period (rl_period (hd limits)) (0 + 1 * rl_period (hd limits)) (released tr) = 2"
proof -
  have "run_check conf_fixed [0] [turn_at 0 0 1, turn_at 1 10 1, turn_at 11 11 1]
    (\<lambda>limits l tr. monotonic_clock 0 tr \<and> length limits = 1 \<and> rl_perPeriod (hd limits) = 1 \<and>
       in_period (rl_period (hd limits)) (0 + 1 * rl_period (hd limits)) (released tr) = 2)"
    by code_simp
  then show ?thesis by (rule run_checkE) blast
qed

text \<open>
  With two limits, the wait of the limit with the shorter period replaces the
  verdict of the limit with the longer one. Under a limit of one request per 1000ns in mode
  \<open>block\<close> and one per 10ns in mode \<open>wait\<close>, three requests are forwarded within 1000ns.
\<close>

theorem longer_limit_overridden:
  "\<exists>limits l tr l'. ConfigureRateLimits conf_two = Inr limits \<and> NewLimiter [0, 0] limits = Some l \<and>
     slow_run l tr l' \<and> monotonic_clock 0 tr \<and>
     rl_mode (hd limits) = ModeBlock \<and> rl_perPeriod (hd limits) = 1 \<and> rl_period (hd limits) = 1000 \<and>
     in_period (rl_period (hd limits)) 0 (released tr) = 3"
proof -
  have "run_check conf_two [0, 0] [turn_at 0 0 2, turn_at 5 10 2, turn_at 15 20 2]
    (\<lambda>limits l tr. monotonic_clock 0 tr \<and> rl_mode (hd limits) = ModeBlock \<and>
       rl_perPeriod (hd limits) = 1 \<and> rl_period (hd limits) = 1000 \<and>
       in_period (rl_period (hd limits)) 0 (released tr) = 3)"
    by code_simp
  then show ?thesis by (rule run_checkE) blast
qed

lemma slow_run_locked:
  assumes "slow_run l tr l'" and "lim_ok l" and "\<not> lim_locked l"
  shows "lim_locked l' \<longleftrightarrow> WaitCanceled \<in> snd ` set tr"
  using assms
proof (induction rule: slow_run.induct)
  case (run_step l tr l' env out l'')
  then have ok: "lim_ok l'" and IH: "lim_locked l' \<longleftrightarrow> WaitCanceled \<in> snd ` set tr"
    using slow_run_ok by blast+
  show ?case
  proof (rule slow_trip_shape [OF ok, where env = env], goal_cases)
    case 1
    with run_step.hyps(4) IH show ?case by (auto split: if_splits)
  qed
qed simp

text \<open>
  Property C8: no turn of a configured limiter panics, and the turn of a request that is not
  canceled in the queue deadlocks on the limiter's mutex exactly when an earlier request was
  canceled while it waited for a free slot: that path continues the loop without unlocking.
\<close>

theorem deadlock_after_canceled_wait:
  assumes conf: "ConfigureRateLimits cs = Inr limits" and new: "NewLimiter nows limits = Some l"
    and len: "length nows = length limits"
    and run: "slow_run l (tr @ [(env, out)]) l'" and live: "\<not> env_done env"
  shows "out \<noteq> Panicked \<and> (out = Deadlocked \<longleftrightarrow> WaitCanceled \<in> snd ` set tr)"
  using run
proof (cases rule: slow_run.cases)
  case (run_step tr1 l1 env1 out1)
  then have eq: "tr1 = tr" "env1 = env" "out1 = out" by simp_all
  have unlocked: "\<not> lim_locked l" using new by (auto simp: NewLimiter_def split: if_splits)
  note ok0 = NewLimiter_ok [OF conf new len]
  have run1: "slow_run l tr l1" using run_step(2) by (simp add: eq)
  have ok: "lim_ok l1" using slow_run_ok [OF run1 ok0] by simp
  have turn: "slow_trip env l1 = (out, l')" using run_step(5) by (simp add: eq)
  show ?thesis
  proof (rule slow_trip_shape [OF ok, where env = env], goal_cases)
    case 1
    with turn live slow_run_locked [OF run1 ok0 unlocked] show ?case by (auto split: if_splits)
  qed
qed simp

definition canceled_turn :: "instant \<Rightarrow> trip_env" where
  "canceled_turn now = (turn_at now (now + 10) 1)\<lparr>env_cancel := True\<rparr>"

theorem deadlock_after_canceled_wait_witness:
  "\<exists>limits l tr l' env. ConfigureRateLimits conf_fixed = Inr limits \<and> NewLimiter [0] limits = Some l \<and>
     slow_run l (tr @ [(env, Deadlocked)]) l' \<and> WaitCanceled \<in> snd ` set tr"
proof -
  have "run_check conf_fixed [0] [turn_at 0 0 1, canceled_turn 1, turn_at 20 20 1]
    (\<lambda>limits l tr. length [0::instant] = length limits \<and>
       tr = butlast tr @ [(turn_at 20 20 1, Deadlocked)] \<and> \<not> env_done (turn_at 20 20 1))"
    by code_simp
  then show ?thesis
  proof (rule run_checkE)
    fix limits l tr l'
    assume *: "ConfigureRateLimits conf_fixed = Inr limits" "NewLimiter [0] limits = Some l" "slow_run l tr l'"
      and tr: "length [0::instant] = length limits \<and>
        tr = butlast tr @ [(turn_at 20 20 1, Deadlocked)] \<and> \<not> env_done (turn_at 20 20 1)"
    then have run: "slow_run l (butlast tr @ [(turn_at 20 20 1, Deadlocked)]) l'" by metis
    have "WaitCanceled \<in> snd ` set (butlast tr)"
      using deadlock_after_canceled_wait [OF *(1,2) _ run] tr by blast
    with run *(1,2) show ?thesis by blast
  qed
qed

end
