(* ===== verification/ErrorHandlers.thy ===== *)
theory ErrorHandlers
  imports Errors
begin

text \<open>
  The error handlers: their kinds as configured (\<open>config/configload/error_handler.go\<close>), the
  expansion of super kinds when the handlers of a reference are built
  (\<open>config/runtime/error_handler.go\<close>), and the choice among them for an error
  (\<open>handler/error.go\<close>).

  A handler is a value of a type \<open>'h\<close>: what it sends is the endpoint it is built into. Decoding a
  block and building an endpoint are calls into other components, so the functions that may fail
  there have the builder as an argument.
\<close>

section \<open>Configuration\<close>

text \<open>\<open>newKindsFromLabels\<close>. An empty name is reported with the label range at the index of the
  name within its label, and Go panics where a block has no label of that index.\<close>

datatype kinds_error = EmptyLabel | LabelRangePanic | DuplicateType string | UnknownType string

fun first_empty :: "nat \<Rightarrow> string list \<Rightarrow> nat option" where
  "first_empty i [] = None"
| "first_empty i (a # as) = (if a = [] then Some i else first_empty (Suc i) as)"

fun kinds_of_labels :: "nat \<Rightarrow> string list \<Rightarrow> kinds_error + string list" where
  "kinds_of_labels n [] = Inr []"
| "kinds_of_labels n (l # ls) =
     (let ks = split_on CHR '' '' l in
      case first_empty 0 ks of
        Some i \<Rightarrow> Inl (if i < n then EmptyLabel else LabelRangePanic)
      | None \<Rightarrow> map_sum id ((@) ks) (kinds_of_labels n ls))"

definition newKindsFromLabels :: "string list \<Rightarrow> bool \<Rightarrow> kinds_error + string list" where
  "newKindsFromLabels labels addWildcard =
     map_sum id (\<lambda>ks. if addWildcard \<and> ks = [] then [''*''] else ks)
       (kinds_of_labels (length labels) labels)"

text \<open>\<open>newErrorHandlerContent\<close>: a block is its labels and its body.\<close>

fun register_kinds :: "string list \<Rightarrow> string list \<Rightarrow> kinds_error + string list" where
  "register_kinds seen [] = Inr seen"
| "register_kinds seen (k # ks) =
     (if k \<in> set seen then Inl (DuplicateType k)
      else if k \<noteq> ''*'' \<and> \<not> IsKnown k then Inl (UnknownType k)
      else register_kinds (k # seen) ks)"

fun newErrorHandlerContent ::
    "string list \<Rightarrow> (string list \<times> 'b) list \<Rightarrow> kinds_error + (string list \<times> (string list \<times> 'b) list)" where
  "newErrorHandlerContent seen [] = Inr (seen, [])"
| "newErrorHandlerContent seen ((labels, body) # blocks) =
     (case newKindsFromLabels labels True of
        Inl e \<Rightarrow> Inl e
      | Inr ks \<Rightarrow>
         (case register_kinds seen ks of
            Inl e \<Rightarrow> Inl e
          | Inr seen' \<Rightarrow>
              map_sum id (\<lambda>(s, cs). (s, (ks, body) # cs)) (newErrorHandlerContent seen' blocks)))"

text \<open>\<open>configureErrorHandler\<close> for one setter: the configured handlers, then the default handlers
  of which neither the wildcard nor a kind is configured.\<close>

fun decode_contents :: "('b \<Rightarrow> 'e + 'h) \<Rightarrow> (string list \<times> 'b) list \<Rightarrow> 'e + (string list \<times> 'h) list" where
  "decode_contents decode [] = Inr []"
| "decode_contents decode ((ks, b) # cs) =
     (case decode b of
        Inl e \<Rightarrow> Inl e
      | Inr h \<Rightarrow> map_sum id ((#) (ks, h)) (decode_contents decode cs))"

definition configureErrorHandler ::
    "('b \<Rightarrow> 'e + 'h) \<Rightarrow> (string list \<times> 'h) list \<Rightarrow> (string list \<times> 'b) list
       \<Rightarrow> (kinds_error + 'e) + (string list \<times> 'h) list" where
  "configureErrorHandler decode defaults blocks =
     (case newErrorHandlerContent [] blocks of
        Inl e \<Rightarrow> Inl (Inl e)
      | Inr (seen, contents) \<Rightarrow>
         (case decode_contents decode contents of
            Inl e \<Rightarrow> Inl (Inr e)
          | Inr hs \<Rightarrow>
              Inr (hs @ filter (\<lambda>d. \<not> (''*'' \<in> set seen \<or> (\<exists>k \<in> set (fst d). k \<in> set seen))) defaults)))"

section \<open>Building the handlers\<close>

type_synonym 'h handlers_per_kind = "(string \<times> 'h) list"

fun set_kind :: "string \<Rightarrow> 'h \<Rightarrow> 'h handlers_per_kind \<Rightarrow> 'h handlers_per_kind" where
  "set_kind k h [] = [(k, h)]"
| "set_kind k h ((k', h') # m) = (if k' = k then (k, h) # m else (k', h') # set_kind k h m)"

definition delete_kind :: "string \<Rightarrow> 'h handlers_per_kind \<Rightarrow> 'h handlers_per_kind" where
  "delete_kind k = filter (\<lambda>(k', h). k' \<noteq> k)"

definition handlers_by_kind :: "(string list \<times> 'h) list \<Rightarrow> 'h handlers_per_kind" where
  "handlers_by_kind hs = fold (\<lambda>(ks, h). fold (\<lambda>k. set_kind k h) ks) hs []"

definition set_missing :: "'h \<Rightarrow> string \<Rightarrow> 'h handlers_per_kind \<Rightarrow> 'h handlers_per_kind" where
  "set_missing h k m = (case map_of m k of None \<Rightarrow> set_kind k h m | Some _ \<Rightarrow> m)"

definition expand_super :: "string \<times> string list \<Rightarrow> 'h handlers_per_kind \<Rightarrow> 'h handlers_per_kind" where
  "expand_super sk m =
     (case map_of m (fst sk) of
        None \<Rightarrow> m
      | Some h \<Rightarrow>
          (let m' = fold (set_missing h) (snd sk) m in
           if fst sk = ''*'' then delete_kind ''*'' m' else m'))"

text \<open>The super kinds in descending order of their names: the wildcard comes last.\<close>

definition descending :: "(string \<times> string list) list \<Rightarrow> (string \<times> string list) list" where
  "descending sm = map (\<lambda>k. (k, the (map_of sm k))) (rev (sort (map fst sm)))"

definition expand_kinds :: "string \<Rightarrow> 'h handlers_per_kind \<Rightarrow> 'h handlers_per_kind" where
  "expand_kinds ref m =
     (case map_of SuperTypesMapsByContext ref of
        None \<Rightarrow> m
      | Some sm \<Rightarrow> fold expand_super (descending sm) m)"

text \<open>\<open>newErrorHandler\<close>: the references in order; \<open>build\<close> makes the endpoint of a kind.\<close>

fun build_kinds ::
    "(string \<Rightarrow> 'h \<Rightarrow> 'e + 'x) \<Rightarrow> 'h handlers_per_kind \<Rightarrow> 'x handlers_per_kind \<Rightarrow> 'e + 'x handlers_per_kind" where
  "build_kinds build [] kh = Inr kh"
| "build_kinds build ((k, h) # m) kh =
     (case build k h of Inl e \<Rightarrow> Inl e | Inr x \<Rightarrow> build_kinds build m (set_kind k x kh))"

fun build_refs ::
    "(string \<Rightarrow> 'h \<Rightarrow> 'e + 'x) \<Rightarrow> (string \<rightharpoonup> (string list \<times> 'h) list) \<Rightarrow> string list
       \<Rightarrow> 'x handlers_per_kind \<Rightarrow> 'e + 'x handlers_per_kind" where
  "build_refs build defs [] kh = Inr kh"
| "build_refs build defs (ref # refs) kh =
     (case defs ref of
        None \<Rightarrow> build_refs build defs refs kh
      | Some hs \<Rightarrow>
         (case build_kinds build (expand_kinds ref (handlers_by_kind hs)) kh of
            Inl e \<Rightarrow> Inl e
          | Inr kh' \<Rightarrow> build_refs build defs refs kh'))"

definition newErrorHandler ::
    "(string \<Rightarrow> 'h \<Rightarrow> 'e + 'x) \<Rightarrow> (string \<rightharpoonup> (string list \<times> 'h) list) \<Rightarrow> string list
       \<Rightarrow> 'e + 'x handlers_per_kind" where
  "newErrorHandler build defs refs = build_refs build defs refs []"

section \<open>Choosing a handler\<close>

text \<open>\<open>Error.ServeHTTP\<close>: the handler that serves the request, or the template with an error. The
  error is what the request context holds; a map that was never made behaves like an empty one.\<close>

datatype 'x error_outcome = ServedBy 'x | Template go_error

fun first_defined :: "string list \<Rightarrow> 'x handlers_per_kind \<Rightarrow> 'x option" where
  "first_defined [] kh = None"
| "first_defined (k # ks) kh = (case map_of kh k of Some x \<Rightarrow> Some x | None \<Rightarrow> first_defined ks kh)"

definition error_ServeHTTP :: "'x handlers_per_kind option \<Rightarrow> go_error option \<Rightarrow> 'x error_outcome" where
  "error_ServeHTTP kindsHandler ctx_error =
     (case ctx_error of
        None \<Rightarrow> Template E_Server
      | Some err \<Rightarrow>
          if \<not> is_couper err then Template E_Server
          else (case kindsHandler of
             None \<Rightarrow> Template err
           | Some kh \<Rightarrow>
              (case first_defined (err_Kinds err) kh of
                 Some x \<Rightarrow> ServedBy x
               | None \<Rightarrow>
                  (case map_of kh ''*'' of
                     Some x \<Rightarrow> ServedBy x
                   | None \<Rightarrow> Template err))))"

section \<open>Lemmas on the maps\<close>

lemma map_of_set_kind [simp, go_map]: "map_of (set_kind k h m) = (map_of m)(k \<mapsto> h)"
  by (induction k h m rule: set_kind.induct) auto

lemma keys_set_kind: "fst ` set (set_kind k h m) = insert k (fst ` set m)"
  by (induction k h m rule: set_kind.induct) auto

lemma distinct_set_kind [simp]: "distinct (map fst m) \<Longrightarrow> distinct (map fst (set_kind k h m))"
  by (induction k h m rule: set_kind.induct) (auto simp: keys_set_kind[unfolded image_set] simp del: set_map)

lemma map_of_delete_kind [simp, go_map]: "map_of (delete_kind k m) = (map_of m)(k := None)"
  by (induction m) (auto simp: delete_kind_def)

lemma distinct_delete_kind [simp]: "distinct (map fst m) \<Longrightarrow> distinct (map fst (delete_kind k m))"
  by (induction m) (auto simp: delete_kind_def)

lemma map_of_set_missing: "map_of (set_missing h k m) = (\<lambda>x. case map_of m x of None \<Rightarrow> if x = k then Some h else None | Some h' \<Rightarrow> Some h')"
  by (auto simp: set_missing_def fun_eq_iff split: option.splits)

lemma distinct_set_missing [simp]: "distinct (map fst m) \<Longrightarrow> distinct (map fst (set_missing h k m))"
  by (simp add: set_missing_def split: option.splits)

lemma map_of_fold_set_missing:
  "map_of (fold (set_missing h) ks m) =
     (\<lambda>x. case map_of m x of None \<Rightarrow> if x \<in> set ks then Some h else None | Some h' \<Rightarrow> Some h')"
  by (induction ks arbitrary: m) (auto simp: map_of_set_missing fun_eq_iff split: option.splits)

lemma distinct_fold_set_missing [simp]:
  "distinct (map fst m) \<Longrightarrow> distinct (map fst (fold (set_missing h) ks m))"
  by (induction ks arbitrary: m) auto

lemma map_of_expand_super:
  "map_of (expand_super (sk, subs) m) =
     (\<lambda>x. if x = ''*'' \<and> sk = ''*'' then None else
        (case map_of m x of Some h \<Rightarrow> Some h | None \<Rightarrow> if x \<in> set subs then map_of m sk else None))"
  by (auto simp: expand_super_def map_of_fold_set_missing fun_eq_iff Let_def split: option.splits)

lemma distinct_expand_super [simp]:
  "distinct (map fst m) \<Longrightarrow> distinct (map fst (expand_super sk m))"
  by (simp add: expand_super_def Let_def split: option.splits)

lemma distinct_expand_kinds [simp]:
  "distinct (map fst m) \<Longrightarrow> distinct (map fst (expand_kinds ref m))"
proof -
  have "distinct (map fst m) \<Longrightarrow> distinct (map fst (fold expand_super sks m))" for sks
    by (induction sks arbitrary: m) auto
  then show "distinct (map fst m) \<Longrightarrow> distinct (map fst (expand_kinds ref m))"
    by (simp add: expand_kinds_def split: option.splits)
qed

lemma distinct_handlers_by_kind [simp]: "distinct (map fst (handlers_by_kind hs))"
proof -
  have 1: "distinct (map fst m) \<Longrightarrow> distinct (map fst (fold (\<lambda>k. set_kind k h) ks m))" for h ks m
    by (induction ks arbitrary: m) auto
  have "distinct (map fst m) \<Longrightarrow> distinct (map fst (fold (\<lambda>(ks, h). fold (\<lambda>k. set_kind k h) ks) hs m))" for m
    by (induction hs arbitrary: m) (auto simp: 1)
  then show ?thesis by (simp add: handlers_by_kind_def)
qed

text \<open>What building leaves in the map, for one reference and for two.\<close>

lemma build_kinds_lookup:
  assumes "build_kinds build m kh = Inr kh'" "distinct (map fst m)"
  shows "map_of kh' k = (case map_of m k of
           None \<Rightarrow> map_of kh k
         | Some h \<Rightarrow> Some (projr (build k h)))"
  using assms
proof (induction build m kh rule: build_kinds.induct)
  case (2 build k' h m kh)
  then obtain x where x: "build k' h = Inr x" "build_kinds build m (set_kind k' x kh) = Inr kh'"
    by (auto split: sum.splits)
  with 2 have "map_of kh' k = (case map_of m k of None \<Rightarrow> map_of (set_kind k' x kh) k
      | Some h \<Rightarrow> Some (projr (build k h)))" by simp
  moreover from 2 have "map_of m k' = None" by (simp add: map_of_eq_None_iff)
  ultimately show ?case using x by (auto split: option.splits)
qed simp

lemma first_defined_append:
  "first_defined (ks @ ks') m = (case first_defined ks m of None \<Rightarrow> first_defined ks' m | Some h \<Rightarrow> Some h)"
  by (induction ks) (auto split: option.splits)

lemma descending_api:
  "descending (the (map_of SuperTypesMapsByContext ''api'')) =
     [(''backend'', backend_kinds), (''access_control'', [''insufficient_permissions'']),
      (''*'', ''insufficient_permissions'' # backend_kinds)]"
  by code_simp

lemma descending_endpoint:
  "descending (the (map_of SuperTypesMapsByContext ''endpoint'')) =
     [(''endpoint'', [''sequence'', ''unexpected_status'']),
      (''backend'', backend_kinds), (''access_control'', [''insufficient_permissions'']),
      (''*'', ''insufficient_permissions'' # backend_kinds @ [''sequence'', ''unexpected_status''])]"
  by code_simp

text \<open>For a leaf kind the expansion is the search along the kind, its super kind and the wildcard.\<close>

definition leaf_pairs :: "(string \<times> string) list" where
  "leaf_pairs = (''insufficient_permissions'', ''access_control'') # map (\<lambda>k. (k, ''backend'')) backend_kinds"

lemma leaf_definitions:
  "\<forall>d \<in> set error_definitions. contexts d = [''api'', ''endpoint''] \<and> \<not> isParent d \<longrightarrow>
     length (err_Kinds d) = 2 \<and> (err_Kinds d ! 0, err_Kinds d ! 1) \<in> set leaf_pairs"
  by code_simp

lemma expand_leaf:
  assumes "(k, s) \<in> set leaf_pairs" "ref = ''api'' \<or> ref = ''endpoint''"
  shows "map_of (expand_kinds ref m) k = first_defined [k, s, ''*''] m"
proof -
  have ref: "expand_kinds ref m = fold expand_super (descending (the (map_of SuperTypesMapsByContext ref))) m"
    using assms(2) by (auto simp: expand_kinds_def SuperTypesMapsByContext_def)
  show ?thesis
    using assms
    by (auto simp: ref descending_api descending_endpoint map_of_expand_super leaf_pairs_def backend_kinds_def
        split: option.splits)
qed

lemma expand_rest:
  assumes "(k, s) \<in> set leaf_pairs" "ref = ''api'' \<or> ref = ''endpoint''"
  shows "map_of (expand_kinds ref m) s = map_of m s" "map_of (expand_kinds ref m) ''*'' = None"
proof -
  have ref: "expand_kinds ref m = fold expand_super (descending (the (map_of SuperTypesMapsByContext ref))) m"
    using assms(2) by (auto simp: expand_kinds_def SuperTypesMapsByContext_def)
  show "map_of (expand_kinds ref m) s = map_of m s" "map_of (expand_kinds ref m) ''*'' = None"
    using assms
    by (auto simp: ref descending_api descending_endpoint map_of_expand_super leaf_pairs_def backend_kinds_def
        split: option.splits)
qed

text \<open>The handler configured first along a list of kinds.\<close>

definition configured :: "(string list \<times> 'h) list option \<Rightarrow> string list \<Rightarrow> 'h option" where
  "configured hs ks = (case hs of None \<Rightarrow> None | Some l \<Rightarrow> first_defined ks (handlers_by_kind l))"

lemma build_refs_lookup:
  assumes "build_refs build defs [r1, r2] [] = Inr kh"
  shows "map_of kh k =
    (case (case defs r2 of None \<Rightarrow> None | Some l \<Rightarrow> map_of (expand_kinds r2 (handlers_by_kind l)) k) of
       Some h \<Rightarrow> Some (projr (build k h))
     | None \<Rightarrow>
         (case (case defs r1 of None \<Rightarrow> None | Some l \<Rightarrow> map_of (expand_kinds r1 (handlers_by_kind l)) k) of
            Some h \<Rightarrow> Some (projr (build k h))
          | None \<Rightarrow> None))"
  using assms
  by (cases "defs r1"; cases "defs r2")
     (auto split: sum.splits option.splits simp: build_kinds_lookup[of build _ _ _ k])

lemma register_kinds_accepts:
  "register_kinds seen ks = Inr seen' \<longleftrightarrow>
     seen' = rev ks @ seen \<and> distinct ks \<and> set ks \<inter> set seen = {} \<and> (\<forall>k \<in> set ks. k = ''*'' \<or> IsKnown k)"
  by (induction seen ks arbitrary: seen' rule: register_kinds.induct) auto

lemma newErrorHandlerContent_accepts:
  "newErrorHandlerContent seen blocks = Inr (seen', contents) \<Longrightarrow>
     seen' = rev (concat (map fst contents)) @ seen \<and> distinct (concat (map fst contents)) \<and>
     set (concat (map fst contents)) \<inter> set seen = {} \<and>
     (\<forall>k \<in> set (concat (map fst contents)). k = ''*'' \<or> IsKnown k)"
proof (induction seen blocks arbitrary: seen' contents rule: newErrorHandlerContent.induct)
  case (2 seen labels body blocks)
  from "2.prems" obtain ks seen1 cs where
    ks: "newKindsFromLabels labels True = Inr ks" "register_kinds seen ks = Inr seen1"
    and cs: "newErrorHandlerContent seen1 blocks = Inr (seen', cs)" "contents = (ks, body) # cs"
    by (auto split: sum.splits simp: map_sum_def)
  note IH = "2.IH"[OF ks cs(1)]
  from IH ks(2) show ?case unfolding register_kinds_accepts cs(2) by auto
qed simp

text \<open>
  Property C11: an error of a kind without sub kinds that belongs to both contexts is served by the
  handler that the endpoint configures for the first of its kind, its super kind and the wildcard;
  if it configures none, by the one the API configures for the first of these; and by the
  template if there is none either. The super kinds are expanded when the configuration is
  loaded, and a handler found for any of them has been built for the kind itself.
\<close>

theorem error_handler_choice:
  assumes "newErrorHandler build defs [''api'', ''endpoint''] = Inr kh"
    and "d \<in> set error_definitions" "contexts d = [''api'', ''endpoint'']" "\<not> isParent d"
    and "is_couper e" "err_Kinds e = err_Kinds d"
  shows "error_ServeHTTP (Some kh) (Some e) =
    (case configured (defs ''endpoint'') (err_Kinds d @ [''*'']) of
       Some h \<Rightarrow> ServedBy (projr (build (hd (err_Kinds d)) h))
     | None \<Rightarrow>
        (case configured (defs ''api'') (err_Kinds d @ [''*'']) of
           Some h \<Rightarrow> ServedBy (projr (build (hd (err_Kinds d)) h))
         | None \<Rightarrow> Template e))"
proof -
  obtain k s where ks: "err_Kinds d = [k, s]" "(k, s) \<in> set leaf_pairs"
    using bspec[OF leaf_definitions assms(2)] assms(3,4)
    by (auto simp: numeral_2_eq_2 length_Suc_conv)
  note look = build_refs_lookup[OF assms(1)[unfolded newErrorHandler_def]]
  note exp = expand_leaf[OF ks(2)] expand_rest[OF ks(2)]
  show ?thesis
    using assms(5,6) ks(1)
    by (auto simp: error_ServeHTTP_def configured_def look exp split: option.splits)
qed

text \<open>The handlers of an endpoint: one for the wildcard in the API, one for \<open>backend\<close> in the endpoint.\<close>

definition example_build :: "string \<Rightarrow> nat \<Rightarrow> unit + string \<times> nat" where
  "example_build k h = Inr (k, h)"

definition example_handlers :: "string \<rightharpoonup> (string list \<times> nat) list" where
  "example_handlers = [''api'' \<mapsto> [([''*''], 1)], ''endpoint'' \<mapsto> [([''backend''], 2)]]"

lemma error_handler_choice_witness:
  "error_ServeHTTP (Some (projr (newErrorHandler example_build example_handlers [''api'', ''endpoint''])))
      (Some (err_Label ''b'' (error_def ''backend_timeout''))) = ServedBy (''backend_timeout'', 2)"
proof -
  let ?d = "error_def ''backend_timeout''"
  let ?kh = "projr (newErrorHandler example_build example_handlers [''api'', ''endpoint''])"
  have 1: "newErrorHandler example_build example_handlers [''api'', ''endpoint''] = Inr ?kh" by code_simp
  have 2: "?d \<in> set error_definitions" by code_simp
  have 3: "contexts ?d = [''api'', ''endpoint'']" by code_simp
  have 4: "\<not> isParent ?d" by code_simp
  have 5: "is_couper (err_Label ''b'' ?d)" by code_simp
  have 6: "err_Kinds (err_Label ''b'' ?d) = err_Kinds ?d" by code_simp
  have 7: "configured (example_handlers ''endpoint'') (err_Kinds ?d @ [''*'']) = Some 2" by code_simp
  have 8: "hd (err_Kinds ?d) = ''backend_timeout''" by code_simp
  show ?thesis
    by (simp add: error_handler_choice[OF 1 2 3 4 5 6] 7 8 example_build_def)
qed

text \<open>
  A configuration of error handlers that is accepted names every kind once, over all
  its blocks, and only the wildcard and kinds of the table of errors; a default handler is kept
  only where neither the wildcard nor one of its kinds is configured.
\<close>

theorem accepted_error_handlers:
  assumes "configureErrorHandler decode defaults blocks = Inr hs"
  shows "\<exists>n. n \<le> length hs \<and> distinct (concat (map fst (take n hs))) \<and>
     (\<forall>k \<in> set (concat (map fst (take n hs))). k = ''*'' \<or> IsKnown k) \<and>
     drop n hs = filter (\<lambda>d. (''*'' \<notin> set (concat (map fst (take n hs)))) \<and>
        set (fst d) \<inter> set (concat (map fst (take n hs))) = {}) defaults"
proof -
  from assms obtain seen contents cs where
    c: "newErrorHandlerContent [] blocks = Inr (seen, contents)" "decode_contents decode contents = Inr cs"
    "hs = cs @ filter (\<lambda>d. \<not> (''*'' \<in> set seen \<or> (\<exists>k \<in> set (fst d). k \<in> set seen))) defaults"
    by (auto simp: configureErrorHandler_def split: sum.splits prod.splits)
  have "map fst cs = map fst contents" using c(2)
    by (induction decode contents arbitrary: cs rule: decode_contents.induct)
       (auto split: sum.splits simp: map_sum_def)
  moreover note newErrorHandlerContent_accepts[OF c(1)]
  moreover have "filter (\<lambda>d. \<not> (''*'' \<in> set seen \<or> (\<exists>k \<in> set (fst d). k \<in> set seen))) defaults =
     filter (\<lambda>d. ''*'' \<notin> set seen \<and> set (fst d) \<inter> set seen = {}) defaults"
    by (rule filter_cong) auto
  ultimately show ?thesis
    by (intro exI[of _ "length cs"]) (simp add: c(3))
qed

lemma accepted_error_handlers_witness:
  "\<exists>n \<le> 3. distinct (concat (map fst (take n [([''jwt''], 1), ([''oauth2'', ''*''], 2), ([''saml''], 3 :: nat)])))"
proof -
  have "configureErrorHandler (\<lambda>b. Inr b :: unit + nat) [([''jwt_token_missing''], 9)]
      [([''jwt''], 1), ([''oauth2 *''], 2), ([''saml''], 3)] =
      Inr [([''jwt''], 1), ([''oauth2'', ''*''], 2), ([''saml''], 3)]" by code_simp
  from accepted_error_handlers[OF this] show ?thesis by auto
qed

lemma first_empty_Some:
  "first_empty j ks = Some i \<longleftrightarrow> j \<le> i \<and> i - j < length ks \<and> ks ! (i - j) = [] \<and> [] \<notin> set (take (i - j) ks)"
proof (induction j ks rule: first_empty.induct)
  case (2 j a as)
  show ?case
  proof (cases "i - j")
    case 0
    then show ?thesis using 2 by auto
  next
    case (Suc m)
    then have "m = i - Suc j" by simp
    then show ?thesis using 2 Suc by auto
  qed
qed simp

lemma first_empty_None: "first_empty j ks = None \<longleftrightarrow> [] \<notin> set ks"
  by (induction j ks rule: first_empty.induct) auto

lemma kinds_of_labels_panics:
  "kinds_of_labels n labels = Inl LabelRangePanic \<longleftrightarrow>
     (\<exists>before l after i. labels = before @ l # after \<and>
        (\<forall>b \<in> set before. [] \<notin> set (split_on CHR '' '' b)) \<and>
        first_empty 0 (split_on CHR '' '' l) = Some i \<and> n \<le> i)"
proof (induction labels)
  case (Cons x labels)
  show ?case
  proof (cases "first_empty 0 (split_on CHR '' '' x)")
    case None
    then have none: "[] \<notin> set (split_on CHR '' '' x)" by (simp add: first_empty_None)
    have rec: "kinds_of_labels n (x # labels) = Inl LabelRangePanic \<longleftrightarrow>
        kinds_of_labels n labels = Inl LabelRangePanic"
      using None by (simp add: map_sum_def split: sum.splits)
    show ?thesis unfolding rec Cons.IH
    proof ((intro iffI; elim exE conjE), goal_cases)
      case (1 before l after i)
      then show ?case by (intro exI[of _ "x # before"] exI[of _ l] exI[of _ after] exI[of _ i]) (simp add: none)
    next
      case (2 before l after i)
      with None obtain before' where "before = x # before'" "labels = before' @ l # after"
        by (cases before) auto
      with 2 show ?case by (intro exI[of _ before'] exI[of _ l] exI[of _ after] exI[of _ i]) simp
    qed
  next
    case (Some i)
    then have "[] \<in> set (split_on CHR '' '' x)"
      by (metis first_empty_None option.distinct(1))
    then have "(\<exists>before l after j. x # labels = before @ l # after \<and>
        (\<forall>b \<in> set before. [] \<notin> set (split_on CHR '' '' b)) \<and>
        first_empty 0 (split_on CHR '' '' l) = Some j \<and> n \<le> j) \<longleftrightarrow>
        (\<exists>j. first_empty 0 (split_on CHR '' '' x) = Some j \<and> n \<le> j)"
      by (fastforce simp: Cons_eq_append_conv)
    then show ?thesis using Some by simp
  qed
qed simp

text \<open>
  A label with an empty kind panics, instead of being reported as a configuration
  error, exactly when the first empty kind of the first such label is not among the first
  \<open>length labels\<close> kinds of that label.
\<close>

theorem label_panics_iff:
  "newKindsFromLabels labels w = Inl LabelRangePanic \<longleftrightarrow>
     (\<exists>before l after i. labels = before @ l # after \<and>
        [] \<notin> set (concat (map (split_on CHR '' '') before)) \<and>
        i < length (split_on CHR '' '' l) \<and> split_on CHR '' '' l ! i = [] \<and>
        [] \<notin> set (take i (split_on CHR '' '' l)) \<and> length labels \<le> i)"
proof -
  have "newKindsFromLabels labels w = Inl LabelRangePanic \<longleftrightarrow>
      kinds_of_labels (length labels) labels = Inl LabelRangePanic"
    by (simp add: newKindsFromLabels_def map_sum_def split: sum.splits)
  then show ?thesis by (simp add: kinds_of_labels_panics first_empty_Some conj_ac cong: conj_cong)
qed

lemma build_kinds_total:
  "\<forall>k h. \<exists>x. build k h = Inr x \<Longrightarrow> \<exists>kh'. build_kinds build m kh = Inr kh'"
  by (induction build m kh rule: build_kinds.induct) (auto split: sum.splits, metis sum.distinct(1))

lemma newErrorHandler_total:
  assumes "\<forall>k h. \<exists>x. build k h = Inr x"
  shows "\<exists>kh'. newErrorHandler build defs refs = Inr kh'"
proof -
  have "\<exists>kh'. build_refs build defs refs kh = Inr kh'" for kh
  proof (induction refs arbitrary: kh)
    case (Cons r refs)
    then show ?case
      using build_kinds_total[OF assms] by (auto split: option.splits sum.splits) (metis sum.distinct(1))
  qed simp
  then show ?thesis by (simp add: newErrorHandler_def)
qed

lemma wildcard_only:
  assumes "ref = ''api'' \<or> ref = ''endpoint''"
  shows "map_of (expand_kinds ref (handlers_by_kind [([''*''], h)])) ''backend'' = None"
    "map_of (expand_kinds ref (handlers_by_kind [([''*''], h)])) ''*'' = None"
proof -
  have ref: "expand_kinds ref m = fold expand_super (descending (the (map_of SuperTypesMapsByContext ref))) m" for m :: "(string \<times> 'a) list"
    using assms by (auto simp: expand_kinds_def SuperTypesMapsByContext_def)
  show "map_of (expand_kinds ref (handlers_by_kind [([''*''], h)])) ''backend'' = None"
    "map_of (expand_kinds ref (handlers_by_kind [([''*''], h)])) ''*'' = None"
    using assms
    by (auto simp: ref handlers_by_kind_def descending_api descending_endpoint map_of_expand_super backend_kinds_def)
qed

text \<open>
  The wildcard of an API or endpoint catches the sub kinds of the backend errors but
  not an error of the kind \<open>backend\<close> itself, which a failed connection raises: with a handler for
  the wildcard only, at both places, that error is served by the template.
\<close>

theorem wildcard_misses_backend_error:
  "error_ServeHTTP (Some (projr (newErrorHandler (\<lambda>k h. Inr (k, h) :: 'e + string \<times> 'h)
       [''api'' \<mapsto> [([''*''], h1)], ''endpoint'' \<mapsto> [([''*''], h2)]] [''api'', ''endpoint''])))
     (Some (err_With (Some (PlainError t)) (err_Label l (as_parent E_Backend)))) =
   Template (err_With (Some (PlainError t)) (err_Label l (as_parent E_Backend)))"
proof -
  let ?build = "\<lambda>k h. Inr (k, h) :: 'e + string \<times> 'h"
  let ?defs = "[''api'' \<mapsto> [([''*''], h1)], ''endpoint'' \<mapsto> [([''*''], h2)]]"
  obtain kh where kh: "newErrorHandler ?build ?defs [''api'', ''endpoint''] = Inr kh"
    using newErrorHandler_total[of ?build] by auto
  have "map_of kh ''backend'' = None" "map_of kh ''*'' = None"
    by (simp_all add: build_refs_lookup[OF kh[unfolded newErrorHandler_def]] wildcard_only)
  then show ?thesis
    by (simp add: kh error_ServeHTTP_def as_parent_def E_Backend_def base_error_def)
qed

end
