(* ===== verification/Middleware.thy ===== *)
theory Middleware
  imports HttpModel Durations Errors
begin

text \<open>
  The middleware of \<open>handler/middleware\<close>: allowed methods, cross-origin requests, the request id
  and the handler for an unmet condition. A handler that a middleware calls is a value of a type
  \<open>'h\<close>, and serving is the choice of the handler with the request and headers it is given.
\<close>

section \<open>Allowed methods\<close>

definition DefaultFileSpaAllowedMethods :: "string list" where
  "DefaultFileSpaAllowedMethods = [''GET'', ''HEAD'']"

definition DefaultEndpointAllowedMethods :: "string list" where
  "DefaultEndpointAllowedMethods = [''GET'', ''HEAD'', ''POST'', ''PUT'', ''PATCH'', ''DELETE'', ''OPTIONS'']"

record 'h allowed_methods_handler =
  amh_methods :: "string list"
  amh_allowed :: 'h
  amh_not_allowed :: 'h

text \<open>The keys of the set in the order of their insertion; a nil slice is \<open>None\<close>.\<close>

definition method_keys :: "string list option \<Rightarrow> string \<Rightarrow> string list" where
  "method_keys defaults m = (if m = ''*'' then (case defaults of None \<Rightarrow> [] | Some ms \<Rightarrow> ms) else [to_upper m])"

definition NewAllowedMethodsHandler ::
    "string list option \<Rightarrow> string list option \<Rightarrow> 'h \<Rightarrow> 'h \<Rightarrow> 'h allowed_methods_handler" where
  "NewAllowedMethodsHandler allowed defaults h n =
     (let ms = (case allowed of
                  Some ms \<Rightarrow> ms
                | None \<Rightarrow> (case defaults of Some ds \<Rightarrow> ds | None \<Rightarrow> []))
      in \<lparr>amh_methods = concat (map (method_keys defaults) ms), amh_allowed = h, amh_not_allowed = n\<rparr>)"

definition allowed_ServeHTTP :: "'h allowed_methods_handler \<Rightarrow> request \<Rightarrow> 'h" where
  "allowed_ServeHTTP a req =
     (if to_upper (req_method req) \<in> set (amh_methods a) then amh_allowed a else amh_not_allowed a)"

definition MethodAllowed :: "'h allowed_methods_handler \<Rightarrow> string \<Rightarrow> bool" where
  "MethodAllowed a method \<longleftrightarrow> trim_space (to_upper method) \<in> set (amh_methods a)"

section \<open>Cross-origin requests\<close>

record cors_conf =
  conf_origins :: "string list"
  conf_credentials :: bool
  conf_max_age :: string

record cors_options =
  cors_origins :: "string list"
  cors_credentials :: bool
  cors_max_age :: string
  cors_method_allowed :: "(string \<Rightarrow> bool) option"

text \<open>The seconds of \<open>max_age\<close> are rounded down. The code computes them as a float64, which is
  exact for the integer part of durations below \<open>2 ^ 23\<close> seconds.\<close>

definition NewCORSOptions ::
    "cors_conf option \<Rightarrow> (string \<Rightarrow> bool) option \<Rightarrow> go_error + cors_options option" where
  "NewCORSOptions conf allowed =
     (case conf of
        None \<Rightarrow> Inr None
      | Some c \<Rightarrow>
          (let opts = \<lambda>age. \<lparr>cors_origins = map to_lower (conf_origins c), cors_credentials = conf_credentials c,
                             cors_max_age = age, cors_method_allowed = allowed\<rparr>
           in if conf_max_age c = [] then Inr (Some (opts []))
              else (case time_parse_duration (conf_max_age c) of
                 Inl e \<Rightarrow> Inl (err_Message ''cors max_age''
                           (err_With (Some (PlainError (duration_error_text e))) E_Configuration))
               | Inr d \<Rightarrow> Inr (Some (opts (itoa (d div 1000000000)))))))"

definition AllowsOrigin :: "cors_options option \<Rightarrow> string \<Rightarrow> bool" where
  "AllowsOrigin c origin =
     (case c of
        None \<Rightarrow> False
      | Some o' \<Rightarrow> list_ex (\<lambda>a. a = to_lower origin \<or> a = ''*'') (cors_origins o'))"

definition isCorsRequest :: "request \<Rightarrow> bool" where
  "isCorsRequest req \<longleftrightarrow> h_get (req_header req) ''Origin'' \<noteq> []"

definition isCorsPreflightRequest :: "request \<Rightarrow> bool" where
  "isCorsPreflightRequest req \<longleftrightarrow> req_method req = ''OPTIONS'' \<and>
     (h_get (req_header req) ''Access-Control-Request-Method'' \<noteq> [] \<or>
      h_get (req_header req) ''Access-Control-Request-Headers'' \<noteq> [])"

definition cors_preflight_headers :: "cors_options \<Rightarrow> request \<Rightarrow> header \<Rightarrow> header" where
  "cors_preflight_headers c req h =
     (let acrm = h_get (req_header req) ''Access-Control-Request-Method'';
          acrh = h_get (req_header req) ''Access-Control-Request-Headers'';
          h1 = (if acrm = [] then h
                else h_add ''Vary'' ''Access-Control-Request-Method''
                  (if (case cors_method_allowed c of None \<Rightarrow> True | Some f \<Rightarrow> f acrm)
                   then h_set ''Access-Control-Allow-Methods'' acrm h else h));
          h2 = (if acrh = [] then h1
                else h_add ''Vary'' ''Access-Control-Request-Headers''
                  (h_set ''Access-Control-Allow-Headers'' acrh h1))
      in if cors_max_age c = [] then h2 else h_set ''Access-Control-Max-Age'' (cors_max_age c) h2)"

definition cors_response_headers :: "string list" where
  "cors_response_headers = [''Access-Control-Allow-Origin'', ''Access-Control-Allow-Credentials'',
     ''Access-Control-Allow-Headers'', ''Access-Control-Allow-Methods'', ''Access-Control-Max-Age'']"

definition setCorsRespHeaders :: "cors_options \<Rightarrow> request \<Rightarrow> header \<Rightarrow> header" where
  "setCorsRespHeaders c req h0 =
     (let h1 = fold h_del cors_response_headers h0;
          specific = \<not> (AllowsOrigin (Some c) ''*'' \<and> \<not> cors_credentials c);
          h2 = (if specific then h_add ''Vary'' ''Origin'' h1 else h_set ''Access-Control-Allow-Origin'' ''*'' h1);
          origin = h_get (req_header req) ''Origin''
      in if \<not> isCorsRequest req then h2
         else if \<not> AllowsOrigin (Some c) origin then h2
         else
           (let h3 = (if specific then h_set ''Access-Control-Allow-Origin'' origin h2 else h2);
                h4 = (if cors_credentials c then h_set ''Access-Control-Allow-Credentials'' ''true'' h3 else h3)
            in if isCorsPreflightRequest req then cors_preflight_headers c req h4 else h4))"

text \<open>\<open>ServeNextHTTP\<close>: a preflight request is answered with the status 204, any other request by
  the next handler; in both cases the writer applies the header modifier. \<open>NewCORSHandler\<close> is the
  next handler itself without options.\<close>

datatype 'h cors_outcome = Preflight nat | ServeNext 'h

definition cors_ServeHTTP :: "cors_options option \<Rightarrow> 'h \<Rightarrow> request \<Rightarrow> 'h cors_outcome \<times> (header \<Rightarrow> header)" where
  "cors_ServeHTTP opts next_handler req =
     (case opts of
        None \<Rightarrow> (ServeNext next_handler, id)
      | Some c \<Rightarrow>
         (if isCorsPreflightRequest req then Preflight 204 else ServeNext next_handler, setCorsRespHeaders c req))"

section \<open>The request id\<close>

record uid_conf =
  RequestIDAcceptFromHeader :: string
  RequestIDBackendHeader :: string
  RequestIDClientHeader :: string

definition uid_char :: "char \<Rightarrow> bool" where
  "uid_char c \<longleftrightarrow> is_alnum c \<or> c \<in> set ''@=/+-''"

definition valid_uid :: "string \<Rightarrow> bool" where
  "valid_uid v \<longleftrightarrow> 12 \<le> length v \<and> length v \<le> 64 \<and> list_all uid_char v"

text \<open>\<open>newUID\<close>: the id, the error and the request header, from which the id of the development
  proxy is deleted. \<open>gen\<close> is the result of the generator.\<close>

definition newUID :: "uid_conf \<Rightarrow> string \<Rightarrow> string \<Rightarrow> header \<Rightarrow> string \<times> go_error option \<times> header" where
  "newUID conf devProxyHeader gen h =
     (if RequestIDAcceptFromHeader conf \<noteq> [] then
        (let v = h_get h (RequestIDAcceptFromHeader conf) in
         if v \<noteq> [] then
           (if \<not> valid_uid v
            then (gen, Some (err_Message (''invalid request-id header value: '' @ RequestIDAcceptFromHeader conf @ '': '' @ v)
                       E_ClientRequest), h)
            else (v, None, h))
         else (gen, None, h))
      else if h_get h devProxyHeader \<noteq> [] then (h_get h devProxyHeader, None, h_del devProxyHeader h)
      else (gen, None, h))"

datatype uid_outcome = UidRejected go_error | UidNext

record uid_result =
  uid_value :: string
  uid_outcome :: uid_outcome
  uid_request_header :: header
  uid_response_header :: header

definition uid_ServeHTTP :: "uid_conf \<Rightarrow> string \<Rightarrow> string \<Rightarrow> header \<Rightarrow> header \<Rightarrow> uid_result" where
  "uid_ServeHTTP conf devProxyHeader gen req_h resp_h =
     (case newUID conf devProxyHeader gen req_h of
        (uid, err, h) \<Rightarrow>
          (let resp = (if RequestIDClientHeader conf \<noteq> [] then h_set (RequestIDClientHeader conf) uid resp_h else resp_h)
           in case err of
                Some e \<Rightarrow> \<lparr>uid_value = uid, uid_outcome = UidRejected (err_With (Some e) E_ClientRequest),
                            uid_request_header = h, uid_response_header = resp\<rparr>
              | None \<Rightarrow> \<lparr>uid_value = uid, uid_outcome = UidNext,
                          uid_request_header = (if RequestIDBackendHeader conf \<noteq> [] then h_set (RequestIDBackendHeader conf) uid h else h),
                          uid_response_header = resp\<rparr>))"

section \<open>An unmet condition\<close>

text \<open>\<open>NewErrorHandler\<close>: the handler, and the error stored in the request context.\<close>

definition condition_handler :: "(request \<Rightarrow> go_error option) \<Rightarrow> 'h \<Rightarrow> 'h \<Rightarrow> request \<Rightarrow> 'h \<times> go_error option" where
  "condition_handler cond eh handler req =
     (case cond req of Some e \<Rightarrow> (eh, Some e) | None \<Rightarrow> (handler, None))"

section \<open>Lemmas\<close>

lemma cors_keys [simp]:
  "canonical_key ''Access-Control-Allow-Origin'' = ''Access-Control-Allow-Origin''"
  "canonical_key ''Access-Control-Allow-Credentials'' = ''Access-Control-Allow-Credentials''"
  "canonical_key ''Access-Control-Allow-Headers'' = ''Access-Control-Allow-Headers''"
  "canonical_key ''Access-Control-Allow-Methods'' = ''Access-Control-Allow-Methods''"
  "canonical_key ''Access-Control-Max-Age'' = ''Access-Control-Max-Age''"
  "canonical_key ''Vary'' = ''Vary''"
  by code_simp+

text \<open>The origin that a response admits, as a function of the options and the request.\<close>

definition admitted_origin :: "cors_options \<Rightarrow> request \<Rightarrow> string list" where
  "admitted_origin c req =
     (let origin = h_get (req_header req) ''Origin'' in
      if AllowsOrigin (Some c) ''*'' \<and> \<not> cors_credentials c then [''*'']
      else if origin \<noteq> [] \<and> AllowsOrigin (Some c) origin then [origin] else [])"

lemma preflight_other_keys:
  assumes "canonical_key k \<notin> set [''Access-Control-Allow-Methods'', ''Access-Control-Allow-Headers'', ''Access-Control-Max-Age'', ''Vary'']"
  shows "h_values (cors_preflight_headers c req h) k = h_values h k"
  using assms by (simp add: cors_preflight_headers_def Let_def h_values_simps)

lemma preflight_methods:
  "h_values (cors_preflight_headers c req h) ''Access-Control-Allow-Methods'' =
     (if h_get (req_header req) ''Access-Control-Request-Method'' \<noteq> [] \<and>
         (case cors_method_allowed c of None \<Rightarrow> True | Some f \<Rightarrow> f (h_get (req_header req) ''Access-Control-Request-Method''))
      then [h_get (req_header req) ''Access-Control-Request-Method'']
      else h_values h ''Access-Control-Allow-Methods'')"
  by (simp add: cors_preflight_headers_def Let_def h_values_simps)

lemma deleted_headers:
  "h_values (fold h_del cors_response_headers h) ''Access-Control-Allow-Origin'' = []"
  "h_values (fold h_del cors_response_headers h) ''Access-Control-Allow-Credentials'' = []"
  "h_values (fold h_del cors_response_headers h) ''Access-Control-Allow-Methods'' = []"
  "h_values (fold h_del cors_response_headers h) ''Vary'' = h_values h ''Vary''"
  by (simp_all add: cors_response_headers_def h_values_simps)

text \<open>
  Property C35: whatever headers the upstream response had, the response admits exactly one
  origin or none: the wildcard if it is allowed without credentials, else the origin of a request
  whose origin is allowed; it admits credentials exactly if they are configured and the origin
  of the request is allowed, and then the admitted origin is the one of the request itself; and it varies on the
  origin unless it admits the wildcard.
\<close>

theorem cors_response:
  "h_values (setCorsRespHeaders c req h) ''Access-Control-Allow-Origin'' = admitted_origin c req \<and>
   h_values (setCorsRespHeaders c req h) ''Access-Control-Allow-Credentials'' =
     (if cors_credentials c \<and> isCorsRequest req \<and> AllowsOrigin (Some c) (h_get (req_header req) ''Origin'')
      then [''true''] else []) \<and>
   (if h_values (setCorsRespHeaders c req h) ''Access-Control-Allow-Credentials'' = [] then True
    else h_values (setCorsRespHeaders c req h) ''Access-Control-Allow-Origin'' = [h_get (req_header req) ''Origin'']) \<and>
   (admitted_origin c req = [''*''] \<or> ''Origin'' \<in> set (h_values (setCorsRespHeaders c req h) ''Vary''))"
proof (intro conjI)
  show origin: "h_values (setCorsRespHeaders c req h) ''Access-Control-Allow-Origin'' = admitted_origin c req"
    by (simp add: setCorsRespHeaders_def admitted_origin_def Let_def preflight_other_keys isCorsRequest_def
        h_values_simps deleted_headers)
  show credentials: "h_values (setCorsRespHeaders c req h) ''Access-Control-Allow-Credentials'' =
     (if cors_credentials c \<and> isCorsRequest req \<and> AllowsOrigin (Some c) (h_get (req_header req) ''Origin'')
      then [''true''] else [])"
    by (simp add: setCorsRespHeaders_def Let_def preflight_other_keys h_values_simps deleted_headers)
  show "if h_values (setCorsRespHeaders c req h) ''Access-Control-Allow-Credentials'' = [] then True
    else h_values (setCorsRespHeaders c req h) ''Access-Control-Allow-Origin'' = [h_get (req_header req) ''Origin'']"
    unfolding origin credentials by (simp add: admitted_origin_def isCorsRequest_def)
  have vary: "set (h_values h1 ''Vary'') \<subseteq> set (h_values (cors_preflight_headers c req h1) ''Vary'')" for h1
    by (auto simp: cors_preflight_headers_def Let_def h_values_simps)
  show "admitted_origin c req = [''*''] \<or> ''Origin'' \<in> set (h_values (setCorsRespHeaders c req h) ''Vary'')"
    by (auto simp: setCorsRespHeaders_def admitted_origin_def Let_def h_values_simps intro!: vary[THEN subsetD])
qed

lemma method_keys_iff:
  "m \<in> set (method_keys defaults a) \<longleftrightarrow>
     (if a = ''*'' then (\<exists>ms. defaults = Some ms \<and> m \<in> set ms) else m = to_upper a)"
  by (auto simp: method_keys_def split: option.splits)

text \<open>
  A preflight response names the requested method exactly if a request with that
  method (written without surrounding white space) and an allowed origin is passed to the
  protected handler, whose methods are compared without regard to case, the wildcard standing
  for the default methods.
\<close>

theorem preflight_promise:
  assumes "a = NewAllowedMethodsHandler allowed defaults True False"
    and "cors_method_allowed c = Some (MethodAllowed a)"
    and "isCorsPreflightRequest req" "isCorsRequest req" "AllowsOrigin (Some c) (h_get (req_header req) ''Origin'')"
    and "m = h_get (req_header req) ''Access-Control-Request-Method''" "m \<noteq> []" "trim_space (to_upper m) = to_upper m"
  shows "h_values (setCorsRespHeaders c req h) ''Access-Control-Allow-Methods'' =
     (if allowed_ServeHTTP a (req\<lparr>req_method := m\<rparr>) then [m] else [])"
  using assms
  by (simp add: setCorsRespHeaders_def Let_def preflight_methods allowed_ServeHTTP_def MethodAllowed_def
      NewAllowedMethodsHandler_def h_values_simps deleted_headers)

definition example_preflight :: request where
  "example_preflight = \<lparr>req_method = ''OPTIONS'', req_host = ''h'', req_path = ''/'', req_query = [],
     req_header = [''Origin'' \<mapsto> [''https://a''], ''Access-Control-Request-Method'' \<mapsto> [''Put'']]\<rparr>"

lemma preflight_promise_witness:
  "h_values (setCorsRespHeaders \<lparr>cors_origins = [''*''], cors_credentials = True, cors_max_age = [],
        cors_method_allowed = Some (MethodAllowed (NewAllowedMethodsHandler (Some [''get'', ''put'']) None True False))\<rparr>
      example_preflight Map.empty) ''Access-Control-Allow-Methods'' = [''Put'']"
proof -
  let ?a = "NewAllowedMethodsHandler (Some [''get'', ''put'']) None True False"
  let ?c = "\<lparr>cors_origins = [''*''], cors_credentials = True, cors_max_age = [],
        cors_method_allowed = Some (MethodAllowed ?a)\<rparr>"
  let ?r = example_preflight
  have 1: "isCorsPreflightRequest ?r" by code_simp
  have 2: "isCorsRequest ?r" by code_simp
  have 3: "AllowsOrigin (Some ?c) (h_get (req_header ?r) ''Origin'')" by code_simp
  have 4: "''Put'' = h_get (req_header ?r) ''Access-Control-Request-Method''" by code_simp
  have 5: "trim_space (to_upper ''Put'') = to_upper ''Put''" by code_simp
  have 6: "allowed_ServeHTTP ?a (?r\<lparr>req_method := ''Put''\<rparr>)" by code_simp
  have 7: "cors_method_allowed ?c = Some (MethodAllowed ?a)" by simp
  show ?thesis using preflight_promise[OF refl 7 1 2 3 4 _ 5, of Map.empty] 6 by simp
qed

text \<open>
  The id of a request is generated unless the client may choose it and chose one of
  12 to 64 admitted characters, or no header is configured for that and the development proxy
  sent one; a request is rejected only for an id of the client that is not admitted, and the next
  handler and the client see the same id.
\<close>

theorem request_id:
  "(let r = uid_ServeHTTP conf dev gen req_h resp_h;
        v = h_get req_h (RequestIDAcceptFromHeader conf)
    in (uid_outcome r = UidNext \<longleftrightarrow> RequestIDAcceptFromHeader conf = [] \<or> v = [] \<or> valid_uid v) \<and>
       (uid_value r = gen \<or>
         RequestIDAcceptFromHeader conf \<noteq> [] \<and> uid_value r = v \<and> valid_uid v \<or>
         RequestIDAcceptFromHeader conf = [] \<and> uid_value r = h_get req_h dev) \<and>
       h_values (uid_response_header r) (RequestIDClientHeader conf) =
         (if RequestIDClientHeader conf = [] then h_values resp_h [] else [uid_value r]) \<and>
       h_values (uid_request_header r) (RequestIDBackendHeader conf) =
         (if RequestIDBackendHeader conf \<noteq> [] \<and> uid_outcome r = UidNext then [uid_value r]
          else h_values (snd (snd (newUID conf dev gen req_h))) (RequestIDBackendHeader conf)))"
  by (simp add: Let_def uid_ServeHTTP_def newUID_def h_values_simps split: option.splits)

end
