(* ===== verification/AccessControl.thy ===== *)
theory AccessControl
  imports HttpModel Seetie Errors Middleware
begin

text \<open>
  Access control: which controls apply (\<open>config/access_control.go\<close>), the chain of controls in front
  of a handler (\<open>accesscontrol/ac.go\<close>, \<open>handler/access_control.go\<close>), and the required permission
  (\<open>accesscontrol/permissions.go\<close>).

  A request carries the values of its context that these components read and write: the values
  the controls publish, the granted permissions, the required permission and the error. A
  control is a function from a request to an error or none and the request it leaves. The
  refresh of the evaluation context after each control belongs to the package \<open>eval\<close>.
\<close>

section \<open>The controls that apply\<close>

record ac_conf =
  ac_names :: "string list"
  ac_disabled :: "string list"

definition NewACConf :: "string list \<Rightarrow> string list \<Rightarrow> ac_conf" where
  "NewACConf ac dac = \<lparr>ac_names = ac, ac_disabled = dac\<rparr>"

fun contains_from :: "int \<Rightarrow> string list \<Rightarrow> string \<Rightarrow> int" where
  "contains_from i [] b = -1"
| "contains_from i (a # as) b = (if a = b then i else contains_from (i + 1) as b)"

definition ac_contains :: "string list \<Rightarrow> string \<Rightarrow> int" where
  "ac_contains as b = contains_from 0 as b"

definition ac_List :: "ac_conf \<Rightarrow> string list" where
  "ac_List ac = filter (\<lambda>c. ac_contains (ac_disabled ac) c = -1) (ac_names ac)"

definition append_missing :: "string list \<Rightarrow> string list \<Rightarrow> string list" where
  "append_missing others as = fold (\<lambda>other as. if ac_contains as other \<noteq> -1 then as else as @ [other]) others as"

definition ac_Merge :: "ac_conf \<Rightarrow> ac_conf \<Rightarrow> ac_conf" where
  "ac_Merge ac oac =
     \<lparr>ac_names = append_missing (ac_names oac) (ac_names ac),
      ac_disabled = append_missing (ac_disabled oac) (ac_disabled ac)\<rparr>"

lemma ac_contains_iff [simp]: "ac_contains as b = -1 \<longleftrightarrow> b \<notin> set as"
proof -
  have "0 \<le> i \<Longrightarrow> contains_from i as b = -1 \<longleftrightarrow> b \<notin> set as" for i
    by (induction i as b rule: contains_from.induct) auto
  then show ?thesis by (simp add: ac_contains_def)
qed

lemma set_append_missing [simp]: "set (append_missing others as) = set as \<union> set others"
  by (induction others arbitrary: as) (auto simp: append_missing_def)

lemma distinct_append_missing: "distinct as \<Longrightarrow> distinct (append_missing others as)"
  by (induction others arbitrary: as) (auto simp: append_missing_def)

lemma append_missing_prefix: "\<exists>bs. append_missing others as = as @ bs"
proof (induction others arbitrary: as)
  case (Cons x others)
  obtain bs where "append_missing others (if x \<in> set as then as else as @ [x]) =
      (if x \<in> set as then as else as @ [x]) @ bs" using Cons by blast
  then show ?case by (auto simp: append_missing_def split: if_splits)
qed (simp add: append_missing_def)

text \<open>
  The controls of a handler are those of the parent or of the handler that neither
  of them disables, the parent's ones first and in their order, each once if the parent names
  none twice.
\<close>

theorem effective_controls:
  "set (ac_List (ac_Merge p h)) =
     (set (ac_names p) \<union> set (ac_names h)) - (set (ac_disabled p) \<union> set (ac_disabled h)) \<and>
   (\<exists>more. ac_List (ac_Merge p h) =
      filter (\<lambda>c. c \<notin> set (ac_disabled p) \<union> set (ac_disabled h)) (ac_names p) @ more) \<and>
   distinct (ac_List (ac_Merge \<lparr>ac_names = remdups ns, ac_disabled = ds\<rparr> h))"
proof (intro conjI)
  show "set (ac_List (ac_Merge p h)) =
     (set (ac_names p) \<union> set (ac_names h)) - (set (ac_disabled p) \<union> set (ac_disabled h))"
    by (auto simp: ac_List_def ac_Merge_def)
  obtain bs where bs: "append_missing (ac_names h) (ac_names p) = ac_names p @ bs"
    using append_missing_prefix by blast
  show "\<exists>more. ac_List (ac_Merge p h) =
      filter (\<lambda>c. c \<notin> set (ac_disabled p) \<union> set (ac_disabled h)) (ac_names p) @ more"
    by (simp add: ac_List_def ac_Merge_def bs)
  show "distinct (ac_List (ac_Merge \<lparr>ac_names = remdups ns, ac_disabled = ds\<rparr> h))"
    by (simp add: ac_List_def ac_Merge_def distinct_append_missing)
qed

section \<open>The chain of controls\<close>

record ac_request = request +
  ctx_controls :: "(string \<rightharpoonup> goval) option"
  ctx_granted :: "string list option"
  ctx_required :: "string option"
  ctx_error :: "go_error option"

type_synonym control = "ac_request \<Rightarrow> go_error option \<times> ac_request"

record 'h list_item =
  li_control :: control
  li_handler :: 'h
  li_kind :: string
  li_label :: string
  li_disable_private_caching :: "bool option"

definition NewItem :: "string \<Rightarrow> control \<Rightarrow> 'h \<Rightarrow> string \<Rightarrow> bool option \<Rightarrow> 'h list_item" where
  "NewItem name control eh kind dpc =
     \<lparr>li_control = control, li_handler = eh, li_kind = kind, li_label = name, li_disable_private_caching = dpc\<rparr>"

definition item_Validate :: "'h list_item \<Rightarrow> control" where
  "item_Validate i req =
     (case li_control i req of
        (Some err, r) \<Rightarrow>
          (Some (if is_couper err then err_Label (li_label i) err
                 else err_With (Some err) (sub_kind (li_kind i) (err_Label (li_label i) (as_parent E_AccessControl)))), r)
      | (None, r) \<Rightarrow> (None, r))"

definition DisablePrivateCaching :: "'h list_item \<Rightarrow> bool" where
  "DisablePrivateCaching i = (case li_disable_private_caching i of Some b \<Rightarrow> b | None \<Rightarrow> True)"

text \<open>\<open>AccessControl.ServeHTTP\<close>: the handler that serves, the request it is given, and whether the
  response was marked as private. \<open>ok\<close> tells that the response is a \<open>writer.Response\<close>.\<close>

fun ac_serve :: "bool \<Rightarrow> 'h \<Rightarrow> 'h list_item list \<Rightarrow> ac_request \<Rightarrow> bool \<Rightarrow> 'h \<times> ac_request \<times> bool" where
  "ac_serve ok prot [] req priv = (prot, req, priv)"
| "ac_serve ok prot (i # its) req priv =
     (let priv' = priv \<or> (ok \<and> \<not> DisablePrivateCaching i) in
      case item_Validate i req of
        (Some err, r) \<Rightarrow> (li_handler i, r\<lparr>ctx_error := Some err\<rparr>, priv')
      | (None, r) \<Rightarrow> ac_serve ok prot its r priv')"

definition ac_ServeHTTP :: "bool \<Rightarrow> 'h \<Rightarrow> 'h list_item list \<Rightarrow> ac_request \<Rightarrow> 'h \<times> ac_request \<times> bool" where
  "ac_ServeHTTP ok prot items req = ac_serve ok prot items req False"

text \<open>The request after some controls, if all of them accept it.\<close>

fun accepted :: "'h list_item list \<Rightarrow> ac_request \<Rightarrow> ac_request option" where
  "accepted [] req = Some req"
| "accepted (i # its) req = (case li_control i req of (Some e, r) \<Rightarrow> None | (None, r) \<Rightarrow> accepted its r)"

lemma is_couper_ops [simp]:
  "is_couper (err_Label l e) = is_couper e" "is_couper (err_Message m e) = is_couper e"
  "is_couper (err_With w e) = is_couper e" "is_couper (snd (err_Kind k e)) = is_couper e"
  "is_couper (err_Status n e) = is_couper e" "is_couper (err_Context c e) = is_couper e"
  "is_couper (fst (err_Kind k e)) = is_couper e"
  by (cases e; cases w; simp)+

lemma label_ops [simp]: "is_couper e \<Longrightarrow> label (err_Label l e) = l"
  "label (err_With w e) = label e" "label (snd (err_Kind k e)) = label e"
  by (cases e; cases w; simp)+

lemma item_error:
  "item_Validate i req = (Some e, r) \<Longrightarrow>
     is_couper e \<and> label e = li_label i \<and> (\<exists>e'. li_control i req = (Some e', r))"
  by (auto simp: item_Validate_def sub_kind_def as_parent_def E_AccessControl_def base_error_def split: prod.splits option.splits if_splits)

lemma ac_serve_cases:
  "ac_serve ok prot items req priv = (h, r, p) \<Longrightarrow>
     (accepted items req = Some r \<and> h = prot \<and> p = (priv \<or> (ok \<and> list_ex (\<lambda>i. \<not> DisablePrivateCaching i) items))) \<or>
     (\<exists>pre i post r0 e r1. items = pre @ i # post \<and> accepted pre req = Some r0 \<and> li_control i r0 = (Some e, r1) \<and>
        h = li_handler i \<and> (\<exists>err. r = r1\<lparr>ctx_error := Some err\<rparr> \<and> is_couper err \<and> label err = li_label i) \<and>
        p = (priv \<or> (ok \<and> list_ex (\<lambda>i. \<not> DisablePrivateCaching i) (pre @ [i]))))"
proof (induction items arbitrary: req priv)
  case (Cons i its)
  show ?case
  proof (cases "item_Validate i req")
    case (Pair e r0)
    show ?thesis
    proof (cases e)
      case None
      then have acc: "li_control i req = (None, r0)"
        using Pair by (auto simp: item_Validate_def split: prod.splits option.splits)
      with Cons.prems Pair None have "ac_serve ok prot its r0 (priv \<or> (ok \<and> \<not> DisablePrivateCaching i)) = (h, r, p)"
        by (simp add: Let_def)
      from Cons.IH[OF this] show ?thesis
      proof (elim disjE exE conjE, goal_cases)
        case 1
        then show ?case using acc by (intro disjI1) auto
      next
        case (2 pre i' post r0' e r1 err)
        then show ?case using acc
          by (intro disjI2 exI[of _ "i # pre"] exI[of _ i'] exI[of _ post] exI[of _ r0'] exI[of _ e] exI[of _ r1]) auto
      qed
    next
      case (Some err)
      with Pair item_error[of i req err r0] obtain e' where e': "is_couper err" "label err = li_label i" "li_control i req = (Some e', r0)"
        by auto
      with Cons.prems Pair Some have "h = li_handler i" "r = r0\<lparr>ctx_error := Some err\<rparr>"
        "p = (priv \<or> (ok \<and> \<not> DisablePrivateCaching i))" by (auto simp: Let_def)
      with e' show ?thesis
        by (intro disjI2 exI[of _ "[]"] exI[of _ i] exI[of _ its] exI[of _ req] exI[of _ e'] exI[of _ r0]) auto
    qed
  qed
qed simp

text \<open>
  Property C4: either every control accepts the request, one after the other, and the protected
  handler gets the request they leave; or the error handler of the first control that rejects it
  is called, with an error of Couper that carries the label of that control, and no later control
  is asked. The response is private exactly if one of the controls asked wants that.
\<close>

theorem access_control_gate:
  "case ac_ServeHTTP ok prot items req of (h, r, p) \<Rightarrow>
     (accepted items req = Some r \<and> h = prot \<and> p = (ok \<and> list_ex (\<lambda>i. \<not> DisablePrivateCaching i) items)) \<or>
     (\<exists>pre i post r0 e r1. items = pre @ i # post \<and> accepted pre req = Some r0 \<and> li_control i r0 = (Some e, r1) \<and>
        h = li_handler i \<and> (\<exists>err. r = r1\<lparr>ctx_error := Some err\<rparr> \<and> is_couper err \<and> label err = li_label i) \<and>
        p = (ok \<and> list_ex (\<lambda>i. \<not> DisablePrivateCaching i) (pre @ [i])))"
  using ac_serve_cases[of ok prot items req False]
  by (cases "ac_ServeHTTP ok prot items req") (simp add: ac_ServeHTTP_def)

section \<open>The required permission\<close>

record required_permissions =
  rp_permission :: string
  rp_permissions :: "(string \<rightharpoonup> string) option"

definition default_permissions :: "string \<Rightarrow> string \<rightharpoonup> string" where
  "default_permissions p = map_of (map (\<lambda>m. (m, p)) DefaultEndpointAllowedMethods)"

definition newRequiredPermissions :: "string \<Rightarrow> (string \<rightharpoonup> string) option \<Rightarrow> required_permissions" where
  "newRequiredPermissions permission permissionMap =
     (case permissionMap of
        None \<Rightarrow> \<lparr>rp_permission = permission, rp_permissions = None\<rparr>
      | Some m \<Rightarrow>
          \<lparr>rp_permission = [],
           rp_permissions = Some ((case m ''*'' of None \<Rightarrow> Map.empty | Some p \<Rightarrow> default_permissions p) ++ m(''*'' := None))\<rparr>)"

definition getPermission :: "required_permissions \<Rightarrow> string \<Rightarrow> go_error + string" where
  "getPermission r method =
     (case rp_permissions r of
        None \<Rightarrow> Inr (rp_permission r)
      | Some m \<Rightarrow>
         (case m method of
            None \<Rightarrow> Inl (err_Message (''method '' @ method @ '' not allowed by required_permission'') E_MethodNotAllowed)
          | Some p \<Rightarrow> Inr p))"

definition hasGrantedPermission :: "string list \<Rightarrow> string \<Rightarrow> bool" where
  "hasGrantedPermission granted p = list_ex (\<lambda>gp. gp = p) granted"

text \<open>\<open>PermissionsControl.Validate\<close>. The value of the expression is an argument, \<open>None\<close> where there is
  no expression; the outer option is the panic of the conversion.\<close>

definition permissions_Validate ::
    "(go_error + cty) option \<Rightarrow> ac_request \<Rightarrow> (go_error option \<times> ac_request) option" where
  "permissions_Validate expr req =
     (case expr of
        None \<Rightarrow> Some (None, req)
      | Some (Inl e) \<Rightarrow> Some (Some (err_With (Some e) E_Evaluation), req)
      | Some (Inr val) \<Rightarrow>
         (case ValueToPermission val of
            None \<Rightarrow> None
          | Some (Inl t) \<Rightarrow> Some (Some (err_With (Some (PlainError t)) E_Evaluation), req)
          | Some (Inr (permission, permissionMap)) \<Rightarrow>
             (case getPermission (newRequiredPermissions permission permissionMap) (req_method req) of
                Inl e \<Rightarrow> Some (Some e, req)
              | Inr required \<Rightarrow>
                  if required = [] then Some (None, req)
                  else (let r = req\<lparr>ctx_required := Some required\<rparr> in
                    case ctx_granted req of
                      None \<Rightarrow> Some (Some (err_Message ''no permissions granted'' (error_def ''insufficient_permissions'')), r)
                    | Some granted \<Rightarrow>
                        if hasGrantedPermission granted required then Some (None, r)
                        else Some (Some (err_Message (''required permission '' @ CHR 0x22 # required @ CHR 0x22 # '' not granted'')
                               (error_def ''insufficient_permissions'')), r)))))"

lemma default_permissions_eq:
  "default_permissions p m = (if m \<in> set DefaultEndpointAllowedMethods then Some p else None)"
  by (auto simp: default_permissions_def map_of_map_restrict restrict_map_def)

lemma getPermission_new:
  "getPermission (newRequiredPermissions p pm) method =
     (case pm of
        None \<Rightarrow> Inr p
      | Some m \<Rightarrow>
         (case (if method = ''*'' then None else m method) of
            Some q \<Rightarrow> Inr q
          | None \<Rightarrow>
             (case m ''*'' of
                Some q \<Rightarrow>
                  if method \<in> set DefaultEndpointAllowedMethods then Inr q
                  else Inl (err_Message (''method '' @ method @ '' not allowed by required_permission'') E_MethodNotAllowed)
              | None \<Rightarrow> Inl (err_Message (''method '' @ method @ '' not allowed by required_permission'') E_MethodNotAllowed))))"
  by (auto simp: getPermission_def newRequiredPermissions_def default_permissions_eq map_add_def split: option.splits)

text \<open>
  A request passes the permissions control exactly if there is no expression, or its
  value is a permission or a map with an entry for the method of the request (or, for one of the
  default methods without its own entry, for the wildcard), and the permission found is empty or
  has been granted.
\<close>

theorem permission_decision:
  "(\<exists>r. permissions_Validate expr req = Some (None, r)) \<longleftrightarrow>
     (expr = None \<or>
      (\<exists>val p pm required. expr = Some (Inr val) \<and> ValueToPermission val = Some (Inr (p, pm)) \<and>
         (case pm of
            None \<Rightarrow> required = p
          | Some m \<Rightarrow>
              (if req_method req \<noteq> ''*'' \<and> m (req_method req) \<noteq> None then m (req_method req) = Some required
               else req_method req \<in> set DefaultEndpointAllowedMethods \<and> m ''*'' = Some required)) \<and>
         (required = [] \<or> (\<exists>granted. ctx_granted req = Some granted \<and> required \<in> set granted))))"
proof -
  have has: "hasGrantedPermission g p \<longleftrightarrow> p \<in> set g" for g p
    by (auto simp: hasGrantedPermission_def list_ex_iff)
  show ?thesis
    unfolding permissions_Validate_def getPermission_new has
    by (auto split: option.splits sum.splits if_splits simp: Let_def)
qed

end
