(* ===== verification/BasicAuth.thy ===== *)
theory BasicAuth
  imports AccessControl
begin

text \<open>
  Basic authentication (\<open>accesscontrol/basic_auth.go\<close>, \<open>basic_auth_algos.go\<close>): the configured user,
  the htpasswd file and the apr1 and MD5 password hashes.

  The hash function MD5 and the comparison of the package \<open>bcrypt\<close> are arguments. The file is its
  content, \<open>None\<close> where it cannot be opened.
\<close>

section \<open>Password entries\<close>

datatype pwd_type = PwdUnknown | PwdApr1 | PwdBcrypt | PwdMD5

definition pwdPrefixApr1 :: string where "pwdPrefixApr1 = ''$apr1$''"
definition pwdPrefixMD5 :: string where "pwdPrefixMD5 = ''$1$''"

definition pwdPrefixes :: "(string \<times> pwd_type) list" where
  "pwdPrefixes = [(''$apr1$'', PwdApr1), (''$2a$'', PwdBcrypt), (''$2b$'', PwdBcrypt),
     (''$2x$'', PwdBcrypt), (''$2y$'', PwdBcrypt), (''$1$'', PwdMD5)]"

record pwd =
  pwdOrig :: string
  pwdPrefix :: string
  pwdSalt :: string
  pwdType :: pwd_type

type_synonym htData = "(string \<times> pwd) list"

fun pwd_type_in :: "(string \<times> pwd_type) list \<Rightarrow> string \<Rightarrow> pwd_type" where
  "pwd_type_in [] pass = PwdUnknown"
| "pwd_type_in ((p, t) # ps) pass = (if has_prefix pass p then t else pwd_type_in ps pass)"

definition getPwdType :: "string \<Rightarrow> pwd_type" where
  "getPwdType pass = pwd_type_in pwdPrefixes pass"

section \<open>The apr1 hash\<close>

definition aprCharacters :: string where
  "aprCharacters = ''./0123456789ABCDEFGHIJKLMNOPQRSTUVWXYZabcdefghijklmnopqrstuvwxyz''"

fun apr1_fill :: "string \<Rightarrow> nat \<Rightarrow> string" where
  "apr1_fill bin i =
     (if i = 0 then [] else if 16 < i then take 16 bin @ apr1_fill bin (i - 16) else take i bin)"

fun apr1_bits :: "string \<Rightarrow> nat \<Rightarrow> string" where
  "apr1_bits pass i =
     (if i = 0 then [] else (if odd i then [CHR 0x00] else take 1 pass) @ apr1_bits pass (i div 2))"

declare apr1_fill.simps [simp del] apr1_bits.simps [simp del]

definition apr1_round :: "(string \<Rightarrow> string) \<Rightarrow> string \<Rightarrow> string \<Rightarrow> nat \<Rightarrow> string \<Rightarrow> string" where
  "apr1_round md5 pass salt i dg =
     md5 ((if odd i then pass else dg) @ (if i mod 3 \<noteq> 0 then salt else []) @
          (if i mod 7 \<noteq> 0 then pass else []) @ (if odd i then dg else pass))"

fun apr1_digits :: "nat \<Rightarrow> nat \<Rightarrow> string" where
  "apr1_digits 0 v = []"
| "apr1_digits (Suc n) v = aprCharacters ! (v mod 64) # apr1_digits n (v div 64)"

definition apr1_add :: "char \<Rightarrow> char \<Rightarrow> char \<Rightarrow> bool \<Rightarrow> string" where
  "apr1_add a b c final =
     apr1_digits (if final then 2 else 4) (of_char a * 65536 + of_char b * 256 + of_char c)"

definition apr1MD5 :: "(string \<Rightarrow> string) \<Rightarrow> string \<Rightarrow> string \<Rightarrow> string \<Rightarrow> string" where
  "apr1MD5 md5 pass salt pref =
     (let bin = md5 (pass @ salt @ pass);
          start = md5 (pass @ pref @ salt @ apr1_fill bin (length pass) @ apr1_bits pass (length pass));
          dg = fold (apr1_round md5 pass salt) [0..<1000] start
      in pref @ salt @ ''$'' @
         apr1_add (dg ! 0) (dg ! 6) (dg ! 12) False @ apr1_add (dg ! 1) (dg ! 7) (dg ! 13) False @
         apr1_add (dg ! 2) (dg ! 8) (dg ! 14) False @ apr1_add (dg ! 3) (dg ! 9) (dg ! 15) False @
         apr1_add (dg ! 4) (dg ! 10) (dg ! 5) False @ apr1_add (CHR 0x00) (CHR 0x00) (dg ! 11) True)"

definition entry_matches :: "(string \<Rightarrow> string) \<Rightarrow> (string \<Rightarrow> string \<Rightarrow> bool) \<Rightarrow> string \<Rightarrow> pwd \<Rightarrow> bool" where
  "entry_matches md5 bcrypt plain e =
     (case pwdType e of
        PwdApr1 \<Rightarrow> apr1MD5 md5 plain (pwdSalt e) (pwdPrefix e) = pwdOrig e
      | PwdMD5 \<Rightarrow> apr1MD5 md5 plain (pwdSalt e) (pwdPrefix e) = pwdOrig e
      | PwdBcrypt \<Rightarrow> bcrypt (pwdOrig e) plain
      | PwdUnknown \<Rightarrow> False)"

definition validateAccessData ::
    "(string \<Rightarrow> string) \<Rightarrow> (string \<Rightarrow> string \<Rightarrow> bool) \<Rightarrow> string \<Rightarrow> string \<Rightarrow> htData \<Rightarrow> bool" where
  "validateAccessData md5 bcrypt plainUser plainPass data =
     list_ex (\<lambda>(user, e). user = plainUser \<and> entry_matches md5 bcrypt plainPass e) data"

section \<open>The htpasswd file\<close>

datatype htpasswd_error =
    OpenFailed | LineTooLong | InvalidLine nat | MultipleUser string | MalformedPassword string
  | UnsupportedAlgorithm | ScannerTooLong

text \<open>\<open>bufio.Scanner\<close>: the lines without their ends; a line that fills the buffer of 65536 bytes
  stops it with an error.\<close>

definition scan_line :: "string \<Rightarrow> string" where
  "scan_line l = (if l \<noteq> [] \<and> last l = CHR 0x0D then butlast l else l)"

definition scan_lines :: "string \<Rightarrow> string list \<times> bool" where
  "scan_lines content =
     (let raw = split_on CHR 0x0A content;
          raw' = (if last raw = [] then butlast raw else raw);
          fits = takeWhile (\<lambda>l. int (length l) < 65536) raw'
      in (map scan_line fits, length fits < length raw'))"

definition htpasswd_entry :: "string \<Rightarrow> string \<Rightarrow> htpasswd_error + pwd" where
  "htpasswd_entry username password =
     (let t = getPwdType password in
      case t of
        PwdBcrypt \<Rightarrow> Inr \<lparr>pwdOrig = password, pwdPrefix = [], pwdSalt = [], pwdType = t\<rparr>
      | PwdUnknown \<Rightarrow> Inl UnsupportedAlgorithm
      | _ \<Rightarrow>
         (let prefix = (if t = PwdMD5 then pwdPrefixMD5 else pwdPrefixApr1) in
          case split_on CHR ''$'' (trim_prefix password prefix) of
            [salt, hash] \<Rightarrow> Inr \<lparr>pwdOrig = password, pwdPrefix = prefix, pwdSalt = salt, pwdType = t\<rparr>
          | _ \<Rightarrow> Inl (MalformedPassword username)))"

fun parse_htpasswd :: "nat \<Rightarrow> string list \<Rightarrow> htData \<Rightarrow> htpasswd_error + htData" where
  "parse_htpasswd n [] data = Inr data"
| "parse_htpasswd n (l # ls) data =
     (let line = trim_space l in
      if line = [] \<or> hd line = CHR ''#'' then parse_htpasswd (Suc n) ls data
      else if 255 < int (length line) then Inl LineTooLong
      else (case split_first CHR '':'' line of
         [username, password] \<Rightarrow>
           if map_of data username \<noteq> None then Inl (MultipleUser username)
           else (case htpasswd_entry username password of
              Inl e \<Rightarrow> Inl e
            | Inr e \<Rightarrow> parse_htpasswd (Suc n) ls (data @ [(username, e)]))
       | _ \<Rightarrow> Inl (InvalidLine (Suc n))))"

record basic_auth =
  ba_htFile :: htData
  ba_name :: string
  ba_user :: string
  ba_pass :: string

definition NewBasicAuth ::
    "string \<Rightarrow> string \<Rightarrow> string \<Rightarrow> string \<Rightarrow> (string \<Rightarrow> string option) \<Rightarrow> htpasswd_error + basic_auth" where
  "NewBasicAuth name user pass file read_file =
     (let ba = \<lambda>d. \<lparr>ba_htFile = d, ba_name = name, ba_user = user, ba_pass = pass\<rparr> in
      if file = [] then Inr (ba [])
      else (case read_file file of
         None \<Rightarrow> Inl OpenFailed
       | Some content \<Rightarrow>
          (case scan_lines content of (ls, too_long) \<Rightarrow>
            (case parse_htpasswd 0 ls [] of
               Inl e \<Rightarrow> Inl e
             | Inr d \<Rightarrow> if too_long then Inl ScannerTooLong else Inr (ba d)))))"

section \<open>Validation\<close>

definition withUsername :: "basic_auth \<Rightarrow> ac_request \<Rightarrow> string \<Rightarrow> ac_request" where
  "withUsername ba req user =
     (let acMap = (case ctx_controls req of Some m \<Rightarrow> m | None \<Rightarrow> Map.empty) in
      req\<lparr>ctx_controls := Some (acMap(ba_name ba \<mapsto> GMap (Some [(''user'', GString user)])))\<rparr>)"

text \<open>\<open>Validate\<close>; the receiver is nil for \<open>None\<close>.\<close>

definition basic_auth_Validate ::
    "(string \<Rightarrow> string) \<Rightarrow> (string \<Rightarrow> string \<Rightarrow> bool) \<Rightarrow> basic_auth option \<Rightarrow> control" where
  "basic_auth_Validate md5 bcrypt ba' req =
     (case ba' of
        None \<Rightarrow> (Some E_Configuration, req)
      | Some ba \<Rightarrow>
         (case req_basic_auth (req_header req) of
            None \<Rightarrow>
              (let val = h_get (req_header req) ''Authorization'' in
               if val = [] \<or> \<not> has_prefix val ''Basic ''
               then (Some (err_Message ''credentials required'' (error_def ''basic_auth_credentials_missing'')), req)
               else (Some (err_Message ''reading authorization failed'' (error_def ''basic_auth'')), req))
          | Some (user, pass) \<Rightarrow>
              if ba_user ba = user \<and> ba_pass ba \<noteq> [] then
                (if ba_pass ba = pass then (None, withUsername ba req user)
                 else (Some (err_Message ''credential mismatch'' (error_def ''basic_auth'')), req))
              else if ba_user ba = user \<and> ba_htFile ba = [] then
                (Some (err_Message ''no password configured'' (error_def ''basic_auth'')), req)
              else if ba_htFile ba \<noteq> [] then
                (if validateAccessData md5 bcrypt user pass (ba_htFile ba) then (None, withUsername ba req user)
                 else (Some (err_Message ''file: credential mismatch'' (error_def ''basic_auth'')), req))
              else (Some (err_Message ''credential mismatch'' (error_def ''basic_auth'')), req)))"

section \<open>Lemmas\<close>

lemma split_first_two: "split_first c s = [a, b] \<Longrightarrow> s = a @ c # b \<and> c \<notin> set a"
  by (induction c s arbitrary: a b rule: split_first.induct) (auto split: if_splits list.splits)

lemma split_on_two: "split_on c s = [a, b] \<Longrightarrow> s = a @ c # b \<and> c \<notin> set a \<and> c \<notin> set b"
proof -
  assume two: "split_on c s = [a, b]"
  then have "s = a @ [c] @ b" using join_split_on[of c s] by simp
  moreover have "c \<notin> set a" "c \<notin> set b" using split_on_no_sep[of _ c s] two by auto
  ultimately show "s = a @ c # b \<and> c \<notin> set a \<and> c \<notin> set b" by simp
qed

text \<open>What an entry of an accepted file is.\<close>

definition wf_entry :: "string \<times> pwd \<Rightarrow> bool" where
  "wf_entry ue \<longleftrightarrow> CHR '':'' \<notin> set (fst ue) \<and>
     (pwdType (snd ue) = PwdBcrypt \<or>
      (pwdType (snd ue) = PwdApr1 \<and> pwdPrefix (snd ue) = pwdPrefixApr1 \<or>
       pwdType (snd ue) = PwdMD5 \<and> pwdPrefix (snd ue) = pwdPrefixMD5) \<and>
      (\<exists>hash. pwdOrig (snd ue) = pwdPrefix (snd ue) @ pwdSalt (snd ue) @ ''$'' @ hash \<and>
         CHR ''$'' \<notin> set (pwdSalt (snd ue)) \<and> CHR ''$'' \<notin> set hash))"

lemma htpasswd_entry_wf:
  assumes "htpasswd_entry u p = Inr e" "CHR '':'' \<notin> set u"
  shows "wf_entry (u, e) \<and> pwdOrig e = p"
proof (cases "getPwdType p")
  case PwdUnknown
  then show ?thesis using assms by (simp add: htpasswd_entry_def)
next
  case PwdBcrypt
  then show ?thesis using assms by (auto simp: htpasswd_entry_def wf_entry_def)
next
  case PwdApr1
  then have pre: "has_prefix p pwdPrefixApr1"
    by (auto simp: getPwdType_def pwdPrefixes_def pwdPrefixApr1_def split: if_splits)
  then obtain r where r: "p = pwdPrefixApr1 @ r" by (auto simp: has_prefix_iff)
  from assms PwdApr1 r obtain salt hash where
    "split_on CHR ''$'' r = [salt, hash]" "e = \<lparr>pwdOrig = p, pwdPrefix = pwdPrefixApr1, pwdSalt = salt, pwdType = PwdApr1\<rparr>"
    by (auto simp: htpasswd_entry_def split: list.splits)
  with split_on_two[of "CHR ''$''" r salt hash] r assms(2) show ?thesis by (auto simp: wf_entry_def)
next
  case PwdMD5
  then have pre: "has_prefix p pwdPrefixMD5"
    by (auto simp: getPwdType_def pwdPrefixes_def pwdPrefixMD5_def split: if_splits)
  then obtain r where r: "p = pwdPrefixMD5 @ r" by (auto simp: has_prefix_iff)
  from assms PwdMD5 r obtain salt hash where
    "split_on CHR ''$'' r = [salt, hash]" "e = \<lparr>pwdOrig = p, pwdPrefix = pwdPrefixMD5, pwdSalt = salt, pwdType = PwdMD5\<rparr>"
    by (auto simp: htpasswd_entry_def split: list.splits)
  with split_on_two[of "CHR ''$''" r salt hash] r assms(2) show ?thesis by (auto simp: wf_entry_def)
qed

lemma parse_htpasswd_wf:
  "parse_htpasswd n ls data = Inr d \<Longrightarrow> distinct (map fst data) \<Longrightarrow> list_all wf_entry data \<Longrightarrow>
     distinct (map fst d) \<and> list_all wf_entry d"
proof (induction n ls data rule: parse_htpasswd.induct)
  case (2 n l ls data)
  let ?line = "trim_space l"
  show ?case
  proof (cases "?line = [] \<or> hd ?line = CHR ''#''")
    case True
    with 2 show ?thesis by (simp add: Let_def)
  next
    case False
    with "2.prems"(1) obtain u p e where up: "split_first CHR '':'' ?line = [u, p]" "map_of data u = None"
      "htpasswd_entry u p = Inr e" "parse_htpasswd (Suc n) ls (data @ [(u, e)]) = Inr d" "\<not> 255 < int (length ?line)"
      by (auto simp: Let_def split: if_splits list.splits sum.splits)
    from split_first_two[OF up(1)] have "CHR '':'' \<notin> set u" by simp
    with htpasswd_entry_wf up(3) have "wf_entry (u, e)" by blast
    moreover from up(2) have "u \<notin> fst ` set data" by (simp add: map_of_eq_None_iff)
    ultimately show ?thesis
      using "2.IH"(2)[OF refl False up(5) up(1) refl refl _ up(3,4)] "2.prems"(2,3) up(2) by simp
  qed
qed simp

text \<open>
  Property C23: basic authentication accepts a request exactly if it carries credentials, and the
  password is the configured one where the configured user has a password, and matches the
  entry of the user in the file otherwise. A password of the file never replaces the configured
  one, and without any password nobody is accepted.
\<close>

theorem basic_auth_decision:
  "fst (basic_auth_Validate md5 bcrypt (Some ba) req) = None \<longleftrightarrow>
     (\<exists>u p. req_basic_auth (req_header req) = Some (u, p) \<and>
        (if ba_user ba = u \<and> ba_pass ba \<noteq> [] then p = ba_pass ba
         else \<exists>e. (u, e) \<in> set (ba_htFile ba) \<and> entry_matches md5 bcrypt p e))"
proof -
  have data: "validateAccessData md5 bcrypt u p d \<longleftrightarrow> (\<exists>e. (u, e) \<in> set d \<and> entry_matches md5 bcrypt p e)" for u p d
    by (auto simp: validateAccessData_def list_ex_iff)
  show ?thesis
  proof (cases "req_basic_auth (req_header req)")
    case None
    then show ?thesis by (simp add: basic_auth_Validate_def Let_def)
  next
    case (Some up)
    then show ?thesis
      by (cases up) (auto simp: basic_auth_Validate_def Let_def data)
  qed
qed

text \<open>
  An htpasswd file that is accepted names every user once, and every entry has a
  supported type and, for the apr1 and MD5 types, the form of prefix, salt and hash separated by
  a dollar sign, which is the form that the hash of a password is compared with.
\<close>

theorem htpasswd_accepted:
  assumes "NewBasicAuth name user pass file read_file = Inr ba"
  shows "distinct (map fst (ba_htFile ba)) \<and> list_all wf_entry (ba_htFile ba)"
  using assms parse_htpasswd_wf[of 0 _ "[]"]
  by (auto simp: NewBasicAuth_def Let_def split: if_splits option.splits prod.splits sum.splits)

lemma htpasswd_accepted_witness:
  "distinct [''john'', ''jane''] \<and>
   list_all wf_entry [(''john'', \<lparr>pwdOrig = ''$apr1$ab$cd'', pwdPrefix = ''$apr1$'', pwdSalt = ''ab'', pwdType = PwdApr1\<rparr>),
     (''jane'', \<lparr>pwdOrig = ''$2y$05$xyz'', pwdPrefix = [], pwdSalt = [], pwdType = PwdBcrypt\<rparr>)]"
proof -
  let ?ba = "\<lparr>ba_htFile = [(''john'', \<lparr>pwdOrig = ''$apr1$ab$cd'', pwdPrefix = ''$apr1$'', pwdSalt = ''ab'', pwdType = PwdApr1\<rparr>),
     (''jane'', \<lparr>pwdOrig = ''$2y$05$xyz'', pwdPrefix = [], pwdSalt = [], pwdType = PwdBcrypt\<rparr>)],
     ba_name = ''ba'', ba_user = ''a'', ba_pass = ''b''\<rparr>"
  have "NewBasicAuth ''ba'' ''a'' ''b'' ''f''
      (\<lambda>_. Some (''# users'' @ [CHR 0x0A] @ ''john:$apr1$ab$cd'' @ [CHR 0x0D, CHR 0x0A] @ ''jane:$2y$05$xyz'' @ [CHR 0x0A])) = Inr ?ba"
    by code_simp
  from htpasswd_accepted[OF this] show ?thesis by simp
qed

end
