(* ===== verification/Cache.thy ===== *)
theory Cache
  imports GoPrelude
begin

text \<open>
  The memory store (\<open>cache/memory.go\<close>): values with a time to live, read under the store's lock, and
  a collector that deletes expired entries once a second.

  Every operation holds the lock, so the operations are functions of the database, which is an
  association list because the code ranges over it. The clock reading of an operation, in seconds,
  is its argument \<open>now\<close>. The collector's ticks carry their own time.
\<close>

definition maxExpiresIn :: int where
  "maxExpiresIn = 86400"

record 'v entry =
  ent_value :: 'v
  ent_expAt :: int

type_synonym 'v memory_store = "(string \<times> 'v entry) list"

definition NewStore :: "'v memory_store" where
  "NewStore = []"

definition store_Del :: "string \<Rightarrow> 'v memory_store \<Rightarrow> 'v memory_store" where
  "store_Del k db = filter (\<lambda>(k', e). k' \<noteq> k) db"

definition store_Get :: "int \<Rightarrow> string \<Rightarrow> 'v memory_store \<Rightarrow> 'v option" where
  "store_Get now k db =
     (case map_of db k of
        None \<Rightarrow> None
      | Some e \<Rightarrow> if ent_expAt e \<le> now then None else Some (ent_value e))"

definition store_GetAllWithPrefix :: "int \<Rightarrow> string \<Rightarrow> 'v memory_store \<Rightarrow> 'v list" where
  "store_GetAllWithPrefix now prefix db =
     map (ent_value \<circ> snd) (filter (\<lambda>(k, e). \<not> (ent_expAt e \<le> now \<or> \<not> has_prefix k prefix)) db)"

definition clamp_ttl :: "int \<Rightarrow> int" where
  "clamp_ttl ttl = (if ttl < 0 then 0 else if maxExpiresIn < ttl then maxExpiresIn else ttl)"

definition store_Set :: "int \<Rightarrow> string \<Rightarrow> 'v \<Rightarrow> int \<Rightarrow> 'v memory_store \<Rightarrow> 'v memory_store" where
  "store_Set now k v ttl db = (k, \<lparr>ent_value = v, ent_expAt = now + clamp_ttl ttl\<rparr>) # store_Del k db"

definition store_gc :: "int \<Rightarrow> 'v memory_store \<Rightarrow> 'v memory_store" where
  "store_gc now db = filter (\<lambda>(k, e). \<not> ent_expAt e \<le> now) db"

definition store_inv :: "'v memory_store \<Rightarrow> bool" where
  "store_inv db \<longleftrightarrow> distinct (map fst db)"

section \<open>The contract of a store\<close>

text \<open>What a client relies on: an entry is readable until its time to live is over, an operation
  on one key does not touch another, and collecting is not observable.\<close>

locale ttl_store =
  fixes inv :: "'s \<Rightarrow> bool"
    and get :: "int \<Rightarrow> string \<Rightarrow> 's \<Rightarrow> 'v option"
    and put :: "int \<Rightarrow> string \<Rightarrow> 'v \<Rightarrow> int \<Rightarrow> 's \<Rightarrow> 's"
    and del :: "string \<Rightarrow> 's \<Rightarrow> 's"
    and gc :: "int \<Rightarrow> 's \<Rightarrow> 's"
    and life :: "int \<Rightarrow> int"
  assumes inv_set: "inv s \<Longrightarrow> inv (put t k v ttl s)"
    and inv_del: "inv s \<Longrightarrow> inv (del k s)"
    and inv_gc: "inv s \<Longrightarrow> inv (gc t s)"
    and get_set: "inv s \<Longrightarrow> get now k (put t k' v ttl s) =
        (if k = k' then (if now < t + life ttl then Some v else None) else get now k s)"
    and get_del: "inv s \<Longrightarrow> get now k (del k' s) = (if k = k' then None else get now k s)"
    and get_gc: "inv s \<Longrightarrow> t \<le> now \<Longrightarrow> get now k (gc t s) = get now k s"

datatype 'v store_op = OSet int string 'v int | ODel string | OGc int

fun gc_times :: "'v store_op list \<Rightarrow> int list" where
  "gc_times [] = []"
| "gc_times (OGc t # ops) = t # gc_times ops"
| "gc_times (OSet t k v ttl # ops) = gc_times ops"
| "gc_times (ODel k # ops) = gc_times ops"

text \<open>The specification: the last write to a key among the operations, latest first, decides.\<close>

fun last_write :: "(int \<Rightarrow> int) \<Rightarrow> int \<Rightarrow> string \<Rightarrow> 'v store_op list \<Rightarrow> 'v option" where
  "last_write life now k [] = None"
| "last_write life now k (OSet t k' v ttl # ops) =
     (if k = k' then (if now < t + life ttl then Some v else None) else last_write life now k ops)"
| "last_write life now k (ODel k' # ops) = (if k = k' then None else last_write life now k ops)"
| "last_write life now k (OGc t # ops) = last_write life now k ops"

context ttl_store
begin

fun apply_op :: "'v store_op \<Rightarrow> 's \<Rightarrow> 's" where
  "apply_op (OSet t k v ttl) s = put t k v ttl s"
| "apply_op (ODel k) s = del k s"
| "apply_op (OGc t) s = gc t s"

lemma inv_apply: "inv s \<Longrightarrow> inv (apply_op opn s)"
  by (cases opn) (simp_all add: inv_set inv_del inv_gc)

lemma inv_run: "inv s \<Longrightarrow> inv (foldr apply_op ops s)"
  by (induction ops) (simp_all add: inv_apply)

lemma refines_last_write:
  assumes "inv s" "\<And>k. get now k s = None" "\<forall>t \<in> set (gc_times ops). t \<le> now"
  shows "get now k (foldr apply_op ops s) = last_write life now k ops"
  using assms(3)
proof (induction ops rule: gc_times.induct)
  case 1
  then show ?case by (simp add: assms(2))
next
  case (2 t ops)
  then show ?case by (simp add: get_gc inv_run assms(1))
next
  case 3
  then show ?case by (simp add: get_set inv_run assms(1))
next
  case 4
  then show ?case by (simp add: get_del inv_run assms(1))
qed

end

section \<open>The memory store keeps it\<close>

lemma map_of_filter_key: "map_of (filter (\<lambda>(k', e). k' \<noteq> k) db) = (map_of db)(k := None)"
  by (induction db) auto

lemma map_of_filter_value:
  "distinct (map fst db) \<Longrightarrow>
     map_of (filter (\<lambda>(k, e). P e) db) k = (case map_of db k of Some e \<Rightarrow> if P e then Some e else None | None \<Rightarrow> None)"
  by (induction db) (auto split: option.splits simp: map_of_eq_None_iff dest: map_of_SomeD)

lemma distinct_filter_fst: "distinct (map fst db) \<Longrightarrow> distinct (map fst (filter P db))"
  by (induction db) auto

interpretation store: ttl_store store_inv store_Get store_Set store_Del store_gc clamp_ttl
proof (unfold_locales, goal_cases)
  case (1 s t k v ttl)
  then show ?case by (auto simp: store_inv_def store_Set_def store_Del_def distinct_filter_fst)
next
  case (2 s k)
  then show ?case by (simp add: store_inv_def store_Del_def distinct_filter_fst)
next
  case (3 s t)
  then show ?case by (simp add: store_inv_def store_gc_def distinct_filter_fst)
next
  case (4 s now k t k' v ttl)
  then show ?case by (auto simp: store_Get_def store_Set_def store_Del_def map_of_filter_key)
next
  case (5 s now k k')
  then show ?case by (auto simp: store_Get_def store_Del_def map_of_filter_key)
next
  case (6 s t now k)
  then show ?case
    by (auto simp: store_inv_def store_Get_def store_gc_def map_of_filter_value split: option.splits)
qed

lemmas store_get_set = store.get_set
lemmas store_inv_ops = store.inv_set store.inv_del store.inv_gc

text \<open>
  Property C24: whatever operations were done on a new store, in any order and with collections in
  between, reading a key gives the value of the last write to it, if that was not a deletion and
  its time to live (cut to the range from zero to one day) is not over; the clock at the reading
  is not behind the ticks of the collector.
\<close>

theorem store_last_write:
  assumes "\<forall>t \<in> set (gc_times ops). t \<le> now"
  shows "store_Get now k (foldr store.apply_op ops NewStore) = last_write clamp_ttl now k ops"
  by (rule store.refines_last_write) (use assms in \<open>simp_all add: store_inv_def NewStore_def store_Get_def\<close>)

lemma store_last_write_witness:
  "store_Get 100 ''k'' (foldr store.apply_op [OGc 99, OSet 50 ''k'' (7 :: nat) 60, ODel ''k'', OSet 1 ''j'' 8 5] NewStore) = Some 7"
  using store_last_write[of "[OGc 99, OSet 50 ''k'' (7 :: nat) 60, ODel ''k'', OSet 1 ''j'' 8 5]" 100 "''k''"]
  by (simp add: clamp_ttl_def maxExpiresIn_def)

lemma prefix_values:
  assumes "store_inv db"
  shows "v \<in> set (store_GetAllWithPrefix now prefix db) \<longleftrightarrow> (\<exists>k. has_prefix k prefix \<and> store_Get now k db = Some v)"
proof
  assume "v \<in> set (store_GetAllWithPrefix now prefix db)"
  then obtain k e where "(k, e) \<in> set db" "\<not> ent_expAt e \<le> now" "has_prefix k prefix" "v = ent_value e"
    by (auto simp: store_GetAllWithPrefix_def)
  with assms show "\<exists>k. has_prefix k prefix \<and> store_Get now k db = Some v"
    by (intro exI[of _ k]) (simp add: store_Get_def store_inv_def map_of_is_SomeI)
next
  assume "\<exists>k. has_prefix k prefix \<and> store_Get now k db = Some v"
  then obtain k e where "has_prefix k prefix" "(k, e) \<in> set db" "\<not> ent_expAt e \<le> now" "v = ent_value e"
    by (auto simp: store_Get_def dest: map_of_SomeD split: option.splits if_splits)
  then show "v \<in> set (store_GetAllWithPrefix now prefix db)"
    by (force simp: store_GetAllWithPrefix_def)
qed

end
