(* ===== verification/Jwt.thy ===== *)
theory Jwt
  imports AccessControl Cache
begin

text \<open>
  JSON web tokens as an access control: the algorithms (\<open>accesscontrol/jwt/algorithm.go\<close>), the source
  of a token (\<open>accesscontrol/token_source.go\<close>), and validation, claims and permissions
  (\<open>accesscontrol/jwt.go\<close>).

  The library that parses and verifies a token is an argument \<open>parse\<close>: given the configuration of a
  parser and the function that provides the key, it returns the claims of the token or an error.
  The parser object kept in the memory store is the configuration it was made from. Evaluating an
  expression and reading a PEM key are arguments too.
\<close>

section \<open>Algorithms\<close>

datatype algorithm =
    AlgorithmUnknown | AlgorithmRSA256 | AlgorithmRSA384 | AlgorithmRSA512
  | AlgorithmHMAC256 | AlgorithmHMAC384 | AlgorithmHMAC512
  | AlgorithmECDSA256 | AlgorithmECDSA384 | AlgorithmECDSA512

definition RSAAlgorithms :: "algorithm list" where
  "RSAAlgorithms = [AlgorithmRSA256, AlgorithmRSA384, AlgorithmRSA512]"

definition ECDSAlgorithms :: "algorithm list" where
  "ECDSAlgorithms = [AlgorithmECDSA256, AlgorithmECDSA384, AlgorithmECDSA512]"

definition NewAlgorithm :: "string \<Rightarrow> algorithm" where
  "NewAlgorithm a =
     (if a = ''RS256'' then AlgorithmRSA256 else if a = ''RS384'' then AlgorithmRSA384
      else if a = ''RS512'' then AlgorithmRSA512 else if a = ''HS256'' then AlgorithmHMAC256
      else if a = ''HS384'' then AlgorithmHMAC384 else if a = ''HS512'' then AlgorithmHMAC512
      else if a = ''ES256'' then AlgorithmECDSA256 else if a = ''ES384'' then AlgorithmECDSA384
      else if a = ''ES512'' then AlgorithmECDSA512 else AlgorithmUnknown)"

definition IsHMAC :: "algorithm \<Rightarrow> bool" where
  "IsHMAC a \<longleftrightarrow> a = AlgorithmHMAC256 \<or> a = AlgorithmHMAC384 \<or> a = AlgorithmHMAC512"

fun algorithm_String :: "algorithm \<Rightarrow> string" where
  "algorithm_String AlgorithmRSA256 = ''RS256''"
| "algorithm_String AlgorithmRSA384 = ''RS384''"
| "algorithm_String AlgorithmRSA512 = ''RS512''"
| "algorithm_String AlgorithmHMAC256 = ''HS256''"
| "algorithm_String AlgorithmHMAC384 = ''HS384''"
| "algorithm_String AlgorithmHMAC512 = ''HS512''"
| "algorithm_String AlgorithmECDSA256 = ''ES256''"
| "algorithm_String AlgorithmECDSA384 = ''ES384''"
| "algorithm_String AlgorithmECDSA512 = ''ES512''"
| "algorithm_String AlgorithmUnknown = ''Unknown''"

section \<open>The source of a token\<close>

datatype token_source_type = BearerType | CookieType | HeaderType | ValueType

type_synonym expression = "ac_request \<Rightarrow> go_error + cty"

record token_source =
  ts_expr :: "expression option"
  ts_name :: string
  ts_type :: token_source_type

text \<open>\<open>NewTokenSource\<close>. The value is given with its result outside of a request. Each attribute sets
  a bit of its own, and more than one bit is an error.\<close>

definition NewTokenSource ::
    "bool \<Rightarrow> string \<Rightarrow> string \<Rightarrow> (cty \<times> expression) option \<Rightarrow> string + token_source" where
  "NewTokenSource bearer cookie hdr val =
     (let c = trim_space cookie;
          h = trim_space hdr;
          has_value = (case val of None \<Rightarrow> False | Some (v, e) \<Rightarrow> \<not> is_null v);
          bits = filter id [bearer, c \<noteq> [], h \<noteq> [], has_value];
          t = (if has_value then ValueType else if h \<noteq> [] then HeaderType else if c \<noteq> [] then CookieType else BearerType)
      in if 1 < length bits
         then Inl ''only one of bearer, cookie, header or token_value attributes is allowed''
         else Inr \<lparr>ts_expr = (if t = ValueType then map_option snd val else None),
                   ts_name = (if t = CookieType then c else if t = HeaderType then h else []),
                   ts_type = t\<rparr>)"

definition getBearer :: "string \<Rightarrow> string + string" where
  "getBearer authorization =
     (if has_prefix (to_lower authorization) ''bearer ''
      then Inr (trim (\<lambda>c. c = CHR '' '') (drop 7 authorization))
      else Inl ''bearer with token required in authorization header'')"

definition getBearerAuth :: "header \<Rightarrow> string + string" where
  "getBearerAuth h =
     (let authorization = h_get h ''Authorization'' in
      if authorization = [] then Inl ''missing authorization header'' else getBearer authorization)"

definition TokenValue :: "(rat \<Rightarrow> string) \<Rightarrow> token_source \<Rightarrow> ac_request \<Rightarrow> go_error + string" where
  "TokenValue btext s req =
     (let plain = map_sum PlainError id;
          v = (case ts_type s of
                 BearerType \<Rightarrow> plain (getBearerAuth (req_header req))
               | CookieType \<Rightarrow> Inr (case req_cookie (req_header req) (ts_name s) of Some v \<Rightarrow> v | None \<Rightarrow> [])
               | HeaderType \<Rightarrow>
                   if to_lower (ts_name s) = ''authorization'' then plain (getBearerAuth (req_header req))
                   else Inr (h_get (req_header req) (ts_name s))
               | ValueType \<Rightarrow>
                   (case ts_expr s of None \<Rightarrow> Inr [] | Some e \<Rightarrow> map_sum id (ValueToString btext) (e req)))
      in case v of
           Inl e \<Rightarrow> Inl e
         | Inr t \<Rightarrow> if t = [] then Inl (PlainError ''token required'') else Inr t)"

section \<open>The access control\<close>

type_synonym claims = "(string \<times> goval) list"

record parser_config =
  pc_algorithms :: "string list"
  pc_audience :: string
  pc_issuer :: string

text \<open>\<open>key\<close>: the verb \<open>%s\<close> prints a slice of strings in brackets, separated by blanks.\<close>

definition parser_key :: "parser_config \<Rightarrow> string" where
  "parser_key p = ''pc:['' @ join_with '' '' (pc_algorithms p) @ '']:'' @ pc_audience p @ '':'' @ pc_issuer p"

datatype jwt_error = TokenExpired go_error | TokenInvalidClaims go_error | TokenOther go_error

record ('tok, 'k) jwt =
  j_algos :: "string list"
  j_claims :: "expression option"
  j_claimsRequired :: "string list"
  j_disablePrivateCaching :: bool
  j_source :: token_source
  j_hmacSecret :: "'k option"
  j_name :: string
  j_pubKey :: "'k option"
  j_rolesClaim :: string
  j_rolesMap :: "(string \<times> string list) list option"
  j_permissionsClaim :: string
  j_permissionsMap :: "(string \<times> string list) list option"
  j_jwks :: "('tok \<Rightarrow> go_error + 'k) option"

record jwt_conf =
  jc_Bearer :: bool
  jc_Cookie :: string
  jc_Header :: string
  jc_TokenValue :: "(cty \<times> expression) option"
  jc_Claims :: "expression option"
  jc_ClaimsRequired :: "string list"
  jc_DisablePrivateCaching :: bool
  jc_Name :: string
  jc_RolesClaim :: string
  jc_RolesMap :: "(string \<times> string list) list option"
  jc_PermissionsClaim :: string
  jc_PermissionsMap :: "(string \<times> string list) list option"
  jc_SignatureAlgorithm :: string

definition newJWT :: "jwt_conf \<Rightarrow> string + ('tok, 'k) jwt" where
  "newJWT c =
     (case NewTokenSource (jc_Bearer c) (jc_Cookie c) (jc_Header c) (jc_TokenValue c) of
        Inl e \<Rightarrow> Inl e
      | Inr source \<Rightarrow>
          if jc_RolesClaim c \<noteq> [] \<and> jc_RolesMap c = None then Inl ''missing roles_map''
          else Inr \<lparr>j_algos = [], j_claims = jc_Claims c, j_claimsRequired = jc_ClaimsRequired c,
                    j_disablePrivateCaching = jc_DisablePrivateCaching c, j_source = source,
                    j_hmacSecret = None, j_name = jc_Name c, j_pubKey = None,
                    j_rolesClaim = jc_RolesClaim c, j_rolesMap = jc_RolesMap c,
                    j_permissionsClaim = jc_PermissionsClaim c, j_permissionsMap = jc_PermissionsMap c,
                    j_jwks = None\<rparr>)"

text \<open>\<open>NewJWT\<close>: the secret is the key itself, a public key is read by \<open>pem\<close>.\<close>

definition NewJWT :: "(string \<Rightarrow> string + 'k) \<Rightarrow> (string \<Rightarrow> 'k) \<Rightarrow> jwt_conf \<Rightarrow> string \<Rightarrow> string + ('tok, 'k) jwt" where
  "NewJWT pem secret c key =
     (case newJWT c of
        Inl e \<Rightarrow> Inl e
      | Inr j \<Rightarrow>
         (let a = NewAlgorithm (jc_SignatureAlgorithm c);
              j1 = j\<lparr>j_algos := [jc_SignatureAlgorithm c]\<rparr> in
          if a = AlgorithmUnknown
          then Inl (''algorithm '' @ CHR 0x22 # jc_SignatureAlgorithm c @ CHR 0x22 # '' is not supported'')
          else if IsHMAC a then Inr (j1\<lparr>j_hmacSecret := Some (secret key)\<rparr>)
          else (case pem key of Inl e \<Rightarrow> Inl e | Inr k \<Rightarrow> Inr (j1\<lparr>j_pubKey := Some k\<rparr>))))"

definition NewJWTFromJWKS :: "jwt_conf \<Rightarrow> ('tok \<Rightarrow> go_error + 'k) option \<Rightarrow> string + ('tok, 'k) jwt" where
  "NewJWTFromJWKS c jwks =
     (case jwks of
        None \<Rightarrow> Inl ''invalid JWKS''
      | Some ks \<Rightarrow>
         (case newJWT c of
            Inl e \<Rightarrow> Inl e
          | Inr j \<Rightarrow> Inr (j\<lparr>j_algos := map algorithm_String (RSAAlgorithms @ ECDSAlgorithms), j_jwks := Some ks\<rparr>)))"

definition getParser :: "int \<Rightarrow> parser_config \<Rightarrow> parser_config memory_store \<Rightarrow> parser_config \<times> parser_config memory_store" where
  "getParser now p store =
     (case store_Get now (parser_key p) store of
        Some q \<Rightarrow> (q, store)
      | None \<Rightarrow> (p, store_Set now (parser_key p) p 3600 store))"

definition getValidationKey :: "('tok, 'k) jwt \<Rightarrow> 'tok \<Rightarrow> go_error + 'k" where
  "getValidationKey j token =
     (case j_jwks j of
        Some ks \<Rightarrow> ks token
      | None \<Rightarrow>
         (case j_pubKey j of
            Some k \<Rightarrow> Inr k
          | None \<Rightarrow>
             (case j_hmacSecret j of
                Some k \<Rightarrow> Inr k
              | None \<Rightarrow> Inl (err_Message ''algorithm is not supported'' E_Configuration))))"

section \<open>Claims\<close>

definition is_string :: "goval \<Rightarrow> bool" where
  "is_string v = (case v of GString s \<Rightarrow> True | _ \<Rightarrow> False)"

text \<open>\<open>getConfiguredClaims\<close>; the outer option is the panic of \<open>ValueToMap\<close>.\<close>

definition getConfiguredClaims ::
    "(rat \<Rightarrow> rat) \<Rightarrow> ('tok, 'k) jwt \<Rightarrow> ac_request \<Rightarrow> (go_error + claims) option" where
  "getConfiguredClaims f64 j req =
     (case j_claims j of
        None \<Rightarrow> Some (Inr [])
      | Some e \<Rightarrow>
         (case e req of
            Inl err \<Rightarrow> Some (Inl err)
          | Inr v \<Rightarrow>
              if is_null v then Some (Inr [])
              else (case ValueToMap f64 v of
                 None \<Rightarrow> None
               | Some cs \<Rightarrow>
                   if (case map_of cs ''iss'' of Some i \<Rightarrow> \<not> is_string i | None \<Rightarrow> False)
                   then Some (Inl (err_Message ''invalid value type, string expected (claims / iss)'' E_Configuration))
                   else if (case map_of cs ''aud'' of Some a \<Rightarrow> \<not> is_string a | None \<Rightarrow> False)
                   then Some (Inl (err_Message ''invalid value type, string expected (claims / aud)'' E_Configuration))
                   else Some (Inr cs))))"

text \<open>\<open>cmp.Diff\<close> finds no difference: the same dynamic type and value; maps as sets of entries, and
  a nil slice is not an empty one.\<close>

fun same_value :: "goval \<Rightarrow> goval \<Rightarrow> bool" where
  "same_value (GList a) (GList b) \<longleftrightarrow> list_all2 same_value a b"
| "same_value (GMap (Some a)) (GMap (Some b)) \<longleftrightarrow>
     length a = length b \<and>
     list_all (\<lambda>(k, v). list_ex (\<lambda>(k', w). k' = k \<and> same_value v w) b) a"
| "same_value v w \<longleftrightarrow> v = w"

text \<open>\<open>validateClaims\<close>: the text of the error, without the rendering of the two values.\<close>

definition validateClaims :: "('tok, 'k) jwt \<Rightarrow> claims \<Rightarrow> claims \<Rightarrow> string option" where
  "validateClaims j tokenClaims expected =
     (case find (\<lambda>k. map_of tokenClaims k = None) (j_claimsRequired j) of
        Some k \<Rightarrow> Some (''required claim is missing: '' @ k)
      | None \<Rightarrow>
         (case find (\<lambda>(k, v). (case map_of tokenClaims k of
                        None \<Rightarrow> True
                      | Some w \<Rightarrow> k \<noteq> ''iss'' \<and> k \<noteq> ''aud'' \<and> \<not> same_value v w)) expected of
            None \<Rightarrow> None
          | Some (k, v) \<Rightarrow>
              Some (if map_of tokenClaims k = None then ''required claim is missing: '' @ k
                    else ''unexpected value for claim '' @ k)))"

section \<open>Permissions\<close>

definition addPermission :: "string list \<Rightarrow> string \<Rightarrow> string list \<times> bool" where
  "addPermission permissions permission0 =
     (let permission = trim_space permission0 in
      if permission = [] \<or> permission \<in> set permissions then (permissions, False)
      else (permissions @ [permission], True))"

definition add_all :: "string list \<Rightarrow> string list \<Rightarrow> string list" where
  "add_all ps permissions = fold (\<lambda>p acc. fst (addPermission acc p)) ps permissions"

definition string_values :: "goval list \<Rightarrow> string list option" where
  "string_values l = those (map (\<lambda>v. case v of GString s \<Rightarrow> Some s | _ \<Rightarrow> None) l)"

text \<open>The values of a claim: a list of strings or a string of values separated by blanks; any other
  value is ignored with a warning.\<close>

definition addPermissionsFromPermissionsClaim :: "('tok, 'k) jwt \<Rightarrow> claims \<Rightarrow> string list \<Rightarrow> string list" where
  "addPermissionsFromPermissionsClaim j tokenClaims permissions =
     (if j_permissionsClaim j = [] then permissions
      else (case map_of tokenClaims (j_permissionsClaim j) of
         None \<Rightarrow> permissions
       | Some v \<Rightarrow>
          (case v of
             GList l \<Rightarrow> (case string_values l of None \<Rightarrow> permissions | Some vals \<Rightarrow> add_all vals permissions)
           | GNilList \<Rightarrow> permissions
           | GString s \<Rightarrow> add_all (split_on CHR '' '' s) permissions
           | _ \<Rightarrow> permissions)))"

definition getRoleValues :: "goval \<Rightarrow> string list" where
  "getRoleValues v =
     (case v of
        GList l \<Rightarrow> (case string_values l of None \<Rightarrow> [] | Some vals \<Rightarrow> vals)
      | GString s \<Rightarrow> split_on CHR '' '' s
      | _ \<Rightarrow> [])"

definition role_permissions :: "(string \<times> string list) list \<Rightarrow> string \<Rightarrow> string list" where
  "role_permissions rm r = (case map_of rm r of None \<Rightarrow> [] | Some ps \<Rightarrow> ps)"

definition addPermissionsFromRoles :: "('tok, 'k) jwt \<Rightarrow> claims \<Rightarrow> string list \<Rightarrow> string list" where
  "addPermissionsFromRoles j tokenClaims permissions =
     (if j_rolesClaim j = [] then permissions
      else (case j_rolesMap j of
         None \<Rightarrow> permissions
       | Some rm \<Rightarrow>
          (case map_of tokenClaims (j_rolesClaim j) of
             None \<Rightarrow> permissions
           | Some v \<Rightarrow>
               add_all (role_permissions rm ''*'')
                 (fold (\<lambda>r. add_all (role_permissions rm r)) (getRoleValues v) permissions))))"

text \<open>One value of the source: the mapped values that were added, as they stand in the map.\<close>

fun add_mapped :: "string list \<Rightarrow> string list \<Rightarrow> string list \<times> string list" where
  "add_mapped [] target = (target, [])"
| "add_mapped (mv # mvs) target =
     (case addPermission target mv of
        (target', added) \<Rightarrow>
          (case add_mapped mvs target' of (t, l) \<Rightarrow> (t, if added then mv # l else l)))"

lemma addPermission_set:
  "set (fst (addPermission ps p)) = set ps \<union> (if trim_space p = [] then {} else {trim_space p})"
  by (auto simp: addPermission_def Let_def)

lemma addPermission_added: "snd (addPermission ps p) \<longleftrightarrow> trim_space p \<noteq> [] \<and> trim_space p \<notin> set ps"
  by (auto simp: addPermission_def Let_def)

lemma add_mapped_set:
  "set (fst (add_mapped mvs t)) = set t \<union> (trim_space ` set mvs - {[]})"
  by (induction mvs arbitrary: t) (auto simp: case_prod_beta addPermission_set)

lemma add_mapped_new:
  "trim_space ` set (snd (add_mapped mvs t)) = set (fst (add_mapped mvs t)) - set t \<and>
   set (snd (add_mapped mvs t)) \<subseteq> set mvs"
  by (induction mvs arbitrary: t)
     (auto simp: case_prod_beta addPermission_set addPermission_added add_mapped_set)

definition mapped_values :: "(string \<times> string list) list \<Rightarrow> string set" where
  "mapped_values pm = trim_space ` (\<Union>(k, mvs) \<in> set pm. set mvs)"

lemma finite_mapped_values [simp]: "finite (mapped_values pm)"
  by (auto simp: mapped_values_def)

text \<open>\<open>addMappedPermissions\<close> with a map: the values of the source one after the other, each followed by
  a recursive call for the mapped values that were new.\<close>

function addMapped :: "(string \<times> string list) list \<Rightarrow> string list \<Rightarrow> string list \<Rightarrow> string list" where
  "addMapped pm [] target = target"
| "addMapped pm (val # source) target =
     (case map_of pm val of
        None \<Rightarrow> addMapped pm source target
      | Some mvs \<Rightarrow>
          addMapped pm source (addMapped pm (snd (add_mapped mvs target)) (fst (add_mapped mvs target))))"
  by pat_completeness auto

lemma addMapped_extends: "addMapped_dom (pm, s, t) \<Longrightarrow> set t \<subseteq> set (addMapped pm s t)"
proof (induction rule: addMapped.pinduct)
  case (2 pm val source target)
  show ?case
  proof (cases "map_of pm val")
    case None
    with 2 show ?thesis by (simp add: addMapped.psimps)
  next
    case (Some mvs)
    have "set target \<subseteq> set (fst (add_mapped mvs target))" by (simp add: add_mapped_set)
    with "2.IH"(2)[OF Some] "2.IH"(3)[OF Some] show ?thesis using 2(1) Some
      by (simp add: addMapped.psimps)
  qed
qed (simp add: addMapped.psimps)

lemma missing_less:
  assumes "map_of pm val = Some mvs" "snd (add_mapped mvs t) \<noteq> []"
  shows "card (mapped_values pm - set (fst (add_mapped mvs t))) < card (mapped_values pm - set t)"
proof (rule psubset_card_mono)
  obtain x where "x \<in> set (snd (add_mapped mvs t))" using assms(2) by (meson hd_in_set)
  then have "trim_space x \<in> set (fst (add_mapped mvs t)) - set t" "x \<in> set mvs"
    using add_mapped_new[of mvs t] by blast+
  moreover have "trim_space x \<in> mapped_values pm"
    using assms(1) \<open>x \<in> set mvs\<close> map_of_SomeD[of pm val mvs] by (force simp: mapped_values_def)
  ultimately show "mapped_values pm - set (fst (add_mapped mvs t)) \<subset> mapped_values pm - set t"
    by (auto simp: add_mapped_set)
qed simp

lemma missing_le: "set t \<subseteq> set t' \<Longrightarrow> card (mapped_values pm - set t') \<le> card (mapped_values pm - set t)"
  by (rule card_mono) auto

termination addMapped
proof (relation "measures [\<lambda>(pm, s, t). card (mapped_values pm - set t), \<lambda>(pm, s, t). length s]", goal_cases)
  case (3 pm val source target mvs)
  show ?case
  proof (cases "snd (add_mapped mvs target) = []")
    case True
    then have "set (fst (add_mapped mvs target)) = set target"
      using add_mapped_new[of mvs target] add_mapped_set[of mvs target] by auto
    with True show ?thesis by simp
  next
    case False
    with missing_less[OF 3] show ?thesis by simp
  qed
next
  case (4 pm val source target mvs)
  have "set target \<subseteq> set (fst (add_mapped mvs target))" by (simp add: add_mapped_set)
  also have "\<dots> \<subseteq> set (addMapped pm (snd (add_mapped mvs target)) (fst (add_mapped mvs target)))"
    by (rule addMapped_extends) (rule 4)
  finally have "card (mapped_values pm - set (addMapped pm (snd (add_mapped mvs target)) (fst (add_mapped mvs target))))
      \<le> card (mapped_values pm - set target)" by (rule missing_le)
  then show ?case by (simp add: le_imp_less_or_eq)
qed simp_all

lemma addMapped_grows: "set t \<subseteq> set (addMapped pm s t)"
  by (induction pm s t rule: addMapped.induct) (force simp: add_mapped_set split: option.splits)+

definition addMappedPermissions :: "('tok, 'k) jwt \<Rightarrow> string list \<Rightarrow> string list \<Rightarrow> string list" where
  "addMappedPermissions j source target =
     (case j_permissionsMap j of None \<Rightarrow> target | Some pm \<Rightarrow> addMapped pm source target)"

definition getGrantedPermissions :: "('tok, 'k) jwt \<Rightarrow> claims \<Rightarrow> string list" where
  "getGrantedPermissions j tokenClaims =
     (let ps = addPermissionsFromRoles j tokenClaims (addPermissionsFromPermissionsClaim j tokenClaims [])
      in addMappedPermissions j ps ps)"

text \<open>Closure under the map of permissions, for maps with trimmed values.\<close>

definition maps_to :: "(string \<times> string list) list \<Rightarrow> (string \<times> string) set" where
  "maps_to pm = {(p, q). \<exists>mvs. map_of pm p = Some mvs \<and> q \<in> set mvs}"

definition trimmed_map :: "(string \<times> string list) list \<Rightarrow> bool" where
  "trimmed_map pm \<longleftrightarrow> list_all (\<lambda>(k, mvs). list_all (\<lambda>q. trim_space q = q \<and> q \<noteq> []) mvs) pm"

lemma trimmed_mapD:
  "trimmed_map pm \<Longrightarrow> map_of pm k = Some mvs \<Longrightarrow> q \<in> set mvs \<Longrightarrow> trim_space q = q \<and> q \<noteq> []"
  by (fastforce simp: trimmed_map_def list_all_iff dest: map_of_SomeD)

lemma add_mapped_trimmed:
  assumes "\<forall>q \<in> set mvs. trim_space q = q \<and> q \<noteq> []"
  shows "set (fst (add_mapped mvs t)) = set t \<union> set mvs" "set (snd (add_mapped mvs t)) = set mvs - set t"
proof -
  have id: "trim_space ` S = S" if "S \<subseteq> set mvs" for S using assms that by force
  show 1: "set (fst (add_mapped mvs t)) = set t \<union> set mvs"
    using assms id[of "set mvs"] by (auto simp: add_mapped_set)
  show "set (snd (add_mapped mvs t)) = set mvs - set t"
    using add_mapped_new[of mvs t] id[of "set (snd (add_mapped mvs t))"] 1 by auto
qed

lemma addMapped_sound:
  "trimmed_map pm \<Longrightarrow> set (addMapped pm s t) \<subseteq> set t \<union> (maps_to pm)\<^sup>+ `` set s"
proof (induction pm s t rule: addMapped.induct)
  case (2 pm val source target)
  show ?case
  proof (cases "map_of pm val")
    case None
    with 2 show ?thesis by auto
  next
    case (Some mvs)
    have mvs: "\<forall>q \<in> set mvs. trim_space q = q \<and> q \<noteq> []"
      using trimmed_mapD[OF "2.prems" Some] by blast
    have val: "(val, q) \<in> maps_to pm" if "q \<in> set mvs" for q
      using Some that by (auto simp: maps_to_def)
    define X where "X = addMapped pm (snd (add_mapped mvs target)) (fst (add_mapped mvs target))"
    define A where "A = (maps_to pm)\<^sup>+ `` set source"
    define B where "B = (maps_to pm)\<^sup>+ `` {val}"
    define C where "C = (maps_to pm)\<^sup>+ `` set (snd (add_mapped mvs target))"
    have X: "set X \<subseteq> set target \<union> set mvs \<union> C"
      using "2.IH"(2)[OF Some "2.prems"] unfolding add_mapped_trimmed(1)[OF mvs] X_def[symmetric] C_def .
    have T: "set (addMapped pm source X) \<subseteq> set X \<union> A"
      using "2.IH"(3)[OF Some "2.prems"] unfolding X_def[symmetric] A_def .
    have "set mvs \<subseteq> B" using val by (auto simp: B_def)
    moreover have "C \<subseteq> B"
      using val unfolding B_def C_def add_mapped_trimmed(2)[OF mvs] by (auto intro: trancl_into_trancl2)
    moreover have "(maps_to pm)\<^sup>+ `` set (val # source) = B \<union> A" by (auto simp: A_def B_def)
    moreover have "addMapped pm (val # source) target = addMapped pm source X" using Some by (simp add: X_def)
    ultimately show ?thesis using X T by (simp only:) blast
  qed
qed simp

lemma addMapped_complete:
  "trimmed_map pm \<Longrightarrow> maps_to pm `` (set s \<union> (set (addMapped pm s t) - set t)) \<subseteq> set (addMapped pm s t)"
proof (induction pm s t rule: addMapped.induct)
  case (2 pm val source target)
  show ?case
  proof (cases "map_of pm val")
    case None
    then have "maps_to pm `` {val} = {}" by (auto simp: maps_to_def)
    with None 2 show ?thesis by auto
  next
    case (Some mvs)
    have mvs: "\<forall>q \<in> set mvs. trim_space q = q \<and> q \<noteq> []"
      using trimmed_mapD[OF "2.prems" Some] by blast
    have val: "maps_to pm `` {val} = set mvs" using Some by (auto simp: maps_to_def)
    define X where "X = addMapped pm (snd (add_mapped mvs target)) (fst (add_mapped mvs target))"
    have X: "maps_to pm `` ((set mvs - set target) \<union> (set X - (set target \<union> set mvs))) \<subseteq> set X"
      using "2.IH"(2)[OF Some "2.prems"] unfolding add_mapped_trimmed[OF mvs] X_def .
    define T where "T = addMapped pm source X"
    have T: "maps_to pm `` (set source \<union> (set T - set X)) \<subseteq> set T"
      using "2.IH"(3)[OF Some "2.prems"] unfolding X_def[symmetric] T_def .
    have grows: "set target \<union> set mvs \<subseteq> set X" "set X \<subseteq> set T"
      using addMapped_grows[of "fst (add_mapped mvs target)" pm "snd (add_mapped mvs target)"] addMapped_grows[of X pm source]
      unfolding add_mapped_trimmed[OF mvs] X_def[symmetric] T_def[symmetric] by auto
    have "addMapped pm (val # source) target = T" using Some by (simp add: X_def T_def)
    moreover have "maps_to pm `` (set (val # source) \<union> (set T - set target)) \<subseteq> set T"
    proof -
      have "set T - set target \<subseteq> (set T - set X) \<union> ((set mvs - set target) \<union> (set X - (set target \<union> set mvs)))"
        by auto
      then have "maps_to pm `` (set T - set target) \<subseteq> set T" using X T grows by blast
      moreover have "maps_to pm `` set (val # source) \<subseteq> set T" using val T grows by auto
      ultimately show ?thesis unfolding Image_Un by (rule Un_least[rotated])
    qed
    ultimately show ?thesis by simp
  qed
qed simp

lemma addMapped_closure:
  assumes "trimmed_map pm"
  shows "set (addMapped pm s s) = (maps_to pm)\<^sup>* `` set s"
proof
  show "set (addMapped pm s s) \<subseteq> (maps_to pm)\<^sup>* `` set s"
    using addMapped_sound[OF assms, of s s] by (auto simp: Image_iff rtrancl_eq_or_trancl) blast
  have "maps_to pm `` set (addMapped pm s s) \<subseteq> set (addMapped pm s s)"
    using addMapped_complete[OF assms, of s s] addMapped_grows[of s pm s] by blast
  then have "(maps_to pm)\<^sup>* `` set (addMapped pm s s) = set (addMapped pm s s)"
    by (rule Image_closed_trancl)
  then show "(maps_to pm)\<^sup>* `` set s \<subseteq> set (addMapped pm s s)"
    using addMapped_grows[of s pm s] by blast
qed

text \<open>Whatever the map is, what is added can be reached along it.\<close>

lemma add_mapped_image: "trim_space ` set (snd (add_mapped mvs t)) \<subseteq> trim_space ` set mvs"
  using add_mapped_new[of mvs t] by blast

lemma addMapped_reached:
  "set (addMapped pm s t) \<subseteq> set t \<union> trim_space ` ((maps_to pm)\<^sup>+ `` set s)"
proof (induction pm s t rule: addMapped.induct)
  case (2 pm val source target)
  show ?case
  proof (cases "map_of pm val")
    case None
    with 2(1) show ?thesis by (auto simp: Image_def)
  next
    case (Some mvs)
    let ?M = "maps_to pm" and ?new = "snd (add_mapped mvs target)"
    have step: "(val, q) \<in> ?M" if "q \<in> set mvs" for q using Some that by (auto simp: maps_to_def)
    have new: "set ?new \<subseteq> set mvs" using add_mapped_new by blast
    have "?M\<^sup>+ `` set ?new \<subseteq> ?M\<^sup>+ `` {val}"
      using new step by (blast intro: trancl_into_trancl2)
    then have "trim_space ` (?M\<^sup>+ `` set ?new) \<subseteq> trim_space ` (?M\<^sup>+ `` {val})" by (rule image_mono)
    moreover have "trim_space ` set mvs \<subseteq> trim_space ` (?M\<^sup>+ `` {val})" using step by blast
    moreover have "set (fst (add_mapped mvs target)) \<subseteq> set target \<union> trim_space ` set mvs"
      unfolding add_mapped_set by (rule Un_mono) (rule subset_refl, rule Diff_subset)
    ultimately have first: "set (addMapped pm ?new (fst (add_mapped mvs target))) \<subseteq> set target \<union> trim_space ` (?M\<^sup>+ `` {val})"
      using 2(2)[OF Some] by (meson Un_least le_supI1 le_supI2 order_refl order_trans)
    have "?M\<^sup>+ `` set (val # source) = ?M\<^sup>+ `` {val} \<union> ?M\<^sup>+ `` set source" by (auto simp: Image_def)
    with first 2(3)[OF Some] Some show ?thesis by (auto simp: image_Un)
  qed
qed simp

text \<open>
  Property C5: computing the granted permissions ends for every map of permissions, cyclic or not. Each of them is
  one of the permissions claim or of the roles, or is reached from one of these along the map, without the space around it; and
  if the values in the map have no space around them, everything that is reached is granted.
\<close>

theorem granted_permissions_closure:
  assumes "j_permissionsMap j = Some pm"
  shows "(let own = set (addPermissionsFromRoles j tokenClaims (addPermissionsFromPermissionsClaim j tokenClaims []));
              granted = set (getGrantedPermissions j tokenClaims)
          in own \<subseteq> granted \<and> granted \<subseteq> own \<union> trim_space ` ((maps_to pm)\<^sup>+ `` own) \<and>
             (trimmed_map pm \<longrightarrow> granted = (maps_to pm)\<^sup>* `` own))"
  using assms addMapped_reached addMapped_grows
  by (simp add: getGrantedPermissions_def Let_def addMappedPermissions_def addMapped_closure)

text \<open>A value with space around it is granted, but the permissions that it stands for are not looked up.\<close>

theorem untrimmed_value_not_followed:
  "addMapped [(''a'', ['' b'']), (''b'', [''c''])] [''a''] [''a''] = [''a'', ''b'']"
  by code_simp

definition example_jwt :: "(unit, nat) jwt" where
  "example_jwt = \<lparr>j_algos = [''HS256''], j_claims = None, j_claimsRequired = [''sub''], j_disablePrivateCaching = False,
     j_source = \<lparr>ts_expr = None, ts_name = [], ts_type = BearerType\<rparr>, j_hmacSecret = Some 1, j_name = ''jwt'',
     j_pubKey = None, j_rolesClaim = ''role'', j_rolesMap = Some [(''admin'', [''a'']), (''*'', [''z''])],
     j_permissionsClaim = ''scope'', j_permissionsMap = Some [(''a'', [''b'', ''c'']), (''b'', [''a'', ''d''])], j_jwks = None\<rparr>"

lemma granted_permissions_closure_witness:
  "(maps_to [(''a'', [''b'', ''c'']), (''b'', [''a'', ''d''])])\<^sup>* `` {''x'', ''y'', ''a'', ''z''} =
     {''x'', ''y'', ''a'', ''z'', ''b'', ''c'', ''d''}"
proof -
  let ?cs = "[(''scope'', GString ''x y''), (''role'', GString ''admin'')]"
  have 1: "j_permissionsMap example_jwt = Some [(''a'', [''b'', ''c'']), (''b'', [''a'', ''d''])]"
    by (simp add: example_jwt_def)
  have 2: "trimmed_map [(''a'', [''b'', ''c'']), (''b'', [''a'', ''d''])]" by code_simp
  have 3: "addPermissionsFromRoles example_jwt ?cs (addPermissionsFromPermissionsClaim example_jwt ?cs []) = [''x'', ''y'', ''a'', ''z'']"
    by code_simp
  have 4: "getGrantedPermissions example_jwt ?cs = [''x'', ''y'', ''a'', ''z'', ''b'', ''c'', ''d'']" by code_simp
  show ?thesis using granted_permissions_closure[OF 1, of ?cs] 2 unfolding 3 4 Let_def by (simp only: list.set)
qed

section \<open>Validation\<close>

definition string_claim :: "claims \<Rightarrow> string \<Rightarrow> string" where
  "string_claim cs k = (case map_of cs k of Some (GString s) \<Rightarrow> s | _ \<Rightarrow> [])"

text \<open>\<open>Validate\<close> reads the token, the configured claims, takes a parser from the store, and publishes
  the claims and the permissions. The result has the store; the outer option is a panic.\<close>

definition jwt_Validate ::
    "(rat \<Rightarrow> string) \<Rightarrow> (rat \<Rightarrow> rat)
       \<Rightarrow> (parser_config \<Rightarrow> ('tok \<Rightarrow> go_error + 'k) \<Rightarrow> string \<Rightarrow> jwt_error + claims)
       \<Rightarrow> int \<Rightarrow> ('tok, 'k) jwt \<Rightarrow> ac_request \<Rightarrow> parser_config memory_store
       \<Rightarrow> (go_error option \<times> ac_request \<times> parser_config memory_store) option" where
  "jwt_Validate btext f64 parse now j req store =
     (case TokenValue btext (j_source j) req of
        Inl e \<Rightarrow> Some (Some (err_With (Some e) (error_def ''jwt_token_missing'')), req, store)
      | Inr token \<Rightarrow>
         (case getConfiguredClaims f64 j req of
            None \<Rightarrow> None
          | Some (Inl e) \<Rightarrow> Some (Some e, req, store)
          | Some (Inr expected) \<Rightarrow>
             (let p = \<lparr>pc_algorithms = j_algos j, pc_audience = string_claim expected ''aud'',
                       pc_issuer = string_claim expected ''iss''\<rparr> in
              case getParser now p store of (q, store') \<Rightarrow>
              (case parse q (getValidationKey j) token of
                 Inl (TokenExpired e) \<Rightarrow> Some (Some (err_With (Some e) (error_def ''jwt_token_expired'')), req, store')
               | Inl (TokenInvalidClaims e) \<Rightarrow> Some (Some (err_With (Some e) (error_def ''jwt_token_invalid'')), req, store')
               | Inl (TokenOther e) \<Rightarrow> Some (Some (err_With (Some e) (error_def ''jwt_token_invalid'')), req, store')
               | Inr tokenClaims \<Rightarrow>
                  (case validateClaims j tokenClaims expected of
                     Some t \<Rightarrow> Some (Some (err_With (Some (PlainError t)) (error_def ''jwt_token_invalid'')), req, store')
                   | None \<Rightarrow>
                      (let acMap = (case ctx_controls req of Some m \<Rightarrow> m | None \<Rightarrow> Map.empty);
                           granted = (case ctx_granted req of Some ps \<Rightarrow> ps | None \<Rightarrow> []) @ getGrantedPermissions j tokenClaims
                       in Some (None, req\<lparr>ctx_controls := Some (acMap(j_name j \<mapsto> GMap (Some tokenClaims))),
                                          ctx_granted := Some granted\<rparr>, store')))))))"

text \<open>Every parser in the store lies under its own key.\<close>

definition parsers_ok :: "parser_config memory_store \<Rightarrow> bool" where
  "parsers_ok store \<longleftrightarrow> store_inv store \<and> (\<forall>(k, e) \<in> set store. parser_key (ent_value e) = k)"

lemma getParser_ok:
  assumes "parsers_ok store" "getParser now p store = (q, store')"
  shows "parser_key q = parser_key p \<and> parsers_ok store'"
proof (cases "store_Get now (parser_key p) store")
  case None
  with assms show ?thesis
    by (auto simp: getParser_def parsers_ok_def store_inv_ops) (auto simp: store_Set_def store_Del_def)
next
  case (Some q')
  with assms show ?thesis
    by (auto simp: getParser_def parsers_ok_def store_Get_def split: option.splits if_splits dest!: map_of_SomeD)
qed

lemma validateClaims_accepts:
  assumes "validateClaims j tokenClaims expected = None"
  shows "set (j_claimsRequired j) \<subseteq> dom (map_of tokenClaims)"
    "(k, v) \<in> set expected \<Longrightarrow> \<exists>w. map_of tokenClaims k = Some w \<and> (k = ''iss'' \<or> k = ''aud'' \<or> same_value v w)"
proof -
  have 1: "find (\<lambda>k. map_of tokenClaims k = None) (j_claimsRequired j) = None"
    using assms by (auto simp: validateClaims_def split: option.splits)
  then show "set (j_claimsRequired j) \<subseteq> dom (map_of tokenClaims)"
    by (auto simp: find_None_iff)
  have "find (\<lambda>(k, v). (case map_of tokenClaims k of None \<Rightarrow> True
      | Some w \<Rightarrow> k \<noteq> ''iss'' \<and> k \<noteq> ''aud'' \<and> \<not> same_value v w)) expected = None"
    using assms 1 by (auto simp: validateClaims_def split: option.splits prod.splits)
  then show "(k, v) \<in> set expected \<Longrightarrow> \<exists>w. map_of tokenClaims k = Some w \<and> (k = ''iss'' \<or> k = ''aud'' \<or> same_value v w)"
    by (force simp: find_None_iff split: option.splits)
qed

text \<open>
  Property C22: a request that is accepted carries a token that a parser accepted whose algorithms,
  audience and issuer print the same key as the configured ones; the token has all required
  claims, and every expected claim other than issuer and audience with the expected value; the
  granted permissions of earlier controls are kept.
\<close>

theorem jwt_accepts:
  assumes "jwt_Validate btext f64 parse now j req store = Some (None, r, store')" "parsers_ok store"
  shows "\<exists>token expected q cs.
     TokenValue btext (j_source j) req = Inr token \<and> token \<noteq> [] \<and>
     getConfiguredClaims f64 j req = Some (Inr expected) \<and>
     parser_key q = parser_key \<lparr>pc_algorithms = j_algos j, pc_audience = string_claim expected ''aud'', pc_issuer = string_claim expected ''iss''\<rparr> \<and>
     parse q (getValidationKey j) token = Inr cs \<and>
     set (j_claimsRequired j) \<subseteq> dom (map_of cs) \<and>
     (\<forall>(k, v) \<in> set expected. \<exists>w. map_of cs k = Some w \<and> (k = ''iss'' \<or> k = ''aud'' \<or> same_value v w)) \<and>
     ctx_granted r = Some ((case ctx_granted req of Some ps \<Rightarrow> ps | None \<Rightarrow> []) @ getGrantedPermissions j cs) \<and>
     parsers_ok store'"
proof -
  from assms(1) obtain token expected q cs where
    t: "TokenValue btext (j_source j) req = Inr token" and
    e: "getConfiguredClaims f64 j req = Some (Inr expected)" and
    q: "getParser now \<lparr>pc_algorithms = j_algos j, pc_audience = string_claim expected ''aud'', pc_issuer = string_claim expected ''iss''\<rparr> store = (q, store')" and
    p: "parse q (getValidationKey j) token = Inr cs" and
    v: "validateClaims j cs expected = None" and
    g: "ctx_granted r = Some ((case ctx_granted req of Some ps \<Rightarrow> ps | None \<Rightarrow> []) @ getGrantedPermissions j cs)"
    by (auto simp: jwt_Validate_def Let_def split: sum.splits option.splits prod.splits jwt_error.splits)
  from t have "token \<noteq> []" by (auto simp: TokenValue_def Let_def split: sum.splits if_splits)
  with t e p g getParser_ok[OF assms(2) q] validateClaims_accepts[OF v] show ?thesis
    by (intro exI[of _ token] exI[of _ expected] exI[of _ q] exI[of _ cs]) fastforce
qed

definition example_request :: ac_request where
  "example_request = \<lparr>req_method = ''GET'', req_host = ''h'', req_path = ''/'', req_query = [],
     req_header = [''Authorization'' \<mapsto> [''Bearer t'']], ctx_controls = None, ctx_granted = Some [''p''],
     ctx_required = None, ctx_error = None\<rparr>"

definition example_parse :: "parser_config \<Rightarrow> (unit \<Rightarrow> go_error + nat) \<Rightarrow> string \<Rightarrow> jwt_error + claims" where
  "example_parse q key t =
     (if pc_algorithms q = [''HS256''] \<and> key () = Inr 1 \<and> t = ''t''
      then Inr [(''sub'', GString ''me''), (''scope'', GString ''x y'')] else Inl (TokenOther (PlainError ''bad'')))"

lemma jwt_accepts_witness:
  "\<exists>token (cs :: claims). TokenValue (\<lambda>_. []) (j_source example_jwt) example_request = Inr token \<and> token \<noteq> [] \<and>
     set (j_claimsRequired example_jwt) \<subseteq> dom (map_of cs)"
proof -
  let ?v = "jwt_Validate (\<lambda>_. []) id example_parse 0 example_jwt example_request []"
  have "(case ?v of Some (None, r, s) \<Rightarrow> True | _ \<Rightarrow> False)" by code_simp
  then obtain r s where v: "?v = Some (None, r, s)" by (auto split: option.splits prod.splits)
  have "parsers_ok []" by (simp add: parsers_ok_def store_inv_def)
  from jwt_accepts[OF v this] show ?thesis by blast
qed

lemma cut_key:
  assumes "CHR '':'' \<notin> set a" "CHR '':'' \<notin> set a'" "a @ CHR '':'' # b = a' @ CHR '':'' # b'"
  shows "a = a' \<and> b = b'"
  using cut_append[OF assms(1), of b] cut_append[OF assms(2), of b'] unfolding assms(3) by simp

text \<open>
  The key of a parser determines its audience and issuer only for audiences without
  a colon: then the parser that is taken from the store is the configured one.
\<close>

theorem parser_keys_injective:
  assumes "parsers_ok store" "getParser now p store = (q, store')"
    and "pc_algorithms q = pc_algorithms p" "CHR '':'' \<notin> set (pc_audience p)" "CHR '':'' \<notin> set (pc_audience q)"
  shows "q = p"
proof -
  from getParser_ok[OF assms(1,2)] have "parser_key q = parser_key p" by simp
  then have "pc_audience q @ CHR '':'' # pc_issuer q = pc_audience p @ CHR '':'' # pc_issuer p"
    using assms(3) by (simp add: parser_key_def)
  from cut_key[OF assms(5,4) this] assms(3) show ?thesis by (simp add: parser_config.equality)
qed

lemma parser_keys_injective_witness:
  "getParser 0 \<lparr>pc_algorithms = [''RS256''], pc_audience = ''a'', pc_issuer = ''https://i''\<rparr> [] =
     (\<lparr>pc_algorithms = [''RS256''], pc_audience = ''a'', pc_issuer = ''https://i''\<rparr>,
      snd (getParser 0 \<lparr>pc_algorithms = [''RS256''], pc_audience = ''a'', pc_issuer = ''https://i''\<rparr> []))"
proof -
  let ?p = "\<lparr>pc_algorithms = [''RS256''], pc_audience = ''a'', pc_issuer = ''https://i''\<rparr>"
  obtain q s where q: "getParser 0 ?p [] = (q, s)" by (cases "getParser 0 ?p []")
  have "parsers_ok []" by (simp add: parsers_ok_def store_inv_def)
  moreover have "pc_algorithms q = pc_algorithms ?p" "CHR '':'' \<notin> set (pc_audience q)"
    using q by (auto simp: getParser_def store_Get_def)
  ultimately have "q = ?p" using parser_keys_injective[OF _ q] by simp
  with q show ?thesis by simp
qed

text \<open>
  A parser for one audience and issuer is used for another one when their texts join
  to the same key: after a token was validated for the audience \<open>api\<close> and the issuer \<open>x:y\<close>, the
  tokens for the audience \<open>api:x\<close> and the issuer \<open>y\<close> are checked against the former.
\<close>

theorem parser_key_collision:
  "fst (getParser now' \<lparr>pc_algorithms = as, pc_audience = ''api:x'', pc_issuer = ''y''\<rparr>
      (snd (getParser now \<lparr>pc_algorithms = as, pc_audience = ''api'', pc_issuer = ''x:y''\<rparr> []))) =
   (if now' < now + 3600 then \<lparr>pc_algorithms = as, pc_audience = ''api'', pc_issuer = ''x:y''\<rparr>
    else \<lparr>pc_algorithms = as, pc_audience = ''api:x'', pc_issuer = ''y''\<rparr>)"
  by (simp add: getParser_def store_Get_def store_Set_def store_Del_def parser_key_def clamp_ttl_def maxExpiresIn_def)

section \<open>Keys and algorithms\<close>

lemma NewAlgorithm_String: "a \<noteq> AlgorithmUnknown \<Longrightarrow> NewAlgorithm (algorithm_String a) = a"
  by (cases a) (simp_all add: NewAlgorithm_def)

lemma newJWT_shape: "newJWT c = Inr j \<Longrightarrow> j_algos j = [] \<and> j_hmacSecret j = None \<and> j_pubKey j = None \<and> j_jwks j = None"
  by (auto simp: newJWT_def split: sum.splits if_splits)

text \<open>
  An access control admits algorithms with a shared secret exactly if its key is one,
  and never with a public key or a key set, so a token signed with a public key as the secret is
  not verified; and it always has a key.
\<close>

theorem no_algorithm_confusion:
  "(case NewJWT pem secret c key of
      Inl e \<Rightarrow> True
    | Inr j \<Rightarrow> j_jwks j = None \<and> list_all (\<lambda>a. IsHMAC (NewAlgorithm a) = (j_hmacSecret j = Some (secret key))) (j_algos j) \<and>
               (j_hmacSecret j = None) = (\<exists>k. pem key = Inr k \<and> j_pubKey j = Some k)) \<and>
   (case NewJWTFromJWKS c jwks of
      Inl e \<Rightarrow> True
    | Inr j \<Rightarrow> list_all (\<lambda>a. NewAlgorithm a \<noteq> AlgorithmUnknown \<and> \<not> IsHMAC (NewAlgorithm a)) (j_algos j) \<and>
               j_hmacSecret j = None \<and> j_pubKey j = None \<and> j_jwks j = jwks)"
proof
  show "case NewJWT pem secret c key of
      Inl e \<Rightarrow> True
    | Inr j \<Rightarrow> j_jwks j = None \<and> list_all (\<lambda>a. IsHMAC (NewAlgorithm a) = (j_hmacSecret j = Some (secret key))) (j_algos j) \<and>
               (j_hmacSecret j = None) = (\<exists>k. pem key = Inr k \<and> j_pubKey j = Some k)"
    by (auto simp: NewJWT_def Let_def split: sum.splits if_splits dest!: newJWT_shape)
  have algos: "list_all (\<lambda>a. NewAlgorithm a \<noteq> AlgorithmUnknown \<and> \<not> IsHMAC (NewAlgorithm a))
      (map algorithm_String (RSAAlgorithms @ ECDSAlgorithms))" by code_simp
  show "case NewJWTFromJWKS c jwks of
      Inl e \<Rightarrow> True
    | Inr j \<Rightarrow> list_all (\<lambda>a. NewAlgorithm a \<noteq> AlgorithmUnknown \<and> \<not> IsHMAC (NewAlgorithm a)) (j_algos j) \<and>
               j_hmacSecret j = None \<and> j_pubKey j = None \<and> j_jwks j = jwks"
    using algos by (auto simp: NewJWTFromJWKS_def split: sum.splits option.splits dest!: newJWT_shape)
qed

lemma json_not_nil_list: "json_value w \<Longrightarrow> \<not> same_value GNilList w"
  by (cases w) simp_all

text \<open>
  An expected claim with the value \<open>[]\<close> is never satisfied: the configured value is a
  nil slice, which differs from every value that a token decoded from JSON can have.
\<close>

theorem empty_list_claim_rejected:
  assumes "list_all (\<lambda>(k, v). json_value v) tokenClaims" "k \<noteq> ''iss''" "k \<noteq> ''aud''"
    and "(k, ValueToGo f64 (CTuple [])) \<in> set expected"
  shows "validateClaims j tokenClaims expected \<noteq> None"
proof
  assume "validateClaims j tokenClaims expected = None"
  from validateClaims_accepts(2)[OF this assms(4)] obtain w where
    "map_of tokenClaims k = Some w" "same_value GNilList w" using assms(2,3) by auto
  with assms(1) json_not_nil_list show False by (fastforce simp: list_all_iff dest: map_of_SomeD)
qed

lemma empty_list_claim_rejected_witness:
  "validateClaims example_jwt [(''sub'', GString ''me''), (''roles'', GList [])] [(''roles'', ValueToGo id (CTuple []))] \<noteq> None"
  by (rule empty_list_claim_rejected[of _ "''roles''" id]) simp_all

end
