(* ===== verification/OAuth2.thy ===== *)
theory OAuth2
  imports Jwt Durations QueryString
begin

text \<open>
  The OAuth2 client: signing of tokens (\<open>eval/lib/jwt.go\<close>), the client and its authentication
  (\<open>oauth2/client.go\<close>), the authorization code flow (\<open>oauth2/auth_code_client.go\<close>) and OpenID Connect
  (\<open>oauth2/oidc_client.go\<close>), and the access control for the callback (\<open>accesscontrol/oauth2.go\<close>).

  Arguments stand for what is not part of the program: the JWT library (\<open>method\<close>, \<open>sign\<close>, \<open>parse\<close>),
  the parsing of keys and of JSON, the hash of the verifier, the backend that answers a request,
  and the values of expressions. In the texts of errors a value that Go prints quoted is written
  without quotes. A record \<open>client_env\<close> bundles those that the client needs.
\<close>

section \<open>Signing\<close>

record signing_profile =
  jsp_Claims :: "(go_error + cty) option"
  jsp_Headers :: "(go_error + cty) option"
  jsp_Key :: string
  jsp_KeyFile :: string
  jsp_SignatureAlgorithm :: string
  jsp_TTL :: string

record 'k signing_config =
  sc_Claims :: "(go_error + cty) option"
  sc_Headers :: "(go_error + cty) option"
  sc_Key :: 'k
  sc_SignatureAlgorithm :: string
  sc_TTL :: int

text \<open>Seconds of a duration: exact while the duration is below \<open>2 ^ 23\<close> seconds.\<close>

definition duration_seconds :: "duration \<Rightarrow> int" where
  "duration_seconds d = go_div d 1000000000"

definition checkData :: "string \<Rightarrow> string \<Rightarrow> go_error + int \<times> algorithm" where
  "checkData ttl signatureAlgorithm =
     (let alg = NewAlgorithm signatureAlgorithm in
      if alg = AlgorithmUnknown then Inl (PlainError ''algorithm is not supported'')
      else if ttl \<noteq> ''0''
      then (case time_parse_duration ttl of
              Inl e \<Rightarrow> Inl (PlainError (duration_error_text e))
            | Inr d \<Rightarrow> Inr (duration_seconds d, alg))
      else Inr (0, alg))"

text \<open>\<open>ReadFromAttrFile\<close>; reading a file is an argument.\<close>

definition ReadFromAttrFile :: "(string \<Rightarrow> go_error + string) \<Rightarrow> string \<Rightarrow> string \<Rightarrow> string \<Rightarrow> go_error + string" where
  "ReadFromAttrFile read_file context attributeValue filePath =
     (let readErr = err_Label (context @ '': read error'') E_Configuration in
      if attributeValue \<noteq> [] \<and> filePath \<noteq> [] then Inl (err_Message ''configured attribute and file'' readErr)
      else if attributeValue = [] \<and> filePath = [] then Inl (err_Message ''required: configured attribute or file'' readErr)
      else if filePath \<noteq> [] then
        (case read_file filePath of
           Inl e \<Rightarrow> Inl (err_With (Some e) readErr)
         | Inr b \<Rightarrow> if b = [] then Inl (err_Message ''empty file'' readErr) else Inr b)
      else Inr attributeValue)"

definition getKey ::
    "(string \<Rightarrow> go_error + 'k) \<Rightarrow> (string \<Rightarrow> go_error + 'k) \<Rightarrow> (string \<Rightarrow> 'k) \<Rightarrow> string \<Rightarrow> string \<Rightarrow> go_error + 'k" where
  "getKey rsa ec secret keyBytes alg =
     (if has_prefix alg ''RS'' then rsa keyBytes
      else if has_prefix alg ''ES'' then ec keyBytes else Inr (secret keyBytes))"

record 'k key_env =
  read_file :: "string \<Rightarrow> go_error + string"
  rsa_key :: "string \<Rightarrow> go_error + 'k"
  ec_key :: "string \<Rightarrow> go_error + 'k"
  secret_key :: "string \<Rightarrow> 'k"

definition NewJWTSigningConfigFromJWTSigningProfile ::
    "'k key_env \<Rightarrow> signing_profile \<Rightarrow> (algorithm \<Rightarrow> go_error option) option \<Rightarrow> go_error + 'k signing_config" where
  "NewJWTSigningConfigFromJWTSigningProfile env j algCheck =
     (case checkData (jsp_TTL j) (jsp_SignatureAlgorithm j) of
        Inl e \<Rightarrow> Inl e
      | Inr (ttl, alg) \<Rightarrow>
         (case (case algCheck of None \<Rightarrow> None | Some f \<Rightarrow> f alg) of
            Some e \<Rightarrow> Inl e
          | None \<Rightarrow>
             (case ReadFromAttrFile (read_file env) ''jwt_signing_profile key'' (jsp_Key j) (jsp_KeyFile j) of
                Inl e \<Rightarrow> Inl e
              | Inr keyBytes \<Rightarrow>
                 (case getKey (rsa_key env) (ec_key env) (secret_key env) keyBytes (jsp_SignatureAlgorithm j) of
                    Inl e \<Rightarrow> Inl e
                  | Inr k \<Rightarrow> Inr \<lparr>sc_Claims = jsp_Claims j, sc_Headers = jsp_Headers j, sc_Key = k,
                                  sc_SignatureAlgorithm = jsp_SignatureAlgorithm j, sc_TTL = ttl\<rparr>))))"

text \<open>\<open>NewJWTSigningConfigFromJWT\<close> for a \<open>jwt\<close> block; the result is nil without a time to live.\<close>

record jwt_signing_conf =
  js_SigningTTL :: string
  js_SignatureAlgorithm :: string
  js_Claims :: "(go_error + cty) option"
  js_Key :: string
  js_KeyFile :: string
  js_SigningKey :: string
  js_SigningKeyFile :: string

definition NewJWTSigningConfigFromJWT :: "'k key_env \<Rightarrow> jwt_signing_conf \<Rightarrow> go_error + 'k signing_config option" where
  "NewJWTSigningConfigFromJWT env j =
     (if js_SigningTTL j = [] then Inr None
      else (case checkData (js_SigningTTL j) (js_SignatureAlgorithm j) of
         Inl e \<Rightarrow> Inl e
       | Inr (ttl, alg) \<Rightarrow>
          (case (if IsHMAC alg then ReadFromAttrFile (read_file env) ''jwt signing key'' (js_Key j) (js_KeyFile j)
                 else ReadFromAttrFile (read_file env) ''jwt signing key'' (js_SigningKey j) (js_SigningKeyFile j)) of
             Inl e \<Rightarrow> Inl e
           | Inr keyBytes \<Rightarrow>
              (case getKey (rsa_key env) (ec_key env) (secret_key env) keyBytes (js_SignatureAlgorithm j) of
                 Inl e \<Rightarrow> Inl e
               | Inr k \<Rightarrow> Inr (Some \<lparr>sc_Claims = js_Claims j, sc_Headers = None, sc_Key = k,
                               sc_SignatureAlgorithm = js_SignatureAlgorithm j, sc_TTL = ttl\<rparr>)))))"

text \<open>\<open>CreateJWT\<close>; \<open>method\<close> gives the name of a signing method, \<open>sign\<close> the signed text.\<close>

definition CreateJWT ::
    "(string \<Rightarrow> string option) \<Rightarrow> ('k \<Rightarrow> claims \<Rightarrow> claims \<Rightarrow> go_error + string)
       \<Rightarrow> string \<Rightarrow> 'k \<Rightarrow> claims \<Rightarrow> claims \<Rightarrow> go_error + string" where
  "CreateJWT method sign alg key cs headers0 =
     (case method alg of
        None \<Rightarrow> Inl (PlainError (''no signing method for given algorithm: '' @ alg))
      | Some name \<Rightarrow>
         (let headers = (if map_of headers0 ''typ'' = None then set_key ''typ'' (GString ''JWT'') headers0 else headers0)
          in sign key (set_key ''alg'' (GString name) headers) cs))"

text \<open>The function \<open>jwt_sign\<close>, with the evaluated header and claim expressions of the profiles. The
  claims of its argument are given as decoded; \<open>None\<close> is a panic of \<open>ValueToMap\<close>.\<close>

definition jwt_sign ::
    "(rat \<Rightarrow> rat) \<Rightarrow> (string \<Rightarrow> string option) \<Rightarrow> ('k \<Rightarrow> claims \<Rightarrow> claims \<Rightarrow> go_error + string)
       \<Rightarrow> int \<Rightarrow> (string \<rightharpoonup> 'k signing_config) \<Rightarrow> string \<Rightarrow> (go_error + claims) \<Rightarrow> (go_error option \<times> string) option" where
  "jwt_sign f64 method sign now configs lbl arg =
     (case configs lbl of
        None \<Rightarrow> Some (Some (PlainError (''missing jwt_signing_profile or jwt (with signing_ttl) block with referenced label '' @
                 [CHR 0x22] @ lbl @ [CHR 0x22])), [])
      | Some sc \<Rightarrow>
         (case (case sc_Headers sc of
                  None \<Rightarrow> Some (Inr [])
                | Some (Inl e) \<Rightarrow> Some (Inl e)
                | Some (Inr h) \<Rightarrow> map_option Inr (ValueToMap f64 h)) of
            None \<Rightarrow> None
          | Some (Inl e) \<Rightarrow> Some (Some e, [])
          | Some (Inr headers) \<Rightarrow>
             (case sc_Claims sc of
                Some (Inl e) \<Rightarrow> Some (None, [])
              | cl \<Rightarrow>
                 (case (case cl of Some (Inr v) \<Rightarrow> ValueToMap f64 v | _ \<Rightarrow> Some []) of
                    None \<Rightarrow> None
                  | Some claims0 \<Rightarrow>
                     (let claims1 = (if sc_TTL sc \<noteq> 0 then set_key ''exp'' (GInt64 (now + sc_TTL sc)) claims0 else claims0) in
                      case arg of
                        Inl e \<Rightarrow> Some (Some e, [])
                      | Inr ac \<Rightarrow>
                         (case CreateJWT method sign (sc_SignatureAlgorithm sc) (sc_Key sc)
                                 (fold (\<lambda>(k, v). set_key k v) ac claims1) headers of
                            Inl e \<Rightarrow> Some (Some e, [])
                          | Inr t \<Rightarrow> Some (None, t)))))))"

text \<open>
  When the claims expression of a signing profile cannot be evaluated, \<open>jwt_sign\<close>
  returns the empty string without an error, whatever else is given.
\<close>

theorem jwt_sign_drops_error:
  "jwt_sign f64 method sign now
      [lbl \<mapsto> \<lparr>sc_Claims = Some (Inl e), sc_Headers = None, sc_Key = k, sc_SignatureAlgorithm = alg, sc_TTL = ttl\<rparr>]
      lbl arg = Some (None, [])"
  by (simp add: jwt_sign_def)

section \<open>The client\<close>

record oauth2_conf =
  oc_auth_required :: bool
  oc_client_id :: string
  oc_client_secret :: string
  oc_signing_profile :: "signing_profile option"
  oc_auth_method :: "string option"
  oc_token_endpoint :: "go_error + string"

record 'k client =
  cl_conf :: oauth2_conf
  cl_grant_type :: string
  cl_authn_method :: string
  cl_authn_signing :: "'k signing_config option"
  cl_authn_claims :: claims
  cl_authn_headers :: claims

definition supported_authn :: "string list" where
  "supported_authn = [''client_secret_basic'', ''client_secret_jwt'', ''client_secret_post'', ''private_key_jwt'']"

definition algCheck :: "string \<Rightarrow> algorithm \<Rightarrow> go_error option" where
  "algCheck authnMethod algo =
     (if (authnMethod = ''client_secret_jwt'' \<and> \<not> IsHMAC algo) \<or> (authnMethod = ''private_key_jwt'' \<and> IsHMAC algo)
      then Some (PlainError (''inappropriate signature algorithm with '' @ authnMethod)) else None)"

text \<open>The part of \<open>NewClient\<close> for the methods with a signed assertion: the signing configuration,
  claims and headers. The profile of \<open>client_secret_jwt\<close> gets the client secret as its key.
  \<open>None\<close> is a panic of \<open>ValueToMap\<close>.\<close>

definition assertion_parts ::
    "(rat \<Rightarrow> rat) \<Rightarrow> 'k key_env \<Rightarrow> oauth2_conf \<Rightarrow> string \<Rightarrow> signing_profile
       \<Rightarrow> (go_error + 'k signing_config \<times> claims \<times> claims) option" where
  "assertion_parts f64 env c authnMethod p0 =
     (if authnMethod = ''private_key_jwt'' \<and> jsp_Key p0 = [] \<and> jsp_KeyFile p0 = []
      then Some (Inl (PlainError ''key and key_file must not both be empty with private_key_jwt''))
      else if authnMethod = ''client_secret_jwt'' \<and> jsp_Key p0 \<noteq> []
      then Some (Inl (PlainError ''key must not be set with client_secret_jwt''))
      else if authnMethod = ''client_secret_jwt'' \<and> jsp_KeyFile p0 \<noteq> []
      then Some (Inl (PlainError ''key_file must not be set with client_secret_jwt''))
      else (let p = (if authnMethod = ''client_secret_jwt'' then p0\<lparr>jsp_Key := oc_client_secret c\<rparr> else p0) in
        case NewJWTSigningConfigFromJWTSigningProfile env p (Some (algCheck authnMethod)) of
          Inl e \<Rightarrow> Some (Inl e)
        | Inr sc \<Rightarrow>
           (case (case sc_Headers sc of
                    None \<Rightarrow> Some (Inr [])
                  | Some (Inl e) \<Rightarrow> Some (Inl e)
                  | Some (Inr v) \<Rightarrow>
                      map_option (\<lambda>h. if map_of h ''alg'' \<noteq> None
                                      then Inl (PlainError (CHR 0x22 # ''alg'' @ CHR 0x22 # '' cannot be set via '' @ CHR 0x22 # ''headers'' @ [CHR 0x22]))
                                      else Inr h) (ValueToMap f64 v)) of
              None \<Rightarrow> None
            | Some (Inl e) \<Rightarrow> Some (Inl e)
            | Some (Inr headers) \<Rightarrow>
               (case (case sc_Claims sc of
                        None \<Rightarrow> Some (Inr [])
                      | Some (Inl e) \<Rightarrow> Some (Inl e)
                      | Some (Inr v) \<Rightarrow> map_option Inr (ValueToMap f64 v)) of
                  None \<Rightarrow> None
                | Some (Inl e) \<Rightarrow> Some (Inl e)
                | Some (Inr cs) \<Rightarrow>
                   (case (if map_of cs ''aud'' \<noteq> None then Inr cs
                          else map_sum id (\<lambda>u. set_key ''aud'' (GString u) cs) (oc_token_endpoint c)) of
                      Inl e \<Rightarrow> Some (Inl e)
                    | Inr cs1 \<Rightarrow>
                        Some (Inr (sc, set_key ''sub'' (GString (oc_client_id c)) (set_key ''iss'' (GString (oc_client_id c)) cs1), headers)))))))"

definition NewClient ::
    "(rat \<Rightarrow> rat) \<Rightarrow> 'k key_env \<Rightarrow> string \<Rightarrow> oauth2_conf \<Rightarrow> (go_error + 'k client) option" where
  "NewClient f64 env grantType c =
     (let authnMethod = (case oc_auth_method c of None \<Rightarrow> ''client_secret_basic'' | Some m \<Rightarrow> m);
          cl = \<lambda>sc cs h. \<lparr>cl_conf = c, cl_grant_type = grantType, cl_authn_method = authnMethod,
                        cl_authn_signing = sc, cl_authn_claims = cs, cl_authn_headers = h\<rparr>
      in if authnMethod \<notin> set supported_authn
         then Some (Inl (PlainError (''token_endpoint_auth_method '' @ CHR 0x22 # authnMethod @ CHR 0x22 # '' not supported'')))
         else if \<not> oc_auth_required c then Some (Inr (cl None [] []))
         else if oc_client_id c = [] then Some (Inl (PlainError ''client_id must not be empty''))
         else if authnMethod \<noteq> ''private_key_jwt'' \<and> oc_client_secret c = []
         then Some (Inl (PlainError (''client_secret must not be empty with '' @ authnMethod)))
         else if authnMethod = ''private_key_jwt'' \<and> oc_client_secret c \<noteq> []
         then Some (Inl (PlainError (''client_secret must not be set with '' @ authnMethod)))
         else if authnMethod \<in> set [''client_secret_jwt'', ''private_key_jwt''] then
           (case oc_signing_profile c of
              None \<Rightarrow> Some (Inl (PlainError (''jwt_signing_profile block must be set with '' @ authnMethod)))
            | Some p \<Rightarrow> map_option (map_sum id (\<lambda>(sc, cs, h). cl (Some sc) cs h)) (assertion_parts f64 env c authnMethod p))
         else if oc_signing_profile c \<noteq> None
         then Some (Inl (PlainError (''jwt_signing_profile block must not be set with '' @ authnMethod)))
         else Some (Inr (cl None [] [])))"

section \<open>Token requests\<close>

type_synonym form = "string \<rightharpoonup> string list"

definition form_set :: "string \<Rightarrow> string \<Rightarrow> form \<Rightarrow> form" where
  "form_set k v f = f(k \<mapsto> [v])"

record token_http_request =
  tr_method :: string
  tr_url :: string
  tr_header :: header
  tr_form :: form

record 'k client_env =
  ce_now :: int
  ce_identifier :: "go_error + string"
  ce_method :: "string \<Rightarrow> string option"
  ce_sign :: "'k \<Rightarrow> claims \<Rightarrow> claims \<Rightarrow> go_error + string"
  ce_valid_url :: "string \<Rightarrow> go_error option"
  ce_roundtrip :: "token_http_request \<Rightarrow> go_error + nat \<times> (go_error + string)"
  ce_json :: "string \<Rightarrow> go_error + claims"

text \<open>\<open>authenticateClient\<close>: the form parameters and the header of the request.\<close>

definition authenticateClient :: "'k client_env \<Rightarrow> 'k client \<Rightarrow> form \<Rightarrow> header \<Rightarrow> go_error + form \<times> header" where
  "authenticateClient env c formParams hdr =
     (let id' = oc_client_id (cl_conf c); secret = oc_client_secret (cl_conf c) in
      if \<not> oc_auth_required (cl_conf c) then Inr (formParams, hdr)
      else if cl_authn_method c = ''client_secret_basic''
      then Inr (formParams, h_set ''Authorization'' (basic_auth_value (query_escape id') (query_escape secret)) hdr)
      else if cl_authn_method c = ''client_secret_post''
      then Inr (form_set ''client_secret'' secret (form_set ''client_id'' id' formParams), hdr)
      else if cl_authn_method c \<in> set [''client_secret_jwt'', ''private_key_jwt''] then
        (case (ce_identifier env, cl_authn_signing c) of
           (Inl e, _) \<Rightarrow> Inl e
         | (Inr jti, None) \<Rightarrow> Inr (formParams, hdr)
         | (Inr jti, Some sc) \<Rightarrow>
            (let cs = set_key ''jti'' (GString jti) (set_key ''exp'' (GInt64 (ce_now env + sc_TTL sc))
                        (set_key ''iat'' (GInt64 (ce_now env)) (cl_authn_claims c))) in
             case CreateJWT (ce_method env) (ce_sign env) (sc_SignatureAlgorithm sc) (sc_Key sc) cs (cl_authn_headers c) of
               Inl e \<Rightarrow> Inl e
             | Inr a \<Rightarrow> Inr (form_set ''client_assertion_type'' ''urn:ietf:params:oauth:client-assertion-type:jwt-bearer''
                         (form_set ''client_assertion'' a (form_set ''client_id'' id' formParams)), hdr)))
      else Inr (formParams, hdr))"

text \<open>\<open>newTokenRequest\<close>. The body is the encoded form; encoding it sets the length of the content.\<close>

definition newTokenRequest :: "'k client_env \<Rightarrow> 'k client \<Rightarrow> form \<Rightarrow> go_error + token_http_request" where
  "newTokenRequest env c formParams =
     (case oc_token_endpoint (cl_conf c) of
        Inl e \<Rightarrow> Inl e
      | Inr tokenURL \<Rightarrow>
         (case ce_valid_url env tokenURL of
            Some e \<Rightarrow> Inl e
          | None \<Rightarrow>
             (let h = h_set ''Content-Type'' ''application/x-www-form-urlencoded'' (h_set ''Accept'' ''application/json'' Map.empty);
                  f = form_set ''grant_type'' (cl_grant_type c) formParams in
              case authenticateClient env c f h of
                Inl e \<Rightarrow> Inl e
              | Inr (f', h') \<Rightarrow> Inr \<lparr>tr_method = ''POST'', tr_url = tokenURL, tr_header = h', tr_form = f'\<rparr>)))"

definition parseTokenResponse :: "(string \<Rightarrow> go_error + claims) \<Rightarrow> string \<Rightarrow> go_error + claims \<times> string" where
  "parseTokenResponse json body =
     (case json body of Inl e \<Rightarrow> Inl e | Inr d \<Rightarrow> Inr (d, string_claim d ''access_token''))"

definition token_error_text :: "claims \<Rightarrow> string" where
  "token_error_text d =
     ''error='' @ string_claim d ''error'' @
     (case map_of d ''error_description'' of Some (GString s) \<Rightarrow> '', error_description='' @ s | _ \<Rightarrow> []) @
     (case map_of d ''error_uri'' of Some (GString s) \<Rightarrow> '', error_uri='' @ s | _ \<Rightarrow> [])"

definition GetTokenResponse :: "'k client_env \<Rightarrow> 'k client \<Rightarrow> form \<Rightarrow> go_error + claims \<times> string" where
  "GetTokenResponse env c formParams =
     (case newTokenRequest env c formParams of
        Inl e \<Rightarrow> Inl e
      | Inr req \<Rightarrow>
         (case ce_roundtrip env req of
            Inl e \<Rightarrow> Inl e
          | Inr (status, Inl e) \<Rightarrow> Inl e
          | Inr (status, Inr body) \<Rightarrow>
             (case parseTokenResponse (ce_json env) body of
                Inl e \<Rightarrow> Inl e
              | Inr (d, token) \<Rightarrow>
                  if status \<noteq> 200 then Inl (PlainError (token_error_text d)) else Inr (d, token))))"

definition example_env :: "nat client_env" where
  "example_env = \<lparr>ce_now = 0, ce_identifier = Inr ''i'', ce_method = (\<lambda>a. Some a), ce_sign = (\<lambda>k h c. Inr ''jwt''),
     ce_valid_url = (\<lambda>u. None),
     ce_roundtrip = (\<lambda>r. if tr_method r = ''POST'' then Inr (200, Inr ''T'') else Inr (200, Inr ''U'')),
     ce_json = (\<lambda>b. if b = ''T'' then Inr [(''access_token'', GString ''at''), (''id_token'', GString ''idt'')]
                   else Inr [(''sub'', GString ''me''), (''name'', GString ''Me'')])\<rparr>"

definition example_client :: "nat client" where
  "example_client = \<lparr>cl_conf = \<lparr>oc_auth_required = True, oc_client_id = ''a:b'', oc_client_secret = ''s%'', oc_signing_profile = None,
     oc_auth_method = None, oc_token_endpoint = Inr ''https://as/token''\<rparr>, cl_grant_type = ''authorization_code'',
     cl_authn_method = ''client_secret_basic'', cl_authn_signing = None, cl_authn_claims = [], cl_authn_headers = []\<rparr>"

text \<open>
  A token request with \<open>client_secret_basic\<close> carries credentials from which the server
  recovers the client id and the secret, whatever bytes they consist of, and no secret in its form
  unless the caller put it there.
\<close>

theorem client_credentials_roundtrip:
  assumes "newTokenRequest env c formParams = Inr req"
    and "oc_auth_required (cl_conf c)" "cl_authn_method c = ''client_secret_basic''"
  shows "\<exists>u p. req_basic_auth (tr_header req) = Some (u, p) \<and>
     query_unescape u = Some (oc_client_id (cl_conf c)) \<and>
     query_unescape p = Some (oc_client_secret (cl_conf c)) \<and>
     tr_form req = form_set ''grant_type'' (cl_grant_type c) formParams"
proof -
  have nonempty: "basic_auth_value u p \<noteq> []" for u p by (simp add: basic_auth_value_def)
  from assms have "tr_form req = form_set ''grant_type'' (cl_grant_type c) formParams"
    "h_get (tr_header req) ''Authorization'' =
      basic_auth_value (query_escape (oc_client_id (cl_conf c))) (query_escape (oc_client_secret (cl_conf c)))"
    by (auto simp: newTokenRequest_def authenticateClient_def Let_def h_get_set split: sum.splits option.splits)
  then show ?thesis
    by (simp add: req_basic_auth_def Let_def nonempty parse_basic_auth_value escape_no_colon unescape_escape)
qed

lemma client_credentials_roundtrip_witness:
  "\<exists>req u p. newTokenRequest example_env example_client Map.empty = Inr req \<and>
     req_basic_auth (tr_header req) = Some (u, p) \<and> query_unescape u = Some ''a:b''"
proof -
  have "\<not> isl (newTokenRequest example_env example_client Map.empty)" by code_simp
  then obtain req where req: "newTokenRequest example_env example_client Map.empty = Inr req"
    by (cases "newTokenRequest example_env example_client Map.empty") auto
  have "oc_auth_required (cl_conf example_client)" "cl_authn_method example_client = ''client_secret_basic''"
    "oc_client_id (cl_conf example_client) = ''a:b''" by (simp_all add: example_client_def)
  with client_credentials_roundtrip[OF req] req show ?thesis by auto
qed

section \<open>The authorization code flow\<close>

record ac_client_conf =
  ac_redirect_uri :: string
  ac_verifier_method :: "go_error + string"

record callback =
  cb_query :: form
  cb_raw_query :: string

definition query_get :: "form \<Rightarrow> string \<Rightarrow> string" where
  "query_get q k = (case q k of Some (v # _) \<Rightarrow> v | _ \<Rightarrow> [])"

text \<open>\<open>NewAuthCodeClient\<close>: \<open>plain\<close> tells an OAuth2 configuration from an OpenID Connect one.\<close>

definition NewAuthCodeClient ::
    "(rat \<Rightarrow> rat) \<Rightarrow> 'k key_env \<Rightarrow> bool \<Rightarrow> string \<Rightarrow> ac_client_conf \<Rightarrow> oauth2_conf
       \<Rightarrow> (go_error + 'k client \<times> ac_client_conf) option" where
  "NewAuthCodeClient f64 env plain grantType ac c =
     (if grantType \<noteq> ''authorization_code'' then Some (Inl (PlainError (''grant_type '' @ grantType @ '' not supported'')))
      else (case (if plain then
                    (case ac_verifier_method ac of
                       Inl e \<Rightarrow> Some e
                     | Inr m \<Rightarrow>
                        if m \<noteq> ''ccm_s256'' \<and> m \<noteq> ''state''
                        then Some (PlainError (''verifier_method '' @ m @ '' not supported'')) else None)
                  else None) of
         Some e \<Rightarrow> Some (Inl e)
       | None \<Rightarrow> map_option (map_sum id (\<lambda>cl. (cl, ac))) (NewClient f64 env grantType c)))"

text \<open>\<open>exchangeCodeAndGetTokenResponse\<close>: the data of the token response, the hashed verifier, the
  verifier and the access token. \<open>absolute\<close> resolves the redirect URI against the origin of the
  callback, \<open>verifier\<close> is the value of the configured expression.\<close>

definition exchange ::
    "(rat \<Rightarrow> string) \<Rightarrow> (string \<Rightarrow> go_error + string) \<Rightarrow> (string \<Rightarrow> string) \<Rightarrow> 'k client_env \<Rightarrow> 'k client
       \<Rightarrow> ac_client_conf \<Rightarrow> (go_error + cty) \<Rightarrow> callback \<Rightarrow> go_error + claims \<times> string \<times> string \<times> string" where
  "exchange btext absolute hash env c ac verifier cb =
     (let oauth2 = error_def ''oauth2'';
          code = query_get (cb_query cb) ''code'' in
      if code = [] then Inl (err_Message (''missing code query parameter; query='' @ cb_raw_query cb) oauth2)
      else if ac_redirect_uri ac = [] then Inl (err_Message ''redirect_uri is required'' oauth2)
      else (case absolute (ac_redirect_uri ac) of
         Inl e \<Rightarrow> Inl (err_With (Some e) oauth2)
       | Inr absoluteURL \<Rightarrow>
          (case verifier of
             Inl e \<Rightarrow> Inl (err_With (Some e) oauth2)
           | Inr verifierVal \<Rightarrow>
              (let v = trim_space (ValueToString btext verifierVal) in
               if v = [] then Inl (err_Message ''Empty verifier_value'' oauth2)
               else (case ac_verifier_method ac of
                  Inl e \<Rightarrow> Inl (err_With (Some e) oauth2)
                | Inr method \<Rightarrow>
                   (let f0 = [''code'' \<mapsto> [code], ''redirect_uri'' \<mapsto> [absoluteURL]];
                        f = (if method = ''ccm_s256'' then form_set ''code_verifier'' v f0 else f0);
                        hashed = (if method = ''ccm_s256'' then [] else hash v);
                        state = query_get (cb_query cb) ''state'' in
                    if method = ''state'' \<and> state = []
                    then Inl (err_Message (''missing state query parameter; query='' @ cb_raw_query cb) oauth2)
                    else if method = ''state'' \<and> hashed \<noteq> state
                    then Inl (err_Message (''state mismatch: '' @ state @ '' (from query param) vs. '' @ hashed @ '' (verifier_value: '' @ v @ '')'') oauth2)
                    else (case GetTokenResponse env c f of
                       Inl e \<Rightarrow> Inl (err_With (Some e) (err_Message ''token request error'' oauth2))
                     | Inr (d, token) \<Rightarrow> Inr (d, hashed, v, token))))))))"

section \<open>OpenID Connect\<close>

record oidc_conf =
  oi_client_id :: string
  oi_userinfo_endpoint :: "go_error + string"

text \<open>Reading user information: the status and the body, and the decoded body.\<close>

definition userinfo_request :: "(string \<Rightarrow> go_error option) \<Rightarrow> string \<Rightarrow> string \<Rightarrow> go_error + token_http_request" where
  "userinfo_request valid endpoint token =
     (case valid endpoint of
        Some e \<Rightarrow> Inl e
      | None \<Rightarrow> Inr \<lparr>tr_method = ''GET'', tr_url = endpoint,
                    tr_header = h_set ''Authorization'' (''Bearer '' @ token) Map.empty, tr_form = Map.empty\<rparr>)"

definition getUserinfo :: "'k client_env \<Rightarrow> string \<Rightarrow> string \<Rightarrow> go_error + claims \<times> string" where
  "getUserinfo env endpoint token =
     (case userinfo_request (ce_valid_url env) endpoint token of
        Inl e \<Rightarrow> Inl e
      | Inr req \<Rightarrow>
         (case ce_roundtrip env req of
            Inl e \<Rightarrow> Inl e
          | Inr (status, Inl e) \<Rightarrow> Inl e
          | Inr (status, Inr body) \<Rightarrow>
              if status \<noteq> 200 then Inl (PlainError (''wrong status code, status='' @ itoa (int status) @ '', response='' @ body))
              else (case ce_json env body of
                 Inl e \<Rightarrow> Inl e
               | Inr d \<Rightarrow>
                  (case map_of d ''sub'' of
                     Some (GString s) \<Rightarrow> Inr (d, s)
                   | _ \<Rightarrow> Inl (PlainError (''missing sub property, response='' @ body))))))"

definition multiple_audiences :: "claims \<Rightarrow> bool" where
  "multiple_audiences cs = (case map_of cs ''aud'' of Some (GList l) \<Rightarrow> 1 < length l | _ \<Rightarrow> False)"

text \<open>\<open>validateIDTokenClaims\<close>: the user information, \<open>None\<close> inside where there is no endpoint.\<close>

definition validateIDTokenClaims ::
    "'k client_env \<Rightarrow> oidc_conf \<Rightarrow> ac_client_conf \<Rightarrow> claims \<Rightarrow> string \<Rightarrow> string \<Rightarrow> string \<Rightarrow> go_error + claims option" where
  "validateIDTokenClaims env oi ac cs hashed verifier token =
     (let oauth2 = error_def ''oauth2'' in
      case map_of cs ''sub'' of
        Some (GString sub) \<Rightarrow>
          (if map_of cs ''exp'' = None then Inl (err_Message ''missing exp claim in ID token'' oauth2)
           else (case map_of cs ''iat'' of
              None \<Rightarrow> Inl (err_Message ''missing iat claim in ID token'' oauth2)
            | Some (GFloat iat) \<Rightarrow>
               if multiple_audiences cs \<and> map_of cs ''azp'' = None
               then Inl (err_Message ''missing azp claim in ID token'' oauth2)
               else if map_of cs ''azp'' \<noteq> None \<and> map_of cs ''azp'' \<noteq> Some (GString (oi_client_id oi))
               then Inl (err_Message ''azp claim / client ID mismatch'' oauth2)
               else (case ac_verifier_method ac of
                  Inl e \<Rightarrow> Inl e
                | Inr method \<Rightarrow>
                   (case (if method = ''nonce'' then
                            (case map_of cs ''nonce'' of
                               Some (GString nonce) \<Rightarrow>
                                 if hashed \<noteq> nonce
                                 then Some (err_Message (''nonce mismatch: '' @ nonce @ '' (from nonce claim) vs. '' @ hashed @ '' (verifier_value: '' @ verifier @ '')'') oauth2)
                                 else None
                             | _ \<Rightarrow> Some (err_Message ''missing nonce claim in ID token'' oauth2))
                          else None) of
                      Some e \<Rightarrow> Inl e
                    | None \<Rightarrow>
                       (case oi_userinfo_endpoint oi of
                          Inl e \<Rightarrow> Inl e
                        | Inr endpoint \<Rightarrow>
                            if endpoint = [] then Inr None
                            else (case getUserinfo env endpoint token of
                               Inl e \<Rightarrow> Inl (err_With (Some e) (err_Message ''userinfo request error'' oauth2))
                             | Inr (d, subUserinfo) \<Rightarrow>
                                 if sub \<noteq> subUserinfo
                                 then Inl (err_Message (''subject mismatch, in ID token '' @ sub @ '', in userinfo response '' @ subUserinfo) oauth2)
                                 else Inr (Some d)))))
            | Some _ \<Rightarrow> Inl (err_Message ''iat claim in ID has invalid type'' oauth2)))
      | _ \<Rightarrow> Inl (err_Message ''missing sub claim in ID token'' oauth2))"

text \<open>\<open>validateTokenResponseData\<close>: the data with the claims of the token and the user information.
  \<open>parse\<close> is the parser of the client, which admits RSA and ECDSA algorithms, the client id as the
  audience and the configured issuer, with the keys of the configured key set.\<close>

definition validateTokenResponseData ::
    "(string \<Rightarrow> go_error + claims) \<Rightarrow> 'k client_env \<Rightarrow> oidc_conf \<Rightarrow> ac_client_conf \<Rightarrow> claims \<Rightarrow> string \<Rightarrow> string \<Rightarrow> string
       \<Rightarrow> go_error + claims" where
  "validateTokenResponseData parse env oi ac d hashed verifier token =
     (case map_of d ''id_token'' of
        Some (GString idt) \<Rightarrow>
          (case parse idt of
             Inl e \<Rightarrow> Inl e
           | Inr cs \<Rightarrow>
              (case validateIDTokenClaims env oi ac cs hashed verifier token of
                 Inl e \<Rightarrow> Inl e
               | Inr ui \<Rightarrow>
                  (let d1 = set_key ''id_token_claims'' (GMap (Some cs)) d in
                   Inr (case ui of None \<Rightarrow> d1 | Some u \<Rightarrow> set_key ''userinfo'' (GMap (Some u)) d1))))
      | _ \<Rightarrow> Inl (err_Message ''missing id_token in token response'' (error_def ''oauth2'')))"

definition oidc_ExchangeCode ::
    "(rat \<Rightarrow> string) \<Rightarrow> (string \<Rightarrow> go_error + string) \<Rightarrow> (string \<Rightarrow> string) \<Rightarrow> (string \<Rightarrow> go_error + claims)
       \<Rightarrow> 'k client_env \<Rightarrow> 'k client \<Rightarrow> oidc_conf \<Rightarrow> ac_client_conf \<Rightarrow> (go_error + cty) \<Rightarrow> callback \<Rightarrow> go_error + claims" where
  "oidc_ExchangeCode btext absolute hash parse env c oi ac verifier cb =
     (case exchange btext absolute hash env c ac verifier cb of
        Inl e \<Rightarrow> Inl e
      | Inr (d, hashed, v, token) \<Rightarrow>
         (case validateTokenResponseData parse env oi ac d hashed v token of
            Inl e \<Rightarrow> Inl (err_With (Some e) (err_Message ''token response validation error'' (error_def ''oauth2'')))
          | Inr d' \<Rightarrow> Inr d'))"

definition ac_ExchangeCode ::
    "(rat \<Rightarrow> string) \<Rightarrow> (string \<Rightarrow> go_error + string) \<Rightarrow> (string \<Rightarrow> string)
       \<Rightarrow> 'k client_env \<Rightarrow> 'k client \<Rightarrow> ac_client_conf \<Rightarrow> (go_error + cty) \<Rightarrow> callback \<Rightarrow> go_error + claims" where
  "ac_ExchangeCode btext absolute hash env c ac verifier cb =
     map_sum id fst (exchange btext absolute hash env c ac verifier cb)"

text \<open>The access control for the callback; \<open>flow\<close> is the exchange of one of the two clients.\<close>

definition oauth2_callback_Validate :: "string \<Rightarrow> (ac_request \<Rightarrow> go_error + claims) \<Rightarrow> control" where
  "oauth2_callback_Validate name flow req =
     (if req_method req \<noteq> ''GET''
      then (Some (err_Message (''wrong method ('' @ req_method req @ '')'') (error_def ''oauth2'')), req)
      else (case flow req of
         Inl e \<Rightarrow> (Some e, req)
       | Inr d \<Rightarrow>
          (None, req\<lparr>ctx_controls := Some ((case ctx_controls req of Some m \<Rightarrow> m | None \<Rightarrow> Map.empty)(name \<mapsto> GMap (Some d)))\<rparr>)))"

section \<open>What an accepted callback has shown\<close>

lemma exchange_accepts:
  assumes "exchange btext absolute hash env c ac verifier cb = Inr (d, hashed, v, token)"
  shows "\<exists>vm f. ac_verifier_method ac = Inr vm \<and> GetTokenResponse env c f = Inr (d, token) \<and>
     query_get (cb_query cb) ''code'' \<noteq> [] \<and> f ''code'' = Some [query_get (cb_query cb) ''code''] \<and>
     v \<noteq> [] \<and> (\<exists>w. verifier = Inr w \<and> v = trim_space (ValueToString btext w)) \<and>
     (if vm = ''ccm_s256'' then f ''code_verifier'' = Some [v]
      else hashed = hash v \<and> (vm = ''state'' \<longrightarrow> query_get (cb_query cb) ''state'' = hash v))"
  using assms
  by (auto simp: exchange_def Let_def form_set_def split: if_splits sum.splits prod.splits)

lemma validateIDTokenClaims_accepts:
  assumes "validateIDTokenClaims env oi ac cs hashed v token = Inr ui"
  shows "\<exists>sub. map_of cs ''sub'' = Some (GString sub) \<and> map_of cs ''exp'' \<noteq> None \<and> (\<exists>i. map_of cs ''iat'' = Some (GFloat i)) \<and>
     (map_of cs ''azp'' = Some (GString (oi_client_id oi)) \<or> map_of cs ''azp'' = None \<and> \<not> multiple_audiences cs) \<and>
     (ac_verifier_method ac = Inr ''nonce'' \<longrightarrow> map_of cs ''nonce'' = Some (GString hashed)) \<and>
     (case ui of None \<Rightarrow> oi_userinfo_endpoint oi = Inr [] | Some u \<Rightarrow> map_of u ''sub'' = Some (GString sub))"
proof -
  from assms obtain sub where sub: "map_of cs ''sub'' = Some (GString sub)"
    by (auto simp: validateIDTokenClaims_def Let_def split: option.splits goval.splits)
  from assms sub obtain e where e: "map_of cs ''exp'' = Some e"
    by (cases "map_of cs ''exp''") (auto simp: validateIDTokenClaims_def Let_def)
  from assms sub e obtain i where i: "map_of cs ''iat'' = Some (GFloat i)"
    by (auto simp: validateIDTokenClaims_def Let_def split: option.splits goval.splits)
  from assms sub e i have azp: "\<not> (multiple_audiences cs \<and> map_of cs ''azp'' = None)"
    "\<not> (map_of cs ''azp'' \<noteq> None \<and> map_of cs ''azp'' \<noteq> Some (GString (oi_client_id oi)))"
    by (auto simp: validateIDTokenClaims_def Let_def split: if_splits)
  from assms sub e i azp obtain vm where vm: "ac_verifier_method ac = Inr vm"
    by (cases "ac_verifier_method ac") (auto simp: validateIDTokenClaims_def Let_def)
  from assms sub e i azp vm have nonce: "vm = ''nonce'' \<Longrightarrow> map_of cs ''nonce'' = Some (GString hashed)"
    by (auto simp: validateIDTokenClaims_def Let_def split: option.splits goval.splits if_splits)
  from assms sub e i azp vm nonce obtain endpoint where endpoint: "oi_userinfo_endpoint oi = Inr endpoint"
    by (cases "oi_userinfo_endpoint oi") (auto simp: validateIDTokenClaims_def Let_def split: option.splits)
  have ui: "case ui of None \<Rightarrow> endpoint = [] | Some u \<Rightarrow> map_of u ''sub'' = Some (GString sub)"
  proof (cases "endpoint = []")
    case True
    with assms sub e i azp vm nonce endpoint show ?thesis
      by (cases "vm = ''nonce''") (auto simp: validateIDTokenClaims_def Let_def)
  next
    case False
    with assms sub e i azp vm nonce endpoint obtain u where
      "getUserinfo env endpoint token = Inr (u, sub)" "ui = Some u"
      by (cases "vm = ''nonce''") (auto simp: validateIDTokenClaims_def Let_def split: sum.splits if_splits)
    then show ?thesis
      by (auto simp: getUserinfo_def split: sum.splits prod.splits if_splits option.splits goval.splits)
  qed
  from sub e i azp vm nonce ui endpoint show ?thesis by (intro exI[of _ sub]) (auto split: option.splits)
qed

text \<open>
  Property C21: an OpenID Connect callback that is accepted had a code and a verifier; the ID token
  of the token response was accepted by the parser and names a subject, an expiry and a numeric
  time of issue, and this client as the authorised party if it names one or has several audiences;
  the verifier is bound to the exchange: its hash is the state of the callback, or the nonce of the
  ID token, or it was sent with the code, according to the configured method; and user information
  is taken over only for the subject of the ID token.
\<close>

theorem oidc_callback_accepts:
  assumes "oidc_ExchangeCode btext absolute hash parse env c oi ac verifier cb = Inr d'"
  shows "\<exists>d token f idt cs vm w v sub.
     GetTokenResponse env c f = Inr (d, token) \<and> query_get (cb_query cb) ''code'' \<noteq> [] \<and>
     f ''code'' = Some [query_get (cb_query cb) ''code''] \<and>
     verifier = Inr w \<and> v = trim_space (ValueToString btext w) \<and> v \<noteq> [] \<and>
     map_of d' ''id_token'' = Some (GString idt) \<and> parse idt = Inr cs \<and> map_of d' ''id_token_claims'' = Some (GMap (Some cs)) \<and>
     map_of cs ''sub'' = Some (GString sub) \<and> map_of cs ''exp'' \<noteq> None \<and> (\<exists>i. map_of cs ''iat'' = Some (GFloat i)) \<and>
     (map_of cs ''azp'' = Some (GString (oi_client_id oi)) \<or> map_of cs ''azp'' = None \<and> \<not> multiple_audiences cs) \<and>
     ac_verifier_method ac = Inr vm \<and>
     (vm = ''ccm_s256'' \<longrightarrow> f ''code_verifier'' = Some [v]) \<and>
     (vm = ''state'' \<longrightarrow> query_get (cb_query cb) ''state'' = hash v) \<and>
     (vm = ''nonce'' \<longrightarrow> map_of cs ''nonce'' = Some (GString (hash v))) \<and>
     (oi_userinfo_endpoint oi = Inr [] \<or> (\<exists>u. map_of d' ''userinfo'' = Some (GMap (Some u)) \<and> map_of u ''sub'' = Some (GString sub)))"
proof -
  from assms obtain d hashed v token where
    x: "exchange btext absolute hash env c ac verifier cb = Inr (d, hashed, v, token)"
    and t: "validateTokenResponseData parse env oi ac d hashed v token = Inr d'"
    by (auto simp: oidc_ExchangeCode_def split: sum.splits prod.splits)
  from t obtain idt cs ui where
    idt: "map_of d ''id_token'' = Some (GString idt)" "parse idt = Inr cs"
    and v: "validateIDTokenClaims env oi ac cs hashed v token = Inr ui"
    and d': "d' = (case ui of None \<Rightarrow> set_key ''id_token_claims'' (GMap (Some cs)) d
                  | Some u \<Rightarrow> set_key ''userinfo'' (GMap (Some u)) (set_key ''id_token_claims'' (GMap (Some cs)) d))"
    by (auto simp: validateTokenResponseData_def Let_def split: option.splits goval.splits sum.splits)
  from exchange_accepts[OF x] obtain vm f w where
    m: "ac_verifier_method ac = Inr vm" "GetTokenResponse env c f = Inr (d, token)"
    "query_get (cb_query cb) ''code'' \<noteq> []" "f ''code'' = Some [query_get (cb_query cb) ''code'']"
    "v \<noteq> []" "verifier = Inr w" "v = trim_space (ValueToString btext w)"
    and bind: "if vm = ''ccm_s256'' then f ''code_verifier'' = Some [v]
      else hashed = hash v \<and> (vm = ''state'' \<longrightarrow> query_get (cb_query cb) ''state'' = hash v)"
    by blast
  from validateIDTokenClaims_accepts[OF v] obtain sub where
    s: "map_of cs ''sub'' = Some (GString sub)" "map_of cs ''exp'' \<noteq> None" "\<exists>i. map_of cs ''iat'' = Some (GFloat i)"
    "map_of cs ''azp'' = Some (GString (oi_client_id oi)) \<or> map_of cs ''azp'' = None \<and> \<not> multiple_audiences cs"
    "ac_verifier_method ac = Inr ''nonce'' \<longrightarrow> map_of cs ''nonce'' = Some (GString hashed)"
    "case ui of None \<Rightarrow> oi_userinfo_endpoint oi = Inr [] | Some u \<Rightarrow> map_of u ''sub'' = Some (GString sub)"
    by blast
  have keys: "map_of d' ''id_token'' = Some (GString idt)" "map_of d' ''id_token_claims'' = Some (GMap (Some cs))"
    "oi_userinfo_endpoint oi = Inr [] \<or> (\<exists>u. map_of d' ''userinfo'' = Some (GMap (Some u)) \<and> map_of u ''sub'' = Some (GString sub))"
    using idt s(6) by (auto simp: d' split: option.splits)
  from bind m(1) s(5) have b: "vm = ''ccm_s256'' \<longrightarrow> f ''code_verifier'' = Some [v]"
    "vm = ''state'' \<longrightarrow> query_get (cb_query cb) ''state'' = hash v"
    "vm = ''nonce'' \<longrightarrow> map_of cs ''nonce'' = Some (GString (hash v))"
    by (auto split: if_splits)
  show ?thesis
    by (rule exI[of _ d], rule exI[of _ token], rule exI[of _ f], rule exI[of _ idt], rule exI[of _ cs],
        rule exI[of _ vm], rule exI[of _ w], rule exI[of _ v], rule exI[of _ sub])
       (intro conjI m keys s(1-4) idt(2) b)
qed

definition example_callback :: callback where
  "example_callback = \<lparr>cb_query = [''code'' \<mapsto> [''xyz''], ''state'' \<mapsto> [''#v'']], cb_raw_query = ''code=xyz&state=%23v''\<rparr>"

definition example_parser :: "string \<Rightarrow> go_error + claims" where
  "example_parser t = (if t = ''idt''
     then Inr [(''sub'', GString ''me''), (''exp'', GFloat 9), (''iat'', GFloat 1), (''azp'', GString ''a:b'')]
     else Inl (PlainError ''bad''))"

lemma oidc_callback_accepts_witness:
  "\<exists>d' cs sub. oidc_ExchangeCode (\<lambda>_. []) Inr (\<lambda>v. CHR ''#'' # v) example_parser example_env example_client
       \<lparr>oi_client_id = ''a:b'', oi_userinfo_endpoint = Inr ''https://as/ui''\<rparr>
       \<lparr>ac_redirect_uri = ''https://c/cb'', ac_verifier_method = Inr ''state''\<rparr> (Inr (CString '' v '')) example_callback = Inr d' \<and>
     map_of d' ''id_token_claims'' = Some (GMap (Some cs)) \<and> map_of cs ''sub'' = Some (GString sub) \<and>
     query_get (cb_query example_callback) ''state'' = ''#v''"
proof -
  let ?x = "oidc_ExchangeCode (\<lambda>_. []) Inr (\<lambda>v. CHR ''#'' # v) example_parser example_env example_client
       \<lparr>oi_client_id = ''a:b'', oi_userinfo_endpoint = Inr ''https://as/ui''\<rparr>
       \<lparr>ac_redirect_uri = ''https://c/cb'', ac_verifier_method = Inr ''state''\<rparr> (Inr (CString '' v '')) example_callback"
  have "\<not> isl ?x" by code_simp
  then obtain d' where d': "?x = Inr d'" by (cases ?x) auto
  have "query_get (cb_query example_callback) ''state'' = ''#v''" by code_simp
  with d' oidc_callback_accepts[OF d'] show ?thesis by blast
qed

end
