(* ===== verification/TokenAuth.thy ===== *)
theory TokenAuth
  imports OAuth2
begin

text \<open>
  Tokens for backend requests: the configuration of the \<open>oauth2\<close> block and its token in the memory
  store (\<open>handler/transport/oauth2_req_auth.go\<close>), the \<open>token_request\<close> block
  (\<open>handler/transport/token_request.go\<close>), and how a backend uses them
  (\<open>withTokenRequest\<close> and \<open>withRetryTokenRequest\<close> in \<open>handler/transport/backend.go\<close>).

  \<open>GetToken\<close> reads the store, takes the lock, reads the store again and requests a token. It is
  modelled twice: as a function of the state, for a request that runs alone, and as a step relation
  in which any number of requests interleave between their reads, the lock and the answer of the
  authorization server, while the clock runs, the collector works and others delete the token.
\<close>

section \<open>Configuration\<close>

record req_auth_conf =
  ra_GrantType :: string
  ra_Username :: string
  ra_Password :: string
  ra_Scope :: string
  ra_Assertion :: "(ac_request \<Rightarrow> go_error + cty) option"
  ra_JWTSigningProfile :: "signing_profile option"
  ra_Retries :: "8 word"

definition JwtBearer :: string where
  "JwtBearer = ''urn:ietf:params:oauth:grant-type:jwt-bearer''"

definition supportedGrantTypes :: "string list" where
  "supportedGrantTypes = [''client_credentials'', JwtBearer, ''password'']"

datatype 'k assertion_creator =
    FromExpr "ac_request \<Rightarrow> go_error + cty"
  | FromJSP "'k signing_config" claims claims

text \<open>\<open>newAssertionCreatorFromJSP\<close>; \<open>None\<close> is a panic of \<open>ValueToMap\<close>.\<close>

definition newAssertionCreatorFromJSP ::
    "(rat \<Rightarrow> rat) \<Rightarrow> 'k key_env \<Rightarrow> signing_profile \<Rightarrow> (go_error + 'k assertion_creator) option" where
  "newAssertionCreatorFromJSP f64 env jsp =
     (let eval_map = (\<lambda>v. case v of
            None \<Rightarrow> Some (Inr [])
          | Some (Inl e) \<Rightarrow> Some (Inl e)
          | Some (Inr c) \<Rightarrow> map_option Inr (ValueToMap f64 c)) in
      case NewJWTSigningConfigFromJWTSigningProfile env jsp None of
        Inl e \<Rightarrow> Some (Inl e)
      | Inr sc \<Rightarrow>
         (case eval_map (sc_Headers sc) of
            None \<Rightarrow> None
          | Some (Inl e) \<Rightarrow> Some (Inl e)
          | Some (Inr headers) \<Rightarrow>
             (case eval_map (sc_Claims sc) of
                None \<Rightarrow> None
              | Some (Inl e) \<Rightarrow> Some (Inl e)
              | Some (Inr cs) \<Rightarrow> Some (Inr (FromJSP sc headers cs)))))"

definition createAssertion ::
    "'k client_env \<Rightarrow> 'k assertion_creator \<Rightarrow> ac_request \<Rightarrow> go_error + string" where
  "createAssertion env ac req =
     (case ac of
        FromExpr expr \<Rightarrow>
          (case expr req of
             Inl e \<Rightarrow> Inl e
           | Inr v \<Rightarrow>
               if is_null v then Inl (PlainError ''assertion expression evaluates to null'')
               else (case v of CString s \<Rightarrow> Inr s
                     | _ \<Rightarrow> Inl (PlainError ''assertion expression must evaluate to a string'')))
      | FromJSP sc headers cs \<Rightarrow>
          CreateJWT (ce_method env) (ce_sign env) (sc_SignatureAlgorithm sc) (sc_Key sc)
            (set_key ''exp'' (GInt64 (ce_now env + sc_TTL sc)) cs) headers)"

record 'k req_auth =
  ra_conf :: req_auth_conf
  ra_client :: "'k client"
  ra_storageKey :: string
  ra_assertionCreator :: "'k assertion_creator option"

text \<open>\<open>NewOAuth2ReqAuth\<close>: the storage key is made of the address of the object, an argument.\<close>

definition grant_error :: "req_auth_conf \<Rightarrow> string option" where
  "grant_error c =
     (let g = ra_GrantType c in
      if g \<notin> set supportedGrantTypes then Some (''grant_type '' @ g @ '' not supported'')
      else if g = ''password'' \<and> ra_Username c = [] then Some ''username must not be empty with grant_type=password''
      else if g = ''password'' \<and> ra_Password c = [] then Some ''password must not be empty with grant_type=password''
      else if g \<noteq> ''password'' \<and> ra_Username c \<noteq> [] then Some (''username attribute must not be set with grant_type='' @ g)
      else if g \<noteq> ''password'' \<and> ra_Password c \<noteq> [] then Some (''password attribute must not be set with grant_type='' @ g)
      else if g = JwtBearer \<and> ra_Assertion c = None \<and> ra_JWTSigningProfile c = None
      then Some (''missing assertion attribute or jwt_signing_profile block with grant_type='' @ g)
      else if g \<noteq> JwtBearer \<and> ra_Assertion c \<noteq> None then Some (''assertion attribute must not be set with grant_type='' @ g)
      else None)"

definition NewOAuth2ReqAuth ::
    "(rat \<Rightarrow> rat) \<Rightarrow> 'k key_env \<Rightarrow> req_auth_conf \<Rightarrow> oauth2_conf \<Rightarrow> string \<Rightarrow> (go_error + 'k req_auth) option" where
  "NewOAuth2ReqAuth f64 env c oc addr =
     (case grant_error c of
        Some t \<Rightarrow> Some (Inl (PlainError t))
      | None \<Rightarrow>
         (case (if ra_GrantType c = JwtBearer then
                  (case ra_Assertion c of
                     Some expr \<Rightarrow> Some (Inr (Some (FromExpr expr)))
                   | None \<Rightarrow>
                      (case ra_JWTSigningProfile c of
                         None \<Rightarrow> Some (Inr None)
                       | Some jsp \<Rightarrow> map_option (map_sum id Some) (newAssertionCreatorFromJSP f64 env jsp)))
                else Some (Inr None)) of
            None \<Rightarrow> None
          | Some (Inl e) \<Rightarrow> Some (Inl e)
          | Some (Inr ac) \<Rightarrow>
             (case NewClient f64 env (ra_GrantType c) (oc\<lparr>oc_auth_required := ra_GrantType c \<noteq> JwtBearer\<rparr>) of
                None \<Rightarrow> None
              | Some (Inl e) \<Rightarrow> Some (Inl e)
              | Some (Inr cl) \<Rightarrow> Some (Inr \<lparr>ra_conf = c, ra_client = cl, ra_storageKey = ''oauth2-'' @ addr, ra_assertionCreator = ac\<rparr>))))"

section \<open>Getting a token\<close>

type_synonym tokens = "string memory_store"

definition readAccessToken :: "int \<Rightarrow> string \<Rightarrow> tokens \<Rightarrow> string" where
  "readAccessToken now key store = (case store_Get now key store of Some t \<Rightarrow> t | None \<Rightarrow> [])"

text \<open>\<open>updateAccessToken\<close>: nine tenths of the life time, without the fraction of a second; a token
  without \<open>expires_in\<close> is stored with the life time zero.\<close>

definition token_ttl :: "claims \<Rightarrow> int" where
  "token_ttl d = (case map_of d ''expires_in'' of Some (GFloat t) \<Rightarrow> int64_of_rat (t * 9 / 10) | _ \<Rightarrow> 0)"

definition updateAccessToken :: "int \<Rightarrow> string \<Rightarrow> string \<Rightarrow> claims \<Rightarrow> tokens \<Rightarrow> tokens" where
  "updateAccessToken now key token d store = store_Set now key token (token_ttl d) store"

definition token_form :: "'k client_env \<Rightarrow> 'k req_auth \<Rightarrow> ac_request \<Rightarrow> go_error + form" where
  "token_form env oa req =
     (let c = ra_conf oa in
      case (if ra_GrantType c = JwtBearer then
              (case ra_assertionCreator oa of
                 None \<Rightarrow> Inr Map.empty
               | Some ac \<Rightarrow> map_sum id (\<lambda>a. form_set ''assertion'' a Map.empty) (createAssertion env ac req))
            else Inr Map.empty) of
        Inl e \<Rightarrow> Inl e
      | Inr f \<Rightarrow>
         (let f1 = (if ra_Scope c \<noteq> [] then form_set ''scope'' (ra_Scope c) f else f) in
          Inr (if ra_Password c \<noteq> [] \<or> ra_Username c \<noteq> []
               then form_set ''password'' (ra_Password c) (form_set ''username'' (ra_Username c) f1) else f1)))"

definition oauth2_request_error :: go_error where
  "oauth2_request_error = err_Label ''oauth2'' E_Request"

text \<open>The request for a token under the lock: the response data and the token.\<close>

definition fetch_token :: "'k client_env \<Rightarrow> 'k req_auth \<Rightarrow> ac_request \<Rightarrow> go_error + claims \<times> string" where
  "fetch_token env oa req =
     (case token_form env oa req of
        Inl e \<Rightarrow> Inl (err_With (Some e) oauth2_request_error)
      | Inr f \<Rightarrow>
         (case GetTokenResponse env (ra_client oa) f of
            Inl e \<Rightarrow> Inl (err_With (Some e) (err_Message ''token request failed'' oauth2_request_error))
          | Inr r \<Rightarrow> Inr r))"

text \<open>\<open>GetToken\<close> of a request that runs alone; \<open>reads\<close> is the clock at the two reads, \<open>ce_now\<close> of the
  environment the clock at the write. The result has the error, the header and the store, and
  counts the token requests.\<close>

record token_state =
  ts_store :: tokens
  ts_header :: header
  ts_fetches :: nat

definition set_bearer :: "string \<Rightarrow> header \<Rightarrow> header" where
  "set_bearer t = h_set ''Authorization'' (''Bearer '' @ t)"

definition oauth2_GetToken ::
    "'k client_env \<Rightarrow> 'k req_auth \<Rightarrow> int \<times> int \<Rightarrow> ac_request \<Rightarrow> token_state \<Rightarrow> go_error option \<times> token_state" where
  "oauth2_GetToken env oa reads req s =
     (let t1 = readAccessToken (fst reads) (ra_storageKey oa) (ts_store s) in
      if t1 \<noteq> [] then (None, s\<lparr>ts_header := set_bearer t1 (ts_header s)\<rparr>)
      else (let t2 = readAccessToken (snd reads) (ra_storageKey oa) (ts_store s) in
        if t2 \<noteq> [] then (None, s\<lparr>ts_header := set_bearer t2 (ts_header s)\<rparr>)
        else (case fetch_token env oa req of
           Inl e \<Rightarrow> (Some e, s\<lparr>ts_fetches := ts_fetches s + 1\<rparr>)
         | Inr (d, token) \<Rightarrow>
             (None, \<lparr>ts_store = updateAccessToken (ce_now env) (ra_storageKey oa) token d (ts_store s),
                     ts_header = set_bearer token (ts_header s), ts_fetches = ts_fetches s + 1\<rparr>))))"

text \<open>\<open>RetryWithToken\<close>: the status is that of the response, if there is one, and the counter of retries
  belongs to the request.\<close>

definition RetryWithToken ::
    "'k client_env \<Rightarrow> 'k req_auth \<Rightarrow> int \<times> int \<Rightarrow> ac_request \<Rightarrow> nat option \<Rightarrow> 8 word \<Rightarrow> token_state
       \<Rightarrow> (bool \<times> go_error option) \<times> 8 word \<times> token_state" where
  "RetryWithToken env oa reads req status retries s =
     (if status \<noteq> Some 401 then ((False, None), retries, s)
      else (let s1 = s\<lparr>ts_store := store_Del (ra_storageKey oa) (ts_store s)\<rparr> in
        if retries < ra_Retries (ra_conf oa) then
          (case oauth2_GetToken env oa reads req (s1\<lparr>ts_header := h_del ''Authorization'' (ts_header s1)\<rparr>) of
             (err, s2) \<Rightarrow> ((True, err), retries + 1, s2))
        else ((False, None), retries, s1)))"

section \<open>The token request block\<close>

text \<open>The outcome of the producer that sends the request, and the values of the expressions \<open>token\<close> and
  \<open>ttl\<close> over its response.\<close>

record token_request =
  trq_name :: string
  trq_storageKey :: string
  trq_produce :: "go_error option"
  trq_token :: "go_error + cty"
  trq_ttl :: "go_error + cty"

definition NewTokenRequest :: "string \<Rightarrow> go_error option \<Rightarrow> (go_error + cty) \<Rightarrow> (go_error + cty) \<Rightarrow> string \<Rightarrow> token_request" where
  "NewTokenRequest name produce token ttl addr =
     \<lparr>trq_name = name, trq_storageKey = ''TokenRequest-'' @ addr, trq_produce = produce, trq_token = token, trq_ttl = ttl\<rparr>"

definition string_expression :: "string \<Rightarrow> (go_error + cty) \<Rightarrow> go_error + string" where
  "string_expression name v =
     (case v of
        Inl e \<Rightarrow> Inl e
      | Inr c \<Rightarrow>
          if is_null c then Inl (PlainError (name @ '' expression evaluates to null''))
          else (case c of CString s \<Rightarrow> Inr s
                | _ \<Rightarrow> Inl (PlainError (name @ '' expression must evaluate to a string''))))"

definition config_duration_text :: "config_duration_error \<Rightarrow> string" where
  "config_duration_text e =
     (case e of
        DurationSyntax a d \<Rightarrow> a @ '': '' @ duration_error_text d
      | DurationNegative a v \<Rightarrow> a @ '': cannot be negative: '' @ [CHR 0x27] @ v @ [CHR 0x27])"

definition requestToken :: "token_request \<Rightarrow> go_error + string \<times> int" where
  "requestToken t =
     (case trq_produce t of
        Some e \<Rightarrow> Inl e
      | None \<Rightarrow>
         (case string_expression ''token'' (trq_token t) of
            Inl e \<Rightarrow> Inl e
          | Inr token \<Rightarrow>
             (case string_expression ''ttl'' (trq_ttl t) of
                Inl e \<Rightarrow> Inl e
              | Inr ttl \<Rightarrow>
                 (case ParseDuration ''ttl'' ttl 0 of
                    Inl e \<Rightarrow> Inl (PlainError (config_duration_text e))
                  | Inr d \<Rightarrow> Inr (token, duration_seconds d)))))"

definition tr_GetToken :: "int \<Rightarrow> int \<times> int \<Rightarrow> token_request \<Rightarrow> token_state \<Rightarrow> go_error option \<times> token_state" where
  "tr_GetToken now reads t s =
     (if readAccessToken (fst reads) (trq_storageKey t) (ts_store s) \<noteq> [] then (None, s)
      else if readAccessToken (snd reads) (trq_storageKey t) (ts_store s) \<noteq> [] then (None, s)
      else (case requestToken t of
         Inl e \<Rightarrow> (Some (err_With (Some e) (err_Message ''token request failed'' (err_Label (trq_name t) E_Request))),
                   s\<lparr>ts_fetches := ts_fetches s + 1\<rparr>)
       | Inr (token, ttl) \<Rightarrow>
           (None, s\<lparr>ts_store := store_Set now (trq_storageKey t) token ttl (ts_store s), ts_fetches := ts_fetches s + 1\<rparr>)))"

section \<open>The backend\<close>

datatype 'k authorizer = OAuth2Auth "'k req_auth" | TokenRequestAuth token_request

text \<open>The two implementations of the interface, at one reading of the clock.\<close>

definition GetToken :: "'k client_env \<Rightarrow> ac_request \<Rightarrow> 'k authorizer \<Rightarrow> token_state \<Rightarrow> go_error option \<times> token_state" where
  "GetToken env req ra s =
     (case ra of
        OAuth2Auth oa \<Rightarrow> oauth2_GetToken env oa (ce_now env, ce_now env) req s
      | TokenRequestAuth t \<Rightarrow> tr_GetToken (ce_now env) (ce_now env, ce_now env) t s)"

fun get_tokens :: "'k client_env \<Rightarrow> ac_request \<Rightarrow> 'k authorizer list \<Rightarrow> token_state \<Rightarrow> go_error option \<times> token_state" where
  "get_tokens env req [] s = (None, s)"
| "get_tokens env req (ra # ras) s =
     (case GetToken env req ra s of
        (Some e, s') \<Rightarrow> (Some e, s')
      | (None, s') \<Rightarrow> get_tokens env req ras s')"

text \<open>\<open>withTokenRequest\<close>: every authorizer gets its token in turn, and each of them once more in a
  goroutine of its own. The model runs the goroutines after the loop in the given order; the first
  error ends the wait for the others.\<close>

definition withTokenRequest ::
    "'k client_env \<Rightarrow> ac_request \<Rightarrow> 'k authorizer list \<Rightarrow> 'k authorizer list \<Rightarrow> token_state \<Rightarrow> go_error option \<times> token_state" where
  "withTokenRequest env req ras order s =
     (case get_tokens env req ras s of
        (Some e, s') \<Rightarrow> (Some e, s')
      | (None, s') \<Rightarrow> get_tokens env req order s')"

fun withRetryTokenRequest ::
    "'k client_env \<Rightarrow> ac_request \<Rightarrow> 'k authorizer list \<Rightarrow> nat option \<Rightarrow> 8 word \<Rightarrow> token_state
       \<Rightarrow> (bool \<times> go_error option) \<times> 8 word \<times> token_state" where
  "withRetryTokenRequest env req [] status retries s = ((False, None), retries, s)"
| "withRetryTokenRequest env req (ra # ras) status retries s =
     (case ra of
        TokenRequestAuth t \<Rightarrow> withRetryTokenRequest env req ras status retries s
      | OAuth2Auth oa \<Rightarrow>
         (case RetryWithToken env oa (ce_now env, ce_now env) req status retries s of
            ((r, Some e), rt, s') \<Rightarrow> ((False, Some e), rt, s')
          | ((True, None), rt, s') \<Rightarrow> ((True, None), rt, s')
          | ((False, None), rt, s') \<Rightarrow> withRetryTokenRequest env req ras status rt s'))"

text \<open>The round trips of one backend request: the statuses that the origin answers, in order. The
  counter of retries is kept from one round trip to the next; the result has the statuses left.\<close>

fun round_trips ::
    "'k client_env \<Rightarrow> ac_request \<Rightarrow> 'k authorizer list \<Rightarrow> nat list \<Rightarrow> 8 word \<Rightarrow> token_state
       \<Rightarrow> (go_error option \<times> nat list \<times> 8 word \<times> token_state)" where
  "round_trips env req ras [] retries s = (None, [], retries, s)"
| "round_trips env req ras (st # sts) retries s =
     (case withTokenRequest env req ras ras s of
        (Some e, s1) \<Rightarrow> (Some e, st # sts, retries, s1)
      | (None, s1) \<Rightarrow>
         (case withRetryTokenRequest env req ras (Some st) retries s1 of
            ((_, Some e), rt, s2) \<Rightarrow> (Some e, sts, rt, s2)
          | ((True, None), rt, s2) \<Rightarrow> round_trips env req ras sts rt s2
          | ((False, None), rt, s2) \<Rightarrow> (None, sts, rt, s2)))"

section \<open>Retries\<close>

text \<open>The largest number of retries that an authorizer of a backend allows.\<close>

fun retry_limit :: "'k authorizer list \<Rightarrow> nat" where
  "retry_limit [] = 0"
| "retry_limit (OAuth2Auth oa # ras) = max (unat (ra_Retries (ra_conf oa))) (retry_limit ras)"
| "retry_limit (TokenRequestAuth t # ras) = retry_limit ras"

lemma RetryWithToken_count:
  assumes "RetryWithToken env oa reads req status rt s = ((r, e), rt', s')"
  shows "if r then status = Some 401 \<and> unat rt' = unat rt + 1 \<and> unat rt' \<le> unat (ra_Retries (ra_conf oa))
         else rt' = rt \<and> e = None"
proof (cases r)
  case True
  with assms have *: "status = Some 401" "rt < ra_Retries (ra_conf oa)" "rt' = rt + 1"
    by (auto simp: RetryWithToken_def Let_def split: if_splits prod.splits)
  then have "unat rt < unat (ra_Retries (ra_conf oa))" "unat (ra_Retries (ra_conf oa)) < 2 ^ 8"
    using unsigned_less[of "ra_Retries (ra_conf oa)"] by (simp_all add: word_less_nat_alt)
  with * True show ?thesis by (simp add: unat_word_ariths)
next
  case False
  with assms show ?thesis
    by (auto simp: RetryWithToken_def Let_def split: if_splits prod.splits)
qed

lemma withRetry_count:
  assumes "withRetryTokenRequest env req ras status rt s = ((r, e), rt', s')"
  shows "if r then status = Some 401 \<and> unat rt' = unat rt + 1 \<and> unat rt' \<le> retry_limit ras
         else unat rt' \<le> max (unat rt) (retry_limit ras) \<and> unat rt \<le> unat rt' \<and> unat rt' \<le> unat rt + 1"
  using assms
proof (induction env req ras status rt s rule: withRetryTokenRequest.induct)
  case (1 env req status retries s)
  then show ?case by auto
next
  case (2 env req ra ras status rt s)
  show ?case
  proof (cases ra)
    case (TokenRequestAuth t)
    with "2.prems" "2.IH"(2)[OF TokenRequestAuth] show ?thesis by (cases r) simp_all
  next
    case (OAuth2Auth oa)
    obtain r1 e1 rt1 s1 where step:
      "RetryWithToken env oa (ce_now env, ce_now env) req status rt s = ((r1, e1), rt1, s1)"
      by (metis prod.exhaust)
    note count = RetryWithToken_count[OF step]
    show ?thesis
    proof (cases e1)
      case (Some x)
      with "2.prems" OAuth2Auth step count show ?thesis by (auto split: if_splits)
    next
      case None
      show ?thesis
      proof (cases r1)
        case True
        with "2.prems" OAuth2Auth step count None show ?thesis by auto
      next
        case False
        with count have "rt1 = rt" by simp
        with "2.prems" OAuth2Auth step None False
        have rec: "withRetryTokenRequest env req ras status rt1 s1 = ((r, e), rt', s')" by simp
        from "2.IH"(1)[OF OAuth2Auth step[symmetric] refl _ _ refl rec] None False \<open>rt1 = rt\<close> OAuth2Auth
        show ?thesis by (cases r) auto
      qed
    qed
  qed
qed

lemma round_trips_count:
  assumes "round_trips env req ras sts r0 s = (e, left, rt, s')"
  shows "length sts - length left \<le> unat rt - unat r0 + 1 \<and> unat r0 \<le> unat rt \<and>
         unat rt \<le> max (unat r0) (retry_limit ras)"
  using assms
proof (induction sts arbitrary: r0 s)
  case Nil
  then show ?case by simp
next
  case (Cons st sts)
  obtain e1 s1 where w: "withTokenRequest env req ras ras s = (e1, s1)" by (metis prod.exhaust)
  obtain r e2 rt1 s2 where y: "withRetryTokenRequest env req ras (Some st) r0 s1 = ((r, e2), rt1, s2)"
    by (metis prod.exhaust)
  note count = withRetry_count[OF y]
  show ?case
  proof (cases "e1 = None \<and> r \<and> e2 = None")
    case True
    with Cons.prems w y have "round_trips env req ras sts rt1 s2 = (e, left, rt, s')" by simp
    from Cons.IH[OF this] count True show ?thesis by auto
  next
    case False
    with Cons.prems w y count show ?thesis
      by (cases e1; cases e2; cases r) auto
  qed
qed

text \<open>
  A backend request starts at most one round trip more than the largest number of
  retries of its authorizers, whatever the origin and the authorization servers answer; the 8 bit
  counter does not wrap, and it ends at most at that number.
\<close>

theorem retries_bounded:
  "case round_trips env req ras sts 0 s of (e, left, rt, s') \<Rightarrow>
     length sts - length left \<le> retry_limit ras + 1 \<and> unat rt \<le> retry_limit ras"
proof -
  obtain e left rt s' where run: "round_trips env req ras sts 0 s = (e, left, rt, s')" by (metis prod.exhaust)
  from round_trips_count[OF run] run show ?thesis by simp
qed

section \<open>A token without a life time\<close>

lemma clamp_ttl_pos: "0 < clamp_ttl ttl \<longleftrightarrow> 0 < ttl"
  by (simp add: clamp_ttl_def maxExpiresIn_def)

lemma read_after_update:
  "store_inv db \<Longrightarrow> readAccessToken now k (updateAccessToken now k t d db) = (if 0 < token_ttl d then t else [])"
  by (simp add: readAccessToken_def updateAccessToken_def store_get_set clamp_ttl_pos)

lemma GetToken_fetches:
  assumes "readAccessToken now k (ts_store s) = []" "fetch_token env oa req = Inr (d, t)"
    and "k = ra_storageKey oa" "now = ce_now env"
  shows "oauth2_GetToken env oa (now, now) req s =
     (None, \<lparr>ts_store = updateAccessToken now k t d (ts_store s), ts_header = set_bearer t (ts_header s),
             ts_fetches = ts_fetches s + 1\<rparr>)"
  using assms by (simp add: oauth2_GetToken_def)

lemma GetToken_reads:
  assumes "readAccessToken now (ra_storageKey oa) (ts_store s) \<noteq> []"
  shows "oauth2_GetToken env oa (now, now) req s =
     (None, s\<lparr>ts_header := set_bearer (readAccessToken now (ra_storageKey oa) (ts_store s)) (ts_header s)\<rparr>)"
  using assms by (simp add: oauth2_GetToken_def Let_def)

text \<open>
  A backend with one \<open>oauth2\<close> block and no token in the store asks the authorization
  server once for a request to the origin if the answer has a life time, and twice if it has none
  (a token without \<open>expires_in\<close> is legal): the loop of \<open>withTokenRequest\<close> gets the token, and the
  goroutine it starts gets it again. Either way the request carries the token.
\<close>

theorem token_without_life_time_requested_twice:
  assumes "store_inv (ts_store s)" "readAccessToken (ce_now env) (ra_storageKey oa) (ts_store s) = []"
    and "fetch_token env oa req = Inr (d, t)" "t \<noteq> []"
  shows "case withTokenRequest env req [OAuth2Auth oa] [OAuth2Auth oa] s of (e, s') \<Rightarrow>
     e = None \<and> ts_fetches s' = ts_fetches s + (if 0 < token_ttl d then 1 else 2) \<and>
     h_get (ts_header s') ''Authorization'' = ''Bearer '' @ t"
proof -
  let ?s1 = "\<lparr>ts_store = updateAccessToken (ce_now env) (ra_storageKey oa) t d (ts_store s),
      ts_header = set_bearer t (ts_header s), ts_fetches = ts_fetches s + 1\<rparr>"
  have first: "oauth2_GetToken env oa (ce_now env, ce_now env) req s = (None, ?s1)"
    by (rule GetToken_fetches) (simp_all add: assms)
  have read: "readAccessToken (ce_now env) (ra_storageKey oa) (ts_store ?s1) = (if 0 < token_ttl d then t else [])"
    by (simp add: read_after_update assms(1))
  show ?thesis
  proof (cases "0 < token_ttl d")
    case True
    with read assms(4) GetToken_reads[of "ce_now env" oa ?s1 env req] show ?thesis
      by (simp add: withTokenRequest_def GetToken_def first set_bearer_def h_get_set)
  next
    case False
    with read GetToken_fetches[of "ce_now env" "ra_storageKey oa" ?s1 env oa req d t] assms(3) show ?thesis
      by (simp add: withTokenRequest_def GetToken_def first set_bearer_def h_get_set)
  qed
qed

definition example_oauth2 :: "nat req_auth" where
  "example_oauth2 =
     \<lparr>ra_conf = \<lparr>ra_GrantType = ''client_credentials'', ra_Username = [], ra_Password = [], ra_Scope = ''read'',
        ra_Assertion = None, ra_JWTSigningProfile = None, ra_Retries = 1\<rparr>,
      ra_client = example_client, ra_storageKey = ''oauth2-1'', ra_assertionCreator = None\<rparr>"

lemma example_fetch:
  "fetch_token example_env example_oauth2 req =
     Inr ([(''access_token'', GString ''at''), (''id_token'', GString ''idt'')], ''at'')"
  by (simp add: fetch_token_def token_form_def example_oauth2_def example_env_def example_client_def GetTokenResponse_def
      newTokenRequest_def authenticateClient_def parseTokenResponse_def string_claim_def Let_def JwtBearer_def)

lemma token_without_life_time_requested_twice_witness:
  "\<forall>req. ts_fetches (snd (withTokenRequest example_env req [OAuth2Auth example_oauth2] [OAuth2Auth example_oauth2]
      \<lparr>ts_store = NewStore, ts_header = Map.empty, ts_fetches = 0\<rparr>)) = 2"
proof
  fix req
  show "ts_fetches (snd (withTokenRequest example_env req [OAuth2Auth example_oauth2] [OAuth2Auth example_oauth2]
      \<lparr>ts_store = NewStore, ts_header = Map.empty, ts_fetches = 0\<rparr>)) = 2"
    using token_without_life_time_requested_twice[OF _ _ example_fetch,
        of "\<lparr>ts_store = NewStore, ts_header = Map.empty, ts_fetches = 0\<rparr>" req]
    by (simp add: store_inv_def NewStore_def readAccessToken_def store_Get_def token_ttl_def split: prod.splits)
qed

section \<open>Concurrent requests\<close>

text \<open>The phases of one request in \<open>GetToken\<close>: before the first read, waiting for the lock after a
  miss, under the lock before the second read, waiting for the answer, done.\<close>

datatype phase = Start | Waiting | Locked | Fetching | Authorized string | Failed

text \<open>\<open>cg_requested\<close> counts the token requests sent, \<open>cg_unusable\<close> those that gave no readable token and
  \<open>cg_lost\<close> the readable tokens that expired or were deleted; the code does not have the counters.\<close>

record conc =
  cg_now :: int
  cg_store :: tokens
  cg_holder :: "nat option"
  cg_phase :: "nat \<Rightarrow> phase"
  cg_requested :: nat
  cg_unusable :: nat
  cg_lost :: nat

definition conc_read :: "string \<Rightarrow> conc \<Rightarrow> string" where
  "conc_read key s = readAccessToken (cg_now s) key (cg_store s)"

definition conc_init :: "int \<Rightarrow> conc" where
  "conc_init now = \<lparr>cg_now = now, cg_store = NewStore, cg_holder = None, cg_phase = \<lambda>i. Start,
     cg_requested = 0, cg_unusable = 0, cg_lost = 0\<rparr>"

definition goto_phase :: "nat \<Rightarrow> phase \<Rightarrow> conc \<Rightarrow> conc" where
  "goto_phase i p s = s\<lparr>cg_phase := (cg_phase s)(i := p)\<rparr>"

text \<open>The environment changes the clock or the store: a token that was readable may be lost.\<close>

definition env_change :: "string \<Rightarrow> int \<Rightarrow> tokens \<Rightarrow> conc \<Rightarrow> conc" where
  "env_change key now db s =
     s\<lparr>cg_now := now, cg_store := db,
       cg_lost := cg_lost s + (if conc_read key s \<noteq> [] \<and> readAccessToken now key db = [] then 1 else 0)\<rparr>"

definition answered :: "string \<Rightarrow> nat \<Rightarrow> string \<Rightarrow> claims \<Rightarrow> conc \<Rightarrow> conc" where
  "answered key i token d s =
     (let db = updateAccessToken (cg_now s) key token d (cg_store s) in
      (goto_phase i (Authorized token) s)\<lparr>cg_store := db, cg_holder := None,
        cg_unusable := cg_unusable s + (if readAccessToken (cg_now s) key db = [] then 1 else 0)\<rparr>)"

inductive token_step :: "string \<Rightarrow> conc \<Rightarrow> conc \<Rightarrow> bool" for key where
  hit1: "cg_phase s i = Start \<Longrightarrow> conc_read key s \<noteq> [] \<Longrightarrow> token_step key s (goto_phase i (Authorized (conc_read key s)) s)"
| miss1: "cg_phase s i = Start \<Longrightarrow> conc_read key s = [] \<Longrightarrow> token_step key s (goto_phase i Waiting s)"
| acquire: "cg_phase s i = Waiting \<Longrightarrow> cg_holder s = None \<Longrightarrow>
    token_step key s ((goto_phase i Locked s)\<lparr>cg_holder := Some i\<rparr>)"
| hit2: "cg_phase s i = Locked \<Longrightarrow> conc_read key s \<noteq> [] \<Longrightarrow>
    token_step key s ((goto_phase i (Authorized (conc_read key s)) s)\<lparr>cg_holder := None\<rparr>)"
| miss2: "cg_phase s i = Locked \<Longrightarrow> conc_read key s = [] \<Longrightarrow>
    token_step key s ((goto_phase i Fetching s)\<lparr>cg_requested := cg_requested s + 1\<rparr>)"
| answer: "cg_phase s i = Fetching \<Longrightarrow> token_step key s (answered key i token d s)"
| failure: "cg_phase s i = Fetching \<Longrightarrow>
    token_step key s ((goto_phase i Failed s)\<lparr>cg_holder := None, cg_unusable := cg_unusable s + 1\<rparr>)"
| clock: "cg_now s \<le> now \<Longrightarrow> token_step key s (env_change key now (cg_store s) s)"
| collect: "now \<le> cg_now s \<Longrightarrow> token_step key s (env_change key (cg_now s) (store_gc now (cg_store s)) s)"
| delete: "token_step key s (env_change key (cg_now s) (store_Del k (cg_store s)) s)"
| other_key: "k \<noteq> key \<Longrightarrow> token_step key s (env_change key (cg_now s) (store_Set now k v ttl (cg_store s)) s)"

inductive token_reach :: "string \<Rightarrow> int \<Rightarrow> conc \<Rightarrow> bool" for key start where
  init: "token_reach key start (conc_init start)"
| step: "token_reach key start s \<Longrightarrow> token_step key s s' \<Longrightarrow> token_reach key start s'"

inductive_cases token_stepE: "token_step key s s'"

definition conc_fetching :: "conc \<Rightarrow> bool" where
  "conc_fetching s \<longleftrightarrow> (case cg_holder s of None \<Rightarrow> False | Some i \<Rightarrow> cg_phase s i = Fetching)"

definition lock_inv :: "conc \<Rightarrow> bool" where
  "lock_inv s \<longleftrightarrow> (\<forall>i. cg_phase s i \<in> {Locked, Fetching} \<longleftrightarrow> cg_holder s = Some i)"

definition conc_inv :: "string \<Rightarrow> conc \<Rightarrow> bool" where
  "conc_inv key s \<longleftrightarrow> store_inv (cg_store s) \<and> lock_inv s \<and> (conc_fetching s \<longrightarrow> conc_read key s = []) \<and>
     cg_requested s = cg_unusable s + cg_lost s + (if conc_read key s \<noteq> [] then 1 else 0) + (if conc_fetching s then 1 else 0)"

lemmas conc_simps = goto_phase_def conc_fetching_def conc_read_def lock_inv_def

lemma env_change_inv:
  assumes "conc_inv key s" "store_inv db" "conc_read key s = [] \<Longrightarrow> readAccessToken now key db = []"
  shows "conc_inv key (env_change key now db s)"
  using assms by (cases "conc_read key s = []") (auto simp: conc_inv_def env_change_def conc_simps split: option.splits)

lemma read_later:
  "now \<le> now' \<Longrightarrow> readAccessToken now k db = [] \<Longrightarrow> readAccessToken now' k db = []"
  by (auto simp: readAccessToken_def store_Get_def split: option.splits if_splits)

lemma environment_inv:
  assumes "conc_inv key s"
  shows "cg_now s \<le> now \<Longrightarrow> conc_inv key (env_change key now (cg_store s) s)"
    and "now \<le> cg_now s \<Longrightarrow> conc_inv key (env_change key (cg_now s) (store_gc now (cg_store s)) s)"
    and "conc_inv key (env_change key (cg_now s) (store_Del k (cg_store s)) s)"
    and "k \<noteq> key \<Longrightarrow> conc_inv key (env_change key (cg_now s) (store_Set now k v ttl (cg_store s)) s)"
proof -
  have db: "store_inv (cg_store s)" using assms by (simp add: conc_inv_def)
  show "cg_now s \<le> now \<Longrightarrow> conc_inv key (env_change key now (cg_store s) s)"
    by (rule env_change_inv[OF assms db]) (simp add: conc_read_def read_later)
  show "now \<le> cg_now s \<Longrightarrow> conc_inv key (env_change key (cg_now s) (store_gc now (cg_store s)) s)"
    by (rule env_change_inv[OF assms]) (simp_all add: db store_inv_ops conc_read_def readAccessToken_def store.get_gc)
  show "conc_inv key (env_change key (cg_now s) (store_Del k (cg_store s)) s)"
    by (rule env_change_inv[OF assms]) (simp_all add: db store_inv_ops conc_read_def readAccessToken_def store.get_del)
  show "k \<noteq> key \<Longrightarrow> conc_inv key (env_change key (cg_now s) (store_Set now k v ttl (cg_store s)) s)"
    by (rule env_change_inv[OF assms]) (simp_all add: db store_inv_ops conc_read_def readAccessToken_def store.get_set)
qed

lemma lock_holder:
  "lock_inv s \<Longrightarrow> cg_phase s i = Locked \<Longrightarrow> cg_holder s = Some i"
  "lock_inv s \<Longrightarrow> cg_phase s i = Fetching \<Longrightarrow> cg_holder s = Some i"
  "lock_inv s \<Longrightarrow> cg_holder s = Some i \<Longrightarrow> cg_phase s i = Locked \<or> cg_phase s i = Fetching"
  by (auto simp: lock_inv_def)

lemma lock_moves:
  "lock_inv s \<Longrightarrow> cg_phase s i = Start \<Longrightarrow> p \<noteq> Locked \<Longrightarrow> p \<noteq> Fetching \<Longrightarrow> lock_inv (goto_phase i p s)"
  "lock_inv s \<Longrightarrow> cg_holder s = None \<Longrightarrow> lock_inv ((goto_phase i Locked s)\<lparr>cg_holder := Some i\<rparr>)"
  "lock_inv s \<Longrightarrow> cg_holder s = Some i \<Longrightarrow> p \<noteq> Locked \<Longrightarrow> p \<noteq> Fetching \<Longrightarrow>
     lock_inv ((goto_phase i p s)\<lparr>cg_holder := None\<rparr>)"
  "lock_inv s \<Longrightarrow> cg_holder s = Some i \<Longrightarrow> lock_inv (goto_phase i Fetching s)"
  using lock_holder(3)[of s i] by (auto simp: lock_inv_def goto_phase_def)

lemma lock_inv_counters [simp]:
  "lock_inv (s\<lparr>cg_requested := n\<rparr>) = lock_inv s" "lock_inv (s\<lparr>cg_unusable := n\<rparr>) = lock_inv s"
  "lock_inv (s\<lparr>cg_store := db\<rparr>) = lock_inv s"
  by (simp_all add: lock_inv_def)

lemma not_fetching:
  "lock_inv s \<Longrightarrow> cg_phase s i = Start \<Longrightarrow> conc_fetching (goto_phase i p s) = conc_fetching s"
  using lock_holder(3)[of s i] by (auto simp: goto_phase_def conc_fetching_def split: option.splits)

lemma goto_free:
  assumes "conc_inv key s" "cg_phase s i = Start" "p \<noteq> Locked" "p \<noteq> Fetching"
  shows "conc_inv key (goto_phase i p s)"
proof -
  have "lock_inv s" using assms(1) by (simp add: conc_inv_def)
  from not_fetching[OF this assms(2)] lock_moves(1)[OF this assms(2-)] assms(1) show ?thesis
    by (simp add: conc_inv_def) (auto simp: goto_phase_def conc_read_def)
qed

lemma acquire_inv:
  assumes "conc_inv key s" "cg_phase s i = Waiting" "cg_holder s = None"
  shows "conc_inv key ((goto_phase i Locked s)\<lparr>cg_holder := Some i\<rparr>)"
proof -
  have "lock_inv s" using assms(1) by (simp add: conc_inv_def)
  from lock_moves(2)[OF this assms(3)] assms show ?thesis
    by (simp add: conc_inv_def) (simp add: goto_phase_def conc_read_def conc_fetching_def)
qed

lemma release_locked_inv:
  assumes "conc_inv key s" "cg_phase s i = Locked"
  shows "conc_inv key ((goto_phase i (Authorized t) s)\<lparr>cg_holder := None\<rparr>)"
proof -
  have l: "lock_inv s" using assms(1) by (simp add: conc_inv_def)
  note h = lock_holder(1)[OF l assms(2)]
  from lock_moves(3)[OF l h, of "Authorized t"] h assms show ?thesis
    by (simp add: conc_inv_def) (simp add: goto_phase_def conc_read_def conc_fetching_def)
qed

lemma start_fetch_inv:
  assumes "conc_inv key s" "cg_phase s i = Locked" "conc_read key s = []"
  shows "conc_inv key ((goto_phase i Fetching s)\<lparr>cg_requested := Suc (cg_requested s)\<rparr>)"
proof -
  have l: "lock_inv s" using assms(1) by (simp add: conc_inv_def)
  note h = lock_holder(1)[OF l assms(2)]
  from lock_moves(4)[OF l h] h assms show ?thesis
    by (simp add: conc_inv_def) (simp add: goto_phase_def conc_read_def conc_fetching_def)
qed

lemma fetching_state:
  assumes "conc_inv key s" "cg_phase s i = Fetching"
  shows "cg_holder s = Some i" "conc_fetching s" "conc_read key s = []"
    "cg_requested s = cg_unusable s + cg_lost s + 1"
  using assms lock_holder(2)[of s i] by (auto simp: conc_inv_def conc_fetching_def)

lemma answered_inv:
  assumes "conc_inv key s" "cg_phase s i = Fetching"
  shows "conc_inv key (answered key i token d s)"
proof -
  have l: "lock_inv s" and db: "store_inv (cg_store s)" using assms(1) by (simp_all add: conc_inv_def)
  have "store_inv (updateAccessToken (cg_now s) key token d (cg_store s))"
    using db by (simp add: updateAccessToken_def store_inv_ops)
  moreover have "lock_inv (answered key i token d s)"
    using lock_moves(3)[OF l fetching_state(1)[OF assms], of "Authorized token"]
    by (simp add: answered_def Let_def lock_inv_def goto_phase_def)
  ultimately show ?thesis
    using fetching_state(4)[OF assms]
    by (simp add: conc_inv_def) (simp add: answered_def Let_def conc_fetching_def conc_read_def goto_phase_def)
qed

lemma failure_inv:
  assumes "conc_inv key s" "cg_phase s i = Fetching"
  shows "conc_inv key ((goto_phase i Failed s)\<lparr>cg_holder := None, cg_unusable := Suc (cg_unusable s)\<rparr>)"
proof -
  have l: "lock_inv s" using assms(1) by (simp add: conc_inv_def)
  from lock_moves(3)[OF l fetching_state(1)[OF assms], of Failed] fetching_state[OF assms] assms show ?thesis
    by (simp add: conc_inv_def) (simp add: goto_phase_def conc_read_def conc_fetching_def)
qed

lemma step_inv:
  assumes "token_step key s s'" "conc_inv key s"
  shows "conc_inv key s'"
  using assms(1)
  by (rule token_stepE)
    (auto simp: assms(2) goto_free acquire_inv release_locked_inv start_fetch_inv answered_inv failure_inv environment_inv)

lemma reach_inv: "token_reach key start s \<Longrightarrow> conc_inv key s"
proof (induction rule: token_reach.induct)
  case init
  show ?case by (simp add: conc_inv_def conc_init_def store_inv_def NewStore_def conc_simps readAccessToken_def store_Get_def)
next
  case (step s s')
  then show ?case by (rule_tac step_inv)
qed

text \<open>
  Property C6: however requests interleave, with the clock, the collector and deletions, every token
  request but the one in flight is paid for: it failed, or its token was not readable, or the token
  was lost since, or it is the token that is readable now. So no request is sent while a token is
  readable, however many requests miss the store at once, and the lock lets one through at a time.
\<close>

theorem token_requests_accounted:
  assumes "token_reach key start s"
  shows "cg_requested s = cg_unusable s + cg_lost s + (if conc_read key s \<noteq> [] then 1 else 0) + (if conc_fetching s then 1 else 0)
     \<and> \<not> (conc_fetching s \<and> conc_read key s \<noteq> [])
     \<and> {i. cg_phase s i = Fetching} = (if conc_fetching s then {the (cg_holder s)} else {})"
proof -
  have inv: "conc_inv key s" by (rule reach_inv[OF assms])
  have "cg_phase s i = Fetching \<Longrightarrow> conc_fetching s \<and> i = the (cg_holder s)" for i
    using fetching_state(1,2)[OF inv] by simp
  moreover have "conc_fetching s \<Longrightarrow> cg_phase s (the (cg_holder s)) = Fetching"
    by (simp add: conc_fetching_def split: option.splits)
  ultimately have "{i. cg_phase s i = Fetching} = (if conc_fetching s then {the (cg_holder s)} else {})" by auto
  with inv show ?thesis by (simp add: conc_inv_def)
qed

text \<open>Two requests miss the store; the first one gets a token that lives, the second one finds it.\<close>

definition example_answer :: claims where
  "example_answer = [(''access_token'', GString ''at''), (''expires_in'', GFloat 60)]"

definition example_run :: conc where
  "example_run =
     (let s1 = goto_phase 0 Waiting (conc_init 0); s2 = goto_phase 1 Waiting s1;
          s3 = (goto_phase 0 Locked s2)\<lparr>cg_holder := Some 0\<rparr>;
          s4 = (goto_phase 0 Fetching s3)\<lparr>cg_requested := cg_requested s3 + 1\<rparr>;
          s5 = answered ''k'' 0 ''at'' example_answer s4;
          s6 = (goto_phase 1 Locked s5)\<lparr>cg_holder := Some 1\<rparr> in
      (goto_phase 1 (Authorized (conc_read ''k'' s6)) s6)\<lparr>cg_holder := None\<rparr>)"

lemma example_ttl: "clamp_ttl (token_ttl example_answer) = 54"
  by (simp add: token_ttl_def example_answer_def int64_of_rat_def clamp_ttl_def maxExpiresIn_def max_int64_def)

lemma example_run_reached: "token_reach ''k'' 0 example_run"
  unfolding example_run_def Let_def
  by ((rule token_reach.step[rotated], rule token_step.hit2)
    | (rule token_reach.step[rotated], rule token_step.answer)
    | (rule token_reach.step[rotated], rule token_step.miss2)
    | (rule token_reach.step[rotated], rule token_step.acquire)
    | (rule token_reach.step[rotated], rule token_step.miss1) | rule token_reach.init
    | simp add: goto_phase_def conc_init_def conc_read_def readAccessToken_def store_Get_def NewStore_def answered_def
        Let_def updateAccessToken_def store_Set_def store_Del_def example_ttl)+

lemma token_requests_accounted_witness:
  "cg_requested example_run = 1 \<and> cg_phase example_run 1 = Authorized ''at''"
proof -
  have read: "conc_read ''k'' example_run = ''at''" "cg_phase example_run 1 = Authorized ''at''"
    and counts: "cg_unusable example_run = 0" "cg_lost example_run = 0" "cg_holder example_run = None"
    by (simp_all add: example_run_def Let_def goto_phase_def conc_init_def conc_read_def readAccessToken_def store_Get_def
        NewStore_def answered_def updateAccessToken_def store_Set_def store_Del_def example_ttl)
  from token_requests_accounted[OF example_run_reached] read counts show ?thesis by (simp add: conc_fetching_def)
qed

fun phase_rank :: "phase \<Rightarrow> nat" where
  "phase_rank Start = 4"
| "phase_rank Waiting = 3"
| "phase_rank Locked = 2"
| "phase_rank Fetching = 1"
| "phase_rank (Authorized t) = 0"
| "phase_rank Failed = 0"

lemma can_step:
  assumes "lock_inv s" "0 < phase_rank (cg_phase s i)" "cg_phase s i = Waiting \<Longrightarrow> cg_holder s = None"
  shows "\<exists>p s'. token_step key s s' \<and> cg_phase s' = (cg_phase s)(i := p) \<and> phase_rank p < phase_rank (cg_phase s i)"
proof (cases "cg_phase s i")
  case Start
  then show ?thesis
    by (cases "conc_read key s = []") (fastforce dest: token_step.miss1 token_step.hit1 simp: goto_phase_def)+
next
  case Waiting
  with assms(3) token_step.acquire[of s i key] show ?thesis by (fastforce simp: goto_phase_def)
next
  case Locked
  then show ?thesis
    by (cases "conc_read key s = []") (fastforce dest: token_step.miss2 token_step.hit2 simp: goto_phase_def)+
next
  case Fetching
  with token_step.failure[of s i key] show ?thesis by (fastforce simp: goto_phase_def)
qed (use assms(2) in simp_all)

text \<open>The steps of one request: the ones that change its phase.\<close>

inductive token_count :: "string \<Rightarrow> int \<Rightarrow> nat \<Rightarrow> nat \<Rightarrow> conc \<Rightarrow> bool" for key start i where
  init: "token_count key start i 0 (conc_init start)"
| step: "token_count key start i n s \<Longrightarrow> token_step key s s' \<Longrightarrow>
    token_count key start i (if cg_phase s' i = cg_phase s i then n else Suc n) s'"

lemma token_count_reach: "token_count key start i n s \<Longrightarrow> token_reach key start s"
  by (induction rule: token_count.induct) (auto intro: token_reach.intros)

lemma reach_token_count: "token_reach key start s \<Longrightarrow> \<exists>n. token_count key start i n s"
  by (induction rule: token_reach.induct) (blast intro: token_count.intros)+

lemma phase_moved:
  assumes "phase_rank p < phase_rank (f i)"
  shows "f(i := p) = f \<or> (\<exists>j q. f(i := p) = f(j := q) \<and> phase_rank q < phase_rank (f j))"
  using assms by blast

lemma token_step_rank:
  "token_step key s s' \<Longrightarrow> cg_phase s' = cg_phase s \<or>
     (\<exists>j p. cg_phase s' = (cg_phase s)(j := p) \<and> phase_rank p < phase_rank (cg_phase s j))"
  by (erule token_stepE)
    (simp_all add: goto_phase_def answered_def env_change_def Let_def, (rule phase_moved, simp)+)

lemma phase_rank_bound: "phase_rank p \<le> 4"
  by (cases p) simp_all

lemma token_count_bound: "token_count key start i n s \<Longrightarrow> n + phase_rank (cg_phase s i) \<le> 4"
proof (induction rule: token_count.induct)
  case init
  show ?case using phase_rank_bound by simp
next
  case (step n s s')
  from token_step_rank[OF step(2)] step(3) show ?case by (auto split: if_splits)
qed

text \<open>
  Property C36: a request takes at most four steps of its own while it gets its token, however the requests interleave, and no
  request gets stuck: while one is not finished, some request can take a step that brings it nearer to its end.
\<close>

theorem token_requests_progress:
  assumes "token_count key start i n s"
  shows "n + phase_rank (cg_phase s i) \<le> 4 \<and>
    (0 < phase_rank (cg_phase s i) \<longrightarrow>
      (\<exists>j p s'. token_step key s s' \<and> cg_phase s' = (cg_phase s)(j := p) \<and> phase_rank p < phase_rank (cg_phase s j)))"
proof
  show "n + phase_rank (cg_phase s i) \<le> 4" by (rule token_count_bound[OF assms])
  have l: "lock_inv s" using reach_inv[OF token_count_reach[OF assms]] by (simp add: conc_inv_def)
  have "\<exists>j p s'. token_step key s s' \<and> cg_phase s' = (cg_phase s)(j := p) \<and> phase_rank p < phase_rank (cg_phase s j)"
    if pos: "0 < phase_rank (cg_phase s i)"
  proof (cases "cg_holder s")
    case None
    with can_step[OF l pos, of key] show ?thesis by blast
  next
    case (Some j)
    with lock_holder(3)[OF l] have "0 < phase_rank (cg_phase s j)" "cg_phase s j \<noteq> Waiting" by fastforce+
    with can_step[OF l, of j key] show ?thesis by blast
  qed
  then show "0 < phase_rank (cg_phase s i) \<longrightarrow>
      (\<exists>j p s'. token_step key s s' \<and> cg_phase s' = (cg_phase s)(j := p) \<and> phase_rank p < phase_rank (cg_phase s j))" by blast
qed

lemma token_requests_progress_witness:
  "\<exists>j p s'. token_step ''k'' example_run s' \<and> cg_phase s' = (cg_phase example_run)(j := p) \<and>
     phase_rank p < phase_rank (cg_phase example_run j)"
proof -
  obtain n where n: "token_count ''k'' 0 2 n example_run" using reach_token_count[OF example_run_reached] by blast
  have "0 < phase_rank (cg_phase example_run 2)"
    by (simp add: example_run_def Let_def goto_phase_def conc_init_def answered_def)
  with token_requests_progress[OF n] show ?thesis by blast
qed

end
