(* ===== verification/Sequence.thy ===== *)
theory Sequence
  imports GoPrelude
begin

text \<open>
  The order of the requests of an endpoint: the items and their dependencies
  (\<open>config/sequence/sequence.go\<close>), how they are built from the references of a configuration
  (\<open>buildSequences\<close> in \<open>config/configload/endpoint_sequence.go\<close>), and who reads them at start-up
  (\<open>markDependencies\<close> and \<open>addIndependentProducers\<close> in \<open>config/runtime/endpoint.go\<close>).

  The items of one endpoint are objects with a name of their own, linked by pointers, so the state
  maps a name to the item's dependencies and to its parent. An item has one parent: adding it to a
  second item replaces the first one.
\<close>

section \<open>Items\<close>

type_synonym deps_map = "string \<Rightarrow> string list"

record items =
  it_deps :: deps_map
  it_parent :: "string \<Rightarrow> string option"
  it_known :: "string list"

definition no_items :: items where
  "no_items = \<lparr>it_deps = (\<lambda>n. []), it_parent = (\<lambda>n. None), it_known = []\<rparr>"

text \<open>\<open>Deps\<close>: the last one added comes first.\<close>

definition Deps :: "deps_map \<Rightarrow> string \<Rightarrow> string list" where
  "Deps g n = (if length (g n) < 2 then g n else rev (g n))"

text \<open>The walks up the parents do not obviously end, so they are partial.\<close>

partial_function (option) hasAncestor :: "(string \<Rightarrow> string option) \<Rightarrow> string \<Rightarrow> string \<Rightarrow> bool option" where
  "hasAncestor par s name =
     (case par s of
        None \<Rightarrow> Some False
      | Some p \<Rightarrow> if p = name then Some True else hasAncestor par p name)"

partial_function (option) circle_names ::
    "(string \<Rightarrow> string option) \<Rightarrow> deps_map \<Rightarrow> string \<Rightarrow> string \<Rightarrow> string list \<Rightarrow> string list option" where
  "circle_names par g s p refs =
     (if p = s then Some refs
      else (case par p of
         None \<Rightarrow> Some refs
       | Some q \<Rightarrow> circle_names par g s q (refs @ [if Deps g q \<noteq> [] then hd (Deps g q) else q])))"

declare hasAncestor.simps [code] circle_names.simps [code]

text \<open>\<open>Add\<close>: \<open>Inl\<close> is the panic with the names of the circle, \<open>None\<close> that it does not return.\<close>

definition Add :: "string \<Rightarrow> string \<Rightarrow> items \<Rightarrow> (string list + items) option" where
  "Add s ref it =
     (if trim_space ref = [] then Some (Inr it)
      else (let par = (it_parent it)(ref := Some s) in
        case hasAncestor par s ref of
          None \<Rightarrow> None
        | Some True \<Rightarrow>
           (case circle_names par (it_deps it) s (the (par s)) [ref] of
              None \<Rightarrow> None
            | Some refs \<Rightarrow> Some (Inl (refs @ [hd refs])))
        | Some False \<Rightarrow> Some (Inr (it\<lparr>it_parent := par, it_deps := (it_deps it)(s := it_deps it s @ [ref])\<rparr>))))"

definition circular_text :: "string list \<Rightarrow> string" where
  "circular_text refs = ''circular sequence reference: '' @ join_with '','' refs"

section \<open>Building the sequences of an endpoint\<close>

text \<open>\<open>SortDefault\<close>, of the keys in the order that the map yields them.\<close>

definition swap_last :: "nat \<Rightarrow> 'a list \<Rightarrow> 'a list" where
  "swap_last i xs = xs[i := last xs, length xs - 1 := xs ! i]"

definition SortDefault :: "string list \<Rightarrow> string list" where
  "SortDefault trips =
     (case find (\<lambda>i. trips ! i = ''default'') [0..<length trips] of
        None \<Rightarrow> trips
      | Some i \<Rightarrow> if length trips - 1 = 0 \<or> i = length trips - 1 then trips else swap_last i trips)"

definition know :: "string \<Rightarrow> items \<Rightarrow> items" where
  "know n it = (if n \<in> set (it_known it) then it else it\<lparr>it_known := it_known it @ [n]\<rparr>)"

fun add_refs :: "string \<Rightarrow> string list \<Rightarrow> items \<Rightarrow> (string list + items) option" where
  "add_refs name [] it = Some (Inr it)"
| "add_refs name (r # rs) it =
     (if name = r then add_refs name rs (know r it)
      else (case Add name r (know r it) of
         None \<Rightarrow> None
       | Some (Inl refs) \<Rightarrow> Some (Inl refs)
       | Some (Inr it') \<Rightarrow> add_refs name rs it'))"

text \<open>The bodies in the order of their names, each with the names that \<open>responseReferences\<close> finds.\<close>

fun add_bodies :: "(string \<times> string list) list \<Rightarrow> items \<Rightarrow> (string list + items) option" where
  "add_bodies [] it = Some (Inr it)"
| "add_bodies ((name, refs) # bs) it =
     (if refs = [] then add_bodies bs it
      else (case add_refs name refs (know name it) of
         None \<Rightarrow> None
       | Some (Inl e) \<Rightarrow> Some (Inl e)
       | Some (Inr it') \<Rightarrow> add_bodies bs it'))"

text \<open>The expressions of a body are lists of traversals; a traversal has a root and, if its second step
  is an attribute, the name of that.\<close>

fun response_refs :: "(string \<times> string option) list \<Rightarrow> string list \<Rightarrow> string list" where
  "response_refs [] result = result"
| "response_refs ((root, attr) # ts) result =
     (case attr of
        None \<Rightarrow> response_refs ts result
      | Some n \<Rightarrow>
          if root \<noteq> ''backend_responses'' then response_refs ts result
          else response_refs ts (if n \<in> set result then result else result @ [n]))"

definition responseReferences :: "(string \<times> string option) list list \<Rightarrow> string list" where
  "responseReferences exprs = response_refs (concat exprs) []"

text \<open>\<open>buildSequences\<close>: \<open>order\<close> is the order in which the map of the items yields them.\<close>

definition buildSequences ::
    "(string list \<Rightarrow> string list) \<Rightarrow> (string \<times> string list) list \<Rightarrow> (string + string list \<times> items) option" where
  "buildSequences order bodies =
     (case add_bodies bodies no_items of
        None \<Rightarrow> None
      | Some (Inl refs) \<Rightarrow> Some (Inl (circular_text refs))
      | Some (Inr it) \<Rightarrow>
          Some (Inr (filter (\<lambda>n. it_parent it n = None) (SortDefault (order (it_known it))), it)))"

section \<open>Readers of the items\<close>

text \<open>The readers follow the dependencies; the fuel is the depth that they may reach, and \<open>None\<close> that
  it is not enough.\<close>

fun resolveSequence :: "nat \<Rightarrow> deps_map \<Rightarrow> string \<Rightarrow> string list \<times> string list \<Rightarrow> (string list \<times> string list) option"
  and resolve_deps :: "nat \<Rightarrow> deps_map \<Rightarrow> string list \<Rightarrow> string list \<times> string list \<Rightarrow> (string list \<times> string list) option"
where
  "resolveSequence 0 g name st = None"
| "resolveSequence (Suc k) g name st =
     (case resolve_deps k g (Deps g name) (fst st, snd st @ [name]) of
        None \<Rightarrow> None
      | Some st' \<Rightarrow> Some (fst st' @ [name], snd st'))"
| "resolve_deps k g [] st = Some st"
| "resolve_deps k g (d # ds) st =
     (if d \<notin> set (fst st) \<and> d \<notin> set (snd st)
      then (case resolveSequence k g d st of
              None \<Rightarrow> None
            | Some st' \<Rightarrow> resolve_deps k g ds st')
      else resolve_deps k g ds st)"

fun Dependencies :: "nat \<Rightarrow> deps_map \<Rightarrow> string list \<Rightarrow> string list list option" where
  "Dependencies k g [] = Some []"
| "Dependencies k g (item # rest) =
     (case resolveSequence k g item ([], []) of
        None \<Rightarrow> None
      | Some (resolved, seen) \<Rightarrow> map_option (\<lambda>r. resolved # r) (Dependencies k g rest))"

text \<open>\<open>markDependencies\<close> sets what a producer depends on; \<open>markDependencies\<close> of a name without a
  producer panics, which is \<open>Some None\<close>.\<close>

type_synonym depends_on = "string \<rightharpoonup> string"

fun markDependencies :: "nat \<Rightarrow> deps_map \<Rightarrow> string set \<Rightarrow> string list \<Rightarrow> depends_on \<Rightarrow> depends_on option option" where
  "markDependencies k g producers [] m = Some (Some m)"
| "markDependencies 0 g producers (item # rest) m =
     (if Deps g item = [] then markDependencies 0 g producers rest m else None)"
| "markDependencies (Suc k) g producers (item # rest) m =
     (if Deps g item = [] then markDependencies (Suc k) g producers rest m
      else if item \<notin> producers then Some None
      else (case markDependencies k g producers (Deps g item) (m(item \<mapsto> join_with '','' (Deps g item))) of
              None \<Rightarrow> None
            | Some None \<Rightarrow> Some None
            | Some (Some m') \<Rightarrow> markDependencies (Suc k) g producers rest m'))"

definition addIndependentProducers :: "nat \<Rightarrow> deps_map \<Rightarrow> string list \<Rightarrow> string list \<Rightarrow> string list option" where
  "addIndependentProducers k g producers seqs =
     map_option (\<lambda>allDeps. seqs @ filter (\<lambda>n. n \<notin> set (concat allDeps)) (SortDefault producers))
       (Dependencies k g seqs)"

section \<open>The search for circles\<close>

text \<open>Parents before their children, and what an item needs before the item.\<close>

definition parent_rel :: "(string \<Rightarrow> string option) \<Rightarrow> (string \<times> string) set" where
  "parent_rel par = {(p, x). par x = Some p}"

definition edges :: "deps_map \<Rightarrow> (string \<times> string) set" where
  "edges g = {(n, d). d \<in> set (g n)}"

lemma set_Deps [simp]: "set (Deps g n) = set (g n)"
  by (simp add: Deps_def)

lemma hasAncestor_None: "par s = None \<Longrightarrow> hasAncestor par s name = Some False"
  by (subst hasAncestor.simps) simp

lemma hasAncestor_Some:
  "par s = Some p \<Longrightarrow> hasAncestor par s name = (if p = name then Some True else hasAncestor par p name)"
  by (subst hasAncestor.simps) simp

text \<open>The walk stops at the added item, so its new parent does not matter, and it finds the ancestors
  that were there before.\<close>

lemma hasAncestor_walk:
  assumes "wf (parent_rel par)" "s \<noteq> ref"
  shows "hasAncestor (par(ref := x)) s ref = Some ((ref, s) \<in> (parent_rel par)\<^sup>+)"
  using assms
proof (induction s rule: wf_induct_rule)
  case (less s)
  show ?case
  proof (cases "par s")
    case None
    then have "(ref, s) \<notin> (parent_rel par)\<^sup>+" by (auto simp: parent_rel_def elim: trancl.cases)
    with None less.prems show ?thesis by (simp add: hasAncestor_None)
  next
    case (Some p)
    then have step: "(q, s) \<in> parent_rel par \<longleftrightarrow> q = p" for q by (auto simp: parent_rel_def)
    have split: "(ref, s) \<in> (parent_rel par)\<^sup>+ \<longleftrightarrow> p = ref \<or> (ref, p) \<in> (parent_rel par)\<^sup>+"
      using step by (metis trancl.simps)
    show ?thesis
    proof (cases "p = ref")
      case True
      with Some less.prems split show ?thesis by (simp add: hasAncestor_Some)
    next
      case False
      with less.IH[of p] step split Some less.prems show ?thesis by (simp add: hasAncestor_Some)
    qed
  qed
qed

lemma circle_names_returns:
  assumes "wf (parent_rel par)"
  shows "\<exists>l. circle_names (par(ref := Some s)) g s p refs = Some (refs @ l)"
  using assms
proof (induction p arbitrary: refs rule: wf_induct_rule)
  case (less p)
  show ?case
  proof (cases "p = s \<or> p = ref")
    case True
    then show ?thesis
      by (subst circle_names.simps) (auto simp: circle_names.simps[of _ _ s s])
  next
    case False
    show ?thesis
    proof (cases "par p")
      case None
      with False show ?thesis by (subst circle_names.simps) simp
    next
      case (Some q)
      define par' where "par' = par(ref := Some s)"
      from Some False have next_item: "par' p = Some q" by (simp add: par'_def)
      from Some have "(q, p) \<in> parent_rel par" by (simp add: parent_rel_def)
      from less.IH[OF this, of "refs @ [if Deps g q \<noteq> [] then hd (Deps g q) else q]"]
      obtain l where "circle_names par' g s q (refs @ [if Deps g q \<noteq> [] then hd (Deps g q) else q]) =
          Some ((refs @ [if Deps g q \<noteq> [] then hd (Deps g q) else q]) @ l)"
        unfolding par'_def by blast
      with False next_item show ?thesis
        unfolding par'_def[symmetric] by (subst circle_names.simps) simp
    qed
  qed
qed

text \<open>What holds between two calls of \<open>Add\<close>.\<close>

definition items_inv :: "items \<Rightarrow> bool" where
  "items_inv it \<longleftrightarrow> wf (parent_rel (it_parent it)) \<and>
     (\<forall>x p. it_parent it x = Some p \<longrightarrow> x \<in> set (it_deps it p)) \<and>
     (\<forall>x. it_parent it x = None \<longrightarrow> (\<forall>p. x \<notin> set (it_deps it p)))"

lemma parent_edge:
  "items_inv it \<Longrightarrow> (a, b) \<in> (parent_rel (it_parent it))\<^sup>+ \<Longrightarrow> (a, b) \<in> (edges (it_deps it))\<^sup>+"
  by (erule trancl_mono) (auto simp: items_inv_def parent_rel_def edges_def)

lemma Add_cases:
  assumes "items_inv it" "trim_space ref \<noteq> []"
  shows "if s = ref \<or> (ref, s) \<in> (parent_rel (it_parent it))\<^sup>+
         then \<exists>refs. Add s ref it = Some (Inl (ref # refs))
         else Add s ref it = Some (Inr (it\<lparr>it_parent := (it_parent it)(ref := Some s), it_deps := (it_deps it)(s := it_deps it s @ [ref])\<rparr>))"
proof -
  have w: "wf (parent_rel (it_parent it))" using assms(1) by (simp add: items_inv_def)
  have walk: "hasAncestor ((it_parent it)(ref := Some s)) s ref =
      Some (s = ref \<or> (ref, s) \<in> (parent_rel (it_parent it))\<^sup>+)"
    using hasAncestor_walk[OF w, of s ref] by (cases "s = ref") (simp_all add: hasAncestor_Some)
  obtain l where "circle_names ((it_parent it)(ref := Some s)) (it_deps it) s
      (the (((it_parent it)(ref := Some s)) s)) [ref] = Some ([ref] @ l)"
    using circle_names_returns[OF w] by blast
  with walk assms(2) show ?thesis by (auto simp: Add_def Let_def)
qed

lemma Add_inv:
  assumes "items_inv it" "s \<noteq> ref" "(ref, s) \<notin> (parent_rel (it_parent it))\<^sup>+"
  shows "items_inv (it\<lparr>it_parent := (it_parent it)(ref := Some s), it_deps := (it_deps it)(s := it_deps it s @ [ref])\<rparr>)"
proof -
  have w: "wf (parent_rel (it_parent it))" using assms(1) by (simp add: items_inv_def)
  have "(ref, s) \<notin> (parent_rel (it_parent it))\<^sup>*" using assms(2,3) by (auto simp: rtrancl_eq_or_trancl)
  with w have "wf (insert (s, ref) (parent_rel (it_parent it)))" by simp
  then have "wf (parent_rel ((it_parent it)(ref := Some s)))"
    by (rule wf_subset) (auto simp: parent_rel_def split: if_splits)
  with assms(1) show ?thesis by (auto simp: items_inv_def split: if_splits)
qed

lemma know_fields [simp]:
  "it_deps (know n it) = it_deps it" "it_parent (know n it) = it_parent it"
  "set (it_known (know n it)) = insert n (set (it_known it))" "items_inv (know n it) = items_inv it"
  by (auto simp: know_def items_inv_def)

definition new_edges :: "string \<Rightarrow> string list \<Rightarrow> (string \<times> string) set" where
  "new_edges name refs = {(name, r) | r. r \<in> set refs \<and> r \<noteq> name \<and> trim_space r \<noteq> []}"

definition ref_names :: "string \<Rightarrow> string list \<Rightarrow> string set" where
  "ref_names name refs = (if refs = [] then {} else insert name (set refs))"

lemma add_refs_result:
  assumes "items_inv it" "edges (it_deps it) \<subseteq> E" "new_edges name refs \<subseteq> E"
  shows "case add_refs name refs it of
       None \<Rightarrow> False
     | Some (Inl c) \<Rightarrow> \<not> acyclic E
     | Some (Inr it') \<Rightarrow> items_inv it' \<and> edges (it_deps it') = edges (it_deps it) \<union> new_edges name refs
         \<and> set (it_known it') = set (it_known it) \<union> set refs"
  using assms
proof (induction refs arbitrary: it)
  case Nil
  then show ?case by (auto simp: new_edges_def)
next
  case (Cons r rs)
  have rest: "new_edges name rs \<subseteq> E" using Cons.prems(3) by (auto simp: new_edges_def)
  show ?case
  proof (cases "name = r \<or> trim_space r = []")
    case True
    then have same: "new_edges name (r # rs) = new_edges name rs" by (auto simp: new_edges_def)
    from True have "add_refs name (r # rs) it = add_refs name rs (know r it)" by (auto simp: Add_def)
    with Cons.IH[of "know r it"] Cons.prems(1,2) rest same show ?thesis
      by (auto split: option.splits sum.splits)
  next
    case False
    let ?it = "it\<lparr>it_parent := (it_parent (know r it))(r := Some name), it_deps := (it_deps it)(name := it_deps it name @ [r])\<rparr>"
    from False have new: "(name, r) \<in> E" using Cons.prems(3) by (auto simp: new_edges_def)
    show ?thesis
    proof (cases "(r, name) \<in> (parent_rel (it_parent it))\<^sup>+")
      case True
      then have "(r, name) \<in> (edges (it_deps it))\<^sup>+" by (rule parent_edge[OF Cons.prems(1)])
      then have "(r, name) \<in> E\<^sup>+" by (rule trancl_mono[OF _ Cons.prems(2)])
      with new have "\<not> acyclic E" by (auto simp: acyclic_def dest: trancl_into_trancl)
      moreover obtain c where "Add name r (know r it) = Some (Inl c)"
        using Add_cases[of "know r it" r name] Cons.prems(1) False True by auto
      ultimately show ?thesis using False by simp
    next
      case no: False
      let ?it = "(know r it)\<lparr>it_parent := (it_parent it)(r := Some name), it_deps := (it_deps it)(name := it_deps it name @ [r])\<rparr>"
      have "Add name r (know r it) = Some (Inr ?it)"
        using Add_cases[of "know r it" r name] Cons.prems(1) False no by simp
      then have step: "add_refs name (r # rs) it = add_refs name rs ?it" using False by simp
      have inv: "items_inv ?it" using Add_inv[of "know r it" name r] Cons.prems(1) False no by simp
      have e: "edges (it_deps ?it) = insert (name, r) (edges (it_deps it))" by (auto simp: edges_def split: if_splits)
      have n: "new_edges name (r # rs) = insert (name, r) (new_edges name rs)"
        using False by (auto simp: new_edges_def)
      have "edges (it_deps ?it) \<subseteq> E" unfolding e using new Cons.prems(2) by simp
      from Cons.IH[OF inv this rest] show ?thesis
        unfolding step n e by (auto split: option.splits sum.splits)
    qed
  qed
qed

definition reference_edges :: "(string \<times> string list) list \<Rightarrow> (string \<times> string) set" where
  "reference_edges bodies = (\<Union>(name, refs) \<in> set bodies. new_edges name refs)"

definition referenced_names :: "(string \<times> string list) list \<Rightarrow> string set" where
  "referenced_names bodies = (\<Union>(name, refs) \<in> set bodies. ref_names name refs)"

lemma add_bodies_result:
  assumes "items_inv it" "edges (it_deps it) \<subseteq> E" "reference_edges bodies \<subseteq> E"
  shows "case add_bodies bodies it of
       None \<Rightarrow> False
     | Some (Inl c) \<Rightarrow> \<not> acyclic E
     | Some (Inr it') \<Rightarrow> items_inv it' \<and> edges (it_deps it') = edges (it_deps it) \<union> reference_edges bodies
         \<and> set (it_known it') = set (it_known it) \<union> referenced_names bodies"
  using assms
proof (induction bodies arbitrary: it)
  case Nil
  then show ?case by (simp add: reference_edges_def referenced_names_def)
next
  case (Cons b bs)
  obtain name refs where b: "b = (name, refs)" by (cases b)
  have parts: "reference_edges (b # bs) = new_edges name refs \<union> reference_edges bs"
      "referenced_names (b # bs) = ref_names name refs \<union> referenced_names bs"
    by (simp_all add: reference_edges_def referenced_names_def b)
  show ?case
  proof (cases "refs = []")
    case True
    then have same: "reference_edges (b # bs) = reference_edges bs" "referenced_names (b # bs) = referenced_names bs"
      unfolding parts by (simp_all add: new_edges_def ref_names_def)
    from True have "add_bodies (b # bs) it = add_bodies bs it" by (simp add: b)
    with Cons.IH[OF Cons.prems(1,2)] Cons.prems(3) show ?thesis unfolding same by simp
  next
    case False
    have first: "case add_refs name refs (know name it) of None \<Rightarrow> False | Some (Inl c) \<Rightarrow> \<not> acyclic E
        | Some (Inr it') \<Rightarrow> items_inv it' \<and> edges (it_deps it') = edges (it_deps it) \<union> new_edges name refs
           \<and> set (it_known it') = set (it_known it) \<union> ref_names name refs"
      using add_refs_result[of "know name it" E name refs] Cons.prems parts False
      by (auto simp: ref_names_def split: option.splits sum.splits)
    show ?thesis
    proof (cases "add_refs name refs (know name it)")
      case None
      with first show ?thesis by simp
    next
      case (Some r)
      show ?thesis
      proof (cases r)
        case (Inl c)
        with first Some False b show ?thesis by simp
      next
        case (Inr it')
        with first Some have it': "items_inv it'" "edges (it_deps it') = edges (it_deps it) \<union> new_edges name refs"
          "set (it_known it') = set (it_known it) \<union> ref_names name refs" by simp_all
        with Cons.prems parts Cons.IH[of it'] show ?thesis
          using Some Inr False b by (auto split: option.splits sum.splits)
      qed
    qed
  qed
qed

lemma no_items_inv: "items_inv no_items"
  by (simp add: items_inv_def no_items_def parent_rel_def)

lemma parent_None: "items_inv it \<Longrightarrow> it_parent it x = None \<longleftrightarrow> (\<forall>p. (p, x) \<notin> edges (it_deps it))"
  by (cases "it_parent it x") (auto simp: items_inv_def edges_def)

lemma set_swap_last: "i < length xs \<Longrightarrow> set (swap_last i xs) = set xs"
proof -
  assume i: "i < length xs"
  then have "swap_last i xs = xs[i := xs ! (length xs - 1), length xs - 1 := xs ! i]"
    by (cases xs rule: rev_cases) (auto simp: swap_last_def)
  with i show ?thesis by (simp add: set_swap)
qed

lemma set_SortDefault [simp]: "set (SortDefault trips) = set trips"
  by (auto simp: SortDefault_def find_Some_iff set_swap_last split: option.splits)

text \<open>
  Property C32: building the sequences of an endpoint always returns. An error means that the
  references do have a circle. Otherwise the items have exactly the references as their dependencies,
  and the sequences start at the items that nothing refers to (for any order in which the map of the
  items yields them).
\<close>

theorem sequences_of_references:
  assumes "\<And>xs. set (order xs) = set xs"
  shows "case buildSequences order bodies of
      None \<Rightarrow> False
    | Some (Inl t) \<Rightarrow> \<not> acyclic (reference_edges bodies)
    | Some (Inr (roots, it)) \<Rightarrow> edges (it_deps it) = reference_edges bodies \<and>
        set roots = {n \<in> referenced_names bodies. \<forall>m. (m, n) \<notin> reference_edges bodies}"
proof -
  have "edges (it_deps no_items) = {}" "set (it_known no_items) = {}" by (simp_all add: no_items_def edges_def)
  then have "case add_bodies bodies no_items of
       None \<Rightarrow> False
     | Some (Inl c) \<Rightarrow> \<not> acyclic (reference_edges bodies)
     | Some (Inr it') \<Rightarrow> items_inv it' \<and> edges (it_deps it') = reference_edges bodies
         \<and> set (it_known it') = referenced_names bodies"
    using add_bodies_result[OF no_items_inv, of "reference_edges bodies" bodies]
    by (auto split: option.splits sum.splits)
  then show ?thesis
    by (auto simp: buildSequences_def assms parent_None split: option.splits sum.splits)
qed

lemma sequences_of_references_witness:
  "case buildSequences rev [(''a'', [''b'', ''c'']), (''b'', [''c''])] of
     None \<Rightarrow> False | Some (Inl t) \<Rightarrow> False | Some (Inr (roots, it)) \<Rightarrow> set roots = {''a''}"
proof -
  let ?bs = "[(''a'', [''b'', ''c'']), (''b'', [''c''])]"
  have e: "reference_edges ?bs = {(''a'', ''b''), (''a'', ''c''), (''b'', ''c'')}"
    by (auto simp: reference_edges_def new_edges_def trim_space_def trim_def trim_left_def is_space_def)
  have n: "referenced_names ?bs = {''a'', ''b'', ''c''}" by (auto simp: referenced_names_def ref_names_def)
  have "reference_edges ?bs \<subseteq> inv_image less_than (\<lambda>n. if n = ''a'' then 0 else if n = ''b'' then 1 else 2)"
    by (simp add: e)
  then have "acyclic (reference_edges ?bs)" by (rule acyclic_subset[OF wf_acyclic, rotated]) simp
  with sequences_of_references[of rev ?bs] show ?thesis
    unfolding n by (auto simp: e split: option.splits sum.splits)
qed

text \<open>A circle is found only if the parents still lead around it. Here \<open>a\<close> needs \<open>b\<close>, \<open>b\<close> needs
  \<open>c\<close> and \<open>c\<close> needs \<open>a\<close>, but \<open>bb\<close>, which also needs \<open>b\<close>, has become its parent.\<close>

definition missed_bodies :: "(string \<times> string list) list" where
  "missed_bodies = [(''a'', [''b'']), (''b'', [''c'']), (''bb'', [''b'']), (''c'', [''a''])]"

lemma missed_result:
  "map_option (map_sum id (\<lambda>(roots, it). (roots, map (it_deps it) [''a'', ''b'', ''bb'', ''c''])))
     (buildSequences (\<lambda>xs. xs) missed_bodies) =
   Some (Inr ([''bb''], [[''b''], [''c''], [''b''], [''a'']]))"
  by code_simp

lemma endless_marking:
  assumes "\<And>n. n \<in> C \<Longrightarrow> Deps g n \<noteq> [] \<and> hd (Deps g n) \<in> C" "C \<subseteq> producers" "item \<in> C"
  shows "markDependencies k g producers (item # rest) m = None"
  using assms(3)
proof (induction k arbitrary: item rest m)
  case 0
  with assms(1) show ?case by simp
next
  case (Suc k)
  obtain d ds where d: "Deps g item = d # ds" "d \<in> C" using assms(1)[OF Suc.prems] by (cases "Deps g item") auto
  with Suc.IH[of d ds] Suc.prems assms(2) show ?case by auto
qed

text \<open>
  The circle of this configuration is not reported. The one sequence starts at \<open>bb\<close>,
  and \<open>markDependencies\<close>, which follows the dependencies at start-up, does not return at any depth.
\<close>

theorem circle_missed:
  "case buildSequences (\<lambda>xs. xs) missed_bodies of
     Some (Inr (roots, it)) \<Rightarrow> roots = [''bb''] \<and> \<not> acyclic (edges (it_deps it)) \<and>
       (\<forall>k. markDependencies k (it_deps it) {''a'', ''b'', ''bb'', ''c''} roots Map.empty = None)
   | _ \<Rightarrow> False"
proof -
  obtain z where z: "buildSequences (\<lambda>xs. xs) missed_bodies = Some z"
    "map_sum id (\<lambda>(roots, it). (roots, map (it_deps it) [''a'', ''b'', ''bb'', ''c''])) z =
       Inr ([''bb''], [[''b''], [''c''], [''b''], [''a'']])"
    using missed_result by auto
  then obtain roots it where "z = Inr (roots, it)" by (cases z) auto
  with z have r: "buildSequences (\<lambda>xs. xs) missed_bodies = Some (Inr (roots, it))" "roots = [''bb'']"
    and g: "it_deps it ''a'' = [''b'']" "it_deps it ''b'' = [''c'']" "it_deps it ''bb'' = [''b'']" "it_deps it ''c'' = [''a'']"
    by simp_all
  let ?C = "{''a'', ''b'', ''bb'', ''c''}"
  have "(''a'', ''b'') \<in> edges (it_deps it)" "(''b'', ''c'') \<in> edges (it_deps it)" "(''c'', ''a'') \<in> edges (it_deps it)"
    by (simp_all add: edges_def g)
  then have "(''a'', ''a'') \<in> (edges (it_deps it))\<^sup>+" by (meson trancl.intros)
  then have "\<not> acyclic (edges (it_deps it))" by (auto simp: acyclic_def)
  moreover have "markDependencies k (it_deps it) ?C [''bb''] Map.empty = None" for k
  proof (rule endless_marking)
    show "n \<in> ?C \<Longrightarrow> Deps (it_deps it) n \<noteq> [] \<and> hd (Deps (it_deps it) n) \<in> ?C" for n
      by (elim insertE emptyE) (simp_all add: Deps_def g)
  qed simp_all
  ultimately show ?thesis by (simp add: r)
qed

section \<open>The order of the dependencies\<close>

fun deps_first :: "deps_map \<Rightarrow> string set \<Rightarrow> string list \<Rightarrow> bool" where
  "deps_first g before [] \<longleftrightarrow> True"
| "deps_first g before (x # xs) \<longleftrightarrow> set (g x) \<subseteq> before \<and> deps_first g (insert x before) xs"

lemma deps_first_append [simp]:
  "deps_first g before (xs @ ys) \<longleftrightarrow> deps_first g before xs \<and> deps_first g (before \<union> set xs) ys"
  by (induction xs arbitrary: before) simp_all

lemma deps_first_reach:
  assumes "deps_first g {} xs" "(n, m) \<in> (edges g)\<^sup>*" "n \<in> set xs"
  shows "m \<in> set xs"
  using assms(2,3)
proof (induction rule: rtrancl_induct)
  case base
  then show ?case by simp
next
  case (step y z)
  then obtain ys zs where "xs = ys @ y # zs" by (meson split_list)
  with assms(1) step show ?case by (auto simp: edges_def)
qed

lemma resolve_returns:
  "finite U \<Longrightarrow> (\<And>n. n \<in> U \<Longrightarrow> set (g n) \<subseteq> U) \<Longrightarrow> name \<in> U \<Longrightarrow> name \<notin> set (snd st) \<Longrightarrow>
     card (U - set (snd st)) \<le> k \<Longrightarrow> \<exists>res seen. resolveSequence k g name st = Some (res, seen) \<and> set (snd st) \<subseteq> set seen"
  "finite U \<Longrightarrow> (\<And>n. n \<in> U \<Longrightarrow> set (g n) \<subseteq> U) \<Longrightarrow> set ds \<subseteq> U \<Longrightarrow>
     card (U - set (snd st)) \<le> k \<Longrightarrow> \<exists>res seen. resolve_deps k g ds st = Some (res, seen) \<and> set (snd st) \<subseteq> set seen"
proof (induction k g name st and k g ds st rule: resolveSequence_resolve_deps.induct)
  case (1 g name st)
  then have "U - set (snd st) = {}" by simp
  with 1 show ?case by auto
next
  case (2 k g name st)
  have "U - set (snd st @ [name]) = (U - set (snd st)) - {name}" by auto
  then have "card (U - set (snd st @ [name])) \<le> k" using 2 by (simp add: card_Diff_singleton)
  moreover have "set (Deps g name) \<subseteq> U" using 2 by simp
  ultimately obtain res seen where "resolve_deps k g (Deps g name) (fst st, snd st @ [name]) = Some (res, seen)"
      "set (snd st @ [name]) \<subseteq> set seen"
    using 2 by force
  then show ?case by auto
next
  case (3 k g st)
  then show ?case by (cases st) auto
next
  case (4 k g d ds st)
  show ?case
  proof (cases "d \<notin> set (fst st) \<and> d \<notin> set (snd st)")
    case True
    then obtain res seen where v: "resolveSequence k g d st = Some (res, seen)" "set (snd st) \<subseteq> set seen"
      using 4 by force
    have "card (U - set seen) \<le> card (U - set (snd st))" by (rule card_mono) (use 4 v(2) in auto)
    with 4 True v obtain res' seen' where "resolve_deps k g ds (res, seen) = Some (res', seen')" "set seen \<subseteq> set seen'"
      by force
    with True v show ?thesis by auto
  next
    case False
    with 4 show ?thesis by auto
  qed
qed

text \<open>The stack of the traversal is what was seen but is not resolved.\<close>

definition resolve_inv :: "deps_map \<Rightarrow> string list \<times> string list \<Rightarrow> bool" where
  "resolve_inv g st \<longleftrightarrow> set (fst st) \<subseteq> set (snd st) \<and> distinct (fst st) \<and> deps_first g {} (fst st)"

definition on_stack :: "string list \<times> string list \<Rightarrow> string set" where
  "on_stack st = set (snd st) - set (fst st)"

lemma resolve_order:
  "acyclic (edges g) \<Longrightarrow> resolve_inv g st \<Longrightarrow> name \<notin> set (snd st) \<Longrightarrow>
     (\<And>x. x \<in> on_stack st \<Longrightarrow> (x, name) \<in> (edges g)\<^sup>+) \<Longrightarrow> resolveSequence k g name st = Some st' \<Longrightarrow>
     resolve_inv g st' \<and> on_stack st' = on_stack st \<and>
     (\<exists>new. fst st' = fst st @ new @ [name] \<and> set new \<subseteq> (edges g)\<^sup>* `` {name})"
  "acyclic (edges g) \<Longrightarrow> resolve_inv g st \<Longrightarrow>
     (\<And>x d. x \<in> on_stack st \<Longrightarrow> d \<in> set ds \<Longrightarrow> (x, d) \<in> (edges g)\<^sup>+) \<Longrightarrow> resolve_deps k g ds st = Some st' \<Longrightarrow>
     resolve_inv g st' \<and> on_stack st' = on_stack st \<and> set ds \<subseteq> set (fst st') \<and>
     (\<exists>new. fst st' = fst st @ new \<and> set new \<subseteq> (edges g)\<^sup>* `` set ds)"
proof (induction k g name st and k g ds st arbitrary: st' and st' rule: resolveSequence_resolve_deps.induct)
  case (1 g name st)
  then show ?case by simp
next
  case (2 k g name st)
  let ?st = "(fst st, snd st @ [name])"
  from 2(6) obtain st1 where st1: "resolve_deps k g (Deps g name) ?st = Some st1" "st' = (fst st1 @ [name], snd st1)"
    by (auto split: option.splits)
  have stack: "on_stack ?st = insert name (on_stack st)" and inv: "resolve_inv g ?st"
    using 2(3,4) by (auto simp: on_stack_def resolve_inv_def)
  have "(x, d) \<in> (edges g)\<^sup>+" if "x \<in> on_stack ?st" "d \<in> set (Deps g name)" for x d
  proof -
    have "(name, d) \<in> edges g" using that(2) by (simp add: edges_def)
    with that(1) 2(5) show ?thesis unfolding stack by (auto intro: trancl_into_trancl)
  qed
  from 2(1)[OF 2(2) inv this st1(1)] obtain new where rec: "resolve_inv g st1" "on_stack st1 = on_stack ?st"
      "set (Deps g name) \<subseteq> set (fst st1)" "fst st1 = fst st @ new" "set new \<subseteq> (edges g)\<^sup>* `` set (Deps g name)"
    by auto
  have "name \<notin> set (fst st1)" "name \<in> set (snd st1)"
    using rec(2) unfolding stack by (auto simp: on_stack_def)
  with rec stack st1(2) have "resolve_inv g st'" "on_stack st' = on_stack st"
    using 2(4) by (auto simp: resolve_inv_def on_stack_def)
  moreover have "set new \<subseteq> (edges g)\<^sup>* `` {name}"
    using rec(5) by (fastforce simp: edges_def intro: converse_rtrancl_into_rtrancl)
  ultimately show ?case using st1(2) rec(4) by auto
next
  case (3 k g st)
  then show ?case by auto
next
  case (4 k g d ds st)
  show ?case
  proof (cases "d \<notin> set (fst st) \<and> d \<notin> set (snd st)")
    case True
    with 4(7) obtain st1 where st1: "resolveSequence k g d st = Some st1" "resolve_deps k g ds st1 = Some st'"
      by (auto split: option.splits)
    have d: "\<And>x. x \<in> on_stack st \<Longrightarrow> (x, d) \<in> (edges g)\<^sup>+" using 4(6) by simp
    from 4(1)[OF True 4(4,5) _ d st1(1)] True obtain new where v: "resolve_inv g st1" "on_stack st1 = on_stack st"
      "fst st1 = fst st @ new @ [d]" "set new \<subseteq> (edges g)\<^sup>* `` {d}"
      by blast
    have ds: "\<And>x e. x \<in> on_stack st1 \<Longrightarrow> e \<in> set ds \<Longrightarrow> (x, e) \<in> (edges g)\<^sup>+" using 4(6) v(2) by simp
    from 4(2)[OF True st1(1) 4(4) v(1) ds st1(2)] obtain new' where r: "resolve_inv g st'" "on_stack st' = on_stack st1"
      "set ds \<subseteq> set (fst st')" "fst st' = fst st1 @ new'" "set new' \<subseteq> (edges g)\<^sup>* `` set ds"
      by blast
    have app: "fst st' = fst st @ (new @ [d] @ new')" using v(3) r(4) by simp
    have new: "set (new @ [d] @ new') \<subseteq> (edges g)\<^sup>* `` set (d # ds)" using v(4) r(5) by auto
    have all: "set (d # ds) \<subseteq> set (fst st')" using r(3) unfolding app by auto
    have stack: "on_stack st' = on_stack st" using r(2) v(2) by (rule trans)
    show ?thesis by (intro conjI exI[of _ "new @ [d] @ new'"]) (rule r(1), rule stack, rule all, rule app, rule new)
  next
    case False
    have "d \<in> on_stack st \<Longrightarrow> (d, d) \<in> (edges g)\<^sup>+" by (rule 4(6)) simp_all
    with 4(4) have "d \<notin> on_stack st" unfolding acyclic_def by blast
    with False 4(5) have d: "d \<in> set (fst st)" by (auto simp: on_stack_def resolve_inv_def)
    with 4(7) have st': "resolve_deps k g ds st = Some st'" by simp
    from 4(6) have ds: "\<And>x e. x \<in> on_stack st \<Longrightarrow> e \<in> set ds \<Longrightarrow> (x, e) \<in> (edges g)\<^sup>+" by simp
    from 4(3)[OF False 4(4,5) ds st'] obtain new where "resolve_inv g st'" "on_stack st' = on_stack st"
      "set ds \<subseteq> set (fst st')" "fst st' = fst st @ new" "set new \<subseteq> (edges g)\<^sup>* `` set ds"
      by blast
    with d show ?thesis by (auto simp: Image_def)
  qed
qed

text \<open>
  Property C33: in a graph without a circle, the dependencies of a sequence are listed each once, after
  the ones that they need themselves, and they are all the names that the sequence leads to; the
  traversal returns, to a depth of the number of names.
\<close>

theorem dependencies_in_order:
  assumes "acyclic (edges g)" "finite U" "root \<in> U" "\<And>n. n \<in> U \<Longrightarrow> set (g n) \<subseteq> U"
  shows "case resolveSequence (card U) g root ([], []) of
      None \<Rightarrow> False
    | Some (deps, seen) \<Rightarrow> distinct deps \<and> deps_first g {} deps \<and> set deps = (edges g)\<^sup>* `` {root} \<and> last deps = root"
proof -
  obtain deps seen where r: "resolveSequence (card U) g root ([], []) = Some (deps, seen)"
    using resolve_returns(1)[of U g root "([], [])" "card U"] assms by auto
  have start: "resolve_inv g ([], [])" "on_stack ([], []) = {}" by (simp_all add: resolve_inv_def on_stack_def)
  have "resolve_inv g (deps, seen) \<and> on_stack (deps, seen) = on_stack ([], []) \<and>
     (\<exists>new. fst (deps, seen) = fst ([], []) @ new @ [root] \<and> set new \<subseteq> (edges g)\<^sup>* `` {root})"
    using resolve_order(1)[OF assms(1) start(1) _ _ r] start(2) by simp
  then obtain new where deps: "deps = new @ [root]" "set new \<subseteq> (edges g)\<^sup>* `` {root}"
      "distinct deps" "deps_first g {} deps"
    by (auto simp: resolve_inv_def)
  moreover have "(edges g)\<^sup>* `` {root} \<subseteq> set deps"
    using deps_first_reach[OF deps(4)] deps(1) by auto
  ultimately show ?thesis by (auto simp: r)
qed

definition example_deps :: deps_map where
  "example_deps n = (if n = ''a'' then [''b'', ''c''] else if n = ''b'' then [''c''] else [])"

lemma dependencies_in_order_witness:
  "case resolveSequence 3 example_deps ''a'' ([], []) of
     None \<Rightarrow> False | Some (deps, seen) \<Rightarrow> distinct deps \<and> set deps = {''a'', ''b'', ''c''} \<and> last deps = ''a''"
proof -
  have e: "edges example_deps = {(''a'', ''b''), (''a'', ''c''), (''b'', ''c'')}"
    by (auto simp: edges_def example_deps_def split: if_splits)
  have "edges example_deps \<subseteq> inv_image less_than (\<lambda>n. if n = ''a'' then 0 else if n = ''b'' then 1 else 2)"
    by (simp add: e)
  then have acyc: "acyclic (edges example_deps)" by (rule acyclic_subset[OF wf_acyclic, rotated]) simp
  have "x \<in> {''a'', ''b'', ''c''}" if "(''a'', x) \<in> (edges example_deps)\<^sup>*" for x
    using that by (induction rule: rtrancl_induct) (auto simp: e)
  moreover have "(''a'', ''b'') \<in> (edges example_deps)\<^sup>*" "(''a'', ''c'') \<in> (edges example_deps)\<^sup>*" by (auto simp: e)
  ultimately have reach: "(edges example_deps)\<^sup>* `` {''a''} = {''a'', ''b'', ''c''}" by blast
  have three: "card {''a'', ''b'', ''c''} = (3 :: nat)" by simp
  have "set (example_deps n) \<subseteq> {''a'', ''b'', ''c''}" for n by (auto simp: example_deps_def)
  then show ?thesis
    using dependencies_in_order[OF acyc, of "{''a'', ''b'', ''c''}" "''a''"] unfolding reach three
    by (cases "resolveSequence 3 example_deps ''a'' ([], [])") auto
qed

end
