(* ===== verification/Producers.thy ===== *)
theory Producers
  imports Sequence Errors
begin

text \<open>
  The requests of an endpoint at work (\<open>handler/endpoint.go\<close>): the channels between them
  (\<open>newChannels\<close>, \<open>fillChannels\<close>) and the goroutine that \<open>produce\<close> starts for each producer. A
  goroutine drains its input channels, then sends its request, then passes the result to its output
  channels; \<open>readResults\<close> reads the results of the sequences.

  The goroutines interleave between any two channel operations. Channels have a buffer of one and
  carry pointers to result objects, which \<open>drainInputChannels\<close> modifies; so the state has the
  objects, and the channels carry the names of the goroutines that created them. The outcome of a
  request is an argument.
\<close>

section \<open>Channels\<close>

record channels =
  ch_in :: "string \<Rightarrow> nat list"
  ch_out :: "string \<Rightarrow> nat list"
  ch_result :: "string \<Rightarrow> nat option"
  ch_next :: nat

definition no_channels :: channels where
  "no_channels = \<lparr>ch_in = (\<lambda>n. []), ch_out = (\<lambda>n. []), ch_result = (\<lambda>n. None), ch_next = 0\<rparr>"

definition link_channel :: "string \<Rightarrow> string \<Rightarrow> channels \<Rightarrow> channels" where
  "link_channel n d net =
     net\<lparr>ch_in := (ch_in net)(n := ch_in net n @ [ch_next net]),
         ch_out := (ch_out net)(d := ch_out net d @ [ch_next net]), ch_next := ch_next net + 1\<rparr>"

definition result_channel :: "string \<Rightarrow> channels \<Rightarrow> channels" where
  "result_channel n net =
     (if ch_result net n = None
      then net\<lparr>ch_out := (ch_out net)(n := ch_out net n @ [ch_next net]),
               ch_result := (ch_result net)(n := Some (ch_next net)), ch_next := ch_next net + 1\<rparr>
      else net)"

fun fillChannels :: "nat \<Rightarrow> deps_map \<Rightarrow> string \<Rightarrow> channels \<Rightarrow> channels option"
  and fill_deps :: "nat \<Rightarrow> deps_map \<Rightarrow> string \<Rightarrow> string list \<Rightarrow> channels \<Rightarrow> channels option" where
  "fillChannels 0 g n net = None"
| "fillChannels (Suc k) g n net = map_option (result_channel n) (fill_deps k g n (Deps g n) net)"
| "fill_deps k g n [] net = Some net"
| "fill_deps k g n (d # ds) net =
     (case fillChannels k g d (link_channel n d net) of
        None \<Rightarrow> None
      | Some net' \<Rightarrow> fill_deps k g n ds net')"

fun fill_all :: "nat \<Rightarrow> deps_map \<Rightarrow> string list \<Rightarrow> channels \<Rightarrow> channels option" where
  "fill_all k g [] net = Some net"
| "fill_all k g (i # is') net =
     (case fillChannels k g i net of None \<Rightarrow> None | Some net' \<Rightarrow> fill_all k g is' net')"

definition newChannels :: "nat \<Rightarrow> deps_map \<Rightarrow> string list \<Rightarrow> channels option" where
  "newChannels k g l = fill_all k g l no_channels"

section \<open>The goroutines\<close>

text \<open>\<open>SequenceOfNil\<close> is the sequence error whose inner error is a nil pointer: \<open>drainInputChannels\<close>
  wraps the failed assertion to a Couper error. Asking it for its kinds panics.\<close>

datatype run_error = RunError go_error | SequenceOfNil

record 'r result =
  rs_resp :: "'r option"
  rs_err :: "run_error option"

definition ResultPanic :: "'r result" where
  "ResultPanic = \<lparr>rs_resp = None, rs_err = Some (RunError (PlainError ''panic''))\<rparr>"

definition hasSequenceKind :: "go_error \<Rightarrow> bool" where
  "hasSequenceKind e \<longleftrightarrow> ''sequence'' \<in> set (err_Kinds e)"

text \<open>The error that a failed input is passed on with; \<open>None\<close> is the panic.\<close>

fun drain_error :: "run_error \<Rightarrow> run_error option" where
  "drain_error (RunError e) =
     Some (if \<not> is_couper e then SequenceOfNil
           else if hasSequenceKind e then RunError e else RunError (err_With (Some e) (error_def ''sequence'')))"
| "drain_error SequenceOfNil = None"

datatype goroutine = Reading "nat list" | Sending string "nat list"

record 'r run =
  ru_chan :: "nat \<Rightarrow> string option"
  ru_obj :: "string \<Rightarrow> 'r result option"
  ru_pc :: "string \<Rightarrow> goroutine"
  ru_ran :: "string list"
  ru_left :: "string list"
  ru_results :: "string \<rightharpoonup> string"

definition run_init :: "channels \<Rightarrow> string list \<Rightarrow> 'r run" where
  "run_init net l =
     \<lparr>ru_chan = (\<lambda>c. None), ru_obj = (\<lambda>n. None), ru_pc = (\<lambda>n. Reading (ch_in net n)), ru_ran = [], ru_left = l,
      ru_results = Map.empty\<rparr>"

definition take_from :: "nat \<Rightarrow> 'r run \<Rightarrow> 'r run" where
  "take_from c s = s\<lparr>ru_chan := (ru_chan s)(c := None)\<rparr>"

definition set_pc :: "string \<Rightarrow> goroutine \<Rightarrow> 'r run \<Rightarrow> 'r run" where
  "set_pc n p s = s\<lparr>ru_pc := (ru_pc s)(n := p)\<rparr>"

definition set_obj :: "string \<Rightarrow> 'r result \<Rightarrow> 'r run \<Rightarrow> 'r run" where
  "set_obj ref r s = s\<lparr>ru_obj := (ru_obj s)(ref := Some r)\<rparr>"

inductive run_step :: "channels \<Rightarrow> string list \<Rightarrow> (string \<Rightarrow> 'r result) \<Rightarrow> 'r run \<Rightarrow> 'r run \<Rightarrow> bool"
  for net producers own where
  drain: "n \<in> set producers \<Longrightarrow> ru_pc s n = Reading (c # cs) \<Longrightarrow> ru_chan s c = Some ref \<Longrightarrow> ru_obj s ref = Some r \<Longrightarrow>
    rs_err r = None \<Longrightarrow> run_step net producers own s (set_pc n (Reading cs) (take_from c s))"
| drain_failed: "n \<in> set producers \<Longrightarrow> ru_pc s n = Reading (c # cs) \<Longrightarrow> ru_chan s c = Some ref \<Longrightarrow> ru_obj s ref = Some r \<Longrightarrow>
    rs_err r = Some e \<Longrightarrow> drain_error e = Some e' \<Longrightarrow>
    run_step net producers own s
      (set_pc n (Sending ref (ch_out net n)) (set_obj ref (r\<lparr>rs_err := Some e'\<rparr>) (take_from c s)))"
| drain_panics: "n \<in> set producers \<Longrightarrow> ru_pc s n = Reading (c # cs) \<Longrightarrow> ru_chan s c = Some ref \<Longrightarrow> ru_obj s ref = Some r \<Longrightarrow>
    rs_err r = Some e \<Longrightarrow> drain_error e = None \<Longrightarrow>
    run_step net producers own s (set_pc n (Sending n (ch_out net n)) (set_obj n ResultPanic (take_from c s)))"
| produce: "n \<in> set producers \<Longrightarrow> ru_pc s n = Reading [] \<Longrightarrow>
    run_step net producers own s
      (set_pc n (Sending n (ch_out net n)) (set_obj n (own n) (s\<lparr>ru_ran := ru_ran s @ [n]\<rparr>)))"
| pass: "n \<in> set producers \<Longrightarrow> ru_pc s n = Sending ref (c # cs) \<Longrightarrow> ru_chan s c = None \<Longrightarrow>
    run_step net producers own s (set_pc n (Sending ref cs) (s\<lparr>ru_chan := (ru_chan s)(c := Some ref)\<rparr>))"
| readResult: "ru_left s = n # rest \<Longrightarrow> ch_result net n = Some c \<Longrightarrow> ru_chan s c = Some ref \<Longrightarrow>
    run_step net producers own s ((take_from c s)\<lparr>ru_left := rest, ru_results := (ru_results s)(n \<mapsto> ref)\<rparr>)"

inductive run_reach :: "channels \<Rightarrow> string list \<Rightarrow> string list \<Rightarrow> (string \<Rightarrow> 'r result) \<Rightarrow> 'r run \<Rightarrow> bool"
  for net l producers own where
  start: "run_reach net l producers own (run_init net l)"
| step: "run_reach net l producers own s \<Longrightarrow> run_step net producers own s s' \<Longrightarrow> run_reach net l producers own s'"

text \<open>What \<open>produce\<close> returns when all results are read: an error, if one of the results has one; which one
  depends on the order in which the map of the results yields them.\<close>

definition produce_error :: "string list \<Rightarrow> 'r run \<Rightarrow> run_error option" where
  "produce_error order s =
     (case filter (\<lambda>e. e \<noteq> None) (map (\<lambda>n. Option.bind (Option.bind (ru_results s n) (ru_obj s)) rs_err) order) of
        [] \<Rightarrow> None | e # es \<Rightarrow> e)"

section \<open>The network of channels\<close>

text \<open>Every channel has one writer and one reader, who depends on the writer; a result channel is read
  by nobody else.\<close>

definition net_ok :: "deps_map \<Rightarrow> channels \<Rightarrow> bool" where
  "net_ok g net \<longleftrightarrow>
     (\<forall>n. \<forall>c \<in> set (ch_in net n). \<exists>d \<in> set (g n). c \<in> set (ch_out net d)) \<and>
     (\<forall>n. distinct (ch_out net n) \<and> distinct (ch_in net n)) \<and>
     (\<forall>n. \<forall>c \<in> set (ch_out net n) \<union> set (ch_in net n). c < ch_next net) \<and>
     (\<forall>n m. n \<noteq> m \<longrightarrow> set (ch_out net n) \<inter> set (ch_out net m) = {} \<and> set (ch_in net n) \<inter> set (ch_in net m) = {}) \<and>
     (\<forall>n c. ch_result net n = Some c \<longrightarrow> c \<in> set (ch_out net n) \<and> (\<forall>m. c \<notin> set (ch_in net m)))"

definition linked :: "channels \<Rightarrow> string \<Rightarrow> string \<Rightarrow> bool" where
  "linked net n d \<longleftrightarrow> (\<exists>c. c \<in> set (ch_in net n) \<and> c \<in> set (ch_out net d))"

definition visited :: "channels \<Rightarrow> string \<Rightarrow> bool" where
  "visited net n \<longleftrightarrow> ch_result net n \<noteq> None"

definition net_covers :: "deps_map \<Rightarrow> channels \<Rightarrow> bool" where
  "net_covers g net \<longleftrightarrow> (\<forall>n. visited net n \<longrightarrow> (\<forall>d \<in> set (g n). visited net d \<and> linked net n d))"

definition net_le :: "channels \<Rightarrow> channels \<Rightarrow> bool" where
  "net_le a b \<longleftrightarrow> (\<forall>n. visited a n \<longrightarrow> visited b n) \<and> (\<forall>n d. linked a n d \<longrightarrow> linked b n d)"

lemma net_le_refl [simp]: "net_le a a" and net_le_trans: "net_le a b \<Longrightarrow> net_le b c \<Longrightarrow> net_le a c"
  by (auto simp: net_le_def)

lemma net_fresh:
  assumes "net_ok g net"
  shows "ch_next net \<notin> set (ch_out net n)" "ch_next net \<notin> set (ch_in net n)" "ch_result net n \<noteq> Some (ch_next net)"
proof -
  show "ch_next net \<notin> set (ch_out net n)" "ch_next net \<notin> set (ch_in net n)" for n
    using assms by (auto simp: net_ok_def)
  then show "ch_result net n \<noteq> Some (ch_next net)" using assms unfolding net_ok_def by blast
qed

lemma link_ok: "net_ok g net \<Longrightarrow> d \<in> set (g n) \<Longrightarrow> net_ok g (link_channel n d net)"
  using net_fresh[of g net] unfolding net_ok_def link_channel_def by (auto simp: less_Suc_eq) metis+

lemma result_ok: "net_ok g net \<Longrightarrow> net_ok g (result_channel n net)"
  using net_fresh[of g net] unfolding net_ok_def result_channel_def by (auto simp: less_Suc_eq) metis+

lemma link_le: "net_le net (link_channel n d net)" "linked (link_channel n d net) n d"
  by (auto simp: net_le_def linked_def visited_def link_channel_def)

lemma result_le: "net_le net (result_channel n net)" "visited (result_channel n net) n"
  by (auto simp: net_le_def linked_def visited_def result_channel_def)

lemma fill_ok:
  "fillChannels k g n net = Some net' \<Longrightarrow> net_ok g net \<Longrightarrow> net_ok g net' \<and> net_le net net' \<and> visited net' n"
  "fill_deps k g n ds net = Some net' \<Longrightarrow> net_ok g net \<Longrightarrow> set ds \<subseteq> set (g n) \<Longrightarrow>
     net_ok g net' \<and> net_le net net' \<and> (\<forall>d \<in> set ds. visited net' d \<and> linked net' n d)"
proof (induction k g n net and k g n ds net arbitrary: net' and net' rule: fillChannels_fill_deps.induct)
  case (1 g n net)
  then show ?case by simp
next
  case (2 k g n net)
  then obtain net1 where net1: "fill_deps k g n (Deps g n) net = Some net1" "net' = result_channel n net1" by auto
  with 2 have "net_ok g net1" "net_le net net1" by auto
  with net1(2) result_ok result_le net_le_trans show ?case by blast
next
  case (3 k g n net)
  then show ?case by simp
next
  case (4 k g n d ds net)
  then obtain net1 where net1: "fillChannels k g d (link_channel n d net) = Some net1" "fill_deps k g n ds net1 = Some net'"
    by (auto split: option.splits)
  have "net_ok g (link_channel n d net)" using 4 by (simp add: link_ok)
  with 4(1)[OF net1(1)] have v: "net_ok g net1" "net_le (link_channel n d net) net1" "visited net1 d" by auto
  with 4(2)[OF net1] 4(5) have r: "net_ok g net'" "net_le net1 net'" "\<forall>d \<in> set ds. visited net' d \<and> linked net' n d" by auto
  have "visited net' d" "linked net' n d" using v r(2) link_le(2)[of n d net] by (auto simp: net_le_def)
  with r v show ?case by (auto intro: net_le_trans link_le)
qed

lemma net_covers_link: "net_covers g net \<Longrightarrow> net_covers g (link_channel n d net)"
  using link_le(1)[of net n d] unfolding net_covers_def net_le_def by (simp add: visited_def link_channel_def)

lemma net_covers_result:
  assumes "net_covers g net" "\<forall>d \<in> set (g n). visited net d \<and> linked net n d"
  shows "net_covers g (result_channel n net)"
proof -
  have "visited (result_channel n net) m \<Longrightarrow> m = n \<or> visited net m" for m
    by (auto simp: visited_def result_channel_def split: if_splits)
  with assms result_le(1)[of net n] show ?thesis unfolding net_covers_def net_le_def by blast
qed

lemma fill_covers:
  "fillChannels k g n net = Some net' \<Longrightarrow> net_ok g net \<Longrightarrow> net_covers g net \<Longrightarrow> net_covers g net'"
  "fill_deps k g n ds net = Some net' \<Longrightarrow> net_ok g net \<Longrightarrow> set ds \<subseteq> set (g n) \<Longrightarrow> net_covers g net \<Longrightarrow> net_covers g net'"
proof (induction k g n net and k g n ds net arbitrary: net' and net' rule: fillChannels_fill_deps.induct)
  case (2 k g n net)
  then obtain net1 where net1: "fill_deps k g n (Deps g n) net = Some net1" "net' = result_channel n net1" by auto
  with 2 have "net_covers g net1" by auto
  with fill_ok(2)[OF net1(1) 2(3)] net1(2) show ?case by (auto intro: net_covers_result)
next
  case (4 k g n d ds net)
  then obtain net1 where net1: "fillChannels k g d (link_channel n d net) = Some net1" "fill_deps k g n ds net1 = Some net'"
    by (auto split: option.splits)
  have l: "net_ok g (link_channel n d net)" "net_covers g (link_channel n d net)"
    using 4 by (simp_all add: link_ok net_covers_link)
  from 4(1)[OF net1(1) l] fill_ok(1)[OF net1(1) l(1)] 4(2)[OF net1] 4(5) show ?case by auto
qed auto

text \<open>The recursion ends only where the graph has no circle, so the dependencies of a visited name are
  well-founded.\<close>

definition founded :: "deps_map \<Rightarrow> string set" where
  "founded g = Wellfounded.acc ((edges g)\<inverse>)"

lemma founded_iff: "n \<in> founded g \<longleftrightarrow> set (g n) \<subseteq> founded g"
  unfolding founded_def by (subst acc.simps) (auto simp: edges_def)

lemma founded_induct [consumes 1, case_names founded]:
  assumes "n \<in> founded g" "\<And>n. (\<And>d. d \<in> set (g n) \<Longrightarrow> P d) \<Longrightarrow> P n"
  shows "P n"
  using assms(1) unfolding founded_def by (induction rule: acc_induct_rule) (auto intro: assms(2) simp: edges_def)

lemma fill_founded:
  "fillChannels k g n net = Some net' \<Longrightarrow> n \<in> founded g"
  "fill_deps k g n ds net = Some net' \<Longrightarrow> set ds \<subseteq> founded g"
proof (induction k g n net and k g n ds net arbitrary: net' and net' rule: fillChannels_fill_deps.induct)
  case (2 k g n net)
  then have "set (g n) \<subseteq> founded g" by auto
  then show ?case by (simp add: founded_iff[of n])
next
  case (4 k g n d ds net)
  then show ?case by (auto split: option.splits)
qed auto

lemma founded_reach: "(n, m) \<in> (edges g)\<^sup>* \<Longrightarrow> n \<in> founded g \<Longrightarrow> m \<in> founded g"
proof (induction rule: rtrancl_induct)
  case (step y z)
  then have "set (g y) \<subseteq> founded g" using founded_iff by blast
  with step(2) show ?case by (auto simp: edges_def)
qed

lemma covers_reach: "(n, m) \<in> (edges g)\<^sup>* \<Longrightarrow> net_covers g net \<Longrightarrow> visited net n \<Longrightarrow> visited net m"
  by (induction rule: rtrancl_induct) (auto simp: edges_def net_covers_def)

lemma no_channels_ok: "net_ok g no_channels" "net_covers g no_channels"
  by (simp_all add: net_ok_def net_covers_def visited_def no_channels_def)

lemma fill_all_ok:
  "fill_all k g l net = Some net' \<Longrightarrow> net_ok g net \<Longrightarrow> net_covers g net \<Longrightarrow>
     net_ok g net' \<and> net_covers g net' \<and> net_le net net' \<and> (\<forall>i \<in> set l. visited net' i \<and> i \<in> founded g)"
proof (induction k g l net arbitrary: net' rule: fill_all.induct)
  case (1 k g net)
  then show ?case by simp
next
  case (2 k g i is' net)
  then obtain net1 where net1: "fillChannels k g i net = Some net1" "fill_all k g is' net1 = Some net'"
    by (auto split: option.splits)
  from fill_ok(1)[OF net1(1) 2(3)] fill_covers(1)[OF net1(1) 2(3,4)]
  have f: "net_ok g net1" "net_covers g net1" "net_le net net1" "visited net1 i" by auto
  with 2(1)[OF net1] have r: "net_ok g net'" "net_covers g net'" "net_le net1 net'"
      "\<forall>i \<in> set is'. visited net' i \<and> i \<in> founded g" by auto
  with f fill_founded(1)[OF net1(1)] show ?case by (auto intro: net_le_trans simp: net_le_def)
qed

lemma newChannels_ok:
  assumes "newChannels k g l = Some net"
  shows "net_ok g net" "net_covers g net" "i \<in> set l \<Longrightarrow> visited net i" "i \<in> set l \<Longrightarrow> i \<in> founded g"
  using fill_all_ok[of k g l no_channels net] assms no_channels_ok by (auto simp: newChannels_def)

section \<open>Runs\<close>

text \<open>What a goroutine's reference tells: the request was sent and succeeded, and it is its result; or the
  result that it passes on has an error.\<close>

definition good :: "(string \<Rightarrow> 'r result) \<Rightarrow> 'r run \<Rightarrow> string \<Rightarrow> string \<Rightarrow> bool" where
  "good own s n ref \<longleftrightarrow> (\<exists>r. ru_obj s ref = Some r \<and>
     (if n \<in> set (ru_ran s) \<and> rs_err (own n) = None then ref = n \<and> r = own n else rs_err r \<noteq> None))"

definition pc_ok :: "channels \<Rightarrow> string list \<Rightarrow> (string \<Rightarrow> 'r result) \<Rightarrow> 'r run \<Rightarrow> string \<Rightarrow> bool" where
  "pc_ok net producers own s n \<longleftrightarrow>
     (case ru_pc s n of
        Reading cs \<Rightarrow> n \<notin> set (ru_ran s) \<and> ru_obj s n = None \<and> (\<exists>before. ch_in net n = before @ cs \<and>
          (\<forall>c \<in> set before. \<exists>d \<in> set (ru_ran s). rs_err (own d) = None \<and> c \<in> set (ch_out net d)))
      | Sending ref todo \<Rightarrow> n \<in> set producers \<and> (\<exists>sent. ch_out net n = sent @ todo) \<and> good own s n ref)"

definition chan_ok :: "channels \<Rightarrow> 'r run \<Rightarrow> bool" where
  "chan_ok net s \<longleftrightarrow> (\<forall>c ref. ru_chan s c = Some ref \<longrightarrow>
     (\<exists>n todo. c \<in> set (ch_out net n) \<and> ru_pc s n = Sending ref todo \<and> c \<notin> set todo))"

definition ran_ok :: "deps_map \<Rightarrow> string list \<Rightarrow> (string \<Rightarrow> 'r result) \<Rightarrow> 'r run \<Rightarrow> bool" where
  "ran_ok g producers own s \<longleftrightarrow> distinct (ru_ran s) \<and> set (ru_ran s) \<subseteq> set producers \<and> deps_first g {} (ru_ran s) \<and>
     (\<forall>n \<in> set (ru_ran s). \<forall>d \<in> set (g n). rs_err (own d) = None)"

definition results_ok :: "'r run \<Rightarrow> bool" where
  "results_ok s \<longleftrightarrow> (\<forall>n ref. ru_results s n = Some ref \<longrightarrow> (\<exists>todo. ru_pc s n = Sending ref todo))"

definition run_inv :: "deps_map \<Rightarrow> channels \<Rightarrow> string list \<Rightarrow> (string \<Rightarrow> 'r result) \<Rightarrow> 'r run \<Rightarrow> bool" where
  "run_inv g net producers own s \<longleftrightarrow>
     (\<forall>n. pc_ok net producers own s n) \<and> chan_ok net s \<and> ran_ok g producers own s \<and> results_ok s"

lemmas run_updates = take_from_def set_pc_def set_obj_def

lemma one_writer: "net_ok g net \<Longrightarrow> c \<in> set (ch_out net n) \<Longrightarrow> c \<in> set (ch_out net m) \<Longrightarrow> n = m"
  unfolding net_ok_def by blast

lemma one_reader: "net_ok g net \<Longrightarrow> c \<in> set (ch_in net n) \<Longrightarrow> c \<in> set (ch_in net m) \<Longrightarrow> n = m"
  unfolding net_ok_def by blast

lemma pc_ok_at: "run_inv g net producers own s \<Longrightarrow> pc_ok net producers own s n"
  by (simp add: run_inv_def)

lemma pc_okD:
  assumes "run_inv g net producers own s"
  shows "ru_pc s n = Reading cs \<Longrightarrow> n \<notin> set (ru_ran s) \<and> ru_obj s n = None \<and> set cs \<subseteq> set (ch_in net n)"
    and "ru_pc s n = Sending ref todo \<Longrightarrow> n \<in> set producers \<and> good own s n ref \<and> set todo \<subseteq> set (ch_out net n)"
  using pc_ok_at[OF assms, of n] by (auto simp: pc_ok_def)

lemma pc_ok_frame:
  assumes "pc_ok net producers own s m" "ru_pc s' m = ru_pc s m" "m \<in> set (ru_ran s') \<longleftrightarrow> m \<in> set (ru_ran s)"
    and "set (ru_ran s) \<subseteq> set (ru_ran s')" "ru_obj s m = None \<Longrightarrow> ru_obj s' m = None"
    and "\<And>ref. good own s m ref \<Longrightarrow> good own s' m ref"
  shows "pc_ok net producers own s' m"
proof (cases "ru_pc s m")
  case (Reading cs)
  with assms(1) obtain before where "ch_in net m = before @ cs" "m \<notin> set (ru_ran s)" "ru_obj s m = None"
      "\<forall>c \<in> set before. \<exists>d \<in> set (ru_ran s). rs_err (own d) = None \<and> c \<in> set (ch_out net d)"
    by (auto simp: pc_ok_def)
  with Reading assms(2-5) show ?thesis by (simp add: pc_ok_def) blast
next
  case (Sending ref todo)
  with assms show ?thesis by (simp add: pc_ok_def)
qed

lemma writer:
  assumes "run_inv g net producers own s" "ru_chan s c = Some ref"
  obtains n todo where "c \<in> set (ch_out net n)" "ru_pc s n = Sending ref todo" "c \<notin> set todo" "good own s n ref"
  using assms pc_okD(2)[OF assms(1)] unfolding run_inv_def chan_ok_def by metis

text \<open>The error of an object may be replaced by another error, and new objects may be created.\<close>

lemma good_replace:
  assumes "good own s n ref" "ru_obj s o' = Some r0" "rs_err r0 \<noteq> None" "rs_err r1 \<noteq> None"
    and "ru_obj s' = (ru_obj s)(o' := Some r1)" "ru_ran s' = ru_ran s"
  shows "good own s' n ref"
  using assms by (auto simp: good_def split: if_splits)

lemma good_create:
  assumes "good own s n ref" "ru_obj s o' = None" "ru_obj s' = (ru_obj s)(o' := Some r1)"
    and "n \<in> set (ru_ran s') \<longleftrightarrow> n \<in> set (ru_ran s)"
  shows "good own s' n ref"
  using assms by (auto simp: good_def split: if_splits)

lemma inv_drain:
  assumes inv: "run_inv g net producers own s" and "n \<in> set producers" "ru_pc s n = Reading (c # cs)"
    "ru_chan s c = Some ref" "ru_obj s ref = Some r" "rs_err r = None"
  shows "run_inv g net producers own (set_pc n (Reading cs) (take_from c s))"
proof -
  let ?s = "set_pc n (Reading cs) (take_from c s)"
  obtain d todo where d: "c \<in> set (ch_out net d)" "ru_pc s d = Sending ref todo" "good own s d ref"
    by (rule writer[OF inv assms(4)])
  have good: "good own ?s m ref' = good own s m ref'" for m ref' by (simp add: good_def run_updates)
  have ran: "rs_err (own d) = None" "d \<in> set (ru_ran s)" using d(3) assms(5,6) by (auto simp: good_def split: if_splits)
  obtain before where before: "ch_in net n = before @ c # cs" "n \<notin> set (ru_ran s)" "ru_obj s n = None"
      "\<forall>c \<in> set before. \<exists>d \<in> set (ru_ran s). rs_err (own d) = None \<and> c \<in> set (ch_out net d)"
    using pc_ok_at[OF inv, of n] assms(3) by (auto simp: pc_ok_def)
  have "ch_in net n = (before @ [c]) @ cs \<and> (\<forall>c \<in> set (before @ [c]). \<exists>d \<in> set (ru_ran s). rs_err (own d) = None \<and> c \<in> set (ch_out net d))"
    using before d(1) ran by auto
  then have "pc_ok net producers own ?s n" using before(2,3) by (simp add: pc_ok_def run_updates)
  moreover have "m \<noteq> n \<Longrightarrow> pc_ok net producers own ?s m" for m
    by (rule pc_ok_frame[OF pc_ok_at[OF inv]]) (simp_all add: good, simp_all add: run_updates)
  ultimately have "pc_ok net producers own ?s m" for m by (cases "m = n") auto
  moreover have "chan_ok net ?s"
    using inv assms(3) unfolding run_inv_def chan_ok_def by (auto simp: run_updates) (metis goroutine.distinct(1))
  moreover have "ran_ok g producers own ?s" using inv by (simp add: run_inv_def ran_ok_def run_updates)
  moreover have "results_ok ?s"
    using inv assms(3) unfolding run_inv_def results_ok_def
    by (auto simp: run_updates) (metis goroutine.distinct(1) not_Some_eq)
  ultimately show ?thesis by (simp add: run_inv_def)
qed

lemma inv_start_sending:
  assumes inv: "run_inv g net producers own s" and n: "n \<in> set producers" "ru_pc s n = Reading cs"
    and s': "ru_pc s' = (ru_pc s)(n := Sending ref (ch_out net n))" "ru_results s' = ru_results s"
      "\<And>c r. ru_chan s' c = Some r \<Longrightarrow> ru_chan s c = Some r"
    and ran: "ran_ok g producers own s'" "set (ru_ran s) \<subseteq> set (ru_ran s')" "set (ru_ran s') \<subseteq> insert n (set (ru_ran s))"
    and obj: "\<And>m. m \<noteq> n \<Longrightarrow> ru_obj s m = None \<Longrightarrow> ru_obj s' m = None"
    and good: "\<And>m r. m \<noteq> n \<Longrightarrow> good own s m r \<Longrightarrow> good own s' m r" "good own s' n ref"
  shows "run_inv g net producers own s'"
proof -
  have "pc_ok net producers own s' n" using n(1) good(2) by (simp add: pc_ok_def s'(1))
  moreover have "m \<noteq> n \<Longrightarrow> pc_ok net producers own s' m" for m
    by (rule pc_ok_frame[OF pc_ok_at[OF inv]]) (use s'(1) ran obj good(1) in auto)
  ultimately have "pc_ok net producers own s' m" for m by (cases "m = n") auto
  moreover have "chan_ok net s'"
  proof -
    have "\<exists>m todo. c \<in> set (ch_out net m) \<and> ru_pc s' m = Sending r todo \<and> c \<notin> set todo" if full: "ru_chan s' c = Some r" for c r
    proof -
      obtain m todo where m: "c \<in> set (ch_out net m)" "ru_pc s m = Sending r todo" "c \<notin> set todo"
        by (rule writer[OF inv s'(3)[OF full]])
      then have "m \<noteq> n" using n(2) by auto
      with m show ?thesis by (auto simp: s'(1))
    qed
    then show ?thesis by (simp add: chan_ok_def)
  qed
  moreover have "results_ok s'"
    using inv n(2) unfolding run_inv_def results_ok_def s'(1,2) by fastforce
  ultimately show ?thesis using ran(1) by (simp add: run_inv_def)
qed

lemma drain_error_Some: "drain_error e = Some e' \<Longrightarrow> rs_err (r\<lparr>rs_err := Some e'\<rparr>) \<noteq> None"
  by simp

lemma inv_drain_failed:
  assumes inv: "run_inv g net producers own s" and "n \<in> set producers" "ru_pc s n = Reading (c # cs)"
    "ru_chan s c = Some ref" "ru_obj s ref = Some r" "rs_err r = Some e"
  shows "run_inv g net producers own
      (set_pc n (Sending ref (ch_out net n)) (set_obj ref (r\<lparr>rs_err := Some e'\<rparr>) (take_from c s)))"
    (is "run_inv _ _ _ _ ?s")
proof (rule inv_start_sending[OF inv assms(2,3)])
  show "ru_pc ?s = (ru_pc s)(n := Sending ref (ch_out net n))" "ru_results ?s = ru_results s"
    "set (ru_ran s) \<subseteq> set (ru_ran ?s)" "set (ru_ran ?s) \<subseteq> insert n (set (ru_ran s))"
    "\<And>c r. ru_chan ?s c = Some r \<Longrightarrow> ru_chan s c = Some r"
    "\<And>m. m \<noteq> n \<Longrightarrow> ru_obj s m = None \<Longrightarrow> ru_obj ?s m = None"
    using assms(5) by (auto simp: run_updates split: if_splits)
  show "ran_ok g producers own ?s" using inv by (simp add: run_inv_def ran_ok_def run_updates)
  show "good own s m r' \<Longrightarrow> good own ?s m r'" for m r'
    by (rule good_replace[OF _ assms(5), of _ _ _ "r\<lparr>rs_err := Some e'\<rparr>"]) (use assms(6) in \<open>auto simp: run_updates\<close>)
  show "good own ?s n ref"
    using pc_okD(1)[OF inv assms(3)] by (simp add: good_def run_updates)
qed

lemma inv_drain_panics:
  assumes inv: "run_inv g net producers own s" and "n \<in> set producers" "ru_pc s n = Reading (c # cs)"
  shows "run_inv g net producers own (set_pc n (Sending n (ch_out net n)) (set_obj n ResultPanic (take_from c s)))"
    (is "run_inv _ _ _ _ ?s")
proof (rule inv_start_sending[OF inv assms(2,3)])
  show "ru_pc ?s = (ru_pc s)(n := Sending n (ch_out net n))" "ru_results ?s = ru_results s"
    "set (ru_ran s) \<subseteq> set (ru_ran ?s)" "set (ru_ran ?s) \<subseteq> insert n (set (ru_ran s))"
    "\<And>c r. ru_chan ?s c = Some r \<Longrightarrow> ru_chan s c = Some r"
    "\<And>m. m \<noteq> n \<Longrightarrow> ru_obj s m = None \<Longrightarrow> ru_obj ?s m = None"
    by (auto simp: run_updates split: if_splits)
  show "ran_ok g producers own ?s" using inv by (simp add: run_inv_def ran_ok_def run_updates)
  show "good own s m r' \<Longrightarrow> good own ?s m r'" for m r'
    by (rule good_create[of _ _ _ _ n _ ResultPanic]) (use pc_okD(1)[OF inv assms(3)] in \<open>auto simp: run_updates\<close>)
  show "good own ?s n n"
    using pc_okD(1)[OF inv assms(3)] by (simp add: good_def run_updates ResultPanic_def)
qed

text \<open>A network that the program builds, for producers that are all in a sequence.\<close>

definition run_net :: "deps_map \<Rightarrow> channels \<Rightarrow> string list \<Rightarrow> bool" where
  "run_net g net producers \<longleftrightarrow> net_ok g net \<and> net_covers g net \<and> (\<forall>n \<in> set producers. visited net n \<and> n \<in> founded g)"

lemma all_inputs_taken:
  assumes "run_net g net producers" "run_inv g net producers own s" "n \<in> set producers" "ru_pc s n = Reading []" "d \<in> set (g n)"
  shows "d \<in> set (ru_ran s) \<and> rs_err (own d) = None"
proof -
  have net: "net_ok g net" "linked net n d" using assms(1,3,5) by (auto simp: run_net_def net_covers_def)
  then obtain c where c: "c \<in> set (ch_in net n)" "c \<in> set (ch_out net d)" by (auto simp: linked_def)
  with pc_ok_at[OF assms(2), of n] assms(4) obtain d' where "d' \<in> set (ru_ran s)" "rs_err (own d') = None" "c \<in> set (ch_out net d')"
    by (auto simp: pc_ok_def)
  with one_writer[OF net(1) c(2)] show ?thesis by blast
qed

lemma inv_produce:
  assumes net: "run_net g net producers" and inv: "run_inv g net producers own s" and "n \<in> set producers" "ru_pc s n = Reading []"
  shows "run_inv g net producers own
      (set_pc n (Sending n (ch_out net n)) (set_obj n (own n) (s\<lparr>ru_ran := ru_ran s @ [n]\<rparr>)))"
    (is "run_inv _ _ _ _ ?s")
proof (rule inv_start_sending[OF inv assms(3,4)])
  show "ru_pc ?s = (ru_pc s)(n := Sending n (ch_out net n))" "ru_results ?s = ru_results s"
    "set (ru_ran s) \<subseteq> set (ru_ran ?s)" "set (ru_ran ?s) \<subseteq> insert n (set (ru_ran s))"
    "\<And>c r. ru_chan ?s c = Some r \<Longrightarrow> ru_chan s c = Some r"
    "\<And>m. m \<noteq> n \<Longrightarrow> ru_obj s m = None \<Longrightarrow> ru_obj ?s m = None"
    by (auto simp: run_updates split: if_splits)
  show "ran_ok g producers own ?s"
    using inv assms(3) pc_okD(1)[OF inv assms(4)] all_inputs_taken[OF net inv assms(3,4)]
    by (auto simp: run_inv_def ran_ok_def run_updates)
  show "m \<noteq> n \<Longrightarrow> good own s m r' \<Longrightarrow> good own ?s m r'" for m r'
    by (rule good_create[of _ _ _ _ n _ "own n"]) (use pc_okD(1)[OF inv assms(4)] in \<open>auto simp: run_updates\<close>)
  show "good own ?s n n" by (simp add: good_def run_updates)
qed

lemma inv_pass:
  assumes net: "run_net g net producers" and inv: "run_inv g net producers own s"
    and "ru_pc s n = Sending ref (c # cs)"
  shows "run_inv g net producers own (set_pc n (Sending ref cs) (s\<lparr>ru_chan := (ru_chan s)(c := Some ref)\<rparr>))"
    (is "run_inv _ _ _ _ ?s")
proof -
  have ok: "net_ok g net" using net by (simp add: run_net_def)
  have good: "good own ?s m r = good own s m r" for m r by (simp add: good_def run_updates)
  obtain sent where sent: "ch_out net n = sent @ c # cs" and n: "n \<in> set producers" "good own s n ref"
    using pc_ok_at[OF inv, of n] assms(3) by (auto simp: pc_ok_def)
  then have "ch_out net n = (sent @ [c]) @ cs" by simp
  then have "pc_ok net producers own ?s n" using n good by (simp add: pc_ok_def run_updates)
  moreover have "m \<noteq> n \<Longrightarrow> pc_ok net producers own ?s m" for m
    by (rule pc_ok_frame[OF pc_ok_at[OF inv]]) (simp_all add: good, simp_all add: run_updates)
  ultimately have "pc_ok net producers own ?s m" for m by (cases "m = n") auto
  moreover have "chan_ok net ?s"
  proof -
    have "distinct (ch_out net n)" using ok by (simp add: net_ok_def)
    then have "c \<notin> set cs" by (simp add: sent)
    have "\<exists>m todo. x \<in> set (ch_out net m) \<and> ru_pc ?s m = Sending r todo \<and> x \<notin> set todo" if full: "ru_chan ?s x = Some r" for x r
    proof (cases "x = c")
      case True
      with full \<open>c \<notin> set cs\<close> sent show ?thesis by (intro exI[of _ n] exI[of _ cs]) (simp add: run_updates)
    next
      case False
      with full have "ru_chan s x = Some r" by (simp add: run_updates)
      obtain m todo where m: "x \<in> set (ch_out net m)" "ru_pc s m = Sending r todo" "x \<notin> set todo"
        by (rule writer[OF inv \<open>ru_chan s x = Some r\<close>])
      with False assms(3) show ?thesis
        by (intro exI[of _ m]) (auto simp: run_updates)
    qed
    then show ?thesis by (simp add: chan_ok_def)
  qed
  moreover have "ran_ok g producers own ?s" using inv by (simp add: run_inv_def ran_ok_def run_updates)
  moreover have "results_ok ?s"
    using inv assms(3) unfolding run_inv_def results_ok_def
    by (auto simp: run_updates) (metis goroutine.inject(2))
  ultimately show ?thesis by (simp add: run_inv_def)
qed

lemma inv_read:
  assumes net: "run_net g net producers" and inv: "run_inv g net producers own s"
    and "ch_result net n = Some c" "ru_chan s c = Some ref"
  shows "run_inv g net producers own ((take_from c s)\<lparr>ru_left := rest, ru_results := (ru_results s)(n \<mapsto> ref)\<rparr>)"
    (is "run_inv _ _ _ _ ?s")
proof -
  have good: "good own ?s m r = good own s m r" for m r by (simp add: good_def run_updates)
  obtain m todo where m: "c \<in> set (ch_out net m)" "ru_pc s m = Sending ref todo" by (rule writer[OF inv assms(4)])
  have ok: "net_ok g net" using net by (simp add: run_net_def)
  with assms(3) have "c \<in> set (ch_out net n)" by (auto simp: net_ok_def)
  with one_writer[OF ok m(1)] have "m = n" by blast
  have "pc_ok net producers own ?s m" for m
    by (rule pc_ok_frame[OF pc_ok_at[OF inv]]) (simp_all add: good, simp_all add: run_updates)
  moreover have "chan_ok net ?s" using inv unfolding run_inv_def chan_ok_def by (auto simp: run_updates)
  moreover have "ran_ok g producers own ?s" using inv by (simp add: run_inv_def ran_ok_def run_updates)
  moreover have "results_ok ?s"
    using inv m(2) \<open>m = n\<close> unfolding run_inv_def results_ok_def by (auto simp: run_updates)
  ultimately show ?thesis by (simp add: run_inv_def)
qed

inductive_cases run_stepE: "run_step net producers own s s'"

lemma run_step_inv:
  assumes "run_net g net producers" "run_step net producers own s s'" "run_inv g net producers own s"
  shows "run_inv g net producers own s'"
  using assms(2)
proof (rule run_stepE, goal_cases)
  case 1
  then show ?thesis using inv_drain[OF assms(3)] by metis
next
  case 2
  then show ?thesis using inv_drain_failed[OF assms(3)] by metis
next
  case 3
  then show ?thesis using inv_drain_panics[OF assms(3)] by metis
next
  case 4
  then show ?thesis using inv_produce[OF assms(1,3)] by metis
next
  case 5
  then show ?thesis using inv_pass[OF assms(1,3)] by metis
next
  case 6
  then show ?thesis using inv_read[OF assms(1,3)] by metis
qed

lemma run_init_inv: "run_inv g net producers own (run_init net l)"
  by (simp add: run_inv_def pc_ok_def chan_ok_def ran_ok_def results_ok_def run_init_def)

lemma run_reach_inv:
  "run_reach net l producers own s \<Longrightarrow> run_net g net producers \<Longrightarrow> run_inv g net producers own s"
  by (induction rule: run_reach.induct) (auto intro: run_init_inv run_step_inv)

lemma newChannels_net:
  assumes "newChannels k g l = Some net" "set producers \<subseteq> (edges g)\<^sup>* `` set l"
  shows "run_net g net producers"
  using assms newChannels_ok[OF assms(1)] covers_reach founded_reach unfolding run_net_def by blast

text \<open>Two requests: \<open>a\<close> needs \<open>b\<close>.\<close>

definition pair_deps :: deps_map where
  "pair_deps n = (if n = ''a'' then [''b''] else [])"

definition pair_net :: channels where
  "pair_net = the (newChannels 2 pair_deps [''a''])"

definition answer_all :: "string \<Rightarrow> string result" where
  "answer_all n = \<lparr>rs_resp = Some n, rs_err = None\<rparr>"

lemma pair_net_some: "newChannels 2 pair_deps [''a''] = Some pair_net"
proof -
  have "newChannels 2 pair_deps [''a''] \<noteq> None" by code_simp
  then show ?thesis by (auto simp: pair_net_def)
qed

lemma pair_reach: "set [''b'', ''a''] \<subseteq> (edges pair_deps)\<^sup>* `` set [''a'']"
proof -
  have "(''a'', ''b'') \<in> edges pair_deps" by (simp add: edges_def pair_deps_def)
  then show ?thesis by auto
qed

text \<open>
  Property C9: a request is sent at most once, and only after all the requests that it needs have
  succeeded, in every interleaving of the goroutines. The result that is read for a sequence is that
  of its request, if it was sent and succeeded; otherwise it has an error.
\<close>

theorem producers_in_order:
  assumes "newChannels k g l = Some net" "set producers \<subseteq> (edges g)\<^sup>* `` set l" "run_reach net l producers own s"
  shows "distinct (ru_ran s) \<and> deps_first g {} (ru_ran s)
     \<and> list_all (\<lambda>n. list_all (\<lambda>d. rs_err (own d) = None) (g n)) (ru_ran s)
     \<and> (case ru_results s n of
          None \<Rightarrow> True
        | Some ref \<Rightarrow>
           (case ru_obj s ref of
              None \<Rightarrow> False
            | Some r \<Rightarrow> if n \<in> set (ru_ran s) \<and> rs_err (own n) = None then r = own n else rs_err r \<noteq> None))"
proof -
  have inv: "run_inv g net producers own s" by (rule run_reach_inv[OF assms(3) newChannels_net[OF assms(1,2)]])
  then have "\<exists>todo. ru_pc s n = Sending ref todo" if "ru_results s n = Some ref" for ref
    using that unfolding run_inv_def results_ok_def by blast
  then have "good own s n ref" if "ru_results s n = Some ref" for ref
    using that pc_okD(2)[OF inv] by blast
  with inv show ?thesis
    by (auto simp: run_inv_def ran_ok_def list_all_iff good_def split: option.splits)
qed

definition pair_run :: "string run" where
  "pair_run =
     (let s0 = run_init pair_net [''a''];
          s1 = set_pc ''b'' (Sending ''b'' [0, 1]) (set_obj ''b'' (answer_all ''b'') (s0\<lparr>ru_ran := ru_ran s0 @ [''b'']\<rparr>));
          s2 = set_pc ''b'' (Sending ''b'' [1]) (s1\<lparr>ru_chan := (ru_chan s1)(0 := Some ''b'')\<rparr>);
          s3 = set_pc ''a'' (Reading []) (take_from 0 s2) in
      set_pc ''a'' (Sending ''a'' [2]) (set_obj ''a'' (answer_all ''a'') (s3\<lparr>ru_ran := ru_ran s3 @ [''a'']\<rparr>)))"

lemma pair_net_fields:
  "ch_in pair_net ''a'' = [0]" "ch_in pair_net ''b'' = []" "ch_out pair_net ''b'' = [0, 1]" "ch_out pair_net ''a'' = [2]"
  by code_simp+

lemma pair_run_reached: "run_reach pair_net [''a''] [''b'', ''a''] answer_all pair_run"
proof -
  let ?P = "[''b'', ''a'']"
  define s0 where "s0 = (run_init pair_net [''a''] :: string run)"
  define s1 where "s1 = set_pc ''b'' (Sending ''b'' [0, 1]) (set_obj ''b'' (answer_all ''b'') (s0\<lparr>ru_ran := ru_ran s0 @ [''b'']\<rparr>))"
  define s2 where "s2 = set_pc ''b'' (Sending ''b'' [1]) (s1\<lparr>ru_chan := (ru_chan s1)(0 := Some ''b'')\<rparr>)"
  define s3 where "s3 = set_pc ''a'' (Reading []) (take_from 0 s2)"
  note states = s3_def s2_def s1_def s0_def run_updates run_init_def pair_net_fields answer_all_def
  have "run_step pair_net ?P answer_all s0 s1"
    using run_step.produce[of "''b''" ?P s0 pair_net answer_all] by (simp add: s1_def pair_net_fields) (simp add: states)
  moreover have "run_step pair_net ?P answer_all s1 s2"
    unfolding s2_def by (rule run_step.pass) (simp_all add: states)
  moreover have "run_step pair_net ?P answer_all s2 s3"
    unfolding s3_def by (rule run_step.drain[where r = "answer_all ''b''"]) (simp_all add: states)
  moreover have "run_step pair_net ?P answer_all s3 pair_run"
    using run_step.produce[of "''a''" ?P s3 pair_net answer_all]
    by (simp add: pair_run_def Let_def pair_net_fields flip: s0_def s1_def s2_def s3_def) (simp add: states)
  ultimately show ?thesis
    unfolding s0_def by (meson run_reach.intros)
qed

lemma producers_in_order_witness:
  "ru_ran pair_run = [''b'', ''a''] \<and> deps_first pair_deps {} (ru_ran pair_run)"
  using producers_in_order[OF pair_net_some pair_reach pair_run_reached]
  by (simp add: pair_run_def Let_def run_updates run_init_def)

section \<open>No goroutine waits for ever\<close>

definition pending :: "channels \<Rightarrow> string list \<Rightarrow> 'r run \<Rightarrow> nat \<Rightarrow> bool" where
  "pending net producers s c \<longleftrightarrow>
     (\<exists>n cs. n \<in> set producers \<and> ru_pc s n = Reading cs \<and> c \<in> set cs) \<or> (\<exists>n \<in> set (ru_left s). ch_result net n = Some c)"

text \<open>What was passed and not yet read is in its channel.\<close>

definition full_inv :: "channels \<Rightarrow> string list \<Rightarrow> 'r run \<Rightarrow> bool" where
  "full_inv net producers s \<longleftrightarrow> distinct (ru_left s) \<and>
     (\<forall>c d ref todo. pending net producers s c \<and> c \<in> set (ch_out net d) \<and> ru_pc s d = Sending ref todo \<and> c \<notin> set todo
        \<longrightarrow> ru_chan s c = Some ref)"

lemma full_mono:
  assumes "full_inv net producers s" "distinct (ru_left s')"
    and "\<And>c. pending net producers s' c \<Longrightarrow> pending net producers s c \<and> ru_chan s' c = ru_chan s c"
    and "\<And>d ref todo. ru_pc s' d = Sending ref todo \<Longrightarrow> ru_pc s d = Sending ref todo \<or> todo = ch_out net d"
  shows "full_inv net producers s'"
  using assms unfolding full_inv_def by metis

lemma taken_not_pending:
  assumes net: "net_ok g net" and inv: "run_inv g net producers own s"
    and n: "ru_pc s n = Reading (c # cs)"
    and s': "ru_left s' = ru_left s" "\<And>m ds. ru_pc s' m = Reading ds \<Longrightarrow> if m = n then ds = cs else ru_pc s m = Reading ds"
      "ru_chan s' = (ru_chan s)(c := None)"
    and p: "pending net producers s' x" and nP: "n \<in> set producers"
  shows "pending net producers s x \<and> ru_chan s' x = ru_chan s x"
proof -
  have c: "c \<in> set (ch_in net n)" using pc_okD(1)[OF inv n] by auto
  obtain before where "ch_in net n = before @ c # cs" using pc_ok_at[OF inv, of n] n by (auto simp: pc_ok_def)
  moreover have "distinct (ch_in net n)" using net by (simp add: net_ok_def)
  ultimately have cs: "c \<notin> set cs" by simp
  from p consider (reader) m ds where "m \<in> set producers" "ru_pc s' m = Reading ds" "x \<in> set ds"
    | (result) m where "m \<in> set (ru_left s)" "ch_result net m = Some x"
    unfolding pending_def s'(1) by blast
  then have "pending net producers s x \<and> x \<noteq> c"
  proof cases
    case reader
    show ?thesis
    proof (cases "m = n")
      case True
      with reader s'(2) have "ds = cs" by fastforce
      with reader cs n nP show ?thesis unfolding pending_def by (metis list.set_intros(2))
    next
      case False
      with reader s'(2) have m: "ru_pc s m = Reading ds" by fastforce
      then have "x \<in> set (ch_in net m)" using reader(3) pc_okD(1)[OF inv m] by blast
      with c False one_reader[OF net] have "x \<noteq> c" by blast
      with reader m show ?thesis unfolding pending_def by blast
    qed
  next
    case result
    with c net have "x \<noteq> c" unfolding net_ok_def by blast
    with result show ?thesis unfolding pending_def by blast
  qed
  then show ?thesis by (simp add: s'(3))
qed

lemma full_taken:
  assumes net: "net_ok g net" and inv: "run_inv g net producers own s" and full: "full_inv net producers s"
    and n: "n \<in> set producers" "ru_pc s n = Reading (c # cs)"
    and s': "ru_left s' = ru_left s" "ru_chan s' = (ru_chan s)(c := None)"
      "ru_pc s' = (ru_pc s)(n := p)" "p = Reading cs \<or> p = Sending ref (ch_out net n)"
  shows "full_inv net producers s'"
proof (rule full_mono[OF full])
  show "distinct (ru_left s')" using full by (simp add: full_inv_def s'(1))
  show "pending net producers s x \<and> ru_chan s' x = ru_chan s x" if "pending net producers s' x" for x
    by (rule taken_not_pending[OF net inv n(2) s'(1) _ s'(2) that n(1)]) (use s'(3,4) in \<open>auto split: if_splits\<close>)
  show "ru_pc s' d = Sending r todo \<Longrightarrow> ru_pc s d = Sending r todo \<or> todo = ch_out net d" for d r todo
    using s'(3,4) by (auto split: if_splits)
qed

lemma full_step:
  assumes net: "run_net g net producers" and step: "run_step net producers own s s'"
    and inv: "run_inv g net producers own s" and full: "full_inv net producers s"
  shows "full_inv net producers s'"
  using step
proof (cases rule: run_step.cases)
  case (drain n c cs ref r)
  then show ?thesis
    using net by (intro full_taken[OF _ inv full drain(2,3)]) (auto simp: run_updates run_net_def)
next
  case (drain_failed n c cs ref r e e')
  then show ?thesis
    using net by (intro full_taken[OF _ inv full drain_failed(2,3)]) (auto simp: run_updates run_net_def)
next
  case (drain_panics n c cs ref r e)
  then show ?thesis
    using net by (intro full_taken[OF _ inv full drain_panics(2,3)]) (auto simp: run_updates run_net_def)
next
  case (produce n)
  show ?thesis
    by (rule full_mono[OF full])
      (use full in \<open>auto simp: produce(1) run_updates pending_def full_inv_def split: if_splits\<close>)
next
  case (pass n ref c cs)
  have ok: "net_ok g net" using net by (simp add: run_net_def)
  have c: "c \<in> set (ch_out net n)" using pc_okD(2)[OF inv pass(3)] by auto
  have p: "pending net producers s' x \<Longrightarrow> pending net producers s x" for x
    by (auto simp: pass(1) run_updates pending_def split: if_splits)
  have "ru_chan s' x = Some r" if "pending net producers s' x" "x \<in> set (ch_out net d)" "ru_pc s' d = Sending r todo" "x \<notin> set todo" for x d r todo
  proof (cases "x = c")
    case True
    with that(2) c one_writer[OF ok] have "d = n" by blast
    with True that(3) show ?thesis by (simp add: pass(1) run_updates)
  next
    case False
    have "\<exists>todo'. ru_pc s d = Sending r todo' \<and> x \<notin> set todo'"
      using that(3,4) False pass(3) by (cases "d = n") (auto simp: pass(1) run_updates)
    with p[OF that(1)] that(2) full have "ru_chan s x = Some r" unfolding full_inv_def by blast
    with False show ?thesis by (simp add: pass(1) run_updates)
  qed
  moreover have "distinct (ru_left s')" using full by (simp add: full_inv_def pass(1) run_updates)
  ultimately show ?thesis unfolding full_inv_def by blast
next
  case (readResult n rest c ref)
  have ok: "net_ok g net" using net by (simp add: run_net_def)
  have d: "distinct (n # rest)" using full readResult(2) by (simp add: full_inv_def)
  show ?thesis
  proof (rule full_mono[OF full])
    show "distinct (ru_left s')" using d by (simp add: readResult(1))
    show "ru_pc s' d = Sending r todo \<Longrightarrow> ru_pc s d = Sending r todo \<or> todo = ch_out net d" for d r todo
      by (simp add: readResult(1) run_updates)
    show "pending net producers s x \<and> ru_chan s' x = ru_chan s x" if p: "pending net producers s' x" for x
    proof -
      from p consider (reader) m ds where "m \<in> set producers" "ru_pc s m = Reading ds" "x \<in> set ds"
        | (result) m where "m \<in> set rest" "ch_result net m = Some x"
        unfolding pending_def by (auto simp: readResult(1) run_updates)
      then have "pending net producers s x \<and> x \<noteq> c"
      proof cases
        case reader
        then have "x \<in> set (ch_in net m)" using pc_okD(1)[OF inv reader(2)] by blast
        with ok readResult(3) have "x \<noteq> c" unfolding net_ok_def by blast
        with reader show ?thesis unfolding pending_def by blast
      next
        case result
        have "x \<noteq> c"
        proof
          assume "x = c"
          with result(2) readResult(3) ok have "c \<in> set (ch_out net m)" "c \<in> set (ch_out net n)" unfolding net_ok_def by blast+
          with one_writer[OF ok] have "m = n" by blast
          with d result(1) show False by simp
        qed
        with result show ?thesis unfolding pending_def readResult(2) by auto
      qed
      then show ?thesis by (simp add: readResult(1) run_updates)
    qed
  qed
qed

lemma full_reach:
  "run_reach net l producers own s \<Longrightarrow> run_net g net producers \<Longrightarrow> distinct l \<Longrightarrow> full_inv net producers s"
proof (induction rule: run_reach.induct)
  case start
  then show ?case by (simp add: full_inv_def run_init_def)
next
  case (step s s')
  then show ?case using full_step run_reach_inv by metis
qed

text \<open>A pending channel leads to a goroutine that can step: its writer, or one that the writer waits for.\<close>

lemma writer_steps:
  assumes net: "net_ok g net" and inv: "run_inv g net producers own s" and full: "full_inv net producers s"
    and "pending net producers s c" "c \<in> set (ch_out net d)" "ru_pc s d = Sending ref todo" "ru_chan s c = None"
  shows "\<exists>s'. run_step net producers own s s'"
proof -
  have "c \<in> set todo" using assms unfolding full_inv_def by (metis option.distinct(1))
  then obtain c' cs where todo: "todo = c' # cs" by (cases todo) auto
  have d: "d \<in> set producers" "c' \<in> set (ch_out net d)" using pc_okD(2)[OF inv assms(6)] todo by simp_all
  have "ru_chan s c' = None"
  proof (rule ccontr)
    assume "ru_chan s c' \<noteq> None"
    then obtain r where "ru_chan s c' = Some r" by blast
    then obtain n t where w: "c' \<in> set (ch_out net n)" "ru_pc s n = Sending r t" "c' \<notin> set t" by (rule writer[OF inv])
    from one_writer[OF net w(1) d(2)] w assms(6) todo show False by auto
  qed
  with d(1) assms(6) todo show ?thesis by (auto intro: run_step.pass)
qed

lemma reader_steps:
  assumes inv: "run_inv g net producers own s" and "n \<in> set producers" "ru_pc s n = Reading (c # cs)" "ru_chan s c = Some ref"
  shows "\<exists>s'. run_step net producers own s s'"
proof -
  obtain d todo where "good own s d ref" by (rule writer[OF inv assms(4)])
  then obtain r where r: "ru_obj s ref = Some r" by (auto simp: good_def)
  show ?thesis
  proof (cases "rs_err r")
    case None
    with run_step.drain[OF assms(2-4) r] show ?thesis by blast
  next
    case (Some e)
    with run_step.drain_failed[OF assms(2-4) r] run_step.drain_panics[OF assms(2-4) r] show ?thesis
      by (cases "drain_error e") blast+
  qed
qed

lemma goroutine_steps:
  assumes net: "run_net g net producers" and inv: "run_inv g net producers own s" and full: "full_inv net producers s"
    and closed: "\<And>n. n \<in> set producers \<Longrightarrow> set (g n) \<subseteq> set producers"
    and n: "n \<in> founded g" "n \<in> set producers" "ru_pc s n = Reading cs"
  shows "\<exists>s'. run_step net producers own s s'"
  using n
proof (induction arbitrary: cs rule: founded_induct)
  case (founded n)
  have ok: "net_ok g net" using net by (simp add: run_net_def)
  show ?case
  proof (cases cs)
    case Nil
    with founded run_step.produce show ?thesis by blast
  next
    case (Cons c cs')
    show ?thesis
    proof (cases "ru_chan s c")
      case (Some ref)
      with reader_steps[OF inv founded(2)] founded(3) Cons show ?thesis by blast
    next
      case None
      have "c \<in> set (ch_in net n)" using pc_okD(1)[OF inv founded(3)] Cons by auto
      with ok obtain d where d: "d \<in> set (g n)" "c \<in> set (ch_out net d)" unfolding net_ok_def by blast
      have p: "pending net producers s c" using founded(2,3) Cons by (force simp: pending_def)
      show ?thesis
      proof (cases "ru_pc s d")
        case (Reading ds)
        with founded(1)[OF d(1)] closed founded(2) d(1) show ?thesis by blast
      next
        case (Sending ref todo)
        from writer_steps[OF ok inv full p d(2) Sending None] show ?thesis .
      qed
    qed
  qed
qed

definition goroutine_rank :: "channels \<Rightarrow> string \<Rightarrow> goroutine \<Rightarrow> nat" where
  "goroutine_rank net n p =
     (case p of Reading cs \<Rightarrow> length cs + length (ch_out net n) + 1 | Sending ref todo \<Rightarrow> length todo)"

definition run_measure :: "channels \<Rightarrow> string list \<Rightarrow> 'r run \<Rightarrow> nat" where
  "run_measure net producers s = (\<Sum>n \<in> set producers. goroutine_rank net n (ru_pc s n)) + length (ru_left s)"

lemma run_measure_pc:
  assumes "n \<in> set producers" "goroutine_rank net n p < goroutine_rank net n (ru_pc s n)"
    "ru_pc s' = (ru_pc s)(n := p)" "ru_left s' = ru_left s"
  shows "run_measure net producers s' < run_measure net producers s"
proof -
  have "(\<Sum>m \<in> set producers. goroutine_rank net m (ru_pc s' m)) < (\<Sum>m \<in> set producers. goroutine_rank net m (ru_pc s m))"
    by (rule sum_strict_mono_ex1) (use assms in auto)
  then show ?thesis by (simp add: run_measure_def assms(4))
qed

lemma run_measure_step:
  assumes "run_step net producers own s s'"
  shows "run_measure net producers s' < run_measure net producers s"
  using assms
proof (cases rule: run_step.cases)
  case (readResult n rest c ref)
  then show ?thesis by (simp add: run_measure_def run_updates)
qed (auto intro!: run_measure_pc simp: goroutine_rank_def run_updates)

lemma produce_progress:
  assumes "newChannels k g l = Some net" "set producers \<subseteq> (edges g)\<^sup>* `` set l" "run_reach net l producers own s"
    and "distinct l" "set l \<subseteq> set producers" "\<And>n. n \<in> set producers \<Longrightarrow> set (g n) \<subseteq> set producers"
  shows "(if ru_left s = [] then True else \<exists>s'. run_step net producers own s s')
     \<and> {s'. run_step net producers own s s'} \<subseteq> {s'. run_measure net producers s' < run_measure net producers s}"
proof -
  have net: "run_net g net producers" by (rule newChannels_net[OF assms(1,2)])
  have inv: "run_inv g net producers own s" and full: "full_inv net producers s"
    using run_reach_inv full_reach assms(3,4) net by blast+
  have left: "set (ru_left s) \<subseteq> set l" using assms(3)
    by (induction rule: run_reach.induct) (auto simp: run_init_def run_updates elim!: run_stepE)
  have ok: "net_ok g net" using net by (simp add: run_net_def)
  have "\<exists>s'. run_step net producers own s s'" if "ru_left s = i # rest" for i rest
  proof -
    have i: "i \<in> set producers" "i \<in> founded g" using left that assms(5) net by (auto simp: run_net_def)
    then obtain c where c: "ch_result net i = Some c" using net by (auto simp: run_net_def visited_def)
    then have out: "c \<in> set (ch_out net i)" using ok by (simp add: net_ok_def)
    show ?thesis
    proof (cases "ru_chan s c")
      case (Some ref)
      with run_step.readResult[OF that c] show ?thesis by blast
    next
      case None
      show ?thesis
      proof (cases "ru_pc s i")
        case (Reading cs)
        from goroutine_steps[OF net inv full assms(6) i(2,1) this] show ?thesis .
      next
        case (Sending ref todo)
        have "pending net producers s c" using that c by (simp add: pending_def)
        from writer_steps[OF ok inv full this out Sending None] show ?thesis .
      qed
    qed
  qed
  then have "if ru_left s = [] then True else \<exists>s'. run_step net producers own s s'" by (cases "ru_left s") auto
  then show ?thesis using run_measure_step by blast
qed

text \<open>The channels are made: without a circle the names that can be reached from a name are fewer for each of its
  dependencies.\<close>

lemma fill_deps_returns:
  assumes "\<And>d net. d \<in> set ds \<Longrightarrow> \<exists>net'. fillChannels k g d net = Some net'"
  shows "\<exists>net'. fill_deps k g n ds net = Some net'"
  using assms
proof (induction ds arbitrary: net)
  case (Cons d ds)
  obtain net1 where "fillChannels k g d (link_channel n d net) = Some net1" using Cons.prems[of d] by auto
  moreover have "\<exists>net'. fill_deps k g n ds net1 = Some net'" by (rule Cons.IH) (use Cons.prems in auto)
  ultimately show ?case by auto
qed simp

lemma fill_returns:
  assumes "acyclic (edges g)" "finite U" "\<And>n. n \<in> U \<Longrightarrow> set (g n) \<subseteq> U"
  shows "n \<in> U \<Longrightarrow> card ((edges g)\<^sup>* `` {n}) \<le> k \<Longrightarrow> \<exists>net'. fillChannels k g n net = Some net'"
proof (induction k arbitrary: n net)
  case 0
  have in_U: "m \<in> U" if "(n, m) \<in> (edges g)\<^sup>*" for m
    using that 0(1) assms(3) by (induction rule: rtrancl_induct) (auto simp: edges_def)
  then have "(edges g)\<^sup>* `` {n} \<subseteq> U" by auto
  then have "finite ((edges g)\<^sup>* `` {n})" by (rule finite_subset[OF _ assms(2)])
  with 0 show ?case by auto
next
  case (Suc k)
  have in_U: "m \<in> U" if "(n, m) \<in> (edges g)\<^sup>*" for m
    using that Suc(2) assms(3) by (induction rule: rtrancl_induct) (auto simp: edges_def)
  then have "(edges g)\<^sup>* `` {n} \<subseteq> U" by auto
  then have fin: "finite ((edges g)\<^sup>* `` {n})" by (rule finite_subset[OF _ assms(2)])
  have "\<exists>net'. fillChannels k g d net = Some net'" if d: "d \<in> set (g n)" for d net
  proof (rule Suc.IH)
    from d have e: "(n, d) \<in> edges g" by (simp add: edges_def)
    then show "d \<in> U" using in_U by blast
    have "n \<notin> (edges g)\<^sup>* `` {d}" using assms(1) e by (auto simp: acyclic_def dest: rtrancl_into_trancl2)
    then have "(edges g)\<^sup>* `` {d} \<subset> (edges g)\<^sup>* `` {n}" using e by (auto intro: converse_rtrancl_into_rtrancl)
    from psubset_card_mono[OF fin this] Suc(3) show "card ((edges g)\<^sup>* `` {d}) \<le> k" by simp
  qed
  then have "\<exists>net'. fill_deps k g n (Deps g n) net = Some net'" by (intro fill_deps_returns) simp
  then show ?case by auto
qed

lemma newChannels_returns:
  assumes "acyclic (edges g)" "finite U" "\<And>n. n \<in> U \<Longrightarrow> set (g n) \<subseteq> U" "set l \<subseteq> U" "card U \<le> k"
  shows "\<exists>net. newChannels k g l = Some net"
proof -
  have "\<exists>net'. fillChannels k g i net = Some net'" if "i \<in> U" for i net
  proof (rule fill_returns[OF assms(1-3) that])
    have "(edges g)\<^sup>* `` {i} \<subseteq> U"
    proof
      fix m assume "m \<in> (edges g)\<^sup>* `` {i}"
      then have "(i, m) \<in> (edges g)\<^sup>*" by simp
      then show "m \<in> U" using that assms(3) by (induction rule: rtrancl_induct) (auto simp: edges_def)
    qed
    from card_mono[OF assms(2) this] assms(5) show "card ((edges g)\<^sup>* `` {i}) \<le> k" by simp
  qed
  with assms(4) have "\<exists>net'. fill_all k g l net = Some net'" for net
  proof (induction l arbitrary: net)
    case (Cons i l)
    obtain net1 where "fillChannels k g i net = Some net1" using Cons.prems by fastforce
    moreover have "\<exists>net'. fill_all k g l net1 = Some net'" by (rule Cons.IH) (use Cons.prems in auto)
    ultimately show ?case by auto
  qed simp
  then show ?thesis by (simp add: newChannels_def)
qed

text \<open>
  Property C10: if the references between the requests have no circle and every name that is needed has a producer, \<open>produce\<close>
  returns, however the goroutines interleave: the channels are made, and then, while results are missing, some
  goroutine or \<open>readResults\<close> can step, and every step brings the end nearer.
\<close>

theorem produce_returns:
  assumes "acyclic (edges g)" "card (set producers) \<le> k" "set producers \<subseteq> (edges g)\<^sup>* `` set l"
    and "distinct l" "set l \<subseteq> set producers" "\<And>n. n \<in> set producers \<Longrightarrow> set (g n) \<subseteq> set producers"
  shows "\<exists>net. newChannels k g l = Some net \<and>
    (\<forall>own s. run_reach net l producers own s \<longrightarrow>
       (if ru_left s = [] then True else \<exists>s'. run_step net producers own s s') \<and>
       {s'. run_step net producers own s s'} \<subseteq> {s'. run_measure net producers s' < run_measure net producers s})"
proof -
  obtain net where net: "newChannels k g l = Some net"
    using newChannels_returns[OF assms(1) finite_set assms(6,5,2)] by blast
  from produce_progress[OF net assms(3) _ assms(4,5,6)] net show ?thesis by blast
qed

lemma pair_acyclic: "acyclic (edges pair_deps)"
proof -
  have "wf ((edges pair_deps)\<inverse>)"
    by (rule wf_subset[of "inv_image less_than (\<lambda>n. if n = ''a'' then 1 else 0)"])
      (auto simp: edges_def pair_deps_def split: if_splits)
  then show ?thesis using wf_acyclic acyclic_converse by blast
qed

lemma produce_returns_witness:
  "\<exists>net s'. newChannels 2 pair_deps [''a''] = Some net \<and> run_step net [''b'', ''a''] answer_all (run_init net [''a'']) s'"
proof -
  have "card (set [''b'', ''a'']) \<le> 2" by simp
  then show ?thesis
    using produce_returns[OF pair_acyclic _ pair_reach, of 2] run_reach.start[of _ "[''a'']" "[''b'', ''a'']" answer_all]
    by (fastforce simp: run_init_def pair_deps_def split: if_splits)
qed

text \<open>If no request fails, no object ever has an error, and what was read was sent.\<close>

lemma no_failures:
  assumes "run_reach net l producers own s" "\<And>n. rs_err (own n) = None"
  shows "ru_obj s ref = Some r \<Longrightarrow> rs_err r = None"
  using assms(1)
proof (induction arbitrary: ref r rule: run_reach.induct)
  case start
  then show ?case by (simp add: run_init_def)
next
  case (step s s')
  from step(2) show ?case
  proof (cases rule: run_step.cases)
    case (drain_failed n c cs ref0 r0 e e')
    with step.IH show ?thesis by (metis option.distinct(1))
  next
    case (drain_panics n c cs ref0 r0 e)
    with step.IH show ?thesis by (metis option.distinct(1))
  qed (use step assms(2) in \<open>auto simp: run_updates split: if_splits\<close>)
qed

lemma left_or_read:
  "run_reach net l producers own s \<Longrightarrow> i \<in> set l \<Longrightarrow> i \<in> set (ru_left s) \<or> ru_results s i \<noteq> None"
  by (induction rule: run_reach.induct) (auto simp: run_init_def run_updates elim!: run_stepE split: if_splits)

text \<open>
  If a request refers, directly or not, to a name without a request or proxy, and none
  fails, then its result is never read: \<open>produce\<close> does not return, and the client gets no answer.
\<close>

theorem missing_producer_hangs:
  assumes "newChannels k g l = Some net" "set producers \<subseteq> (edges g)\<^sup>* `` set l" "run_reach net l producers own s"
    and "\<And>n. rs_err (own n) = None" "i \<in> set l" "(i, d) \<in> (edges g)\<^sup>*" "d \<notin> set producers"
  shows "i \<in> set (ru_left s)"
proof (rule ccontr)
  assume "i \<notin> set (ru_left s)"
  then obtain ref where ref: "ru_results s i = Some ref" using left_or_read[OF assms(3,5)] by blast
  have inv: "run_inv g net producers own s" by (rule run_reach_inv[OF assms(3) newChannels_net[OF assms(1,2)]])
  with ref obtain todo where "ru_pc s i = Sending ref todo" unfolding run_inv_def results_ok_def by blast
  then have "good own s i ref" using pc_okD(2)[OF inv] by blast
  with no_failures[OF assms(3,4)] have "i \<in> set (ru_ran s)" by (auto simp: good_def split: if_splits)
  with inv deps_first_reach[of g "ru_ran s" i d] assms(6,7) show False by (auto simp: run_inv_def ran_ok_def)
qed

lemma missing_producer_hangs_witness:
  "\<not> (\<exists>s. run_reach pair_net [''a''] [''a''] answer_all s \<and> ru_left s = [])"
proof -
  have "(''a'', ''b'') \<in> (edges pair_deps)\<^sup>*" by (auto simp: edges_def pair_deps_def)
  then have "''a'' \<in> set (ru_left s)" if "run_reach pair_net [''a''] [''a''] answer_all s" for s
    using missing_producer_hangs[OF pair_net_some _ that, of "''a''" "''b''"] by (simp add: answer_all_def)
  then show ?thesis by fastforce
qed

end
