(* ===== verification/Mux.thy ===== *)
theory Mux
  imports Paths HttpModel "HOL-Library.Char_ord" "HOL-Library.List_Lexorder" "HOL-Library.Multiset" "HOL-Library.Product_Lexorder"
begin

text \<open>
  The choice of the handler of a request (\<open>server/mux.go\<close>).

  The router is the third-party package \<open>gorilla/mux\<close>: a router is the list of its routes in the order of
  their registration, the first route that matches is taken, and whether a route's template matches a
  path, and with which variables, is the argument \<open>matches\<close>. The variables are a Go map, so their order
  is arbitrary. Whether a file handler has a response for a request is the argument \<open>has_response\<close>.
\<close>

section \<open>The order of path patterns\<close>

definition isParamSegment :: "string \<Rightarrow> bool" where
  "isParamSegment segment \<longleftrightarrow> has_prefix segment ''{'' \<and> has_suffix segment ''}''"

definition pattern_segments :: "string \<Rightarrow> string list" where
  "pattern_segments p = split_on CHR ''/'' (trim_prefix p ''/'')"

text \<open>The loop over the segments; \<open>None\<close> when it ends without a decision.\<close>

fun compare_params :: "string list \<Rightarrow> string list \<Rightarrow> bool option" where
  "compare_params (s # ss) (t # ts) =
     (if \<not> isParamSegment s \<and> isParamSegment t then Some True
      else if isParamSegment s \<and> \<not> isParamSegment t then Some False
      else compare_params ss ts)"
| "compare_params _ _ = None"

definition pattern_less :: "string \<Rightarrow> string \<Rightarrow> bool" where
  "pattern_less p q =
     (let iSegments = pattern_segments p; jSegments = pattern_segments q;
          iLast = last iSegments; jLast = last jSegments in
      if iLast \<noteq> ''**'' \<and> jLast = ''**'' then True
      else if iLast = ''**'' \<and> jLast \<noteq> ''**'' then False
      else if length iSegments > length jSegments then True
      else if length iSegments < length jSegments then False
      else (case compare_params iSegments jSegments of Some b \<Rightarrow> b | None \<Rightarrow> p < q))"

text \<open>\<open>sort.Slice\<close>; the algorithm is not specified, this is one.\<close>

fun insert_pattern :: "string \<Rightarrow> string list \<Rightarrow> string list" where
  "insert_pattern p [] = [p]"
| "insert_pattern p (q # qs) = (if pattern_less q p then q # insert_pattern p qs else p # q # qs)"

definition SortPathPatterns :: "string list \<Rightarrow> string list" where
  "SortPathPatterns ps = foldr insert_pattern ps []"

section \<open>Handlers and routes\<close>

text \<open>A file handler, another handler, or one with a child (access control, error handler, methods).\<close>

datatype mux_handler = FileHandler string | PlainHandler string | WithChild string mux_handler

fun getChildHandler :: "mux_handler \<Rightarrow> mux_handler" where
  "getChildHandler (WithChild n h) = getChildHandler h"
| "getChildHandler h = h"

record route =
  rt_prefix :: bool
  rt_template :: string
  rt_name :: string
  rt_handler :: mux_handler

type_synonym vars = "(string \<times> string) list"

type_synonym matching = "bool \<Rightarrow> string \<Rightarrow> string \<Rightarrow> vars option"

definition path_route :: "string \<Rightarrow> string \<Rightarrow> mux_handler \<Rightarrow> route" where
  "path_route p n h = \<lparr>rt_prefix = False, rt_template = p, rt_name = n, rt_handler = h\<rparr>"

definition prefix_route :: "string \<Rightarrow> string \<Rightarrow> mux_handler \<Rightarrow> route" where
  "prefix_route p n h = \<lparr>rt_prefix = True, rt_template = p, rt_name = n, rt_handler = h\<rparr>"

definition new_routes :: "string \<Rightarrow> mux_handler \<Rightarrow> bool \<Rightarrow> route list" where
  "new_routes path0 h trailingSlash =
     (if has_suffix path0 ''/**''
      then (let path = take (length path0 - 3) path0 in
        if path = [] then [prefix_route ''/'' ''**'' h]
        else [path_route path ''**'' h,
              prefix_route (if has_suffix path ''/'' then path else path @ ''/'') ''**'' h])
      else (let path = (if path0 = [] then ''/'' else path0) in
        if trailingSlash
        then (let p = trim_suffix path ''/'' in
          (if p \<noteq> [] then [path_route p [] h] else []) @ [path_route (p @ ''/'') [] h])
        else [path_route path [] h]))"

definition mustAddRoute :: "route list \<Rightarrow> string \<Rightarrow> mux_handler \<Rightarrow> bool \<Rightarrow> route list" where
  "mustAddRoute root path h trailingSlash = root @ new_routes path h trailingSlash"

definition registerHandler :: "route list \<Rightarrow> string list \<Rightarrow> string \<Rightarrow> mux_handler \<Rightarrow> route list" where
  "registerHandler root methods path h = mustAddRoute root path (WithChild ''allowed_methods'' h) False"

record server_options =
  so_api_paths :: "(nat \<times> string) list"
  so_api_tpls :: "nat \<Rightarrow> string option"
  so_api_base :: "nat \<Rightarrow> string"
  so_files_paths :: "string list"
  so_spa_paths :: "string list"
  so_server_tpl :: string
  so_server_name :: string

record mux_options =
  mo_endpoints :: "(string \<times> mux_handler) list"
  mo_files :: "(string \<times> mux_handler) list"
  mo_spas :: "(string \<times> mux_handler) list"
  mo_server :: server_options

record mux =
  mx_endpoint :: "route list"
  mx_file :: "route list"
  mx_spa :: "route list"
  mx_opts :: mux_options

definition NewMux :: "mux_options \<Rightarrow> mux" where
  "NewMux opts = \<lparr>mx_endpoint = [], mx_file = [], mx_spa = [], mx_opts = opts\<rparr>"

definition sortedPathPatterns :: "(string \<times> mux_handler) list \<Rightarrow> string list" where
  "sortedPathPatterns routes = SortPathPatterns (map fst routes)"

definition register :: "(string \<Rightarrow> string) \<Rightarrow> bool \<Rightarrow> (string \<times> mux_handler) list \<Rightarrow> route list \<Rightarrow> route list" where
  "register f trailingSlash routes root =
     fold (\<lambda>path root. mustAddRoute root (f path) (the (map_of routes path)) trailingSlash) (sortedPathPatterns routes) root"

definition RegisterConfigured :: "mux \<Rightarrow> mux" where
  "RegisterConfigured m =
     m\<lparr>mx_endpoint := register id True (mo_endpoints (mx_opts m)) (mx_endpoint m),
       mx_file := register (\<lambda>path. JoinOpenAPIPath [path, ''/**'']) False (mo_files (mx_opts m)) (mx_file m),
       mx_spa := register id True (mo_spas (mx_opts m)) (mx_spa m)\<rparr>"

section \<open>Errors of an API\<close>

definition isConfigured :: "string \<Rightarrow> bool" where
  "isConfigured basePath \<longleftrightarrow> basePath \<noteq> []"

definition matchesPath :: "string \<Rightarrow> string \<Rightarrow> bool" where
  "matchesPath path reqPath =
     (let p1 = (if path \<noteq> ''/'' \<and> \<not> has_suffix path ''/'' then path @ ''/'' else path);
          p2 = (if path \<noteq> ''/'' \<and> has_suffix path ''/'' then take (length path - 1) path else path) in
      has_prefix reqPath p1 \<or> reqPath = p2)"

definition isAPIError :: "string \<Rightarrow> string \<Rightarrow> string \<Rightarrow> string \<Rightarrow> bool" where
  "isAPIError apiPath filesBasePath spaBasePath reqPath =
     (if matchesPath apiPath reqPath
      then (if isConfigured filesBasePath \<and> apiPath = filesBasePath then False
            else if isConfigured spaBasePath \<and> apiPath = spaBasePath then False
            else True)
      else False)"

definition api_error_at :: "server_options \<Rightarrow> string \<Rightarrow> string \<Rightarrow> bool" where
  "api_error_at so path reqPath =
     (let spaPaths = (if so_spa_paths so = [] then [[]] else so_spa_paths so);
          filesPaths = (if so_files_paths so = [] then [[]] else so_files_paths so) in
      isConfigured path \<and>
      list_ex (\<lambda>spaPath. list_ex (\<lambda>filesPath. isAPIError path filesPath spaPath reqPath) filesPaths) spaPaths)"

definition getAPIErrorTemplate :: "server_options \<Rightarrow> string \<Rightarrow> (string option \<times> nat) option" where
  "getAPIErrorTemplate so reqPath =
     (case find (\<lambda>(api, path). api_error_at so path reqPath) (so_api_paths so) of
        None \<Rightarrow> None
      | Some (api, _) \<Rightarrow> Some (so_api_tpls so api, api))"

section \<open>The handler of a request\<close>

fun router_match :: "matching \<Rightarrow> route list \<Rightarrow> string \<Rightarrow> (route \<times> vars) option" where
  "router_match matches [] path = None"
| "router_match matches (r # rs) path =
     (case matches (rt_prefix r) (rt_template r) path of
        Some vs \<Rightarrow> Some (r, vs)
      | None \<Rightarrow> router_match matches rs path)"

definition hasFileResponse ::
    "matching \<Rightarrow> (string \<Rightarrow> request \<Rightarrow> bool) \<Rightarrow> mux \<Rightarrow> request \<Rightarrow> mux_handler option \<times> bool" where
  "hasFileResponse matches has_response m req =
     (case router_match matches (mx_file m) (req_path req) of
        None \<Rightarrow> (None, False)
      | Some (r, vs) \<Rightarrow>
          (case getChildHandler (rt_handler r) of
             FileHandler f \<Rightarrow> (Some (rt_handler r), has_response f req)
           | _ \<Rightarrow> (case rt_handler r of
                FileHandler f \<Rightarrow> (Some (rt_handler r), has_response f req)
              | _ \<Rightarrow> (Some (rt_handler r), False))))"

text \<open>\<open>strings.Replace(s, old, new, 1)\<close>.\<close>

fun replace_first :: "string \<Rightarrow> string \<Rightarrow> string \<Rightarrow> string" where
  "replace_first old new [] = (if old = [] then new else [])"
| "replace_first old new (c # cs) =
     (if has_prefix (c # cs) old then new @ drop (length old) (c # cs) else c # replace_first old new cs)"

datatype found = RouteNotFound string "string option" | Found mux_handler

text \<open>What the request's context gets; \<open>None\<close> when the request is left as it was.\<close>

record match_context =
  mc_server :: string
  mc_wildcard :: "string option"
  mc_params :: "vars option"

definition server_context :: "mux \<Rightarrow> match_context" where
  "server_context m = \<lparr>mc_server = so_server_name (mo_server (mx_opts m)), mc_wildcard = None, mc_params = None\<rparr>"

definition param_key :: "string \<Rightarrow> string" where
  "param_key k = trim_suffix (trim_suffix k ''|.+'') ''*''"

definition path_params :: "vars \<Rightarrow> vars" where
  "path_params vs = fold (\<lambda>(k, v). set_key (param_key k) v) vs []"

definition wildcard_of :: "route \<Rightarrow> vars \<Rightarrow> string \<Rightarrow> string" where
  "wildcard_of r vs path =
     trim_prefix (trim_prefix path (fold (\<lambda>(k, v). replace_first (''{'' @ k @ ''}'') v) vs (rt_template r))) ''/''"

definition matched :: "mux \<Rightarrow> request \<Rightarrow> route \<times> vars \<Rightarrow> found \<times> match_context option" where
  "matched m req rv = (case rv of (r, vs) \<Rightarrow>
     (Found (rt_handler r),
      Some ((server_context m)\<lparr>mc_wildcard := (if rt_name r = ''**'' then Some (wildcard_of r vs (req_path req)) else None),
                               mc_params := Some (path_params vs)\<rparr>)))"

definition FindHandler ::
    "matching \<Rightarrow> (string \<Rightarrow> request \<Rightarrow> bool) \<Rightarrow> mux \<Rightarrow> request \<Rightarrow> found \<times> match_context option" where
  "FindHandler matches has_response m req =
     (case router_match matches (mx_endpoint m) (req_path req) of
        Some rv \<Rightarrow> matched m req rv
      | None \<Rightarrow>
         (case getAPIErrorTemplate (mo_server (mx_opts m)) (req_path req) of
            Some (Some tpl, api) \<Rightarrow>
              (RouteNotFound tpl (Some (so_api_base (mo_server (mx_opts m)) api)), Some (server_context m))
          | _ \<Rightarrow>
             (case hasFileResponse matches has_response m req of
                (fileHandler, exist) \<Rightarrow>
                  if exist then (Found (the fileHandler), Some (server_context m))
                  else (case router_match matches (mx_spa m) (req_path req) of
                     Some rv \<Rightarrow> matched m req rv
                   | None \<Rightarrow>
                      (case fileHandler of
                         Some h \<Rightarrow> (Found h, None)
                       | None \<Rightarrow> (RouteNotFound (so_server_tpl (mo_server (mx_opts m))) None, Some (server_context m)))))))"

section \<open>The order is linear\<close>

text \<open>The reference: patterns are compared by a key, with wildcards last, then longer ones first, then by
  where their parameters are, and then by their text.\<close>

definition pattern_key :: "string \<Rightarrow> bool \<times> int \<times> bool list \<times> string" where
  "pattern_key p =
     (let segs = pattern_segments p in (last segs = ''**'', - int (length segs), map isParamSegment segs, p))"

lemma compare_params_key:
  "length ss = length ts \<Longrightarrow> compare_params ss ts =
     (if map isParamSegment ss = map isParamSegment ts then None
      else Some (map isParamSegment ss < map isParamSegment ts))"
  by (induction ss ts rule: compare_params.induct) auto

lemma pattern_less_key: "pattern_less p q \<longleftrightarrow> pattern_key p < pattern_key q"
proof (cases "length (pattern_segments p) = length (pattern_segments q)")
  case True
  then show ?thesis
    by (auto simp: pattern_less_def pattern_key_def Let_def less_prod_def less_eq_prod_def compare_params_key)
next
  case False
  then show ?thesis by (auto simp: pattern_less_def pattern_key_def Let_def less_prod_def)
qed

lemma inj_pattern_key: "inj_on pattern_key A"
  by (auto simp: inj_on_def pattern_key_def Let_def)

lemma insert_pattern_insort: "insert_pattern p ps = insort_key pattern_key p ps"
  by (induction p ps rule: insert_pattern.induct) (auto simp: pattern_less_key)

lemma SortPathPatterns_sort: "SortPathPatterns ps = sort_key pattern_key ps"
  by (simp add: SortPathPatterns_def sort_key_def insert_pattern_insort[abs_def])

lemma not_pattern_less: "\<not> pattern_less q p \<longleftrightarrow> pattern_key p \<le> pattern_key q"
  by (simp add: pattern_less_key not_less)

text \<open>
  The order of path patterns leaves the sorting algorithm no choice: every list with the
  same patterns in which no pattern comes after one that it is less than is the sorted list, so the
  order in which the Go map yields the patterns does not matter.
\<close>

theorem sorted_patterns_unique:
  assumes "mset qs = mset ps" and "sorted_wrt (\<lambda>p q. \<not> pattern_less q p) qs"
  shows "qs = SortPathPatterns ps"
proof -
  from assms(2) have "sorted (map pattern_key qs)" by (simp add: not_pattern_less sorted_wrt_map)
  with assms(1) have "sort_key pattern_key ps = qs"
    by (intro sort_key_inj_key_eq inj_pattern_key) simp_all
  then show ?thesis by (simp add: SortPathPatterns_sort)
qed

lemma sorted_patterns_unique_witness:
  "SortPathPatterns [''/**'', ''/a/{id}'', ''/a/b'', ''/a/**''] = [''/a/b'', ''/a/{id}'', ''/a/**'', ''/**'']"
proof -
  have less: "mset [''/a/b'', ''/a/{id}'', ''/a/**'', ''/**''] = mset [''/**'', ''/a/{id}'', ''/a/b'', ''/a/**'']"
    by simp
  have "sorted_wrt (\<lambda>p q. \<not> pattern_less q p) [''/a/b'', ''/a/{id}'', ''/a/**'', ''/**'']" by code_simp
  from sorted_patterns_unique[OF less this] show ?thesis by simp
qed

section \<open>The most specific pattern\<close>

text \<open>Whether one of the routes of a pattern matches; the handler does not matter.\<close>

definition pattern_hit :: "matching \<Rightarrow> bool \<Rightarrow> string \<Rightarrow> string \<Rightarrow> bool" where
  "pattern_hit matches trailingSlash path p =
     list_ex (\<lambda>r. matches (rt_prefix r) (rt_template r) path \<noteq> None) (new_routes p (PlainHandler []) trailingSlash)"

lemma new_routes_shape:
  "map (\<lambda>r. (rt_prefix r, rt_template r)) (new_routes p h ts) = map (\<lambda>r. (rt_prefix r, rt_template r)) (new_routes p h' ts)"
  by (simp add: new_routes_def path_route_def prefix_route_def Let_def)

lemma router_match_none:
  "router_match matches rs path = None \<longleftrightarrow> \<not> list_ex (\<lambda>r. matches (rt_prefix r) (rt_template r) path \<noteq> None) rs"
  by (induction rs) (auto split: option.splits)

lemma list_ex_shape:
  "map (\<lambda>r. (rt_prefix r, rt_template r)) rs = map (\<lambda>r. (rt_prefix r, rt_template r)) rs' \<Longrightarrow>
     list_ex (\<lambda>r. P (rt_prefix r) (rt_template r)) rs = list_ex (\<lambda>r. P (rt_prefix r) (rt_template r)) rs'"
proof (induction rs arbitrary: rs')
  case (Cons r rs)
  then show ?case by (cases rs') auto
qed simp

lemma new_routes_hit: "router_match matches (new_routes p h ts) path = None \<longleftrightarrow> \<not> pattern_hit matches ts path p"
  unfolding router_match_none pattern_hit_def
  using list_ex_shape[OF new_routes_shape, where P = "\<lambda>x y. matches x y path \<noteq> None"] by blast

lemma new_routes_handler:
  "router_match matches (new_routes p h ts) path = Some (r, vs) \<Longrightarrow> rt_handler r = h"
  by (auto simp: new_routes_def path_route_def prefix_route_def Let_def split: if_splits option.splits)

lemma router_match_append:
  "router_match matches (rs @ rs') path =
     (case router_match matches rs path of None \<Rightarrow> router_match matches rs' path | Some x \<Rightarrow> Some x)"
  by (induction rs) (auto split: option.splits)

lemma fold_routes: "fold (\<lambda>p root. mustAddRoute root (f p) (g p) ts) ps root = root @ concat (map (\<lambda>p. new_routes (f p) (g p) ts) ps)"
  by (induction ps arbitrary: root) (simp_all add: mustAddRoute_def)

lemma router_match_concat:
  "router_match matches (concat (map (\<lambda>p. new_routes p (g p) ts) ps)) path =
     (case find (pattern_hit matches ts path) ps of
        None \<Rightarrow> None | Some p \<Rightarrow> router_match matches (new_routes p (g p) ts) path)"
proof (induction ps)
  case (Cons p ps)
  then show ?case
    using new_routes_hit[of matches p "g p" ts path]
    by (cases "pattern_hit matches ts path p") (auto simp: router_match_append)
qed simp

lemma find_split: "find P xs = Some x \<Longrightarrow> \<exists>us vs. xs = us @ x # vs \<and> P x \<and> (\<forall>u \<in> set us. \<not> P u)"
proof (induction xs)
  case (Cons y ys)
  show ?case
  proof (cases "P y")
    case False
    with Cons obtain us vs where "ys = us @ x # vs" "P x" "\<forall>u \<in> set us. \<not> P u" by auto
    with False have "y # ys = (y # us) @ x # vs \<and> P x \<and> (\<forall>u \<in> set (y # us). \<not> P u)" by simp
    then show ?thesis by blast
  qed (use Cons.prems in force)
qed simp

lemma find_sorted:
  assumes "find P (sort_key pattern_key ps) = Some p" and "q \<in> set ps" and "P q"
  shows "p \<in> set ps \<and> P p \<and> \<not> pattern_less q p"
proof -
  from assms(1) obtain us vs where split: "sort_key pattern_key ps = us @ p # vs" and P: "P p" and no: "\<forall>u \<in> set us. \<not> P u"
    using find_split[OF assms(1)] by auto
  have sorted: "sorted (map pattern_key (us @ p # vs))" unfolding split[symmetric] by simp
  have "set ps = set (us @ p # vs)" by (metis set_sort split)
  with assms(2,3) no have "q = p \<or> q \<in> set vs" by auto
  with sorted have "pattern_key p \<le> pattern_key q" by (auto simp: sorted_append)
  moreover have "p \<in> set ps" by (metis in_set_conv_decomp set_sort split)
  ultimately show ?thesis using P by (simp add: not_pattern_less)
qed

lemma endpoint_match:
  "router_match matches (register id ts routes []) path =
     (case find (pattern_hit matches ts path) (sortedPathPatterns routes) of
        None \<Rightarrow> None | Some p \<Rightarrow> router_match matches (new_routes p (the (map_of routes p)) ts) path)"
  by (simp add: register_def fold_routes router_match_concat)

lemma endpoint_match_none:
  "router_match matches (register id ts routes []) path = None \<longleftrightarrow>
     \<not> list_ex (\<lambda>(p, h). pattern_hit matches ts path p) routes"
proof -
  have set: "set (sortedPathPatterns routes) = fst ` set routes" by (simp add: sortedPathPatterns_def SortPathPatterns_sort)
  show ?thesis
  proof (cases "find (pattern_hit matches ts path) (sortedPathPatterns routes)")
    case None
    then have "\<forall>p \<in> fst ` set routes. \<not> pattern_hit matches ts path p" by (auto simp: find_None_iff set)
    with None show ?thesis by (auto simp: endpoint_match list_ex_iff)
  next
    case (Some p)
    then have "p \<in> fst ` set routes" "pattern_hit matches ts path p" using find_split[OF Some] set by auto
    with Some show ?thesis
      by (auto simp: endpoint_match list_ex_iff new_routes_hit split_beta intro!: bexI)
  qed
qed

lemma endpoint_match_some:
  assumes "router_match matches (register id ts routes []) path = Some (r, vs)"
  shows "\<exists>p. map_of routes p = Some (rt_handler r) \<and> pattern_hit matches ts path p \<and>
     list_all (\<lambda>(q, h). \<not> (pattern_hit matches ts path q \<and> pattern_less q p)) routes"
proof -
  from assms obtain p where p: "find (pattern_hit matches ts path) (sort_key pattern_key (map fst routes)) = Some p"
    and r: "router_match matches (new_routes p (the (map_of routes p)) ts) path = Some (r, vs)"
    by (auto simp: endpoint_match sortedPathPatterns_def SortPathPatterns_sort split: option.splits)
  from find_split[OF p] have hit: "pattern_hit matches ts path p" by blast
  have "p \<in> set (map fst routes)" using find_split[OF p] by (metis in_set_conv_decomp set_sort)
  then obtain h where h: "map_of routes p = Some h" by (metis map_of_eq_None_iff not_Some_eq set_map)
  with new_routes_handler[OF r] have "map_of routes p = Some (rt_handler r)" by simp
  moreover have "list_all (\<lambda>(q, h). \<not> (pattern_hit matches ts path q \<and> pattern_less q p)) routes"
    unfolding list_all_iff
  proof (rule ballI, clarify)
    fix q h assume q: "(q, h) \<in> set routes" "pattern_hit matches ts path q" "pattern_less q p"
    then have "q \<in> set (map fst routes)" by force
    from find_sorted[OF p this q(2)] q(3) show False by blast
  qed
  ultimately show ?thesis using hit by blast
qed

lemma match_member: "router_match matches rs path = Some (r, vs) \<Longrightarrow> rt_handler r \<in> rt_handler ` set rs"
  by (induction rs) (auto split: option.splits)

lemma hasFileResponse_cases:
  obtains (none) "hasFileResponse matches has_response m req = (None, False)"
    | (handler) h b where "hasFileResponse matches has_response m req = (Some h, b)" "h \<in> rt_handler ` set (mx_file m)"
proof (cases "router_match matches (mx_file m) (req_path req)")
  case None
  then show ?thesis by (intro none) (simp add: hasFileResponse_def)
next
  case (Some rv)
  obtain r vs where rv: "rv = (r, vs)" by (cases rv)
  have "fst (hasFileResponse matches has_response m req) = Some (rt_handler r)"
    by (simp add: hasFileResponse_def Some rv split: mux_handler.split)
  then have "\<exists>b. hasFileResponse matches has_response m req = (Some (rt_handler r), b)" by (metis prod.collapse)
  with match_member[OF Some[unfolded rv]] show ?thesis using handler by blast
qed


text \<open>
  A request for which nothing but a file handler without a response is found is not given the
  context with the name of the server: that name is then missing in its access log.
\<close>

lemma request_without_server_name:
  assumes "router_match matches (mx_endpoint m) (req_path req) = None"
    and "getAPIErrorTemplate (mo_server (mx_opts m)) (req_path req) = None"
    and "hasFileResponse matches has_response m req = (Some h, False)"
    and "router_match matches (mx_spa m) (req_path req) = None"
  shows "FindHandler matches has_response m req = (Found h, None)"
  using assms by (simp add: FindHandler_def)

section \<open>Which API answers with an error\<close>

lemma matchesPath_prefix: "matchesPath path path"
  by (simp add: matchesPath_def Let_def has_prefix_def)

lemma api_error_at_iff:
  "api_error_at so path reqPath \<longleftrightarrow> isConfigured path \<and> matchesPath path reqPath \<and>
     (so_spa_paths so = [] \<or> list_ex (\<lambda>p. p \<noteq> path) (so_spa_paths so)) \<and>
     (so_files_paths so = [] \<or> list_ex (\<lambda>p. p \<noteq> path) (so_files_paths so))"
proof -
  have one: "isAPIError path f s reqPath \<longleftrightarrow> matchesPath path reqPath \<and> f \<noteq> path \<and> s \<noteq> path" if "isConfigured path" for f s
    using that by (auto simp: isAPIError_def isConfigured_def)
  have some: "list_ex (\<lambda>p. p \<noteq> path) (if ps = [] then [[]] else ps) \<longleftrightarrow> ps = [] \<or> list_ex (\<lambda>p. p \<noteq> path) ps"
    if "isConfigured path" for ps
    using that by (simp add: isConfigured_def)
  show ?thesis
  proof (cases "isConfigured path")
    case True
    have "list_ex (\<lambda>s. list_ex (\<lambda>f. isAPIError path f s reqPath) fs) ss \<longleftrightarrow>
        matchesPath path reqPath \<and> list_ex (\<lambda>p. p \<noteq> path) ss \<and> list_ex (\<lambda>p. p \<noteq> path) fs" for fs ss
      unfolding list_ex_iff one[OF True] by blast
    with True show ?thesis by (simp only: api_error_at_def Let_def some[OF True] simp_thms)
  next
    case False
    then show ?thesis by (simp add: api_error_at_def Let_def)
  qed
qed

lemma api_error_at_paths: "api_error_at (so\<lparr>so_api_paths := ps\<rparr>) path reqPath = api_error_at so path reqPath"
  by (simp add: api_error_at_def)

text \<open>
  Whether a path below an API without a matching endpoint is answered with that API's error
  depends on the other parts of the server only through one base path: it is not when the server has SPAs
  and all of them have the API's base path (or files, and all of them). A second SPA elsewhere is enough
  for the first one, on the API's base path, not to be asked any more.
\<close>

theorem api_error_decision:
  "getAPIErrorTemplate (so\<lparr>so_api_paths := [(api, path)]\<rparr>) reqPath =
     (if isConfigured path \<and> matchesPath path reqPath \<and>
         (if so_spa_paths so = [] then True else list_ex (\<lambda>p. p \<noteq> path) (so_spa_paths so)) \<and>
         (if so_files_paths so = [] then True else list_ex (\<lambda>p. p \<noteq> path) (so_files_paths so))
      then Some (so_api_tpls so api, api) else None)"
  using api_error_at_iff[of so path reqPath] by (simp add: getAPIErrorTemplate_def api_error_at_paths)

text \<open>
  For a path below the base paths of two APIs it is the order in which the map of the APIs is
  iterated that decides whose error template answers, not the longer base path.
\<close>

theorem api_error_by_map_order:
  assumes "api_error_at so p1 reqPath" and "api_error_at so p2 reqPath"
  shows "getAPIErrorTemplate (so\<lparr>so_api_paths := [(a1, p1), (a2, p2)]\<rparr>) reqPath = Some (so_api_tpls so a1, a1) \<and>
    getAPIErrorTemplate (so\<lparr>so_api_paths := [(a2, p2), (a1, p1)]\<rparr>) reqPath = Some (so_api_tpls so a2, a2)"
  using assms by (simp add: getAPIErrorTemplate_def api_error_at_paths)

definition demo_options :: server_options where
  "demo_options = \<lparr>so_api_paths = [], so_api_tpls = (\<lambda>n. Some (if n = 1 then ''json'' else ''custom'')),
     so_api_base = (\<lambda>n. if n = 1 then ''/'' else ''/v1''), so_files_paths = [], so_spa_paths = [],
     so_server_tpl = ''html'', so_server_name = ''main''\<rparr>"

lemma api_error_by_map_order_witness:
  "getAPIErrorTemplate (demo_options\<lparr>so_api_paths := [(1, ''/''), (2, ''/v1'')]\<rparr>) ''/v1/x'' = Some (Some ''json'', 1) \<and>
   getAPIErrorTemplate (demo_options\<lparr>so_api_paths := [(2, ''/v1''), (1, ''/'')]\<rparr>) ''/v1/x'' = Some (Some ''custom'', 2)"
proof -
  have "api_error_at demo_options ''/'' ''/v1/x''" "api_error_at demo_options ''/v1'' ''/v1/x''" by code_simp+
  from api_error_by_map_order[OF this, of 1 2] show ?thesis by (simp add: demo_options_def)
qed

end
