(* ===== verification/Probe.thy ===== *)
theory Probe
  imports Errors Durations Seetie "HOL-Library.Word"
begin

text \<open>
  The health of a backend: the settings of its health check (\<open>config/health_check.go\<close>), the probe that
  runs them (\<open>handler/transport/probe.go\<close>) and the part of the backend that is told
  (\<open>handler/transport/backend.go\<close>).

  The loop of the probe is a step relation: every iteration takes the outcome of its request. The first
  request of the backend reads and writes the same health record under its lock, but releases the lock
  in between, so the two are steps of their own.
\<close>

section \<open>Settings\<close>

record health_check =
  hc_interval :: duration
  hc_timeout :: duration
  hc_threshold :: "64 word"
  hc_expected_status :: "int set"
  hc_expected_text :: string

definition defaultHealthCheck :: health_check where
  "defaultHealthCheck = \<lparr>hc_interval = 1000000000, hc_timeout = 1000000000, hc_threshold = 2,
     hc_expected_status = {200, 204, 301}, hc_expected_text = []\<rparr>"

record health =
  he_interval :: string
  he_timeout :: string
  he_threshold :: "64 word option"
  he_expected_status :: "int list"
  he_expected_text :: string

text \<open>\<open>NewHealthCheck\<close> without the request it builds.\<close>

definition NewHealthCheck :: "health option \<Rightarrow> duration_error + health_check" where
  "NewHealthCheck options =
     (case options of
        None \<Rightarrow> Inr defaultHealthCheck
      | Some he \<Rightarrow>
         (case (if he_interval he \<noteq> [] then time_parse_duration (he_interval he) else Inr (hc_interval defaultHealthCheck)) of
            Inl e \<Rightarrow> Inl e
          | Inr interval \<Rightarrow>
             (case (if he_timeout he \<noteq> [] then time_parse_duration (he_timeout he)
                    else if he_interval he \<noteq> [] then Inr interval else Inr (hc_timeout defaultHealthCheck)) of
                Inl e \<Rightarrow> Inl e
              | Inr timeout \<Rightarrow>
                  Inr \<lparr>hc_interval = interval, hc_timeout = (if timeout > interval then interval else timeout),
                       hc_threshold = (case he_threshold he of Some n \<Rightarrow> n | None \<Rightarrow> hc_threshold defaultHealthCheck),
                       hc_expected_status = (if he_expected_status he \<noteq> [] then set (he_expected_status he)
                                             else hc_expected_status defaultHealthCheck),
                       hc_expected_text = he_expected_text he\<rparr>)))"

section \<open>The probe\<close>

datatype state = StateInvalid | StateOk | StateFailing | StateDown

fun state_String :: "state \<Rightarrow> string" where
  "state_String StateInvalid = ''invalid''"
| "state_String StateOk = ''healthy''"
| "state_String StateFailing = ''failing''"
| "state_String StateDown = ''unhealthy''"

record HealthInfo =
  hi_error :: string
  hi_healthy :: bool
  hi_origin :: string
  hi_state :: string

record probe =
  pr_counter :: "64 word"
  pr_failure :: "64 word"
  pr_state :: state
  pr_status :: int

definition new_probe :: probe where
  "new_probe = \<lparr>pr_counter = 0, pr_failure = 0, pr_state = StateInvalid, pr_status = 0\<rparr>"

text \<open>What a request brings: a status and a body, or an error (with what it wraps), perhaps with a response.\<close>

datatype outcome =
    CheckResponse int string
  | CheckError "int option" go_error "go_error option"

definition outcome_status :: "outcome \<Rightarrow> int option" where
  "outcome_status oc = (case oc of CheckResponse st body \<Rightarrow> Some st | CheckError st e u \<Rightarrow> st)"

definition outcome_ok :: "health_check \<Rightarrow> outcome \<Rightarrow> bool" where
  "outcome_ok hc oc =
     (case oc of
        CheckResponse st body \<Rightarrow> st \<in> hc_expected_status hc \<and> contains_str body (hc_expected_text hc)
      | CheckError st e u \<Rightarrow> False)"

definition deadline_exceeded :: go_error where
  "deadline_exceeded = PlainError ''context deadline exceeded''"

definition probe_error :: "health_check \<Rightarrow> string \<Rightarrow> string \<Rightarrow> outcome \<Rightarrow> string" where
  "probe_error hc backend host oc =
     (case oc of
        CheckResponse st body \<Rightarrow>
          if st \<notin> hc_expected_status hc then ''unexpected status code: '' @ itoa st else ''unexpected text''
      | CheckError st e unwrapped \<Rightarrow>
          (let err = (case unwrapped of Some u \<Rightarrow> u | None \<Rightarrow> e) in
           if is_couper err
           then (if inner err = Some deadline_exceeded
             then ''backend error: connecting to '' @ backend @ '' '' @ [CHR 0x27] @ host @ [CHR 0x27] @ '' failed: i/o timeout''
             else fst (err_LogError err))
           else err_Error err))"

definition probe_step ::
    "health_check \<Rightarrow> string \<Rightarrow> string \<Rightarrow> string \<Rightarrow> outcome \<Rightarrow> probe \<Rightarrow> probe \<times> HealthInfo option" where
  "probe_step hc backend host origin oc p =
     (let ok = outcome_ok hc oc;
          failure = (if ok then 0 else pr_failure p + 1);
          st = (if ok then StateOk else if failure < hc_threshold hc then StateFailing else StateDown);
          msg = (if ok then [] else probe_error hc backend host oc) in
      (\<lparr>pr_counter = pr_counter p + 1, pr_failure = failure, pr_state = st,
        pr_status = (case outcome_status oc of Some s \<Rightarrow> s | None \<Rightarrow> 0)\<rparr>,
       if pr_state p \<noteq> st
       then Some \<lparr>hi_error = msg, hi_healthy = (st \<noteq> StateDown), hi_origin = origin, hi_state = state_String st\<rparr>
       else None))"

section \<open>The backend\<close>

text \<open>The first request of the backend has not come, has read the health record, or is through.\<close>

datatype init_phase = NotInitialised | InfoRead bool string | Initialised

record health_net =
  hn_probe :: probe
  hn_info :: HealthInfo
  hn_init :: init_phase

definition healthy_info :: HealthInfo where
  "healthy_info = \<lparr>hi_error = [], hi_healthy = True, hi_origin = [], hi_state = state_String StateOk\<rparr>"

definition new_backend :: health_net where
  "new_backend = \<lparr>hn_probe = new_probe, hn_info = healthy_info, hn_init = NotInitialised\<rparr>"

definition OnProbeChange :: "HealthInfo \<Rightarrow> health_net \<Rightarrow> health_net" where
  "OnProbeChange info s = s\<lparr>hn_info := info\<rparr>"

definition run_probe :: "health_check \<Rightarrow> string \<Rightarrow> string \<Rightarrow> string \<Rightarrow> outcome \<Rightarrow> health_net \<Rightarrow> health_net" where
  "run_probe hc backend host origin oc s =
     (case probe_step hc backend host origin oc (hn_probe s) of
        (p, Some info) \<Rightarrow> OnProbeChange info (s\<lparr>hn_probe := p\<rparr>)
      | (p, None) \<Rightarrow> s\<lparr>hn_probe := p\<rparr>)"

definition init_read :: "health_net \<Rightarrow> health_net" where
  "init_read s = s\<lparr>hn_init := InfoRead (hi_healthy (hn_info s)) (hi_state (hn_info s))\<rparr>"

definition init_write :: "bool \<Rightarrow> string \<Rightarrow> health_net \<Rightarrow> health_net" where
  "init_write healthy st s =
     (OnProbeChange \<lparr>hi_error = [], hi_healthy = healthy, hi_origin = [], hi_state = st\<rparr> s)\<lparr>hn_init := Initialised\<rparr>"

text \<open>The steps of the probe and of the first request in any order.\<close>

inductive health_step :: "health_check \<Rightarrow> health_net \<Rightarrow> health_net \<Rightarrow> bool" for hc where
  check: "health_step hc s (run_probe hc backend host origin oc s)"
| get_info: "hn_init s = NotInitialised \<Longrightarrow> health_step hc s (init_read s)"
| put_info: "hn_init s = InfoRead h st \<Longrightarrow> health_step hc s (init_write h st s)"

inductive health_reach :: "health_check \<Rightarrow> health_net \<Rightarrow> bool" for hc where
  start: "health_reach hc new_backend"
| step: "health_reach hc s \<Longrightarrow> health_step hc s s' \<Longrightarrow> health_reach hc s'"

text \<open>\<open>isUnhealthy\<close>, with the value of \<open>use_when_unhealthy\<close>; \<open>None\<close> is the panic for an unknown boolean.\<close>

definition isUnhealthy :: "go_error + cty \<Rightarrow> HealthInfo \<Rightarrow> go_error option option" where
  "isUnhealthy val info =
     (case val of
        Inl e \<Rightarrow> Some (Some e)
      | Inr (CUnknown TBool) \<Rightarrow> None
      | Inr v \<Rightarrow>
          (let useUnhealthy = (case v of CBool b \<Rightarrow> b | _ \<Rightarrow> False) in
           Some (if hi_healthy info \<or> useUnhealthy then None else Some (error_def ''backend_unhealthy''))))"

section \<open>What the probe shows\<close>

definition probe_run :: "health_check \<Rightarrow> string \<Rightarrow> string \<Rightarrow> string \<Rightarrow> outcome list \<Rightarrow> probe \<Rightarrow> probe" where
  "probe_run hc backend host origin ocs p = fold (\<lambda>oc p. fst (probe_step hc backend host origin oc p)) ocs p"

text \<open>The reference: the state after a list of outcomes, from the failures at its end.\<close>

definition failures :: "health_check \<Rightarrow> outcome list \<Rightarrow> nat" where
  "failures hc ocs = length (takeWhile (\<lambda>oc. \<not> outcome_ok hc oc) (rev ocs))"

definition state_after :: "health_check \<Rightarrow> outcome list \<Rightarrow> state" where
  "state_after hc ocs =
     (if ocs = [] then StateInvalid
      else if failures hc ocs = 0 then StateOk
      else if failures hc ocs < unat (hc_threshold hc) then StateFailing else StateDown)"

lemma probe_run_failure:
  "pr_failure (probe_run hc backend host origin ocs new_probe) = of_nat (failures hc ocs)"
proof (induction ocs rule: rev_induct)
  case (snoc oc ocs)
  then show ?case by (simp add: probe_run_def failures_def probe_step_def Let_def add.commute)
qed (simp add: probe_run_def failures_def new_probe_def)

lemma failures_snoc: "failures hc (ocs @ [oc]) = (if outcome_ok hc oc then 0 else Suc (failures hc ocs))"
  by (simp add: failures_def)

lemma failures_le: "failures hc ocs \<le> length ocs"
  using length_takeWhile_le[of "\<lambda>oc. \<not> outcome_ok hc oc" "rev ocs"] by (simp add: failures_def)

text \<open>
  The state of a probe depends only on the failed checks at the end of its history: none and
  it is healthy, fewer than the threshold and it is failing, else it is unhealthy (as long as the 64-bit
  counter has not wrapped around).
\<close>

theorem probe_state:
  assumes "length ocs < 2 ^ 64"
  shows "pr_state (probe_run hc backend host origin ocs new_probe) = state_after hc ocs"
proof (cases ocs rule: rev_cases)
  case Nil
  then show ?thesis by (simp add: probe_run_def state_after_def new_probe_def)
next
  case (snoc xs oc)
  have run: "probe_run hc backend host origin ocs new_probe =
      fst (probe_step hc backend host origin oc (probe_run hc backend host origin xs new_probe))"
    by (simp add: snoc probe_run_def)
  from assms failures_le[of hc xs] snoc have "Suc (failures hc xs) < 2 ^ 64" by simp
  moreover have "unat (of_nat (Suc (failures hc xs)) :: 64 word) = Suc (failures hc xs) mod 2 ^ 64"
    by (simp only: unat_of_nat) simp
  ultimately have "unat (of_nat (failures hc xs) + 1 :: 64 word) = Suc (failures hc xs)"
    by (simp add: add.commute)
  then show ?thesis
    unfolding run by (simp add: probe_step_def Let_def probe_run_failure state_after_def snoc failures_snoc word_less_nat_alt)
qed

lemma probe_state_witness:
  "pr_state (probe_run defaultHealthCheck ''be'' ''h'' ''h:80''
     [CheckResponse 200 [], CheckError None (PlainError ''refused'') None, CheckResponse 500 []] new_probe) = StateDown"
proof -
  have "state_after defaultHealthCheck
      [CheckResponse 200 [], CheckError None (PlainError ''refused'') None, CheckResponse 500 []] = StateDown"
    by (simp add: state_after_def failures_def outcome_ok_def defaultHealthCheck_def)
  then show ?thesis
    using probe_state[of "[CheckResponse 200 [], CheckError None (PlainError ''refused'') None, CheckResponse 500 []]"
        defaultHealthCheck "''be''" "''h''" "''h:80''"] by simp
qed

text \<open>
  The timeout of a check never exceeds its interval, whatever is configured.
\<close>

theorem timeout_within_interval:
  "case NewHealthCheck options of Inl e \<Rightarrow> True | Inr hc \<Rightarrow> hc_timeout hc \<le> hc_interval hc"
  by (auto simp: NewHealthCheck_def defaultHealthCheck_def split: option.split sum.split)

section \<open>What the backend knows\<close>

text \<open>The backend's record agrees with the state of the probe.\<close>

definition agrees :: "health_net \<Rightarrow> bool" where
  "agrees s \<longleftrightarrow> hi_healthy (hn_info s) = (pr_state (hn_probe s) \<noteq> StateDown) \<and>
     (if pr_state (hn_probe s) = StateInvalid then True else hi_state (hn_info s) = state_String (pr_state (hn_probe s)))"

lemma agrees_new [simp]: "agrees new_backend"
  by (simp add: agrees_def new_backend_def new_probe_def healthy_info_def)

lemma run_probe_init [simp]: "hn_init (run_probe hc backend host origin oc s) = hn_init s"
  by (simp add: run_probe_def OnProbeChange_def split: prod.split option.split)

lemma run_probe_agrees: "agrees s \<Longrightarrow> agrees (run_probe hc backend host origin oc s)"
  by (auto simp: agrees_def run_probe_def probe_step_def OnProbeChange_def Let_def)

lemma init_read_agrees: "agrees s \<Longrightarrow> agrees (init_read s)"
  by (simp add: agrees_def init_read_def)

text \<open>Checks, and the read and write of the first request as one step.\<close>

inductive atomic_reach :: "health_check \<Rightarrow> health_net \<Rightarrow> bool" for hc where
  fresh: "atomic_reach hc new_backend"
| checked: "atomic_reach hc s \<Longrightarrow> atomic_reach hc (run_probe hc backend host origin oc s)"
| initialised: "atomic_reach hc s \<Longrightarrow> hn_init s = NotInitialised \<Longrightarrow> hn_init (init_read s) = InfoRead h st \<Longrightarrow>
    atomic_reach hc (init_write h st (init_read s))"

text \<open>
  As long as no check falls between the read and the write of the health record by the
  backend's first request, the record agrees with the state of the probe.
\<close>

theorem health_follows_probe:
  assumes "atomic_reach hc s"
  shows "agrees s"
  using assms
proof induction
  case (initialised s h st)
  then show ?case by (auto simp: agrees_def init_read_def init_write_def OnProbeChange_def)
qed (simp_all add: run_probe_agrees)

definition failed_check :: outcome where
  "failed_check = CheckError None (PlainError ''connection refused'') None"

text \<open>A check that succeeds, the read of the first request, two checks that fail, and its write.\<close>

definition stale_net :: health_net where
  "stale_net =
     (let run = run_probe defaultHealthCheck ''be'' ''h'' ''h:80'';
          s1 = init_read (run (CheckResponse 200 []) new_backend);
          s2 = run failed_check (run failed_check s1) in
      init_write True ''healthy'' s2)"

lemma stale_net_values:
  "hn_info stale_net = healthy_info \<and> pr_state (hn_probe stale_net) = StateDown \<and> pr_failure (hn_probe stale_net) = 2"
  by (simp add: stale_net_def run_probe_def probe_step_def init_read_def init_write_def OnProbeChange_def
      new_backend_def new_probe_def healthy_info_def outcome_ok_def defaultHealthCheck_def failed_check_def Let_def)

lemma stale_net_reach: "health_reach defaultHealthCheck stale_net"
proof -
  define run where "run = run_probe defaultHealthCheck ''be'' ''h'' ''h:80''"
  define s1 where "s1 = init_read (run (CheckResponse 200 []) new_backend)"
  have run: "health_reach defaultHealthCheck (run oc s)" if "health_reach defaultHealthCheck s" for oc s
    unfolding run_def by (rule health_reach.step[OF that]) (rule health_step.check)
  have "hn_init (run (CheckResponse 200 []) new_backend) = NotInitialised"
    by (simp add: run_def new_backend_def)
  then have "health_reach defaultHealthCheck s1"
    unfolding s1_def by (rule health_reach.step[OF run[OF health_reach.start] health_step.get_info])
  then have s2: "health_reach defaultHealthCheck (run failed_check (run failed_check s1))" by (intro run)
  have "hn_init s1 = InfoRead True ''healthy''"
    by (simp add: s1_def run_def run_probe_def probe_step_def init_read_def OnProbeChange_def new_backend_def new_probe_def
        outcome_ok_def defaultHealthCheck_def Let_def)
  then have "hn_init (run failed_check (run failed_check s1)) = InfoRead True ''healthy''" by (simp add: run_def)
  then have "health_reach defaultHealthCheck (init_write True ''healthy'' (run failed_check (run failed_check s1)))"
    by (intro health_reach.step[OF s2] health_step.put_info)
  then show ?thesis by (simp add: stale_net_def s1_def run_def Let_def)
qed

lemma unat_inc:
  fixes w :: "64 word" assumes "Suc (unat w) < 2 ^ 64" shows "unat (w + 1) = Suc (unat w)"
proof -
  have "unat (w + 1) = (unat w + unat (1 :: 64 word)) mod 2 ^ LENGTH(64)" by (rule unat_word_ariths(1))
  also have "\<dots> = Suc (unat w) mod 2 ^ 64" by simp
  also have "\<dots> = Suc (unat w)" by (rule mod_less[OF assms])
  finally show ?thesis .
qed

lemma down_stays_down:
  assumes "pr_state (hn_probe s) = StateDown" and "unat (hc_threshold hc) \<le> unat (pr_failure (hn_probe s))"
    and "unat (pr_failure (hn_probe s)) + length ocs < 2 ^ 64" and "list_all (\<lambda>oc. \<not> outcome_ok hc oc) ocs"
  shows "hn_info (fold (run_probe hc backend host origin) ocs s) = hn_info s"
  using assms
proof (induction ocs arbitrary: s)
  case (Cons oc ocs)
  let ?s = "run_probe hc backend host origin oc s"
  have fail: "unat (pr_failure (hn_probe s) + 1) = Suc (unat (pr_failure (hn_probe s)))"
    by (rule unat_inc) (use Cons.prems(3) in simp)
  then have up: "\<not> pr_failure (hn_probe s) + 1 < hc_threshold hc"
    using Cons.prems(2) by (simp add: word_less_nat_alt)
  have not_ok: "\<not> outcome_ok hc oc" using Cons.prems(4) by simp
  have run: "snd (probe_step hc backend host origin oc (hn_probe s)) = None"
    "pr_state (fst (probe_step hc backend host origin oc (hn_probe s))) = StateDown"
    "pr_failure (fst (probe_step hc backend host origin oc (hn_probe s))) = pr_failure (hn_probe s) + 1"
    using not_ok up Cons.prems(1) by (simp_all only: probe_step_def Let_def if_False simp_thms fst_conv snd_conv probe.simps)
  then have "?s = s\<lparr>hn_probe := fst (probe_step hc backend host origin oc (hn_probe s))\<rparr>"
    by (simp add: run_probe_def split_beta split: option.split)
  with run have step: "hn_info ?s = hn_info s" "pr_state (hn_probe ?s) = StateDown"
    "pr_failure (hn_probe ?s) = pr_failure (hn_probe s) + 1" by simp_all
  have count: "unat (pr_failure (hn_probe ?s)) = Suc (unat (pr_failure (hn_probe s)))"
    unfolding step(3) by (rule fail)
  have "hn_info (fold (run_probe hc backend host origin) ocs ?s) = hn_info ?s"
  proof (rule Cons.IH[OF step(2)])
    show "unat (hc_threshold hc) \<le> unat (pr_failure (hn_probe ?s))" using Cons.prems(2) count by linarith
    show "unat (pr_failure (hn_probe ?s)) + length ocs < 2 ^ 64" using Cons.prems(3) unfolding count by simp
    show "list_all (\<lambda>oc. \<not> outcome_ok hc oc) ocs" using Cons.prems(4) by simp
  qed
  then show ?case by (simp add: step(1))
qed simp

text \<open>
  The first request of a backend can overwrite what the probe reports: there is a reachable
  state in which the probe has found the backend unhealthy and the backend still counts as healthy, and
  as the probe only reports changes, no number of further failing checks (below the range of the
  counter) corrects it.
\<close>

theorem stale_health:
  "\<exists>s. health_reach defaultHealthCheck s \<and> pr_state (hn_probe s) = StateDown \<and>
     isUnhealthy (Inr (CNull TDyn)) (hn_info s) = Some None \<and>
     (\<forall>ocs. if list_all (\<lambda>oc. \<not> outcome_ok defaultHealthCheck oc) ocs \<and> length ocs < 2 ^ 63
       then hn_info (fold (run_probe defaultHealthCheck ''be'' ''h'' ''h:80'') ocs s) = hn_info s else True)"
proof (intro exI[of _ stale_net] conjI allI)
  show "health_reach defaultHealthCheck stale_net" by (rule stale_net_reach)
  show "pr_state (hn_probe stale_net) = StateDown" "isUnhealthy (Inr (CNull TDyn)) (hn_info stale_net) = Some None"
    using stale_net_values by (simp_all add: isUnhealthy_def healthy_info_def)
  fix ocs
  show "if list_all (\<lambda>oc. \<not> outcome_ok defaultHealthCheck oc) ocs \<and> length ocs < 2 ^ 63
       then hn_info (fold (run_probe defaultHealthCheck ''be'' ''h'' ''h:80'') ocs stale_net) = hn_info stale_net else True"
    using down_stays_down[of stale_net defaultHealthCheck ocs "''be''" "''h''" "''h:80''"] stale_net_values
    by (simp add: defaultHealthCheck_def)
qed

lemma health_follows_probe_witness:
  "agrees (run_probe defaultHealthCheck ''be'' ''h'' ''h:80'' failed_check new_backend)"
  by (rule health_follows_probe[OF atomic_reach.checked[OF atomic_reach.fresh]])

end
