(* ===== verification/Backend.thy ===== *)
theory Backend
  imports Modifiers Probe
begin

text \<open>
  One round trip of a backend (\<open>handler/transport/backend.go\<close>) with the settings of its transport
  (\<open>handler/transport/transport.go\<close>): the health check, the evaluated origin, which the first request
  pins, and what is done to the headers and the path of the request and to the response.

  Arguments stand for the evaluation of attributes, for parsing an URL, for the validation of an OpenAPI
  document, for the decompression of a body and for the transport itself. Getting tokens and repeating a
  round trip with a new one is in \<open>TokenAuth\<close>; logs, traces and metrics are left out.
\<close>

section \<open>Headers\<close>

definition HopHeaders :: "string list" where
  "HopHeaders = [''Connection'', ''Proxy-Connection'', ''Keep-Alive'', ''Proxy-Authenticate'', ''Proxy-Authorization'',
     ''Te'', ''Trailer'', ''Transfer-Encoding'', ''Upgrade'']"

definition connection_names :: "header \<Rightarrow> string list" where
  "connection_names h =
     (case h ''Connection'' of
        None \<Rightarrow> []
      | Some vs \<Rightarrow> filter (\<lambda>s. s \<noteq> []) (concat (map (\<lambda>v. map trim_space (split_on CHR '','' v)) vs)))"

definition RemoveConnectionHeaders :: "header \<Rightarrow> header" where
  "RemoveConnectionHeaders h = fold h_del (connection_names h) h"

definition remove_hop :: "string \<Rightarrow> header \<Rightarrow> header" where
  "remove_hop name h =
     (let hv = h_get h name in
      if hv = [] then h else if name = ''Te'' \<and> hv = ''trailers'' then h else h_del name h)"

definition RemoveHopHeaders :: "header \<Rightarrow> header" where
  "RemoveHopHeaders h = fold remove_hop HopHeaders h"

text \<open>The expression \<open>(?i)\bgzip\b\<close>, with the byte before the rest of the text.\<close>

definition word_char :: "char \<Rightarrow> bool" where
  "word_char c \<longleftrightarrow> is_alnum c \<or> c = CHR ''_''"

fun has_gzip :: "char option \<Rightarrow> string \<Rightarrow> bool" where
  "has_gzip prev [] = False"
| "has_gzip prev (c # cs) =
     (((case prev of None \<Rightarrow> True | Some p \<Rightarrow> \<not> word_char p) \<and> equal_fold (take 4 (c # cs)) ''gzip'' \<and>
       (case drop 4 (c # cs) of [] \<Rightarrow> True | d # _ \<Rightarrow> \<not> word_char d)) \<or> has_gzip (Some c) cs)"

definition ModifyAcceptEncoding :: "header \<Rightarrow> header" where
  "ModifyAcceptEncoding h =
     (if has_gzip None (h_get h ''Accept-Encoding'') then h_set ''Accept-Encoding'' ''gzip'' h
      else h_del ''Accept-Encoding'' h)"

definition setUserAgent :: "header \<Rightarrow> header" where
  "setUserAgent h = (if h_get h ''User-Agent'' = [] then h_set ''User-Agent'' [] h else h)"

section \<open>The transport's settings\<close>

text \<open>The port of \<open>net.SplitHostPort\<close>, which is empty when there is an error.\<close>

definition split_port :: "string \<Rightarrow> string" where
  "split_port hostport =
     (let port = rev (takeWhile (\<lambda>c. c \<noteq> CHR '':'') (rev hostport));
          before = take (length hostport - length port - 1) hostport in
      if CHR '':'' \<notin> set hostport then []
      else if CHR ''['' \<in> set port \<or> CHR '']'' \<in> set port then []
      else if has_prefix hostport ''[''
      then (if has_suffix before '']'' \<and> CHR ''['' \<notin> set (tl before) \<and> CHR '']'' \<notin> set (butlast before) then port else [])
      else if CHR '':'' \<in> set before \<or> CHR ''['' \<in> set before \<or> CHR '']'' \<in> set before then []
      else port)"

record config =
  cf_http2 :: bool
  cf_proxy :: string
  cf_connect_timeout :: duration
  cf_ttfb_timeout :: duration
  cf_timeout :: duration
  cf_hostname :: string
  cf_origin :: string
  cf_scheme :: string

definition WithTarget :: "string \<Rightarrow> string \<Rightarrow> string \<Rightarrow> string \<Rightarrow> config \<Rightarrow> config" where
  "WithTarget scheme origin hostname proxyURL c =
     (let sch = (if scheme \<noteq> [] then scheme else if cf_http2 c then ''https'' else ''http'');
          org = (if split_port origin = [] then (if sch = ''http'' then origin @ '':80'' else origin @ '':443'') else origin) in
      c\<lparr>cf_scheme := sch, cf_origin := org, cf_hostname := hostname,
        cf_proxy := (if proxyURL \<noteq> [] then proxyURL else cf_proxy c)\<rparr>)"

text \<open>\<open>parseDuration\<close>: an error keeps the old value.\<close>

definition parse_timing :: "string \<Rightarrow> string \<Rightarrow> duration \<Rightarrow> duration" where
  "parse_timing name src old =
     (case ParseDuration name src old of Inl e \<Rightarrow> old | Inr d \<Rightarrow> d)"

definition WithTimings :: "string \<Rightarrow> string \<Rightarrow> string \<Rightarrow> config \<Rightarrow> config" where
  "WithTimings connect ttfb timeout c =
     c\<lparr>cf_connect_timeout := parse_timing ''connect_timeout'' connect (cf_connect_timeout c),
       cf_ttfb_timeout := parse_timing ''ttfb_timeout'' ttfb (cf_ttfb_timeout c),
       cf_timeout := parse_timing ''timeout'' timeout (cf_timeout c)\<rparr>"

section \<open>The backend\<close>

text \<open>An URL: scheme, host with port, host name. It is printed as it was written.\<close>

record url =
  ur_scheme :: string
  ur_host :: string
  ur_hostname :: string

text \<open>What the context of a request says.\<close>

record trip_context =
  tc_proxy :: bool
  tc_xff :: "string option"
  tc_websockets :: bool
  tc_buffer_response :: bool

record backend_env =
  be_name :: string
  be_conf :: config
  be_eval :: evaluation
  be_value :: "bereq \<Rightarrow> string \<Rightarrow> go_error + cty"
  be_attrs :: "bereq \<Rightarrow> go_error + attrs"
  be_path :: "bereq \<Rightarrow> (go_error + cty) option"
  be_response_attrs :: "bereq \<Rightarrow> beresp \<Rightarrow> go_error + attrs"
  be_response_status :: "bereq \<Rightarrow> beresp \<Rightarrow> (go_error + cty) option"
  be_parse_url :: "string \<Rightarrow> go_error + url"
  be_request_error :: "(bereq \<Rightarrow> go_error option) option"
  be_response_error :: "bereq \<Rightarrow> beresp \<Rightarrow> go_error option"
  be_gunzip :: "string \<Rightarrow> string option"

text \<open>The value of an attribute as text; an error is logged and gives no text.\<close>

definition attribute_text :: "backend_env \<Rightarrow> bereq \<Rightarrow> string \<Rightarrow> string" where
  "attribute_text env req name =
     (case be_value env req name of Inl e \<Rightarrow> [] | Inr v \<Rightarrow> ValueToString (ev_btext (be_eval env)) v)"

definition configuration_error :: "backend_env \<Rightarrow> string \<Rightarrow> go_error" where
  "configuration_error env msg = err_Message msg (err_Label (be_name env) E_Configuration)"

text \<open>\<open>evalTransport\<close>; the URL of the request is the target of a backend without an origin.\<close>

definition evalTransport :: "backend_env \<Rightarrow> bereq \<Rightarrow> url \<Rightarrow> go_error + config" where
  "evalTransport env req u =
     (let origin = attribute_text env req ''origin'';
          hostname = attribute_text env req ''hostname'';
          proxyURL = attribute_text env req ''proxy'' in
      case be_parse_url env origin of
        Inl e \<Rightarrow> Inl (err_With (Some e) (err_Label (be_name env) E_Configuration))
      | Inr parsed \<Rightarrow>
          if has_prefix (ur_host parsed) (ur_scheme parsed @ '':'')
          then Inl (configuration_error env (''invalid url: '' @ origin))
          else (let originURL = (if origin = [] then u else parsed);
                    host = (if hostname = [] then ur_host originURL else hostname) in
            if ur_scheme originURL = [] \<or> ur_hostname originURL = []
            then Inl (configuration_error env
              (''the origin attribute has to contain an absolute URL with a valid hostname: '' @ [CHR 0x22] @ origin @ [CHR 0x22]))
            else Inr (WithTimings (attribute_text env req ''connect_timeout'') (attribute_text env req ''ttfb_timeout'')
                   (attribute_text env req ''timeout'')
                   (WithTarget (ur_scheme originURL) (ur_host originURL) host proxyURL (be_conf env)))))"

definition withBasicAuth :: "backend_env \<Rightarrow> bereq \<Rightarrow> header \<Rightarrow> header" where
  "withBasicAuth env req h =
     (let creds = attribute_text env req ''basic_auth'' in
      if creds \<noteq> [] then h_set ''Authorization'' (''Basic '' @ b64_encode creds) h else h)"

definition withPathPrefix :: "backend_env \<Rightarrow> bereq \<Rightarrow> bereq \<Rightarrow> go_error + bereq" where
  "withPathPrefix env req0 req =
     (let pathPrefix = attribute_text env req0 ''path_prefix'' in
      if pathPrefix = [] then Inr req
      else if CHR ''#'' \<in> set pathPrefix
      then Inl (err_Message (''path_prefix attribute: invalid fragment found in '' @ [CHR 0x22] @ pathPrefix @ [CHR 0x22]) E_Configuration)
      else if CHR ''?'' \<in> set pathPrefix
      then Inl (err_Message (''path_prefix attribute: invalid query string found in '' @ [CHR 0x22] @ pathPrefix @ [CHR 0x22]) E_Configuration)
      else Inr (req\<lparr>req_path := JoinPath [''/'', pathPrefix, req_path req]\<rparr>))"

text \<open>The headers and the path of the request that is sent; \<open>req0\<close> is the request the attributes see.\<close>

definition forwarded_for :: "trip_context \<Rightarrow> header \<Rightarrow> header" where
  "forwarded_for tc h =
     (case tc_xff tc of
        None \<Rightarrow> h
      | Some xff \<Rightarrow> if xff \<noteq> [] then h_set ''X-Forwarded-For'' xff h else h_del ''X-Forwarded-For'' h)"

definition outgoing_request :: "backend_env \<Rightarrow> trip_context \<Rightarrow> config \<Rightarrow> bereq \<Rightarrow> bereq \<Rightarrow> go_error + bereq" where
  "outgoing_request env tc conf req0 req =
     (let h1 = (if tc_proxy tc then req_header req else RemoveHopHeaders (RemoveConnectionHeaders (req_header req)));
          h2 = withBasicAuth env req0 (forwarded_for tc (ModifyAcceptEncoding h1)) in
      case withPathPrefix env req0 (req\<lparr>req_host := cf_hostname conf, req_header := h2\<rparr>) of
        Inl e \<Rightarrow> Inl e
      | Inr req1 \<Rightarrow>
          (let h3 = setUserAgent (req_header req1);
               h4 = (if tc_websockets tc then h3 else h_del ''Upgrade'' (h_del ''Connection'' h3)) in
           Inr (req1\<lparr>req_header := h4\<rparr>)))"

text \<open>What a transport call brings: an answer, or an error, when perhaps a deadline has passed.\<close>

datatype trip = TripResponse beresp | TripError go_error "go_error option"

definition innerRoundTrip :: "backend_env \<Rightarrow> trip \<Rightarrow> go_error + beresp" where
  "innerRoundTrip env t =
     (case t of
        TripResponse r \<Rightarrow> Inr r
      | TripError e (Some derr) \<Rightarrow> Inl derr
      | TripError e None \<Rightarrow> Inl (if is_couper e then e else err_With (Some e) (err_Label (be_name env) (error_def ''backend''))))"

definition validation_error :: "backend_env \<Rightarrow> go_error \<Rightarrow> go_error" where
  "validation_error env e = err_With (Some e) (err_Label (be_name env) (error_def ''backend_openapi_validation''))"

definition openAPIValidate ::
    "backend_env \<Rightarrow> (bereq \<Rightarrow> go_error option) \<Rightarrow> (bereq \<Rightarrow> trip) \<Rightarrow> bereq \<Rightarrow> beresp option \<times> go_error option" where
  "openAPIValidate env check_request send req =
     (case check_request req of
        Some e \<Rightarrow> (None, Some (validation_error env e))
      | None \<Rightarrow>
         (case innerRoundTrip env (send req) of
            Inl e \<Rightarrow> (None, Some e)
          | Inr r \<Rightarrow>
             (case be_response_error env req r of
                Some e \<Rightarrow> (Some r, Some (err_Status 502 (validation_error env e)))
              | None \<Rightarrow> (Some r, None))))"

text \<open>\<open>setGzipReader\<close>: a body that cannot be decompressed is left as it is, with its headers.\<close>

definition setGzipReader :: "backend_env \<Rightarrow> trip_context \<Rightarrow> beresp \<Rightarrow> beresp" where
  "setGzipReader env tc r =
     (if to_lower (h_get (bs_header r) ''Content-Encoding'') \<noteq> ''gzip'' \<or> \<not> tc_buffer_response tc then r
      else (case be_gunzip env (bs_body r) of
         None \<Rightarrow> r
       | Some b \<Rightarrow> r\<lparr>bs_body := b, bs_header := h_del ''Content-Length'' (h_del ''Content-Encoding'' (bs_header r))\<rparr>))"

text \<open>The state of a backend: what the first request has pinned, and its health.\<close>

record backend_state =
  bk_pinned :: "config option"
  bk_info :: HealthInfo

definition initOnce :: "config \<Rightarrow> backend_state \<Rightarrow> backend_state" where
  "initOnce tc s =
     (case bk_pinned s of
        Some c \<Rightarrow> s
      | None \<Rightarrow> s\<lparr>bk_pinned := Some tc,
                 bk_info := \<lparr>hi_error = [], hi_healthy = hi_healthy (bk_info s), hi_origin = [], hi_state = hi_state (bk_info s)\<rparr>\<rparr>)"

definition trip_config :: "config \<Rightarrow> backend_state \<Rightarrow> config" where
  "trip_config tc s =
     (the (bk_pinned s))\<lparr>cf_connect_timeout := cf_connect_timeout tc, cf_ttfb_timeout := cf_ttfb_timeout tc,
       cf_timeout := cf_timeout tc\<rparr>"

text \<open>What a round trip gives: a response and an error, the request that was sent if any, with its
  settings. \<open>None\<close> is a panic.\<close>

record round_trip_result =
  tr_response :: "beresp option"
  tr_error :: "go_error option"
  tr_sent :: "(config \<times> bereq) option"

definition failed :: "go_error \<Rightarrow> round_trip_result" where
  "failed e = \<lparr>tr_response = None, tr_error = Some e, tr_sent = None\<rparr>"

definition finish_response ::
    "backend_env \<Rightarrow> trip_context \<Rightarrow> bereq \<Rightarrow> beresp \<Rightarrow> (beresp \<times> go_error option) option" where
  "finish_response env tc req r =
     (let r1 = (if IsUpgradeResponse (tc_websockets tc) (req_header req) (bs_header r) then r else setGzipReader env tc r);
          r2 = (if tc_proxy tc then r1 else r1\<lparr>bs_header := RemoveHopHeaders (RemoveConnectionHeaders (bs_header r1))\<rparr>) in
      ApplyResponseContext (be_eval env) (be_response_attrs env req r2) (be_response_status env req r2)
        (tc_websockets tc) (req_header req) r2)"

definition send_request ::
    "backend_env \<Rightarrow> trip_context \<Rightarrow> (bereq \<Rightarrow> trip) \<Rightarrow> config \<Rightarrow> bereq \<Rightarrow> round_trip_result option" where
  "send_request env tc send conf req =
     (case (case be_request_error env of
              Some check \<Rightarrow> openAPIValidate env check send req
            | None \<Rightarrow> (case innerRoundTrip env (send req) of Inl e \<Rightarrow> (None, Some e) | Inr r \<Rightarrow> (Some r, None))) of
        (r, Some e) \<Rightarrow> Some \<lparr>tr_response = r, tr_error = Some e, tr_sent = Some (conf, req)\<rparr>
      | (None, None) \<Rightarrow> None
      | (Some r, None) \<Rightarrow>
          map_option (\<lambda>(r', e). \<lparr>tr_response = Some r', tr_error = e, tr_sent = Some (conf, req)\<rparr>)
            (finish_response env tc req r))"

definition RoundTrip ::
    "backend_env \<Rightarrow> trip_context \<Rightarrow> (bereq \<Rightarrow> trip) \<Rightarrow> url \<Rightarrow> bereq \<Rightarrow> backend_state
       \<Rightarrow> (round_trip_result \<times> backend_state) option" where
  "RoundTrip env tc send u req s =
     (case isUnhealthy (be_value env req ''use_when_unhealthy'') (bk_info s) of
        None \<Rightarrow> None
      | Some (Some e) \<Rightarrow> Some (failed e, s)
      | Some None \<Rightarrow>
         (case ApplyRequestContext (be_eval env) (be_path env req) (be_attrs env req) req of
            None \<Rightarrow> None
          | Some (Inl e) \<Rightarrow> Some (failed e, s)
          | Some (Inr req1) \<Rightarrow>
             (case evalTransport env req u of
                Inl e \<Rightarrow> Some (failed e, s)
              | Inr conf \<Rightarrow>
                 (let s1 = initOnce conf s; tconf = trip_config conf s1 in
                  case outgoing_request env tc tconf req req1 of
                    Inl e \<Rightarrow> Some (failed e, s1)
                  | Inr out \<Rightarrow> map_option (\<lambda>r. (r, s1)) (send_request env tc send tconf out)))))"

section \<open>What is sent\<close>

definition hop_free :: "header \<Rightarrow> string \<Rightarrow> bool" where
  "hop_free h n \<longleftrightarrow> h_get h n = [] \<or> (n = ''Te'' \<and> h_get h n = ''trailers'')"

lemma remove_hop_free: "hop_free h n \<Longrightarrow> hop_free (remove_hop m h) n"
  by (auto simp: hop_free_def remove_hop_def Let_def h_get_del)

lemma remove_hop_self: "hop_free (remove_hop n h) n"
  by (auto simp: hop_free_def remove_hop_def Let_def h_get_del)

lemma fold_hop_keep: "hop_free h n \<Longrightarrow> hop_free (fold remove_hop ns h) n"
  by (induction ns arbitrary: h) (simp_all add: remove_hop_free)

lemma fold_hop_free: "n \<in> set ns \<Longrightarrow> hop_free (fold remove_hop ns h) n"
proof (induction ns arbitrary: h)
  case (Cons m ns)
  then show ?case by (auto simp: fold_hop_keep remove_hop_self)
qed simp

lemma RemoveHopHeaders_free: "list_all (hop_free (RemoveHopHeaders h)) HopHeaders"
  by (simp add: list_all_iff RemoveHopHeaders_def fold_hop_free)

text \<open>The headers that a round trip sets itself are no hop-by-hop headers.\<close>

lemma own_headers:
  "list_all (\<lambda>n. canonical_key n \<notin> canonical_key ` {''Accept-Encoding'', ''X-Forwarded-For'', ''Authorization'', ''User-Agent''}) HopHeaders"
  by code_simp

lemma own_header_keys: "n \<in> set HopHeaders \<Longrightarrow> m \<in> {''Accept-Encoding'', ''X-Forwarded-For'', ''Authorization'', ''User-Agent''} \<Longrightarrow>
    canonical_key n \<noteq> canonical_key m"
  using own_headers by (auto simp: list_all_iff)

lemma hop_free_get: "h_get h' n = h_get h n \<Longrightarrow> hop_free h n \<Longrightarrow> hop_free h' n"
  by (simp add: hop_free_def)

lemma hop_free_del: "hop_free h n \<Longrightarrow> hop_free (h_del m h) n"
  by (auto simp: hop_free_def h_get_del)

lemma own_steps:
  assumes "n \<in> set HopHeaders" and "hop_free h n"
  shows "hop_free (ModifyAcceptEncoding h) n" "hop_free (forwarded_for tc h) n" "hop_free (withBasicAuth env req h) n"
    "hop_free (setUserAgent h) n"
  using assms own_header_keys[OF assms(1), of "''Accept-Encoding''"] own_header_keys[OF assms(1), of "''X-Forwarded-For''"]
    own_header_keys[OF assms(1), of "''Authorization''"] own_header_keys[OF assms(1), of "''User-Agent''"]
  by (auto simp: ModifyAcceptEncoding_def forwarded_for_def withBasicAuth_def setUserAgent_def Let_def h_get_set h_get_del
      hop_free_def split: option.split)

lemma withPathPrefix_header: "withPathPrefix env req0 req = Inr req' \<Longrightarrow> req_header req' = req_header req \<and> req_host req' = req_host req"
  by (auto simp: withPathPrefix_def Let_def split: if_splits)

lemma outgoing_hop_free:
  assumes out: "outgoing_request env tc conf req0 req = Inr out" and "\<not> tc_proxy tc"
  shows "list_all (hop_free (req_header out)) HopHeaders"
proof -
  let ?h1 = "RemoveHopHeaders (RemoveConnectionHeaders (req_header req))"
  let ?h2 = "withBasicAuth env req0 (forwarded_for tc (ModifyAcceptEncoding ?h1))"
  from assms obtain req1 where prefix: "withPathPrefix env req0 (req\<lparr>req_host := cf_hostname conf, req_header := ?h2\<rparr>) = Inr req1"
    and res: "req_header out = (if tc_websockets tc then setUserAgent (req_header req1)
      else h_del ''Upgrade'' (h_del ''Connection'' (setUserAgent (req_header req1))))"
    by (auto simp: outgoing_request_def Let_def split: sum.splits)
  from withPathPrefix_header[OF prefix] have h2: "req_header req1 = ?h2" by simp
  have "hop_free (req_header out) n" if n: "n \<in> set HopHeaders" for n
  proof -
    have "hop_free ?h1 n" using RemoveHopHeaders_free n by (auto simp: list_all_iff)
    then have "hop_free (setUserAgent (req_header req1)) n" unfolding h2 by (intro own_steps n)
    then show ?thesis unfolding res by (simp add: hop_free_del)
  qed
  then show ?thesis by (simp add: list_all_iff)
qed

lemma sent_by_RoundTrip:
  assumes "RoundTrip env tc send u req s = Some (r, s')" and "tr_sent r = Some (conf, out)"
  obtains tconf req1 where "evalTransport env req u = Inr tconf" "s' = initOnce tconf s" "conf = trip_config tconf s'"
    "outgoing_request env tc conf req req1 = Inr out"
    "isUnhealthy (be_value env req ''use_when_unhealthy'') (bk_info s) = Some None"
proof -
  have sent: "tr_sent r' = Some (c, o')" if "send_request env tc send c o' = Some r'" for c o' r'
    using that by (auto simp: send_request_def split: option.splits prod.splits)
  from assms(1) obtain req1 where h: "isUnhealthy (be_value env req ''use_when_unhealthy'') (bk_info s) = Some None"
    and rest: "(case evalTransport env req u of
                Inl e \<Rightarrow> Some (failed e, s)
              | Inr conf \<Rightarrow>
                 (let s1 = initOnce conf s; tconf = trip_config conf s1 in
                  case outgoing_request env tc tconf req req1 of
                    Inl e \<Rightarrow> Some (failed e, s1)
                  | Inr out \<Rightarrow> map_option (\<lambda>r. (r, s1)) (send_request env tc send tconf out))) = Some (r, s')"
    using assms(2) by (auto simp: RoundTrip_def failed_def split: option.splits sum.splits)
  from rest assms(2) obtain tconf where t: "evalTransport env req u = Inr tconf" by (auto simp: failed_def split: sum.splits)
  from rest t assms(2) obtain out' where o': "outgoing_request env tc (trip_config tconf (initOnce tconf s)) req req1 = Inr out'"
    and s': "s' = initOnce tconf s" and r: "send_request env tc send (trip_config tconf (initOnce tconf s)) out' = Some r"
    by (auto simp: failed_def Let_def split: sum.splits)
  from sent[OF r] assms(2) have "conf = trip_config tconf s'" "out' = out" by (simp_all add: s')
  with t s' o' h show ?thesis using that by simp
qed

definition sent_by :: "(round_trip_result \<times> backend_state) option \<Rightarrow> (config \<times> bereq) option" where
  "sent_by result = (case result of None \<Rightarrow> None | Some (r, s) \<Rightarrow> tr_sent r)"

text \<open>
  Property C18: the request that a round trip sends, unless it belongs to a proxy, which removes them itself:
  no hop-by-hop header has a first value, other than \<open>Te: trailers\<close>. Without websockets, neither
  \<open>Connection\<close> nor \<open>Upgrade\<close> is sent at all.
\<close>

theorem hop_headers_removed:
  "case sent_by (RoundTrip env tc send u req s) of
     Some (conf, out) \<Rightarrow>
       (if tc_proxy tc then True else list_all (hop_free (req_header out)) HopHeaders) \<and>
       (if tc_websockets tc then True
        else h_values (req_header out) ''Connection'' = [] \<and> h_values (req_header out) ''Upgrade'' = [])
   | None \<Rightarrow> True"
proof -
  have "(if tc_proxy tc then True else list_all (hop_free (req_header out)) HopHeaders) \<and>
       (if tc_websockets tc then True
        else h_values (req_header out) ''Connection'' = [] \<and> h_values (req_header out) ''Upgrade'' = [])"
    if trip: "RoundTrip env tc send u req s = Some (r, s')" and sent: "tr_sent r = Some (conf, out)" for r s' conf out
  proof -
    from sent_by_RoundTrip[OF trip sent] obtain req1 where out: "outgoing_request env tc conf req req1 = Inr out" by metis
    have keys: "canonical_key ''Connection'' \<noteq> canonical_key ''Upgrade''" by code_simp
    from out have "\<not> tc_websockets tc \<Longrightarrow> h_values (req_header out) ''Connection'' = [] \<and> h_values (req_header out) ''Upgrade'' = []"
      using keys by (auto simp: outgoing_request_def Let_def h_values_del split: sum.splits)
    then show ?thesis using outgoing_hop_free[OF out] by simp
  qed
  then show ?thesis by (auto simp: sent_by_def split: option.split)
qed

text \<open>
  An unhealthy backend is never asked: unless \<open>use_when_unhealthy\<close> is true, a round trip of a
  backend that is not healthy sends nothing and ends with an error.
\<close>

theorem unhealthy_backend_not_asked:
  assumes "\<not> hi_healthy (bk_info s)" and "be_value env req ''use_when_unhealthy'' \<noteq> Inr (CBool True)"
  shows "case RoundTrip env tc send u req s of
     None \<Rightarrow> be_value env req ''use_when_unhealthy'' = Inr (CUnknown TBool)
   | Some (r, s') \<Rightarrow> s' = s \<and> tr_sent r = None \<and> tr_error r \<noteq> None"
proof (cases "be_value env req ''use_when_unhealthy''")
  case (Inl e)
  then show ?thesis by (simp add: RoundTrip_def isUnhealthy_def failed_def)
next
  case (Inr v)
  show ?thesis
  proof (cases "v = CUnknown TBool")
    case True
    with Inr show ?thesis by (simp add: RoundTrip_def isUnhealthy_def)
  next
    case False
    with Inr assms have "isUnhealthy (Inr v) (bk_info s) = Some (Some (error_def ''backend_unhealthy''))"
      by (cases v) (auto simp: isUnhealthy_def split: cty_type.splits)
    with Inr show ?thesis by (simp add: RoundTrip_def failed_def)
  qed
qed

definition demo_backend :: backend_env where
  "demo_backend = \<lparr>be_name = ''be'',
     be_conf = \<lparr>cf_http2 = False, cf_proxy = [], cf_connect_timeout = 0, cf_ttfb_timeout = 0, cf_timeout = 0,
       cf_hostname = [], cf_origin = [], cf_scheme = []\<rparr>,
     be_eval = demo_evaluation, be_value = (\<lambda>req name. Inr (CNull TDyn)), be_attrs = (\<lambda>req. Inr Map.empty),
     be_path = (\<lambda>req. None), be_response_attrs = (\<lambda>req r. Inr Map.empty), be_response_status = (\<lambda>req r. None),
     be_parse_url = (\<lambda>s. Inr \<lparr>ur_scheme = ''https'', ur_host = s, ur_hostname = s\<rparr>),
     be_request_error = None, be_response_error = (\<lambda>req r. None), be_gunzip = (\<lambda>s. None)\<rparr>"

definition demo_request :: bereq where
  "demo_request = \<lparr>req_method = ''GET'', req_host = [], req_path = ''/'', req_query = [], req_header = Map.empty,
     br_wildcard = None, br_form = None, br_body = None, br_length = 0\<rparr>"

lemma unhealthy_backend_not_asked_witness:
  "let tc = \<lparr>tc_proxy = False, tc_xff = None, tc_websockets = False, tc_buffer_response = False\<rparr>;
       s = \<lparr>bk_pinned = None, bk_info = healthy_info\<lparr>hi_healthy := False\<rparr>\<rparr> in
   case RoundTrip demo_backend tc (\<lambda>r. TripError deadline_exceeded None) \<lparr>ur_scheme = [], ur_host = [], ur_hostname = []\<rparr> demo_request s of
     None \<Rightarrow> False | Some (r, s') \<Rightarrow> s' = s \<and> tr_sent r = None \<and> tr_error r \<noteq> None"
  using unhealthy_backend_not_asked[of "\<lparr>bk_pinned = None, bk_info = healthy_info\<lparr>hi_healthy := False\<rparr>\<rparr>" demo_backend demo_request
      "\<lparr>tc_proxy = False, tc_xff = None, tc_websockets = False, tc_buffer_response = False\<rparr>" "\<lambda>r. TripError deadline_exceeded None"
      "\<lparr>ur_scheme = [], ur_host = [], ur_hostname = []\<rparr>"]
  by (auto simp: demo_backend_def split: option.splits)

section \<open>The pinned origin\<close>

text \<open>Round trips one after the other, each with its request; what was sent.\<close>

fun trips ::
    "backend_env \<Rightarrow> (trip_context \<times> (bereq \<Rightarrow> trip) \<times> url \<times> bereq) list \<Rightarrow> backend_state \<Rightarrow> (config \<times> bereq) list" where
  "trips env [] s = []"
| "trips env ((tc, send, u, req) # rest) s =
     (case RoundTrip env tc send u req s of
        None \<Rightarrow> trips env rest s
      | Some (r, s') \<Rightarrow> (case tr_sent r of None \<Rightarrow> [] | Some x \<Rightarrow> [x]) @ trips env rest s')"

definition same_target :: "config \<Rightarrow> config \<Rightarrow> bool" where
  "same_target a b \<longleftrightarrow> cf_scheme a = cf_scheme b \<and> cf_origin a = cf_origin b \<and> cf_hostname a = cf_hostname b \<and> cf_proxy a = cf_proxy b"

lemma RoundTrip_pinned:
  assumes "RoundTrip env tc send u req s = Some (r, s')"
  shows "bk_pinned s = Some c \<Longrightarrow> bk_pinned s' = Some c"
    and "tr_sent r = Some (conf, out) \<Longrightarrow> \<exists>c. bk_pinned s' = Some c \<and> same_target conf c \<and> req_host out = cf_hostname c"
proof -
  have keep: "bk_pinned (initOnce t s) = Some c" if "bk_pinned s = Some c" for t using that by (simp add: initOnce_def)
  from assms have "s' = s \<or> (\<exists>t. s' = initOnce t s)"
    by (auto simp: RoundTrip_def Let_def split: option.splits sum.splits)
  then show "bk_pinned s = Some c \<Longrightarrow> bk_pinned s' = Some c" using keep by auto
  assume sent: "tr_sent r = Some (conf, out)"
  obtain tconf req1 where t: "s' = initOnce tconf s" "conf = trip_config tconf s'" "outgoing_request env tc conf req req1 = Inr out"
    by (rule sent_by_RoundTrip[OF assms sent])
  then obtain c where c: "bk_pinned s' = Some c" by (cases "bk_pinned s") (auto simp: initOnce_def)
  have "req_host out = cf_hostname conf"
    using t(3) withPathPrefix_header by (auto simp: outgoing_request_def Let_def split: sum.splits)
  with c t(2) show "\<exists>c. bk_pinned s' = Some c \<and> same_target conf c \<and> req_host out = cf_hostname c"
    by (auto simp: trip_config_def same_target_def)
qed

lemma trips_pinned:
  "bk_pinned s = Some c \<Longrightarrow> list_all (\<lambda>(conf, out). same_target conf c \<and> req_host out = cf_hostname c) (trips env rs s)"
proof (induction env rs s rule: trips.induct)
  case (2 env tc send u req rest s)
  show ?case
  proof (cases "RoundTrip env tc send u req s")
    case None
    with 2 show ?thesis by simp
  next
    case (Some x)
    obtain r s' where x: "x = (r, s')" by (cases x)
    from RoundTrip_pinned(1)[OF Some[unfolded x] 2(3)] have pin: "bk_pinned s' = Some c" .
    with 2(2)[OF Some x[symmetric]] have rest: "list_all (\<lambda>(conf, out). same_target conf c \<and> req_host out = cf_hostname c) (trips env rest s')"
      by simp
    show ?thesis
    proof (cases "tr_sent r")
      case None
      with rest Some x show ?thesis by simp
    next
      case (Some y)
      obtain conf out where y: "y = (conf, out)" by (cases y)
      with RoundTrip_pinned(2)[OF \<open>RoundTrip env tc send u req s = Some x\<close>[unfolded x]] Some pin
      have "same_target conf c \<and> req_host out = cf_hostname c" by auto
      with rest Some x y \<open>RoundTrip env tc send u req s = Some x\<close> show ?thesis by simp
    qed
  qed
qed simp

text \<open>
  Property C17: the first request that gets as far as its origin pins it: in any sequence of round trips of a
  backend, all requests that are sent go to the scheme, origin, host name and proxy of the first of them,
  whatever their own evaluation gives.
\<close>

theorem origin_pinned:
  "case trips env rs s of
     [] \<Rightarrow> True
   | (conf, out) # sent \<Rightarrow> list_all (\<lambda>(conf', out'). same_target conf' conf \<and> req_host out' = cf_hostname conf) sent"
proof (induction env rs s rule: trips.induct)
  case (2 env tc send u req rest s)
  show ?case
  proof (cases "RoundTrip env tc send u req s")
    case None
    with 2 show ?thesis by simp
  next
    case (Some x)
    obtain r s' where x: "x = (r, s')" by (cases x)
    show ?thesis
    proof (cases "tr_sent r")
      case None
      with 2(2)[OF Some x[symmetric]] Some x show ?thesis by simp
    next
      case sent: (Some y)
      obtain conf out where y: "y = (conf, out)" by (cases y)
      from RoundTrip_pinned(2)[OF Some[unfolded x]] sent y obtain c where
        c: "bk_pinned s' = Some c" "same_target conf c" by blast
      from trips_pinned[OF c(1), of env rest] c(2)
      have "list_all (\<lambda>(conf', out'). same_target conf' conf \<and> req_host out' = cf_hostname conf) (trips env rest s')"
        by (auto simp: list_all_iff same_target_def)
      with Some x sent y show ?thesis by simp
    qed
  qed
qed simp

section \<open>The path prefix\<close>

text \<open>
  The path prefix of a backend is kept by a request whose path has no \<open>..\<close> segment: the
  segments of the path it sends are those of the prefix and those of the path; a path with one can leave
  the prefix.
\<close>

theorem path_prefix_kept:
  "(case withPathPrefix env req0 req of
     Inl e \<Rightarrow> attribute_text env req0 ''path_prefix'' \<noteq> []
   | Inr req' \<Rightarrow>
       if attribute_text env req0 ''path_prefix'' = [] then req' = req
       else if ''..'' \<in> set (split_on CHR ''/'' (req_path req)) then True
       else plain_segments (req_path req') =
         plain_segments (JoinPath [''/'', attribute_text env req0 ''path_prefix'']) @ plain_segments (req_path req)) \<and>
   (if attribute_text env req0 ''path_prefix'' = ''/v1'' \<and> req_path req = ''/../admin''
    then map_sum id req_path (withPathPrefix env req0 req) = Inr ''/admin'' else True)"
proof -
  have below: "plain_segments (JoinPath [''/'', p, q]) = plain_segments (JoinPath [''/'', p]) @ plain_segments q"
    if "''..'' \<notin> set (split_on CHR ''/'' q)" for p q
    using JoinPath_segments[of "[p, q]"] JoinPath_segments[of "[p]"] joined_segments_snoc[OF that, of "[p]"] by simp
  show ?thesis
    by (auto simp: withPathPrefix_def Let_def below joined_outside_prefix split: sum.split)
qed

end
