(* ===== verification/Writer.thy ===== *)
theory Writer
  imports Backend
begin

text \<open>
  The writers of a response: compression for the client (\<open>server/writer/gzip.go\<close>), the cookies
  (\<open>server/writer/cookies.go\<close>), the writer that applies modifiers and buffers a written header
  (\<open>server/writer/response.go\<close>), and the handler that puts them together
  (\<open>handler/middleware/status.go\<close>).

  The client is the writer of \<open>net/http\<close>: it takes the header as it is at the first status, and a
  write without a status sends 200. A compressed stream is represented by what was written to the
  compressor and whether the stream was closed. A broken connection accepts nothing.
\<close>

section \<open>The client\<close>

datatype piece = Plain string | Packed string | PackedEnd

record client =
  cl_header :: header
  cl_sent :: "(int \<times> header) option"
  cl_body :: "piece list"
  cl_broken :: bool

text \<open>An informational status is sent, but leaves the header open.\<close>

definition client_WriteHeader :: "int \<Rightarrow> client \<Rightarrow> client" where
  "client_WriteHeader code c =
     (if cl_sent c \<noteq> None \<or> (100 \<le> code \<and> code \<le> 199 \<and> code \<noteq> 101) then c
      else c\<lparr>cl_sent := Some (code, cl_header c)\<rparr>)"

definition client_write :: "piece \<Rightarrow> client \<Rightarrow> client" where
  "client_write p c =
     (let c1 = (if cl_sent c = None then c\<lparr>cl_sent := Some (200, cl_header c)\<rparr> else c) in
      c1\<lparr>cl_body := cl_body c1 @ [p]\<rparr>)"

section \<open>Compression\<close>

definition minCompressBodyLength :: nat where
  "minCompressBodyLength = 60"

record gzip =
  gz_buffer :: string
  gz_enabled :: bool
  gz_hijacked :: bool
  gz_headerSent :: bool
  gz_statusCode :: int
  gz_rw :: client

definition NewGzipWriter :: "client \<Rightarrow> header \<Rightarrow> gzip" where
  "NewGzipWriter rw req_h =
     \<lparr>gz_buffer = [], gz_enabled = has_gzip None (h_get req_h ''Accept-Encoding''), gz_hijacked = False,
      gz_headerSent = False, gz_statusCode = 0, gz_rw = rw\<rparr>"

definition gz_headers :: "gzip \<Rightarrow> bool \<times> header" where
  "gz_headers g =
     (let h0 = cl_header (gz_rw g);
          h1 = (if minCompressBodyLength \<le> length (gz_buffer g) then h_add ''Vary'' ''Accept-Encoding'' h0 else h0);
          on = (gz_enabled g \<and> h_get h1 ''Content-Encoding'' \<noteq> ''gzip'') in
      (on, if on then h_set ''Content-Encoding'' ''gzip'' (h_del ''Content-Length'' h1) else h1))"

definition gz_writeHeader :: "gzip \<Rightarrow> gzip" where
  "gz_writeHeader g =
     (if gz_headerSent g then g
      else (case gz_headers g of (on, h) \<Rightarrow>
        (let c = (gz_rw g)\<lparr>cl_header := h\<rparr> in
         g\<lparr>gz_headerSent := True, gz_enabled := on,
           gz_rw := (if \<not> gz_hijacked g \<and> 0 < gz_statusCode g then client_WriteHeader (gz_statusCode g) c else c)\<rparr>)))"

definition gz_write :: "string \<Rightarrow> gzip \<Rightarrow> int \<times> bool \<times> gzip" where
  "gz_write p g =
     (if cl_broken (gz_rw g) then (0, False, g)
      else (int (length p), True, g\<lparr>gz_rw := client_write (if gz_enabled g then Packed p else Plain p) (gz_rw g)\<rparr>))"

text \<open>\<open>Write\<close>: the number it returns, whether there is no error, and the writer.\<close>

definition gz_Write :: "string \<Rightarrow> gzip \<Rightarrow> int \<times> bool \<times> gzip" where
  "gz_Write p g =
     (let bufLen = length (gz_buffer g) in
      if bufLen < minCompressBodyLength \<and> length p < minCompressBodyLength - bufLen
      then (int (length p), True, g\<lparr>gz_buffer := gz_buffer g @ p\<rparr>)
      else (let g1 = (if bufLen < minCompressBodyLength then g\<lparr>gz_buffer := gz_buffer g @ p\<rparr> else g);
                b = (if bufLen < minCompressBodyLength then gz_buffer g1 else p) in
        (case gz_write b (gz_writeHeader g1) of (n, fine, g2) \<Rightarrow>
           if \<not> fine then (n, False, g2)
           else if bufLen < minCompressBodyLength \<and> int (length p) \<noteq> n - int bufLen then (0, False, g2)
           else (int (length p), True, g2))))"

definition gz_Close :: "gzip \<Rightarrow> bool \<times> gzip" where
  "gz_Close g =
     (case (if length (gz_buffer g) < minCompressBodyLength
            then (let g1 = gz_writeHeader (g\<lparr>gz_enabled := False\<rparr>) in
                  case gz_write (gz_buffer g1) g1 of (n, fine, g2) \<Rightarrow> (fine, g2))
            else (True, g)) of (fine, g2) \<Rightarrow>
        if \<not> fine then (False, g2)
        else (let g3 = gz_writeHeader g2 in
          if \<not> gz_enabled g3 then (True, g3)
          else if cl_broken (gz_rw g3) then (False, g3)
          else (True, g3\<lparr>gz_rw := client_write PackedEnd (gz_rw g3)\<rparr>)))"

definition gz_WriteHeader :: "int \<Rightarrow> gzip \<Rightarrow> gzip" where
  "gz_WriteHeader code g = g\<lparr>gz_statusCode := code\<rparr>"

text \<open>Flushing sends what was written before; it adds nothing to the body.\<close>

definition gz_Flush :: "gzip \<Rightarrow> gzip" where
  "gz_Flush g = (if length (gz_buffer g) < minCompressBodyLength then g else gz_writeHeader g)"

definition gz_Hijack :: "gzip \<Rightarrow> gzip" where
  "gz_Hijack g = g\<lparr>gz_enabled := False, gz_hijacked := True\<rparr>"

definition gz_Header :: "(header \<Rightarrow> header) \<Rightarrow> gzip \<Rightarrow> gzip" where
  "gz_Header f g = g\<lparr>gz_rw := (gz_rw g)\<lparr>cl_header := f (cl_header (gz_rw g))\<rparr>\<rparr>"

section \<open>Cookies\<close>

text \<open>The matches of the expression \<open>([^;]+);?\<close> are the parts between semicolons that are not empty.\<close>

definition parseSetCookieHeader :: "string \<Rightarrow> string list \<times> bool" where
  "parseSetCookieHeader c =
     (let parts = map trim_space (filter (\<lambda>p. p \<noteq> []) (split_on CHR '';'' c)) in
      (filter (\<lambda>p. \<not> equal_fold p ''Secure'') parts, list_ex (\<lambda>p. equal_fold p ''Secure'') parts))"

definition stripSecureCookies :: "header \<Rightarrow> header" where
  "stripSecureCookies h =
     fold (\<lambda>original h'. case parseSetCookieHeader original of
             (parts, isSecure) \<Rightarrow> h_add ''Set-Cookie'' (if isSecure then join_with ''; '' parts else original) h')
       (h_values h ''Set-Cookie'') (h_del ''Set-Cookie'' h)"

section \<open>The response writer\<close>

text \<open>\<open>rs_modifiers\<close> is \<open>None\<close> for the nil body, which panics when it is asked for its attributes.
  \<open>rs_conn\<close> is what was written to a hijacked connection.\<close>

record response =
  rs_hijacked :: bool
  rs_conn :: "(int \<times> header) option"
  rs_buffer :: string
  rs_rw :: gzip
  rs_strip :: bool
  rs_statusWritten :: bool
  rs_statusCode :: int
  rs_rawBytes :: int
  rs_bytesWritten :: int
  rs_evalCtx :: "evaluation option"
  rs_modifiers :: "(go_error + attrs) option list"
  rs_headerModifiers :: "(header \<Rightarrow> header) list"
  rs_privateCC :: bool

definition NewResponseWriter :: "gzip \<Rightarrow> string \<Rightarrow> response" where
  "NewResponseWriter rw secureCookies =
     \<lparr>rs_hijacked = False, rs_conn = None, rs_buffer = [], rs_rw = rw, rs_strip = (secureCookies = ''strip''),
      rs_statusWritten = False, rs_statusCode = 0, rs_rawBytes = 0, rs_bytesWritten = 0, rs_evalCtx = None,
      rs_modifiers = [], rs_headerModifiers = [], rs_privateCC = False\<rparr>"

definition rs_header :: "response \<Rightarrow> header" where
  "rs_header r = cl_header (gz_rw (rs_rw r))"

definition rs_Header :: "(header \<Rightarrow> header) \<Rightarrow> response \<Rightarrow> response" where
  "rs_Header f r = r\<lparr>rs_rw := gz_Header f (rs_rw r)\<rparr>"

definition configureHeader :: "response \<Rightarrow> header \<Rightarrow> header" where
  "configureHeader r h =
     (let h1 = h_set ''Server'' ''couper.io'' h in if rs_strip r then stripSecureCookies h1 else h1)"

text \<open>The error of a modifier is dropped; \<open>None\<close> is a panic.\<close>

fun apply_modifiers :: "evaluation \<Rightarrow> (go_error + attrs) option list \<Rightarrow> header \<Rightarrow> header option" where
  "apply_modifiers ev [] h = Some h"
| "apply_modifiers ev (None # ms) h = None"
| "apply_modifiers ev (Some as # ms) h =
     (case ApplyResponseHeaderOps ev as [h] of
        None \<Rightarrow> None
      | Some (hs, _) \<Rightarrow> apply_modifiers ev ms (hd hs))"

definition applyModifiers :: "response \<Rightarrow> header \<Rightarrow> header option" where
  "applyModifiers r h = (case rs_evalCtx r of None \<Rightarrow> Some h | Some ev \<Rightarrow> apply_modifiers ev (rs_modifiers r) h)"

definition applyHeaderModifiers :: "response \<Rightarrow> header \<Rightarrow> header" where
  "applyHeaderModifiers r h = fold (\<lambda>f. f) (rs_headerModifiers r) h"

definition final_header :: "response \<Rightarrow> int \<Rightarrow> header option" where
  "final_header r code =
     map_option (\<lambda>h2.
         let h3 = (if rs_privateCC r then h_add ''Cache-Control'' ''private'' h2 else h2) in
         if code = 0 then h_set ''Couper-Error'' (err_Error E_Server) h3 else h3)
       (applyModifiers r (applyHeaderModifiers r (configureHeader r (rs_header r))))"

definition rs_WriteHeader :: "int \<Rightarrow> response \<Rightarrow> response option" where
  "rs_WriteHeader code r =
     (if rs_statusWritten r then Some r
      else map_option (\<lambda>h.
         let st = (if code = 0 then int (err_HTTPStatus E_Server) else code);
             r1 = rs_Header (\<lambda>_. h) r;
             r2 = (if rs_hijacked r1 then r1\<lparr>rs_conn := Some (st, h)\<rparr>
                   else r1\<lparr>rs_rw := gz_WriteHeader st (rs_rw r1)\<rparr>) in
         r2\<lparr>rs_statusWritten := True, rs_statusCode := st\<rparr>) (final_header r code))"

text \<open>\<open>textproto\<close>: lines end with a line feed, and a carriage return before it is dropped.\<close>

definition drop_cr :: "string \<Rightarrow> string" where
  "drop_cr l = (if l \<noteq> [] \<and> last l = CHR 0x0D then butlast l else l)"

definition text_lines :: "string \<Rightarrow> string list" where
  "text_lines s = map drop_cr (split_on CHR 0x0A s)"

text \<open>\<open>ReadMIMEHeader\<close> stops at an empty line, and at a line that it cannot read; a line that begins
  with a space or a tab continues the one before.\<close>

definition blank :: "char \<Rightarrow> bool" where
  "blank c \<longleftrightarrow> c = CHR '' '' \<or> c = CHR 0x09"

definition continues :: "string \<Rightarrow> bool" where
  "continues l \<longleftrightarrow> l \<noteq> [] \<and> blank (hd l)"

fun join_continued :: "string list \<Rightarrow> string list" where
  "join_continued [] = []"
| "join_continued (l # ls) =
     (if l = [] then [[]]
      else (case join_continued ls of
         [] \<Rightarrow> [trim blank l]
       | m # ms \<Rightarrow>
           (case ls of
              [] \<Rightarrow> [trim blank l]
            | l' # _ \<Rightarrow> if continues l' then (trim blank l @ '' '' @ m) # ms else trim blank l # m # ms)))"

definition valid_value_byte :: "char \<Rightarrow> bool" where
  "valid_value_byte c \<longleftrightarrow> c = CHR 0x09 \<or> (let n = of_char c :: nat in 32 \<le> n \<and> n \<noteq> 127)"

fun read_fields :: "string list \<Rightarrow> header \<Rightarrow> header" where
  "read_fields [] h = h"
| "read_fields (l # ls) h =
     (if l = [] then h
      else (case cut CHR '':'' l of (k, v, found) \<Rightarrow>
        if \<not> found \<or> k = [] \<or> \<not> list_all (\<lambda>c. is_token_char c \<or> c = CHR '' '') k \<or> \<not> list_all valid_value_byte v then h
        else (let key = canonical_key k in
          read_fields ls (h(key \<mapsto> (case h key of None \<Rightarrow> [] | Some vs \<Rightarrow> vs) @ [trim_left blank v])))))"

definition ReadMIMEHeader :: "string list \<Rightarrow> header" where
  "ReadMIMEHeader ls =
     (case ls of [] \<Rightarrow> Map.empty
      | l # _ \<Rightarrow> if continues l then Map.empty else read_fields (join_continued ls) Map.empty)"

definition parseStatusCode :: "string \<Rightarrow> int" where
  "parseStatusCode p =
     (if length p < 12 then 0 else (case go_atoi (take 3 (drop 9 p)) of None \<Rightarrow> 0 | Some n \<Rightarrow> n))"

definition flushHeader :: "response \<Rightarrow> response option" where
  "flushHeader r =
     (case text_lines (rs_buffer r) of
        [] \<Rightarrow> rs_WriteHeader 0 r
      | headerLine # ls \<Rightarrow>
          rs_WriteHeader (parseStatusCode headerLine) (rs_Header (\<lambda>h. h ++ ReadMIMEHeader ls) r))"

text \<open>\<open>bytes.Index\<close> for the end of the header: the number of bytes before it.\<close>

definition endOfHeader :: string where
  "endOfHeader = [CHR 0x0D, CHR 0x0A, CHR 0x0D, CHR 0x0A]"

definition endOfLine :: string where
  "endOfLine = [CHR 0x0D, CHR 0x0A]"

fun index_str :: "string \<Rightarrow> string \<Rightarrow> nat option" where
  "index_str pat [] = (if pat = [] then Some 0 else None)"
| "index_str pat (c # cs) = (if has_prefix (c # cs) pat then Some 0 else map_option Suc (index_str pat cs))"

definition rw_write :: "string \<Rightarrow> response \<Rightarrow> int \<times> bool \<times> response" where
  "rw_write p r =
     (case gz_Write p (rs_rw r) of (n, fine, g) \<Rightarrow> (n, fine, r\<lparr>rs_rw := g, rs_bytesWritten := rs_bytesWritten r + n\<rparr>))"

definition rs_Write :: "string \<Rightarrow> response \<Rightarrow> (int \<times> bool \<times> response) option" where
  "rs_Write p r0 =
     (let l = int (length p); r = r0\<lparr>rs_rawBytes := rs_rawBytes r0 + l\<rparr> in
      if rs_statusWritten r then Some (rw_write p r)
      else (let r1 = r\<lparr>rs_buffer := rs_buffer r @ p\<rparr> in
        (case index_str endOfHeader (rs_buffer r1) of
           None \<Rightarrow> Some (l, True, r1)
         | Some idx \<Rightarrow>
             map_option (\<lambda>r2.
                 if \<not> has_suffix (rs_buffer r2) endOfLine \<and> idx + 4 < length (rs_buffer r2)
                 then (case rw_write (drop (idx + 4) (rs_buffer r2)) r2 of (n, fine, r3) \<Rightarrow> (l, fine, r3))
                 else (l, True, r2))
               (flushHeader r1))))"

definition rs_Hijack :: "response \<Rightarrow> response" where
  "rs_Hijack r = r\<lparr>rs_hijacked := True, rs_rw := gz_Hijack (rs_rw r)\<rparr>"

definition rs_Flush :: "response \<Rightarrow> response" where
  "rs_Flush r = r\<lparr>rs_rw := gz_Flush (rs_rw r)\<rparr>"

definition AddModifier :: "(go_error + attrs) option list \<Rightarrow> response \<Rightarrow> response" where
  "AddModifier ms r = r\<lparr>rs_modifiers := rs_modifiers r @ ms\<rparr>"

definition AddHeaderModifier :: "(header \<Rightarrow> header) \<Rightarrow> response \<Rightarrow> response" where
  "AddHeaderModifier f r = r\<lparr>rs_headerModifiers := rs_headerModifiers r @ [f]\<rparr>"

definition AddPrivateCC :: "response \<Rightarrow> response" where
  "AddPrivateCC r = r\<lparr>rs_privateCC := True\<rparr>"

definition WithEvalContext :: "evaluation \<Rightarrow> response \<Rightarrow> response" where
  "WithEvalContext ev r = r\<lparr>rs_evalCtx := Some ev\<rparr>"

text \<open>The handler in front of all others: the compressor is closed unless the request was canceled.\<close>

definition RecordHandler ::
    "string \<Rightarrow> bool \<Rightarrow> (response \<Rightarrow> response) \<Rightarrow> header \<Rightarrow> client \<Rightarrow> client" where
  "RecordHandler secureCookies canceled handler req_h rw =
     (let w = handler (NewResponseWriter (NewGzipWriter rw req_h) secureCookies) in
      gz_rw (if canceled then rs_rw w else snd (gz_Close (rs_rw w))))"

section \<open>What the compressor sends\<close>

fun piece_text :: "piece \<Rightarrow> string" where
  "piece_text (Plain s) = s"
| "piece_text (Packed s) = s"
| "piece_text PackedEnd = []"

definition payload :: "piece list \<Rightarrow> string" where
  "payload ps = concat (map piece_text ps)"

fun is_plain :: "piece \<Rightarrow> bool" where
  "is_plain (Plain s) = True"
| "is_plain _ = False"

fun is_packed :: "piece \<Rightarrow> bool" where
  "is_packed (Packed s) = True"
| "is_packed _ = False"

text \<open>A complete compressed stream.\<close>

definition compressed :: "piece list \<Rightarrow> bool" where
  "compressed ps \<longleftrightarrow> ps \<noteq> [] \<and> last ps = PackedEnd \<and> list_all is_packed (butlast ps)"

lemma payload_append [simp]: "payload (ps @ qs) = payload ps @ payload qs" "payload [] = []"
  "payload [p] = piece_text p"
  by (simp_all add: payload_def)

datatype gz_op = OpWrite string | OpStatus int | OpFlush | OpHeader "header \<Rightarrow> header"

fun gz_do :: "gz_op \<Rightarrow> gzip \<Rightarrow> gzip" where
  "gz_do (OpWrite p) g = snd (snd (gz_Write p g))"
| "gz_do (OpStatus st) g = gz_WriteHeader st g"
| "gz_do OpFlush g = gz_Flush g"
| "gz_do (OpHeader f) g = gz_Header f g"

fun gz_written :: "gz_op list \<Rightarrow> string" where
  "gz_written [] = []"
| "gz_written (OpWrite p # ops) = p @ gz_written ops"
| "gz_written (_ # ops) = gz_written ops"

definition new_client :: "header \<Rightarrow> client" where
  "new_client h = \<lparr>cl_header = h, cl_sent = None, cl_body = [], cl_broken = False\<rparr>"

definition encoding_header :: "bool \<Rightarrow> bool \<Rightarrow> header \<Rightarrow> bool" where
  "encoding_header accepts on h =
     (if on then accepts \<and> h_values h ''Content-Encoding'' = [''gzip''] \<and> h_values h ''Content-Length'' = [] \<and>
               ''Accept-Encoding'' \<in> set (h_values h ''Vary'')
      else if accepts then h_get h ''Content-Encoding'' = ''gzip'' else True)"

definition sent_status :: "int \<Rightarrow> int" where
  "sent_status code = (if code \<le> 0 \<or> (100 \<le> code \<and> code \<le> 199 \<and> code \<noteq> 101) then 200 else code)"

text \<open>The states between the operations, after a text was written.\<close>

definition gz_inv :: "bool \<Rightarrow> string \<Rightarrow> gzip \<Rightarrow> bool" where
  "gz_inv accepts t g \<longleftrightarrow>
     \<not> cl_broken (gz_rw g) \<and> \<not> gz_hijacked g \<and>
     (if length t < minCompressBodyLength
      then gz_buffer g = t \<and> \<not> gz_headerSent g \<and> gz_enabled g = accepts \<and> cl_body (gz_rw g) = [] \<and> cl_sent (gz_rw g) = None
      else minCompressBodyLength \<le> length (gz_buffer g) \<and> gz_headerSent g \<and> cl_body (gz_rw g) \<noteq> [] \<and>
           payload (cl_body (gz_rw g)) = t \<and>
           list_all (if gz_enabled g then is_packed else is_plain) (cl_body (gz_rw g)) \<and>
           (case cl_sent (gz_rw g) of None \<Rightarrow> False | Some (st, h) \<Rightarrow> encoding_header accepts (gz_enabled g) h))"

lemma gzip_keys:
  "canonical_key ''Content-Encoding'' = ''Content-Encoding''" "canonical_key ''Content-Length'' = ''Content-Length''"
  "canonical_key ''Vary'' = ''Vary''" "canonical_key ''Cache-Control'' = ''Cache-Control''"
  "canonical_key ''Couper-Error'' = ''Couper-Error''" "canonical_key ''Set-Cookie'' = ''Set-Cookie''"
  by code_simp+

lemma gz_headers_encoding:
  assumes "gz_headers g = (on, h)" and "minCompressBodyLength \<le> length (gz_buffer g)"
  shows "encoding_header (gz_enabled g) on h"
  using assms
  by (auto simp: gz_headers_def Let_def encoding_header_def h_values_simps gzip_keys h_get_def split: if_splits)

lemma client_write_sent:
  "cl_body (client_write p c) = cl_body c @ [p]" "cl_broken (client_write p c) = cl_broken c"
  "cl_sent (client_write p c) = Some (case cl_sent c of None \<Rightarrow> (200, cl_header c) | Some x \<Rightarrow> x)"
  by (simp_all add: client_write_def Let_def split: option.split)

lemma client_WriteHeader_frame [simp]:
  "cl_body (client_WriteHeader st c) = cl_body c" "cl_broken (client_WriteHeader st c) = cl_broken c"
  "cl_header (client_WriteHeader st c) = cl_header c"
  by (simp_all add: client_WriteHeader_def)

lemma writeHeader_frame:
  "gz_buffer (gz_writeHeader g) = gz_buffer g" "gz_hijacked (gz_writeHeader g) = gz_hijacked g"
  "cl_body (gz_rw (gz_writeHeader g)) = cl_body (gz_rw g)" "cl_broken (gz_rw (gz_writeHeader g)) = cl_broken (gz_rw g)"
  "gz_headerSent (gz_writeHeader g)"
  by (simp_all add: gz_writeHeader_def Let_def split: prod.split)

text \<open>What the first write after the header has made of it.\<close>

lemma writeHeader_write_sent:
  assumes "\<not> gz_headerSent g" "\<not> gz_hijacked g" "cl_sent (gz_rw g) = None" "gz_headers g = (on, h)"
  shows "gz_enabled (gz_writeHeader g) = on"
    and "cl_sent (client_write p (gz_rw (gz_writeHeader g))) = Some (sent_status (gz_statusCode g), h)"
  using assms by (auto simp: gz_writeHeader_def client_write_sent client_WriteHeader_def sent_status_def Let_def)

lemma gz_Write_inv:
  assumes "gz_inv accepts t g"
  shows "gz_inv accepts (t @ p) (snd (snd (gz_Write p g)))"
proof (cases "length t < minCompressBodyLength")
  case short: True
  with assms have g: "gz_buffer g = t" "\<not> gz_headerSent g" "\<not> gz_hijacked g" "gz_enabled g = accepts" "cl_body (gz_rw g) = []"
    "cl_sent (gz_rw g) = None" "\<not> cl_broken (gz_rw g)" by (auto simp: gz_inv_def)
  show ?thesis
  proof (cases "length (t @ p) < minCompressBodyLength")
    case True
    then show ?thesis using short g by (auto simp: gz_Write_def Let_def gz_inv_def)
  next
    case False
    define g1 where "g1 = g\<lparr>gz_buffer := t @ p\<rparr>"
    obtain on h where oh: "gz_headers g1 = (on, h)" by fastforce
    have g1: "\<not> gz_headerSent g1" "\<not> gz_hijacked g1" "cl_sent (gz_rw g1) = None" using g by (simp_all add: g1_def)
    note w = writeHeader_write_sent[OF g1 oh]
    have enc: "encoding_header accepts on h" using gz_headers_encoding[OF oh] False g by (simp add: g1_def)
    let ?g = "gz_writeHeader g1"
    let ?q = "if on then Packed (t @ p) else Plain (t @ p)"
    have body: "cl_body (gz_rw ?g) = []" "\<not> cl_broken (gz_rw ?g)" "gz_buffer ?g = t @ p" "\<not> gz_hijacked ?g"
      using g by (simp_all add: writeHeader_frame g1_def)
    have "snd (snd (gz_Write p g)) = ?g\<lparr>gz_rw := client_write ?q (gz_rw ?g)\<rparr>"
      using False short g body w by (simp add: gz_Write_def Let_def gz_write_def g1_def)
    moreover have "gz_inv accepts (t @ p) (?g\<lparr>gz_rw := client_write ?q (gz_rw ?g)\<rparr>)"
      unfolding gz_inv_def using False body w enc
      by (cases on) (simp_all add: client_write_sent(1,2) writeHeader_frame)
    ultimately show ?thesis by simp
  qed
next
  case False
  with assms have g: "minCompressBodyLength \<le> length (gz_buffer g)" "gz_headerSent g" "\<not> gz_hijacked g" "\<not> cl_broken (gz_rw g)"
    by (auto simp: gz_inv_def)
  have "snd (snd (gz_Write p g)) = g\<lparr>gz_rw := client_write (if gz_enabled g then Packed p else Plain p) (gz_rw g)\<rparr>"
    using g by (simp add: gz_Write_def Let_def gz_writeHeader_def gz_write_def)
  then show ?thesis using False assms by (auto simp: gz_inv_def client_write_sent split: option.splits)
qed

lemma gz_do_inv:
  assumes "gz_inv accepts t g"
  shows "gz_inv accepts (t @ gz_written [x]) (gz_do x g)"
proof (cases x)
  case (OpWrite p)
  then show ?thesis using gz_Write_inv[OF assms] by simp
next
  case OpFlush
  have "gz_Flush g = g" using assms by (auto simp: gz_Flush_def gz_writeHeader_def gz_inv_def split: if_splits)
  then show ?thesis using assms OpFlush by simp
qed (use assms in \<open>auto simp: gz_WriteHeader_def gz_Header_def gz_inv_def split: option.splits if_splits\<close>)

lemma gz_written_Cons: "gz_written (x # ops) = gz_written [x] @ gz_written ops"
  by (cases x) simp_all

lemma gz_run_inv: "gz_inv accepts t g \<Longrightarrow> gz_inv accepts (t @ gz_written ops) (fold gz_do ops g)"
proof (induction ops arbitrary: t g)
  case (Cons x ops)
  from Cons.IH[OF gz_do_inv[OF Cons.prems]] show ?case by (subst gz_written_Cons) simp
qed simp

definition client_sees :: "bool \<Rightarrow> string \<Rightarrow> client \<Rightarrow> bool" where
  "client_sees accepts t c =
     (payload (cl_body c) = t \<and>
      (case cl_sent c of
         None \<Rightarrow> False
       | Some (st, h) \<Rightarrow>
           if compressed (cl_body c) then minCompressBodyLength \<le> length t \<and> encoding_header accepts True h
           else list_all is_plain (cl_body c) \<and>
                (if minCompressBodyLength \<le> length t then encoding_header accepts False h else True)))"

lemma plain_not_compressed: "list_all is_plain ps \<Longrightarrow> \<not> compressed ps"
  by (cases ps rule: rev_cases) (auto simp: compressed_def)

lemma gz_Close_sees:
  assumes "gz_inv accepts t g"
  shows "client_sees accepts t (gz_rw (snd (gz_Close g)))"
proof (cases "length t < minCompressBodyLength")
  case True
  with assms have g: "gz_buffer g = t" "\<not> gz_headerSent g" "\<not> gz_hijacked g" "cl_body (gz_rw g) = []"
    "cl_sent (gz_rw g) = None" "\<not> cl_broken (gz_rw g)" by (auto simp: gz_inv_def)
  let ?g = "gz_writeHeader (g\<lparr>gz_enabled := False\<rparr>)"
  have off: "\<not> gz_enabled ?g" using g by (simp add: gz_writeHeader_def gz_headers_def Let_def)
  have f: "cl_body (gz_rw ?g) = []" "\<not> cl_broken (gz_rw ?g)" "gz_buffer ?g = t" "gz_headerSent ?g"
    using g by (simp_all add: writeHeader_frame)
  have c: "gz_rw (snd (gz_Close g)) = client_write (Plain t) (gz_rw ?g)"
    using True g off f by (simp add: gz_Close_def Let_def gz_write_def gz_writeHeader_def[of "?g\<lparr>gz_rw := _\<rparr>"])
  have b: "cl_body (client_write (Plain t) (gz_rw ?g)) = [Plain t]" by (simp add: client_write_sent f)
  show ?thesis unfolding c client_sees_def b
    using True by (auto simp: client_write_sent compressed_def split: option.splits prod.splits)
next
  case False
  with assms have g: "minCompressBodyLength \<le> length (gz_buffer g)" "gz_headerSent g" "\<not> cl_broken (gz_rw g)" "cl_body (gz_rw g) \<noteq> []"
    "payload (cl_body (gz_rw g)) = t" "list_all (if gz_enabled g then is_packed else is_plain) (cl_body (gz_rw g))"
    "case cl_sent (gz_rw g) of None \<Rightarrow> False | Some (st, h) \<Rightarrow> encoding_header accepts (gz_enabled g) h"
    by (auto simp: gz_inv_def)
  show ?thesis
  proof (cases "gz_enabled g")
    case True
    have "gz_rw (snd (gz_Close g)) = client_write PackedEnd (gz_rw g)"
      using True g by (simp add: gz_Close_def Let_def gz_writeHeader_def)
    then show ?thesis using True False g
      by (auto simp: client_sees_def client_write_sent compressed_def split: option.splits)
  next
    case off: False
    have "gz_rw (snd (gz_Close g)) = gz_rw g" using off g by (simp add: gz_Close_def Let_def gz_writeHeader_def)
    then show ?thesis using off False g plain_not_compressed by (auto simp: client_sees_def split: option.splits)
  qed
qed

lemma NewGzipWriter_inv: "gz_inv (has_gzip None (h_get req_h ''Accept-Encoding'')) [] (NewGzipWriter (new_client h) req_h)"
  by (simp add: gz_inv_def NewGzipWriter_def new_client_def minCompressBodyLength_def)

text \<open>Property C34: whatever a handler does with the compressing writer (headers, status, writes of any
  size, flushes), after closing it the client has exactly the bytes written. They are compressed, as
  one complete stream, only if the client accepts it and there are at least 60 bytes, and then the
  header says so, has no length and varies on the accepted encoding; they are sent as they are only
  if there are fewer bytes, the client does not accept compression, or the header says that they are
  compressed already. The encoding of a compressed body is then \<open>gzip\<close> alone, also if the handler had
  set another one before.\<close>

theorem gzip_faithful:
  "client_sees (has_gzip None (h_get req_h ''Accept-Encoding'')) (gz_written ops)
     (gz_rw (snd (gz_Close (fold gz_do ops (NewGzipWriter (new_client h) req_h)))))"
  using gz_Close_sees[OF gz_run_inv[OF NewGzipWriter_inv]] by simp

section \<open>Cookies without their flag\<close>

lemma parse_append:
  "CHR '';'' \<notin> set p \<Longrightarrow> snd (parseSetCookieHeader (p @ CHR '';'' # s)) \<longleftrightarrow>
     snd (parseSetCookieHeader p) \<or> snd (parseSetCookieHeader s)"
  by (simp add: parseSetCookieHeader_def split_on_append Let_def)

lemma no_secure_part:
  assumes "CHR '';'' \<notin> set p" and "\<not> equal_fold (trim_space p) ''Secure''"
  shows "\<not> snd (parseSetCookieHeader p)"
  using assms by (simp add: parseSetCookieHeader_def split_on_no_sep_single Let_def)

lemma trim_space_blank: "trim_space (CHR '' '' # p) = trim_space p"
  by (simp add: trim_space_def trim_def trim_left_def is_space_def)

lemma joined_not_secure:
  assumes "list_all (\<lambda>p. CHR '';'' \<notin> set p \<and> \<not> equal_fold (trim_space p) ''Secure'') ps"
  shows "\<not> snd (parseSetCookieHeader (join_with ''; '' ps)) \<and> \<not> snd (parseSetCookieHeader (CHR '' '' # join_with ''; '' ps))"
  using assms
proof (induction ps)
  case Nil
  then show ?case by (simp add: parseSetCookieHeader_def Let_def trim_space_def trim_def trim_left_def is_space_def equal_fold_def to_lower_def)
next
  case (Cons p ps)
  from Cons.prems have p: "CHR '';'' \<notin> set p" "\<not> equal_fold (trim_space p) ''Secure''" by simp_all
  then have bp: "CHR '';'' \<notin> set (CHR '' '' # p)" "\<not> equal_fold (trim_space (CHR '' '' # p)) ''Secure''"
    by (simp_all add: trim_space_blank)
  show ?case
  proof (cases "ps = []")
    case True
    then show ?thesis using no_secure_part[OF p] no_secure_part[OF bp] by simp
  next
    case False
    have j: "join_with ''; '' (p # ps) = p @ CHR '';'' # CHR '' '' # join_with ''; '' ps"
      "CHR '' '' # join_with ''; '' (p # ps) = (CHR '' '' # p) @ CHR '';'' # CHR '' '' # join_with ''; '' ps"
      using False by (simp_all add: join_with_Cons)
    from Cons have tail: "\<not> snd (parseSetCookieHeader (CHR '' '' # join_with ''; '' ps))" by simp
    have "\<not> snd (parseSetCookieHeader (join_with ''; '' (p # ps)))"
      unfolding j(1) parse_append[OF p(1)] using tail no_secure_part[OF p] by simp
    moreover have "\<not> snd (parseSetCookieHeader (CHR '' '' # join_with ''; '' (p # ps)))"
      unfolding j(2) parse_append[OF bp(1)] using tail no_secure_part[OF bp] by simp
    ultimately show ?thesis by blast
  qed
qed

lemma trim_subset: "set (trim_space s) \<subseteq> set s"
  by (auto simp: trim_space_def trim_def trim_left_def dest!: set_dropWhileD)

lemma parsed_parts:
  "list_all (\<lambda>p. CHR '';'' \<notin> set p \<and> \<not> equal_fold (trim_space p) ''Secure'') (fst (parseSetCookieHeader c))"
proof -
  have "CHR '';'' \<notin> set (trim_space q)" if "q \<in> set (split_on CHR '';'' c)" for q
    using split_on_no_sep[OF that] trim_subset[of q] by blast
  then show ?thesis by (auto simp: parseSetCookieHeader_def list_all_iff Let_def)
qed

definition stripped_cookie :: "string \<Rightarrow> string" where
  "stripped_cookie c = (if snd (parseSetCookieHeader c) then join_with ''; '' (fst (parseSetCookieHeader c)) else c)"

lemma stripped_not_secure: "\<not> snd (parseSetCookieHeader (stripped_cookie c))"
  using joined_not_secure[OF parsed_parts] by (simp add: stripped_cookie_def)

lemma strip_fold:
  "h_values (fold (\<lambda>original h'. case parseSetCookieHeader original of
       (parts, isSecure) \<Rightarrow> h_add ''Set-Cookie'' (if isSecure then join_with ''; '' parts else original) h') cs h) k =
   (if canonical_key k = ''Set-Cookie'' then h_values h k @ map stripped_cookie cs else h_values h k)"
proof (induction cs arbitrary: h)
  case (Cons c cs)
  have key: "h_values h k = h_values h ''Set-Cookie''" if "canonical_key k = ''Set-Cookie''"
    using that by (simp add: h_values_def gzip_keys)
  show ?case using Cons.IH key by (auto simp: h_values_simps gzip_keys stripped_cookie_def split: prod.splits)
qed simp

lemma strip_values:
  "h_values (stripSecureCookies h) k =
     (if canonical_key k = ''Set-Cookie'' then map stripped_cookie (h_values h ''Set-Cookie'') else h_values h k)"
  by (simp add: stripSecureCookies_def strip_fold h_values_simps gzip_keys)

text \<open>Stripping keeps the number and the order of the cookies and every other header; a
  cookie without the flag stays byte for byte, and afterwards no cookie has the flag.\<close>

theorem strip_secure_cookies:
  "h_values (stripSecureCookies h) ''Set-Cookie'' = map stripped_cookie (h_values h ''Set-Cookie'') \<and>
   list_all (\<lambda>c. \<not> snd (parseSetCookieHeader c)) (h_values (stripSecureCookies h) ''Set-Cookie'') \<and>
   (if canonical_key k = ''Set-Cookie'' then True else h_values (stripSecureCookies h) k = h_values h k)"
  by (simp add: strip_values gzip_keys stripped_not_secure list_all_iff)

text \<open>The modifiers come after the stripping, so a cookie that they add keeps the flag, although the
  setting is to remove it from all cookies.\<close>

theorem modifier_cookie_not_stripped:
  "let ev = \<lparr>ev_f64 = (\<lambda>r. r), ev_btext = (\<lambda>r. []), ev_order = (\<lambda>m. m)\<rparr>;
       body = [''add_response_headers'' \<mapsto> Inr (CObject [(''Set-Cookie'', CString ''a=b; Secure'')])];
       r = AddModifier [Some (Inr body)] (WithEvalContext ev (NewResponseWriter (NewGzipWriter (new_client Map.empty) Map.empty) ''strip'')) in
   rs_strip r \<and> map_option (\<lambda>h. h_values h ''Set-Cookie'') (final_header r 200) = Some [''a=b; Secure'']"
  by code_simp

section \<open>What the response writer sends\<close>

fun rs_writes :: "string list \<Rightarrow> response \<Rightarrow> response option" where
  "rs_writes [] r = Some r"
| "rs_writes (p # ps) r = (case rs_Write p r of None \<Rightarrow> None | Some (_, _, r1) \<Rightarrow> rs_writes ps r1)"

lemma rw_write_frame: "snd (snd (rw_write p r)) = r\<lparr>rs_rw := gz_do (OpWrite p) (rs_rw r),
    rs_bytesWritten := rs_bytesWritten r + fst (gz_Write p (rs_rw r))\<rparr>"
  by (simp add: rw_write_def split: prod.split)

lemma rs_Write_after_status:
  assumes "rs_statusWritten r"
  shows "\<exists>n fine r'. rs_Write p r = Some (n, fine, r') \<and> rs_statusWritten r' \<and> rs_rw r' = gz_do (OpWrite p) (rs_rw r)"
proof -
  let ?r = "r\<lparr>rs_rawBytes := rs_rawBytes r + int (length p)\<rparr>"
  obtain n fine r' where w: "rw_write p ?r = (n, fine, r')" using prod_cases3 by blast
  have "rs_Write p r = Some (n, fine, r')" using assms w by (simp add: rs_Write_def Let_def)
  moreover have "r' = snd (snd (rw_write p ?r))" using w by simp
  ultimately show ?thesis using assms unfolding rw_write_frame by simp
qed

lemma rs_writes_after_status:
  "rs_statusWritten r \<Longrightarrow> \<exists>r'. rs_writes ps r = Some r' \<and> rs_statusWritten r' \<and> rs_rw r' = fold gz_do (map OpWrite ps) (rs_rw r)"
proof (induction ps arbitrary: r)
  case (Cons p ps)
  obtain n fine r1 where 1: "rs_Write p r = Some (n, fine, r1)" "rs_statusWritten r1" "rs_rw r1 = gz_do (OpWrite p) (rs_rw r)"
    using rs_Write_after_status[OF Cons.prems] by blast
  from Cons.IH[OF 1(2)] obtain r' where "rs_writes ps r1 = Some r'" "rs_statusWritten r'"
    "rs_rw r' = fold gz_do (map OpWrite ps) (rs_rw r1)" by blast
  with 1 show ?case by simp
qed simp

lemma gz_written_writes [simp]: "gz_written (map OpWrite ps) = concat ps"
  by (induction ps) simp_all

text \<open>The writer for a client, configured by a handler before it sends a status.\<close>

definition configured_writer ::
    "header \<Rightarrow> header \<Rightarrow> string \<Rightarrow> evaluation option \<Rightarrow> (go_error + attrs) option list \<Rightarrow> (header \<Rightarrow> header) list \<Rightarrow> bool \<Rightarrow> response" where
  "configured_writer h req_h secureCookies ev ms fs private =
     (NewResponseWriter (NewGzipWriter (new_client h) req_h) secureCookies)
       \<lparr>rs_evalCtx := ev, rs_modifiers := ms, rs_headerModifiers := fs, rs_privateCC := private\<rparr>"

lemma rs_WriteHeader_once:
  assumes "\<not> rs_statusWritten r" "\<not> rs_hijacked r"
  shows "rs_WriteHeader code r =
     map_option (\<lambda>h. r\<lparr>rs_rw := gz_WriteHeader (if code = 0 then 500 else code) (gz_Header (\<lambda>_. h) (rs_rw r)),
         rs_statusWritten := True, rs_statusCode := (if code = 0 then 500 else code)\<rparr>) (final_header r code)"
proof -
  have "int (err_HTTPStatus E_Server) = 500" by code_simp
  then show ?thesis using assms by (simp add: rs_WriteHeader_def rs_Header_def Let_def)
qed

text \<open>The compressor remembers the last status and the header until it has decided.\<close>

lemma short_headers:
  assumes "gz_headers g = (on, h)"
  shows "h_values h ''Cache-Control'' = h_values (cl_header (gz_rw g)) ''Cache-Control''"
  using assms by (auto simp: gz_headers_def Let_def h_values_simps gzip_keys split: if_splits)

definition gz_status_inv :: "int \<Rightarrow> string list \<Rightarrow> gzip \<Rightarrow> bool" where
  "gz_status_inv code cc g \<longleftrightarrow>
     \<not> cl_broken (gz_rw g) \<and> \<not> gz_hijacked g \<and> (length (gz_buffer g) < minCompressBodyLength \<longleftrightarrow> \<not> gz_headerSent g) \<and>
     (if gz_headerSent g
      then (case cl_sent (gz_rw g) of None \<Rightarrow> False | Some (st, h) \<Rightarrow> st = sent_status code \<and> h_values h ''Cache-Control'' = cc)
      else gz_statusCode g = code \<and> cl_sent (gz_rw g) = None \<and> h_values (cl_header (gz_rw g)) ''Cache-Control'' = cc)"

lemma gz_status_Write:
  assumes "gz_status_inv code cc g"
  shows "gz_status_inv code cc (gz_do (OpWrite p) g)"
proof (cases "gz_headerSent g")
  case True
  then have "gz_do (OpWrite p) g = g\<lparr>gz_rw := client_write (if gz_enabled g then Packed p else Plain p) (gz_rw g)\<rparr>"
    using assms by (simp add: gz_Write_def gz_status_inv_def Let_def gz_writeHeader_def gz_write_def)
  then show ?thesis using assms True by (auto simp: gz_status_inv_def client_write_sent split: option.splits)
next
  case unsent: False
  let ?b = "gz_buffer g @ p"
  from assms unsent have g: "length (gz_buffer g) < minCompressBodyLength" "\<not> gz_hijacked g" "\<not> cl_broken (gz_rw g)"
    "cl_sent (gz_rw g) = None" "gz_statusCode g = code" "h_values (cl_header (gz_rw g)) ''Cache-Control'' = cc"
    by (auto simp: gz_status_inv_def)
  show ?thesis
  proof (cases "length ?b < minCompressBodyLength")
    case True
    then show ?thesis using g unsent by (auto simp: gz_Write_def Let_def gz_status_inv_def)
  next
    case False
    let ?g1 = "g\<lparr>gz_buffer := ?b\<rparr>"
    obtain on h where oh: "gz_headers ?g1 = (on, h)" by fastforce
    have g1: "\<not> gz_headerSent ?g1" "\<not> gz_hijacked ?g1" "cl_sent (gz_rw ?g1) = None" using g unsent by simp_all
    note w = writeHeader_write_sent[OF g1 oh]
    let ?g = "gz_writeHeader ?g1"
    have f: "\<not> cl_broken (gz_rw ?g)" "gz_buffer ?g = ?b" "\<not> gz_hijacked ?g" "gz_headerSent ?g"
      using g by (simp_all add: writeHeader_frame)
    have "gz_do (OpWrite p) g = ?g\<lparr>gz_rw := client_write (if on then Packed ?b else Plain ?b) (gz_rw ?g)\<rparr>"
      using False g f w by (simp add: gz_Write_def Let_def gz_write_def)
    moreover have "h_values h ''Cache-Control'' = cc" using short_headers[OF oh] g by simp
    ultimately show ?thesis using False f w g by (simp add: gz_status_inv_def client_write_sent(2))
  qed
qed

lemma gz_status_writes: "gz_status_inv code cc g \<Longrightarrow> gz_status_inv code cc (fold gz_do (map OpWrite ps) g)"
proof (induction ps arbitrary: g)
  case (Cons p ps)
  from Cons.IH[OF gz_status_Write[OF Cons.prems]] show ?case by simp
qed simp

lemma gz_status_Close:
  assumes "gz_status_inv code cc g"
  shows "case cl_sent (gz_rw (snd (gz_Close g))) of None \<Rightarrow> False
    | Some (st, h) \<Rightarrow> st = sent_status code \<and> h_values h ''Cache-Control'' = cc"
proof (cases "gz_headerSent g")
  case True
  then have "cl_sent (gz_rw (snd (gz_Close g))) = cl_sent (gz_rw g)"
    using assms by (auto simp: gz_Close_def gz_status_inv_def Let_def gz_writeHeader_def client_write_sent split: option.splits)
  then show ?thesis using assms True by (simp add: gz_status_inv_def)
next
  case False
  with assms have g: "length (gz_buffer g) < minCompressBodyLength" "\<not> gz_hijacked g" "\<not> cl_broken (gz_rw g)"
    "cl_sent (gz_rw g) = None" "gz_statusCode g = code" "h_values (cl_header (gz_rw g)) ''Cache-Control'' = cc"
    by (auto simp: gz_status_inv_def)
  let ?g1 = "g\<lparr>gz_enabled := False\<rparr>"
  obtain on h where oh: "gz_headers ?g1 = (on, h)" by fastforce
  have g1: "\<not> gz_headerSent ?g1" "\<not> gz_hijacked ?g1" "cl_sent (gz_rw ?g1) = None" using g False by simp_all
  have off: "\<not> on" using oh by (simp add: gz_headers_def Let_def)
  note w = writeHeader_write_sent[OF g1 oh]
  let ?g = "gz_writeHeader ?g1"
  have f: "\<not> cl_broken (gz_rw ?g)" "gz_buffer ?g = gz_buffer g" "gz_headerSent ?g" using g by (simp_all add: writeHeader_frame)
  have "gz_rw (snd (gz_Close g)) = client_write (Plain (gz_buffer g)) (gz_rw ?g)"
    using g f w off by (simp add: gz_Close_def Let_def gz_write_def gz_writeHeader_def[of "?g\<lparr>gz_rw := _\<rparr>"])
  then show ?thesis using w short_headers[OF oh] g by simp
qed

lemma final_private:
  assumes "final_header r code = Some h" "rs_privateCC r"
  shows "''private'' \<in> set (h_values h ''Cache-Control'')"
  using assms by (auto simp: final_header_def Let_def h_values_simps gzip_keys split: if_splits)

text \<open>A handler that sends a status and then writes a body in any pieces: the client gets
  that status (500 for no status; 200 after an informational one), the whole body, and
  \<open>Cache-Control: private\<close> if access control asked for it, whatever the modifiers do to the headers.
  Nothing is sent only if a modifier panics.\<close>

theorem response_delivered:
  "case rs_WriteHeader code (configured_writer h req_h sc ev ms fs private) of
     None \<Rightarrow> applyModifiers (configured_writer h req_h sc ev ms fs private)
               (fold (\<lambda>f. f) fs (configureHeader (configured_writer h req_h sc ev ms fs private) h)) = None
   | Some r1 \<Rightarrow>
      (case rs_writes ps r1 of
         None \<Rightarrow> False
       | Some r2 \<Rightarrow>
          (let c = gz_rw (snd (gz_Close (rs_rw r2))) in
           payload (cl_body c) = concat ps \<and>
           (case cl_sent c of
              None \<Rightarrow> False
            | Some (st, sent) \<Rightarrow>
                st = sent_status (if code = 0 then 500 else code) \<and>
                (if private then ''private'' \<in> set (h_values sent ''Cache-Control'') else True))))"
proof -
  let ?r = "configured_writer h req_h sc ev ms fs private" and ?code = "if code = 0 then 500 else code :: int"
  let ?acc = "has_gzip None (h_get req_h ''Accept-Encoding'')"
  have r: "\<not> rs_statusWritten ?r" "\<not> rs_hijacked ?r" "rs_header ?r = h" "rs_headerModifiers ?r = fs" "rs_privateCC ?r = private"
    "rs_rw ?r = NewGzipWriter (new_client h) req_h"
    by (simp_all add: configured_writer_def NewResponseWriter_def rs_header_def NewGzipWriter_def new_client_def)
  show ?thesis
  proof (cases "final_header ?r code")
    case None
    then show ?thesis unfolding rs_WriteHeader_once[OF r(1,2)]
      by (simp add: final_header_def applyHeaderModifiers_def r)
  next
    case (Some hf)
    define g1 where "g1 = gz_do (OpStatus ?code) (gz_do (OpHeader (\<lambda>_. hf)) (NewGzipWriter (new_client h) req_h))"
    define r1 where "r1 = ?r\<lparr>rs_rw := g1, rs_statusWritten := True, rs_statusCode := ?code\<rparr>"
    have wh: "rs_WriteHeader code ?r = Some r1" unfolding rs_WriteHeader_once[OF r(1,2)] using Some by (simp add: r r1_def g1_def)
    have "rs_statusWritten r1" by (simp add: r1_def)
    from rs_writes_after_status[OF this, of ps] obtain r2 where
      r2: "rs_writes ps r1 = Some r2" "rs_rw r2 = fold gz_do (map OpWrite ps) g1" by (auto simp: r1_def)
    have "gz_inv ?acc [] g1"
      using gz_run_inv[OF NewGzipWriter_inv[of req_h h], of "[OpHeader (\<lambda>_. hf), OpStatus ?code]"] by (simp add: g1_def)
    from gz_Close_sees[OF gz_run_inv[OF this, of "map OpWrite ps"]] r2(2)
    have body: "payload (cl_body (gz_rw (snd (gz_Close (rs_rw r2))))) = concat ps" by (simp add: client_sees_def)
    let ?cc = "h_values hf ''Cache-Control''"
    have "gz_status_inv ?code ?cc g1"
      by (simp add: gz_status_inv_def g1_def gz_WriteHeader_def gz_Header_def NewGzipWriter_def new_client_def minCompressBodyLength_def)
    from gz_status_Close[OF gz_status_writes[OF this, of ps]] r2(2)
    have sent: "case cl_sent (gz_rw (snd (gz_Close (rs_rw r2)))) of None \<Rightarrow> False
      | Some (st, h) \<Rightarrow> st = sent_status ?code \<and> h_values h ''Cache-Control'' = ?cc" by simp
    have cc: "private \<Longrightarrow> ''private'' \<in> set ?cc" using final_private[OF Some] r(5) by simp
    show ?thesis unfolding wh using r2(1) body sent cc by (auto simp: Let_def split: option.splits)
  qed
qed

text \<open>What the writer makes of a response that is written as text, with its header.\<close>

fun delivered :: "string \<Rightarrow> string list \<Rightarrow> string" where
  "delivered buf [] = []"
| "delivered buf (c # cs) =
     (case index_str endOfHeader (buf @ c) of
        None \<Rightarrow> delivered (buf @ c) cs
      | Some idx \<Rightarrow> (if has_suffix (buf @ c) endOfLine then [] else drop (idx + 4) (buf @ c)) @ concat cs)"

lemma index_str_bound: "index_str pat s = Some i \<Longrightarrow> i + length pat \<le> length s"
proof (induction s arbitrary: i)
  case (Cons c cs)
  then show ?case by (auto simp: has_prefix_iff split: if_splits) (metis le_add1 length_Cons length_append)
qed (auto split: if_splits)

lemma plain_final_header:
  assumes "rs_modifiers r = []"
  shows "\<exists>h. final_header r code = Some h"
  using assms by (auto simp: final_header_def applyModifiers_def split: option.splits)

lemma flushHeader_runs:
  assumes "rs_modifiers r = []" "\<not> rs_statusWritten r" "\<not> rs_hijacked r"
  shows "\<exists>r' h st. flushHeader r = Some r' \<and> rs_statusWritten r' \<and> rs_buffer r' = rs_buffer r \<and>
    rs_rw r' = fold gz_do [OpHeader h, OpStatus st] (rs_rw r)"
proof -
  have ne: "text_lines (rs_buffer r) \<noteq> []" by (simp add: text_lines_def)
  then obtain l ls where ls: "text_lines (rs_buffer r) = l # ls" by (meson neq_Nil_conv)
  let ?f = "\<lambda>h. h ++ ReadMIMEHeader ls" and ?c = "parseStatusCode l"
  let ?r = "rs_Header ?f r"
  have r: "\<not> rs_statusWritten ?r" "\<not> rs_hijacked ?r" "rs_modifiers ?r = []" using assms by (simp_all add: rs_Header_def)
  obtain h where h: "final_header ?r ?c = Some h" using plain_final_header[OF r(3)] by blast
  have "flushHeader r = rs_WriteHeader ?c ?r" by (simp add: flushHeader_def ls)
  then have "flushHeader r = Some (?r\<lparr>rs_rw := gz_WriteHeader (if ?c = 0 then 500 else ?c) (gz_Header (\<lambda>_. h) (rs_rw ?r)),
      rs_statusWritten := True, rs_statusCode := (if ?c = 0 then 500 else ?c)\<rparr>)"
    unfolding rs_WriteHeader_once[OF r(1,2)] by (simp add: h)
  moreover have "gz_WriteHeader (if ?c = 0 then 500 else ?c) (gz_Header (\<lambda>_. h) (rs_rw ?r)) =
      fold gz_do [OpHeader (\<lambda>_. h), OpStatus (if ?c = 0 then 500 else ?c)] (rs_rw r)"
    by (simp add: rs_Header_def gz_Header_def)
  ultimately show ?thesis by (intro exI conjI) (assumption, simp_all add: rs_Header_def)
qed

lemma rs_writes_text:
  assumes "rs_modifiers r = []" "\<not> rs_statusWritten r" "\<not> rs_hijacked r" "gz_inv accepts [] (rs_rw r)"
  shows "\<exists>r'. rs_writes cs r = Some r' \<and> gz_inv accepts (delivered (rs_buffer r) cs) (rs_rw r')"
  using assms
proof (induction cs arbitrary: r)
  case (Cons c cs)
  let ?r = "r\<lparr>rs_rawBytes := rs_rawBytes r + int (length c), rs_buffer := rs_buffer r @ c\<rparr>"
  have r: "rs_modifiers ?r = []" "\<not> rs_statusWritten ?r" "\<not> rs_hijacked ?r" "gz_inv accepts [] (rs_rw ?r)" using Cons.prems by simp_all
  show ?case
  proof (cases "index_str endOfHeader (rs_buffer r @ c)")
    case None
    then have "rs_Write c r = Some (int (length c), True, ?r)" using Cons.prems by (simp add: rs_Write_def Let_def)
    then show ?thesis using Cons.IH[OF r] None by simp
  next
    case (Some idx)
    obtain r1 h st where r1: "flushHeader ?r = Some r1" "rs_statusWritten r1" "rs_buffer r1 = rs_buffer r @ c"
      "rs_rw r1 = fold gz_do [OpHeader h, OpStatus st] (rs_rw r)" using flushHeader_runs[OF r(1-3)] by auto
    have inv1: "gz_inv accepts [] (rs_rw r1)" using gz_run_inv[OF r(4), of "[OpHeader h, OpStatus st]"] r1(4) by simp
    let ?rest = "if has_suffix (rs_buffer r @ c) endOfLine then [] else drop (idx + 4) (rs_buffer r @ c)"
    have "\<exists>n fine r2. rs_Write c r = Some (n, fine, r2) \<and> rs_statusWritten r2 \<and> gz_inv accepts ?rest (rs_rw r2)"
    proof (cases "\<not> has_suffix (rs_buffer r @ c) endOfLine \<and> idx + 4 < length (rs_buffer r @ c)")
      case True
      obtain n fine r2 where w: "rw_write ?rest r1 = (n, fine, r2)" using prod_cases3 by blast
      have r2: "r2 = snd (snd (rw_write ?rest r1))" using w by simp
      have "rs_Write c r = Some (int (length c), fine, r2)"
        using True w Some r1 Cons.prems by (simp add: rs_Write_def Let_def)
      moreover have "gz_inv accepts ?rest (rs_rw r2)" unfolding r2 rw_write_frame
        using gz_do_inv[OF inv1, of "OpWrite ?rest"] by simp
      moreover have "rs_statusWritten r2" unfolding r2 rw_write_frame using r1(2) by simp
      ultimately show ?thesis by blast
    next
      case False
      have rest: "?rest = []" using False by auto
      have "rs_Write c r = Some (int (length c), True, r1)"
        using False Some r1 Cons.prems by (auto simp: rs_Write_def Let_def)
      then show ?thesis unfolding rest using r1(2) inv1 by blast
    qed
    then obtain n fine r2 where 2: "rs_Write c r = Some (n, fine, r2)" "rs_statusWritten r2" "gz_inv accepts ?rest (rs_rw r2)" by blast
    from rs_writes_after_status[OF 2(2), of cs] obtain r' where
      "rs_writes cs r2 = Some r'" "rs_rw r' = fold gz_do (map OpWrite cs) (rs_rw r2)" by blast
    then show ?thesis using 2 gz_run_inv[OF 2(3), of "map OpWrite cs"] Some by auto
  qed
qed (use assms in simp)

text \<open>A response written as text, with its header, in any pieces: what follows the end of the
  header is delivered, but if the piece that completes the header ends with a line end, the part of
  the body in that piece is lost.\<close>

theorem body_after_written_header:
  "case rs_writes cs (NewResponseWriter (NewGzipWriter (new_client h) req_h) sc) of
     None \<Rightarrow> False
   | Some r \<Rightarrow> payload (cl_body (gz_rw (snd (gz_Close (rs_rw r))))) = delivered [] cs"
proof -
  let ?r = "NewResponseWriter (NewGzipWriter (new_client h) req_h) sc"
  have "gz_inv (has_gzip None (h_get req_h ''Accept-Encoding'')) [] (rs_rw ?r)"
    using NewGzipWriter_inv by (simp add: NewResponseWriter_def)
  then obtain r' where r': "rs_writes cs ?r = Some r'"
    "gz_inv (has_gzip None (h_get req_h ''Accept-Encoding'')) (delivered [] cs) (rs_rw r')"
    using rs_writes_text[of ?r _ cs] by (auto simp: NewResponseWriter_def)
  from gz_Close_sees[OF r'(2)] show ?thesis using r'(1) by (simp add: client_sees_def)
qed

lemma body_depends_on_pieces:
  "delivered [] [''HTTP/1.1 200 OK'' @ endOfHeader, ''text'' @ endOfLine] = ''text'' @ endOfLine"
  "delivered [] [''HTTP/1.1 200 OK'' @ endOfHeader @ ''text'' @ endOfLine] = []"
  by code_simp+

end
