(* ===== verification/Proxy.thy ===== *)
theory Proxy
  imports Writer
begin

text \<open>
  The proxy (\<open>handler/proxy.go\<close>) with the ASCII functions it uses (\<open>handler/ascii/print.go\<close>): what it
  sends to its backend, websockets and the upgrade of the connection, and the copying of a response to
  the client with its delayed flushes.

  The attributes of the proxy and of its \<open>websockets\<close> blocks are given by their values for the request.
\<close>

section \<open>ASCII\<close>

definition ascii_lower :: "char \<Rightarrow> char" where
  "ascii_lower b = (let n = of_char b :: nat in if 65 \<le> n \<and> n \<le> 90 then char_of (n + 32) else b)"

fun ascii_fold :: "string \<Rightarrow> string \<Rightarrow> bool" where
  "ascii_fold [] [] = True"
| "ascii_fold (a # s) (b # t) = (ascii_lower a = ascii_lower b \<and> ascii_fold s t)"
| "ascii_fold _ _ = False"

definition ascii_EqualFold :: "string \<Rightarrow> string \<Rightarrow> bool" where
  "ascii_EqualFold s t = (if length s \<noteq> length t then False else ascii_fold s t)"

definition IsPrint :: "string \<Rightarrow> bool" where
  "IsPrint s = list_all (\<lambda>c. let n = of_char c :: nat in 32 \<le> n \<and> n \<le> 126) s"

definition ascii_Is :: "string \<Rightarrow> bool" where
  "ascii_Is s = list_all (\<lambda>c. (of_char c :: nat) \<le> 127) s"

definition ascii_ToLower :: "string \<Rightarrow> string \<times> bool" where
  "ascii_ToLower s = (if IsPrint s then (to_lower s, True) else ([], False))"

section \<open>The proxy\<close>

definition headerBlacklist :: "string list" where
  "headerBlacklist = [''Authorization'', ''Cookie'']"

record ws_block =
  ws_path :: "(go_error + cty) option"
  ws_attrs :: "go_error + attrs"
  ws_timeout :: "(go_error + cty) option"
  ws_late :: "go_error + attrs"

record proxy =
  px_allowWS :: bool
  px_eval :: evaluation
  px_path :: "(go_error + cty) option"
  px_attrs :: "go_error + attrs"
  px_expected :: "go_error + cty"
  px_websockets :: "ws_block list"
  px_late :: "go_error + attrs"
  px_response_attrs :: "beresp \<Rightarrow> go_error + attrs"
  px_response_status :: "beresp \<Rightarrow> (go_error + cty) option"

text \<open>What the proxy puts into the context of the request.\<close>

record proxy_context =
  pc_ws_allowed :: bool
  pc_ws_timeout :: "duration option"
  pc_expected :: "int list"

definition proxy_upgradeType :: "header \<Rightarrow> string" where
  "proxy_upgradeType h =
     (case h ''Connection'' of
        None \<Rightarrow> []
      | Some vs \<Rightarrow> if list_ex (\<lambda>v. to_lower v = ''upgrade'') vs then h_get h ''Upgrade'' else [])"

definition getWebsocketsBody :: "proxy \<Rightarrow> ws_block option" where
  "getWebsocketsBody px = (case px_websockets px of [ws] \<Rightarrow> Some ws | _ \<Rightarrow> None)"

text \<open>The timeout of a \<open>websockets\<close> block; an empty text is the timeout 0.\<close>

definition websockets_timeout :: "evaluation \<Rightarrow> (go_error + cty) option \<Rightarrow> go_error + duration option" where
  "websockets_timeout ev attr =
     (case attr of
        None \<Rightarrow> Inr None
      | Some (Inl e) \<Rightarrow> Inl e
      | Some (Inr v) \<Rightarrow>
          (let str = ValueToString (ev_btext ev) v in
           case time_parse_duration str of
             Inl e \<Rightarrow> if str \<noteq> [] then Inl (PlainError (duration_error_text e)) else Inr (Some 0)
           | Inr d \<Rightarrow> Inr (Some d)))"

definition applyWebsocketsRequest :: "proxy \<Rightarrow> bereq \<Rightarrow> (go_error + duration option \<times> bereq) option" where
  "applyWebsocketsRequest px req =
     (if \<not> px_allowWS px \<or> \<not> IsUpgradeRequest True (req_header req) then Some (Inr (None, req))
      else (case getWebsocketsBody px of
         None \<Rightarrow> Some (Inr (None, req))
       | Some ws \<Rightarrow>
           then_do (ApplyRequestContext (px_eval px) (ws_path ws) (ws_attrs ws) req)
             (\<lambda>req1. Some (case websockets_timeout (px_eval px) (ws_timeout ws) of
                 Inl e \<Rightarrow> Inl e | Inr t \<Rightarrow> Inr (t, req1)))))"

text \<open>The modifiers for the response writer: the body of the websockets block, which may be nil, and the
  proxy's own.\<close>

definition registerWebsocketsResponse :: "proxy \<Rightarrow> bool \<Rightarrow> header \<Rightarrow> (go_error + attrs) option list" where
  "registerWebsocketsResponse px allowed h =
     (if IsUpgradeRequest allowed h then [map_option ws_late (getWebsocketsBody px), Some (px_late px)] else [])"

text \<open>The header of the request to the backend.\<close>

definition proxy_headers :: "string \<Rightarrow> header \<Rightarrow> header" where
  "proxy_headers upType h =
     (let h1 = fold h_del HopHeaders (RemoveConnectionHeaders h) in
      if upType \<noteq> [] then h_set ''Upgrade'' upType (h_set ''Connection'' ''Upgrade'' h1) else h1)"

definition plain_error :: "string \<Rightarrow> go_error option" where
  "plain_error t = Some (PlainError t)"

text \<open>The writer of the client and the body of the backend, as far as an upgrade depends on them.\<close>

record upgrade_env =
  up_writer :: bool
  up_hijacker :: bool
  up_type :: string
  up_stream :: bool
  up_hijack_error :: "string option"
  up_write_error :: "string option"
  up_flush_error :: "string option"

definition quoted :: "string \<Rightarrow> string" where
  "quoted s = [CHR 0x22] @ s @ [CHR 0x22]"

definition handleUpgradeResponse :: "upgrade_env \<Rightarrow> header \<Rightarrow> header \<Rightarrow> go_error option" where
  "handleUpgradeResponse up req_h res_h =
     (let reqUpType = proxy_upgradeType req_h; resUpType = proxy_upgradeType res_h in
      if \<not> up_writer up then plain_error ''can't switch protocols using non-ResponseWriter type <nil>''
      else if \<not> IsPrint resUpType then plain_error (''backend tried to switch to invalid protocol '' @ quoted resUpType)
      else if \<not> ascii_EqualFold reqUpType resUpType
      then plain_error (''backend tried to switch protocol '' @ quoted resUpType @ '' when '' @ quoted reqUpType @ '' was requested'')
      else if \<not> up_hijacker up then plain_error (''can't switch protocols using non-Hijacker ResponseWriter type '' @ up_type up)
      else if \<not> up_stream up then plain_error ''internal error: 101 switching protocols response with non-writable body''
      else (case up_hijack_error up of
         Some e \<Rightarrow> plain_error (''hijack failed on protocol switch: '' @ e)
       | None \<Rightarrow>
          (case up_write_error up of
             Some e \<Rightarrow> plain_error (''response write: '' @ e)
           | None \<Rightarrow> (case up_flush_error up of Some e \<Rightarrow> plain_error (''response flush: '' @ e) | None \<Rightarrow> None))))"

text \<open>What a round trip gives; \<open>None\<close> is a panic.\<close>

record proxy_result =
  pr_response :: "beresp option"
  pr_error :: "go_error option"
  pr_sent :: "(proxy_context \<times> bereq) option"
  pr_modifiers :: "(go_error + attrs) option list"

definition proxy_failed :: "go_error \<Rightarrow> proxy_result" where
  "proxy_failed e = \<lparr>pr_response = None, pr_error = Some e, pr_sent = None, pr_modifiers = []\<rparr>"

definition finish_proxy ::
    "proxy \<Rightarrow> upgrade_env \<Rightarrow> proxy_context \<Rightarrow> (go_error + attrs) option list \<Rightarrow> bereq \<Rightarrow> go_error + beresp \<Rightarrow> proxy_result option" where
  "finish_proxy px up ctx mods out answer =
     (let result = (\<lambda>r e. \<lparr>pr_response = r, pr_error = e, pr_sent = Some (ctx, out), pr_modifiers = mods\<rparr>) in
      (case answer of
         Inl e \<Rightarrow> Some (result None (Some e))
       | Inr r \<Rightarrow>
           if bs_status r = 101 then Some (result (Some r) (handleUpgradeResponse up (req_header out) (bs_header r)))
           else (let r1 = r\<lparr>bs_header := RemoveHopHeaders (RemoveConnectionHeaders (bs_header r))\<rparr> in
             map_option (\<lambda>(r2, e). result (Some r2) e)
               (ApplyResponseContext (px_eval px) (px_response_attrs px r1) (px_response_status px r1)
                  (pc_ws_allowed ctx) (req_header out) r1))))"

definition proxy_RoundTrip ::
    "proxy \<Rightarrow> upgrade_env \<Rightarrow> (proxy_context \<Rightarrow> bereq \<Rightarrow> go_error + beresp) \<Rightarrow> bereq \<Rightarrow> proxy_result option" where
  "proxy_RoundTrip px up backend req0 =
     (let req = req0\<lparr>req_header := fold h_del headerBlacklist (req_header req0)\<rparr> in
      (case ApplyRequestContext (px_eval px) (px_path px) (px_attrs px) req of
         None \<Rightarrow> None
       | Some (Inl e) \<Rightarrow> Some (proxy_failed e)
       | Some (Inr req1) \<Rightarrow>
          (case applyWebsocketsRequest px req1 of
             None \<Rightarrow> None
           | Some (Inl e) \<Rightarrow> Some (proxy_failed e)
           | Some (Inr (timeout, req2)) \<Rightarrow>
              (case px_expected px of
                 Inl e \<Rightarrow> Some (proxy_failed e)
               | Inr v \<Rightarrow>
                  (case ValueToIntSlice v of
                     None \<Rightarrow> None
                   | Some expected \<Rightarrow>
                      (let ctx = \<lparr>pc_ws_allowed = px_allowWS px, pc_ws_timeout = timeout, pc_expected = expected\<rparr>;
                           mods = registerWebsocketsResponse px (px_allowWS px) (req_header req2);
                           req3 = (if br_length req2 = 0 then req2\<lparr>br_body := None\<rparr> else req2);
                           upType = proxy_upgradeType (req_header req3) in
                       if \<not> IsPrint upType
                       then Some ((proxy_failed (PlainError (''client tried to switch to invalid protocol '' @ quoted upType)))
                              \<lparr>pr_modifiers := mods\<rparr>)
                       else (let out = req3\<lparr>req_header := proxy_headers upType (req_header req3)\<rparr> in
                         finish_proxy px up ctx mods out (backend ctx out))))))))"

section \<open>Copying the response\<close>

text \<open>The header of the response; the list has its entries in the order of the Go map.\<close>

definition copyHeader :: "header \<Rightarrow> (string \<times> string list) list \<Rightarrow> header" where
  "copyHeader dst src = fold (\<lambda>(k, vv). fold (h_add k) vv) src dst"

definition flushInterval :: "beresp \<Rightarrow> duration" where
  "flushInterval res =
     (if h_get (bs_header res) ''Content-Type'' = ''text/event-stream'' then - 1
      else if bs_length res = - 1 then - 1
      else 100 * 1000000)"

text \<open>A reader gives a piece and, with it, its end or an error; at the end of the list it is at its end.
  A writer is given what it has and the new piece, and says how many bytes it took.\<close>

datatype read_end = ReadMore | ReadEOF | ReadCanceled | ReadError go_error

fun copyBuffer ::
    "(string \<Rightarrow> string \<Rightarrow> nat \<times> go_error option) \<Rightarrow> (string \<times> read_end) list \<Rightarrow> string \<Rightarrow> nat \<Rightarrow> nat \<times> go_error option \<times> string" where
  "copyBuffer wr [] dst written = (written, None, dst)"
| "copyBuffer wr ((data, e) # rest) dst written =
     (case e of
        ReadError x \<Rightarrow> (0, Some (err_Message ''read error during body copy'' (err_With (Some x) E_Server)), dst)
      | _ \<Rightarrow>
         (case (if data = [] then (0, None) else wr dst data) of
            (nw, werr) \<Rightarrow>
              (let dst' = dst @ take nw data; written' = written + nw in
               if werr \<noteq> None then (written', werr, dst')
               else if nw \<noteq> length data then (written', plain_error ''short write'', dst')
               else (case e of
                  ReadMore \<Rightarrow> copyBuffer wr rest dst' written'
                | ReadEOF \<Rightarrow> (written', None, dst')
                | _ \<Rightarrow> (written', plain_error ''context canceled'', dst')))))"

section \<open>Delayed flushes\<close>

datatype timer = NoTimer | Idle | Armed

text \<open>\<open>lw_running\<close> counts the flushes whose timer has fired and that wait for the lock.\<close>

record latency_writer =
  lw_latency :: duration
  lw_flushed :: string
  lw_unflushed :: string
  lw_flushPending :: bool
  lw_timer :: timer
  lw_running :: nat
  lw_stopped :: bool

definition lw_Flush :: "latency_writer \<Rightarrow> latency_writer" where
  "lw_Flush m = m\<lparr>lw_flushed := lw_flushed m @ lw_unflushed m, lw_unflushed := []\<rparr>"

text \<open>\<open>copyResponse\<close> starts a timer, so that a header is sent even without a body.\<close>

definition lw_start :: "duration \<Rightarrow> latency_writer" where
  "lw_start latency =
     \<lparr>lw_latency = latency, lw_flushed = [], lw_unflushed = [], lw_flushPending = True, lw_timer = Armed, lw_running = 0,
      lw_stopped = False\<rparr>"

definition lw_Write :: "string \<Rightarrow> latency_writer \<Rightarrow> latency_writer" where
  "lw_Write p m0 =
     (let m = m0\<lparr>lw_unflushed := lw_unflushed m0 @ p\<rparr> in
      if lw_latency m < 0 then lw_Flush m
      else if lw_flushPending m then m
      else m\<lparr>lw_timer := Armed, lw_flushPending := True\<rparr>)"

definition delayedFlush :: "latency_writer \<Rightarrow> latency_writer" where
  "delayedFlush m = (if \<not> lw_flushPending m then m else (lw_Flush m)\<lparr>lw_flushPending := False\<rparr>)"

definition lw_stop :: "latency_writer \<Rightarrow> latency_writer" where
  "lw_stop m = m\<lparr>lw_flushPending := False, lw_timer := (if lw_timer m = NoTimer then NoTimer else Idle), lw_stopped := True\<rparr>"

datatype lw_event = EvWrite string | EvFire | EvRun | EvStop

definition lw_event :: "lw_event \<Rightarrow> latency_writer \<Rightarrow> latency_writer" where
  "lw_event e m =
     (case e of
        EvWrite p \<Rightarrow> if lw_stopped m then m else lw_Write p m
      | EvFire \<Rightarrow> if lw_timer m = Armed then m\<lparr>lw_timer := Idle, lw_running := lw_running m + 1\<rparr> else m
      | EvRun \<Rightarrow> if lw_running m > 0 then (delayedFlush m)\<lparr>lw_running := lw_running m - 1\<rparr> else m
      | EvStop \<Rightarrow> lw_stop m)"

section \<open>What the backend gets\<close>

lemma blacklist_forgets:
  "fold h_del headerBlacklist (h_set ''Cookie'' c (h_set ''Authorization'' a h)) = fold h_del headerBlacklist h"
  by (rule ext) (simp add: headerBlacklist_def h_del_def h_set_def)

text \<open>The request to the backend and the response do not depend on the \<open>Authorization\<close> and
  \<open>Cookie\<close> headers of the client's request, except where the attributes of the proxy read them.\<close>

theorem client_credentials_dropped:
  "proxy_RoundTrip px up backend (req\<lparr>req_header := h_set ''Cookie'' c (h_set ''Authorization'' a (req_header req))\<rparr>) =
   proxy_RoundTrip px up backend req"
  by (simp add: proxy_RoundTrip_def blacklist_forgets)

lemma h_values_fold_del:
  "h_values (fold h_del ns h) k = (if canonical_key k \<in> canonical_key ` set ns then [] else h_values h k)"
  by (induction ns arbitrary: h) (auto simp: h_values_del)

lemma proxy_header_values:
  assumes "n \<in> set HopHeaders" and "canonical_key n \<noteq> canonical_key ''Connection''" "canonical_key n \<noteq> canonical_key ''Upgrade''"
  shows "h_values (proxy_headers t h) n = []"
  using assms by (simp add: proxy_headers_def Let_def h_values_simps h_values_fold_del)

lemma hop_keys:
  "''Connection'' \<in> set HopHeaders" "''Upgrade'' \<in> set HopHeaders" "canonical_key ''Connection'' \<noteq> canonical_key ''Upgrade''"
  "list_all (\<lambda>n. (if n = ''Connection'' \<or> n = ''Upgrade'' then True
                  else canonical_key n \<noteq> canonical_key ''Connection'' \<and> canonical_key n \<noteq> canonical_key ''Upgrade'')) HopHeaders"
  by code_simp+

definition upgrade_headers :: "header \<Rightarrow> string list \<times> string list" where
  "upgrade_headers h = (h_values h ''Connection'', h_values h ''Upgrade'')"

lemma proxy_upgrade_headers:
  "upgrade_headers (proxy_headers t h) = (if t = [] then ([], []) else ([''Upgrade''], [t]))"
proof -
  have k: "canonical_key ''Connection'' \<in> canonical_key ` set HopHeaders" "canonical_key ''Upgrade'' \<in> canonical_key ` set HopHeaders"
    using hop_keys(1,2) by (auto intro: imageI)
  show ?thesis
    using hop_keys(3) k by (simp add: upgrade_headers_def proxy_headers_def Let_def h_values_simps h_values_fold_del)
qed

lemma finish_proxy_sent:
  "finish_proxy px up ctx mods out answer = Some r \<Longrightarrow> pr_sent r = Some (ctx, out)"
  by (auto simp: finish_proxy_def Let_def split: sum.splits if_splits)

lemma proxy_sent:
  assumes "proxy_RoundTrip px up backend req = Some r" and "pr_sent r = Some (ctx, out)"
  shows "\<exists>h. req_header out = proxy_headers (proxy_upgradeType h) h \<and> IsPrint (proxy_upgradeType h)"
proof -
  let ?req = "req\<lparr>req_header := fold h_del headerBlacklist (req_header req)\<rparr>"
  from assms obtain req1 timeout req2 v expected where
    1: "ApplyRequestContext (px_eval px) (px_path px) (px_attrs px) ?req = Some (Inr req1)"
    "applyWebsocketsRequest px req1 = Some (Inr (timeout, req2))" "px_expected px = Inr v" "ValueToIntSlice v = Some expected"
    by (auto simp: proxy_RoundTrip_def Let_def proxy_failed_def split: option.splits sum.splits prod.splits)
  define req3 where "req3 = (if br_length req2 = 0 then req2\<lparr>br_body := None\<rparr> else req2)"
  have print: "IsPrint (proxy_upgradeType (req_header req3))"
    using assms unfolding proxy_RoundTrip_def Let_def req3_def by (auto simp: 1 proxy_failed_def split: if_splits)
  let ?out = "req3\<lparr>req_header := proxy_headers (proxy_upgradeType (req_header req3)) (req_header req3)\<rparr>"
  let ?ctx = "\<lparr>pc_ws_allowed = px_allowWS px, pc_ws_timeout = timeout, pc_expected = expected\<rparr>"
  let ?mods = "registerWebsocketsResponse px (px_allowWS px) (req_header req2)"
  have "proxy_RoundTrip px up backend req = finish_proxy px up ?ctx ?mods ?out (backend ?ctx ?out)"
    using print unfolding proxy_RoundTrip_def Let_def by (simp add: 1 req3_def[symmetric])
  with assms finish_proxy_sent have "out = ?out" by (metis option.inject prod.inject)
  with print show ?thesis by auto
qed

text \<open>A request that is sent to the backend has no hop-by-hop header of the client; it has
  \<open>Connection: Upgrade\<close> and one printable \<open>Upgrade\<close> header, or neither of them.\<close>

theorem proxied_headers:
  "case proxy_RoundTrip px up backend req of
     None \<Rightarrow> True
   | Some r \<Rightarrow>
      (case pr_sent r of
         None \<Rightarrow> True
       | Some (ctx, out) \<Rightarrow>
          list_all (\<lambda>n. if n = ''Connection'' \<or> n = ''Upgrade'' then True else h_values (req_header out) n = []) HopHeaders \<and>
          (case upgrade_headers (req_header out) of
             ([], []) \<Rightarrow> True | (cs, [t]) \<Rightarrow> cs = [''Upgrade''] \<and> IsPrint t | _ \<Rightarrow> False))"
proof (cases "proxy_RoundTrip px up backend req")
  case (Some r)
  show ?thesis
  proof (cases "pr_sent r")
    case sent: (Some p)
    obtain ctx out where p: "p = (ctx, out)" by fastforce
    from proxy_sent[OF Some] sent p obtain h where
      h: "req_header out = proxy_headers (proxy_upgradeType h) h" "IsPrint (proxy_upgradeType h)" by blast
    have "list_all (\<lambda>n. if n = ''Connection'' \<or> n = ''Upgrade'' then True else h_values (req_header out) n = []) HopHeaders"
      using hop_keys(4) proxy_header_values unfolding h(1) by (auto simp: list_all_iff)
    then show ?thesis using Some sent p h(2) by (simp add: proxy_upgrade_headers h(1))
  qed (simp add: Some)
qed simp

text \<open>The comparison of the types of the upgrade.\<close>

lemma ascii_fold_map: "ascii_fold s t \<longleftrightarrow> map ascii_lower s = map ascii_lower t"
  by (induction s t rule: ascii_fold.induct) auto

lemma EqualFold_iff: "ascii_EqualFold s t \<longleftrightarrow> map ascii_lower s = map ascii_lower t"
  by (auto simp: ascii_EqualFold_def ascii_fold_map dest: map_eq_imp_length_eq)

text \<open>The connections are joined exactly if the backend switched to the protocol that the
  request asked for, up to the case of ASCII letters, and both connections can be taken over.\<close>

theorem upgrade_accepted:
  "handleUpgradeResponse up req_h res_h = None \<longleftrightarrow>
     map ascii_lower (proxy_upgradeType req_h) = map ascii_lower (proxy_upgradeType res_h) \<and> IsPrint (proxy_upgradeType res_h) \<and>
     up_writer up \<and> up_hijacker up \<and> up_stream up \<and>
     up_hijack_error up = None \<and> up_write_error up = None \<and> up_flush_error up = None"
  by (auto simp: handleUpgradeResponse_def Let_def plain_error_def EqualFold_iff split: option.splits)

text \<open>A token in a list of the \<open>Connection\<close> header is not seen, although the request is an upgrade for
  the rest of the program: the backend is not asked to switch.\<close>

theorem upgrade_token_missed:
  "let h = [''Connection'' \<mapsto> [''keep-alive, Upgrade''], ''Upgrade'' \<mapsto> [''websocket'']] in
   IsUpgradeRequest True h \<and> proxy_upgradeType h = [] \<and> upgrade_headers (proxy_headers (proxy_upgradeType h) h) = ([], [])"
  unfolding Let_def proxy_upgrade_headers by code_simp

section \<open>What the client gets\<close>

fun source_text :: "(string \<times> read_end) list \<Rightarrow> string" where
  "source_text [] = []"
| "source_text ((data, e) # rest) = data @ (case e of ReadMore \<Rightarrow> source_text rest | _ \<Rightarrow> [])"

text \<open>Copying writes a prefix of the body, in order. It returns no error exactly if all was
  written up to the end of the body, and then it returns the number of bytes.\<close>

theorem copy_delivers:
  "case copyBuffer wr src dst written of
     (n, err, dst') \<Rightarrow>
       (\<exists>q t. dst' = dst @ q \<and> source_text src = q @ t \<and>
          (if err = None then t = [] \<and> n = written + length q else True))"
proof (induction wr src dst written rule: copyBuffer.induct)
  case (1 wr dst written)
  show ?case by simp
next
  case (2 wr data e rest dst written)
  obtain nw werr where w: "(if data = [] then (0, None) else wr dst data) = (nw, werr)" by fastforce
  show ?case
  proof (cases "\<exists>x. e = ReadError x")
    case True
    then show ?thesis by auto
  next
    case noerr: False
    show ?thesis
    proof (cases "werr = None \<and> nw = length data")
      case False
      have "\<exists>n err. copyBuffer wr ((data, e) # rest) dst written = (n, err, dst @ take nw data) \<and> err \<noteq> None"
        using False noerr w by (cases e) (auto simp: Let_def plain_error_def)
      then obtain n err where c: "copyBuffer wr ((data, e) # rest) dst written = (n, err, dst @ take nw data)" "err \<noteq> None" by blast
      have "source_text ((data, e) # rest) = take nw data @ (drop nw data @ (case e of ReadMore \<Rightarrow> source_text rest | _ \<Rightarrow> []))"
        by (simp add: append_assoc[symmetric] del: append_assoc)
      then show ?thesis unfolding c(1) using c(2) by (simp del: source_text.simps) blast
    next
      case ok: True
      show ?thesis
      proof (cases e)
        case ReadMore
        have step: "copyBuffer wr ((data, e) # rest) dst written = copyBuffer wr rest (dst @ data) (written + length data)"
          using ok w ReadMore by (simp add: Let_def)
        have "case copyBuffer wr rest (dst @ data) (written + length data) of
           (n, err, dst') \<Rightarrow> (\<exists>q t. dst' = (dst @ data) @ q \<and> source_text rest = q @ t \<and>
              (if err = None then t = [] \<and> n = written + length data + length q else True))"
          using "2.IH" w ok ReadMore by (auto simp: Let_def)
        then obtain n err q t where "copyBuffer wr rest (dst @ data) (written + length data) = (n, err, dst @ data @ q)"
          "source_text rest = q @ t" "if err = None then t = [] \<and> n = written + length data + length q else True"
          by (fastforce split: prod.splits)
        then show ?thesis unfolding step using ReadMore by (auto intro!: exI[of _ "data @ q"])
      qed (use ok w noerr in \<open>auto simp: Let_def plain_error_def\<close>)
    qed
  qed
qed

fun written_text :: "lw_event list \<Rightarrow> string" where
  "written_text [] = []"
| "written_text (EvWrite p # es) = p @ written_text es"
| "written_text (EvStop # es) = []"
| "written_text (_ # es) = written_text es"

definition lw_inv :: "latency_writer \<Rightarrow> bool" where
  "lw_inv m \<longleftrightarrow>
     (if lw_stopped m then True
      else if lw_flushPending m then lw_timer m = Armed \<or> 0 < lw_running m
      else lw_unflushed m = []) \<and>
     (if lw_latency m < 0 then lw_unflushed m = [] else True)"

lemmas lw_defs = lw_event_def lw_Write_def lw_Flush_def delayedFlush_def lw_stop_def

lemma lw_event_inv: "lw_inv m \<Longrightarrow> lw_inv (lw_event e m)"
  by (cases e) (auto simp: lw_inv_def lw_defs Let_def split: if_splits)

lemma lw_event_stopped: "lw_stopped m \<Longrightarrow> lw_stopped (lw_event e m)"
  by (cases e) (auto simp: lw_defs Let_def)

lemma lw_event_latency: "lw_latency (lw_event e m) = lw_latency m"
  by (cases e) (auto simp: lw_defs Let_def)

definition lw_text :: "latency_writer \<Rightarrow> string" where
  "lw_text m = lw_flushed m @ lw_unflushed m"

lemma lw_event_text:
  "lw_text (lw_event e m) = lw_text m @ (case e of EvWrite p \<Rightarrow> if lw_stopped m then [] else p | _ \<Rightarrow> [])"
  by (cases e) (auto simp: lw_text_def lw_defs Let_def)

lemma lw_event_stops: "lw_stopped (lw_event e m) \<longleftrightarrow> lw_stopped m \<or> e = EvStop"
  by (cases e) (auto simp: lw_defs Let_def)

lemma lw_run:
  "lw_inv m \<Longrightarrow> lw_inv (fold lw_event es m) \<and> lw_latency (fold lw_event es m) = lw_latency m \<and>
     lw_text (fold lw_event es m) = lw_text m @ (if lw_stopped m then [] else written_text es)"
proof (induction es arbitrary: m)
  case (Cons e es)
  from Cons.IH[OF lw_event_inv[OF Cons.prems, of e]] show ?case
    by (cases e) (auto simp: lw_event_latency lw_event_text lw_event_stops)
qed simp

text \<open>Property C28: until the copying stops, bytes that the client was not sent yet wait for a timer that
  runs or has fired, whatever the order of writes and timers; with a negative latency none wait. No
  byte is lost or sent twice.\<close>

theorem flush_scheduled:
  "case fold lw_event es (lw_start latency) of m \<Rightarrow>
     lw_flushed m @ lw_unflushed m = written_text es \<and>
     (if lw_unflushed m = [] then True
      else 0 \<le> latency \<and> (if lw_stopped m then True else lw_timer m = Armed \<or> 0 < lw_running m))"
proof -
  have "lw_inv (lw_start latency)" by (simp add: lw_inv_def lw_start_def)
  from lw_run[OF this, of es] show ?thesis
    by (auto simp: lw_inv_def lw_text_def lw_start_def split: if_splits)
qed

end
