(* ===== verification/Endpoint.thy ===== *)
theory Endpoint
  imports Proxy
begin

text \<open>
  The requests of an endpoint one by one and its response to the client: the producers
  (\<open>handler/producer\<close>), the choice of the response and the handling of errors (\<open>handler/endpoint.go\<close>),
  and what of it the configuration decides (\<open>config/runtime/endpoint.go\<close>).

  The requests together, their order and their results, are the subject of the theory \<open>Producers\<close>; here
  the results are given.
\<close>

section \<open>The URL of a request\<close>

record target =
  tg_scheme :: string
  tg_host :: string
  tg_path :: string
  tg_query :: string

text \<open>A path that ends with \<open>/**\<close> gets what the wildcard of the endpoint matched.\<close>

definition replace_wildcard :: "string option \<Rightarrow> target \<Rightarrow> target \<Rightarrow> target" where
  "replace_wildcard wildcard req u =
     (case wildcard of
        None \<Rightarrow> u
      | Some pathMatch \<Rightarrow>
          if has_suffix (tg_path u) ''/**''
          then (let pm = (if has_suffix (tg_path req) ''/'' \<and> \<not> has_suffix pathMatch ''/'' then pathMatch @ ''/'' else pathMatch) in
            u\<lparr>tg_path := JoinPath [''/'', strip_wildcards (tg_path u), pm]\<rparr>)
          else u)"

lemma replace_wildcard_frame [simp]:
  "tg_host (replace_wildcard w t u) = tg_host u" "tg_scheme (replace_wildcard w t u) = tg_scheme u"
  "tg_query (replace_wildcard w t u) = tg_query u"
  by (simp_all add: replace_wildcard_def Let_def split: option.split)

text \<open>\<open>url.ParseRequestURI\<close> is the argument \<open>parse\<close>. A null or unknown string panics.\<close>

definition NewURLFromAttribute ::
    "(string \<Rightarrow> go_error + target) \<Rightarrow> string \<Rightarrow> (go_error + cty) option \<Rightarrow> string option \<Rightarrow> target \<Rightarrow> (go_error + target) option" where
  "NewURLFromAttribute parse attrName attr wildcard req =
     (case attr of
        None \<Rightarrow> Some (Inr req)
      | Some (Inl e) \<Rightarrow> Some (Inl e)
      | Some (Inr v) \<Rightarrow>
          if cty_type_of v = TNil then Some (Inr req)
          else if cty_type_of v \<noteq> TString then Some (Inl (PlainError (''url '' @ quoted attrName @ '': not a string'')))
          else (case v of
             CString urlStr \<Rightarrow>
               if urlStr = [] then Some (Inr req)
               else (case parse urlStr of
                  Inl e \<Rightarrow> Some (Inl e)
                | Inr u \<Rightarrow> Some (Inr (replace_wildcard wildcard req u)))
           | _ \<Rightarrow> None))"

definition removeHost :: "target \<Rightarrow> target" where
  "removeHost t = t\<lparr>tg_host := []\<rparr>"

section \<open>Results\<close>

record produced =
  pd_beresp :: "beresp option"
  pd_err :: "go_error option"
  pd_name :: string

definition failed_result :: "go_error \<Rightarrow> produced" where
  "failed_result e = \<lparr>pd_beresp = None, pd_err = Some e, pd_name = []\<rparr>"

text \<open>The round trip gives a response, an error, and the expected status that is in the context
  afterwards.\<close>

definition roundtrip :: "string \<Rightarrow> beresp option \<times> go_error option \<times> int list option \<Rightarrow> produced" where
  "roundtrip rtn answer =
     (case answer of (beresp, err, expStatus) \<Rightarrow>
        (let result = \<lparr>pd_beresp = beresp, pd_err = err, pd_name = rtn\<rparr> in
         if (case err of None \<Rightarrow> False | Some e \<Rightarrow> is_couper e) then result
         else (case (beresp, expStatus) of
            (Some r, Some exps) \<Rightarrow>
              if exps \<noteq> [] \<and> bs_status r \<notin> set exps
              then result\<lparr>pd_err := Some (err_With err (error_def ''unexpected_status''))\<rparr>
              else result
          | _ \<Rightarrow> result)))"

definition round_trip_name :: "string \<Rightarrow> string" where
  "round_trip_name name = (if name = [] then ''default'' else name)"

section \<open>Proxies\<close>

text \<open>The request of the client has a target; \<open>send\<close> is the handler of the proxy. \<open>None\<close> is a panic.\<close>

definition proxy_target ::
    "(string \<Rightarrow> go_error + target) \<Rightarrow> (go_error + cty) option \<Rightarrow> string option \<Rightarrow> target \<Rightarrow> (go_error + target) option" where
  "proxy_target parse attr wildcard clientReq =
     (let outReq = removeHost clientReq in
      then_do (NewURLFromAttribute parse ''url'' attr wildcard outReq)
        (\<lambda>u. Some (Inr (if tg_query outReq \<noteq> [] \<and> tg_query u = [] then u\<lparr>tg_query := tg_query outReq\<rparr> else u))))"

definition proxy_Produce ::
    "(string \<Rightarrow> go_error + target) \<Rightarrow> (go_error + cty) option \<Rightarrow> string option \<Rightarrow> string
       \<Rightarrow> (target \<Rightarrow> beresp option \<times> go_error option \<times> int list option) \<Rightarrow> target \<Rightarrow> produced option" where
  "proxy_Produce parse attr wildcard name send clientReq =
     map_option (\<lambda>r. case r of Inl e \<Rightarrow> failed_result e | Inr u \<Rightarrow> roundtrip (round_trip_name name) (send u))
       (proxy_target parse attr wildcard clientReq)"

section \<open>Requests\<close>

record request_conf =
  rc_name :: string
  rc_eval :: evaluation
  rc_method :: "go_error + cty"
  rc_url :: "(go_error + cty) option"
  rc_expected :: "go_error + cty"
  rc_path :: "(go_error + cty) option"
  rc_attrs :: "go_error + attrs"
  rc_body :: attrs

text \<open>\<open>http.NewRequest\<close> refuses a method or a URL; that is the argument \<open>invalid\<close>.\<close>

definition new_request :: "string \<Rightarrow> target \<Rightarrow> bereq" where
  "new_request mtd u =
     \<lparr>req_method = mtd, req_host = tg_host u, req_path = tg_path u, req_query = tg_query u, req_header = Map.empty,
      br_wildcard = None, br_form = None, br_body = None, br_length = 0\<rparr>"

definition request_method :: "string \<Rightarrow> string \<Rightarrow> string" where
  "request_method given body =
     to_upper (if given = [] then (if body \<noteq> [] then ''POST'' else ''GET'') else given)"

definition prepare_request ::
    "request_conf \<Rightarrow> (cty \<Rightarrow> go_error + string) \<Rightarrow> (string \<Rightarrow> go_error + target) \<Rightarrow> (string \<Rightarrow> target \<Rightarrow> go_error option)
       \<Rightarrow> string option \<Rightarrow> target \<Rightarrow> (go_error + int list \<times> target \<times> bereq) option" where
  "prepare_request rc json parse invalid wildcard clientReq =
     (case rc_method rc of
        Inl e \<Rightarrow> Some (Inl e)
      | Inr mv \<Rightarrow>
          then_do (NewURLFromAttribute parse ''url'' (rc_url rc) wildcard (removeHost clientReq))
            (\<lambda>u. then_do (GetBody (rc_eval rc) json (rc_body rc))
              (\<lambda>(body, contentType).
                 (let mtd = request_method (ValueToString (ev_btext (rc_eval rc)) mv) body in
                  case invalid mtd u of
                    Some e \<Rightarrow> Some (Inl e)
                  | None \<Rightarrow>
                     (case rc_expected rc of
                        Inl e \<Rightarrow> Some (Inl e)
                      | Inr ev \<Rightarrow>
                          (case ValueToIntSlice ev of
                             None \<Rightarrow> None
                           | Some expected \<Rightarrow>
                              (let req = new_request mtd u;
                                   req1 = (if contentType \<noteq> [] then req\<lparr>req_header := h_set ''Content-Type'' contentType (req_header req)\<rparr>
                                           else req) in
                               then_do (ApplyRequestContext (rc_eval rc) (rc_path rc) (rc_attrs rc) (SetBody body req1))
                                 (\<lambda>out. Some (Inr (expected, u, out))))))))))"

definition request_Produce ::
    "request_conf \<Rightarrow> (cty \<Rightarrow> go_error + string) \<Rightarrow> (string \<Rightarrow> go_error + target) \<Rightarrow> (string \<Rightarrow> target \<Rightarrow> go_error option)
       \<Rightarrow> string option \<Rightarrow> (bereq \<Rightarrow> beresp option \<times> go_error option) \<Rightarrow> target \<Rightarrow> produced option" where
  "request_Produce rc json parse invalid wildcard send clientReq =
     map_option (\<lambda>r. case r of
         Inl e \<Rightarrow> failed_result e
       | Inr (expected, u, out) \<Rightarrow>
           (case send out of (beresp, err) \<Rightarrow> roundtrip (round_trip_name (rc_name rc)) (beresp, err, Some expected)))
       (prepare_request rc json parse invalid wildcard clientReq)"

section \<open>Responses\<close>

record response_conf =
  rp_status :: "(go_error + cty) option"
  rp_body :: attrs
  rp_headers :: "(go_error + cty) option"

definition response_status :: "response_conf \<Rightarrow> int \<Rightarrow> (go_error + int) option" where
  "response_status rp statusCode =
     (case rp_status rp of
        None \<Rightarrow> Some (Inr statusCode)
      | Some (Inl e) \<Rightarrow> Some (Inl e)
      | Some (Inr v) \<Rightarrow> map_option (\<lambda>st. Inr (if st > 0 then st else statusCode)) (ValueToInt v))"

definition NewResponse :: "evaluation \<Rightarrow> (cty \<Rightarrow> go_error + string) \<Rightarrow> response_conf \<Rightarrow> int \<Rightarrow> (go_error + beresp) option" where
  "NewResponse ev json rp statusCode =
     then_do (response_status rp statusCode)
       (\<lambda>st. case GetBody ev json (rp_body rp) of
           None \<Rightarrow> None
         | Some (Inl e) \<Rightarrow> Some (Inl (err_With (Some e) E_Evaluation))
         | Some (Inr (body, ct)) \<Rightarrow>
            (let h = (if ct \<noteq> [] then h_set ''Content-Type'' ct Map.empty else Map.empty) in
             case rp_headers rp of
               None \<Rightarrow> Some (Inr \<lparr>bs_status = st, bs_header = h, bs_body = body, bs_length = 0\<rparr>)
             | Some (Inl e) \<Rightarrow> Some (Inl e)
             | Some (Inr v) \<Rightarrow>
                 map_option (\<lambda>h'. Inr \<lparr>bs_status = st, bs_header = h', bs_body = body, bs_length = 0\<rparr>) (SetHeader ev v h)))"

section \<open>The endpoint\<close>

record endpoint =
  ep_eval :: evaluation
  ep_path :: "(go_error + cty) option"
  ep_attrs :: "go_error + attrs"
  ep_status :: "(go_error + cty) option"
  ep_is_error_handler :: bool
  ep_is_job :: bool
  ep_error_handler :: bool
  ep_redirect :: bool
  ep_response :: "response_conf option"
  ep_net_error :: "go_error \<Rightarrow> bool"
  ep_panic_error :: "go_error \<Rightarrow> bool"

text \<open>What is known of the request: whether it was canceled, the error in its context, and whether it
  is the request of a proxy.\<close>

record request_state =
  rq_canceled :: bool
  rq_error :: "go_error option"
  rq_proxy :: bool
  rq_websockets :: bool
  rq_header :: header
  rq_hijacked :: bool

text \<open>\<open>Aborted\<close> is a panic after the response was chosen: it is logged, and nothing is written.\<close>

datatype served =
    ServedTemplate go_error
  | CalledErrorHandler go_error
  | Canceled
  | Hijacked
  | Aborted
  | Served beresp

definition serve_error :: "endpoint \<Rightarrow> request_state \<Rightarrow> go_error \<Rightarrow> go_error" where
  "serve_error ep rq err =
     (if ep_net_error ep err then err_With (Some err) (if rq_proxy rq then E_Proxy else E_Request)
      else if ep_panic_error ep err then err_With (Some err) E_Server
      else err)"

definition error_status :: "endpoint \<Rightarrow> request_state \<Rightarrow> go_error \<Rightarrow> go_error \<Rightarrow> go_error option" where
  "error_status ep rq err serveErr =
     (case ep_status ep of
        Some attr \<Rightarrow>
          if ep_is_error_handler ep \<and> rq_error rq = Some err
          then (case ApplyResponseStatus attr \<lparr>bs_status = 0, bs_header = Map.empty, bs_body = [], bs_length = 0\<rparr> of
             None \<Rightarrow> None
           | Some (Inl e) \<Rightarrow> Some serveErr
           | Some (Inr (st, r)) \<Rightarrow>
               Some (if is_couper serveErr then err_Status (nat st) serveErr
                     else err_Status (nat st) (err_With (Some serveErr) E_Server)))
          else Some serveErr
      | None \<Rightarrow> Some serveErr)"

text \<open>\<open>None\<close>: there is no error to handle. What a panic leads to depends on whether there is a response.\<close>

definition handleError :: "endpoint \<Rightarrow> request_state \<Rightarrow> bool \<Rightarrow> go_error option \<Rightarrow> served option" where
  "handleError ep rq has_response err =
     map_option (\<lambda>e.
         let serveErr = serve_error ep rq e in
         if ep_error_handler ep then CalledErrorHandler (case rq_error rq of None \<Rightarrow> serveErr | Some c \<Rightarrow> c)
         else (case error_status ep rq e serveErr of
               None \<Rightarrow> if has_response then Aborted else ServedTemplate E_Server
             | Some e' \<Rightarrow> ServedTemplate e')) err"

text \<open>The response to the client and the error; \<open>None\<close> is a panic.\<close>

definition client_response ::
    "endpoint \<Rightarrow> (cty \<Rightarrow> go_error + string) \<Rightarrow> request_state \<Rightarrow> (string \<rightharpoonup> produced) \<Rightarrow> go_error option
       \<Rightarrow> (beresp option \<times> go_error option) option" where
  "client_response ep json rq beresps err =
     (if ep_redirect ep then Some (Some \<lparr>bs_status = 301, bs_header = Map.empty, bs_body = [], bs_length = 0\<rparr>, err)
      else if ep_is_job ep then Some (Some \<lparr>bs_status = 200, bs_header = Map.empty, bs_body = [], bs_length = 0\<rparr>, err)
      else (case ep_response ep of
         Some rp \<Rightarrow>
           map_option (\<lambda>r. case r of Inl e \<Rightarrow> (None, Some e) | Inr r \<Rightarrow> (Some r, None)) (NewResponse (ep_eval ep) json rp 200)
       | None \<Rightarrow>
          (case beresps ''default'' of
             Some result \<Rightarrow> Some (pd_beresp result, pd_err result)
           | None \<Rightarrow>
               if ep_is_error_handler ep \<and> err = None
               then Some (None, Some (case rq_error rq of Some e \<Rightarrow> e | None \<Rightarrow> E_Server))
               else Some (None, Some (err_Message ''missing client response'' E_Server)))))"

definition finish_endpoint :: "endpoint \<Rightarrow> request_state \<Rightarrow> beresp option \<Rightarrow> served" where
  "finish_endpoint ep rq clientres =
     (if rq_hijacked rq then Hijacked
      else (case clientres of
         None \<Rightarrow> ServedTemplate E_Server
       | Some r \<Rightarrow>
          (case ApplyResponseContext (ep_eval ep) (ep_attrs ep) (ep_status ep) (rq_websockets rq) (rq_header rq) r of
             None \<Rightarrow> Aborted
           | Some (r', Some e) \<Rightarrow> ServedTemplate e
           | Some (r', None) \<Rightarrow> Served r')))"

definition endpoint_ServeHTTP ::
    "endpoint \<Rightarrow> (cty \<Rightarrow> go_error + string) \<Rightarrow> request_state \<Rightarrow> bereq
       \<Rightarrow> (bereq \<Rightarrow> (string \<rightharpoonup> produced) \<times> go_error option) \<Rightarrow> served" where
  "endpoint_ServeHTTP ep json rq req produce =
     (case ApplyRequestContext (ep_eval ep) (ep_path ep) (ep_attrs ep) req of
        None \<Rightarrow> ServedTemplate E_Server
      | Some (Inl e) \<Rightarrow> ServedTemplate e
      | Some (Inr req1) \<Rightarrow>
         (case produce req1 of (beresps, err) \<Rightarrow>
            if rq_canceled rq then Canceled
            else (case (if ep_is_error_handler ep then None else handleError ep rq False err) of
               Some s \<Rightarrow> s
             | None \<Rightarrow>
                (case client_response ep json rq beresps err of
                   None \<Rightarrow> ServedTemplate E_Server
                 | Some (clientres, err') \<Rightarrow>
                    (case handleError ep rq (clientres \<noteq> None) err' of
                       Some s \<Rightarrow> s
                     | None \<Rightarrow> finish_endpoint ep rq clientres)))))"

text \<open>What the configuration makes of the \<open>websockets\<close> attribute and blocks of a proxy.\<close>

definition allowWebsockets :: "bool option \<Rightarrow> string list \<Rightarrow> bool" where
  "allowWebsockets attr block_types = (attr \<noteq> None \<or> ''websockets'' \<in> set block_types)"

section \<open>What the client gets\<close>

lemma handleError_none [simp]: "handleError ep rq has e = None \<longleftrightarrow> e = None"
  by (simp add: handleError_def)

lemma handleError_no_error [simp]: "handleError ep rq has None = None"
  by (simp add: handleError_def)

lemma handleError_not_served: "handleError ep rq has e \<noteq> Some (Served r)" "handleError ep rq has e \<noteq> Some Canceled"
  "handleError ep rq has e \<noteq> Some Hijacked"
  by (auto simp: handleError_def Let_def split: option.splits if_splits)

lemma client_response_chosen:
  assumes "client_response ep json rq beresps err = Some (Some r0, None)"
  shows "if ep_redirect ep then err = None \<and> r0 = \<lparr>bs_status = 301, bs_header = Map.empty, bs_body = [], bs_length = 0\<rparr>
     else if ep_is_job ep then err = None \<and> r0 = \<lparr>bs_status = 200, bs_header = Map.empty, bs_body = [], bs_length = 0\<rparr>
     else (case ep_response ep of
        Some rp \<Rightarrow> NewResponse (ep_eval ep) json rp 200 = Some (Inr r0)
      | None \<Rightarrow> map_option (\<lambda>p. (pd_beresp p, pd_err p)) (beresps ''default'') = Some (Some r0, None))"
proof -
  have inr: "z = Inr x" if "(case z of Inl e \<Rightarrow> (None, Some e) | Inr r \<Rightarrow> (Some r, None)) = (Some x, None)"
    for z :: "go_error + beresp" and x using that by (cases z) simp_all
  show ?thesis
    using assms by (auto simp: client_response_def split: if_splits option.splits dest!: inr)
qed

text \<open>
  Property C31: an endpoint answers with a response only if the request was not canceled and no request of it failed; an
  error handler also where a request failed, if it has a response block or if its default request has a response without
  error. The response is the empty one of the redirect or of the job, if the endpoint is one of these, else the one of the
  response block, else that of the default request, which had no error; and it is modified by the attributes of the endpoint.
\<close>

theorem served_response:
  "case endpoint_ServeHTTP ep json rq req produce of
     Served r \<Rightarrow>
       (\<exists>req1 beresps err r0.
          ApplyRequestContext (ep_eval ep) (ep_path ep) (ep_attrs ep) req = Some (Inr req1) \<and> produce req1 = (beresps, err) \<and>
          \<not> rq_canceled rq \<and> (if ep_is_error_handler ep then True else err = None) \<and>
          (if ep_redirect ep then err = None \<and> r0 = \<lparr>bs_status = 301, bs_header = Map.empty, bs_body = [], bs_length = 0\<rparr>
           else if ep_is_job ep then err = None \<and> r0 = \<lparr>bs_status = 200, bs_header = Map.empty, bs_body = [], bs_length = 0\<rparr>
           else (case ep_response ep of
              Some rp \<Rightarrow> NewResponse (ep_eval ep) json rp 200 = Some (Inr r0)
            | None \<Rightarrow> map_option (\<lambda>p. (pd_beresp p, pd_err p)) (beresps ''default'') = Some (Some r0, None))) \<and>
          ApplyResponseContext (ep_eval ep) (ep_attrs ep) (ep_status ep) (rq_websockets rq) (rq_header rq) r0 = Some (r, None))
   | _ \<Rightarrow> True"
proof (cases "\<exists>r. endpoint_ServeHTTP ep json rq req produce = Served r")
  case True
  then obtain r where r: "endpoint_ServeHTTP ep json rq req produce = Served r" by blast
  obtain req1 where 1: "ApplyRequestContext (ep_eval ep) (ep_path ep) (ep_attrs ep) req = Some (Inr req1)"
    using r unfolding endpoint_ServeHTTP_def by (auto split: option.splits sum.splits)
  obtain beresps err where 2: "produce req1 = (beresps, err)" by fastforce
  have 3: "\<not> rq_canceled rq" using r by (auto simp: endpoint_ServeHTTP_def 1 2)
  have 4: "(if ep_is_error_handler ep then None else handleError ep rq False err) = None"
    using r 3 handleError_not_served(1) by (auto simp: endpoint_ServeHTTP_def 1 2 split: option.splits if_splits)
  obtain clientres err' where 5: "client_response ep json rq beresps err = Some (clientres, err')"
    using r 3 4 by (auto simp: endpoint_ServeHTTP_def 1 2 split: option.splits)
  have 6: "err' = None"
    using r 3 4 5 handleError_not_served(1) by (auto simp: endpoint_ServeHTTP_def 1 2 split: option.splits)
  then have "finish_endpoint ep rq clientres = Served r"
    using r 3 4 5 by (auto simp: endpoint_ServeHTTP_def 1 2)
  then obtain r0 where r0: "clientres = Some r0"
    "ApplyResponseContext (ep_eval ep) (ep_attrs ep) (ep_status ep) (rq_websockets rq) (rq_header rq) r0 = Some (r, None)"
    by (auto simp: finish_endpoint_def split: if_splits option.splits prod.splits)
  have "client_response ep json rq beresps err = Some (Some r0, None)" using 5 6 r0(1) by simp
  note chosen = client_response_chosen[OF this]
  have "if ep_is_error_handler ep then True else err = None" using 4 by (auto simp: handleError_def split: if_splits)
  with r 1 2 3 chosen r0(2) show ?thesis by (simp only: served.case) blast
qed (auto split: served.split)

text \<open>A request block that gives no error got no response, or one with an expected status;
  an error of the backend that is not one of Couper's becomes \<open>unexpected_status\<close> together with such a
  response.\<close>

theorem expected_status_checked:
  "case roundtrip rtn (beresp, err, Some expected) of
     p \<Rightarrow> pd_beresp p = beresp \<and>
       (if (case err of None \<Rightarrow> False | Some e \<Rightarrow> is_couper e) then pd_err p = err
        else (case beresp of
           None \<Rightarrow> pd_err p = err
         | Some r \<Rightarrow> if expected = [] \<or> bs_status r \<in> set expected then pd_err p = err
                    else pd_err p = Some (err_With err (error_def ''unexpected_status''))))"
  by (simp add: roundtrip_def Let_def split: option.split)

text \<open>The request of a proxy never goes to the host that the client named; without a URL it
  keeps path and query of the client, and a URL without a query keeps the query.\<close>

theorem proxy_target_of_client:
  "case proxy_target parse attr wildcard t of
     Some (Inr u) \<Rightarrow>
       (case attr of
          None \<Rightarrow> u = t\<lparr>tg_host := []\<rparr>
        | Some (Inr (CString s)) \<Rightarrow>
            if s = [] then u = t\<lparr>tg_host := []\<rparr>
            else (case parse s of
               Inr v \<Rightarrow> tg_host u = tg_host v \<and> tg_scheme u = tg_scheme v \<and>
                        tg_query u = (if tg_query v = [] then tg_query t else tg_query v)
             | Inl e \<Rightarrow> False)
        | Some (Inr v) \<Rightarrow> u = t\<lparr>tg_host := []\<rparr> \<and> cty_type_of v = TNil
        | Some (Inl e) \<Rightarrow> False)
   | _ \<Rightarrow> True"
proof (cases attr)
  case None
  then show ?thesis by (auto simp: proxy_target_def NewURLFromAttribute_def removeHost_def then_do_def Let_def)
next
  case (Some a)
  show ?thesis
  proof (cases a)
    case (Inr v)
    show ?thesis
    proof (cases "\<exists>s. v = CString s")
      case True
      then obtain s where v: "v = CString s" by blast
      show ?thesis
      proof (cases "s = []")
        case True
        then show ?thesis using Some Inr v
          by (auto simp: proxy_target_def NewURLFromAttribute_def removeHost_def then_do_def Let_def)
      next
        case False
        then show ?thesis using Some Inr v
          by (cases "parse s")
            (auto simp: proxy_target_def NewURLFromAttribute_def removeHost_def then_do_def Let_def split: option.split)
      qed
    next
      case False
      then show ?thesis using Some Inr
        by (cases v; cases "cty_type_of v = TNil"; cases "cty_type_of v = TString")
          (auto simp: proxy_target_def NewURLFromAttribute_def removeHost_def then_do_def Let_def)
    qed
  qed (simp add: Some proxy_target_def NewURLFromAttribute_def then_do_def Let_def)
qed

text \<open>A panic in the modification of the response is logged and nothing is written; closing the
  compressor then sends the status 200 with an empty body, whatever the backend answered.\<close>

definition demo_endpoint :: endpoint where
  "demo_endpoint =
     \<lparr>ep_eval = \<lparr>ev_f64 = (\<lambda>r. r), ev_btext = (\<lambda>r. []), ev_order = (\<lambda>m. m)\<rparr>, ep_path = None,
      ep_attrs = Inr [''set_response_headers'' \<mapsto> Inr (CTuple [])], ep_status = None, ep_is_error_handler = False,
      ep_is_job = False, ep_error_handler = False, ep_redirect = False, ep_response = None, ep_net_error = (\<lambda>e. False),
      ep_panic_error = (\<lambda>e. False)\<rparr>"

definition demo_state :: request_state where
  "demo_state = \<lparr>rq_canceled = False, rq_error = None, rq_proxy = False, rq_websockets = False, rq_header = Map.empty, rq_hijacked = False\<rparr>"

definition demo_client_request :: bereq where
  "demo_client_request =
     \<lparr>req_method = ''GET'', req_host = [], req_path = ''/'', req_query = [], req_header = Map.empty,
      br_wildcard = None, br_form = None, br_body = None, br_length = 0\<rparr>"

lemma demo_request_kept:
  "\<exists>req1. ApplyRequestContext (ep_eval demo_endpoint) (ep_path demo_endpoint) (ep_attrs demo_endpoint) demo_client_request = Some (Inr req1)"
  by (auto simp: ApplyRequestContext_def demo_endpoint_def demo_client_request_def evalPathAttr_def request_header_names_def
      modify_query_def modify_params_def param_op_def then_do_def getFormParams_def Let_def)

lemma empty_list_of_headers_panics:
  "ApplyResponseContext (ep_eval demo_endpoint) (ep_attrs demo_endpoint) st ws h r = None"
  by (simp add: ApplyResponseContext_def ApplyResponseHeaderOps_def demo_endpoint_def response_header_names_def
      apply_header_op_def header_op_of_def SetHeader_def entries_def ValueToMap_def)

theorem panic_answered_with_200:
  "endpoint_ServeHTTP demo_endpoint json demo_state demo_client_request
       (\<lambda>req. ([''default'' \<mapsto> \<lparr>pd_beresp = Some r, pd_err = None, pd_name = ''default''\<rparr>], None)) = Aborted \<and>
   (case cl_sent (RecordHandler sc False (\<lambda>w. w) req_h (new_client h)) of
      None \<Rightarrow> False | Some (st, _) \<Rightarrow> st = 200) \<and>
   payload (cl_body (RecordHandler sc False (\<lambda>w. w) req_h (new_client h))) = []"
proof -
  obtain req1 where 1: "ApplyRequestContext (ep_eval demo_endpoint) (ep_path demo_endpoint) (ep_attrs demo_endpoint) demo_client_request = Some (Inr req1)"
    using demo_request_kept by blast
  have f: "\<not> rq_canceled demo_state" "\<not> rq_hijacked demo_state" "\<not> ep_redirect demo_endpoint" "\<not> ep_is_job demo_endpoint" "ep_response demo_endpoint = None"
    "\<not> ep_is_error_handler demo_endpoint"
    by (simp_all add: demo_state_def demo_endpoint_def)
  have "endpoint_ServeHTTP demo_endpoint json demo_state demo_client_request
       (\<lambda>req. ([''default'' \<mapsto> \<lparr>pd_beresp = Some r, pd_err = None, pd_name = ''default''\<rparr>], None)) = Aborted"
    unfolding endpoint_ServeHTTP_def 1
    by (simp add: f client_response_def handleError_def finish_endpoint_def empty_list_of_headers_panics)
  moreover
  let ?g = "NewGzipWriter (new_client h) req_h"
  have rw: "RecordHandler sc False (\<lambda>w. w) req_h (new_client h) = gz_rw (snd (gz_Close ?g))"
    by (simp add: RecordHandler_def NewResponseWriter_def Let_def)
  have "gz_status_inv 0 (h_values h ''Cache-Control'') ?g"
    by (simp add: gz_status_inv_def NewGzipWriter_def new_client_def minCompressBodyLength_def)
  from gz_status_Close[OF this] gz_Close_sees[OF NewGzipWriter_inv, of req_h h]
  have "(case cl_sent (gz_rw (snd (gz_Close ?g))) of None \<Rightarrow> False | Some (st, _) \<Rightarrow> st = 200)"
    "payload (cl_body (gz_rw (snd (gz_Close ?g)))) = []"
    by (auto simp: sent_status_def client_sees_def split: option.splits)
  ultimately show ?thesis unfolding rw by blast
qed

text \<open>\<open>websockets = false\<close> allows websockets, and the response to an upgrade request then panics: the
  writer is given the body of a websockets block that there is not.\<close>

theorem websockets_false_panics:
  "let px' = px\<lparr>px_allowWS := allowWebsockets (Some False) [], px_websockets := []\<rparr>;
       mods = registerWebsocketsResponse px' (px_allowWS px') h in
   if IsUpgradeRequest True h
   then applyModifiers (AddModifier mods (WithEvalContext ev (NewResponseWriter g sc))) h' = None
   else mods = []"
  by (simp add: allowWebsockets_def registerWebsocketsResponse_def getWebsocketsBody_def applyModifiers_def AddModifier_def
      WithEvalContext_def NewResponseWriter_def Let_def)

end
