(* ===== verification/Jwks.thy ===== *)
theory Jwks
  imports Durations HttpModel Errors Seetie "HOL-Library.Word"
begin

text \<open>
  Key sets that are fetched and kept up to date: the synchronisation of JSON documents
  (\<open>json/synced_json.go\<close>), keys and key sets (\<open>accesscontrol/jwk\<close>), and the OpenID configuration that
  names a key set (\<open>oauth2/oidc/config.go\<close>).

  The goroutine that synchronises is a step relation over the clock: time passes up to the first timer
  that is due, then one of the timers that are due is handled; fetching takes time. Texts of
  errors of other packages are arguments.
\<close>

section \<open>Synchronisation\<close>

datatype fetch_outcome = RoundTripFailed string | Responded int "string + string"

datatype 'd fetched = FetchFailed string | FetchedData "'d option" "string option"

definition sync_fetch :: "(string \<Rightarrow> 'd option \<times> string option) \<Rightarrow> string \<Rightarrow> fetch_outcome \<Rightarrow> 'd fetched" where
  "sync_fetch unmarshal uri answer =
     (case answer of
        RoundTripFailed e \<Rightarrow> FetchFailed e
      | Responded st body \<Rightarrow>
          if st \<noteq> 200 then FetchFailed (''status code '' @ itoa st)
          else (case body of
             Inl e \<Rightarrow> FetchFailed (''error reading response for '' @ [CHR 0x22] @ uri @ [CHR 0x22] @ '': '' @ e)
           | Inr raw \<Rightarrow> (case unmarshal raw of (d, e) \<Rightarrow> FetchedData d e)))"

record sync_conf =
  sc_ttl :: duration
  sc_maxStale :: duration

record 'd sync =
  sy_now :: int
  sy_data :: "'d option"
  sy_err :: "string option"
  sy_expired :: int
  sy_invalidated :: "int option"
  sy_backoff :: int

definition second :: int where
  "second = 1000000000"

definition minute :: int where
  "minute = 60 * second"

definition take_fetched :: "'d fetched \<Rightarrow> 'd sync \<Rightarrow> 'd sync" where
  "take_fetched f s =
     (case f of FetchFailed e \<Rightarrow> s\<lparr>sy_err := Some e\<rparr> | FetchedData d e \<Rightarrow> s\<lparr>sy_data := d, sy_err := e\<rparr>)"

text \<open>The start at the time \<open>t\<close> with a first fetch that takes the time \<open>d\<close>.\<close>

definition sync_start :: "sync_conf \<Rightarrow> int \<Rightarrow> int \<Rightarrow> 'd fetched \<Rightarrow> 'd sync" where
  "sync_start c t d f =
     (let s = take_fetched f \<lparr>sy_now = t + d, sy_data = None, sy_err = None, sy_expired = t + sc_ttl c,
                              sy_invalidated = None, sy_backoff = second\<rparr> in
      if sy_err s \<noteq> None then s\<lparr>sy_expired := sy_now s\<rparr> else s)"

definition fire_expired :: "sync_conf \<Rightarrow> int \<Rightarrow> 'd fetched \<Rightarrow> 'd sync \<Rightarrow> 'd sync" where
  "fire_expired c d f s0 =
     (let s = take_fetched f (s0\<lparr>sy_now := sy_now s0 + d\<rparr>) in
      if sy_err s \<noteq> None
      then s\<lparr>sy_invalidated := Some (sy_now s + sc_maxStale c), sy_expired := sy_now s + sy_backoff s,
             sy_backoff := (if sy_backoff s < minute then sy_backoff s * 2 else sy_backoff s)\<rparr>
      else s\<lparr>sy_expired := sy_now s + sc_ttl c, sy_backoff := second\<rparr>)"

definition fire_invalidated :: "'d sync \<Rightarrow> 'd sync" where
  "fire_invalidated s = s\<lparr>sy_data := None, sy_invalidated := None\<rparr>"

inductive sync_step :: "sync_conf \<Rightarrow> ('d fetched \<Rightarrow> bool) \<Rightarrow> 'd sync \<Rightarrow> 'd sync \<Rightarrow> bool" for c allowed where
  time_passes: "sy_now s \<le> t \<Longrightarrow> t \<le> sy_expired s \<Longrightarrow> (case sy_invalidated s of None \<Rightarrow> True | Some i \<Rightarrow> t \<le> i) \<Longrightarrow>
     sync_step c allowed s (s\<lparr>sy_now := t\<rparr>)"
| expires: "sy_expired s \<le> sy_now s \<Longrightarrow> allowed f \<Longrightarrow> 0 \<le> d \<Longrightarrow> sync_step c allowed s (fire_expired c d f s)"
| invalidates: "sy_invalidated s = Some i \<Longrightarrow> i \<le> sy_now s \<Longrightarrow> sync_step c allowed s (fire_invalidated s)"

inductive sync_reach :: "sync_conf \<Rightarrow> ('d fetched \<Rightarrow> bool) \<Rightarrow> 'd sync \<Rightarrow> 'd sync \<Rightarrow> bool" for c allowed s0 where
  sync_begin: "sync_reach c allowed s0 s0"
| sync_next: "sync_reach c allowed s0 s \<Longrightarrow> sync_step c allowed s s' \<Longrightarrow> sync_reach c allowed s0 s'"

definition sync_Data :: "'d sync \<Rightarrow> 'd option \<times> string option" where
  "sync_Data s = (sy_data s, sy_err s)"

section \<open>Keys\<close>

record 'k jwk =
  jk_Key :: "'k option"
  jk_KeyID :: string
  jk_KeyType :: string
  jk_Algorithm :: string
  jk_Use :: string

text \<open>The fields of a key; the bytes of a field that is there are decoded already. \<open>x5c\<close> may hold nulls.\<close>

record raw_jwk =
  rw_alg :: string
  rw_kid :: string
  rw_kty :: string
  rw_use :: string
  rw_e :: "string option"
  rw_n :: "string option"
  rw_x5c :: "string option list"
  rw_crv :: string
  rw_x :: "string option"
  rw_y :: "string option"

text \<open>\<open>big.Int.SetBytes\<close>, and \<open>int(Int64())\<close>, which keeps the low 64 bits.\<close>

definition toBigInt :: "string \<Rightarrow> nat" where
  "toBigInt bs = foldl (\<lambda>n b. n * 256 + of_char b) 0 bs"

definition toInt :: "string \<Rightarrow> int" where
  "toInt bs = sint (word_of_nat (toBigInt bs) :: 64 word)"

text \<open>\<open>RawURLEncoding.DecodeString\<close>: no padding, and a text of \<open>4 n + 1\<close> digits is an error.\<close>

definition url_digit :: "char \<Rightarrow> char" where
  "url_digit c = (if c = CHR ''-'' then CHR ''+'' else if c = CHR ''_'' then CHR ''/'' else c)"

definition raw_url_decode :: "string \<Rightarrow> string option" where
  "raw_url_decode s =
     (let digits = filter (\<lambda>c. c \<noteq> CHR 0x0A \<and> c \<noteq> CHR 0x0D) s in
      if list_ex (\<lambda>c. c = CHR ''+'' \<or> c = CHR ''/'' \<or> c = CHR ''='') digits then None
      else (let r = length digits mod 4 in
        if r = 1 then None
        else b64_decode (map url_digit digits @ (if r = 2 then ''=='' else if r = 3 then ''='' else []))))"

text \<open>The JSON value of an encoded field: an empty text leaves the field empty.\<close>

definition base64URLEncodedField :: "string \<Rightarrow> string option" where
  "base64URLEncodedField encoded = (if encoded = [] then Some [] else raw_url_decode encoded)"

definition base64EncodedField :: "string \<Rightarrow> string option" where
  "base64EncodedField encoded = (if encoded = [] then Some [] else b64_decode encoded)"

datatype curve = P256 | P384 | P521

definition getCurve :: "string \<Rightarrow> string + curve" where
  "getCurve name =
     (if name = ''P-256'' then Inr P256 else if name = ''P-384'' then Inr P384 else if name = ''P-521'' then Inr P521
      else Inl (''invalid crv: '' @ name))"

text \<open>What makes a key of its parts, and \<open>x509.ParseCertificate\<close>.\<close>

record 'k key_lib =
  kl_rsa :: "nat \<Rightarrow> int \<Rightarrow> 'k"
  kl_ec :: "curve \<Rightarrow> nat \<Rightarrow> nat \<Rightarrow> 'k"
  kl_certificate :: "string \<Rightarrow> string + 'k"

text \<open>\<open>None\<close> is the panic for a null in \<open>x5c\<close>.\<close>

definition getPublicKeyFromX5c :: "'k key_lib \<Rightarrow> string option list \<Rightarrow> (string + 'k option) option" where
  "getPublicKeyFromX5c lib x5c =
     (case x5c of
        [] \<Rightarrow> Some (Inr None)
      | None # _ \<Rightarrow> None
      | Some cert # _ \<Rightarrow> Some (map_sum id Some (kl_certificate lib cert)))"

definition empty_jwk :: "'k jwk" where
  "empty_jwk = \<lparr>jk_Key = None, jk_KeyID = [], jk_KeyType = [], jk_Algorithm = [], jk_Use = []\<rparr>"

definition jwk_of :: "raw_jwk \<Rightarrow> 'k \<Rightarrow> 'k jwk" where
  "jwk_of raw k = \<lparr>jk_Key = Some k, jk_KeyID = rw_kid raw, jk_KeyType = rw_kty raw, jk_Algorithm = rw_alg raw, jk_Use = rw_use raw\<rparr>"

text \<open>An invalid key leaves the empty one; \<open>raw\<close> is the result of decoding its JSON.\<close>

definition UnmarshalJSON :: "'k key_lib \<Rightarrow> string + raw_jwk \<Rightarrow> 'k jwk option" where
  "UnmarshalJSON lib parsed =
     (case parsed of
        Inl e \<Rightarrow> Some empty_jwk
      | Inr raw \<Rightarrow>
          if rw_kty raw = ''RSA'' then
            (case getPublicKeyFromX5c lib (rw_x5c raw) of
               None \<Rightarrow> None
             | Some (Inl e) \<Rightarrow> Some empty_jwk
             | Some (Inr (Some k)) \<Rightarrow> Some (jwk_of raw k)
             | Some (Inr None) \<Rightarrow>
                 (case (rw_n raw, rw_e raw) of
                    (Some n, Some e) \<Rightarrow> Some (jwk_of raw (kl_rsa lib (toBigInt n) (toInt e)))
                  | _ \<Rightarrow> Some empty_jwk))
          else if rw_kty raw = ''EC'' then
            (case getPublicKeyFromX5c lib (rw_x5c raw) of
               None \<Rightarrow> None
             | Some (Inl e) \<Rightarrow> Some empty_jwk
             | Some (Inr (Some k)) \<Rightarrow> Some (jwk_of raw k)
             | Some (Inr None) \<Rightarrow>
                 (case (getCurve (rw_crv raw), rw_x raw, rw_y raw) of
                    (Inr crv, Some x, Some y) \<Rightarrow> Some (jwk_of raw (kl_ec lib crv (toBigInt x) (toBigInt y)))
                  | _ \<Rightarrow> Some empty_jwk))
          else Some empty_jwk)"

section \<open>Key sets\<close>

definition alg2kty :: "string \<rightharpoonup> string" where
  "alg2kty = map_of [(''RS256'', ''RSA''), (''RS384'', ''RSA''), (''RS512'', ''RSA''), (''ES256'', ''EC''), (''ES384'', ''EC''), (''ES512'', ''EC'')]"

text \<open>The keys of a document, in which a key may be null. \<open>None\<close> is a panic.\<close>

type_synonym 'k jwks_data = "'k jwk option list"

fun keys_with_id :: "string \<Rightarrow> 'k jwks_data \<Rightarrow> 'k jwk list option" where
  "keys_with_id kid [] = Some []"
| "keys_with_id kid (None # ks) = None"
| "keys_with_id kid (Some k # ks) = map_option (\<lambda>r. if jk_KeyID k = kid then k # r else r) (keys_with_id kid ks)"

definition jwks_Data :: "'k jwks_data option \<times> string option \<Rightarrow> string + 'k jwks_data" where
  "jwks_Data state =
     (case fst state of
        Some ks \<Rightarrow> Inr ks
      | None \<Rightarrow> Inl (''received no valid JWKs data: <nil>, '' @ (case snd state of Some e \<Rightarrow> e | None \<Rightarrow> ''%!w(<nil>)'')))"

definition getKeys :: "'k jwks_data option \<times> string option \<Rightarrow> string \<Rightarrow> (string + 'k jwk list) option" where
  "getKeys state kid =
     (case jwks_Data state of
        Inl e \<Rightarrow> Some (Inl e)
      | Inr ks \<Rightarrow> if ks = [] then Some (Inl ''missing jwks key-data'') else map_option Inr (keys_with_id kid ks))"

definition key_matches :: "string \<Rightarrow> string \<Rightarrow> 'k jwk \<Rightarrow> bool" where
  "key_matches alg use k \<longleftrightarrow>
     jk_Use k = use \<and> (jk_Algorithm k = alg \<or> (jk_Algorithm k = [] \<and> alg2kty alg = Some (jk_KeyType k)))"

definition GetKey :: "'k jwks_data option \<times> string option \<Rightarrow> string \<Rightarrow> string \<Rightarrow> string \<Rightarrow> (string + 'k jwk option) option" where
  "GetKey state kid alg use = map_option (map_sum id (find (key_matches alg use))) (getKeys state kid)"

text \<open>The header of a token; a value that is null is as one that is missing.\<close>

definition header_value :: "(string \<rightharpoonup> goval) \<Rightarrow> string \<Rightarrow> goval option" where
  "header_value h k = (case h k of Some GNil \<Rightarrow> None | v \<Rightarrow> v)"

definition GetSigKeyForToken ::
    "'k jwks_data option \<times> string option \<Rightarrow> (string \<rightharpoonup> goval) \<Rightarrow> (string + 'k option) option" where
  "GetSigKeyForToken state h =
     (case header_value h ''alg'' of
        None \<Rightarrow> Some (Inl (''missing '' @ [CHR 0x22] @ ''alg'' @ [CHR 0x22] @ '' in JOSE header''))
      | Some a \<Rightarrow>
          (case (case header_value h ''kid'' of None \<Rightarrow> GString [] | Some i \<Rightarrow> i, a) of
             (GString kid, GString alg) \<Rightarrow>
               map_option (\<lambda>r. case r of
                   Inl e \<Rightarrow> Inl e
                 | Inr None \<Rightarrow> Inl (''no matching '' @ alg @ '' JWK for kid '' @ [CHR 0x22] @ kid @ [CHR 0x22])
                 | Inr (Some k) \<Rightarrow> Inr (jk_Key k)) (GetKey state kid alg ''sig'')
           | _ \<Rightarrow> None))"

text \<open>The settings of a key set: the file or the URI, and the durations.\<close>

datatype jwks_source = JwksFile string | JwksURI string

definition NewJWKS :: "string \<Rightarrow> string \<Rightarrow> string \<Rightarrow> (config_duration_error, string) sum + jwks_source \<times> sync_conf" where
  "NewJWKS uri ttl maxStale =
     (case ParseDuration ''jwks_ttl'' ttl (3600 * second) of
        Inl e \<Rightarrow> Inl (Inl e)
      | Inr timetolive \<Rightarrow>
         (case ParseDuration ''jwks_max_stale'' maxStale (3600 * second) of
            Inl e \<Rightarrow> Inl (Inl e)
          | Inr maxStaleTime \<Rightarrow>
             (let c = \<lparr>sc_ttl = timetolive, sc_maxStale = maxStaleTime\<rparr> in
              if has_prefix uri ''file:'' then Inr (JwksFile (drop 5 uri), c)
              else if \<not> has_prefix uri ''http:'' \<and> \<not> has_prefix uri ''https:''
              then Inl (Inr (''unsupported JWKS URI scheme: '' @ [CHR 0x22] @ uri @ [CHR 0x22]))
              else Inr (JwksURI uri, c))))"

section \<open>The OpenID configuration\<close>

record openid =
  oi_authorization :: string
  oi_challenges :: "string list"
  oi_issuer :: string
  oi_jwks_uri :: string
  oi_token :: string
  oi_userinfo :: string

record ('h, 'j) oidc_state =
  os_verifier :: string
  os_checksum :: 'h
  os_jwks :: "'j option"

definition supportsS256 :: "string list \<Rightarrow> bool" where
  "supportsS256 ms = (''S256'' \<in> set ms)"

text \<open>\<open>Config.Unmarshal\<close>: the data, the error, and what the configuration keeps. Parsing, the checksum
  and the key set of a URI are arguments.\<close>

definition oidc_Unmarshal ::
    "(string \<Rightarrow> string + openid) \<Rightarrow> (string \<Rightarrow> 'h) \<Rightarrow> (string \<Rightarrow> string + 'j) \<Rightarrow> string \<Rightarrow> ('h, 'j) oidc_state
       \<Rightarrow> (openid option \<times> string option) \<times> ('h, 'j) oidc_state" where
  "oidc_Unmarshal parse sha newJWKS raw s =
     (case parse raw of
        Inl e \<Rightarrow> ((None, Some e), s)
      | Inr d \<Rightarrow>
          if sha raw = os_checksum s then ((Some d, None), s)
          else (let s1 = s\<lparr>os_checksum := sha raw,
                           os_verifier := (if os_verifier s = [] then (if supportsS256 (oi_challenges d) then ''ccm_s256'' else ''nonce'')
                                           else os_verifier s)\<rparr> in
            (case newJWKS (oi_jwks_uri d) of
               Inl e \<Rightarrow> ((Some d, Some e), s1)
             | Inr j \<Rightarrow> ((Some d, None), s1\<lparr>os_jwks := Some j\<rparr>))))"

definition oidc_Data :: "openid option \<times> string option \<Rightarrow> string + openid" where
  "oidc_Data state =
     (case snd state of
        Some e \<Rightarrow> Inl e
      | None \<Rightarrow> (case fst state of None \<Rightarrow> Inl ''data not OpenID configuration data: <nil>'' | Some d \<Rightarrow> Inr d))"

definition GetVerifierMethod :: "openid option \<times> string option \<Rightarrow> ('h, 'j) oidc_state \<Rightarrow> string + string" where
  "GetVerifierMethod state s =
     (if os_verifier s = [] then (case oidc_Data state of Inl e \<Rightarrow> Inl e | Inr d \<Rightarrow> Inr (os_verifier s)) else Inr (os_verifier s))"

definition GetIssuer :: "openid option \<times> string option \<Rightarrow> string + string" where
  "GetIssuer state = map_sum id oi_issuer (oidc_Data state)"

definition GetTokenEndpoint :: "openid option \<times> string option \<Rightarrow> string + string" where
  "GetTokenEndpoint state = map_sum id oi_token (oidc_Data state)"

definition GetAuthorizationEndpoint :: "openid option \<times> string option \<Rightarrow> string + string" where
  "GetAuthorizationEndpoint state = map_sum id oi_authorization (oidc_Data state)"

definition GetUserinfoEndpoint :: "openid option \<times> string option \<Rightarrow> string + string" where
  "GetUserinfoEndpoint state = map_sum id oi_userinfo (oidc_Data state)"

section \<open>How long data is kept\<close>

definition backoffs :: "int list" where
  "backoffs = map (\<lambda>n. second * 2 ^ n) [0..<7]"

lemma backoffs_eq: "backoffs = [second, second * 2, second * 4, second * 8, second * 16, second * 32, second * 64]"
  by (simp add: backoffs_def upt_rec)

lemma backoff_next: "b \<in> set backoffs \<Longrightarrow> (if b < minute then b * 2 else b) \<in> set backoffs"
  unfolding backoffs_eq minute_def second_def by auto

lemma backoff_range: "b \<in> set backoffs \<Longrightarrow> second \<le> b \<and> b \<le> 64 * second"
  unfolding backoffs_eq second_def by auto

lemma take_fetched_frame [simp]:
  "sy_now (take_fetched f s) = sy_now s" "sy_expired (take_fetched f s) = sy_expired s"
  "sy_invalidated (take_fetched f s) = sy_invalidated s" "sy_backoff (take_fetched f s) = sy_backoff s"
  by (simp_all add: take_fetched_def split: fetched.split)

definition always_failing :: "'d fetched \<Rightarrow> bool" where
  "always_failing f = (case f of FetchFailed e \<Rightarrow> True | FetchedData d e \<Rightarrow> False)"

lemma failing_fetch:
  "always_failing f \<Longrightarrow> sy_data (take_fetched f s) = sy_data s \<and> sy_err (take_fetched f s) \<noteq> None"
  by (auto simp: always_failing_def take_fetched_def split: fetched.splits)

definition kept_inv :: "sync_conf \<Rightarrow> 'd option \<Rightarrow> 'd sync \<Rightarrow> bool" where
  "kept_inv c data s \<longleftrightarrow>
     sy_data s = data \<and> sy_backoff s \<in> set backoffs \<and>
     (case sy_invalidated s of None \<Rightarrow> True | Some i \<Rightarrow> sy_now s \<le> sy_expired s \<and> sy_expired s < i)"

lemma kept_step:
  assumes "sync_step c always_failing s s'" and "kept_inv c data s" and ms: "64 * second < sc_maxStale c"
  shows "kept_inv c data s'"
  using assms(1)
proof cases
  case (time_passes t)
  then show ?thesis using assms(2) by (auto simp: kept_inv_def split: option.splits)
next
  case (expires f d)
  let ?s = "take_fetched f (s\<lparr>sy_now := sy_now s + d\<rparr>)"
  have f: "sy_data ?s = sy_data s" "sy_err ?s \<noteq> None" using failing_fetch[OF expires(3)] by auto
  have b: "sy_backoff s \<in> set backoffs" "sy_data s = data" using assms(2) by (simp_all add: kept_inv_def)
  note r = backoff_range[OF b(1)]
  have "sy_backoff s < sc_maxStale c" "0 \<le> sy_backoff s" using r ms by (simp_all add: second_def)
  then show ?thesis using f b backoff_next[OF b(1)] unfolding expires(1)
    by (auto simp: fire_expired_def Let_def kept_inv_def)
next
  case (invalidates i)
  then show ?thesis using assms(2) by (simp add: kept_inv_def)
qed

text \<open>While every fetch fails, the stale data is never dropped if it may be stale for more
  than 64 seconds: each failure starts the time anew, and the next attempt comes earlier. So the
  setting does not bound the age of the data.\<close>

theorem max_stale_never_reached:
  assumes "sync_reach c always_failing (sync_start c t d (FetchedData (Some data) None)) s" and "64 * second < sc_maxStale c"
  shows "sy_data s = Some data"
proof -
  have "kept_inv c (Some data) s"
    using assms(1)
  proof induction
    case sync_begin
    show ?case by (simp add: kept_inv_def sync_start_def take_fetched_def Let_def backoffs_eq)
  next
    case (sync_next s s')
    then show ?case using kept_step assms(2) by blast
  qed
  then show ?thesis by (simp add: kept_inv_def)
qed

definition hour_conf :: sync_conf where
  "hour_conf = \<lparr>sc_ttl = 3600 * second, sc_maxStale = 3600 * second\<rparr>"

lemma max_stale_never_reached_witness:
  "sync_reach hour_conf always_failing (sync_start hour_conf 0 0 (FetchedData (Some (7 :: int)) None))
      (sync_start hour_conf 0 0 (FetchedData (Some 7) None)) \<and>
   sy_data (sync_start hour_conf 0 0 (FetchedData (Some (7 :: int)) None)) = Some 7"
proof -
  have r: "sync_reach hour_conf always_failing (sync_start hour_conf 0 0 (FetchedData (Some (7 :: int)) None))
      (sync_start hour_conf 0 0 (FetchedData (Some 7) None))" by (rule sync_begin)
  have "64 * second < sc_maxStale hour_conf" by (simp add: hour_conf_def second_def)
  from max_stale_never_reached[OF r this] r show ?thesis by blast
qed

text \<open>After a failed fetch the next one comes within 64 seconds.\<close>

definition retry_inv :: "'d sync \<Rightarrow> bool" where
  "retry_inv s \<longleftrightarrow>
     sy_backoff s \<in> set backoffs \<and> (if sy_err s \<noteq> None then sy_expired s \<le> sy_now s + 64 * second else True)"

lemma retry_step:
  assumes "sync_step c allowed s s'" and "retry_inv s"
  shows "retry_inv s'"
  using assms(1)
proof cases
  case (time_passes t)
  then show ?thesis using assms(2) by (auto simp: retry_inv_def)
next
  case (expires f d)
  have b: "sy_backoff s \<in> set backoffs" using assms(2) by (simp add: retry_inv_def)
  show ?thesis using backoff_range[OF b] backoff_next[OF b] unfolding expires(1)
    by (auto simp: fire_expired_def Let_def retry_inv_def backoffs_eq)
next
  case (invalidates i)
  then show ?thesis using assms(2) by (simp add: retry_inv_def fire_invalidated_def)
qed

lemma retried_within_64_seconds:
  assumes "sync_reach c allowed (sync_start c t d f) s"
  shows "retry_inv s"
  using assms
proof induction
  case sync_begin
  show ?case by (simp add: retry_inv_def sync_start_def Let_def backoffs_eq second_def)
next
  case (sync_next s s')
  then show ?case using retry_step by blast
qed

text \<open>The time after which data counts as too old is not stopped by a successful fetch.\<close>

definition day_conf :: sync_conf where
  "day_conf = \<lparr>sc_ttl = 24 * 3600 * second, sc_maxStale = 3600 * second\<rparr>"

definition refreshed :: "int sync" where
  "refreshed = fire_expired day_conf 0 (FetchedData (Some 8) None)
     ((fire_expired day_conf 0 (FetchFailed ''timeout'')
        ((sync_start day_conf 0 0 (FetchedData (Some 7) None))\<lparr>sy_now := 24 * 3600 * second\<rparr>))\<lparr>sy_now := (24 * 3600 + 1) * second\<rparr>)"

definition dropped :: "int sync" where
  "dropped = fire_invalidated (refreshed\<lparr>sy_now := 25 * 3600 * second\<rparr>)"

lemmas sync_steps = fire_expired_def fire_invalidated_def sync_start_def take_fetched_def day_conf_def second_def minute_def Let_def

lemma refreshed_reached:
  "sync_reach day_conf (\<lambda>f. True) (sync_start day_conf 0 0 (FetchedData (Some 7) None)) refreshed"
proof -
  let ?s0 = "sync_start day_conf 0 0 (FetchedData (Some (7 :: int)) None)"
  let ?s1 = "?s0\<lparr>sy_now := 24 * 3600 * second\<rparr>"
  let ?s2 = "fire_expired day_conf 0 (FetchFailed ''timeout'') ?s1"
  let ?s3 = "?s2\<lparr>sy_now := (24 * 3600 + 1) * second\<rparr>"
  have r0: "sync_reach day_conf (\<lambda>f. True) ?s0 ?s0" by (rule sync_begin)
  have "sync_step day_conf (\<lambda>f. True) ?s0 ?s1" by (rule time_passes) (simp_all add: sync_steps)
  from sync_next[OF r0 this] have r1: "sync_reach day_conf (\<lambda>f. True) ?s0 ?s1" .
  have "sync_step day_conf (\<lambda>f. True) ?s1 ?s2" by (rule expires) (simp_all add: sync_steps)
  from sync_next[OF r1 this] have r2: "sync_reach day_conf (\<lambda>f. True) ?s0 ?s2" .
  have "sync_step day_conf (\<lambda>f. True) ?s2 ?s3" by (rule time_passes) (simp_all add: sync_steps)
  from sync_next[OF r2 this] have r3: "sync_reach day_conf (\<lambda>f. True) ?s0 ?s3" .
  have "sync_step day_conf (\<lambda>f. True) ?s3 refreshed" unfolding refreshed_def by (rule expires) (simp_all add: sync_steps)
  from sync_next[OF r3 this] show ?thesis .
qed

text \<open>A failed fetch leaves its timer running after the next fetch succeeded. The timer then
  drops the fresh data, here 23 hours before the next fetch, and until then the data is missing
  without an error: a key set has no key for any token.\<close>

theorem fresh_data_dropped:
  "sync_reach day_conf (\<lambda>f. True) (sync_start day_conf 0 0 (FetchedData (Some 7) None)) dropped \<and>
   sync_Data refreshed = (Some 8, None) \<and> sync_Data dropped = (None, None) \<and>
   sy_invalidated dropped = None \<and> sy_expired dropped - sy_now dropped = (23 * 3600 + 1) * second \<and>
   GetKey (map_option (\<lambda>_. [Some k]) (sy_data dropped), sy_err dropped) kid alg use = Some (Inl ''received no valid JWKs data: <nil>, %!w(<nil>)'')"
proof -
  let ?t = "refreshed\<lparr>sy_now := 25 * 3600 * second\<rparr>"
  have "sync_step day_conf (\<lambda>f. True) refreshed ?t" by (rule time_passes) (simp_all add: refreshed_def sync_steps)
  from sync_next[OF refreshed_reached this]
  have r: "sync_reach day_conf (\<lambda>f. True) (sync_start day_conf 0 0 (FetchedData (Some 7) None)) ?t" .
  have "sync_step day_conf (\<lambda>f. True) ?t dropped" unfolding dropped_def
    by (rule invalidates[of _ "25 * 3600 * second"]) (simp_all add: refreshed_def sync_steps)
  from sync_next[OF r this] show ?thesis
    by (simp add: sync_Data_def dropped_def refreshed_def sync_steps GetKey_def getKeys_def jwks_Data_def)
qed

section \<open>Which key is used\<close>

lemma keys_with_id_some: "keys_with_id kid ks = Some r \<Longrightarrow> r = [k \<leftarrow> map the ks. jk_KeyID k = kid] \<and> None \<notin> set ks"
  by (induction kid ks arbitrary: r rule: keys_with_id.induct) (auto split: if_splits)

lemma keys_with_id_none: "keys_with_id kid ks = None \<longleftrightarrow> None \<in> set ks"
  by (induction kid ks rule: keys_with_id.induct) auto

text \<open>The key for a token is the first of the set with its id for signatures whose
  algorithm is that of the token, or that names none and has the key type of the algorithm; so a
  shared-secret algorithm never selects a key that names none.\<close>

theorem key_selection:
  "case GetKey (Some ks, err) kid alg use of
     None \<Rightarrow> None \<in> set ks
   | Some (Inl e) \<Rightarrow> ks = []
   | Some (Inr None) \<Rightarrow> list_all (\<lambda>k. if jk_KeyID k = kid then \<not> key_matches alg use k else True) (map the ks)
   | Some (Inr (Some k)) \<Rightarrow>
       Some k \<in> set ks \<and> jk_KeyID k = kid \<and> jk_Use k = use \<and>
       (if jk_Algorithm k = [] \<and> alg \<noteq> [] then alg2kty alg = Some (jk_KeyType k) \<and> \<not> has_prefix alg ''HS''
        else jk_Algorithm k = alg)"
proof (cases "ks = []")
  case True
  then show ?thesis by (simp add: GetKey_def getKeys_def jwks_Data_def)
next
  case ne: False
  show ?thesis
  proof (cases "keys_with_id kid ks")
    case None
    then show ?thesis using ne keys_with_id_none by (auto simp: GetKey_def getKeys_def jwks_Data_def)
  next
    case (Some r)
    note r = keys_with_id_some[OF Some]
    have get: "GetKey (Some ks, err) kid alg use = Some (Inr (find (key_matches alg use) r))"
      using Some ne by (simp add: GetKey_def getKeys_def jwks_Data_def)
    show ?thesis
    proof (cases "find (key_matches alg use) r")
      case None
      have "list_all (\<lambda>k. if jk_KeyID k = kid then \<not> key_matches alg use k else True) (map the ks)"
        using None r by (auto simp: find_None_iff list_all_iff)
      then show ?thesis unfolding get None by simp
    next
      case found: (Some k)
      then have k: "k \<in> set r" "key_matches alg use k" by (auto simp: find_Some_iff in_set_conv_nth)
      then obtain x where x: "x \<in> set ks" "k = the x" "jk_KeyID k = kid" using r by auto
      have "x \<noteq> None" using x(1) r by metis
      then have "x = Some k" using x(2) by simp
      then have mem: "Some k \<in> set ks" "jk_KeyID k = kid" using x by simp_all
      have hs: "alg2kty alg = Some t \<Longrightarrow> \<not> has_prefix alg ''HS''" for t
        by (auto simp: alg2kty_def has_prefix_def split: if_splits)
      show ?thesis unfolding get using found mem k(2) hs by (auto simp: key_matches_def)
    qed
  qed
qed

text \<open>Property C19: looking up the key of a token panics exactly if the \<open>alg\<close> of the token's header is
  there but no string, its \<open>kid\<close> is there but no string (both are chosen by the client), or the key
  set holds a null.\<close>

theorem key_lookup_panics_iff:
  "GetSigKeyForToken (Some ks, err) h = None \<longleftrightarrow>
     (case header_value h ''alg'' of
        None \<Rightarrow> False
      | Some a \<Rightarrow>
          (case a of GString alg \<Rightarrow>
             (case header_value h ''kid'' of
                None \<Rightarrow> None \<in> set ks | Some i \<Rightarrow> (case i of GString kid \<Rightarrow> None \<in> set ks | _ \<Rightarrow> True))
           | _ \<Rightarrow> True))"
proof -
  have g: "GetKey (Some ks, err) kid alg use = None \<longleftrightarrow> None \<in> set ks" for kid alg use
    using keys_with_id_none[of kid ks] by (auto simp: GetKey_def getKeys_def jwks_Data_def)
  show ?thesis by (auto simp: GetSigKeyForToken_def g split: option.splits goval.splits)
qed

text \<open>An ignored key is never selected for signatures.\<close>

lemma ignored_key_not_selected: "\<not> key_matches alg ''sig'' empty_jwk"
  by (simp add: key_matches_def empty_jwk_def)

text \<open>Decoding a key panics exactly if it is an RSA or EC key whose certificate chain begins
  with a null; the decoding runs in the goroutine of the synchronisation.\<close>

theorem key_decoding_panics_iff:
  "UnmarshalJSON lib parsed = None \<longleftrightarrow>
     (case parsed of
        Inl e \<Rightarrow> False
      | Inr raw \<Rightarrow> rw_kty raw \<in> {''RSA'', ''EC''} \<and> (case rw_x5c raw of None # _ \<Rightarrow> True | _ \<Rightarrow> False))"
proof (cases parsed)
  case (Inr raw)
  have "getPublicKeyFromX5c lib (rw_x5c raw) = None \<longleftrightarrow> (case rw_x5c raw of None # _ \<Rightarrow> True | _ \<Rightarrow> False)"
    by (auto simp: getPublicKeyFromX5c_def split: list.splits option.splits)
  then show ?thesis using Inr
    by (auto simp: UnmarshalJSON_def split: option.splits sum.splits)
qed (simp add: UnmarshalJSON_def)

section \<open>The OpenID configuration after errors\<close>

text \<open>A document whose key set cannot be made is an error the first time only: its checksum
  is kept before the key set is made, so the same document is accepted afterwards, without its key
  set.\<close>

theorem failed_key_set_forgotten:
  "case oidc_Unmarshal parse sha newJWKS raw s of
     ((d, e), s1) \<Rightarrow>
       (case parse raw of
          Inl x \<Rightarrow> s1 = s
        | Inr doc \<Rightarrow> fst (oidc_Unmarshal parse sha newJWKS raw s1) = (Some doc, None) \<and>
            os_jwks (snd (oidc_Unmarshal parse sha newJWKS raw s1)) = os_jwks s1 \<and>
            (if e \<noteq> None then os_jwks s1 = os_jwks s else True))"
  by (auto simp: oidc_Unmarshal_def Let_def split: sum.splits)

text \<open>Stale data of a configuration is not used: an error of the last fetch is the result.\<close>

lemma stale_configuration_not_used: "snd (sync_Data s) = Some e \<Longrightarrow> oidc_Data (sync_Data s) = Inl e"
  by (simp add: oidc_Data_def)

section \<open>Decoding\<close>

lemma toBigInt_snoc: "toBigInt (bs @ [b]) = toBigInt bs * 256 + of_char b"
  by (simp add: toBigInt_def)

lemma toBigInt_bound: "toBigInt bs < 256 ^ length bs"
proof (induction bs rule: rev_induct)
  case (snoc b bs)
  have b: "(of_char b :: nat) < 256" by simp
  have "(toBigInt bs + 1) * 256 \<le> 256 ^ length bs * 256" using snoc by (intro mult_right_mono) simp_all
  moreover have "toBigInt bs * 256 + of_char b < (toBigInt bs + 1) * 256" using b by simp
  ultimately have "toBigInt bs * 256 + of_char b < 256 ^ length bs * 256" by (rule less_le_trans[rotated])
  then show ?case by (simp add: toBigInt_snoc mult.commute)
qed (simp add: toBigInt_def)

text \<open>An exponent of less than 8 bytes is kept; a longer one can wrap around.\<close>

lemma small_exponent_kept:
  assumes "length bs < 8"
  shows "toInt bs = int (toBigInt bs)"
proof -
  have "toBigInt bs < 256 ^ length bs" by (rule toBigInt_bound)
  also have "\<dots> \<le> 256 ^ 7" using assms by (intro power_increasing) auto
  finally have "toBigInt bs < 2 ^ 56" by simp
  then show ?thesis
    by (simp add: toInt_def sint_uint unsigned_of_nat signed_take_bit_int_eq_self take_bit_nat_eq_self signed_of_nat)
qed

lemma long_exponent_wraps: "toInt [CHR 0x01, CHR 0x00, CHR 0x00, CHR 0x00, CHR 0x00, CHR 0x00, CHR 0x00, CHR 0x00, CHR 0x03] = 3"
  by (simp add: toInt_def toBigInt_def)

end
