(* ===== verification/Hosts.thy ===== *)
theory Hosts
  imports Mux Modifiers Buffer "HOL-Library.AList"
begin

text \<open>
  Hosts, ports and the choice of the server of a request: the hosts of the configuration
  (\<open>config/runtime/server.go\<close>, \<open>server_validation.go\<close>), the settings for forwarded headers
  (\<open>config/settings.go\<close>), and the HTTP server (\<open>server/http.go\<close>).

  The functions of the packages \<open>net\<close> and \<open>net/url\<close> for a host with a port are modelled first. A Go map
  is a list of entries in the order of its iteration, which is arbitrary. The listeners and the
  protocol belong to the standard library.
\<close>

section \<open>A host with a port\<close>

text \<open>The text in front of the last occurrence of a character and the text after it.\<close>

definition cut_last :: "char \<Rightarrow> string \<Rightarrow> (string \<times> string) option" where
  "cut_last c s =
     (if c \<in> set s
      then Some (rev (tl (dropWhile (\<lambda>x. x \<noteq> c) (rev s))), rev (takeWhile (\<lambda>x. x \<noteq> c) (rev s)))
      else None)"

datatype address_error = MissingPort | TooManyColons | MissingBracket | UnexpectedBracket

text \<open>\<open>net.SplitHostPort\<close>.\<close>

definition SplitHostPort :: "string \<Rightarrow> address_error + string \<times> string" where
  "SplitHostPort hostport =
     (case cut_last CHR '':'' hostport of
        None \<Rightarrow> Inl MissingPort
      | Some (front, port) \<Rightarrow>
          if has_prefix hostport ''[''
          then (case index_of CHR '']'' hostport of
             None \<Rightarrow> Inl MissingBracket
           | Some e \<Rightarrow>
               if e + 1 = length hostport then Inl MissingPort
               else if e + 1 = length front
               then (if CHR ''['' \<in> set (drop 1 hostport) \<or> CHR '']'' \<in> set (drop (e + 1) hostport)
                     then Inl UnexpectedBracket
                     else Inr (drop 1 (take e hostport), port))
               else if hostport ! (e + 1) = CHR '':'' then Inl TooManyColons
               else Inl MissingPort)
          else if CHR '':'' \<in> set front then Inl TooManyColons
          else if CHR ''['' \<in> set hostport \<or> CHR '']'' \<in> set hostport then Inl UnexpectedBracket
          else Inr (front, port))"

definition is_digit :: "char \<Rightarrow> bool" where
  "is_digit c \<longleftrightarrow> digit_value c \<noteq> None"

text \<open>\<open>Hostname\<close> and \<open>Port\<close> of a URL, with the common \<open>splitHostPort\<close> of \<open>net/url\<close>.\<close>

definition url_split_host_port :: "string \<Rightarrow> string \<times> string" where
  "url_split_host_port hp =
     (let (h, p) = (case cut_last CHR '':'' hp of
                      Some (front, port) \<Rightarrow> if list_all is_digit port then (front, port) else (hp, [])
                    | None \<Rightarrow> (hp, []))
      in (if has_prefix h ''['' \<and> has_suffix h '']'' then take (length h - 2) (drop 1 h) else h, p))"

definition url_Hostname :: "string \<Rightarrow> string" where
  "url_Hostname host = fst (url_split_host_port host)"

definition url_Port :: "string \<Rightarrow> string" where
  "url_Port host = snd (url_split_host_port host)"

section \<open>Hosts of the configuration\<close>

datatype host_error =
    HostsMandatory string
  | InvalidFormat string
  | AddressError address_error
  | PortError string
  | HostConflict string int

text \<open>\<open>strings.TrimRight(h, ".")\<close>.\<close>

definition trim_dots :: "string \<Rightarrow> string" where
  "trim_dots h = rev (dropWhile (\<lambda>c. c = CHR ''.'') (rev h))"

definition GetHostPort :: "string \<Rightarrow> host_error + string \<times> int" where
  "GetHostPort hostPort =
     (case SplitHostPort hostPort of
        Inl e \<Rightarrow> Inl (AddressError e)
      | Inr (h, p) \<Rightarrow>
          (let host = trim_dots h in
           if p = [] \<or> p = ''*'' then Inr (host, - 1)
           else (case go_atoi p of None \<Rightarrow> Inl (PortError p) | Some port \<Rightarrow> Inr (host, port))))"

definition host_char :: "char \<Rightarrow> bool" where
  "host_char c \<longleftrightarrow> is_digit c \<or> c = CHR ''.'' \<or> c = CHR ''-'' \<or> (let n = of_char c :: nat in 97 \<le> n \<and> n \<le> 122)"

text \<open>The regular expression \<open>^([a-z0-9.-]+|\*)(:\*|:\d{1,5})?$\<close>.\<close>

definition reValidFormat :: "string \<Rightarrow> bool" where
  "reValidFormat s =
     (let host = takeWhile (\<lambda>c. c \<noteq> CHR '':'') s; rest = drop (length host) s in
      (host = ''*'' \<or> (host \<noteq> [] \<and> list_all host_char host)) \<and>
      (rest = [] \<or> tl rest = ''*'' \<or> (tl rest \<noteq> [] \<and> length (tl rest) \<le> 5 \<and> list_all is_digit (tl rest))))"

definition validateHosts :: "string \<Rightarrow> string list \<Rightarrow> bool \<Rightarrow> host_error option" where
  "validateHosts serverName hosts isHostsMandatory =
     (if isHostsMandatory \<and> hosts = [] then Some (HostsMandatory serverName)
      else map_option InvalidFormat (find (\<lambda>host. \<not> reValidFormat host) hosts))"

text \<open>The keys of a \<open>Ports\<close> map; the options of a multiplexer are made when a server takes the host.\<close>

type_synonym ports = "(int \<times> string list) list"

definition add_port_host :: "int \<Rightarrow> string \<Rightarrow> ports \<Rightarrow> ports" where
  "add_port_host port host ports =
     (let hosts = (case map_of ports port of None \<Rightarrow> [] | Some hs \<Rightarrow> hs) in
      AList.update port (if host \<in> set hosts then hosts else hosts @ [host]) ports)"

definition add_host :: "int \<Rightarrow> string \<Rightarrow> ports \<Rightarrow> host_error + ports" where
  "add_host defaultPort hp0 ports =
     (let hp = (if CHR '':'' \<notin> set hp0 then hp0 @ '':'' @ itoa defaultPort else hp0) in
      case GetHostPort hp of
        Inl e \<Rightarrow> Inl e
      | Inr (host, port) \<Rightarrow> Inr (add_port_host (if port = - 1 then defaultPort else port) host ports))"

definition getPortsHostsList :: "string list \<Rightarrow> int \<Rightarrow> host_error + ports" where
  "getPortsHostsList hosts defaultPort =
     try_fold (add_host defaultPort) (if hosts = [] then [''*:'' @ itoa defaultPort] else hosts) []"

definition port_hosts :: "ports \<Rightarrow> (int \<times> string) list" where
  "port_hosts ports = concat (map (\<lambda>(port, hosts). map (Pair port) hosts) ports)"

text \<open>The hosts of each port, with what belongs to a host.\<close>

type_synonym 'm configuration = "(int \<times> (string \<times> 'm) list) list"

definition conf_lookup :: "'m configuration \<Rightarrow> int \<Rightarrow> string \<Rightarrow> 'm option" where
  "conf_lookup conf port host = Option.bind (map_of conf port) (\<lambda>hosts. map_of hosts host)"

definition conf_set :: "int \<Rightarrow> string \<Rightarrow> 'm \<Rightarrow> 'm configuration \<Rightarrow> 'm configuration" where
  "conf_set port host mo conf =
     AList.update port (AList.update host mo (case map_of conf port of None \<Rightarrow> [] | Some hs \<Rightarrow> hs)) conf"

definition claim_host :: "'m \<Rightarrow> int \<times> string \<Rightarrow> 'm configuration \<Rightarrow> host_error + 'm configuration" where
  "claim_host fresh = (\<lambda>(port, host) conf.
     case conf_lookup conf port host of
       Some mo \<Rightarrow> Inl (HostConflict host port)
     | None \<Rightarrow> Inr (conf_set port host fresh conf))"

definition claim_hosts :: "'m \<Rightarrow> ports \<Rightarrow> 'm configuration \<Rightarrow> host_error + 'm configuration" where
  "claim_hosts fresh ports conf = try_fold (claim_host fresh) (port_hosts ports) conf"

definition NewMuxOptions :: "server_options \<Rightarrow> mux_options" where
  "NewMuxOptions so = \<lparr>mo_endpoints = [], mo_files = [], mo_spas = [], mo_server = so\<rparr>"

section \<open>Settings\<close>

definition list_Set :: "string list \<Rightarrow> string \<Rightarrow> string list" where
  "list_Set s val = (if length s > 0 then [] else s) @ split_on CHR '','' val"

record accept_forwarded =
  acc_port :: bool
  acc_protocol :: bool
  acc_host :: bool

text \<open>\<open>Set\<close> with the receiver it leaves; what was set before an invalid name stays set.\<close>

fun accept_parts :: "string list \<Rightarrow> accept_forwarded \<Rightarrow> accept_forwarded \<times> string option" where
  "accept_parts [] a = (a, None)"
| "accept_parts (part # parts) a =
     (let p = trim_space part in
      if p = [] then accept_parts parts a
      else if p = ''port'' then accept_parts parts (a\<lparr>acc_port := True\<rparr>)
      else if p = ''proto'' then accept_parts parts (a\<lparr>acc_protocol := True\<rparr>)
      else if p = ''host'' then accept_parts parts (a\<lparr>acc_host := True\<rparr>)
      else (a, Some (''invalid X-Forwarded-* name ('' @ part @ '')'')))"

definition accept_Set :: "string list \<Rightarrow> accept_forwarded \<Rightarrow> accept_forwarded \<times> string option" where
  "accept_Set forwarded a =
     accept_parts forwarded
       (if length forwarded > 0 then \<lparr>acc_port = False, acc_protocol = False, acc_host = False\<rparr> else a)"

section \<open>The HTTP server\<close>

record http_server =
  hs_muxers :: "(string \<times> mux) list"
  hs_port :: string
  hs_xfh :: bool
  hs_accept :: accept_forwarded

text \<open>The multiplexers of \<open>New\<close>, each with the health check and the configured routes.\<close>

definition new_muxers :: "string \<Rightarrow> (string \<times> mux_options) list \<Rightarrow> (string \<times> mux) list" where
  "new_muxers healthPath hosts =
     map (\<lambda>(host, muxOpts).
       (host, let m = NewMux muxOpts in
          RegisterConfigured (m\<lparr>mx_endpoint := registerHandler (mx_endpoint m) [''GET''] healthPath (PlainHandler ''health'')\<rparr>)))
       hosts"

definition NewServer :: "string \<Rightarrow> bool \<Rightarrow> accept_forwarded \<Rightarrow> int \<Rightarrow> (string \<times> mux_options) list \<Rightarrow> http_server" where
  "NewServer healthPath xfh accept p hosts =
     \<lparr>hs_muxers = new_muxers healthPath hosts, hs_port = itoa p, hs_xfh = xfh, hs_accept = accept\<rparr>"

text \<open>\<open>Listen\<close>: the addresses in the order of the map; a failure leaves the listeners before it open.\<close>

fun Listen :: "(string \<Rightarrow> string \<Rightarrow> 'e + 'l) \<Rightarrow> string \<Rightarrow> (string \<times> string) list \<Rightarrow> 'l list \<Rightarrow> 'l list \<times> 'e option" where
  "Listen net_listen srvAddr [] listeners = (listeners, None)"
| "Listen net_listen srvAddr ((addr, tcpType) # as) listeners =
     (case net_listen tcpType (if addr = [] then srvAddr else addr) of
        Inl e \<Rightarrow> (listeners, Some e)
      | Inr l \<Rightarrow> Listen net_listen srvAddr as (listeners @ [l]))"

definition CloseServer :: "('l \<Rightarrow> 'e option) \<Rightarrow> 'l list \<Rightarrow> 'e option" where
  "CloseServer close_listener listeners =
     fold (\<lambda>l err. let e = close_listener l in if err = None then e else err) listeners None"

definition cleanHostAppendPort :: "http_server \<Rightarrow> string \<Rightarrow> string" where
  "cleanHostAppendPort s host = trim_suffix host ''.'' @ '':'' @ hs_port s"

definition getHost :: "http_server \<Rightarrow> 'a request_scheme \<Rightarrow> string" where
  "getHost s req =
     (let xfh = h_get (req_header req) ''X-Forwarded-Host'';
          host = to_lower (if hs_xfh s \<and> xfh \<noteq> [] then xfh else req_host req) in
      if CHR '':'' \<notin> set host then cleanHostAppendPort s host
      else (case SplitHostPort host of
              Inl e \<Rightarrow> cleanHostAppendPort s host
            | Inr (h, p) \<Rightarrow> cleanHostAppendPort s h))"

text \<open>The multiplexer for a host, or the error with which the request is answered.\<close>

definition select_mux :: "http_server \<Rightarrow> string \<Rightarrow> go_error + mux" where
  "select_mux s reqHost =
     (case GetHostPort reqHost of
        Inl e \<Rightarrow> Inl E_ClientRequest
      | Inr (host, port) \<Rightarrow>
          (case map_of (hs_muxers s) host of
             Some m \<Rightarrow> Inr m
           | None \<Rightarrow> (case map_of (hs_muxers s) ''*'' of Some m \<Rightarrow> Inr m | None \<Rightarrow> Inl E_Configuration)))"

definition forwarded_proto :: "accept_forwarded \<Rightarrow> header \<Rightarrow> string \<times> string \<Rightarrow> string \<times> string" where
  "forwarded_proto acc h = (\<lambda>(scheme, host).
     let xfpr = h_get h ''X-Forwarded-Proto'' in
     if acc_protocol acc \<and> xfpr \<noteq> [] then (xfpr, url_Hostname host) else (scheme, host))"

definition forwarded_host :: "accept_forwarded \<Rightarrow> header \<Rightarrow> string \<times> string \<Rightarrow> string \<times> string" where
  "forwarded_host acc h = (\<lambda>(scheme, host).
     let xfh = h_get h ''X-Forwarded-Host''; portToAppend = url_Port host in
     if acc_host acc \<and> xfh \<noteq> []
     then (scheme, if portToAppend \<noteq> [] \<and> url_Port xfh = [] then xfh @ '':'' @ portToAppend else xfh)
     else (scheme, host))"

definition forwarded_port :: "accept_forwarded \<Rightarrow> header \<Rightarrow> string \<times> string \<Rightarrow> string \<times> string" where
  "forwarded_port acc h = (\<lambda>(scheme, host).
     let xfpo = h_get h ''X-Forwarded-Port'' in
     if acc_port acc \<and> xfpo \<noteq> [] then (scheme, url_Hostname host @ '':'' @ xfpo) else (scheme, host))"

datatype http_handler = ErrorPage string go_error | FoundHandler found

record served =
  sv_handler :: http_handler
  sv_request :: bereq
  sv_match :: "match_context option"
  sv_url :: "string \<times> string"
  sv_buffer :: buffer_option
  sv_xff :: string

text \<open>\<open>setGetBody\<close>: \<open>limits\<close> gives the buffer options and the limit of a handler with a body limit.\<close>

definition setGetBody ::
    "(int \<Rightarrow> string) \<Rightarrow> (mux_handler \<Rightarrow> (buffer_option \<times> int) option) \<Rightarrow> http_handler \<Rightarrow> string option \<Rightarrow> bereq
       \<Rightarrow> buffer_option \<times> (go_error + bereq)" where
  "setGetBody human limits h body req =
     (case h of
        FoundHandler (Found mh) \<Rightarrow>
          (case limits (getChildHandler mh) of
             None \<Rightarrow> (BufNone, Inr req)
           | Some (opt, limit) \<Rightarrow> (opt, SetGetBody human (opt_Request opt) limit body req))
      | _ \<Rightarrow> (BufNone, Inr req))"

definition ServeHTTP ::
    "matching \<Rightarrow> (string \<Rightarrow> request \<Rightarrow> bool) \<Rightarrow> (int \<Rightarrow> string) \<Rightarrow> (mux_handler \<Rightarrow> (buffer_option \<times> int) option)
       \<Rightarrow> http_server \<Rightarrow> bool \<Rightarrow> string option \<Rightarrow> bereq \<Rightarrow> served" where
  "ServeHTTP matches has_response human limits s tls body req0 =
     (let req = req0\<lparr>req_host := getHost s req0\<rparr>;
          chosen = select_mux s (req_host req);
          (h, ctx) = (case chosen of
             Inl e \<Rightarrow> (ErrorPage ''DefaultHTML'' e, None)
           | Inr m \<Rightarrow> (case FindHandler matches has_response m (request.truncate req) of (f, ctx) \<Rightarrow> (FoundHandler f, ctx)));
          (opt, res) = setGetBody human limits h body req;
          h' = (case (res, chosen) of
             (Inl err, Inr m) \<Rightarrow> ErrorPage (so_server_tpl (mo_server (mx_opts m))) err
           | _ \<Rightarrow> h);
          req' = (case res of Inl err \<Rightarrow> req | Inr r \<Rightarrow> r);
          acc = hs_accept s; hdr = req_header req
      in \<lparr>sv_handler = h', sv_request = req', sv_match = ctx,
          sv_url = forwarded_port acc hdr (forwarded_host acc hdr (forwarded_proto acc hdr
                     (if tls then ''https'' else ''http'', req_host req))),
          sv_buffer = opt, sv_xff = h_get hdr ''X-Forwarded-For''\<rparr>)"

section \<open>Hosts with a port\<close>

lemma cut_last_append: "c \<notin> set p \<Longrightarrow> cut_last c (f @ c # p) = Some (f, p)"
proof -
  assume c: "c \<notin> set p"
  then have t: "takeWhile (\<lambda>x. x \<noteq> c) (rev p @ c # rev f) = rev p"
    and d: "dropWhile (\<lambda>x. x \<noteq> c) (rev p @ c # rev f) = c # rev f"
    by (auto simp: takeWhile_append dropWhile_append intro!: takeWhile_eq_all_conv[THEN iffD2])
  show ?thesis by (simp add: cut_last_def t d)
qed

lemma cut_last_None: "c \<notin> set s \<Longrightarrow> cut_last c s = None"
  by (simp add: cut_last_def)

definition plain_text :: "string \<Rightarrow> bool" where
  "plain_text h \<longleftrightarrow> list_all (\<lambda>c. c \<notin> set '':[]'') h"

lemma plain_text_set: "plain_text h \<Longrightarrow> CHR '':'' \<notin> set h \<and> CHR ''['' \<notin> set h \<and> CHR '']'' \<notin> set h"
  by (auto simp: plain_text_def list_all_iff)

lemma plain_text_prefix: "plain_text h \<Longrightarrow> \<not> has_prefix (h @ '':'' @ p) ''[''"
  by (cases h) (auto simp: plain_text_def has_prefix_def)

lemma SplitHostPort_plain:
  assumes "plain_text h" "plain_text p"
  shows "SplitHostPort (h @ '':'' @ p) = Inr (h, p)"
  using plain_text_set[OF assms(1)] plain_text_set[OF assms(2)] plain_text_prefix[OF assms(1), of p]
  by (simp add: SplitHostPort_def cut_last_append)

lemma digit_char_value: "n < 10 \<Longrightarrow> digit_value (digit_char n) = Some (int n)"
proof -
  assume n: "n < 10"
  have "(of_char (digit_char n) :: int) = int (of_char (char_of (48 + n)))"
    by (simp only: digit_char_def of_nat_of_char)
  then have "(of_char (digit_char n) :: int) = int (48 + n)" using n by simp
  then show ?thesis using n by (simp add: digit_value_def Let_def)
qed

lemma digit_char_is_digit: "n < 10 \<Longrightarrow> is_digit (digit_char n)"
  by (simp add: is_digit_def digit_char_value)

lemma digits_value_append:
  "digits_value acc (s @ t) = Option.bind (digits_value acc s) (\<lambda>n. digits_value n t)"
  by (induction acc s rule: digits_value.induct) (auto split: option.splits)

lemma digits_value_nat_text: "digits_value 0 (nat_text n) = Some (int n)"
proof (induction n rule: nat_text.induct)
  case (1 n)
  show ?case
  proof (cases "n < 10")
    case True
    then show ?thesis by (simp add: nat_text.simps[of n] digit_char_value)
  next
    case False
    with 1 show ?thesis
      by (simp add: nat_text.simps[of n] digits_value_append digit_char_value)
        presburger
  qed
qed

lemma nat_text_digits: "list_all is_digit (nat_text n) \<and> nat_text n \<noteq> []"
proof (induction n rule: nat_text.induct)
  case (1 n)
  then show ?case
    by (subst (1 2) nat_text.simps) (auto simp: digit_char_is_digit)
qed

lemma digit_plain: "is_digit c \<Longrightarrow> c \<notin> set '':[]*-+''"
  by (auto simp: is_digit_def digit_value_def)

lemma digits_plain: "list_all is_digit p \<Longrightarrow> plain_text p \<and> p \<noteq> ''*'' \<and> (p \<noteq> [] \<longrightarrow> hd p \<noteq> CHR ''-'' \<and> hd p \<noteq> CHR ''+'')"
  using digit_plain by (cases p) (auto simp: plain_text_def list_all_iff)

lemma go_atoi_digits:
  assumes "list_all is_digit p" "p \<noteq> []"
  shows "go_atoi p = Option.bind (digits_value 0 p) (\<lambda>n. if n \<le> max_int64 then Some n else None)"
  using assms digits_plain[OF assms(1)] by (simp add: go_atoi_def Let_def bind_split_asm split: option.splits)

lemma go_atoi_itoa: "0 \<le> i \<Longrightarrow> i \<le> max_int64 \<Longrightarrow> go_atoi (itoa i) = Some i"
  using nat_text_digits[of "nat i"] by (simp add: itoa_def go_atoi_digits digits_value_nat_text)

lemma itoa_digits: "0 \<le> i \<Longrightarrow> list_all is_digit (itoa i) \<and> itoa i \<noteq> []"
  using nat_text_digits by (simp add: itoa_def)

lemma digits_value_bound:
  "list_all is_digit p \<Longrightarrow> 0 \<le> acc \<Longrightarrow> \<exists>n. digits_value acc p = Some n \<and> 0 \<le> n \<and> n < (acc + 1) * 10 ^ length p"
proof (induction p arbitrary: acc)
  case (Cons c p)
  from Cons.prems obtain d where d: "digit_value c = Some d" "0 \<le> d" "d < 10"
    by (auto simp: is_digit_def digit_value_def Let_def split: if_splits)
  from Cons.IH[of "acc * 10 + d"] Cons.prems d obtain n where
    n: "digits_value (acc * 10 + d) p = Some n" "0 \<le> n" "n < (acc * 10 + d + 1) * 10 ^ length p" by auto
  have "(acc * 10 + d + 1) * 10 ^ length p \<le> (acc * 10 + 10) * (10 :: int) ^ length p"
    using d by (intro mult_right_mono) auto
  with n(3) have "n < (acc * 10 + 10) * 10 ^ length p" by (rule less_le_trans)
  then have "n < (acc + 1) * 10 ^ length (c # p)" by (simp add: algebra_simps)
  with n d show ?case by simp
qed auto

lemma go_atoi_short:
  assumes "list_all is_digit p" "p \<noteq> []" "length p \<le> 5"
  shows "\<exists>n. go_atoi p = Some n \<and> 0 \<le> n"
proof -
  obtain n where n: "digits_value 0 p = Some n" "0 \<le> n" "n < 1 * 10 ^ length p"
    using digits_value_bound[OF assms(1), of 0] by auto
  have "(10 :: int) ^ length p \<le> 10 ^ 5" using assms(3) by (intro power_increasing) auto
  with n have "n \<le> max_int64" by (simp add: max_int64_def)
  with n show ?thesis by (simp add: go_atoi_digits[OF assms(1,2)])
qed

section \<open>The hosts of a server\<close>

text \<open>What an entry of \<open>hosts\<close> stands for: a host without trailing dots, and a port.\<close>

definition entry_host :: "string \<Rightarrow> string" where
  "entry_host hp = trim_dots (takeWhile (\<lambda>c. c \<noteq> CHR '':'') hp)"

definition entry_port :: "int \<Rightarrow> string \<Rightarrow> int" where
  "entry_port defaultPort hp =
     (let p = tl (dropWhile (\<lambda>c. c \<noteq> CHR '':'') hp) in if p = [] \<or> p = ''*'' then defaultPort else the (go_atoi p))"

lemma host_char_plain: "host_char c \<Longrightarrow> c \<notin> set '':[]''"
  using digit_plain by (auto simp: host_char_def)

lemma valid_host_plain: "h = ''*'' \<or> list_all host_char h \<Longrightarrow> plain_text h"
  using host_char_plain by (auto simp: plain_text_def list_all_iff)

lemma add_host_valid:
  assumes "reValidFormat hp" "0 \<le> d" "d \<le> max_int64"
  shows "add_host d hp ports = Inr (add_port_host (entry_port d hp) (entry_host hp) ports)"
proof -
  define h where "h = takeWhile (\<lambda>c. c \<noteq> CHR '':'') hp"
  define rest where "rest = dropWhile (\<lambda>c. c \<noteq> CHR '':'') hp"
  have hp: "hp = h @ rest" by (simp add: h_def rest_def)
  have rest_drop: "drop (length h) hp = rest" by (simp add: hp)
  from assms(1) have h: "plain_text h"
    using valid_host_plain[of h] by (auto simp: reValidFormat_def Let_def h_def)
  have colon: "CHR '':'' \<notin> set h" using plain_text_set[OF h] by blast
  from assms(1) rest_drop have r: "rest = [] \<or> tl rest = ''*'' \<or>
      (tl rest \<noteq> [] \<and> length (tl rest) \<le> 5 \<and> list_all is_digit (tl rest))"
    unfolding reValidFormat_def Let_def h_def[symmetric] by (simp add: rest_drop)
  show ?thesis
  proof (cases "rest = []")
    case True
    then have hp': "hp = h" using hp by simp
    have it: "list_all is_digit (itoa d) \<and> itoa d \<noteq> []" using itoa_digits assms(2) by blast
    have "SplitHostPort (h @ '':'' @ itoa d) = Inr (h, itoa d)"
      by (rule SplitHostPort_plain[OF h]) (use it digits_plain in blast)
    then have g: "GetHostPort (h @ '':'' @ itoa d) = Inr (trim_dots h, d)"
      using it digits_plain[of "itoa d"] go_atoi_itoa[OF assms(2,3)] by (simp add: GetHostPort_def)
    have eh: "entry_host hp = trim_dots h" by (simp add: entry_host_def h_def)
    have ep: "entry_port d hp = d" using True by (simp add: entry_port_def flip: rest_def)
    show ?thesis
      unfolding eh ep unfolding add_host_def hp' Let_def if_P[OF colon] g using assms(2) by simp
  next
    case False
    then obtain p where rp: "rest = CHR '':'' # p"
      using hd_dropWhile[of "\<lambda>c. c \<noteq> CHR '':''" hp] unfolding rest_def[symmetric] by (cases rest) auto
    have tk: "takeWhile (\<lambda>c. c \<noteq> CHR '':'') hp = h" "dropWhile (\<lambda>c. c \<noteq> CHR '':'') hp = CHR '':'' # p"
      using rp unfolding h_def rest_def by simp_all
    from r rp have p: "p = ''*'' \<or> (p \<noteq> [] \<and> length p \<le> 5 \<and> list_all is_digit p)" by simp
    then have plain: "plain_text p" using digits_plain by (auto simp: plain_text_def)
    have split: "SplitHostPort (h @ '':'' @ p) = Inr (h, p)" by (rule SplitHostPort_plain[OF h plain])
    have eh: "entry_host hp = trim_dots h" by (simp add: entry_host_def h_def)
    have ep: "entry_port d hp = (if p = [] \<or> p = ''*'' then d else the (go_atoi p))"
      unfolding entry_port_def Let_def tk by simp
    have hp2: "hp = h @ '':'' @ p" using hp rp by simp
    then have c: "\<not> CHR '':'' \<notin> set hp" by simp
    show ?thesis
    proof (cases "p = ''*''")
      case True
      then show ?thesis
        using split unfolding eh ep add_host_def Let_def if_not_P[OF c] unfolding hp2 by (simp add: GetHostPort_def)
    next
      case False
      with p obtain n where n: "go_atoi p = Some n" "0 \<le> n" using go_atoi_short by blast
      with False p split show ?thesis
        unfolding eh ep add_host_def Let_def if_not_P[OF c] unfolding hp2 by (auto simp: GetHostPort_def)
    qed
  qed
qed

text \<open>A map of ports, and its entries as pairs.\<close>

definition has_port_host :: "ports \<Rightarrow> int \<times> string \<Rightarrow> bool" where
  "has_port_host ports ph \<longleftrightarrow> (case map_of ports (fst ph) of None \<Rightarrow> False | Some hs \<Rightarrow> snd ph \<in> set hs)"

definition ports_ok :: "ports \<Rightarrow> bool" where
  "ports_ok ports \<longleftrightarrow> distinct (map fst ports) \<and> list_all (\<lambda>(port, hosts). distinct hosts) ports"

lemma has_add_port_host: "has_port_host (add_port_host port host ports) ph \<longleftrightarrow> ph = (port, host) \<or> has_port_host ports ph"
  by (cases ph) (auto simp: has_port_host_def add_port_host_def Let_def update_conv' split: option.splits)

lemma set_port_hosts: "ports_ok ports \<Longrightarrow> ph \<in> set (port_hosts ports) \<longleftrightarrow> has_port_host ports ph"
proof -
  assume ok: "ports_ok ports"
  obtain p h where ph: "ph = (p, h)" by (cases ph)
  have "ph \<in> set (port_hosts ports) \<longleftrightarrow> (\<exists>hs. (p, hs) \<in> set ports \<and> h \<in> set hs)"
    by (auto simp: port_hosts_def ph)
  also have "\<dots> \<longleftrightarrow> (\<exists>hs. map_of ports p = Some hs \<and> h \<in> set hs)"
    using ok by (simp add: ports_ok_def map_of_eq_Some_iff)
  finally show ?thesis by (auto simp: has_port_host_def ph split: option.splits)
qed

lemma list_all_update:
  "list_all P ports \<Longrightarrow> P (k, v) \<Longrightarrow> list_all P (AList.update k v ports)"
  by (induction ports) auto

lemma ports_ok_add: "ports_ok ports \<Longrightarrow> ports_ok (add_port_host port host ports)"
proof -
  assume ok: "ports_ok ports"
  have "distinct hs" if "map_of ports port = Some hs" for hs
    using ok map_of_SomeD[OF that] by (auto simp: ports_ok_def list_all_iff)
  then show ?thesis
    using ok by (auto simp: ports_ok_def add_port_host_def Let_def distinct_update intro!: list_all_update split: option.splits)
qed

lemma distinct_port_hosts: "ports_ok ports \<Longrightarrow> distinct (port_hosts ports)"
proof (induction ports)
  case (Cons e ports)
  then show ?case
    by (cases e) (auto simp: ports_ok_def port_hosts_def distinct_map inj_on_def, metis fst_conv image_eqI)
qed (simp add: port_hosts_def)

definition valid_hosts :: "string list \<Rightarrow> bool" where
  "valid_hosts hosts \<longleftrightarrow> list_all reValidFormat hosts"

lemma validateHosts_iff: "validateHosts n hosts m = None \<longleftrightarrow> valid_hosts hosts \<and> \<not> (m \<and> hosts = [])"
  by (auto simp: validateHosts_def valid_hosts_def find_None_iff list_all_iff)

lemma add_hosts_valid:
  assumes "valid_hosts hosts" "0 \<le> d" "d \<le> max_int64" "ports_ok ports"
  shows "\<exists>ports'. try_fold (add_host d) hosts ports = Inr ports' \<and> ports_ok ports' \<and>
     (\<forall>ph. has_port_host ports' ph \<longleftrightarrow> has_port_host ports ph \<or> ph \<in> (\<lambda>hp. (entry_port d hp, entry_host hp)) ` set hosts)"
  using assms
proof (induction hosts arbitrary: ports)
  case (Cons hp hosts)
  let ?ports = "add_port_host (entry_port d hp) (entry_host hp) ports"
  from Cons.prems have "reValidFormat hp" "valid_hosts hosts" by (simp_all add: valid_hosts_def)
  with Cons.IH[of ?ports] Cons.prems ports_ok_add show ?case
    by (auto simp: add_host_valid has_add_port_host)
qed simp

definition entries_of :: "int \<Rightarrow> string list \<Rightarrow> (int \<times> string) set" where
  "entries_of d hosts = (if hosts = [] then {(d, ''*'')} else (\<lambda>hp. (entry_port d hp, entry_host hp)) ` set hosts)"

lemma default_entry:
  assumes "0 \<le> d" "d \<le> max_int64"
  shows "add_host d (''*:'' @ itoa d) ports = Inr (add_port_host d ''*'' ports)"
proof -
  have it: "list_all is_digit (itoa d) \<and> itoa d \<noteq> []" using itoa_digits assms(1) by blast
  have "SplitHostPort (''*'' @ '':'' @ itoa d) = Inr (''*'', itoa d)"
    by (rule SplitHostPort_plain) (use it digits_plain in \<open>auto simp: plain_text_def\<close>)
  then have "GetHostPort (''*:'' @ itoa d) = Inr (''*'', d)"
    using it digits_plain[of "itoa d"] go_atoi_itoa[OF assms] by (simp add: GetHostPort_def trim_dots_def)
  then show ?thesis using assms(1) by (simp add: add_host_def)
qed

lemma getPortsHostsList_valid:
  assumes "valid_hosts hosts" "0 \<le> d" "d \<le> max_int64"
  shows "\<exists>ports. getPortsHostsList hosts d = Inr ports \<and> ports_ok ports \<and> set (port_hosts ports) = entries_of d hosts \<and>
     distinct (port_hosts ports)"
proof -
  have ok: "ports_ok []" by (simp add: ports_ok_def)
  show ?thesis
  proof (cases "hosts = []")
    case True
    have "ports_ok (add_port_host d ''*'' [])" by (rule ports_ok_add[OF ok])
    moreover have "set (port_hosts (add_port_host d ''*'' [])) = {(d, ''*'')}"
      "distinct (port_hosts (add_port_host d ''*'' []))"
      by (simp_all add: port_hosts_def add_port_host_def)
    moreover have "getPortsHostsList hosts d = Inr (add_port_host d ''*'' [])"
      using True default_entry[OF assms(2,3), of "[]"] by (simp add: getPortsHostsList_def)
    ultimately show ?thesis using True by (auto simp: entries_of_def)
  next
    case False
    from add_hosts_valid[OF assms ok] obtain ports where p: "try_fold (add_host d) hosts [] = Inr ports" "ports_ok ports"
      "\<And>ph. has_port_host ports ph \<longleftrightarrow> has_port_host [] ph \<or> ph \<in> (\<lambda>hp. (entry_port d hp, entry_host hp)) ` set hosts"
      by blast
    from p False set_port_hosts[OF p(2)] distinct_port_hosts[OF p(2)] show ?thesis
      by (auto simp: getPortsHostsList_def entries_of_def has_port_host_def)
  qed
qed

section \<open>The choice of the server of a request\<close>

lemma lower_plain:
  assumes "c \<notin> set '':[]''"
  shows "lower_char c \<notin> set '':[]''"
proof (cases "65 \<le> (of_char c :: nat) \<and> (of_char c :: nat) \<le> 90")
  case True
  then have "(of_char (lower_char c) :: nat) = of_char c + 32" by (simp add: lower_char_def)
  with True have "(of_char (lower_char c) :: nat) \<notin> of_char ` set '':[]''" by auto
  then show ?thesis by blast
next
  case False
  with assms show ?thesis by (auto simp: lower_char_def)
qed

lemma plain_to_lower: "plain_text h \<Longrightarrow> plain_text (to_lower h)"
  using lower_plain by (auto simp: plain_text_def to_lower_def list_all_iff)

lemma to_lower_append: "to_lower (a @ b) = to_lower a @ to_lower b"
  by (simp add: to_lower_def)

lemma trim_dots_snoc [simp]: "trim_dots (h @ ''.'') = trim_dots h"
  by (simp add: trim_dots_def)

lemma trim_dots_trim_suffix [simp]: "trim_dots (trim_suffix h ''.'') = trim_dots h"
proof (cases "has_suffix h ''.''")
  case True
  then obtain k where "h = k @ ''.''" by (auto simp: has_suffix_iff)
  then show ?thesis by simp
qed (simp add: trim_suffix_def)

lemma set_trim_suffix: "set (trim_suffix h s) \<subseteq> set h"
  by (auto simp: trim_suffix_def dest: in_set_takeD)

lemma plain_trim_suffix: "plain_text h \<Longrightarrow> plain_text (trim_suffix h s)"
  using set_trim_suffix[of h s] by (auto simp: plain_text_def list_all_iff)

definition with_host :: "string \<Rightarrow> 'a request_scheme \<Rightarrow> 'a request_scheme" where
  "with_host host req = req\<lparr>req_host := host\<rparr>"

text \<open>A port that the client sends, if any.\<close>

definition client_port :: "string option \<Rightarrow> string" where
  "client_port p = (case p of None \<Rightarrow> [] | Some p \<Rightarrow> '':'' @ p)"

lemma getHost_plain:
  assumes "\<not> hs_xfh s" "plain_text host" "case p of None \<Rightarrow> True | Some p \<Rightarrow> plain_text p"
  shows "getHost s (with_host (host @ client_port p) req) = cleanHostAppendPort s (to_lower host)"
proof (cases p)
  case None
  then show ?thesis
    using assms(1) plain_text_set[OF plain_to_lower[OF assms(2)]]
    by (simp add: getHost_def with_host_def client_port_def)
next
  case (Some q)
  have "SplitHostPort (to_lower host @ '':'' @ to_lower q) = Inr (to_lower host, to_lower q)"
    by (rule SplitHostPort_plain) (use assms Some plain_to_lower in auto)
  moreover have "to_lower (host @ '':'' @ q) = to_lower host @ '':'' @ to_lower q"
    by (simp add: to_lower_def lower_char_def)
  ultimately show ?thesis
    using assms(1) Some by (simp add: getHost_def with_host_def client_port_def Let_def)
qed

lemma select_mux_clean:
  assumes "plain_text host" "hs_port s = itoa port" "0 \<le> port" "port \<le> max_int64"
  shows "select_mux s (cleanHostAppendPort s host) =
     (case map_of (hs_muxers s) (trim_dots host) of
        Some m \<Rightarrow> Inr m
      | None \<Rightarrow> (case map_of (hs_muxers s) ''*'' of Some m \<Rightarrow> Inr m | None \<Rightarrow> Inl E_Configuration))"
proof -
  have it: "list_all is_digit (itoa port) \<and> itoa port \<noteq> []" using itoa_digits assms(3) by blast
  have "SplitHostPort (trim_suffix host ''.'' @ '':'' @ itoa port) = Inr (trim_suffix host ''.'', itoa port)"
    by (rule SplitHostPort_plain) (use it digits_plain plain_trim_suffix[OF assms(1)] in auto)
  then have "GetHostPort (cleanHostAppendPort s host) = Inr (trim_dots host, port)"
    using it digits_plain[of "itoa port"] go_atoi_itoa[OF assms(3,4)] assms(2)
    by (simp add: GetHostPort_def cleanHostAppendPort_def)
  then show ?thesis by (simp add: select_mux_def)
qed

text \<open>
  Property C39: a request is given to the server that is declared for its host, in any case of the letters and with any
  number of dots after it, whatever port the client sends; else to the one for all hosts, and is answered with
  an error of the configuration if there is none.
\<close>

theorem server_of_host:
  assumes "\<not> hs_xfh s" "plain_text host" "case p of None \<Rightarrow> True | Some p \<Rightarrow> plain_text p"
    and "hs_port s = itoa port" "0 \<le> port" "port \<le> max_int64"
  shows "select_mux s (getHost s (with_host (host @ client_port p) req)) =
     (case map_of (hs_muxers s) (trim_dots (to_lower host)) of
        Some m \<Rightarrow> Inr m
      | None \<Rightarrow> (case map_of (hs_muxers s) ''*'' of Some m \<Rightarrow> Inr m | None \<Rightarrow> Inl E_Configuration))"
  by (simp add: getHost_plain[OF assms(1,2,3)] select_mux_clean[OF plain_to_lower[OF assms(2)] assms(4,5,6)])

definition demo_server :: http_server where
  "demo_server =
     NewServer ''/healthz'' False \<lparr>acc_port = False, acc_protocol = False, acc_host = False\<rparr> 8080
       [(''couper.io'', NewMuxOptions \<lparr>so_api_paths = [], so_api_tpls = (\<lambda>a. None), so_api_base = (\<lambda>a. []), so_files_paths = [],
           so_spa_paths = [], so_server_tpl = ''DefaultHTML'', so_server_name = ''couper''\<rparr>)]"

definition demo_host_request :: request where
  "demo_host_request = \<lparr>req_method = ''GET'', req_host = [], req_path = ''/'', req_query = [], req_header = Map.empty\<rparr>"

lemma server_of_host_witness:
  "\<exists>m. select_mux demo_server (getHost demo_server (with_host (''Couper.IO..'' @ client_port (Some ''443'')) demo_host_request)) = Inr m"
proof -
  have host: "trim_dots (to_lower ''Couper.IO..'') = ''couper.io''" by code_simp
  have plain: "plain_text ''Couper.IO..''" "plain_text ''443''" by (simp_all add: plain_text_def)
  have server: "\<not> hs_xfh demo_server" "hs_port demo_server = itoa 8080" "map_of (hs_muxers demo_server) ''couper.io'' \<noteq> None"
    by (simp_all add: demo_server_def NewServer_def new_muxers_def)
  from server_of_host[OF server(1) plain(1) _ server(2), of "Some ''443''" demo_host_request] plain(2) server(3) host
  show ?thesis by (auto simp: max_int64_def)
qed

section \<open>IPv6 addresses as hosts\<close>

lemma bracket_lower: "lower_char c = CHR ''['' \<Longrightarrow> c = CHR ''[''" "lower_char c = CHR '']'' \<Longrightarrow> c = CHR '']''"
proof -
  have "lower_char c = c" if "lower_char c \<in> set ''[]''"
  proof (cases "65 \<le> (of_char c :: nat) \<and> (of_char c :: nat) \<le> 90")
    case True
    then have "(of_char (lower_char c) :: nat) = of_char c + 32" by (simp add: lower_char_def)
    with True have "(of_char (lower_char c) :: nat) \<notin> of_char ` set ''[]''" by auto
    with that show ?thesis by blast
  qed (auto simp: lower_char_def)
  then show "lower_char c = CHR ''['' \<Longrightarrow> c = CHR ''[''" "lower_char c = CHR '']'' \<Longrightarrow> c = CHR '']''" by auto
qed

lemma index_of_append: "c \<notin> set xs \<Longrightarrow> index_of c (xs @ ys) = map_option (\<lambda>n. length xs + n) (index_of c ys)"
proof (induction xs)
  case Nil
  then show ?case by (cases "index_of c ys") simp_all
next
  case (Cons x xs)
  then show ?case by (cases "index_of c ys") auto
qed

lemma colon_trim_suffix: "CHR '':'' \<in> set b \<Longrightarrow> CHR '':'' \<in> set (trim_suffix b ''.'')"
proof (cases "has_suffix b ''.''")
  case True
  then obtain k where "b = k @ ''.''" by (auto simp: has_suffix_iff)
  then show "CHR '':'' \<in> set b \<Longrightarrow> ?thesis" by auto
qed (simp add: trim_suffix_def)

text \<open>
  A host that is an IPv6 address in brackets is found if the client sends no port; with
  any port the brackets are lost, and the request is answered with an error of the client whatever the servers are.
\<close>

theorem ipv6_host_with_port_rejected:
  assumes "\<not> hs_xfh s" "CHR '':'' \<in> set a" "CHR ''['' \<notin> set a" "CHR '']'' \<notin> set a"
    and "CHR '':'' \<notin> set (hs_port s)" "plain_text p"
  shows "select_mux s (getHost s (with_host (''['' @ a @ '']:'' @ p) req)) = Inl E_ClientRequest"
proof -
  define b where "b = to_lower a"
  have lower_id: "lower_char CHR '':'' = CHR '':''" "lower_char CHR ''['' = CHR ''[''" "lower_char CHR '']'' = CHR '']''"
    by (simp_all add: lower_char_def)
  have b: "CHR '':'' \<in> set b" using assms(2) lower_id by (force simp: b_def to_lower_def)
  have no: "CHR ''['' \<notin> set b" "CHR '']'' \<notin> set b"
    using assms(3,4) by (auto simp: b_def to_lower_def image_iff dest!: bracket_lower[OF sym])
  have host: "to_lower (''['' @ a @ '']:'' @ p) = (''['' @ b @ '']'') @ '':'' @ to_lower p"
    by (simp add: to_lower_def b_def lower_id)
  have p: "plain_text (to_lower p)" using assms(6) plain_to_lower by blast
  have idx: "index_of CHR '']'' (''['' @ b @ '']:'' @ to_lower p) = Some (Suc (length b))"
    using no by (simp add: index_of_append)
  have "SplitHostPort ((''['' @ b @ '']'') @ '':'' @ to_lower p) = Inr (b, to_lower p)"
    using plain_text_set[OF p] no idx cut_last_append[of "CHR '':''" "to_lower p" "''['' @ b @ '']''"]
    by (simp add: SplitHostPort_def has_prefix_def)
  then have get: "getHost s (with_host (''['' @ a @ '']:'' @ p) req) = trim_suffix b ''.'' @ '':'' @ hs_port s"
    using assms(1) host by (simp add: getHost_def with_host_def cleanHostAppendPort_def Let_def)
  have "CHR '':'' \<in> set (trim_suffix b ''.'')" using b colon_trim_suffix by blast
  moreover have "\<not> has_prefix (trim_suffix b ''.'' @ '':'' @ hs_port s) ''[''"
    using no(1) set_trim_suffix[of b "''.''"] by (cases "trim_suffix b ''.''") (auto simp: has_prefix_def)
  ultimately have "SplitHostPort (trim_suffix b ''.'' @ '':'' @ hs_port s) = Inl TooManyColons"
    using cut_last_append[OF assms(5), of "trim_suffix b ''.''"] by (simp add: SplitHostPort_def)
  then show ?thesis unfolding get by (simp add: select_mux_def GetHostPort_def)
qed

text \<open>An example: the address with its port is rejected, and found without it.\<close>

definition local_server :: http_server where
  "local_server = demo_server\<lparr>hs_muxers := map (\<lambda>(h, m). (''::1'', m)) (hs_muxers demo_server)\<rparr>"

lemma ipv6_host_with_port_rejected_witness:
  "select_mux local_server (getHost local_server (with_host ''[::1]:8080'' demo_host_request)) = Inl E_ClientRequest \<and>
   (\<exists>m. select_mux local_server (getHost local_server (with_host ''[::1]'' demo_host_request)) = Inr m)"
proof
  have s: "\<not> hs_xfh local_server" "hs_port local_server = itoa 8080"
    by (simp_all add: local_server_def demo_server_def NewServer_def)
  have "list_all is_digit (itoa 8080)" using itoa_digits[of 8080] by simp
  then have "CHR '':'' \<notin> set (hs_port local_server)" using digits_plain plain_text_set s(2) by metis
  from ipv6_host_with_port_rejected[OF s(1) _ _ _ this, of "''::1''" "''8080''" demo_host_request]
  show "select_mux local_server (getHost local_server (with_host ''[::1]:8080'' demo_host_request)) = Inl E_ClientRequest"
    by (simp add: plain_text_def)
  have "GetHostPort (getHost local_server (with_host ''[::1]'' demo_host_request)) = Inr (''::1'', 8080)"
  proof -
    have lower: "to_lower ''[::1]'' = ''[::1]''" by code_simp
    have "SplitHostPort ''[::1]'' = Inl MissingPort" by code_simp
    then have "getHost local_server (with_host ''[::1]'' demo_host_request) = cleanHostAppendPort local_server ''[::1]''"
      using s(1) by (simp add: getHost_def with_host_def lower)
    also have "\<dots> = ''[::1]:'' @ itoa 8080" by (simp add: cleanHostAppendPort_def s(2) trim_suffix_def has_suffix_def)
    also have "itoa 8080 = ''8080''" by (simp add: itoa_def nat_text.simps digit_char_def char_of_def bit_0)
    finally have g: "getHost local_server (with_host ''[::1]'' demo_host_request) = ''[::1]:8080''" by simp
    have "SplitHostPort ''[::1]:8080'' = Inr (''::1'', ''8080'')" by code_simp
    then show ?thesis unfolding g using go_atoi_digits[of "''8080''"]
      by (simp add: GetHostPort_def trim_dots_def is_digit_def digit_value_def max_int64_def)
  qed
  then show "\<exists>m. select_mux local_server (getHost local_server (with_host ''[::1]'' demo_host_request)) = Inr m"
    by (simp add: select_mux_def local_server_def demo_server_def NewServer_def new_muxers_def)
qed

section \<open>The forwarded URL\<close>

lemma url_split_plain:
  assumes "plain_text h" "h \<noteq> []"
  shows "url_split_host_port h = (h, [])"
    and "list_all is_digit p \<Longrightarrow> url_split_host_port (h @ '':'' @ p) = (h, p)"
proof -
  have pre: "\<not> has_prefix h ''[''" using plain_text_set[OF assms(1)] assms(2) by (cases h) (auto simp: has_prefix_def)
  show "url_split_host_port h = (h, [])"
    using plain_text_set[OF assms(1)] pre by (simp add: url_split_host_port_def cut_last_None)
  show "url_split_host_port (h @ '':'' @ p) = (h, p)" if "list_all is_digit p"
    using plain_text_set[of p] digits_plain[OF that] that pre
    by (simp add: url_split_host_port_def cut_last_append)
qed

text \<open>
  If all headers are accepted and sent, the scheme is that of \<open>X-Forwarded-Proto\<close>, the host that of
  \<open>X-Forwarded-Host\<close>, and the port that of \<open>X-Forwarded-Port\<close>, which wins over a port of the host.
\<close>

lemma forwarded_url:
  assumes "acc = \<lparr>acc_port = True, acc_protocol = True, acc_host = True\<rparr>"
    and "h_get h ''X-Forwarded-Proto'' = proto" "proto \<noteq> []"
    and "h_get h ''X-Forwarded-Host'' = host @ client_port p" "plain_text host" "host \<noteq> []"
    and "case p of None \<Rightarrow> True | Some p \<Rightarrow> p \<noteq> [] \<and> list_all is_digit p"
    and "h_get h ''X-Forwarded-Port'' = port" "port \<noteq> []"
  shows "forwarded_port acc h (forwarded_host acc h (forwarded_proto acc h u)) = (proto, host @ '':'' @ port)"
proof -
  obtain scheme own where u: "u = (scheme, own)" by (cases u)
  let ?own = "url_Hostname own"
  have digits: "list_all is_digit (url_Port ?own)"
    by (auto simp: url_Port_def url_split_host_port_def split: option.splits)
  have sent: "host @ client_port p \<noteq> []" using assms(6) by simp
  have host1: "url_split_host_port (host @ client_port p) = (host, case p of None \<Rightarrow> [] | Some p \<Rightarrow> p)"
    using url_split_plain[OF assms(5,6)] assms(7) by (auto simp: client_port_def split: option.splits)
  have host2: "url_Hostname (if url_Port ?own \<noteq> [] \<and> url_Port (host @ client_port p) = []
      then host @ client_port p @ '':'' @ url_Port ?own else host @ client_port p) = host"
    using url_split_plain[OF assms(5,6)] host1 digits url_split_plain(2)[OF assms(5,6)] assms(7)
    by (auto simp: url_Hostname_def url_Port_def client_port_def split: option.splits)
  show ?thesis
    using assms(1,2,3,4,8,9) sent host2 by (auto simp add: u forwarded_proto_def forwarded_host_def forwarded_port_def Let_def split: if_splits)
qed

text \<open>The brackets of an IPv6 address are lost on the way, and with them the address.\<close>

lemma ipv6_origin_lost:
  "fst (url_split_host_port ''[::1]:8080'') = ''::1''"
  "url_split_host_port ''::1'' = ('':'', ''1'')"
  by code_simp+

section \<open>Hosts claimed by servers\<close>

lemma conf_lookup_set [simp]:
  "conf_lookup (conf_set port host mo conf) p h = (if p = port \<and> h = host then Some mo else conf_lookup conf p h)"
  by (auto simp: conf_lookup_def conf_set_def update_conv' split: option.splits)

lemma claim_hosts_result:
  assumes "try_fold (claim_host fresh) phs conf = Inr conf'" "distinct phs"
  shows "(\<forall>(p, h)\<in>set phs. conf_lookup conf p h = None) \<and>
    (\<forall>p h. conf_lookup conf' p h = (if (p, h) \<in> set phs then Some fresh else conf_lookup conf p h))"
  using assms
proof (induction phs arbitrary: conf)
  case (Cons ph phs)
  obtain port host where ph: "ph = (port, host)" by (cases ph)
  from Cons.prems(1) have free: "conf_lookup conf port host = None"
    and rest: "try_fold (claim_host fresh) phs (conf_set port host fresh conf) = Inr conf'"
    by (auto simp: ph claim_host_def split: option.splits)
  from Cons.IH[OF rest] Cons.prems(2)
  have ih: "\<And>p h. (p, h) \<in> set phs \<Longrightarrow> conf_lookup (conf_set port host fresh conf) p h = None"
    "\<And>p h. conf_lookup conf' p h = (if (p, h) \<in> set phs then Some fresh
        else conf_lookup (conf_set port host fresh conf) p h)" by auto
  have "conf_lookup conf p h = None" if "(p, h) \<in> set phs" for p h
    using ih(1)[OF that] by (simp split: if_splits)
  with free ih(2) show ?case by (auto simp: ph)
qed simp

end
