(* ===== verification/Slices.thy ===== *)
theory Slices
  imports Main
begin

text \<open>
  Slices of Go over shared arrays, as far as the program's use of \<open>append\<close> depends on them.

  An array has a fixed number of cells, which hold nothing before they are first written. A slice is a view of the
  first cells of an array. An \<open>append\<close> writes into the array when its capacity allows that, and
  makes a larger array otherwise; the capacity of the larger one is the argument \<open>grow\<close>.
\<close>

record 'a heap =
  hp_next :: nat
  hp_arrays :: "nat \<Rightarrow> 'a option list"

record slice =
  sl_array :: nat
  sl_len :: nat
  sl_cap :: nat

definition empty_heap :: "'a heap" where
  "empty_heap = \<lparr>hp_next = 0, hp_arrays = (\<lambda>a. [])\<rparr>"

definition nil_slice :: slice where
  "nil_slice = \<lparr>sl_array = 0, sl_len = 0, sl_cap = 0\<rparr>"

definition elements :: "'a heap \<Rightarrow> slice \<Rightarrow> 'a option list" where
  "elements h s = take (sl_len s) (hp_arrays h (sl_array s))"

definition go_append :: "(nat \<Rightarrow> nat \<Rightarrow> nat) \<Rightarrow> slice \<Rightarrow> 'a list \<Rightarrow> 'a heap \<Rightarrow> slice \<times> 'a heap" where
  "go_append grow s xs h =
     (let n = sl_len s + length xs; cells = hp_arrays h (sl_array s) in
      if n \<le> sl_cap s
      then (s\<lparr>sl_len := n\<rparr>,
            if xs = [] then h
            else h\<lparr>hp_arrays := (hp_arrays h)(sl_array s := take (sl_len s) cells @ map Some xs @ drop n cells)\<rparr>)
      else (\<lparr>sl_array = hp_next h, sl_len = n, sl_cap = grow (sl_cap s) n\<rparr>,
            h\<lparr>hp_next := Suc (hp_next h),
              hp_arrays := (hp_arrays h)(hp_next h :=
                take (sl_len s) cells @ map Some xs @ replicate (grow (sl_cap s) n - n) None)\<rparr>))"

text \<open>The growth of the run-time library for few elements, where its rounding to size classes changes nothing.\<close>

definition go_grow :: "nat \<Rightarrow> nat \<Rightarrow> nat" where
  "go_grow oldCap newLen = (if 2 * oldCap < newLen then newLen else 2 * oldCap)"

text \<open>Slices of a heap that may be used: a slice without a capacity is nil, any other views an array.\<close>

definition slice_ok :: "'a heap \<Rightarrow> slice \<Rightarrow> bool" where
  "slice_ok h s \<longleftrightarrow> sl_len s \<le> sl_cap s \<and>
     (sl_cap s = 0 \<or> (sl_array s < hp_next h \<and> length (hp_arrays h (sl_array s)) = sl_cap s))"

text \<open>The heap has kept the cells of a slice.\<close>

definition keeps :: "'a heap \<Rightarrow> 'a heap \<Rightarrow> slice \<Rightarrow> bool" where
  "keeps h h' s \<longleftrightarrow> slice_ok h' s \<and> elements h' s = elements h s"

lemma slice_ok_nil [simp]: "slice_ok h nil_slice"
  by (simp add: slice_ok_def nil_slice_def)

lemma elements_nil [simp]: "elements h nil_slice = []"
  by (simp add: elements_def nil_slice_def)

locale growth =
  fixes grow :: "nat \<Rightarrow> nat \<Rightarrow> nat"
  assumes enough: "n \<le> grow c n"
begin

lemma append_ok:
  assumes "slice_ok h s" "go_append grow s xs h = (s', h')"
  shows "slice_ok h' s'" "elements h' s' = elements h s @ map Some xs" "hp_next h \<le> hp_next h'"
    "sl_cap s' = (if sl_len s + length xs \<le> sl_cap s then sl_cap s else grow (sl_cap s) (sl_len s + length xs))"
    "sl_len s' = sl_len s + length xs"
  using assms enough[of "sl_len s + length xs" "sl_cap s"]
  by (cases xs; auto simp: go_append_def Let_def slice_ok_def elements_def min_def split: if_splits)+

text \<open>An \<open>append\<close> leaves the cells of every slice as they are that is not longer than the one it extends,
  or views another array.\<close>

lemma append_keeps:
  assumes "slice_ok h s" "slice_ok h t" "go_append grow s xs h = (s', h')"
    and "sl_array t \<noteq> sl_array s \<or> sl_len t \<le> sl_len s"
  shows "keeps h h' t"
proof -
  have len: "sl_cap s \<noteq> 0 \<Longrightarrow> sl_len s \<le> length (hp_arrays h (sl_array s))"
    using assms(1) by (auto simp: slice_ok_def)
  show ?thesis
    using assms len
    by (auto simp: keeps_def go_append_def Let_def slice_ok_def elements_def min_def split: if_splits)
qed

lemma append_fresh:
  assumes "slice_ok h s" "go_append grow s xs h = (s', h')" "sl_cap s < sl_len s + length xs"
  shows "sl_array s' = hp_next h" "hp_next h' = Suc (hp_next h)" "slice_ok h t \<Longrightarrow> keeps h h' t"
  using assms by (auto simp: go_append_def Let_def keeps_def slice_ok_def elements_def split: if_splits)

end

interpretation runtime: growth go_grow
  by unfold_locales (simp add: go_grow_def)

end
