(* ===== verification/Servers.thy ===== *)
theory Servers
  imports Hosts Slices AccessControl ErrorHandlers Sequence Endpoint
begin

text \<open>
  The servers that are built from a configuration (\<open>config/runtime/server.go\<close>, \<open>endpoint.go\<close>, \<open>http.go\<close>,
  \<open>access_control.go\<close>, \<open>server/options.go\<close>): their options, the endpoints with those that catch all other paths of an
  API, the layers of a handler, and the routes of each host.

  A handler is a tree: the layers are its inner nodes, and \<open>serve\<close> says which leaf serves a request. The names of
  error templates stand for the templates. What belongs to libraries, files and the network is in the record
  \<open>environment\<close>: reading of templates and files, the construction of a backend, the parsing of sizes, the growth of
  slices, and the order in which Go ranges over the map of endpoints.
\<close>

section \<open>Configuration\<close>

record cors_block = cors_conf +
  cors_disable :: bool

record proxy_conf =
  pc_name :: string
  pc_backend :: body
  pc_websockets :: "bool option"
  pc_body :: body

record call_conf =
  cc_name :: string
  cc_backend :: body
  cc_body :: body

record error_handler_conf =
  eh_error_file :: string
  eh_proxies :: "proxy_conf list"
  eh_requests :: "call_conf list"
  eh_response :: "body option"
  eh_remain :: body

type_synonym error_blocks = "(string list \<times> error_handler_conf) list"

record endpoint_conf =
  ec_id :: nat
  ec_pattern :: string
  ec_ac :: "string list"
  ec_disable_ac :: "string list"
  ec_methods :: "string list option"
  ec_error_file :: string
  ec_error_handlers :: error_blocks
  ec_permission :: "string option"
  ec_body_limit :: string
  ec_proxies :: "proxy_conf list"
  ec_requests :: "call_conf list"
  ec_response :: "body option"
  ec_sequences :: "string list"
  ec_deps :: deps_map
  ec_remain :: body

record api_conf =
  ap_id :: nat
  ap_name :: string
  ap_base_path :: string
  ap_error_file :: string
  ap_ac :: "string list"
  ap_disable_ac :: "string list"
  ap_cors :: "cors_block option"
  ap_methods :: "string list option"
  ap_permission :: "string option"
  ap_error_handlers :: error_blocks
  ap_endpoints :: "endpoint_conf list"
  ap_catch_all :: endpoint_conf
  ap_remain :: body

record files_conf =
  fc_id :: nat
  fc_base_path :: string
  fc_document_root :: string
  fc_error_file :: string
  fc_ac :: "string list"
  fc_disable_ac :: "string list"
  fc_cors :: "cors_block option"
  fc_remain :: body

record spa_conf =
  sp_id :: nat
  sp_base_path :: string
  sp_bootstrap_file :: string
  sp_paths :: "string list"
  sp_ac :: "string list"
  sp_disable_ac :: "string list"
  sp_cors :: "cors_block option"
  sp_remain :: body

record server_conf =
  sc_name :: string
  sc_hosts :: "string list"
  sc_base_path :: string
  sc_error_file :: string
  sc_ac :: "string list"
  sc_disable_ac :: "string list"
  sc_cors :: "cors_block option"
  sc_apis :: "api_conf list"
  sc_endpoints :: "endpoint_conf list"
  sc_files :: "files_conf list"
  sc_spas :: "spa_conf list"
  sc_remain :: body

record environment =
  env_template :: "string \<Rightarrow> string option"
  env_backend :: "body \<Rightarrow> string option"
  env_spa :: "string \<Rightarrow> string option"
  env_files :: "string \<Rightarrow> string option"
  env_human_size :: "string \<Rightarrow> int option"
  env_grow :: "nat \<Rightarrow> nat \<Rightarrow> nat"
  env_order :: "(endpoint_conf \<times> api_conf option) list \<Rightarrow> (endpoint_conf \<times> api_conf option) list"
  env_fuel :: nat

text \<open>Errors; \<open>ControlMissing\<close> and \<open>ProducerMissing\<close> are the panics of a nil pointer, and \<open>OutOfFuel\<close> a traversal of
  dependencies that is deeper than the fuel.\<close>

datatype server_error =
    HostError host_error
  | TemplateError string
  | BackendError string
  | FileError string
  | CorsError go_error
  | NoProducer string
  | BodyLimitError string
  | PatternRequired
  | DuplicateRoute int string
  | RouteMissing int string
  | ControlMissing string
  | ProducerMissing
  | OutOfFuel

fun try_map :: "('a \<Rightarrow> 'e + 'b) \<Rightarrow> 'a list \<Rightarrow> 'e + 'b list" where
  "try_map f [] = Inr []"
| "try_map f (x # xs) =
     (case f x of Inl e \<Rightarrow> Inl e | Inr y \<Rightarrow> (case try_map f xs of Inl e \<Rightarrow> Inl e | Inr ys \<Rightarrow> Inr (y # ys)))"

section \<open>Server options\<close>

record srv_options = server_options +
  so_base :: string
  so_files_tpls :: "string list"

definition load_template :: "environment \<Rightarrow> string \<Rightarrow> string \<Rightarrow> server_error + string" where
  "load_template env file default_tpl =
     (if file \<noteq> []
      then (case env_template env file of Some e \<Rightarrow> Inl (TemplateError e) | None \<Rightarrow> Inr file)
      else Inr default_tpl)"

definition NewServerOptions :: "environment \<Rightarrow> server_conf \<Rightarrow> server_error + srv_options" where
  "NewServerOptions env conf =
     (let base = path_join [''/'', sc_base_path conf] in
      case load_template env (sc_error_file conf) ''DefaultHTML'' of
        Inl e \<Rightarrow> Inl e
      | Inr tpl \<Rightarrow>
         (case try_map (\<lambda>a. load_template env (ap_error_file a) ''DefaultJSON'') (sc_apis conf) of
            Inl e \<Rightarrow> Inl e
          | Inr api_tpls \<Rightarrow>
             (case try_map (\<lambda>f. load_template env (fc_error_file f) tpl) (sc_files conf) of
                Inl e \<Rightarrow> Inl e
              | Inr files_tpls \<Rightarrow>
                  Inr \<lparr>so_api_paths = map (\<lambda>a. (ap_id a, path_join [base, ap_base_path a])) (sc_apis conf),
                       so_api_tpls = map_of (zip (map ap_id (sc_apis conf)) api_tpls),
                       so_api_base = (\<lambda>i. the (map_of (map (\<lambda>a. (ap_id a, ap_base_path a)) (sc_apis conf)) i)),
                       so_files_paths = map (\<lambda>f. JoinOpenAPIPath [base, fc_base_path f]) (sc_files conf),
                       so_spa_paths = map (\<lambda>s. JoinOpenAPIPath [base, sp_base_path s]) (sc_spas conf),
                       so_server_tpl = tpl, so_server_name = sc_name conf,
                       so_base = base, so_files_tpls = files_tpls\<rparr>)))"

definition api_base_path :: "srv_options \<Rightarrow> api_conf \<Rightarrow> string" where
  "api_base_path so a = the (map_of (so_api_paths so) (ap_id a))"

section \<open>Access controls and CORS of a handler\<close>

definition newAC :: "server_conf \<Rightarrow> api_conf option \<Rightarrow> ac_conf" where
  "newAC srv parent =
     (let ac = NewACConf (sc_ac srv) (sc_disable_ac srv) in
      case parent of None \<Rightarrow> ac | Some a \<Rightarrow> ac_Merge ac (NewACConf (ap_ac a) (ap_disable_ac a)))"

text \<open>The block of a child that may be missing, and whose \<open>cors\<close> block may be missing.\<close>

definition whichCORS :: "cors_block option \<Rightarrow> cors_block option option \<Rightarrow> cors_block option" where
  "whichCORS parent this =
     (case this of
        Some (Some c) \<Rightarrow> if cors_disable c then None else Some c
      | _ \<Rightarrow> parent)"

text \<open>\<open>bodiesWithACBodies\<close>: \<open>defs\<close> is the list of the defined controls with their bodies, as \<open>ErrorHandlerSetters\<close>
  collects them.\<close>

definition ac_bodies :: "(string \<times> body) list \<Rightarrow> string list \<Rightarrow> string list \<Rightarrow> body list" where
  "ac_bodies defs ac dac =
     concat (map (\<lambda>(name, b). map (\<lambda>n. b) (filter (\<lambda>n. n = name) (ac_List (NewACConf ac dac)))) defs)"

definition bodiesWithACBodies ::
    "environment \<Rightarrow> (string \<times> body) list \<Rightarrow> string list \<Rightarrow> string list \<Rightarrow> body heap \<Rightarrow> slice \<times> body heap" where
  "bodiesWithACBodies env defs ac dac h =
     fold (\<lambda>b (s, h). go_append (env_grow env) s [b] h) (ac_bodies defs ac dac) (nil_slice, h)"

section \<open>The endpoints of a server\<close>

definition unique_base_path :: "srv_options \<Rightarrow> string \<Rightarrow> bool" where
  "unique_base_path so basePath =
     (let spaPaths = (if so_spa_paths so = [] then [[]] else so_spa_paths so);
          filesPaths = (if so_files_paths so = [] then [[]] else so_files_paths so) in
      list_all (\<lambda>spaPath. list_all (\<lambda>filesPath. basePath \<noteq> filesPath \<and> basePath \<noteq> spaPath) filesPaths) spaPaths)"

fun add_catch_all ::
    "server_conf \<Rightarrow> srv_options \<Rightarrow> api_conf list \<Rightarrow> string list \<Rightarrow> (endpoint_conf \<times> api_conf option) list" where
  "add_catch_all srv so [] seen = []"
| "add_catch_all srv so (a # as) seen =
     (let basePath = api_base_path so a in
      if basePath \<in> set seen then add_catch_all srv so as seen
      else if length (ac_List (newAC srv (Some a))) = 0 then add_catch_all srv so as seen
      else if unique_base_path so basePath
      then (ap_catch_all a, Some a) # add_catch_all srv so as (basePath # seen)
      else add_catch_all srv so as seen)"

definition newEndpointMap :: "server_conf \<Rightarrow> srv_options \<Rightarrow> (endpoint_conf \<times> api_conf option) list" where
  "newEndpointMap srv so =
     (let apis = sc_apis srv;
          catchAll = concat (map (\<lambda>a. if list_ex (\<lambda>e. ec_pattern e = ''/**'') (ap_endpoints a) then [api_base_path so a] else []) apis)
      in concat (map (\<lambda>a. map (\<lambda>e. (e, Some a)) (ap_endpoints a)) apis) @
         add_catch_all srv so apis catchAll @
         map (\<lambda>e. (e, None)) (sc_endpoints srv))"

section \<open>Endpoint options\<close>

datatype producer_conf = ProxyProducer bool | RequestProducer

record endpoint_options =
  eo_api_name :: string
  eo_tpl :: string
  eo_items :: "string list"
  eo_depends :: depends_on
  eo_pattern :: string
  eo_producers :: "(string \<times> producer_conf) list"
  eo_limit :: int
  eo_buffer :: buffer_option
  eo_response :: "body option"
  eo_kind :: string
  eo_error_handler :: bool

definition parseBodyLimit :: "environment \<Rightarrow> string \<Rightarrow> int option" where
  "parseBodyLimit env limit = env_human_size env (if limit \<noteq> [] then limit else ''64MiB'')"

definition endpoint_template :: "environment \<Rightarrow> endpoint_conf \<Rightarrow> api_conf option \<Rightarrow> srv_options \<Rightarrow> server_error + string" where
  "endpoint_template env ep api so =
     load_template env (ec_error_file ep)
       (case api of Some a \<Rightarrow> the (so_api_tpls so (ap_id a)) | None \<Rightarrow> so_server_tpl so)"

definition endpoint_producers :: "endpoint_conf \<Rightarrow> (string \<times> producer_conf) list" where
  "endpoint_producers ep =
     fold (\<lambda>r. set_key (cc_name r) RequestProducer) (ec_requests ep)
       (fold (\<lambda>p. set_key (pc_name p) (ProxyProducer (allowWebsockets (pc_websockets p) (map fst (body_blocks (pc_body p))))))
          (ec_proxies ep) [])"

definition block_bodies :: "endpoint_conf \<Rightarrow> body list" where
  "block_bodies ep =
     (case ec_response ep of None \<Rightarrow> [] | Some b \<Rightarrow> [b]) @
     concat (map (\<lambda>p. [pc_backend p, pc_body p]) (ec_proxies ep)) @
     concat (map (\<lambda>r. [cc_backend r, cc_body r]) (ec_requests ep))"

text \<open>The first backend that cannot be made.\<close>

definition backend_failure :: "environment \<Rightarrow> endpoint_conf \<Rightarrow> string option" where
  "backend_failure env ep =
     (case filter (\<lambda>b. env_backend env b \<noteq> None) (map pc_backend (ec_proxies ep) @ map cc_backend (ec_requests ep)) of
        [] \<Rightarrow> None
      | b # bs \<Rightarrow> env_backend env b)"

definition NewEndpointOptions ::
    "environment \<Rightarrow> endpoint_conf \<Rightarrow> api_conf option \<Rightarrow> srv_options \<Rightarrow> server_error + endpoint_options" where
  "NewEndpointOptions env ep api so =
     (case endpoint_template env ep api so of
        Inl e \<Rightarrow> Inl e
      | Inr tpl \<Rightarrow>
      (case backend_failure env ep of
        Some e \<Rightarrow> Inl (BackendError e)
      | None \<Rightarrow>
      (let producers = endpoint_producers ep; names = map fst producers in
       case markDependencies (env_fuel env) (ec_deps ep) (set names) (ec_sequences ep) Map.empty of
         None \<Rightarrow> Inl OutOfFuel
       | Some None \<Rightarrow> Inl ProducerMissing
       | Some (Some depends) \<Rightarrow>
       (case addIndependentProducers (env_fuel env) (ec_deps ep) names (ec_sequences ep) of
         None \<Rightarrow> Inl OutOfFuel
       | Some items \<Rightarrow>
         if ec_response ep = None \<and> producers = [] then Inl (NoProducer (ec_pattern ep))
         else (case parseBodyLimit env (ec_body_limit ep) of
            None \<Rightarrow> Inl (BodyLimitError (ec_pattern ep))
          | Some limit \<Rightarrow>
              Inr \<lparr>eo_api_name = (case api of None \<Rightarrow> [] | Some a \<Rightarrow> ap_name a), eo_tpl = tpl, eo_items = items,
                   eo_depends = depends, eo_pattern = ec_pattern ep, eo_producers = producers, eo_limit = limit,
                   eo_buffer = Must (block_bodies ep @ [ec_remain ep]), eo_response = ec_response ep,
                   eo_kind = [], eo_error_handler = False\<rparr>)))))"

section \<open>Error handlers of a handler\<close>

type_synonym kinds = "endpoint_options handlers_per_kind"

text \<open>A response that is not configured is a dummy while the options are made, and is removed from them.\<close>

definition error_endpoint_conf :: "error_handler_conf \<Rightarrow> endpoint_conf" where
  "error_endpoint_conf h =
     \<lparr>ec_id = 0, ec_pattern = [], ec_ac = [], ec_disable_ac = [], ec_methods = None, ec_error_file = eh_error_file h,
      ec_error_handlers = [], ec_permission = None, ec_body_limit = [], ec_proxies = eh_proxies h,
      ec_requests = eh_requests h, ec_response = Some (case eh_response h of None \<Rightarrow> Body [] [] | Some b \<Rightarrow> b),
      ec_sequences = [], ec_deps = (\<lambda>n. []), ec_remain = eh_remain h\<rparr>"

definition error_endpoint ::
    "environment \<Rightarrow> srv_options \<Rightarrow> string \<Rightarrow> string \<Rightarrow> error_handler_conf \<Rightarrow> server_error + endpoint_options" where
  "error_endpoint env so tpl kind h =
     (case NewEndpointOptions env (error_endpoint_conf h) None so of
        Inl e \<Rightarrow> Inl e
      | Inr eo \<Rightarrow>
          Inr (eo\<lparr>eo_tpl := (if eh_error_file h = [] then tpl else eo_tpl eo),
                  eo_response := (if eh_response h = None then None else eo_response eo),
                  eo_kind := ''error_'' @ kind, eo_error_handler := True\<rparr>))"

text \<open>\<open>newErrorHandler\<close> with the buffer options of its endpoints.\<close>

definition error_handler_for ::
    "environment \<Rightarrow> srv_options \<Rightarrow> string \<Rightarrow> (string \<rightharpoonup> error_blocks) \<Rightarrow> string list
       \<Rightarrow> server_error + kinds \<times> buffer_option" where
  "error_handler_for env so tpl defs refs =
     (case newErrorHandler (error_endpoint env so tpl) defs refs of
        Inl e \<Rightarrow> Inl e
      | Inr ks \<Rightarrow> Inr (ks, fold (\<lambda>(k, eo) opt. opt OR eo_buffer eo) ks BufNone))"

section \<open>Handlers\<close>

datatype rt_handler =
    SpaLeaf nat
  | FileLeaf nat
  | EndpointLeaf endpoint_options kinds "body list"
  | ErrorLeaf string go_error
  | AllowedMethodsH "string list" rt_handler rt_handler
  | PermissionsH string kinds rt_handler
  | ProtectedH "(string \<times> kinds) list" rt_handler
  | CorsH cors_options rt_handler
  | CustomLogsH slice rt_handler string

definition allowed_methods_layer :: "string list option \<Rightarrow> string list \<Rightarrow> string \<Rightarrow> rt_handler \<Rightarrow> rt_handler" where
  "allowed_methods_layer allowed defaults tpl h =
     AllowedMethodsH (amh_methods (NewAllowedMethodsHandler allowed (Some defaults) h (ErrorLeaf tpl E_MethodNotAllowed)))
       h (ErrorLeaf tpl E_MethodNotAllowed)"

text \<open>The options of \<open>NewCORSHandler\<close>, whose check of methods is that of the methods of the layer inside.\<close>

definition cors_layer :: "cors_block option \<Rightarrow> string list \<Rightarrow> rt_handler \<Rightarrow> server_error + rt_handler" where
  "cors_layer cors methods h =
     (case NewCORSOptions (map_option cors_conf.truncate cors)
             (Some (MethodAllowed \<lparr>amh_methods = methods, amh_allowed = h, amh_not_allowed = h\<rparr>)) of
        Inl e \<Rightarrow> Inl (CorsError e)
      | Inr None \<Rightarrow> Inr h
      | Inr (Some opts) \<Rightarrow> Inr (CorsH opts h))"

fun layer_methods :: "rt_handler \<Rightarrow> string list" where
  "layer_methods (AllowedMethodsH ms h n) = ms"
| "layer_methods _ = []"

definition control_item ::
    "environment \<Rightarrow> srv_options \<Rightarrow> string \<Rightarrow> (string \<rightharpoonup> error_blocks) \<Rightarrow> string \<Rightarrow> server_error + string \<times> kinds" where
  "control_item env so tpl acs name =
     (case error_handler_for env so tpl acs [name] of
        Inl e \<Rightarrow> Inl e
      | Inr (ks, opt) \<Rightarrow> (case acs name of None \<Rightarrow> Inl (ControlMissing name) | Some defs \<Rightarrow> Inr (name, ks)))"

definition configureProtectedHandler ::
    "environment \<Rightarrow> srv_options \<Rightarrow> string \<Rightarrow> (string \<rightharpoonup> error_blocks) \<Rightarrow> ac_conf \<Rightarrow> ac_conf \<Rightarrow> rt_handler
       \<Rightarrow> server_error + rt_handler" where
  "configureProtectedHandler env so tpl acs parentAC handlerAC h =
     (case try_map (control_item env so tpl acs) (ac_List (ac_Merge parentAC handlerAC)) of
        Inl e \<Rightarrow> Inl e
      | Inr items \<Rightarrow> if length items > 0 then Inr (ProtectedH items h) else Inr h)"

text \<open>\<open>append(s, t...)\<close> for two slices.\<close>

definition append_slice :: "environment \<Rightarrow> slice \<Rightarrow> slice \<Rightarrow> body heap \<Rightarrow> slice \<times> body heap" where
  "append_slice env s t h = go_append (env_grow env) s (map the (elements h t)) h"

definition log_bodies ::
    "environment \<Rightarrow> (string \<times> body) list \<Rightarrow> slice \<Rightarrow> string list \<Rightarrow> string list \<Rightarrow> body \<Rightarrow> body heap \<Rightarrow> slice \<times> body heap" where
  "log_bodies env defs serverBodies ac dac remain h =
     (case bodiesWithACBodies env defs ac dac h of
        (own, h1) \<Rightarrow> (case go_append (env_grow env) own [remain] h1 of
          (own', h2) \<Rightarrow> append_slice env serverBodies own' h2))"

text \<open>Files and single page applications have the same layers.\<close>

definition static_handler ::
    "environment \<Rightarrow> (string \<times> body) list \<Rightarrow> (string \<rightharpoonup> error_blocks) \<Rightarrow> server_conf \<Rightarrow> srv_options \<Rightarrow> slice
       \<Rightarrow> rt_handler \<Rightarrow> string \<Rightarrow> string list \<Rightarrow> string list \<Rightarrow> cors_block option \<Rightarrow> body \<Rightarrow> body heap
       \<Rightarrow> server_error + rt_handler \<times> body heap" where
  "static_handler env defs acs srv so serverBodies content tpl ac dac cors remain h =
     (let methods = allowed_methods_layer None DefaultFileSpaAllowedMethods tpl content in
      case configureProtectedHandler env so tpl acs (NewACConf (sc_ac srv) (sc_disable_ac srv)) (NewACConf ac dac) methods of
        Inl e \<Rightarrow> Inl e
      | Inr protected \<Rightarrow>
         (case cors_layer (whichCORS (sc_cors srv) (Some cors)) (layer_methods methods) protected of
            Inl e \<Rightarrow> Inl e
          | Inr corsHandler \<Rightarrow>
             (case log_bodies env defs serverBodies ac dac remain h of
                (bodies, h') \<Rightarrow> Inr (CustomLogsH bodies corsHandler [], h'))))"

definition endpoint_controls :: "server_conf \<Rightarrow> api_conf option \<Rightarrow> endpoint_conf \<Rightarrow> string list" where
  "endpoint_controls srv parent ep =
     ac_List (ac_Merge (newAC srv parent) (NewACConf (ec_ac ep) (ec_disable_ac ep)))"

definition endpoint_methods :: "api_conf option \<Rightarrow> endpoint_conf \<Rightarrow> string list option" where
  "endpoint_methods parent ep =
     (case ec_methods ep of Some ms \<Rightarrow> Some ms | None \<Rightarrow> (case parent of None \<Rightarrow> None | Some a \<Rightarrow> ap_methods a))"

definition endpoint_permission :: "api_conf option \<Rightarrow> endpoint_conf \<Rightarrow> string option" where
  "endpoint_permission parent ep =
     (case ec_permission ep of Some p \<Rightarrow> Some p | None \<Rightarrow> (case parent of None \<Rightarrow> None | Some a \<Rightarrow> ap_permission a))"

definition is_catch_all :: "api_conf option \<Rightarrow> endpoint_conf \<Rightarrow> bool" where
  "is_catch_all parent ep = (case parent of None \<Rightarrow> False | Some a \<Rightarrow> ec_id (ap_catch_all a) = ec_id ep)"

text \<open>The handler inside the access controls: the endpoint, with its permission in front of it.\<close>

definition protected_endpoint ::
    "environment \<Rightarrow> server_conf \<Rightarrow> srv_options \<Rightarrow> endpoint_conf \<Rightarrow> api_conf option \<Rightarrow> endpoint_options
       \<Rightarrow> server_error + rt_handler" where
  "protected_endpoint env srv so ep parent eo =
     (if is_catch_all parent ep then Inr (ErrorLeaf (eo_tpl eo) E_RouteNotFound)
      else (let defs = [''endpoint'' \<mapsto> ec_error_handlers ep] ++
              (case parent of None \<Rightarrow> Map.empty | Some a \<Rightarrow> [''api'' \<mapsto> ap_error_handlers a]) in
        case error_handler_for env so (eo_tpl eo) defs [''api'', ''endpoint''] of
          Inl e \<Rightarrow> Inl e
        | Inr (ks, opt) \<Rightarrow>
            (let modifier = (case parent of None \<Rightarrow> [sc_remain srv] | Some a \<Rightarrow> [ap_remain a, sc_remain srv]);
                 epHandler = EndpointLeaf (eo\<lparr>eo_buffer := eo_buffer eo OR opt\<rparr>) ks modifier in
             case endpoint_permission parent ep of
               None \<Rightarrow> Inr epHandler
             | Some expr \<Rightarrow> Inr (PermissionsH expr ks epHandler))))"

definition endpoint_log_bodies ::
    "environment \<Rightarrow> (string \<times> body) list \<Rightarrow> slice \<Rightarrow> endpoint_conf \<Rightarrow> api_conf option \<Rightarrow> body heap \<Rightarrow> slice \<times> body heap" where
  "endpoint_log_bodies env defs serverBodies ep parent h =
     (case (case parent of
              None \<Rightarrow> (serverBodies, h)
            | Some a \<Rightarrow> log_bodies env defs serverBodies (ap_ac a) (ap_disable_ac a) (ap_remain a) h) of
        (bodies, h1) \<Rightarrow>
          (case bodiesWithACBodies env defs (ec_ac ep) (ec_disable_ac ep) h1 of
             (own, h2) \<Rightarrow>
               (case append_slice env bodies own h2 of
                  (bodies', h3) \<Rightarrow> go_append (env_grow env) bodies' [ec_remain ep] h3)))"

definition endpoint_handler ::
    "environment \<Rightarrow> (string \<times> body) list \<Rightarrow> (string \<rightharpoonup> error_blocks) \<Rightarrow> server_conf \<Rightarrow> srv_options \<Rightarrow> slice
       \<Rightarrow> endpoint_conf \<times> api_conf option \<Rightarrow> body heap \<Rightarrow> server_error + rt_handler \<times> body heap" where
  "endpoint_handler env defs acs srv so serverBodies = (\<lambda>(ep, parent) h.
     if ec_pattern ep = [] then Inl PatternRequired
     else (case NewEndpointOptions env ep parent so of
        Inl e \<Rightarrow> Inl e
      | Inr eo0 \<Rightarrow>
         (let kind = (if parent = None then ''endpoint'' else ''api'');
              eo = eo0\<lparr>eo_buffer := eo_buffer eo0 OR Must (ac_bodies defs (endpoint_controls srv parent ep) []),
                       eo_kind := kind\<rparr> in
          case protected_endpoint env srv so ep parent eo of
            Inl e \<Rightarrow> Inl e
          | Inr inside \<Rightarrow>
             (let methods = allowed_methods_layer (endpoint_methods parent ep) DefaultEndpointAllowedMethods (eo_tpl eo) inside in
              case configureProtectedHandler env so (eo_tpl eo) acs (newAC srv parent)
                     (NewACConf (ec_ac ep) (ec_disable_ac ep)) methods of
                Inl e \<Rightarrow> Inl e
              | Inr protected \<Rightarrow>
                 (case cors_layer (whichCORS (sc_cors srv) (map_option ap_cors parent)) (layer_methods methods) protected of
                    Inl e \<Rightarrow> Inl e
                  | Inr corsHandler \<Rightarrow>
                     (case endpoint_log_bodies env defs serverBodies ep parent h of
                        (bodies, h') \<Rightarrow> Inr (CustomLogsH bodies corsHandler kind, h')))))))"

section \<open>Routes\<close>

datatype handler_kind = ApiKind | EndpointKind | FilesKind | SpaKind

record host_options =
  ho_endpoints :: "(string \<times> rt_handler) list"
  ho_files :: "(string \<times> rt_handler) list"
  ho_spas :: "(string \<times> rt_handler) list"
  ho_server :: srv_options

fun kind_routes :: "handler_kind \<Rightarrow> host_options \<Rightarrow> (string \<times> rt_handler) list" where
  "kind_routes FilesKind ho = ho_files ho"
| "kind_routes SpaKind ho = ho_spas ho"
| "kind_routes _ ho = ho_endpoints ho"

fun add_route :: "handler_kind \<Rightarrow> string \<Rightarrow> rt_handler \<Rightarrow> host_options \<Rightarrow> host_options" where
  "add_route FilesKind p h ho = ho\<lparr>ho_files := set_key p h (ho_files ho)\<rparr>"
| "add_route SpaKind p h ho = ho\<lparr>ho_spas := set_key p h (ho_spas ho)\<rparr>"
| "add_route _ p h ho = ho\<lparr>ho_endpoints := set_key p h (ho_endpoints ho)\<rparr>"

definition set_route ::
    "handler_kind \<Rightarrow> string \<Rightarrow> rt_handler \<Rightarrow> int \<times> string \<Rightarrow> host_options configuration \<Rightarrow> server_error + host_options configuration" where
  "set_route kind p h = (\<lambda>(port, host) conf.
     case conf_lookup conf port host of
       None \<Rightarrow> Inl (RouteMissing port host)
     | Some ho \<Rightarrow>
         if map_of (kind_routes kind ho) p \<noteq> None then Inl (DuplicateRoute port p)
         else Inr (conf_set port host (add_route kind p h ho) conf))"

definition setRoutesFromHosts ::
    "host_options configuration \<Rightarrow> ports \<Rightarrow> string \<Rightarrow> rt_handler \<Rightarrow> handler_kind \<Rightarrow> server_error + host_options configuration" where
  "setRoutesFromHosts conf ports p h kind = try_fold (set_route kind p h) (port_hosts ports) conf"

section \<open>The servers\<close>

type_synonym build = "body heap \<times> host_options configuration"

definition add_spa ::
    "environment \<Rightarrow> (string \<times> body) list \<Rightarrow> (string \<rightharpoonup> error_blocks) \<Rightarrow> server_conf \<Rightarrow> srv_options \<Rightarrow> slice \<Rightarrow> ports
       \<Rightarrow> spa_conf \<Rightarrow> build \<Rightarrow> server_error + build" where
  "add_spa env defs acs srv so serverBodies ports sp = (\<lambda>(h, conf).
     case env_spa env (sp_bootstrap_file sp) of
       Some e \<Rightarrow> Inl (FileError e)
     | None \<Rightarrow>
        (case static_handler env defs acs srv so serverBodies (SpaLeaf (sp_id sp)) (so_server_tpl so)
                (sp_ac sp) (sp_disable_ac sp) (sp_cors sp) (sp_remain sp) h of
           Inl e \<Rightarrow> Inl e
         | Inr (handler, h') \<Rightarrow>
            (case try_fold (\<lambda>p conf. setRoutesFromHosts conf ports (path_join [so_base so, sp_base_path sp, p]) handler SpaKind)
                    (sp_paths sp) conf of
               Inl e \<Rightarrow> Inl e
             | Inr conf' \<Rightarrow> Inr (h', conf'))))"

definition add_files ::
    "environment \<Rightarrow> (string \<times> body) list \<Rightarrow> (string \<rightharpoonup> error_blocks) \<Rightarrow> server_conf \<Rightarrow> srv_options \<Rightarrow> slice \<Rightarrow> ports
       \<Rightarrow> files_conf \<times> string \<times> string \<Rightarrow> build \<Rightarrow> server_error + build" where
  "add_files env defs acs srv so serverBodies ports = (\<lambda>(fc, base, tpl) (h, conf).
     case env_files env (fc_document_root fc) of
       Some e \<Rightarrow> Inl (FileError e)
     | None \<Rightarrow>
        (case static_handler env defs acs srv so serverBodies (FileLeaf (fc_id fc)) tpl
                (fc_ac fc) (fc_disable_ac fc) (fc_cors fc) (fc_remain fc) h of
           Inl e \<Rightarrow> Inl e
         | Inr (handler, h') \<Rightarrow>
            (case setRoutesFromHosts conf ports base handler FilesKind of Inl e \<Rightarrow> Inl e | Inr conf' \<Rightarrow> Inr (h', conf'))))"

definition add_endpoint ::
    "environment \<Rightarrow> (string \<times> body) list \<Rightarrow> (string \<rightharpoonup> error_blocks) \<Rightarrow> server_conf \<Rightarrow> srv_options \<Rightarrow> slice \<Rightarrow> ports
       \<Rightarrow> endpoint_conf \<times> api_conf option \<Rightarrow> build \<Rightarrow> server_error + build" where
  "add_endpoint env defs acs srv so serverBodies ports = (\<lambda>(ep, parent) (h, conf).
     case endpoint_handler env defs acs srv so serverBodies (ep, parent) h of
       Inl e \<Rightarrow> Inl e
     | Inr (handler, h') \<Rightarrow>
        (let basePath = (case parent of None \<Rightarrow> so_base so | Some a \<Rightarrow> api_base_path so a) in
         case setRoutesFromHosts conf ports (JoinOpenAPIPath [basePath, ec_pattern ep]) handler
                (if parent = None then EndpointKind else ApiKind) of
           Inl e \<Rightarrow> Inl e
         | Inr conf' \<Rightarrow> Inr (h', conf')))"

definition fresh_host :: "srv_options \<Rightarrow> host_options" where
  "fresh_host so = \<lparr>ho_endpoints = [], ho_files = [], ho_spas = [], ho_server = so\<rparr>"

definition server_bodies :: "environment \<Rightarrow> (string \<times> body) list \<Rightarrow> server_conf \<Rightarrow> body heap \<Rightarrow> slice \<times> body heap" where
  "server_bodies env defs srv h =
     (case bodiesWithACBodies env defs (sc_ac srv) (sc_disable_ac srv) h of
        (s, h') \<Rightarrow> go_append (env_grow env) s [sc_remain srv] h')"

text \<open>The routes of one server, whose hosts are claimed.\<close>

definition add_routes ::
    "environment \<Rightarrow> (string \<times> body) list \<Rightarrow> (string \<rightharpoonup> error_blocks) \<Rightarrow> server_conf \<Rightarrow> srv_options \<Rightarrow> ports
       \<Rightarrow> build \<Rightarrow> server_error + build" where
  "add_routes env defs acs srv so ports = (\<lambda>(h, conf).
     case server_bodies env defs srv h of
       (serverBodies, h1) \<Rightarrow>
         (case try_fold (add_spa env defs acs srv so serverBodies ports) (sc_spas srv) (h1, conf) of
            Inl e \<Rightarrow> Inl e
          | Inr b1 \<Rightarrow>
             (case try_fold (add_files env defs acs srv so serverBodies ports)
                     (zip (sc_files srv) (zip (so_files_paths so) (so_files_tpls so))) b1 of
                Inl e \<Rightarrow> Inl e
              | Inr b2 \<Rightarrow>
                  try_fold (add_endpoint env defs acs srv so serverBodies ports) (env_order env (newEndpointMap srv so)) b2)))"

definition add_server_conf ::
    "environment \<Rightarrow> (string \<times> body) list \<Rightarrow> (string \<rightharpoonup> error_blocks) \<Rightarrow> int \<Rightarrow> bool \<Rightarrow> server_conf
       \<Rightarrow> build \<Rightarrow> server_error + build" where
  "add_server_conf env defs acs defaultPort isHostsMandatory srv = (\<lambda>(h, conf).
     case NewServerOptions env srv of
       Inl e \<Rightarrow> Inl e
     | Inr so \<Rightarrow>
        (case validateHosts (sc_name srv) (sc_hosts srv) isHostsMandatory of
           Some e \<Rightarrow> Inl (HostError e)
         | None \<Rightarrow>
            (case getPortsHostsList (sc_hosts srv) defaultPort of
               Inl e \<Rightarrow> Inl (HostError e)
             | Inr ports \<Rightarrow>
                (case claim_hosts (fresh_host so) ports conf of
                   Inl e \<Rightarrow> Inl (HostError e)
                 | Inr conf' \<Rightarrow> add_routes env defs acs srv so ports (h, conf')))))"

definition NewServerConfiguration ::
    "environment \<Rightarrow> (string \<times> body) list \<Rightarrow> (string \<rightharpoonup> error_blocks) \<Rightarrow> int \<Rightarrow> server_conf list
       \<Rightarrow> server_error + build" where
  "NewServerConfiguration env defs acs defaultPort servers =
     try_fold (add_server_conf env defs acs defaultPort (length servers > 1)) servers (empty_heap, [])"

section \<open>Serving a request\<close>

text \<open>The leaf that serves a request, or the layer that answers it itself.\<close>

datatype leaf = ReachedEndpoint endpoint_options | ReachedFile nat | ReachedSpa nat | Answered

text \<open>\<open>controls\<close> are the access controls by their name, and \<open>permits\<close> is the check of a required permission.\<close>

fun serve ::
    "(string \<Rightarrow> control) \<Rightarrow> (string \<Rightarrow> control) \<Rightarrow> rt_handler \<Rightarrow> ac_request \<Rightarrow> leaf \<times> ac_request" where
  "serve controls permits (EndpointLeaf eo ks ms) req = (ReachedEndpoint eo, req)"
| "serve controls permits (FileLeaf i) req = (ReachedFile i, req)"
| "serve controls permits (SpaLeaf i) req = (ReachedSpa i, req)"
| "serve controls permits (ErrorLeaf tpl e) req = (Answered, req)"
| "serve controls permits (AllowedMethodsH ms h n) req =
     (if to_upper (req_method req) \<in> set ms then serve controls permits h req else serve controls permits n req)"
| "serve controls permits (PermissionsH expr ks h) req =
     (case permits expr req of
        (Some e, r) \<Rightarrow> (Answered, r\<lparr>ctx_error := Some e\<rparr>)
      | (None, r) \<Rightarrow> serve controls permits h r)"
| "serve controls permits (ProtectedH items h) req =
     (case ac_ServeHTTP True True (map (\<lambda>(name, ks). NewItem name (controls name) False [] None) items) req of
        (protected, r, priv) \<Rightarrow> if protected then serve controls permits h r else (Answered, r))"
| "serve controls permits (CorsH opts h) req =
     (if isCorsPreflightRequest (request.truncate req) then (Answered, req) else serve controls permits h req)"
| "serve controls permits (CustomLogsH bodies h n) req = serve controls permits h req"


definition control_chain :: "(string \<Rightarrow> control) \<Rightarrow> string list \<Rightarrow> bool list_item list" where
  "control_chain controls names = map (\<lambda>n. NewItem n (controls n) False [] None) names"

lemma try_map_control_items:
  "try_map (control_item env so tpl acs) names = Inr items \<Longrightarrow> map fst items = names"
  by (induction names arbitrary: items) (auto simp: control_item_def split: sum.splits option.splits)

lemma chain_of_items:
  "map fst items = names \<Longrightarrow> map (\<lambda>(name, ks). NewItem name (controls name) False [] None) items = control_chain controls names"
  by (auto simp: control_chain_def case_prod_beta)

lemma chain_handler: "i \<in> set (control_chain controls names) \<Longrightarrow> \<not> li_handler i"
  by (auto simp: control_chain_def NewItem_def)

lemma protected_passes:
  assumes "ac_ServeHTTP True True (control_chain controls names) req = (True, r, priv)"
  shows "accepted (control_chain controls names) req = Some r"
  using ac_serve_cases[of True True "control_chain controls names" req False True r priv] assms
    chain_handler[of _ controls names]
  by (fastforce simp: ac_ServeHTTP_def)

lemma serve_protected:
  assumes "configureProtectedHandler env so tpl acs parent own h = Inr p" "serve controls permits p req = (l, r)" "l \<noteq> Answered"
  shows "\<exists>r1. accepted (control_chain controls (ac_List (ac_Merge parent own))) req = Some r1 \<and> serve controls permits h r1 = (l, r)"
proof -
  obtain items where items: "try_map (control_item env so tpl acs) (ac_List (ac_Merge parent own)) = Inr items"
    using assms(1) by (auto simp: configureProtectedHandler_def split: sum.splits)
  have names: "map fst items = ac_List (ac_Merge parent own)" by (rule try_map_control_items[OF items])
  show ?thesis
  proof (cases "items = []")
    case True
    with assms items names show ?thesis
      by (auto simp: configureProtectedHandler_def control_chain_def)
  next
    case False
    with assms(1) items have p: "p = ProtectedH items h" by (simp add: configureProtectedHandler_def)
    from assms(2,3) show ?thesis
      unfolding p serve.simps chain_of_items[OF names]
      by (cases "ac_ServeHTTP True True (control_chain controls (ac_List (ac_Merge parent own))) req")
        (auto dest!: protected_passes split: if_splits)
  qed
qed

lemma serve_cors:
  assumes "cors_layer cors methods h = Inr c" "serve controls permits c req = (l, r)" "l \<noteq> Answered"
  shows "serve controls permits h req = (l, r)"
  using assms by (auto simp: cors_layer_def split: sum.splits option.splits if_splits)

text \<open>What the methods of a handler are: those configured, where \<open>*\<close> stands for the defaults.\<close>

definition allowed_set :: "string list option \<Rightarrow> string list \<Rightarrow> string set" where
  "allowed_set allowed defaults = (\<Union>m\<in>set (case allowed of None \<Rightarrow> defaults | Some ms \<Rightarrow> ms). set (method_keys (Some defaults) m))"

lemma serve_methods:
  assumes "serve controls permits (allowed_methods_layer allowed defaults tpl h) req = (l, r)" "l \<noteq> Answered"
  shows "to_upper (req_method req) \<in> allowed_set allowed defaults \<and> serve controls permits h req = (l, r)"
  using assms
  by (auto simp: allowed_methods_layer_def allowed_set_def NewAllowedMethodsHandler_def Let_def split: if_splits option.splits)

definition permission_passed :: "(string \<Rightarrow> control) \<Rightarrow> string option \<Rightarrow> ac_request \<Rightarrow> ac_request \<Rightarrow> bool" where
  "permission_passed permits perm r r' = (case perm of None \<Rightarrow> r' = r | Some expr \<Rightarrow> permits expr r = (None, r'))"

lemma serve_inside:
  assumes "protected_endpoint env srv so ep parent eo = Inr h" "serve controls permits h req = (l, r)" "l \<noteq> Answered"
  shows "\<not> is_catch_all parent ep \<and> permission_passed permits (endpoint_permission parent ep) req r \<and>
    (\<exists>opt. l = ReachedEndpoint (eo\<lparr>eo_buffer := eo_buffer eo OR opt\<rparr>))"
  using assms
  by (auto simp: protected_endpoint_def permission_passed_def Let_def split: if_splits sum.splits option.splits prod.splits)

text \<open>An endpoint is reached only through the controls, the methods and the permission.\<close>

definition reached_lawfully ::
    "(string \<Rightarrow> control) \<Rightarrow> (string \<Rightarrow> control) \<Rightarrow> string list \<Rightarrow> string set \<Rightarrow> string option \<Rightarrow> ac_request \<Rightarrow> ac_request \<Rightarrow> bool" where
  "reached_lawfully controls permits names methods perm req r \<longleftrightarrow>
     (\<exists>r1. accepted (control_chain controls names) req = Some r1 \<and> to_upper (req_method r1) \<in> methods \<and>
        permission_passed permits perm r1 r)"

lemma serve_endpoint:
  assumes "endpoint_handler env defs acs srv so serverBodies (ep, parent) hp = Inr (h, hp')"
    and "serve controls permits h req = (l, r)" "l \<noteq> Answered"
  shows "\<not> is_catch_all parent ep \<and> (\<exists>eo. l = ReachedEndpoint eo \<and> eo_pattern eo = ec_pattern ep) \<and>
    reached_lawfully controls permits (endpoint_controls srv parent ep)
      (allowed_set (endpoint_methods parent ep) DefaultEndpointAllowedMethods) (endpoint_permission parent ep) req r"
proof -
  let ?kind = "if parent = None then ''endpoint'' else ''api''"
  from assms(1) obtain eo0 where eo0: "NewEndpointOptions env ep parent so = Inr eo0"
    by (auto simp: endpoint_handler_def split: if_splits sum.splits)
  define eo where "eo = eo0\<lparr>eo_buffer := eo_buffer eo0 OR Must (ac_bodies defs (endpoint_controls srv parent ep) []), eo_kind := ?kind\<rparr>"
  from assms(1) eo0 obtain inside where inside: "protected_endpoint env srv so ep parent eo = Inr inside"
    by (auto simp: endpoint_handler_def Let_def eo_def split: if_splits sum.splits)
  define methods where "methods = allowed_methods_layer (endpoint_methods parent ep) DefaultEndpointAllowedMethods (eo_tpl eo) inside"
  from assms(1) eo0 inside obtain prot cors bodies where
    prot: "configureProtectedHandler env so (eo_tpl eo) acs (newAC srv parent) (NewACConf (ec_ac ep) (ec_disable_ac ep)) methods = Inr prot"
    and cors: "cors_layer (whichCORS (sc_cors srv) (map_option ap_cors parent)) (layer_methods methods) prot = Inr cors"
    and h: "h = CustomLogsH bodies cors ?kind"
    by (auto simp: endpoint_handler_def Let_def eo_def methods_def split: if_splits sum.splits prod.splits)
  from assms(2) have "serve controls permits cors req = (l, r)" by (simp add: h)
  then have "serve controls permits prot req = (l, r)" by (rule serve_cors[OF cors _ assms(3)])
  then obtain r1 where r1: "accepted (control_chain controls (endpoint_controls srv parent ep)) req = Some r1"
    "serve controls permits methods r1 = (l, r)"
    using serve_protected[OF prot _ assms(3)] unfolding endpoint_controls_def by blast
  have ms: "to_upper (req_method r1) \<in> allowed_set (endpoint_methods parent ep) DefaultEndpointAllowedMethods"
    "serve controls permits inside r1 = (l, r)"
    using serve_methods[OF r1(2)[unfolded methods_def] assms(3)] by auto
  from serve_inside[OF inside ms(2) assms(3)] obtain opt where
    i: "\<not> is_catch_all parent ep" "permission_passed permits (endpoint_permission parent ep) r1 r"
      "l = ReachedEndpoint (eo\<lparr>eo_buffer := eo_buffer eo OR opt\<rparr>)" by blast
  have "eo_pattern eo0 = ec_pattern ep"
    using eo0 by (auto simp: NewEndpointOptions_def Let_def split: sum.splits option.splits if_splits)
  with i r1(1) ms(1) show ?thesis by (auto simp: reached_lawfully_def eo_def)
qed

lemma serve_static:
  assumes "static_handler env defs acs srv so serverBodies content tpl ac dac cors remain hp = Inr (h, hp')"
    and "serve controls permits h req = (l, r)" "l \<noteq> Answered" "content = FileLeaf i \<or> content = SpaLeaf i"
  shows "reached_lawfully controls permits (ac_List (ac_Merge (NewACConf (sc_ac srv) (sc_disable_ac srv)) (NewACConf ac dac)))
      (allowed_set None DefaultFileSpaAllowedMethods) None req r \<and>
    (l = ReachedFile i \<or> l = ReachedSpa i)"
proof -
  define methods where "methods = allowed_methods_layer None DefaultFileSpaAllowedMethods tpl content"
  from assms(1) obtain prot ch bodies where
    prot: "configureProtectedHandler env so tpl acs (NewACConf (sc_ac srv) (sc_disable_ac srv)) (NewACConf ac dac) methods = Inr prot"
    and cors: "cors_layer (whichCORS (sc_cors srv) (Some cors)) (layer_methods methods) prot = Inr ch"
    and h: "h = CustomLogsH bodies ch []"
    by (auto simp: static_handler_def Let_def methods_def split: sum.splits prod.splits)
  from assms(2) have "serve controls permits ch req = (l, r)" by (simp add: h)
  then have "serve controls permits prot req = (l, r)" by (rule serve_cors[OF cors _ assms(3)])
  then obtain r1 where r1: "accepted (control_chain controls (ac_List (ac_Merge (NewACConf (sc_ac srv) (sc_disable_ac srv)) (NewACConf ac dac)))) req = Some r1"
    "serve controls permits methods r1 = (l, r)"
    using serve_protected[OF prot _ assms(3)] by blast
  from serve_methods[OF r1(2)[unfolded methods_def] assms(3)] r1(1) assms(4) show ?thesis
    by (auto simp: reached_lawfully_def permission_passed_def)
qed

section \<open>Where the routes of a host come from\<close>

definition endpoint_route ::
    "environment \<Rightarrow> (string \<times> body) list \<Rightarrow> (string \<rightharpoonup> error_blocks) \<Rightarrow> server_conf \<Rightarrow> srv_options \<Rightarrow> string \<times> rt_handler \<Rightarrow> bool" where
  "endpoint_route env defs acs srv so = (\<lambda>(p, h). \<exists>ep parent serverBodies hp hp'.
     (ep, parent) \<in> set (env_order env (newEndpointMap srv so)) \<and>
     endpoint_handler env defs acs srv so serverBodies (ep, parent) hp = Inr (h, hp') \<and>
     p = JoinOpenAPIPath [case parent of None \<Rightarrow> so_base so | Some a \<Rightarrow> api_base_path so a, ec_pattern ep])"

definition static_route ::
    "environment \<Rightarrow> (string \<times> body) list \<Rightarrow> (string \<rightharpoonup> error_blocks) \<Rightarrow> server_conf \<Rightarrow> srv_options \<Rightarrow> string \<times> rt_handler \<Rightarrow> bool" where
  "static_route env defs acs srv so = (\<lambda>(p, h). \<exists>content tpl ac dac cors remain serverBodies hp hp' i.
     static_handler env defs acs srv so serverBodies content tpl ac dac cors remain hp = Inr (h, hp') \<and>
     ((\<exists>fc\<in>set (sc_files srv). content = FileLeaf (fc_id fc) \<and> i = fc_id fc \<and> ac = fc_ac fc \<and> dac = fc_disable_ac fc) \<or>
      (\<exists>sp\<in>set (sc_spas srv). content = SpaLeaf (sp_id sp) \<and> i = sp_id sp \<and> ac = sp_ac sp \<and> dac = sp_disable_ac sp)))"

definition host_made ::
    "environment \<Rightarrow> (string \<times> body) list \<Rightarrow> (string \<rightharpoonup> error_blocks) \<Rightarrow> server_conf \<Rightarrow> srv_options \<Rightarrow> host_options \<Rightarrow> bool" where
  "host_made env defs acs srv so ho \<longleftrightarrow>
     ho_server ho = so \<and> (\<forall>r\<in>set (ho_endpoints ho). endpoint_route env defs acs srv so r) \<and>
     (\<forall>r\<in>set (ho_files ho) \<union> set (ho_spas ho). static_route env defs acs srv so r)"

definition route_made ::
    "environment \<Rightarrow> (string \<times> body) list \<Rightarrow> (string \<rightharpoonup> error_blocks) \<Rightarrow> server_conf \<Rightarrow> srv_options \<Rightarrow> handler_kind \<Rightarrow> string \<times> rt_handler \<Rightarrow> bool" where
  "route_made env defs acs srv so kind r =
     (if kind = FilesKind \<or> kind = SpaKind then static_route env defs acs srv so r else endpoint_route env defs acs srv so r)"

lemma set_set_key: "r \<in> set (set_key k v m) \<Longrightarrow> r = (k, v) \<or> r \<in> set m"
  by (induction k v m rule: set_key.induct) (auto split: if_splits)

lemma host_made_add:
  "host_made env defs acs srv so ho \<Longrightarrow> route_made env defs acs srv so kind (p, h) \<Longrightarrow>
     host_made env defs acs srv so (add_route kind p h ho)"
  by (cases kind) (auto simp: host_made_def route_made_def dest!: set_set_key)

text \<open>The hosts of a server are made by it, and all others are as before.\<close>

definition hosts_made ::
    "environment \<Rightarrow> (string \<times> body) list \<Rightarrow> (string \<rightharpoonup> error_blocks) \<Rightarrow> server_conf \<Rightarrow> srv_options
       \<Rightarrow> (int \<times> string) set \<Rightarrow> host_options configuration \<Rightarrow> host_options configuration \<Rightarrow> bool" where
  "hosts_made env defs acs srv so S conf0 conf \<longleftrightarrow>
     (\<forall>port host. (port, host) \<notin> S \<longrightarrow> conf_lookup conf port host = conf_lookup conf0 port host) \<and>
     (\<forall>port host. (port, host) \<in> S \<longrightarrow> (\<exists>ho. conf_lookup conf port host = Some ho \<and> host_made env defs acs srv so ho))"

lemma set_route_made:
  assumes "set_route kind p h ph conf = Inr conf'" "ph \<in> S" "hosts_made env defs acs srv so S conf0 conf"
    and "route_made env defs acs srv so kind (p, h)"
  shows "hosts_made env defs acs srv so S conf0 conf'"
proof -
  obtain port host where ph: "ph = (port, host)" by (cases ph)
  with assms(2,3) obtain ho where ho: "conf_lookup conf port host = Some ho" "host_made env defs acs srv so ho"
    unfolding hosts_made_def by blast
  with assms(1) ph have c: "conf' = conf_set port host (add_route kind p h ho) conf"
    by (auto simp: set_route_def split: if_splits)
  show ?thesis
    using assms(2,3) ph host_made_add[OF ho(2) assms(4)] by (auto simp: c hosts_made_def)
qed

lemma setRoutes_made:
  assumes "setRoutesFromHosts conf ports p h kind = Inr conf'" "hosts_made env defs acs srv so (set (port_hosts ports)) conf0 conf"
    and "route_made env defs acs srv so kind (p, h)"
  shows "hosts_made env defs acs srv so (set (port_hosts ports)) conf0 conf'"
  using assms(1)[unfolded setRoutesFromHosts_def] assms(2)
  by (rule try_fold_invariant) (auto intro: set_route_made assms(3))

lemma add_spa_made:
  assumes "add_spa env defs acs srv so bodies ports sp (hp, conf) = Inr (hp', conf')" "sp \<in> set (sc_spas srv)"
    and "hosts_made env defs acs srv so (set (port_hosts ports)) conf0 conf"
  shows "hosts_made env defs acs srv so (set (port_hosts ports)) conf0 conf'"
proof -
  from assms(1) obtain h where h: "static_handler env defs acs srv so bodies (SpaLeaf (sp_id sp)) (so_server_tpl so)
      (sp_ac sp) (sp_disable_ac sp) (sp_cors sp) (sp_remain sp) hp = Inr (h, hp')"
    and routes: "try_fold (\<lambda>p conf. setRoutesFromHosts conf ports (path_join [so_base so, sp_base_path sp, p]) h SpaKind)
        (sp_paths sp) conf = Inr conf'"
    by (auto simp: add_spa_def split: option.splits sum.splits prod.splits)
  have made: "route_made env defs acs srv so SpaKind (p, h)" for p
    using h assms(2) unfolding route_made_def static_route_def by auto blast
  from routes assms(3) show ?thesis by (rule try_fold_invariant) (auto intro: setRoutes_made made)
qed

lemma add_files_made:
  assumes "add_files env defs acs srv so bodies ports (fc, base, tpl) (hp, conf) = Inr (hp', conf')" "fc \<in> set (sc_files srv)"
    and "hosts_made env defs acs srv so (set (port_hosts ports)) conf0 conf"
  shows "hosts_made env defs acs srv so (set (port_hosts ports)) conf0 conf'"
proof -
  from assms(1) obtain h where h: "static_handler env defs acs srv so bodies (FileLeaf (fc_id fc)) tpl
      (fc_ac fc) (fc_disable_ac fc) (fc_cors fc) (fc_remain fc) hp = Inr (h, hp')"
    and routes: "setRoutesFromHosts conf ports base h FilesKind = Inr conf'"
    by (auto simp: add_files_def split: option.splits sum.splits prod.splits)
  have "route_made env defs acs srv so FilesKind (base, h)"
    using h assms(2) unfolding route_made_def static_route_def by auto blast
  with routes assms(3) show ?thesis by (rule setRoutes_made)
qed

lemma add_endpoint_made:
  assumes "add_endpoint env defs acs srv so bodies ports (ep, parent) (hp, conf) = Inr (hp', conf')"
    and "(ep, parent) \<in> set (env_order env (newEndpointMap srv so))"
    and "hosts_made env defs acs srv so (set (port_hosts ports)) conf0 conf"
  shows "hosts_made env defs acs srv so (set (port_hosts ports)) conf0 conf'"
proof -
  let ?p = "JoinOpenAPIPath [case parent of None \<Rightarrow> so_base so | Some a \<Rightarrow> api_base_path so a, ec_pattern ep]"
  let ?k = "if parent = None then EndpointKind else ApiKind"
  from assms(1) obtain h where h: "endpoint_handler env defs acs srv so bodies (ep, parent) hp = Inr (h, hp')"
    and routes: "setRoutesFromHosts conf ports ?p h ?k = Inr conf'"
    by (auto simp: add_endpoint_def Let_def split: sum.splits prod.splits)
  have "endpoint_route env defs acs srv so (?p, h)"
    using h assms(2) unfolding endpoint_route_def by blast
  then have "route_made env defs acs srv so ?k (?p, h)" by (simp add: route_made_def)
  with routes assms(3) show ?thesis by (rule setRoutes_made)
qed

lemma add_routes_made:
  assumes "add_routes env defs acs srv so ports (hp, conf) = Inr (hp', conf')"
    and "hosts_made env defs acs srv so (set (port_hosts ports)) conf0 conf"
  shows "hosts_made env defs acs srv so (set (port_hosts ports)) conf0 conf'"
proof -
  let ?I = "\<lambda>b :: build. hosts_made env defs acs srv so (set (port_hosts ports)) conf0 (snd b)"
  obtain bodies h1 where sb: "server_bodies env defs srv hp = (bodies, h1)" by fastforce
  from assms(1) sb obtain b1 b2 where
    spas: "try_fold (add_spa env defs acs srv so bodies ports) (sc_spas srv) (h1, conf) = Inr b1"
    and files: "try_fold (add_files env defs acs srv so bodies ports)
      (zip (sc_files srv) (zip (so_files_paths so) (so_files_tpls so))) b1 = Inr b2"
    and eps: "try_fold (add_endpoint env defs acs srv so bodies ports) (env_order env (newEndpointMap srv so)) b2 = Inr (hp', conf')"
    by (auto simp: add_routes_def split: sum.splits)
  have "?I b1"
    by (rule try_fold_invariant[where P = ?I, OF spas]) (auto intro: add_spa_made simp: assms(2))
  then have "?I b2"
    by (rule try_fold_invariant[where P = ?I, OF files]) (auto intro: add_files_made dest: set_zip_leftD)
  then have "?I (hp', conf')"
    by (rule try_fold_invariant[where P = ?I, OF eps]) (auto intro: add_endpoint_made)
  then show ?thesis by simp
qed

lemma add_server_made:
  assumes "add_server_conf env defs acs dp m srv (hp, conf) = Inr (hp', conf')" "0 \<le> dp" "dp \<le> max_int64"
  shows "\<exists>so. NewServerOptions env srv = Inr so \<and>
     (\<forall>port host. (port, host) \<in> entries_of dp (sc_hosts srv) \<longrightarrow> conf_lookup conf port host = None) \<and>
     hosts_made env defs acs srv so (entries_of dp (sc_hosts srv)) conf conf'"
proof -
  from assms(1) obtain so where so: "NewServerOptions env srv = Inr so"
    by (auto simp: add_server_conf_def split: sum.splits)
  from assms(1) have "validateHosts (sc_name srv) (sc_hosts srv) m = None"
    by (auto simp: add_server_conf_def split: sum.splits option.splits)
  then have valid: "valid_hosts (sc_hosts srv)" by (simp add: validateHosts_iff)
  obtain ports where ports: "getPortsHostsList (sc_hosts srv) dp = Inr ports"
    "set (port_hosts ports) = entries_of dp (sc_hosts srv)" "distinct (port_hosts ports)"
    using getPortsHostsList_valid[OF valid assms(2,3)] by blast
  from assms(1) so ports(1) obtain conf1 where claim: "claim_hosts (fresh_host so) ports conf = Inr conf1"
    and routes: "add_routes env defs acs srv so ports (hp, conf1) = Inr (hp', conf')"
    by (auto simp: add_server_conf_def split: sum.splits option.splits)
  note c = claim_hosts_result[OF claim[unfolded claim_hosts_def] ports(3)]
  have fresh: "host_made env defs acs srv so (fresh_host so)" by (simp add: host_made_def fresh_host_def)
  have "hosts_made env defs acs srv so (set (port_hosts ports)) conf conf1"
    unfolding hosts_made_def using c fresh by auto
  with routes have "hosts_made env defs acs srv so (set (port_hosts ports)) conf conf'" by (rule add_routes_made)
  moreover from c have "(port, host) \<in> set (port_hosts ports) \<longrightarrow> conf_lookup conf port host = None" for port host by auto
  ultimately show ?thesis using so ports(2) by auto
qed

definition servers_made ::
    "environment \<Rightarrow> (string \<times> body) list \<Rightarrow> (string \<rightharpoonup> error_blocks) \<Rightarrow> int \<Rightarrow> server_conf list \<Rightarrow> host_options configuration \<Rightarrow> bool" where
  "servers_made env defs acs dp servers conf \<longleftrightarrow>
     sorted_wrt (\<lambda>a b. entries_of dp (sc_hosts a) \<inter> entries_of dp (sc_hosts b) = {}) servers \<and>
     (\<forall>port host. (\<exists>srv\<in>set servers. (port, host) \<in> entries_of dp (sc_hosts srv)) \<longleftrightarrow> conf_lookup conf port host \<noteq> None) \<and>
     (\<forall>port host ho srv. conf_lookup conf port host = Some ho \<longrightarrow> srv \<in> set servers \<longrightarrow> (port, host) \<in> entries_of dp (sc_hosts srv) \<longrightarrow>
        (\<exists>so. NewServerOptions env srv = Inr so \<and> host_made env defs acs srv so ho))"

lemma all_servers_made:
  assumes "try_fold (add_server_conf env defs acs dp m) servers (hp, []) = Inr (hp', conf)" "0 \<le> dp" "dp \<le> max_int64"
  shows "servers_made env defs acs dp servers conf"
  using assms(1)
proof (induction servers arbitrary: hp' conf rule: rev_induct)
  case Nil
  then show ?case by (simp add: servers_made_def conf_lookup_def)
next
  case (snoc srv servers)
  from snoc.prems obtain hp1 conf1 where first: "try_fold (add_server_conf env defs acs dp m) servers (hp, []) = Inr (hp1, conf1)"
    and last: "add_server_conf env defs acs dp m srv (hp1, conf1) = Inr (hp', conf)"
    by (auto simp: try_fold_append split: sum.splits)
  note ih = snoc.IH[OF first]
  from add_server_made[OF last assms(2,3)] obtain so where so: "NewServerOptions env srv = Inr so"
    and free: "\<And>port host. (port, host) \<in> entries_of dp (sc_hosts srv) \<Longrightarrow> conf_lookup conf1 port host = None"
    and made: "hosts_made env defs acs srv so (entries_of dp (sc_hosts srv)) conf1 conf" by blast
  have apart: "(port, host) \<notin> entries_of dp (sc_hosts srv)" if "s \<in> set servers" "(port, host) \<in> entries_of dp (sc_hosts s)" for s port host
    using ih free that unfolding servers_made_def by blast
  have lookup: "conf_lookup conf port host = conf_lookup conf1 port host" if "(port, host) \<notin> entries_of dp (sc_hosts srv)" for port host
    using made that by (simp add: hosts_made_def)
  have own: "\<exists>ho. conf_lookup conf port host = Some ho \<and> host_made env defs acs srv so ho" if "(port, host) \<in> entries_of dp (sc_hosts srv)" for port host
    using made that by (simp add: hosts_made_def)
  show ?case
    unfolding servers_made_def
  proof (intro conjI allI impI)
    show "sorted_wrt (\<lambda>a b. entries_of dp (sc_hosts a) \<inter> entries_of dp (sc_hosts b) = {}) (servers @ [srv])"
      using ih apart by (auto simp: servers_made_def sorted_wrt_append)
    show "(\<exists>s\<in>set (servers @ [srv]). (port, host) \<in> entries_of dp (sc_hosts s)) \<longleftrightarrow> conf_lookup conf port host \<noteq> None" for port host
    proof (cases "(port, host) \<in> entries_of dp (sc_hosts srv)")
      case True
      with own[OF True] show ?thesis by auto
    next
      case False
      with ih lookup[OF False] show ?thesis by (auto simp: servers_made_def)
    qed
    show "\<exists>so. NewServerOptions env s = Inr so \<and> host_made env defs acs s so ho"
      if "conf_lookup conf port host = Some ho" "s \<in> set (servers @ [srv])" "(port, host) \<in> entries_of dp (sc_hosts s)" for port host ho s
    proof (cases "(port, host) \<in> entries_of dp (sc_hosts srv)")
      case True
      with that apart have "s = srv" by auto
      with own[OF True] that(1) so show ?thesis by auto
    next
      case False
      with that have "s \<in> set servers" by auto
      with ih lookup[OF False] that show ?thesis unfolding servers_made_def by metis
    qed
  qed
qed

lemma configuration_made:
  assumes "NewServerConfiguration env defs acs dp servers = Inr (hp, conf)" "0 \<le> dp" "dp \<le> max_int64"
  shows "servers_made env defs acs dp servers conf"
  using all_servers_made[OF assms(1)[unfolded NewServerConfiguration_def] assms(2,3)] .

text \<open>
  In an accepted configuration no host of a port belongs to two servers, and exactly the declared ones are
  served, each with the options of the server that declares it.
\<close>

theorem hosts_of_servers:
  assumes "NewServerConfiguration env defs acs dp servers = Inr (hp, conf)" "0 \<le> dp" "dp \<le> max_int64"
  shows "sorted_wrt (\<lambda>a b. entries_of dp (sc_hosts a) \<inter> entries_of dp (sc_hosts b) = {}) servers \<and>
    (case conf_lookup conf port host of
       None \<Rightarrow> \<not> (\<exists>srv\<in>set servers. (port, host) \<in> entries_of dp (sc_hosts srv))
     | Some ho \<Rightarrow> \<exists>srv\<in>set servers. (port, host) \<in> entries_of dp (sc_hosts srv) \<and> NewServerOptions env srv = Inr (ho_server ho))"
proof -
  note made = configuration_made[OF assms]
  show ?thesis
  proof (cases "conf_lookup conf port host")
    case None
    with made show ?thesis by (auto simp: servers_made_def)
  next
    case (Some ho)
    then obtain srv where srv: "srv \<in> set servers" "(port, host) \<in> entries_of dp (sc_hosts srv)"
      using made unfolding servers_made_def by blast
    with made Some obtain so where "NewServerOptions env srv = Inr so" "ho_server ho = so"
      unfolding servers_made_def host_made_def by blast
    with srv Some made show ?thesis by (auto simp: servers_made_def)
  qed
qed

text \<open>
  Property C3: a request that a route of an accepted configuration takes to an endpoint is of a server that declares the host, the
  path of the route is that of the endpoint below the base path of its API, and the request has passed, in this
  order, every access control of the server, the API and the endpoint that none of them disables, the allowed
  methods, and the required permission of the endpoint or else of the API.
\<close>

theorem endpoint_reached:
  assumes "NewServerConfiguration env defs acs dp servers = Inr (hp, conf)" "0 \<le> dp" "dp \<le> max_int64"
    and "\<And>xs. set (env_order env xs) = set xs"
    and "conf_lookup conf port host = Some ho" "(path, h) \<in> set (ho_endpoints ho)"
    and "serve controls permits h req = (ReachedEndpoint eo, r)"
  shows "\<exists>srv\<in>set servers. \<exists>so ep parent.
     (port, host) \<in> entries_of dp (sc_hosts srv) \<and> NewServerOptions env srv = Inr so \<and>
     (ep, parent) \<in> set (newEndpointMap srv so) \<and> \<not> is_catch_all parent ep \<and> eo_pattern eo = ec_pattern ep \<and>
     path = JoinOpenAPIPath [case parent of None \<Rightarrow> so_base so | Some a \<Rightarrow> api_base_path so a, ec_pattern ep] \<and>
     reached_lawfully controls permits (endpoint_controls srv parent ep)
       (allowed_set (endpoint_methods parent ep) DefaultEndpointAllowedMethods) (endpoint_permission parent ep) req r"
proof -
  note made = configuration_made[OF assms(1-3)]
  then obtain srv where srv: "srv \<in> set servers" "(port, host) \<in> entries_of dp (sc_hosts srv)"
    using assms(5) unfolding servers_made_def by blast
  with made assms(5) obtain so where so: "NewServerOptions env srv = Inr so" "host_made env defs acs srv so ho"
    unfolding servers_made_def by blast
  from so(2) assms(6) have "endpoint_route env defs acs srv so (path, h)" by (auto simp: host_made_def)
  then obtain ep parent bodies hp1 hp2 where ep: "(ep, parent) \<in> set (newEndpointMap srv so)"
    "endpoint_handler env defs acs srv so bodies (ep, parent) hp1 = Inr (h, hp2)"
    "path = JoinOpenAPIPath [case parent of None \<Rightarrow> so_base so | Some a \<Rightarrow> api_base_path so a, ec_pattern ep]"
    unfolding endpoint_route_def assms(4) by blast
  from serve_endpoint[OF ep(2) assms(7)] srv so(1) ep(1,3) show ?thesis by blast
qed

lemma file_reached:
  assumes "NewServerConfiguration env defs acs dp servers = Inr (hp, conf)" "0 \<le> dp" "dp \<le> max_int64"
    and "conf_lookup conf port host = Some ho" "(path, h) \<in> set (ho_files ho) \<union> set (ho_spas ho)"
    and "serve controls permits h req = (l, r)" "l \<noteq> Answered"
  shows "\<exists>srv\<in>set servers. \<exists>ac dac.
     ((\<exists>fc\<in>set (sc_files srv). ac = fc_ac fc \<and> dac = fc_disable_ac fc) \<or> (\<exists>sp\<in>set (sc_spas srv). ac = sp_ac sp \<and> dac = sp_disable_ac sp)) \<and>
     reached_lawfully controls permits (ac_List (ac_Merge (NewACConf (sc_ac srv) (sc_disable_ac srv)) (NewACConf ac dac)))
       (allowed_set None DefaultFileSpaAllowedMethods) None req r"
proof -
  note made = configuration_made[OF assms(1-3)]
  then obtain srv where srv: "srv \<in> set servers" "(port, host) \<in> entries_of dp (sc_hosts srv)"
    using assms(4) unfolding servers_made_def by blast
  with made assms(4) obtain so where so: "host_made env defs acs srv so ho"
    unfolding servers_made_def by blast
  with assms(5) have "static_route env defs acs srv so (path, h)" by (auto simp: host_made_def)
  then obtain content tpl ac dac cors remain bodies hp1 hp2 i where st:
    "static_handler env defs acs srv so bodies content tpl ac dac cors remain hp1 = Inr (h, hp2)"
    "(\<exists>fc\<in>set (sc_files srv). content = FileLeaf (fc_id fc) \<and> i = fc_id fc \<and> ac = fc_ac fc \<and> dac = fc_disable_ac fc) \<or>
      (\<exists>sp\<in>set (sc_spas srv). content = SpaLeaf (sp_id sp) \<and> i = sp_id sp \<and> ac = sp_ac sp \<and> dac = sp_disable_ac sp)"
    unfolding static_route_def prod.case by blast
  then have "content = FileLeaf i \<or> content = SpaLeaf i" by blast
  from serve_static[OF st(1) assms(6,7) this] st(2) srv(1) show ?thesis by blast
qed

section \<open>An example\<close>

definition demo_env :: environment where
  "demo_env = \<lparr>env_template = (\<lambda>f. None), env_backend = (\<lambda>b. None), env_spa = (\<lambda>f. None), env_files = (\<lambda>f. None),
     env_human_size = (\<lambda>s. Some 67108864), env_grow = go_grow, env_order = (\<lambda>xs. xs), env_fuel = 3\<rparr>"

definition plain_endpoint :: "string \<Rightarrow> body \<Rightarrow> endpoint_conf" where
  "plain_endpoint pattern remain = \<lparr>ec_id = 1, ec_pattern = pattern, ec_ac = [], ec_disable_ac = [], ec_methods = None, ec_error_file = [],
     ec_error_handlers = [], ec_permission = None, ec_body_limit = [], ec_proxies = [], ec_requests = [],
     ec_response = Some (Body [] []), ec_sequences = [], ec_deps = (\<lambda>n. []), ec_remain = remain\<rparr>"

definition demo_server_conf :: "string list \<Rightarrow> endpoint_conf list \<Rightarrow> server_conf" where
  "demo_server_conf controls eps = \<lparr>sc_name = ''s'', sc_hosts = [''a.b''], sc_base_path = [], sc_error_file = [], sc_ac = controls,
     sc_disable_ac = [], sc_cors = None, sc_apis = [], sc_endpoints = eps, sc_files = [], sc_spas = [], sc_remain = Body [] []\<rparr>"

definition demo_ac_request :: ac_request where
  "demo_ac_request = \<lparr>req_method = ''GET'', req_host = ''a.b'', req_path = ''/x'', req_query = [], req_header = Map.empty,
     ctx_controls = None, ctx_granted = None, ctx_required = None, ctx_error = None\<rparr>"

lemma expand_kinds_Nil: "expand_kinds ref ([] :: (string \<times> 'h) list) = []"
proof -
  have "fold expand_super sms ([] :: (string \<times> 'h) list) = []" for sms
    by (induction sms) (simp_all add: expand_super_def split: prod.splits)
  then show ?thesis by (simp add: expand_kinds_def split: option.splits)
qed

lemma no_error_handlers:
  assumes "\<And>r hs. r \<in> set refs \<Longrightarrow> defs r = Some hs \<Longrightarrow> hs = []"
  shows "error_handler_for env so tpl defs refs = Inr ([], BufNone)"
proof -
  have "build_refs (error_endpoint env so tpl) defs refs [] = Inr []"
    using assms
  proof (induction refs)
    case (Cons r refs)
    have none: "expand_kinds r (handlers_by_kind ([] :: error_blocks)) = []" by (simp add: handlers_by_kind_def expand_kinds_Nil)
    have "defs r = None \<or> defs r = Some []" using Cons.prems[of r] by (cases "defs r") auto
    moreover have "build_refs (error_endpoint env so tpl) defs refs [] = Inr []"
      by (rule Cons.IH) (use Cons.prems in auto)
    ultimately show ?case using none by auto
  qed simp
  then show ?thesis by (simp add: error_handler_for_def newErrorHandler_def)
qed

lemma demo_selectors [simp]:
  "ec_pattern (plain_endpoint p remain) = p" "ec_ac (plain_endpoint p remain) = []" "ec_disable_ac (plain_endpoint p remain) = []"
  "ec_methods (plain_endpoint p remain) = None" "ec_error_handlers (plain_endpoint p remain) = []"
  "ec_permission (plain_endpoint p remain) = None" "ec_remain (plain_endpoint p remain) = remain"
  "sc_cors (demo_server_conf controls eps) = None" "sc_ac (demo_server_conf controls eps) = controls"
  "sc_disable_ac (demo_server_conf controls eps) = []" "sc_remain (demo_server_conf controls eps) = Body [] []"
  "sc_apis (demo_server_conf controls eps) = []" "sc_endpoints (demo_server_conf controls eps) = eps"
  "sc_files (demo_server_conf controls eps) = []" "sc_spas (demo_server_conf controls eps) = []"
  "sc_name (demo_server_conf controls eps) = ''s''" "sc_hosts (demo_server_conf controls eps) = [''a.b'']"
  by (simp_all add: plain_endpoint_def demo_server_conf_def)

lemma demo_options:
  "NewServerOptions demo_env (demo_server_conf controls eps) = Inr
     \<lparr>so_api_paths = [], so_api_tpls = Map.empty, so_api_base = (\<lambda>i. the (map_of [] i)), so_files_paths = [], so_spa_paths = [],
      so_server_tpl = ''DefaultHTML'', so_server_name = ''s'', so_base = ''/'', so_files_tpls = []\<rparr>"
proof -
  have "path_join [''/'', []] = ''/''" by code_simp
  then show ?thesis by (simp add: NewServerOptions_def demo_server_conf_def demo_env_def load_template_def)
qed

lemma demo_hosts: "validateHosts ''s'' [''a.b''] m = None" "getPortsHostsList [''a.b''] 8080 = Inr [(8080, [''a.b''])]"
proof -
  have valid: "reValidFormat ''a.b''" by code_simp
  then show "validateHosts ''s'' [''a.b''] m = None" by (simp add: validateHosts_def)
  have "entry_host ''a.b'' = ''a.b''" "entry_port 8080 ''a.b'' = 8080" by code_simp+
  with valid show "getPortsHostsList [''a.b''] 8080 = Inr [(8080, [''a.b''])]"
    by (simp add: getPortsHostsList_def add_host_valid max_int64_def add_port_host_def)
qed

definition plain_endpoint_options :: "srv_options \<Rightarrow> string \<Rightarrow> body \<Rightarrow> endpoint_options" where
  "plain_endpoint_options so p remain = \<lparr>eo_api_name = [], eo_tpl = so_server_tpl so, eo_items = [], eo_depends = Map.empty,
     eo_pattern = p, eo_producers = [], eo_limit = 67108864, eo_buffer = Must [Body [] [], remain], eo_response = Some (Body [] []),
     eo_kind = [], eo_error_handler = False\<rparr>"

lemma demo_NewEndpointOptions:
  "NewEndpointOptions demo_env (plain_endpoint p remain) None so = Inr (plain_endpoint_options so p remain)"
  by (simp add: NewEndpointOptions_def endpoint_template_def load_template_def plain_endpoint_def demo_env_def
      backend_failure_def endpoint_producers_def addIndependentProducers_def SortDefault_def parseBodyLimit_def
      plain_endpoint_options_def block_bodies_def)

text \<open>The handler of an endpoint behind some controls without error handlers.\<close>

lemma demo_protected:
  assumes "list_all (\<lambda>n. acs n = Some []) controls"
  shows "try_map (control_item demo_env so tpl acs) controls = Inr (map (\<lambda>n. (n, [])) controls)"
  using assms
proof (induction controls)
  case (Cons n controls)
  then have "error_handler_for demo_env so tpl acs [n] = Inr ([], BufNone)" by (intro no_error_handlers) simp
  with Cons show ?case by (simp add: control_item_def)
qed simp

lemma demo_handler:
  assumes "list_all (\<lambda>n. acs n = Some []) controls" "controls \<noteq> []" "p \<noteq> []"
    and "endpoint_log_bodies demo_env defs bodies (plain_endpoint p remain) None hp = (sl, hp')"
  shows "\<exists>eo ms. endpoint_handler demo_env defs acs (demo_server_conf controls eps) so bodies (plain_endpoint p remain, None) hp =
     Inr (CustomLogsH sl (ProtectedH (map (\<lambda>n. (n, [])) controls)
       (AllowedMethodsH DefaultEndpointAllowedMethods (EndpointLeaf eo [] ms) (ErrorLeaf (so_server_tpl so) E_MethodNotAllowed))) ''endpoint'', hp')"
proof -
  have list: "ac_List (ac_Merge (newAC (demo_server_conf controls eps) None) (NewACConf [] [])) = controls"
    by (simp add: newAC_def NewACConf_def ac_Merge_def ac_List_def append_missing_def)
  have methods: "concat (map (method_keys (Some DefaultEndpointAllowedMethods)) DefaultEndpointAllowedMethods) = DefaultEndpointAllowedMethods"
    by code_simp
  have eh: "error_handler_for demo_env so' tpl [''endpoint'' \<mapsto> []] [''api'', ''endpoint''] = Inr ([], BufNone)" for so' tpl
    by (rule no_error_handlers) (auto split: if_splits)
  show ?thesis
    unfolding endpoint_handler_def prod.case Let_def demo_NewEndpointOptions sum.case
    using assms(2,3)
    by (simp add: endpoint_controls_def protected_endpoint_def is_catch_all_def endpoint_permission_def eh
        endpoint_methods_def allowed_methods_layer_def NewAllowedMethodsHandler_def methods configureProtectedHandler_def list
        demo_protected[OF assms(1)] cors_layer_def whichCORS_def NewCORSOptions_def plain_endpoint_options_def assms(4))
qed

lemma bodiesWithACBodies_values:
  "ac_bodies defs ac dac = [] \<Longrightarrow> bodiesWithACBodies env defs ac dac h = (nil_slice, h)"
  by (simp add: bodiesWithACBodies_def)

lemma demo_routes:
  assumes "acs ''ba'' = Some []"
  shows "\<exists>sl eo ms hp. NewServerConfiguration demo_env [] acs 8080 [demo_server_conf [''ba''] [plain_endpoint ''/x'' (Body [] [])]] =
     Inr (hp, [(8080, [(''a.b'', \<lparr>ho_endpoints = [(''/x'', CustomLogsH sl (ProtectedH [(''ba'', [])]
       (AllowedMethodsH DefaultEndpointAllowedMethods (EndpointLeaf eo [] ms) (ErrorLeaf ''DefaultHTML'' E_MethodNotAllowed))) ''endpoint'')],
       ho_files = [], ho_spas = [], ho_server = the (case NewServerOptions demo_env (demo_server_conf [''ba''] [plain_endpoint ''/x'' (Body [] [])]) of Inr so \<Rightarrow> Some so)\<rparr>)])])"
proof -
  let ?srv = "demo_server_conf [''ba''] [plain_endpoint ''/x'' (Body [] [])]"
  obtain so where so: "NewServerOptions demo_env ?srv = Inr so" "so_server_tpl so = ''DefaultHTML''" "so_base so = ''/''"
    "so_files_paths so = []" "so_spa_paths so = []"
    using demo_options by fastforce
  have map: "newEndpointMap ?srv so = [(plain_endpoint ''/x'' (Body [] []), None)]"
    by (simp add: newEndpointMap_def)
  obtain bodies hp1 where sb: "server_bodies demo_env [] ?srv empty_heap = (bodies, hp1)" by fastforce
  obtain sl hp2 where logs: "endpoint_log_bodies demo_env [] bodies (plain_endpoint ''/x'' (Body [] [])) None hp1 = (sl, hp2)" by fastforce
  obtain eo ms where h: "endpoint_handler demo_env [] acs ?srv so bodies (plain_endpoint ''/x'' (Body [] []), None) hp1 =
     Inr (CustomLogsH sl (ProtectedH [(''ba'', [])]
       (AllowedMethodsH DefaultEndpointAllowedMethods (EndpointLeaf eo [] ms) (ErrorLeaf ''DefaultHTML'' E_MethodNotAllowed))) ''endpoint'', hp2)"
    using demo_handler[OF _ _ _ logs, of acs "[''ba'']" "[plain_endpoint ''/x'' (Body [] [])]" so] assms so(2) by auto
  have path: "JoinOpenAPIPath [''/'', ''/x''] = ''/x''" by code_simp
  have order: "env_order demo_env xs = xs" for xs by (simp add: demo_env_def)
  have "try_fold (add_server_conf demo_env [] acs 8080 False) [?srv] (empty_heap, []) =
     Inr (hp2, [(8080, [(''a.b'', \<lparr>ho_endpoints = [(''/x'', CustomLogsH sl (ProtectedH [(''ba'', [])]
       (AllowedMethodsH DefaultEndpointAllowedMethods (EndpointLeaf eo [] ms) (ErrorLeaf ''DefaultHTML'' E_MethodNotAllowed))) ''endpoint'')],
       ho_files = [], ho_spas = [], ho_server = so\<rparr>)])])"
    by (simp add: add_server_conf_def so demo_hosts claim_hosts_def port_hosts_def claim_host_def conf_lookup_def conf_set_def
        add_routes_def sb order map add_endpoint_def h path setRoutesFromHosts_def set_route_def fresh_host_def)
  then show ?thesis by (auto simp: NewServerConfiguration_def so)
qed

definition demo_servers :: "server_conf list" where
  "demo_servers = [demo_server_conf [''ba''] [plain_endpoint ''/x'' (Body [] [])]]"

lemma demo_configuration:
  "\<exists>sl eo ms hp conf ho. NewServerConfiguration demo_env [] [''ba'' \<mapsto> []] 8080 demo_servers = Inr (hp, conf) \<and>
     conf_lookup conf 8080 ''a.b'' = Some ho \<and>
     ho_endpoints ho = [(''/x'', CustomLogsH sl (ProtectedH [(''ba'', [])]
       (AllowedMethodsH DefaultEndpointAllowedMethods (EndpointLeaf eo [] ms) (ErrorLeaf ''DefaultHTML'' E_MethodNotAllowed))) ''endpoint'')]"
  using demo_routes[of "[''ba'' \<mapsto> []]"] by (auto simp: conf_lookup_def demo_servers_def)

lemma hosts_of_servers_witness:
  "\<exists>hp conf ho. NewServerConfiguration demo_env [] [''ba'' \<mapsto> []] 8080 demo_servers = Inr (hp, conf) \<and>
     conf_lookup conf 8080 ''a.b'' = Some ho \<and>
     NewServerOptions demo_env (demo_server_conf [''ba''] [plain_endpoint ''/x'' (Body [] [])]) = Inr (ho_server ho)"
proof -
  obtain hp conf ho where c: "NewServerConfiguration demo_env [] [''ba'' \<mapsto> []] 8080 demo_servers = Inr (hp, conf)"
    "conf_lookup conf 8080 ''a.b'' = Some ho" using demo_configuration by blast
  with hosts_of_servers[OF c(1), of 8080 "''a.b''"] show ?thesis by (simp add: max_int64_def demo_servers_def)
qed

lemma endpoint_reached_witness:
  "\<exists>hp conf ho h eo r. NewServerConfiguration demo_env [] [''ba'' \<mapsto> []] 8080 demo_servers = Inr (hp, conf) \<and>
     conf_lookup conf 8080 ''a.b'' = Some ho \<and> ho_endpoints ho = [(''/x'', h)] \<and>
     serve (\<lambda>n r. (None, r)) (\<lambda>n r. (None, r)) h demo_ac_request = (ReachedEndpoint eo, r) \<and> eo_pattern eo = ''/x''"
proof -
  obtain sl eo ms hp conf ho where c: "NewServerConfiguration demo_env [] [''ba'' \<mapsto> []] 8080 demo_servers = Inr (hp, conf)"
    "conf_lookup conf 8080 ''a.b'' = Some ho"
    and e: "ho_endpoints ho = [(''/x'', CustomLogsH sl (ProtectedH [(''ba'', [])]
       (AllowedMethodsH DefaultEndpointAllowedMethods (EndpointLeaf eo [] ms) (ErrorLeaf ''DefaultHTML'' E_MethodNotAllowed))) ''endpoint'')]"
    using demo_configuration by blast
  let ?h = "CustomLogsH sl (ProtectedH [(''ba'', [])]
       (AllowedMethodsH DefaultEndpointAllowedMethods (EndpointLeaf eo [] ms) (ErrorLeaf ''DefaultHTML'' E_MethodNotAllowed))) ''endpoint''"
  let ?pass = "\<lambda>(n :: string) (r :: ac_request). (None :: go_error option, r)"
  have get: "to_upper ''GET'' = ''GET''" by code_simp
  then obtain r where r: "serve ?pass ?pass ?h demo_ac_request = (ReachedEndpoint eo, r)"
    by (simp add: ac_ServeHTTP_def NewItem_def item_Validate_def demo_ac_request_def DefaultEndpointAllowedMethods_def)
  have order: "set (env_order demo_env xs) = set xs" for xs by (simp add: demo_env_def)
  from endpoint_reached[OF c(1) _ _ order c(2) _ r, of "''/x''"] e obtain srv so ep parent where
    "srv \<in> set demo_servers" "(ep, parent) \<in> set (newEndpointMap srv so)" "eo_pattern eo = ec_pattern ep"
    by (auto simp: max_int64_def)
  then have "eo_pattern eo = ''/x''" by (auto simp: demo_servers_def newEndpointMap_def)
  with c e r show ?thesis by blast
qed

end
