(* ===== verification/CustomLogs.thy ===== *)
theory CustomLogs
  imports Servers
begin

text \<open>
  The bodies whose \<open>custom_log_fields\<close> a handler logs (the calls of \<open>NewCustomLogsHandler\<close> in \<open>config/runtime/server.go\<close>, and
  \<open>handler/middleware/custom_logs.go\<close>).

  All handlers of a server append to one slice. If that slice has no spare capacity, every handler keeps the bodies it
  was given; if it has, a later handler overwrites those of an earlier one.
\<close>

section \<open>Arrays that stay as they are\<close>

definition unchanged_below :: "nat \<Rightarrow> 'a heap \<Rightarrow> 'a heap \<Rightarrow> bool" where
  "unchanged_below n h h' \<longleftrightarrow> n \<le> hp_next h \<and> hp_next h \<le> hp_next h' \<and> (\<forall>a<n. hp_arrays h' a = hp_arrays h a)"

definition young :: "nat \<Rightarrow> slice \<Rightarrow> bool" where
  "young n s \<longleftrightarrow> sl_cap s = 0 \<or> n \<le> sl_array s"

text \<open>A slice to which one can append without writing into an array below \<open>n\<close>.\<close>

definition harmless :: "nat \<Rightarrow> 'a heap \<Rightarrow> slice \<Rightarrow> bool" where
  "harmless n h s \<longleftrightarrow> slice_ok h s \<and> (young n s \<or> sl_len s = sl_cap s)"

lemma unchanged_trans: "unchanged_below n h h1 \<Longrightarrow> unchanged_below n h1 h2 \<Longrightarrow> unchanged_below n h h2"
  by (auto simp: unchanged_below_def)

lemma unchanged_weaken: "unchanged_below m h h' \<Longrightarrow> n \<le> m \<Longrightarrow> unchanged_below n h h'"
  by (auto simp: unchanged_below_def)

lemma unchanged_refl: "n \<le> hp_next h \<Longrightarrow> unchanged_below n h h"
  by (simp add: unchanged_below_def)

lemma unchanged_keeps:
  assumes "unchanged_below n h h'" "slice_ok h t" "sl_cap t = 0 \<or> sl_array t < n"
  shows "keeps h h' t"
  using assms by (auto simp: unchanged_below_def keeps_def slice_ok_def elements_def)

lemma harmless_append:
  assumes "growth grow" "harmless n h s" "n \<le> hp_next h" "go_append grow s xs h = (s', h')"
  shows "unchanged_below n h h' \<and> harmless n h' s' \<and> elements h' s' = elements h s @ map Some xs \<and> (xs \<noteq> [] \<longrightarrow> young n s')"
proof (cases "xs = []")
  case True
  with assms(2,4) have "s' = s" "h' = h" by (auto simp: go_append_def harmless_def slice_ok_def)
  with True assms(2,3) show ?thesis by (simp add: unchanged_refl)
next
  case False
  have ok: "slice_ok h s" using assms(2) by (simp add: harmless_def)
  note app = growth.append_ok[OF assms(1) ok assms(4)]
  show ?thesis
  proof (cases "sl_len s + length xs \<le> sl_cap s")
    case True
    with False assms(2) have y: "n \<le> sl_array s" "sl_cap s \<noteq> 0" by (cases xs; auto simp: harmless_def young_def)+
    from True assms(4) have "s' = s\<lparr>sl_len := sl_len s + length xs\<rparr>" "hp_next h' = hp_next h"
      "\<forall>a. a \<noteq> sl_array s \<longrightarrow> hp_arrays h' a = hp_arrays h a"
      by (auto simp: go_append_def Let_def)
    with y app assms(3) show ?thesis by (auto simp: unchanged_below_def harmless_def young_def)
  next
    case overflow: False
    note fresh = growth.append_fresh[OF assms(1) ok assms(4)]
    from overflow assms(4) have "\<forall>a. a \<noteq> hp_next h \<longrightarrow> hp_arrays h' a = hp_arrays h a"
      by (auto simp: go_append_def Let_def)
    moreover have "sl_array s' = hp_next h" "hp_next h' = Suc (hp_next h)" using fresh overflow by auto
    ultimately show ?thesis using app assms(3) by (auto simp: unchanged_below_def harmless_def young_def)
  qed
qed

lemma harmless_bodies:
  assumes "growth grow" "harmless n h s" "n \<le> hp_next h"
    and "fold (\<lambda>b (s, h). go_append grow s [b] h) bs (s, h) = (s', h')"
  shows "unchanged_below n h h' \<and> harmless n h' s' \<and> elements h' s' = elements h s @ map Some bs \<and> (young n s \<longrightarrow> young n s')"
  using assms(2-4)
proof (induction bs arbitrary: s h)
  case Nil
  then show ?case by (auto simp: unchanged_refl)
next
  case (Cons b bs)
  obtain s1 h1 where app: "go_append grow s [b] h = (s1, h1)" by fastforce
  note one = harmless_append[OF assms(1) Cons.prems(1,2) app]
  then have "n \<le> hp_next h1" by (auto simp: unchanged_below_def)
  with Cons.IH[of h1 s1] one Cons.prems(3) app show ?case by (auto intro: unchanged_trans)
qed

lemma harmless_nil: "harmless n h nil_slice" "young n nil_slice"
  by (simp_all add: harmless_def young_def) (simp_all add: nil_slice_def)

lemma harmless_later:
  assumes "unchanged_below n h h'" "harmless n h s" "sl_cap s = 0 \<or> sl_array s < n"
  shows "harmless n h' s \<and> elements h' s = elements h s"
  using unchanged_keeps[OF assms(1) _ assms(3)] assms(2) by (auto simp: harmless_def keeps_def)

section \<open>The bodies of a handler\<close>

lemma ac_bodies_slice:
  assumes "growth (env_grow env)" "n \<le> hp_next h" "bodiesWithACBodies env defs ac dac h = (own, h')"
  shows "unchanged_below n h h' \<and> harmless n h' own \<and> young n own \<and> elements h' own = map Some (ac_bodies defs ac dac)"
  using harmless_bodies[OF assms(1) harmless_nil(1)[of n h] assms(2) assms(3)[unfolded bodiesWithACBodies_def]] harmless_nil(2)
  by simp

text \<open>The slice of the server: full, and in an array of its own.\<close>

definition full_slice :: "'a heap \<Rightarrow> slice \<Rightarrow> 'a list \<Rightarrow> bool" where
  "full_slice h s bs \<longleftrightarrow> slice_ok h s \<and> sl_len s = sl_cap s \<and> sl_cap s \<noteq> 0 \<and> elements h s = map Some bs"

lemma full_harmless: "full_slice h s bs \<Longrightarrow> harmless n h s"
  by (simp add: full_slice_def harmless_def)

lemma full_later: "unchanged_below n h h' \<Longrightarrow> n = hp_next h \<Longrightarrow> full_slice h s bs \<Longrightarrow> full_slice h' s bs"
  using unchanged_keeps[of n h h' s] by (auto simp: full_slice_def keeps_def slice_ok_def)

lemma later_le: "unchanged_below n h h' \<Longrightarrow> n \<le> hp_next h'"
  by (simp add: unchanged_below_def)

lemma log_bodies_slice:
  assumes "growth (env_grow env)" "n = hp_next h" "full_slice h sb bs" "log_bodies env defs sb ac dac remain h = (s, h')"
  shows "unchanged_below n h h' \<and> harmless n h' s \<and> young n s \<and> elements h' s = map Some (bs @ ac_bodies defs ac dac @ [remain])"
proof -
  obtain own h1 own' h2 where o: "bodiesWithACBodies env defs ac dac h = (own, h1)"
    and o': "go_append (env_grow env) own [remain] h1 = (own', h2)"
    and f: "append_slice env sb own' h2 = (s, h')"
    using assms(4) by (auto simp: log_bodies_def split: prod.splits)
  have 1: "unchanged_below n h h1 \<and> harmless n h1 own \<and> young n own \<and> elements h1 own = map Some (ac_bodies defs ac dac)"
    by (rule ac_bodies_slice[OF assms(1) _ o]) (simp add: assms(2))
  then have 2: "unchanged_below n h1 h2 \<and> elements h2 own' = map Some (ac_bodies defs ac dac @ [remain])"
    using harmless_append[OF assms(1) _ later_le o', of n h] by auto
  then have u: "unchanged_below n h h2" using 1 by (blast intro: unchanged_trans)
  then have full: "full_slice h2 sb bs" using full_later assms(2,3) by blast
  have app: "go_append (env_grow env) sb (ac_bodies defs ac dac @ [remain]) h2 = (s, h')"
    using f 2 by (simp add: append_slice_def)
  from harmless_append[OF assms(1) full_harmless[OF full] later_le[OF u] app] u full
  show ?thesis by (auto simp: full_slice_def intro: unchanged_trans)
qed

definition logged_bodies :: "(string \<times> body) list \<Rightarrow> body list \<Rightarrow> endpoint_conf \<Rightarrow> api_conf option \<Rightarrow> body list" where
  "logged_bodies defs bs ep parent =
     bs @ (case parent of None \<Rightarrow> [] | Some a \<Rightarrow> ac_bodies defs (ap_ac a) (ap_disable_ac a) @ [ap_remain a]) @
     ac_bodies defs (ec_ac ep) (ec_disable_ac ep) @ [ec_remain ep]"

lemma endpoint_log_slice:
  assumes "growth (env_grow env)" "n = hp_next h" "full_slice h sb bs" "endpoint_log_bodies env defs sb ep parent h = (s, h')"
  shows "unchanged_below n h h' \<and> slice_ok h' s \<and> young n s \<and> elements h' s = map Some (logged_bodies defs bs ep parent)"
proof -
  obtain bodies h1 own h2 bodies' h3 where
    b: "(case parent of None \<Rightarrow> (sb, h) | Some a \<Rightarrow> log_bodies env defs sb (ap_ac a) (ap_disable_ac a) (ap_remain a) h) = (bodies, h1)"
    and o: "bodiesWithACBodies env defs (ec_ac ep) (ec_disable_ac ep) h1 = (own, h2)"
    and b': "append_slice env bodies own h2 = (bodies', h3)" and f: "go_append (env_grow env) bodies' [ec_remain ep] h3 = (s, h')"
    using assms(4) by (auto simp: endpoint_log_bodies_def split: prod.splits)
  define first where "first = (case parent of None \<Rightarrow> [] | Some a \<Rightarrow> ac_bodies defs (ap_ac a) (ap_disable_ac a) @ [ap_remain a])"
  have 1: "unchanged_below n h h1 \<and> harmless n h1 bodies \<and> elements h1 bodies = map Some (bs @ first) \<and>
      (bodies = sb \<and> h1 = h \<or> young n bodies)"
  proof (cases parent)
    case None
    with b assms(2,3) show ?thesis by (auto simp: full_harmless unchanged_refl full_slice_def first_def)
  next
    case (Some a)
    with b log_bodies_slice[OF assms(1-3)] show ?thesis by (auto simp: first_def)
  qed
  have 2: "unchanged_below (hp_next h1) h1 h2" "elements h2 own = map Some (ac_bodies defs (ec_ac ep) (ec_disable_ac ep))"
    using ac_bodies_slice[OF assms(1) _ o, of "hp_next h1"] by auto
  have "slice_ok h1 bodies" using 1 by (simp add: harmless_def)
  then have "keeps h1 h2 bodies" by (rule unchanged_keeps[OF 2(1)]) (use \<open>slice_ok h1 bodies\<close> in \<open>auto simp: slice_ok_def\<close>)
  with 1 have 3: "harmless n h2 bodies" "elements h2 bodies = map Some (bs @ first)"
    by (auto simp: harmless_def keeps_def)
  have n1: "n \<le> hp_next h1" using 1 by (auto simp: unchanged_below_def)
  have u2: "unchanged_below n h h2" using 1 unchanged_weaken[OF 2(1) n1] by (blast intro: unchanged_trans)
  have app: "go_append (env_grow env) bodies (ac_bodies defs (ec_ac ep) (ec_disable_ac ep)) h2 = (bodies', h3)"
    using b' 2(2) by (simp add: append_slice_def)
  note 4 = harmless_append[OF assms(1) 3(1) later_le[OF u2] app]
  then have u3: "unchanged_below n h h3" using u2 by (blast intro: unchanged_trans)
  note 5 = harmless_append[OF assms(1) _ later_le[OF u3] f]
  from 4 5 u3 3(2) show ?thesis
    by (auto simp: logged_bodies_def first_def harmless_def intro: unchanged_trans)
qed

section \<open>All endpoints of a server\<close>

fun log_all ::
    "environment \<Rightarrow> (string \<times> body) list \<Rightarrow> slice \<Rightarrow> (endpoint_conf \<times> api_conf option) list \<Rightarrow> body heap \<Rightarrow> slice list \<times> body heap" where
  "log_all env defs sb [] h = ([], h)"
| "log_all env defs sb ((ep, parent) # eps) h =
     (case endpoint_log_bodies env defs sb ep parent h of
        (s, h1) \<Rightarrow> (case log_all env defs sb eps h1 of (ss, h2) \<Rightarrow> (s # ss, h2)))"

lemma log_all_slices:
  assumes "growth (env_grow env)" "full_slice h sb bs" "log_all env defs sb eps h = (ss, h')"
  shows "unchanged_below (hp_next h) h h' \<and>
    list_all2 (\<lambda>(ep, parent) s. elements h' s = map Some (logged_bodies defs bs ep parent)) eps ss"
  using assms(2,3)
proof (induction eps arbitrary: h ss)
  case Nil
  then show ?case by (simp add: unchanged_refl)
next
  case (Cons e eps)
  obtain ep parent where e: "e = (ep, parent)" by (cases e)
  from Cons.prems(2) obtain s h1 ss' where one: "endpoint_log_bodies env defs sb ep parent h = (s, h1)"
    and rest: "log_all env defs sb eps h1 = (ss', h')" and ss: "ss = s # ss'"
    by (auto simp: e split: prod.splits)
  note 1 = endpoint_log_slice[OF assms(1) refl Cons.prems(1) one]
  then have full: "full_slice h1 sb bs" using full_later Cons.prems(1) by blast
  note ih = Cons.IH[OF full rest]
  have "keeps h1 h' s" by (rule unchanged_keeps[of "hp_next h1"]) (use ih 1 in \<open>auto simp: slice_ok_def\<close>)
  moreover have "unchanged_below (hp_next h) h h'"
    using 1 ih unchanged_weaken[of "hp_next h1" h1 h' "hp_next h"] by (auto intro: unchanged_trans simp: unchanged_below_def)
  ultimately show ?case using ih 1 by (auto simp: e ss keeps_def)
qed

section \<open>The capacity of the slice of a server\<close>

text \<open>The capacity after some single appends to a nil slice.\<close>

fun cap_of :: "(nat \<Rightarrow> nat \<Rightarrow> nat) \<Rightarrow> nat \<Rightarrow> nat" where
  "cap_of grow 0 = 0"
| "cap_of grow (Suc n) = (if n < cap_of grow n then cap_of grow n else grow (cap_of grow n) (Suc n))"

lemma go_capacities:
  "cap_of go_grow 1 = 1" "cap_of go_grow 2 = 2" "cap_of go_grow 3 = 4" "cap_of go_grow 4 = 4" "cap_of go_grow 5 = 8"
  by (simp_all add: go_grow_def numeral_eq_Suc)

lemma append_capacity:
  assumes "growth grow" "slice_ok h s" "sl_cap s = cap_of grow (sl_len s)" "go_append grow s [b] h = (s', h')"
  shows "slice_ok h' s' \<and> sl_len s' = Suc (sl_len s) \<and> sl_cap s' = cap_of grow (sl_len s')"
  using growth.append_ok[OF assms(1,2,4)] assms(2,3) by (auto simp: slice_ok_def Suc_le_eq)

lemma bodies_capacity:
  assumes "growth grow" "slice_ok h s" "sl_cap s = cap_of grow (sl_len s)"
    and "fold (\<lambda>b (s, h). go_append grow s [b] h) bs (s, h) = (s', h')"
  shows "slice_ok h' s' \<and> sl_len s' = sl_len s + length bs \<and> sl_cap s' = cap_of grow (sl_len s')"
  using assms(2-4)
proof (induction bs arbitrary: s h)
  case (Cons b bs)
  obtain s1 h1 where app: "go_append grow s [b] h = (s1, h1)" by fastforce
  from Cons.IH[of h1 s1] append_capacity[OF assms(1) Cons.prems(1,2) app] Cons.prems(3) app show ?case by simp
qed simp

definition server_body_list :: "(string \<times> body) list \<Rightarrow> server_conf \<Rightarrow> body list" where
  "server_body_list defs srv = ac_bodies defs (sc_ac srv) (sc_disable_ac srv) @ [sc_remain srv]"

definition no_spare_capacity :: "(nat \<Rightarrow> nat \<Rightarrow> nat) \<Rightarrow> nat \<Rightarrow> bool" where
  "no_spare_capacity grow n \<longleftrightarrow> cap_of grow n = n"

lemma server_bodies_full:
  assumes "growth (env_grow env)" "no_spare_capacity (env_grow env) (length (server_body_list defs srv))"
    and "server_bodies env defs srv h = (sb, h')"
  shows "full_slice h' sb (server_body_list defs srv)"
proof -
  let ?bs = "ac_bodies defs (sc_ac srv) (sc_disable_ac srv)"
  obtain s1 h1 where b: "bodiesWithACBodies env defs (sc_ac srv) (sc_disable_ac srv) h = (s1, h1)"
    and a: "go_append (env_grow env) s1 [sc_remain srv] h1 = (sb, h')"
    using assms(3) by (auto simp: server_bodies_def split: prod.splits)
  have "sl_cap nil_slice = cap_of (env_grow env) (sl_len nil_slice)" by (simp add: nil_slice_def)
  from bodies_capacity[OF assms(1) slice_ok_nil this b[unfolded bodiesWithACBodies_def]]
  have 1: "slice_ok h1 s1" "sl_cap s1 = cap_of (env_grow env) (sl_len s1)" "sl_len s1 = length ?bs"
    by (simp_all add: nil_slice_def)
  have e: "elements h1 s1 = map Some ?bs" using ac_bodies_slice[OF assms(1) order_refl b] by simp
  note 2 = append_capacity[OF assms(1) 1(1,2) a] growth.append_ok[OF assms(1) 1(1) a]
  from 2 1(3) assms(2) e show ?thesis
    by (auto simp: full_slice_def server_body_list_def no_spare_capacity_def)
qed

section \<open>The routes of a server\<close>

definition has_route :: "(int \<times> string) \<Rightarrow> string \<Rightarrow> rt_handler \<Rightarrow> host_options configuration \<Rightarrow> bool" where
  "has_route ph p h conf \<longleftrightarrow>
     (\<exists>ho. conf_lookup conf (fst ph) (snd ph) = Some ho \<and> map_of (ho_endpoints ho) p = Some h)"

lemma set_route_keeps:
  assumes "set_route kind p h ph conf = Inr conf'" "has_route q p' h' conf"
  shows "has_route q p' h' conf'"
  using assms by (cases ph; cases kind) (auto simp: set_route_def has_route_def split: option.splits if_splits)

lemma setRoutes_keep:
  assumes "setRoutesFromHosts conf ports p h kind = Inr conf'" "has_route q p' h' conf"
  shows "has_route q p' h' conf'"
  by (rule try_fold_invariant[where P = "has_route q p' h'", OF assms(1)[unfolded setRoutesFromHosts_def] assms(2)])
    (rule set_route_keeps)

lemma set_routes_sets:
  assumes "try_fold (set_route kind p h) phs conf = Inr conf'" "ph \<in> set phs" "kind = EndpointKind \<or> kind = ApiKind"
  shows "has_route ph p h conf'"
  using assms(1,2)
proof (induction phs arbitrary: conf)
  case (Cons q phs)
  from Cons.prems(1) obtain conf1 where one: "set_route kind p h q conf = Inr conf1"
    and rest: "try_fold (set_route kind p h) phs conf1 = Inr conf'" by (auto split: sum.splits)
  show ?case
  proof (cases "ph = q")
    case True
    with one assms(3) have "has_route ph p h conf1"
      by (cases q) (auto simp: set_route_def has_route_def split: option.splits if_splits)
    then show ?thesis by (rule try_fold_invariant[where P = "has_route ph p h", OF rest]) (rule set_route_keeps)
  qed (use Cons rest in auto)
qed simp

definition endpoint_path :: "srv_options \<Rightarrow> endpoint_conf \<Rightarrow> api_conf option \<Rightarrow> string" where
  "endpoint_path so ep parent =
     JoinOpenAPIPath [case parent of None \<Rightarrow> so_base so | Some a \<Rightarrow> api_base_path so a, ec_pattern ep]"

lemma add_endpoint_logs:
  assumes "add_endpoint env defs acs srv so sb ports (ep, parent) (h, conf) = Inr (h', conf')"
  shows "\<exists>s c k. endpoint_log_bodies env defs sb ep parent h = (s, h') \<and>
    (\<forall>ph\<in>set (port_hosts ports). has_route ph (endpoint_path so ep parent) (CustomLogsH s c k) conf')"
proof -
  from assms obtain hd where hd: "endpoint_handler env defs acs srv so sb (ep, parent) h = Inr (hd, h')"
    and routes: "setRoutesFromHosts conf ports (endpoint_path so ep parent) hd (if parent = None then EndpointKind else ApiKind) = Inr conf'"
    by (auto simp: add_endpoint_def endpoint_path_def Let_def split: sum.splits prod.splits)
  from hd obtain s c k where "hd = CustomLogsH s c k" "endpoint_log_bodies env defs sb ep parent h = (s, h')"
    by (auto simp: endpoint_handler_def Let_def split: if_splits sum.splits prod.splits)
  moreover have "\<forall>ph\<in>set (port_hosts ports). has_route ph (endpoint_path so ep parent) hd conf'"
    using set_routes_sets[OF routes[unfolded setRoutesFromHosts_def]] by (cases parent) auto
  ultimately show ?thesis by auto
qed

lemma add_endpoints_logs:
  assumes "growth (env_grow env)" "full_slice h sb bs"
    and "try_fold (add_endpoint env defs acs srv so sb ports) eps (h, conf) = Inr (h', conf')"
  shows "unchanged_below (hp_next h) h h' \<and>
    (\<forall>(ep, parent)\<in>set eps. \<exists>s c k. elements h' s = map Some (logged_bodies defs bs ep parent) \<and>
       (\<forall>ph\<in>set (port_hosts ports). has_route ph (endpoint_path so ep parent) (CustomLogsH s c k) conf'))"
  using assms(2,3)
proof (induction eps arbitrary: h conf)
  case Nil
  then show ?case by (simp add: unchanged_refl)
next
  case (Cons e eps)
  obtain ep parent where e: "e = (ep, parent)" by (cases e)
  from Cons.prems(2) obtain h1 conf1 where one: "add_endpoint env defs acs srv so sb ports (ep, parent) (h, conf) = Inr (h1, conf1)"
    and rest: "try_fold (add_endpoint env defs acs srv so sb ports) eps (h1, conf1) = Inr (h', conf')"
    by (auto simp: e split: sum.splits)
  from add_endpoint_logs[OF one] obtain s c k where l: "endpoint_log_bodies env defs sb ep parent h = (s, h1)"
    and r: "\<forall>ph\<in>set (port_hosts ports). has_route ph (endpoint_path so ep parent) (CustomLogsH s c k) conf1" by blast
  note 1 = endpoint_log_slice[OF assms(1) refl Cons.prems(1) l]
  then have full: "full_slice h1 sb bs" using full_later Cons.prems(1) by blast
  note ih = Cons.IH[OF full rest]
  have "keeps h1 h' s" by (rule unchanged_keeps[of "hp_next h1"]) (use ih 1 in \<open>auto simp: slice_ok_def\<close>)
  then have own: "elements h' s = map Some (logged_bodies defs bs ep parent)" using 1 by (simp add: keeps_def)
  have "has_route ph (endpoint_path so ep parent) (CustomLogsH s c k) conf'" if "ph \<in> set (port_hosts ports)" for ph
  proof -
    have "has_route ph (endpoint_path so ep parent) (CustomLogsH s c k) (snd (h1, conf1))" using r that by simp
    then have "has_route ph (endpoint_path so ep parent) (CustomLogsH s c k) (snd (h', conf'))"
      by (rule try_fold_invariant[where P = "\<lambda>b. has_route ph (endpoint_path so ep parent) (CustomLogsH s c k) (snd b)", OF rest])
        (auto simp: add_endpoint_def Let_def split: sum.splits prod.splits dest: setRoutes_keep)
    then show ?thesis by simp
  qed
  moreover have "unchanged_below (hp_next h) h h'"
    using 1 ih unchanged_weaken[of "hp_next h1" h1 h' "hp_next h"] by (auto intro: unchanged_trans simp: unchanged_below_def)
  ultimately have r1: "\<exists>s c k. elements h' s = map Some (logged_bodies defs bs ep parent) \<and>
      (\<forall>ph\<in>set (port_hosts ports). has_route ph (endpoint_path so ep parent) (CustomLogsH s c k) conf')"
    and "unchanged_below (hp_next h) h h'" using own by blast+
  then show ?case using ih by (simp add: e)
qed

lemma static_full:
  assumes "growth (env_grow env)" "full_slice h sb bs"
    and "static_handler env defs acs srv so sb content tpl ac dac cors remain h = Inr (handler, h')"
  shows "full_slice h' sb bs"
proof -
  from assms(3) obtain s where "log_bodies env defs sb ac dac remain h = (s, h')"
    by (auto simp: static_handler_def Let_def split: sum.splits prod.splits)
  from log_bodies_slice[OF assms(1) refl assms(2) this] show ?thesis using full_later assms(2) by blast
qed

text \<open>
  Property C26: if the slice of the bodies of a server has no spare capacity, the route of each of its endpoints logs the
  fields of the server with its controls, of the API with its controls, of the controls of the endpoint, and of the endpoint, in this order.
\<close>

theorem custom_logs_kept:
  assumes "growth (env_grow env)" "no_spare_capacity (env_grow env) (length (server_body_list defs srv))"
    and "add_routes env defs acs srv so ports (h0, conf) = Inr (h', conf')"
    and "(ep, parent) \<in> set (env_order env (newEndpointMap srv so))" "ph \<in> set (port_hosts ports)"
  shows "\<exists>s c k. has_route ph (endpoint_path so ep parent) (CustomLogsH s c k) conf' \<and>
    elements h' s = map Some (logged_bodies defs (server_body_list defs srv) ep parent)"
proof -
  obtain sb h1 where sb: "server_bodies env defs srv h0 = (sb, h1)" by fastforce
  let ?full = "\<lambda>b :: build. full_slice (fst b) sb (server_body_list defs srv)"
  from assms(3) sb obtain b1 b2 where
    spas: "try_fold (add_spa env defs acs srv so sb ports) (sc_spas srv) (h1, conf) = Inr b1"
    and files: "try_fold (add_files env defs acs srv so sb ports)
      (zip (sc_files srv) (zip (so_files_paths so) (so_files_tpls so))) b1 = Inr b2"
    and eps: "try_fold (add_endpoint env defs acs srv so sb ports) (env_order env (newEndpointMap srv so)) b2 = Inr (h', conf')"
    by (auto simp: add_routes_def split: sum.splits)
  have "?full (h1, conf)" using server_bodies_full[OF assms(1,2) sb] by simp
  then have "?full b1"
    by (rule try_fold_invariant[where P = ?full, OF spas])
      (auto simp: add_spa_def split: option.splits sum.splits prod.splits dest: static_full[OF assms(1)])
  then have "?full b2"
    by (rule try_fold_invariant[where P = ?full, OF files])
      (auto simp: add_files_def split: option.splits sum.splits prod.splits dest: static_full[OF assms(1)])
  then show ?thesis
    using add_endpoints_logs[OF assms(1), of "fst b2" sb _ defs acs srv so ports _ "snd b2"] eps assms(4,5) by fastforce
qed

lemma custom_logs_kept_witness:
  "\<exists>hp conf s c k. NewServerConfiguration demo_env [] [''ba'' \<mapsto> []] 8080 demo_servers = Inr (hp, conf) \<and>
     has_route (8080, ''a.b'') ''/x'' (CustomLogsH s c k) conf \<and> elements hp s = [Some (Body [] []), Some (Body [] [])]"
proof -
  let ?acs = "[''ba'' \<mapsto> []] :: string \<rightharpoonup> error_blocks"
  let ?ep = "plain_endpoint ''/x'' (Body [] [])"
  let ?srv = "demo_server_conf [''ba''] [?ep]"
  obtain hp conf where c: "NewServerConfiguration demo_env [] ?acs 8080 demo_servers = Inr (hp, conf)"
    using demo_configuration by blast
  then have "add_server_conf demo_env [] ?acs 8080 False ?srv (empty_heap, []) = Inr (hp, conf)"
    by (simp add: NewServerConfiguration_def demo_servers_def split: sum.splits)
  then obtain so conf1 where so: "NewServerOptions demo_env ?srv = Inr so"
    and routes: "add_routes demo_env [] ?acs ?srv so [(8080, [''a.b''])] (empty_heap, conf1) = Inr (hp, conf)"
    by (auto simp: add_server_conf_def demo_hosts split: sum.splits)
  have base: "so_base so = ''/''" using so demo_options by fastforce
  have grow: "env_grow demo_env = go_grow" and order: "env_order demo_env xs = xs" for xs by (simp_all add: demo_env_def)
  have list: "server_body_list [] ?srv = [Body [] []]" by (simp add: server_body_list_def ac_bodies_def)
  have "no_spare_capacity (env_grow demo_env) (length (server_body_list [] ?srv))"
    using go_capacities(1) by (simp add: no_spare_capacity_def grow list)
  moreover have "(?ep, None) \<in> set (env_order demo_env (newEndpointMap ?srv so))"
    by (simp add: order newEndpointMap_def)
  moreover have "(8080, ''a.b'') \<in> set (port_hosts [(8080, [''a.b''])])" by (simp add: port_hosts_def)
  ultimately obtain s c' k where s: "has_route (8080, ''a.b'') (endpoint_path so ?ep None) (CustomLogsH s c' k) conf"
    "elements hp s = map Some (logged_bodies [] [Body [] []] ?ep None)"
    using custom_logs_kept[OF _ _ routes] runtime.growth_axioms unfolding grow list by blast
  have "JoinOpenAPIPath [''/'', ''/x''] = ''/x''" by code_simp
  then have "endpoint_path so ?ep None = ''/x''" by (simp add: endpoint_path_def base)
  with c s show ?thesis by (auto simp: logged_bodies_def ac_bodies_def)
qed

section \<open>A server with two controls\<close>

definition two_controls :: "(string \<times> body) list" where
  "two_controls = [(''ba'', Body [] []), (''jw'', Body [] [])]"

definition logging :: "string \<Rightarrow> body" where
  "logging n = Body [\<lparr>at_name = n, at_variables = []\<rparr>] []"

definition two_endpoints :: server_conf where
  "two_endpoints = demo_server_conf [''ba'', ''jw''] [plain_endpoint ''/x'' (logging ''x''), plain_endpoint ''/y'' (logging ''y'')]"

lemma two_controls_bodies:
  "ac_bodies two_controls [''ba'', ''jw''] [] = [Body [] [], Body [] []]"
  by (simp add: ac_bodies_def two_controls_def ac_List_def NewACConf_def)

lemma no_controls: "ac_bodies defs [] [] = []"
  by (induction defs) (simp_all add: ac_bodies_def ac_List_def NewACConf_def case_prod_beta)

text \<open>
  With two controls of the server the slice has three bodies and room for a fourth: the endpoint that is made last
  writes its own fields there, and the first endpoint logs them instead of its own.
\<close>

theorem custom_logs_overwritten:
  "case NewServerConfiguration demo_env two_controls [''ba'' \<mapsto> [], ''jw'' \<mapsto> []] 8080 [two_endpoints] of
     Inl e \<Rightarrow> False
   | Inr (h, conf) \<Rightarrow> \<exists>s c k. has_route (8080, ''a.b'') ''/x'' (CustomLogsH s c k) conf \<and>
       elements h s = map Some [Body [] [], Body [] [], Body [] [], logging ''y'']"
proof -
  let ?eps = "[plain_endpoint ''/x'' (logging ''x''), plain_endpoint ''/y'' (logging ''y'')]"
  let ?acs = "[''ba'' \<mapsto> [], ''jw'' \<mapsto> []] :: string \<rightharpoonup> error_blocks"
  obtain so where so: "NewServerOptions demo_env two_endpoints = Inr so" "so_server_tpl so = ''DefaultHTML''" "so_base so = ''/''"
    "so_files_paths so = []" "so_spa_paths so = []"
    using demo_options unfolding two_endpoints_def by fastforce
  have map: "newEndpointMap two_endpoints so = [(plain_endpoint ''/x'' (logging ''x''), None), (plain_endpoint ''/y'' (logging ''y''), None)]"
    by (simp add: newEndpointMap_def two_endpoints_def)
  have grow: "env_grow demo_env = go_grow" by (simp add: demo_env_def)
  let ?sb = "\<lparr>sl_array = 2, sl_len = 3, sl_cap = 4\<rparr>" and ?s = "\<lparr>sl_array = 2, sl_len = 4, sl_cap = 4\<rparr>"
  obtain h1 where sb: "server_bodies demo_env two_controls two_endpoints empty_heap = (?sb, h1)"
    "hp_arrays h1 2 = [Some (Body [] []), Some (Body [] []), Some (Body [] []), None]"
    by (simp add: server_bodies_def two_endpoints_def bodiesWithACBodies_def two_controls_bodies grow go_append_def Let_def
        nil_slice_def empty_heap_def go_grow_def numeral_eq_Suc)
  have own: "endpoint_log_bodies demo_env two_controls ?sb (plain_endpoint p (logging n)) None h =
      (?s, h\<lparr>hp_arrays := (hp_arrays h)(2 := take 3 (hp_arrays h 2) @ [Some (logging n)] @ drop 4 (hp_arrays h 2))\<rparr>)" for p n h
    by (simp add: endpoint_log_bodies_def bodiesWithACBodies_def no_controls append_slice_def go_append_def Let_def nil_slice_def elements_def)
  let ?h2 = "h1\<lparr>hp_arrays := (hp_arrays h1)(2 := take 3 (hp_arrays h1 2) @ [Some (logging ''x'')] @ drop 4 (hp_arrays h1 2))\<rparr>"
  let ?h3 = "?h2\<lparr>hp_arrays := (hp_arrays ?h2)(2 := take 3 (hp_arrays ?h2 2) @ [Some (logging ''y'')] @ drop 4 (hp_arrays ?h2 2))\<rparr>"
  obtain eo1 ms1 where x: "endpoint_handler demo_env two_controls ?acs two_endpoints so ?sb (plain_endpoint ''/x'' (logging ''x''), None) h1 =
     Inr (CustomLogsH ?s (ProtectedH [(''ba'', []), (''jw'', [])]
       (AllowedMethodsH DefaultEndpointAllowedMethods (EndpointLeaf eo1 [] ms1) (ErrorLeaf ''DefaultHTML'' E_MethodNotAllowed))) ''endpoint'', ?h2)"
    using demo_handler[OF _ _ _ own[of "''/x''" "''x''" h1], where acs = ?acs and controls = "[''ba'', ''jw'']" and so = so and eps = ?eps] so(2)
    unfolding two_endpoints_def by fastforce
  obtain eo2 ms2 where y: "endpoint_handler demo_env two_controls ?acs two_endpoints so ?sb (plain_endpoint ''/y'' (logging ''y''), None) ?h2 =
     Inr (CustomLogsH ?s (ProtectedH [(''ba'', []), (''jw'', [])]
       (AllowedMethodsH DefaultEndpointAllowedMethods (EndpointLeaf eo2 [] ms2) (ErrorLeaf ''DefaultHTML'' E_MethodNotAllowed))) ''endpoint'', ?h3)"
    using demo_handler[OF _ _ _ own[of "''/y''" "''y''" ?h2], where acs = ?acs and controls = "[''ba'', ''jw'']" and so = so and eps = ?eps] so(2)
    unfolding two_endpoints_def by fastforce
  have path: "JoinOpenAPIPath [''/'', ''/x''] = ''/x''" "JoinOpenAPIPath [''/'', ''/y''] = ''/y''" by code_simp+
  have order: "env_order demo_env xs = xs" for xs by (simp add: demo_env_def)
  have sel: "sc_name two_endpoints = ''s''" "sc_hosts two_endpoints = [''a.b'']" "sc_spas two_endpoints = []" "sc_files two_endpoints = []"
    by (simp_all add: two_endpoints_def)
  have "\<exists>ho c k. try_fold (add_server_conf demo_env two_controls ?acs 8080 False) [two_endpoints] (empty_heap, []) =
      Inr (?h3, [(8080, [(''a.b'', ho)])]) \<and> map_of (ho_endpoints ho) ''/x'' = Some (CustomLogsH ?s c k)"
    using x y
    by (simp add: add_server_conf_def so demo_hosts sel claim_hosts_def port_hosts_def claim_host_def conf_lookup_def conf_set_def
        add_routes_def sb(1) order map add_endpoint_def path setRoutesFromHosts_def set_route_def fresh_host_def)
  moreover have "elements ?h3 ?s = map Some [Body [] [], Body [] [], Body [] [], logging ''y'']"
    by (simp add: elements_def sb(2))
  ultimately show ?thesis
    by (auto simp: NewServerConfiguration_def has_route_def conf_lookup_def)
qed

end
