(* ===== verification/Configure.thy ===== *)
theory Configure
  imports Validate Servers
begin

text \<open>
  The servers of a configuration after decoding (\<open>config/configload/helper.go\<close>, \<open>endpoint.go\<close>, \<open>validate.go\<close>), and the
  access controls that the run time makes (\<open>config/runtime/server.go\<close>, \<open>access_control.go\<close>).

  The records are those of \<open>Servers\<close>. What other parts of the loading contribute is in the record \<open>loading\<close>: the
  preparation of a backend (\<open>PrepareBackend\<close>), the sequences of an endpoint, whose makeion is in
  \<open>Sequence\<close>, error handlers, whose makeion is in \<open>ErrorHandlers\<close>, and whether
  \<open>disable_access_control\<close> is given at all, since the records do not tell an empty list from none.
\<close>

section \<open>References to access controls\<close>

record ac_definitions =
  ad_basic :: "(string \<times> error_blocks) list"
  ad_jwt :: "(string \<times> error_blocks) list"
  ad_saml :: "(string \<times> error_blocks) list"
  ad_oauth2 :: "(string \<times> error_blocks) list"
  ad_oidc :: "(string \<times> error_blocks) list"

definition getDefinedACs :: "ac_definitions \<Rightarrow> string set" where
  "getDefinedACs d =
     fst ` set (ad_basic d) \<union> fst ` set (ad_jwt d) \<union> fst ` set (ad_oauth2 d) \<union> fst ` set (ad_oidc d) \<union> fst ` set (ad_saml d)"

definition undefined_control :: "string set \<Rightarrow> string list \<Rightarrow> check_error option" where
  "undefined_control definedACs names =
     map_option (\<lambda>n. Diag ''referenced access control %q is not defined'' [trim_space n])
       (find (\<lambda>n. trim_space n \<noteq> [] \<and> trim_space n \<notin> definedACs) names)"

definition checkReferencedAccessControls :: "string list \<Rightarrow> string list \<Rightarrow> string set \<Rightarrow> check_error option" where
  "checkReferencedAccessControls acs dacs definedACs =
     (case undefined_control definedACs acs of Some e \<Rightarrow> Some e | None \<Rightarrow> undefined_control definedACs dacs)"

datatype ac_kind = BasicAuthAC | JwtAC | SamlAC | OAuth2AC | OidcAC

text \<open>\<open>ACDefinitions.Add\<close>.\<close>

definition ac_Add :: "string \<Rightarrow> error_blocks \<Rightarrow> (string \<rightharpoonup> error_blocks) \<Rightarrow> (string \<rightharpoonup> error_blocks)" where
  "ac_Add name eh m = m(trim_space name \<mapsto> eh)"

text \<open>\<open>new_ac\<close> makes the control itself, or gives the text of an error.\<close>

definition configureAccessControls ::
    "(ac_kind \<Rightarrow> string \<Rightarrow> string option) \<Rightarrow> ac_definitions \<Rightarrow> (string \<times> string) + (string \<rightharpoonup> error_blocks)" where
  "configureAccessControls new_ac d =
     (let kind = (\<lambda>k. map (Pair k)) in
      try_fold (\<lambda>(k, name, eh) m. case new_ac k name of Some e \<Rightarrow> Inl (name, e) | None \<Rightarrow> Inr (ac_Add name eh m))
        (kind BasicAuthAC (ad_basic d) @ kind JwtAC (ad_jwt d) @ kind SamlAC (ad_saml d) @
         kind OAuth2AC (ad_oauth2 d) @ kind OidcAC (ad_oidc d)) Map.empty)"

section \<open>Endpoints\<close>

record loading =
  lo_backend :: "body \<Rightarrow> check_error + body"
  lo_sequences :: "endpoint_conf \<Rightarrow> check_error + string list \<times> deps_map"
  lo_error_handlers :: "error_blocks \<Rightarrow> check_error + error_blocks"
  lo_disables :: "endpoint_conf \<Rightarrow> bool"

definition newCatchAllEndpoint :: endpoint_conf where
  "newCatchAllEndpoint =
     \<lparr>ec_id = 0, ec_pattern = ''/**'', ec_ac = [], ec_disable_ac = [], ec_methods = None, ec_error_file = [],
      ec_error_handlers = [], ec_permission = None, ec_body_limit = [], ec_proxies = [], ec_requests = [],
      ec_response = Some (Body [\<lparr>at_name = ''status'', at_variables = []\<rparr>] []),
      ec_sequences = [], ec_deps = (\<lambda>n. []), ec_remain = Body [] []\<rparr>"

text \<open>The attributes of a body for the checks of \<open>Validate\<close>.\<close>

definition attrs_block :: "body \<Rightarrow> unit block" where
  "attrs_block b = Block [] [] (map (\<lambda>a. (at_name a, ())) (body_attributes b)) []"

definition RenameAttribute :: "string \<Rightarrow> string \<Rightarrow> body \<Rightarrow> body" where
  "RenameAttribute old new b =
     (if old \<in> at_name ` set (body_attributes b)
      then Body (map (\<lambda>a. if at_name a = old then a\<lparr>at_name := new\<rparr> else a)
             (filter (\<lambda>a. at_name a \<noteq> new) (body_attributes b))) (body_blocks b)
      else b)"

definition getWebsocketsConfig :: "proxy_conf \<Rightarrow> check_error + bool \<times> bool" where
  "getWebsocketsConfig p =
     (let hasWebsocketBlocks = (''websockets'' \<in> fst ` set (body_blocks (pc_body p))) in
      case pc_websockets p of
        Some w \<Rightarrow>
          if hasWebsocketBlocks then Inl (Diag ''either websockets attribute or block is allowed'' [])
          else Inr (w, w)
      | None \<Rightarrow> Inr (hasWebsocketBlocks, False))"

text \<open>The names that proxies and requests have used, and those that must be unique.\<close>

type_synonym producer_names = "string set \<times> string set"

definition name_producer :: "bool \<Rightarrow> string \<Rightarrow> producer_names \<Rightarrow> check_error + string \<times> producer_names" where
  "name_producer labelRequired name0 = (\<lambda>(names, unique).
     let name = (if name0 = [] then ''default'' else name0) in
     case validLabel name of
       Some e \<Rightarrow> Inl e
     | None \<Rightarrow>
         if labelRequired
         then map_sum id (\<lambda>u. (name, insert name names, u)) (uniqueLabelName ''proxy and request'' unique name)
         else Inr (name, insert name names, unique))"

definition refine_proxy ::
    "loading \<Rightarrow> bool \<Rightarrow> bool \<Rightarrow> proxy_conf \<Rightarrow> proxy_conf list \<times> producer_names \<Rightarrow> check_error + proxy_conf list \<times> producer_names" where
  "refine_proxy lo labelRequired response p = (\<lambda>(ps, st).
     case name_producer labelRequired (pc_name p) st of
       Inl e \<Rightarrow> Inl e
     | Inr (name, st') \<Rightarrow>
        (case getWebsocketsConfig p of
           Inl e \<Rightarrow> Inl e
         | Inr (enabled, added) \<Rightarrow>
            if enabled \<and> name \<noteq> ''default''
            then Inl (Diag (''websockets attribute or block is only allowed in a 'default' proxy block'') [])
            else if enabled \<and> (labelRequired \<or> response)
            then Inl (Diag ''websockets are allowed in the endpoint; other 'proxy', 'request' or 'response' blocks are not allowed'' [])
            else (let body = (if added then Body (body_attributes (pc_body p)) (body_blocks (pc_body p) @ [(''websockets'', Body [] [])])
                              else pc_body p) in
              map_sum id (\<lambda>b. (ps @ [p\<lparr>pc_name := name, pc_body := body, pc_backend := b\<rparr>], st')) (lo_backend lo body))))"

definition refine_request ::
    "loading \<Rightarrow> bool \<Rightarrow> call_conf \<Rightarrow> call_conf list \<times> producer_names \<Rightarrow> check_error + call_conf list \<times> producer_names" where
  "refine_request lo labelRequired r = (\<lambda>(rs, st).
     case name_producer labelRequired (cc_name r) st of
       Inl e \<Rightarrow> Inl e
     | Inr (name, st') \<Rightarrow>
        (case verifyBodyAttributes ''request'' (attrs_block (cc_body r)) of
           Some e \<Rightarrow> Inl e
         | None \<Rightarrow>
            (let body = RenameAttribute ''query_params'' ''set_query_params''
                          (RenameAttribute ''headers'' ''set_request_headers'' (cc_body r)) in
              map_sum id (\<lambda>b. (rs @ [r\<lparr>cc_name := name, cc_body := body, cc_backend := b\<rparr>], st')) (lo_backend lo body))))"

definition refine_endpoint :: "loading \<Rightarrow> bool \<Rightarrow> string set option \<Rightarrow> endpoint_conf \<Rightarrow> check_error + endpoint_conf" where
  "refine_endpoint lo checkPathPattern definedACs ep =
     (let count = length (ec_proxies ep) + length (ec_requests ep); labelRequired = (count > 1);
          response = (ec_response ep \<noteq> None) in
      if checkPathPattern \<and> ec_pattern ep = [] then Inl (Diag ''endpoint: missing path pattern'' [])
      else case (case definedACs of None \<Rightarrow> None | Some d \<Rightarrow> checkReferencedAccessControls (ec_ac ep) (ec_disable_ac ep) d) of
        Some e \<Rightarrow> Inl e
      | None \<Rightarrow>
     (case (if checkPathPattern then validMethods (case ec_methods ep of None \<Rightarrow> [] | Some ms \<Rightarrow> ms) else None) of
        Some e \<Rightarrow> Inl e
      | None \<Rightarrow>
      if checkPathPattern \<and> count = 0 \<and> \<not> response
      then Inl (Diag ''endpoint: missing 'default' proxy or request block, or a response definition'' [])
      else case try_fold (refine_proxy lo labelRequired response) (ec_proxies ep) ([], {}, {}) of
        Inl e \<Rightarrow> Inl e
      | Inr (proxies, st) \<Rightarrow>
     (case try_fold (refine_request lo labelRequired) (ec_requests ep) ([], st) of
        Inl e \<Rightarrow> Inl e
      | Inr (requests, names, unique) \<Rightarrow>
     (case (case ec_response ep of None \<Rightarrow> None | Some b \<Rightarrow> verifyResponseBodyAttrs (attrs_block b)) of
        Some e \<Rightarrow> Inl e
      | None \<Rightarrow>
      if checkPathPattern \<and> ''default'' \<notin> names \<and> \<not> response
      then Inl (Diag ''Missing a 'default' proxy or request definition, or a response block'' [])
      else (let ep' = ep\<lparr>ec_proxies := proxies, ec_requests := requests\<rparr> in
        case lo_sequences lo ep' of
          Inl e \<Rightarrow> Inl e
        | Inr (sequences, deps) \<Rightarrow>
            map_sum id (\<lambda>ehs. ep'\<lparr>ec_sequences := sequences, ec_deps := deps, ec_error_handlers := ehs\<rparr>)
              (lo_error_handlers lo (ec_error_handlers ep)))))))"

definition refineEndpoints ::
    "loading \<Rightarrow> bool \<Rightarrow> string set option \<Rightarrow> endpoint_conf list \<Rightarrow> check_error + endpoint_conf list" where
  "refineEndpoints lo checkPathPattern definedACs eps = try_map (refine_endpoint lo checkPathPattern definedACs) eps"

section \<open>APIs and servers\<close>

definition checkPermissionMixedConfig :: "loading \<Rightarrow> api_conf \<Rightarrow> check_error option" where
  "checkPermissionMixedConfig lo api =
     (let eps = ap_endpoints api; l = length eps;
          countEpsWithPermission = length (filter (\<lambda>e. ec_permission e \<noteq> None) eps);
          countEpsWithPermissionOrDisableAC = length (filter (\<lambda>e. ec_permission e \<noteq> None \<or> lo_disables lo e) eps) in
      if ap_permission api \<noteq> None then None
      else if l < 2 then None
      else if countEpsWithPermission = 0 then None
      else if l > countEpsWithPermissionOrDisableAC
      then Some (Diag ''api with label %q has endpoint without required permission'' [ap_name api])
      else None)"

definition configure_api :: "loading \<Rightarrow> string set \<Rightarrow> api_conf \<Rightarrow> check_error + api_conf" where
  "configure_api lo defsACs api =
     (case validMethods (case ap_methods api of None \<Rightarrow> [] | Some ms \<Rightarrow> ms) of
        Some e \<Rightarrow> Inl e
      | None \<Rightarrow>
     (case checkReferencedAccessControls (ap_ac api) (ap_disable_ac api) defsACs of
        Some e \<Rightarrow> Inl e
      | None \<Rightarrow>
     (case refineEndpoints lo True (Some defsACs) (ap_endpoints api) of
        Inl e \<Rightarrow> Inl e
      | Inr eps \<Rightarrow>
     (case checkPermissionMixedConfig lo (api\<lparr>ap_endpoints := eps\<rparr>) of
        Some e \<Rightarrow> Inl e
      | None \<Rightarrow>
          map_sum id (\<lambda>ehs. api\<lparr>ap_endpoints := eps, ap_catch_all := newCatchAllEndpoint\<lparr>ec_id := ec_id (ap_catch_all api)\<rparr>, ap_error_handlers := ehs\<rparr>)
            (lo_error_handlers lo (ap_error_handlers api))))))"

definition configureAPIs :: "loading \<Rightarrow> string set \<Rightarrow> api_conf list \<Rightarrow> check_error + api_conf list" where
  "configureAPIs lo defsACs apis = try_map (configure_api lo defsACs) apis"

definition configure_server :: "loading \<Rightarrow> string set \<Rightarrow> server_conf \<Rightarrow> check_error + server_conf" where
  "configure_server lo defsACs srv =
     (case checkReferencedAccessControls (sc_ac srv) (sc_disable_ac srv) defsACs of
        Some e \<Rightarrow> Inl e
      | None \<Rightarrow>
     (case try_map (\<lambda>f. case checkReferencedAccessControls (fc_ac f) (fc_disable_ac f) defsACs of Some e \<Rightarrow> Inl e | None \<Rightarrow> Inr ())
             (sc_files srv) of
        Inl e \<Rightarrow> Inl e
      | Inr _ \<Rightarrow>
     (case try_map (\<lambda>s. case checkReferencedAccessControls (sp_ac s) (sp_disable_ac s) defsACs of Some e \<Rightarrow> Inl e | None \<Rightarrow> Inr ())
             (sc_spas srv) of
        Inl e \<Rightarrow> Inl e
      | Inr _ \<Rightarrow>
     (case configureAPIs lo defsACs (sc_apis srv) of
        Inl e \<Rightarrow> Inl e
      | Inr apis \<Rightarrow>
          map_sum id (\<lambda>eps. srv\<lparr>sc_apis := apis, sc_endpoints := eps\<rparr>)
            (refineEndpoints lo True (Some defsACs) (sc_endpoints srv))))))"

definition configureServers :: "loading \<Rightarrow> ac_definitions \<Rightarrow> server_conf list \<Rightarrow> check_error + server_conf list" where
  "configureServers lo d servers = try_map (configure_server lo (getDefinedACs d)) servers"


section \<open>Every control that is missing\<close>

definition endpoint_refs :: "endpoint_conf list \<Rightarrow> string set" where
  "endpoint_refs eps = (\<Union>e\<in>set eps. set (ec_ac e))"

definition api_refs :: "api_conf \<Rightarrow> string set" where
  "api_refs a = set (ap_ac a) \<union> endpoint_refs (ap_endpoints a) \<union> set (ec_ac (ap_catch_all a))"

definition server_refs :: "server_conf \<Rightarrow> string set" where
  "server_refs srv =
     set (sc_ac srv) \<union> (\<Union>f\<in>set (sc_files srv). set (fc_ac f)) \<union> (\<Union>s\<in>set (sc_spas srv). set (sp_ac s)) \<union>
     (\<Union>a\<in>set (sc_apis srv). api_refs a) \<union> endpoint_refs (sc_endpoints srv)"

lemma ac_List_merged: "set (ac_List (ac_Merge p h)) \<subseteq> set (ac_names p) \<union> set (ac_names h)"
  by (auto simp: ac_List_def ac_Merge_def)

lemma newAC_names: "set (ac_names (newAC srv parent)) \<subseteq> set (sc_ac srv) \<union> (case parent of None \<Rightarrow> {} | Some a \<Rightarrow> set (ap_ac a))"
  by (auto simp: newAC_def NewACConf_def ac_Merge_def split: option.splits)

lemma try_map_error: "try_map f xs = Inl e \<Longrightarrow> \<exists>x\<in>set xs. f x = Inl e"
  by (induction xs) (auto split: sum.splits)

lemma NewEndpointOptions_error: "NewEndpointOptions env ep api so \<noteq> Inl (ControlMissing n)"
  by (auto simp: NewEndpointOptions_def endpoint_template_def load_template_def Let_def
      split: option.splits sum.splits if_splits)

lemma error_endpoint_error: "error_endpoint env so tpl k h \<noteq> Inl (ControlMissing n)"
  using NewEndpointOptions_error[of env "error_endpoint_conf h" None so n]
  by (auto simp: error_endpoint_def split: sum.splits)

lemma error_handler_for_error: "error_handler_for env so tpl defs refs \<noteq> Inl (ControlMissing n)"
proof -
  have kinds: "build_kinds (error_endpoint env so tpl) m kh \<noteq> Inl (ControlMissing n)" for m kh
    by (induction m arbitrary: kh) (use error_endpoint_error[of env so tpl _ _ n] in \<open>auto split: sum.splits\<close>)
  have "build_refs (error_endpoint env so tpl) defs refs kh \<noteq> Inl (ControlMissing n)" for kh
    by (induction refs arbitrary: kh) (use kinds in \<open>auto split: sum.splits option.splits\<close>)
  then show ?thesis by (auto simp: error_handler_for_def newErrorHandler_def split: sum.splits)
qed

lemma control_item_error: "control_item env so tpl acs name = Inl (ControlMissing n) \<Longrightarrow> n = name \<and> acs n = None"
  using error_handler_for_error[of env so tpl acs "[name]" n]
  by (auto simp: control_item_def split: sum.splits option.splits)

lemma protected_error:
  assumes "configureProtectedHandler env so tpl acs p h x = Inl (ControlMissing n)"
  shows "acs n = None \<and> n \<in> set (ac_names p) \<union> set (ac_names h)"
proof -
  have "try_map (control_item env so tpl acs) (ac_List (ac_Merge p h)) = Inl (ControlMissing n)"
    using assms by (auto simp: configureProtectedHandler_def split: sum.splits if_splits)
  from try_map_error[OF this] show ?thesis
    using ac_List_merged[of p h] by (auto dest: control_item_error)
qed

lemma static_error:
  assumes "static_handler env defs acs srv so bodies content tpl ac dac cors remain h = Inl (ControlMissing n)"
  shows "acs n = None \<and> n \<in> set (sc_ac srv) \<union> set ac"
  using assms
  by (auto simp: static_handler_def cors_layer_def NewACConf_def Let_def split: sum.splits prod.splits option.splits
      dest!: protected_error)

lemma endpoint_handler_error:
  assumes "endpoint_handler env defs acs srv so bodies (ep, parent) h = Inl (ControlMissing n)"
  shows "acs n = None \<and> n \<in> set (sc_ac srv) \<union> (case parent of None \<Rightarrow> {} | Some a \<Rightarrow> set (ap_ac a)) \<union> set (ec_ac ep)"
proof -
  obtain tpl x where "configureProtectedHandler env so tpl acs (newAC srv parent) (NewACConf (ec_ac ep) (ec_disable_ac ep)) x = Inl (ControlMissing n)"
    using assms NewEndpointOptions_error[of env ep parent so n] error_handler_for_error[of env so _ _ _ n]
    by (auto simp: endpoint_handler_def protected_endpoint_def cors_layer_def Let_def split: if_splits sum.splits option.splits prod.splits)
  from protected_error[OF this] newAC_names[of srv parent] show ?thesis by (auto simp: NewACConf_def)
qed


lemma set_routes_error: "setRoutesFromHosts conf ports p h kind \<noteq> Inl (ControlMissing n)"
  by (auto simp: setRoutesFromHosts_def set_route_def dest!: try_fold_error split: option.splits if_splits prod.splits)

lemma server_options_error: "NewServerOptions env srv \<noteq> Inl (ControlMissing n)"
  by (auto simp: NewServerOptions_def load_template_def Let_def dest!: try_map_error split: option.splits sum.splits if_splits)

lemma add_spa_error:
  assumes "add_spa env defs acs srv so bodies ports sp b = Inl (ControlMissing n)"
  shows "acs n = None \<and> n \<in> set (sc_ac srv) \<union> set (sp_ac sp)"
  using assms set_routes_error
  by (auto simp: add_spa_def split: prod.splits option.splits sum.splits dest!: static_error try_fold_error)

lemma add_files_error:
  assumes "add_files env defs acs srv so bodies ports (fc, base, tpl) b = Inl (ControlMissing n)"
  shows "acs n = None \<and> n \<in> set (sc_ac srv) \<union> set (fc_ac fc)"
  using assms set_routes_error
  by (auto simp: add_files_def split: prod.splits option.splits sum.splits dest!: static_error)

lemma add_endpoint_error:
  assumes "add_endpoint env defs acs srv so bodies ports (ep, parent) b = Inl (ControlMissing n)"
  shows "acs n = None \<and> n \<in> set (sc_ac srv) \<union> (case parent of None \<Rightarrow> {} | Some a \<Rightarrow> set (ap_ac a)) \<union> set (ec_ac ep)"
  using assms set_routes_error
  by (auto simp: add_endpoint_def Let_def split: prod.splits sum.splits dest!: endpoint_handler_error)

lemma catch_all_origin: "x \<in> set (add_catch_all srv so apis seen) \<Longrightarrow> \<exists>a\<in>set apis. x = (ap_catch_all a, Some a)"
  by (induction srv so apis seen rule: add_catch_all.induct) (auto simp: Let_def split: if_splits)

lemma endpoint_map_refs:
  assumes "(ep, parent) \<in> set (newEndpointMap srv so)"
  shows "set (ec_ac ep) \<union> (case parent of None \<Rightarrow> {} | Some a \<Rightarrow> set (ap_ac a)) \<subseteq> server_refs srv"
  using assms
  by (auto simp: newEndpointMap_def Let_def server_refs_def api_refs_def endpoint_refs_def dest!: catch_all_origin)

lemma missing_control:
  assumes "NewServerConfiguration env defs acs dp servers = Inl (ControlMissing n)"
    and "\<And>xs. set (env_order env xs) = set xs"
  shows "\<exists>srv\<in>set servers. n \<in> server_refs srv \<and> acs n = None"
proof -
  obtain srv m b where srv: "srv \<in> set servers" "add_server_conf env defs acs dp m srv b = Inl (ControlMissing n)"
    using assms(1) by (auto simp: NewServerConfiguration_def dest!: try_fold_error)
  then obtain so ports b' where routes: "add_routes env defs acs srv so ports b' = Inl (ControlMissing n)"
    using server_options_error[of env srv n]
    by (auto simp: add_server_conf_def split: prod.splits sum.splits option.splits)
  obtain bodies h1 where "server_bodies env defs srv (fst b') = (bodies, h1)" by fastforce
  obtain h0 conf0 where b': "b' = (h0, conf0)" by fastforce
  with \<open>server_bodies env defs srv (fst b') = (bodies, h1)\<close> have sb: "server_bodies env defs srv h0 = (bodies, h1)" by simp
  let ?spas = "try_fold (add_spa env defs acs srv so bodies ports) (sc_spas srv) (h1, conf0)"
  consider
      sp b'' where "sp \<in> set (sc_spas srv)" "add_spa env defs acs srv so bodies ports sp b'' = Inl (ControlMissing n)"
    | fc base tpl b'' where "fc \<in> set (sc_files srv)" "add_files env defs acs srv so bodies ports (fc, base, tpl) b'' = Inl (ControlMissing n)"
    | ep parent b'' where "(ep, parent) \<in> set (newEndpointMap srv so)"
        "add_endpoint env defs acs srv so bodies ports (ep, parent) b'' = Inl (ControlMissing n)"
  proof (cases ?spas)
    case (Inl e)
    with routes b' sb that(1) try_fold_error[OF Inl] show ?thesis by (auto simp: add_routes_def)
  next
    case spas: (Inr b1)
    let ?files = "try_fold (add_files env defs acs srv so bodies ports) (zip (sc_files srv) (zip (so_files_paths so) (so_files_tpls so))) b1"
    show ?thesis
    proof (cases ?files)
      case (Inl e)
      with routes b' sb spas have "e = ControlMissing n" by (simp add: add_routes_def)
      with try_fold_error[OF Inl] obtain x s where x: "x \<in> set (zip (sc_files srv) (zip (so_files_paths so) (so_files_tpls so)))"
        "add_files env defs acs srv so bodies ports x s = Inl (ControlMissing n)" by blast
      obtain fc base tpl where "x = (fc, base, tpl)" by (cases x)
      with x that(2) show ?thesis by (blast dest: set_zip_leftD)
    next
      case (Inr b2)
      with routes b' sb spas
      have "try_fold (add_endpoint env defs acs srv so bodies ports) (env_order env (newEndpointMap srv so)) b2 = Inl (ControlMissing n)"
        by (simp add: add_routes_def)
      from try_fold_error[OF this] that(3) show ?thesis unfolding assms(2) by fastforce
    qed
  qed
  then have "acs n = None \<and> n \<in> server_refs srv"
  proof cases
    case 1
    then show ?thesis using add_spa_error[OF 1(2)] by (auto simp: server_refs_def)
  next
    case 2
    then show ?thesis using add_files_error[OF 2(2)] by (auto simp: server_refs_def)
  next
    case 3
    then show ?thesis using add_endpoint_error[OF 3(2)] endpoint_map_refs[OF 3(1)] by (auto simp: server_refs_def)
  qed
  with srv(1) show ?thesis by blast
qed

section \<open>Accepted references are defined\<close>

definition reference_ok :: "string set \<Rightarrow> string \<Rightarrow> bool" where
  "reference_ok definedACs n = (trim_space n = [] \<or> trim_space n \<in> definedACs)"

lemma undefined_none: "undefined_control d names = None \<longleftrightarrow> (\<forall>n\<in>set names. reference_ok d n)"
  by (auto simp: undefined_control_def find_None_iff reference_ok_def)

lemma checked_references:
  "checkReferencedAccessControls acs dacs d = None \<longleftrightarrow> (\<forall>n\<in>set acs \<union> set dacs. reference_ok d n)"
  using undefined_none[of d acs] undefined_none[of d dacs] by (auto simp: checkReferencedAccessControls_def split: option.splits)

lemma map_sum_Inr: "map_sum f g x = Inr y \<longleftrightarrow> (\<exists>z. x = Inr z \<and> y = g z)"
  by (cases x) auto

lemma try_map_origin: "try_map f xs = Inr ys \<Longrightarrow> y \<in> set ys \<Longrightarrow> \<exists>x\<in>set xs. f x = Inr y"
  by (induction xs arbitrary: ys) (auto split: sum.splits)

lemma refined_references:
  assumes "refine_endpoint lo m (Some d) ep = Inr ep'"
  shows "\<forall>n\<in>set (ec_ac ep'). reference_ok d n"
proof -
  have "ec_ac ep' = ec_ac ep \<and> checkReferencedAccessControls (ec_ac ep) (ec_disable_ac ep) d = None"
    using assms
    by (auto simp: refine_endpoint_def Let_def map_sum_Inr split: if_splits option.splits sum.splits prod.splits)
  then show ?thesis by (auto simp: checked_references)
qed

lemma refined_all: "refineEndpoints lo m (Some d) eps = Inr eps' \<Longrightarrow> n \<in> endpoint_refs eps' \<Longrightarrow> reference_ok d n"
  by (auto simp: refineEndpoints_def endpoint_refs_def dest!: try_map_origin dest: refined_references)

lemma configured_api:
  assumes "configure_api lo d a = Inr a'" "n \<in> api_refs a'"
  shows "reference_ok d n"
proof -
  from assms(1) obtain eps ehs where "checkReferencedAccessControls (ap_ac a) (ap_disable_ac a) d = None"
    "refineEndpoints lo True (Some d) (ap_endpoints a) = Inr eps"
    "a' = a\<lparr>ap_endpoints := eps, ap_catch_all := newCatchAllEndpoint\<lparr>ec_id := ec_id (ap_catch_all a)\<rparr>, ap_error_handlers := ehs\<rparr>"
    by (auto simp: configure_api_def map_sum_Inr split: option.splits sum.splits)
  with assms(2) refined_all show ?thesis
    by (auto simp: api_refs_def checked_references newCatchAllEndpoint_def)
qed


lemma all_checked:
  "try_map (\<lambda>x. case f x of Some e \<Rightarrow> Inl e | None \<Rightarrow> Inr ()) xs = Inr us \<Longrightarrow> \<forall>x\<in>set xs. f x = None"
  by (induction xs arbitrary: us) (auto split: sum.splits option.splits)

lemma configured_server:
  assumes "configure_server lo d srv = Inr srv'" "n \<in> server_refs srv'"
  shows "reference_ok d n"
proof -
  from assms(1) obtain us vs apis eps where *: "checkReferencedAccessControls (sc_ac srv) (sc_disable_ac srv) d = None"
    "try_map (\<lambda>f. case checkReferencedAccessControls (fc_ac f) (fc_disable_ac f) d of Some e \<Rightarrow> Inl e | None \<Rightarrow> Inr ()) (sc_files srv) = Inr us"
    "try_map (\<lambda>s. case checkReferencedAccessControls (sp_ac s) (sp_disable_ac s) d of Some e \<Rightarrow> Inl e | None \<Rightarrow> Inr ()) (sc_spas srv) = Inr vs"
    "configureAPIs lo d (sc_apis srv) = Inr apis" "refineEndpoints lo True (Some d) (sc_endpoints srv) = Inr eps"
    "srv' = srv\<lparr>sc_apis := apis, sc_endpoints := eps\<rparr>"
    by (auto simp: configure_server_def map_sum_Inr split: option.splits sum.splits)
  from assms(2) *(6) consider "n \<in> set (sc_ac srv)" | f where "f \<in> set (sc_files srv)" "n \<in> set (fc_ac f)"
    | s where "s \<in> set (sc_spas srv)" "n \<in> set (sp_ac s)" | a where "a \<in> set apis" "n \<in> api_refs a" | "n \<in> endpoint_refs eps"
    by (auto simp: server_refs_def)
  then show ?thesis
  proof cases
    case 1
    with *(1) show ?thesis by (simp add: checked_references)
  next
    case 2
    with all_checked[OF *(2)] show ?thesis by (auto simp: checked_references)
  next
    case 3
    with all_checked[OF *(3)] show ?thesis by (auto simp: checked_references)
  next
    case 4
    with *(4) show ?thesis using configured_api unfolding configureAPIs_def by (blast dest: try_map_origin)
  next
    case 5
    then show ?thesis by (rule refined_all[OF *(5)])
  qed
qed

lemma controls_made:
  assumes "configureAccessControls new_ac d = Inr acs" "n \<in> getDefinedACs d"
  shows "acs (trim_space n) \<noteq> None"
proof -
  let ?step = "\<lambda>(k, name, eh) m. case new_ac k name of Some e \<Rightarrow> Inl (name, e) | None \<Rightarrow> Inr (ac_Add name eh m)"
  have kept: "m' x \<noteq> None" if "try_fold ?step cs m = Inr m'" "m x \<noteq> None" for cs m m' x
    by (rule try_fold_invariant[where P = "\<lambda>m. m x \<noteq> None", OF that]) (auto simp: ac_Add_def split: option.splits)
  have added: "m' (trim_space name) \<noteq> None" if "try_fold ?step cs m = Inr m'" "(k, name, eh) \<in> set cs" for cs m m' k name eh
    using that
  proof (induction cs arbitrary: m)
    case (Cons c cs)
    obtain m1 where m1: "?step c m = Inr m1" "try_fold ?step cs m1 = Inr m'" using Cons.prems(1) by (auto split: sum.splits)
    show ?case
    proof (cases "c = (k, name, eh)")
      case True
      with m1(1) have "m1 (trim_space name) \<noteq> None" by (auto simp: ac_Add_def split: option.splits)
      with kept[OF m1(2)] show ?thesis by blast
    next
      case False
      with Cons m1(2) show ?thesis by simp
    qed
  qed simp
  from assms(2) have "\<exists>k eh. (k, n, eh) \<in> set (map (Pair BasicAuthAC) (ad_basic d) @ map (Pair JwtAC) (ad_jwt d) @
      map (Pair SamlAC) (ad_saml d) @ map (Pair OAuth2AC) (ad_oauth2 d) @ map (Pair OidcAC) (ad_oidc d))"
    by (auto simp: getDefinedACs_def image_iff) blast+
  with added assms(1) show ?thesis unfolding configureAccessControls_def Let_def by blast
qed

text \<open>
  Property C12: if the checks accept the servers and all defined controls can be made, the construction of the servers
  panics for a missing control only where a reference is empty or has space around it.
\<close>

theorem controls_defined:
  assumes "configureServers lo d servers = Inr servers'" "configureAccessControls new_ac d = Inr acs"
    and "\<And>xs. set (env_order env xs) = set xs"
    and "NewServerConfiguration env bodies acs dp servers' = Inl (ControlMissing n)"
  shows "trim_space n = [] \<or> trim_space n \<noteq> n"
proof (rule ccontr)
  assume clean: "\<not> (trim_space n = [] \<or> trim_space n \<noteq> n)"
  from missing_control[OF assms(4,3)] obtain srv' where srv': "srv' \<in> set servers'" "n \<in> server_refs srv'" "acs n = None" by blast
  from assms(1) srv'(1) obtain srv where "configure_server lo (getDefinedACs d) srv = Inr srv'"
    unfolding configureServers_def by (blast dest: try_map_origin)
  from configured_server[OF this srv'(2)] clean have "n \<in> getDefinedACs d" by (auto simp: reference_ok_def)
  from controls_made[OF assms(2) this] clean srv'(3) show False by simp
qed

section \<open>A blank reference\<close>

definition plain_loading :: loading where
  "plain_loading = \<lparr>lo_backend = Inr, lo_sequences = (\<lambda>e. Inr ([], \<lambda>n. [])), lo_error_handlers = Inr, lo_disables = (\<lambda>e. False)\<rparr>"

definition no_definitions :: ac_definitions where
  "no_definitions = \<lparr>ad_basic = [], ad_jwt = [], ad_saml = [], ad_oauth2 = [], ad_oidc = []\<rparr>"

definition blank_server :: "server_conf" where
  "blank_server = demo_server_conf [[]] [plain_endpoint ''/x'' (Body [] [])]"

lemma blank_accepted:
  "configureServers plain_loading no_definitions [blank_server] = Inr [blank_server]"
proof -
  have methods: "validMethods [] = None" by (simp add: validMethods_def)
  have "refine_endpoint plain_loading True (Some {}) (plain_endpoint ''/x'' (Body [] [])) = Inr (plain_endpoint ''/x'' (Body [] []))"
    by (simp add: refine_endpoint_def plain_endpoint_def checkReferencedAccessControls_def undefined_control_def methods
        attrs_block_def verifyResponseBodyAttrs_def has_attr_def plain_loading_def)
  then show ?thesis
    by (simp add: configureServers_def configure_server_def blank_server_def no_definitions_def getDefinedACs_def
        checkReferencedAccessControls_def undefined_control_def trim_space_def trim_def trim_left_def configureAPIs_def refineEndpoints_def
        demo_server_conf_def)
qed

lemma blank_missing:
  "NewServerConfiguration demo_env [] Map.empty 8080 [blank_server] = Inl (ControlMissing [])"
proof -
  let ?ep = "plain_endpoint ''/x'' (Body [] [])"
  obtain so where so: "NewServerOptions demo_env blank_server = Inr so"
    "so_files_paths so = []" "so_spa_paths so = []"
    using demo_options unfolding blank_server_def by fastforce
  have map: "newEndpointMap blank_server so = [(?ep, None)]" by (simp add: newEndpointMap_def blank_server_def)
  have none: "error_handler_for demo_env so tpl defs refs = Inr ([], BufNone)" if "\<And>r. r \<in> set refs \<Longrightarrow> defs r = None \<or> defs r = Some []" for tpl defs refs
    by (rule no_error_handlers) (use that in fastforce)
  have list: "ac_List (ac_Merge (newAC blank_server None) (NewACConf [] [])) = [[]]"
    by (simp add: newAC_def NewACConf_def ac_Merge_def ac_List_def append_missing_def blank_server_def)
  have "configureProtectedHandler demo_env so tpl Map.empty (newAC blank_server None) (NewACConf [] []) x = Inl (ControlMissing [])" for tpl x
    by (simp add: configureProtectedHandler_def list control_item_def none)
  then have handler: "endpoint_handler demo_env [] Map.empty blank_server so bodies (?ep, None) h = Inl (ControlMissing [])" for bodies h
    unfolding endpoint_handler_def prod.case Let_def demo_NewEndpointOptions sum.case
    by (simp add: protected_endpoint_def is_catch_all_def endpoint_permission_def none)
  obtain bodies h1 where sb: "server_bodies demo_env [] blank_server empty_heap = (bodies, h1)" by fastforce
  have order: "env_order demo_env xs = xs" for xs by (simp add: demo_env_def)
  have empty: "sc_spas blank_server = []" "sc_files blank_server = []" "sc_name blank_server = ''s''" "sc_hosts blank_server = [''a.b'']"
    by (simp_all add: blank_server_def)
  show ?thesis
    by (simp add: NewServerConfiguration_def add_server_conf_def so empty demo_hosts claim_hosts_def port_hosts_def claim_host_def conf_lookup_def conf_set_def
        add_routes_def sb order map add_endpoint_def handler)
qed

text \<open>
  A server that refers to the control with the empty name is accepted by the checks, and the
  construction of the servers panics.
\<close>

theorem blank_control_panics:
  "case configureServers plain_loading no_definitions [blank_server] of
     Inl e \<Rightarrow> False
   | Inr servers \<Rightarrow> NewServerConfiguration demo_env [] Map.empty 8080 servers = Inl (ControlMissing [])"
  by (simp add: blank_accepted blank_missing)

lemma controls_defined_witness:
  "NewServerConfiguration demo_env [] Map.empty 8080 [blank_server] = Inl (ControlMissing []) \<and>
     \<not> (trim_space [] \<noteq> [] \<and> trim_space [] = [])"
proof -
  have made: "configureAccessControls (\<lambda>k n. None) no_definitions = Inr Map.empty"
    by (simp add: configureAccessControls_def no_definitions_def)
  have order: "set (env_order demo_env xs) = set xs" for xs by (simp add: demo_env_def)
  from controls_defined[OF blank_accepted made order blank_missing] blank_missing show ?thesis by simp
qed

end
