(* ===== verification/Backends.thy ===== *)
theory Backends
  imports Validate Sequence
begin

text \<open>
  Backends of a configuration (\<open>config/configload/backend.go\<close>, \<open>helper.go\<close>, \<open>config/body/body.go\<close>): the references
  between them, their preparation, and the body that a backend uses for a request
  (\<open>backend/backend_context.go\<close>, \<open>handler/transport/backend.go\<close>).

  Defined backends are an association list in the order in which Go ranges over the map. A function that may
  not return has fuel for its depth, and \<open>None\<close> says that it is used up.
\<close>

section \<open>Loops\<close>

type_synonym 's run = "(check_error + 's) option"

fun run_fold :: "('a \<Rightarrow> 's \<Rightarrow> 's run) \<Rightarrow> 'a list \<Rightarrow> 's \<Rightarrow> 's run" where
  "run_fold f [] s = Some (Inr s)"
| "run_fold f (x # xs) s =
     (case f x s of None \<Rightarrow> None | Some (Inl e) \<Rightarrow> Some (Inl e) | Some (Inr s') \<Rightarrow> run_fold f xs s')"

text \<open>A loop whose body never fails returns unless one of its steps does not.\<close>

lemma run_fold_total:
  assumes "\<And>x s. x \<in> set xs \<Longrightarrow> \<exists>s'. f x s = Some (Inr s')"
  shows "\<exists>s'. run_fold f xs s = Some (Inr s')"
  using assms
proof (induction xs arbitrary: s)
  case (Cons x xs)
  obtain s' where "f x s = Some (Inr s')" using Cons.prems[of x] by auto
  moreover have "\<exists>t. run_fold f xs s' = Some (Inr t)" by (rule Cons.IH) (use Cons.prems in auto)
  ultimately show ?case by auto
qed simp

lemma run_fold_diverges:
  assumes "\<And>x s. x \<in> set xs \<Longrightarrow> f x s = None \<or> (\<exists>s'. f x s = Some (Inr s'))"
    and "y \<in> set xs" "\<And>s. f y s = None"
  shows "run_fold f xs s = None"
  using assms(1,2)
proof (induction xs arbitrary: s)
  case (Cons x xs)
  show ?case
  proof (cases "x = y")
    case True
    then show ?thesis by (simp add: assms(3))
  next
    case False
    then have rest: "run_fold f xs t = None" for t using Cons by auto
    from Cons.prems(1)[of x s] show ?thesis by (auto simp: rest)
  qed
qed simp

lemma run_fold_ok: "(\<And>x s. x \<in> set xs \<Longrightarrow> f x s = None \<or> (\<exists>s'. f x s = Some (Inr s'))) \<Longrightarrow>
    run_fold f xs s = None \<or> (\<exists>s'. run_fold f xs s = Some (Inr s'))"
proof (induction xs arbitrary: s)
  case (Cons x xs)
  from Cons.prems[of x s] show ?case
  proof
    assume "\<exists>s'. f x s = Some (Inr s')"
    then obtain s' where "f x s = Some (Inr s')" by blast
    moreover have "run_fold f xs s' = None \<or> (\<exists>t. run_fold f xs s' = Some (Inr t))" by (rule Cons.IH) (use Cons.prems in auto)
    ultimately show ?thesis by auto
  qed (simp_all)
qed simp

section \<open>References between backends\<close>

type_synonym refs = "(string \<times> string list) list"

definition add_ref :: "string \<Rightarrow> string \<Rightarrow> refs \<Rightarrow> refs" where
  "add_ref name r refs = set_key name ((case map_of refs name of None \<Rightarrow> [] | Some rs \<Rightarrow> rs) @ [r]) refs"

definition is_authorizer :: "'e block \<Rightarrow> bool" where
  "is_authorizer b = (bl_type b = ''oauth2'' \<or> bl_type b = ''beta_token_request'')"

text \<open>\<open>collectFromBlocks\<close>; \<open>again\<close> is the call of \<open>collectBackendDeps\<close> for a nested backend.\<close>

definition collect_nested :: "(refs \<Rightarrow> refs run) \<Rightarrow> string \<Rightarrow> 'e block \<Rightarrow> refs \<Rightarrow> refs run" where
  "collect_nested again name b refs =
     run_fold (\<lambda>sub r. again r) (filter is_authorizer (bl_blocks b))
       (case bl_labels b of [] \<Rightarrow> refs | l # _ \<Rightarrow> add_ref name l refs)"

definition collect_block :: "('e \<Rightarrow> cty) \<Rightarrow> (refs \<Rightarrow> refs run) \<Rightarrow> string \<Rightarrow> 'e block \<Rightarrow> refs \<Rightarrow> refs run" where
  "collect_block eval again name ab refs =
     (case (case map_of (bl_attrs ab) ''backend'' of
              None \<Rightarrow> Inr refs
            | Some e \<Rightarrow> (case eval e of CString s \<Rightarrow> Inr (add_ref name s refs) | _ \<Rightarrow> Inl (Panic ''not a string''))) of
        Inl e \<Rightarrow> Some (Inl e)
      | Inr refs' \<Rightarrow> run_fold (collect_nested again name) (BlocksOfType ab ''backend'') refs')"

definition collectFromBlocks :: "('e \<Rightarrow> cty) \<Rightarrow> (refs \<Rightarrow> refs run) \<Rightarrow> string \<Rightarrow> 'e block list \<Rightarrow> refs \<Rightarrow> refs run" where
  "collectFromBlocks eval again name blocks refs = run_fold (collect_block eval again name) blocks refs"

definition collect_backend :: "('e \<Rightarrow> cty) \<Rightarrow> (refs \<Rightarrow> refs run) \<Rightarrow> string \<times> 'e block \<Rightarrow> refs \<Rightarrow> refs run" where
  "collect_backend eval again = (\<lambda>(name, b) refs.
     collectFromBlocks eval again name (BlocksOfType b ''oauth2'' @ BlocksOfType b ''beta_token_request'') (set_key name [] refs))"

primrec collectBackendDeps :: "nat \<Rightarrow> ('e \<Rightarrow> cty) \<Rightarrow> (string \<times> 'e block) list \<Rightarrow> refs \<Rightarrow> refs run" where
  "collectBackendDeps 0 eval defs refs = None"
| "collectBackendDeps (Suc k) eval defs refs = run_fold (collect_backend eval (collectBackendDeps k eval defs)) defs refs"

text \<open>\<open>resolveBackendDeps\<close>: an item is added to its parent for each reference. A reference to a backend that is not
  defined is an item without dependencies.\<close>

fun add_backend_refs :: "string \<Rightarrow> string list \<Rightarrow> items \<Rightarrow> (string list + items) option" where
  "add_backend_refs p [] it = Some (Inr it)"
| "add_backend_refs p (r # rs) it =
     (case Add p r it of None \<Rightarrow> None | Some (Inl c) \<Rightarrow> Some (Inl c) | Some (Inr it') \<Rightarrow> add_backend_refs p rs it')"

fun add_all_refs :: "refs \<Rightarrow> items \<Rightarrow> (string list + items) option" where
  "add_all_refs [] it = Some (Inr it)"
| "add_all_refs ((p, rs) # refs) it =
     (case add_backend_refs p rs it of None \<Rightarrow> None | Some (Inl c) \<Rightarrow> Some (Inl c) | Some (Inr it') \<Rightarrow> add_all_refs refs it')"

definition unique_names :: "string list list \<Rightarrow> string list" where
  "unique_names items = fold (\<lambda>n names. if n \<in> set names then names else names @ [n]) (concat items) []"

definition resolveBackendDeps ::
    "nat \<Rightarrow> ('e \<Rightarrow> cty) \<Rightarrow> (string \<times> 'e block) list \<Rightarrow> string list run" where
  "resolveBackendDeps fuel eval defs =
     (case collectBackendDeps fuel eval defs [] of
        None \<Rightarrow> None
      | Some (Inl e) \<Rightarrow> Some (Inl e)
      | Some (Inr refs) \<Rightarrow>
         (case add_all_refs refs no_items of
            None \<Rightarrow> None
          | Some (Inl c) \<Rightarrow> Some (Inl (Diag ''circular reference: %s'' [join_with '','' c]))
          | Some (Inr it) \<Rightarrow>
              map_option (\<lambda>items. Inr (unique_names (items @ [map fst defs])))
                (Dependencies fuel (it_deps it) (concat (map (\<lambda>(p, rs). map (\<lambda>r. p) rs) refs)))))"

section \<open>When the references are found\<close>

text \<open>A backend for tokens that has an authorizer of its own.\<close>

definition nested_authorizer :: "'e block \<Rightarrow> bool" where
  "nested_authorizer b =
     list_ex (\<lambda>ab. is_authorizer ab \<and> list_ex (\<lambda>x. bl_type x = ''backend'' \<and> list_ex is_authorizer (bl_blocks x)) (bl_blocks ab))
       (bl_blocks b)"

definition string_reference :: "('e \<Rightarrow> cty) \<Rightarrow> 'e block \<Rightarrow> bool" where
  "string_reference eval ab =
     (case map_of (bl_attrs ab) ''backend'' of None \<Rightarrow> True | Some e \<Rightarrow> (case eval e of CString s \<Rightarrow> True | _ \<Rightarrow> False))"

definition string_references :: "('e \<Rightarrow> cty) \<Rightarrow> 'e block \<Rightarrow> bool" where
  "string_references eval b = list_all (\<lambda>ab. is_authorizer ab \<longrightarrow> string_reference eval ab) (bl_blocks b)"

lemma authorizer_blocks: "set (BlocksOfType b ''oauth2'' @ BlocksOfType b ''beta_token_request'') = {ab \<in> set (bl_blocks b). is_authorizer ab}"
  by (auto simp: BlocksOfType_def is_authorizer_def)

lemma collect_block_values:
  assumes "string_reference eval ab"
  shows "\<exists>refs'. collect_block eval again name ab refs = run_fold (collect_nested again name) (BlocksOfType ab ''backend'') refs'"
  using assms by (auto simp: collect_block_def string_reference_def split: option.splits cty.splits)

lemma collect_block_total:
  assumes "string_reference eval ab" "\<forall>x\<in>set (bl_blocks ab). bl_type x = ''backend'' \<longrightarrow> \<not> list_ex is_authorizer (bl_blocks x)"
  shows "\<exists>refs'. collect_block eval again name ab refs = Some (Inr refs')"
proof -
  obtain r where r: "collect_block eval again name ab refs = run_fold (collect_nested again name) (BlocksOfType ab ''backend'') r"
    using collect_block_values[OF assms(1)] by blast
  show ?thesis unfolding r
  proof (rule run_fold_total)
    fix x s assume "x \<in> set (BlocksOfType ab ''backend'')"
    with assms(2) have "filter is_authorizer (bl_blocks x) = []"
      by (auto simp: BlocksOfType_def list_ex_iff filter_empty_conv)
    then show "\<exists>s'. collect_nested again name x s = Some (Inr s')" by (simp add: collect_nested_def)
  qed
qed

lemma collect_nested_ok:
  "(\<And>r. again r = None) \<Longrightarrow> collect_nested again name x s = None \<or> (\<exists>s'. collect_nested again name x s = Some (Inr s'))"
  unfolding collect_nested_def by (rule run_fold_ok) simp

lemma collect_block_ok:
  assumes "string_reference eval ab" "\<And>r. again r = None"
  shows "collect_block eval again name ab s = None \<or> (\<exists>s'. collect_block eval again name ab s = Some (Inr s'))"
proof -
  obtain r where r: "collect_block eval again name ab s = run_fold (collect_nested again name) (BlocksOfType ab ''backend'') r"
    using collect_block_values[OF assms(1)] by blast
  show ?thesis unfolding r by (rule run_fold_ok) (rule collect_nested_ok[OF assms(2)])
qed

lemma collect_block_diverges:
  assumes "string_reference eval ab" "\<And>r. again r = None"
    and "x \<in> set (bl_blocks ab)" "bl_type x = ''backend''" "list_ex is_authorizer (bl_blocks x)"
  shows "collect_block eval again name ab s = None"
proof -
  obtain r where r: "collect_block eval again name ab s = run_fold (collect_nested again name) (BlocksOfType ab ''backend'') r"
    using collect_block_values[OF assms(1)] by blast
  obtain y ys where y: "filter is_authorizer (bl_blocks x) = y # ys"
    using assms(5) by (cases "filter is_authorizer (bl_blocks x)") (auto simp: list_ex_iff filter_empty_conv)
  show ?thesis unfolding r
  proof (rule run_fold_diverges)
    show "x \<in> set (BlocksOfType ab ''backend'')" using assms(3,4) by (simp add: BlocksOfType_def)
    show "collect_nested again name x s = None" for s by (simp add: collect_nested_def y assms(2))
  qed (rule collect_nested_ok[OF assms(2)])
qed

lemma collect_backend_ok:
  assumes "string_references eval b" "\<And>r. again r = None"
  shows "collect_backend eval again (name, b) s = None \<or> (\<exists>s'. collect_backend eval again (name, b) s = Some (Inr s'))"
  unfolding collect_backend_def collectFromBlocks_def prod.case
proof (rule run_fold_ok)
  fix ab s assume "ab \<in> set (BlocksOfType b ''oauth2'' @ BlocksOfType b ''beta_token_request'')"
  with assms(1) have "string_reference eval ab" unfolding authorizer_blocks by (auto simp: string_references_def list_all_iff)
  then show "collect_block eval again name ab s = None \<or> (\<exists>s'. collect_block eval again name ab s = Some (Inr s'))"
    by (rule collect_block_ok[OF _ assms(2)])
qed

lemma collect_backend_diverges:
  assumes "string_references eval b" "\<And>r. again r = None" "nested_authorizer b"
  shows "collect_backend eval again (name, b) s = None"
proof -
  from assms(3) obtain ab x where ab: "ab \<in> set (bl_blocks b)" "is_authorizer ab"
    and x: "x \<in> set (bl_blocks ab)" "bl_type x = ''backend''" "list_ex is_authorizer (bl_blocks x)"
    by (auto simp: nested_authorizer_def list_ex_iff)
  show ?thesis
    unfolding collect_backend_def collectFromBlocks_def prod.case
  proof (rule run_fold_diverges)
    show "ab \<in> set (BlocksOfType b ''oauth2'' @ BlocksOfType b ''beta_token_request'')" unfolding authorizer_blocks using ab by simp
    have "string_reference eval ab" using assms(1) ab by (auto simp: string_references_def list_all_iff)
    then show "collect_block eval again name ab s = None" for s by (rule collect_block_diverges[OF _ assms(2) x])
    fix ab' s assume "ab' \<in> set (BlocksOfType b ''oauth2'' @ BlocksOfType b ''beta_token_request'')"
    with assms(1) have "string_reference eval ab'" unfolding authorizer_blocks by (auto simp: string_references_def list_all_iff)
    then show "collect_block eval again name ab' s = None \<or> (\<exists>s'. collect_block eval again name ab' s = Some (Inr s'))"
      by (rule collect_block_ok[OF _ assms(2)])
  qed
qed

lemma collect_diverges:
  assumes "list_all (\<lambda>(n, b). string_references eval b) defs" "list_ex (\<lambda>(n, b). nested_authorizer b) defs"
  shows "collectBackendDeps k eval defs refs = None"
proof (induction k arbitrary: refs)
  case (Suc k)
  obtain n b where nb: "(n, b) \<in> set defs" "nested_authorizer b" using assms(2) by (auto simp: list_ex_iff)
  have strings: "string_references eval b" if "(n, b) \<in> set defs" for n b using assms(1) that by (auto simp: list_all_iff)
  show ?case
    unfolding collectBackendDeps.simps
  proof (rule run_fold_diverges[OF _ nb(1)])
    show "collect_backend eval (collectBackendDeps k eval defs) (n, b) s = None" for s
      by (rule collect_backend_diverges[OF strings[OF nb(1)] Suc nb(2)])
    show "collect_backend eval (collectBackendDeps k eval defs) x s = None \<or>
       (\<exists>s'. collect_backend eval (collectBackendDeps k eval defs) x s = Some (Inr s'))" if "x \<in> set defs" for x s
    proof (cases x)
      case (Pair n b)
      with that have "(n, b) \<in> set defs" by simp
      from collect_backend_ok[where again = "collectBackendDeps k eval defs", OF strings[OF this] Suc] show ?thesis
        unfolding Pair .
    qed
  qed
qed simp

lemma collect_returns:
  assumes "list_all (\<lambda>(n, b). string_references eval b) defs" "\<not> list_ex (\<lambda>(n, b). nested_authorizer b) defs"
  shows "\<exists>refs'. collectBackendDeps (Suc k) eval defs refs = Some (Inr refs')"
  unfolding collectBackendDeps.simps
proof (rule run_fold_total)
  fix x s assume x: "x \<in> set defs"
  obtain n b where nb: "x = (n, b)" by (cases x)
  with x assms have b: "string_references eval b" "\<not> nested_authorizer b" by (auto simp: list_all_iff list_ex_iff)
  show "\<exists>s'. collect_backend eval (collectBackendDeps k eval defs) x s = Some (Inr s')"
    unfolding collect_backend_def collectFromBlocks_def nb prod.case
  proof (rule run_fold_total)
    fix ab s assume "ab \<in> set (BlocksOfType b ''oauth2'' @ BlocksOfType b ''beta_token_request'')"
    with b show "\<exists>s'. collect_block eval (collectBackendDeps k eval defs) n ab s = Some (Inr s')"
      unfolding authorizer_blocks
      by (intro collect_block_total) (auto simp: string_references_def nested_authorizer_def list_all_iff list_ex_iff)
  qed
qed

text \<open>
  Property C15: if the references are strings, collecting the references of the defined backends returns exactly if no backend for tokens
  has a block for tokens itself; otherwise it calls itself without end.
\<close>

theorem references_collected:
  assumes "list_all (\<lambda>(n, b). string_references eval b) defs"
  shows "(\<exists>k refs. collectBackendDeps k eval defs [] = Some refs) \<longleftrightarrow> \<not> list_ex (\<lambda>(n, b). nested_authorizer b) defs"
  using collect_diverges[OF assms] collect_returns[OF assms] by (metis option.distinct(1))

lemma references_collected_witness:
  "\<not> (\<exists>k refs. collectBackendDeps k id
     [(''a'', Block ''backend'' [''a''] [] [Block ''oauth2'' [] [] [Block ''backend'' [] [] [Block ''oauth2'' [] [] []]]])] [] = Some refs)"
proof -
  let ?defs = "[(''a'', Block ''backend'' [''a''] [] [Block ''oauth2'' [] [] [Block ''backend'' [] [] [Block ''oauth2'' [] [] []]]])] :: (string \<times> cty block) list"
  have "list_all (\<lambda>(n, b). string_references id b) ?defs"
    by (simp add: string_references_def string_reference_def)
  moreover have "list_ex (\<lambda>(n, b). nested_authorizer b) ?defs"
    by (simp add: nested_authorizer_def is_authorizer_def)
  ultimately show ?thesis using references_collected[of id ?defs] by blast
qed


section \<open>The order of the backends\<close>

definition backend_edges :: "refs \<Rightarrow> (string \<times> string) set" where
  "backend_edges refs = {(p, r). \<exists>rs. (p, rs) \<in> set refs \<and> r \<in> set rs \<and> trim_space r \<noteq> []}"

definition edges_from :: "string \<Rightarrow> string list \<Rightarrow> (string \<times> string) set" where
  "edges_from p rs = {(p, r) | r. r \<in> set rs \<and> trim_space r \<noteq> []}"

lemma edges_from_simps: "edges_from p [] = {}" "edges_from p (r # rs) = (if trim_space r = [] then edges_from p rs else insert (p, r) (edges_from p rs))"
  by (auto simp: edges_from_def)

lemma backend_edges_simps: "backend_edges [] = {}" "backend_edges ((p, rs) # refs) = edges_from p rs \<union> backend_edges refs"
  by (auto simp: backend_edges_def edges_from_def)

lemma add_backend_refs_result:
  assumes "items_inv it" "edges (it_deps it) \<subseteq> E" "edges_from p rs \<subseteq> E"
  shows "case add_backend_refs p rs it of
       None \<Rightarrow> False
     | Some (Inl c) \<Rightarrow> \<not> acyclic E
     | Some (Inr it') \<Rightarrow> items_inv it' \<and> edges (it_deps it') = edges (it_deps it) \<union> edges_from p rs"
  using assms
proof (induction rs arbitrary: it)
  case (Cons r rs)
  show ?case
  proof (cases "trim_space r = []")
    case True
    then have same: "edges_from p (r # rs) = edges_from p rs" by (simp add: edges_from_simps)
    from True have "add_backend_refs p (r # rs) it = add_backend_refs p rs it" by (simp add: Add_def)
    with Cons show ?thesis unfolding same by simp
  next
    case False
    let ?it = "it\<lparr>it_parent := (it_parent it)(r := Some p), it_deps := (it_deps it)(p := it_deps it p @ [r])\<rparr>"
    have new: "(p, r) \<in> E" "edges_from p rs \<subseteq> E" using False Cons.prems(3) by (auto simp: edges_from_simps)
    show ?thesis
    proof (cases "p = r \<or> (r, p) \<in> (parent_rel (it_parent it))\<^sup>+")
      case True
      then have "p = r \<or> (r, p) \<in> E\<^sup>+"
        using parent_edge[OF Cons.prems(1)] trancl_mono[OF _ Cons.prems(2)] by blast
      with new(1) have "\<not> acyclic E" by (auto simp: acyclic_def dest: trancl_into_trancl)
      with True Add_cases[OF Cons.prems(1) False, of p] show ?thesis by auto
    next
      case no: False
      then have add: "Add p r it = Some (Inr ?it)" using Add_cases[OF Cons.prems(1) False, of p] by simp
      have inv: "items_inv ?it" using Add_inv[OF Cons.prems(1), of p r] no by simp
      have e: "edges (it_deps ?it) = insert (p, r) (edges (it_deps it))" by (auto simp: edges_def split: if_splits)
      with new(1) Cons.prems(2) have "edges (it_deps ?it) \<subseteq> E" by simp
      from Cons.IH[OF inv this new(2)] show ?thesis
        unfolding e using False by (auto simp: add edges_from_simps split: option.splits sum.splits)
    qed
  qed
qed (simp add: edges_from_simps)

lemma add_all_refs_result:
  assumes "items_inv it" "edges (it_deps it) \<subseteq> E" "backend_edges refs \<subseteq> E"
  shows "case add_all_refs refs it of
       None \<Rightarrow> False
     | Some (Inl c) \<Rightarrow> \<not> acyclic E
     | Some (Inr it') \<Rightarrow> items_inv it' \<and> edges (it_deps it') = edges (it_deps it) \<union> backend_edges refs"
  using assms
proof (induction refs arbitrary: it)
  case (Cons x refs)
  obtain p rs where x: "x = (p, rs)" by (cases x)
  have first: "case add_backend_refs p rs it of
       None \<Rightarrow> False
     | Some (Inl c) \<Rightarrow> \<not> acyclic E
     | Some (Inr it') \<Rightarrow> items_inv it' \<and> edges (it_deps it') = edges (it_deps it) \<union> edges_from p rs"
    by (rule add_backend_refs_result) (use Cons.prems in \<open>auto simp: x backend_edges_simps\<close>)
  show ?case
  proof (cases "add_backend_refs p rs it")
    case (Some y)
    show ?thesis
    proof (cases y)
      case (Inr it')
      with first Some have it': "items_inv it'" "edges (it_deps it') = edges (it_deps it) \<union> edges_from p rs" by simp_all
      have "edges (it_deps it') \<subseteq> E" "backend_edges refs \<subseteq> E"
        using Cons.prems(2,3) unfolding it'(2) x backend_edges_simps by auto
      from Cons.IH[OF it'(1) this] show ?thesis
        unfolding it'(2) x backend_edges_simps using Some Inr by (auto split: option.splits sum.splits)
    qed (use first Some in \<open>simp add: x\<close>)
  qed (use first in simp)
qed (simp add: backend_edges_simps)

lemma list_all2_left: "list_all2 P xs ys \<Longrightarrow> x \<in> set xs \<Longrightarrow> \<exists>y\<in>set ys. P x y"
  by (induction xs ys rule: list_all2_induct) auto

lemma list_all2_right: "list_all2 P xs ys \<Longrightarrow> y \<in> set ys \<Longrightarrow> \<exists>x\<in>set xs. P x y"
  by (induction xs ys rule: list_all2_induct) auto

lemma dependencies_lists:
  assumes "finite U" "\<And>n. n \<in> U \<Longrightarrow> set (g n) \<subseteq> U" "set xs \<subseteq> U" "card U \<le> k"
  shows "\<exists>ls. Dependencies k g xs = Some ls \<and> list_all2 (\<lambda>x l. x \<in> set l \<and> (acyclic (edges g) \<longrightarrow> deps_first g {} l)) xs ls"
  using assms(3)
proof (induction xs)
  case (Cons x xs)
  then obtain ls where ls: "Dependencies k g xs = Some ls"
    "list_all2 (\<lambda>x l. x \<in> set l \<and> (acyclic (edges g) \<longrightarrow> deps_first g {} l)) xs ls" by auto
  obtain res seen where r: "resolveSequence k g x ([], []) = Some (res, seen)"
    using resolve_returns(1)[of U g x "([], [])" k] assms(1,2,4) Cons.prems by auto
  then have "x \<in> set res" by (cases k) (auto split: option.splits)
  moreover have "deps_first g {} res" if "acyclic (edges g)"
    using resolve_order(1)[OF that, of "([], [])" x k "(res, seen)"] r by (simp add: resolve_inv_def on_stack_def)
  ultimately show ?case using ls r by auto
qed simp

text \<open>Names that are there already, or whose dependencies are.\<close>

fun all_ready :: "deps_map \<Rightarrow> string set \<Rightarrow> string list \<Rightarrow> bool" where
  "all_ready g S [] \<longleftrightarrow> True"
| "all_ready g S (x # xs) \<longleftrightarrow> (x \<in> S \<or> set (g x) \<subseteq> S) \<and> all_ready g (insert x S) xs"

lemma all_ready_append: "all_ready g S (xs @ ys) \<longleftrightarrow> all_ready g S xs \<and> all_ready g (S \<union> set xs) ys"
  by (induction xs arbitrary: S) simp_all

lemma deps_first_ready: "deps_first g S xs \<Longrightarrow> S \<subseteq> T \<Longrightarrow> all_ready g T xs"
proof (induction xs arbitrary: S T)
  case (Cons x xs)
  from Cons.prems have "set (g x) \<subseteq> T" "insert x S \<subseteq> insert x T" by auto
  with Cons show ?case by auto
qed simp

lemma all_ready_concat: "list_all (deps_first g {}) ls \<Longrightarrow> all_ready g S (concat ls)"
  by (induction ls arbitrary: S) (auto simp: all_ready_append intro: deps_first_ready)

lemma unique_deps_first:
  assumes "all_ready g (set names) xs" "deps_first g {} names" "distinct names"
  shows "let us = fold (\<lambda>n names. if n \<in> set names then names else names @ [n]) xs names
    in deps_first g {} us \<and> distinct us \<and> set us = set names \<union> set xs"
  using assms
proof (induction xs arbitrary: names)
  case (Cons x xs)
  show ?case
  proof (cases "x \<in> set names")
    case True
    with Cons.prems have "all_ready g (set names) xs" by (simp add: insert_absorb)
    from Cons.IH[OF this Cons.prems(2,3)] True show ?thesis by (auto simp: Let_def)
  next
    case False
    with Cons.prems Cons.IH[of "names @ [x]"] show ?thesis by (auto simp: Let_def)
  qed
qed simp

definition backend_names :: "(string \<times> 'e block) list \<Rightarrow> refs \<Rightarrow> string set" where
  "backend_names defs refs = fst ` set defs \<union> fst ` set refs \<union> (\<Union>(p, rs)\<in>set refs. set rs)"

lemma backend_order:
  assumes "collectBackendDeps fuel eval defs [] = Some (Inr refs)" "card (backend_names defs refs) \<le> fuel"
  shows "case resolveBackendDeps fuel eval defs of
      None \<Rightarrow> False
    | Some (Inl e) \<Rightarrow> \<not> acyclic (backend_edges refs)
    | Some (Inr names) \<Rightarrow> acyclic (backend_edges refs) \<longrightarrow>
        distinct names \<and> fst ` set defs \<subseteq> set names \<and>
        (\<forall>(p, r)\<in>backend_edges refs. \<exists>xs ys zs. names = xs @ r # ys @ p # zs)"
proof -
  let ?U = "backend_names defs refs" and ?items = "concat (map (\<lambda>(p, rs). map (\<lambda>r. p) rs) refs)"
  have empty: "edges (it_deps no_items) = {}" by (simp add: no_items_def edges_def)
  have added: "case add_all_refs refs no_items of
       None \<Rightarrow> False
     | Some (Inl c) \<Rightarrow> \<not> acyclic (backend_edges refs)
     | Some (Inr it') \<Rightarrow> edges (it_deps it') = backend_edges refs"
    using add_all_refs_result[OF no_items_inv, of "backend_edges refs" refs] empty by (auto split: option.splits sum.splits)
  show ?thesis
  proof (cases "\<exists>it. add_all_refs refs no_items = Some (Inr it)")
    case False
    with added assms(1) show ?thesis by (auto simp: resolveBackendDeps_def split: option.splits sum.splits)
  next
    case True
    then obtain it where it: "add_all_refs refs no_items = Some (Inr it)" by blast
    let ?g = "it_deps it"
    from added it have e: "edges ?g = backend_edges refs" by simp
    have U: "finite ?U" "set ?items \<subseteq> ?U" by (force simp: backend_names_def)+
    have closed: "set (?g n) \<subseteq> ?U" for n
    proof
      fix d assume "d \<in> set (?g n)"
      then have "(n, d) \<in> backend_edges refs" unfolding e[symmetric] by (simp add: edges_def)
      then show "d \<in> ?U" by (auto simp: backend_edges_def backend_names_def)
    qed
    obtain ls where ls: "Dependencies fuel ?g ?items = Some ls"
      "list_all2 (\<lambda>x l. x \<in> set l \<and> (acyclic (edges ?g) \<longrightarrow> deps_first ?g {} l)) ?items ls"
      using dependencies_lists[where g = ?g, OF U(1) closed U(2) assms(2)] by blast
    let ?names = "unique_names (ls @ [map fst defs])"
    have "distinct ?names \<and> fst ` set defs \<subseteq> set ?names \<and>
        (\<forall>(p, r)\<in>backend_edges refs. \<exists>xs ys zs. ?names = xs @ r # ys @ p # zs)" if "acyclic (backend_edges refs)"
    proof -
      have first: "list_all (deps_first ?g {}) ls"
        using list_all2_right[OF ls(2)] that unfolding e list_all_iff by blast
      have items: "set ?items \<subseteq> set (concat ls)"
        using list_all2_left[OF ls(2)] by auto blast
      have leaf: "?g n = []" if "n \<notin> set ?items" for n
      proof (rule ccontr)
        assume "?g n \<noteq> []"
        then obtain d where "(n, d) \<in> edges ?g" by (cases "?g n") (auto simp: edges_def)
        with that show False unfolding e by (force simp: backend_edges_def)
      qed
      have tail: "all_ready ?g S ns" if "set ?items \<subseteq> S" for S ns
        using that
      proof (induction ns arbitrary: S)
        case (Cons n ns)
        have "n \<in> S \<or> ?g n = []" using Cons.prems leaf[of n] by blast
        then have "n \<in> S \<or> set (?g n) \<subseteq> S" by auto
        moreover have "all_ready ?g (insert n S) ns" by (rule Cons.IH) (use Cons.prems in blast)
        ultimately show ?case by simp
      qed simp
      have "all_ready ?g (set []) (concat (ls @ [map fst defs]))"
        using all_ready_concat[OF first, of "{}"] tail[of "set (concat ls)"] items by (simp add: all_ready_append)
      from unique_deps_first[OF this] have us: "deps_first ?g {} ?names" "distinct ?names" "set ?names = set (concat (ls @ [map fst defs]))"
        by (simp_all add: unique_names_def Let_def)
      have "\<exists>xs ys zs. ?names = xs @ r # ys @ p # zs" if pr: "(p, r) \<in> backend_edges refs" for p r
      proof -
        from pr have "p \<in> set ?items" by (force simp: backend_edges_def)
        with items have "p \<in> set (concat ls)" by (rule subsetD)
        with us(3) have "p \<in> set ?names" by simp
        then obtain as zs where split: "?names = as @ p # zs" by (meson split_list)
        from pr have "r \<in> set (?g p)" unfolding e[symmetric] by (simp add: edges_def)
        with us(1) have "r \<in> set as" unfolding split by auto
        then obtain xs ys where "as = xs @ r # ys" by (meson split_list)
        with split show ?thesis by auto
      qed
      with us(2,3) show ?thesis by auto
    qed
    then show ?thesis by (simp add: resolveBackendDeps_def assms(1) it ls(1))
  qed
qed

text \<open>
  Property C14: the order of the backends is found for every graph of references, an error means that there is a circle, and
  without a circle every defined backend is listed once, after all the backends that it refers to.
\<close>

theorem backends_in_order:
  assumes "collectBackendDeps fuel eval defs [] = Some (Inr refs)" "card (backend_names defs refs) \<le> fuel"
  shows "case resolveBackendDeps fuel eval defs of
      None \<Rightarrow> False
    | Some (Inl e) \<Rightarrow> \<not> acyclic (backend_edges refs)
    | Some (Inr names) \<Rightarrow> acyclic (backend_edges refs) \<longrightarrow>
        distinct names \<and> fst ` set defs \<subseteq> set names \<and>
        (\<forall>(p, r)\<in>backend_edges refs. \<exists>xs ys zs. names = xs @ r # ys @ p # zs)"
  by (rule backend_order[OF assms])

lemma backends_in_order_witness:
  "\<exists>names xs ys zs. resolveBackendDeps 2 id
     [(''a'', Block ''backend'' [''a''] [] [Block ''oauth2'' [] [(''backend'', CString ''b'')] []]), (''b'', Block ''backend'' [''b''] [] [])] =
     Some (Inr names) \<and> names = xs @ ''b'' # ys @ ''a'' # zs"
proof -
  let ?defs = "[(''a'', Block ''backend'' [''a''] [] [Block ''oauth2'' [] [(''backend'', CString ''b'')] []]), (''b'', Block ''backend'' [''b''] [] [])]"
  let ?refs = "[(''a'', [''b'']), (''b'', [])]"
  have c: "collectBackendDeps 2 id ?defs [] = Some (Inr ?refs)"
    by (simp add: numeral_2_eq_2 collect_backend_def collectFromBlocks_def collect_block_def BlocksOfType_def add_ref_def)
  have e: "backend_edges ?refs = {(''a'', ''b'')}"
    by (auto simp: backend_edges_simps edges_from_simps trim_space_def trim_def trim_left_def is_space_def)
  have "wf {(''a'', ''b'')}" by (rule wf_subset[of "inv_image less_than (\<lambda>n. if n = ''a'' then 0 else 1)"]) auto
  then have a: "acyclic (backend_edges ?refs)" unfolding e by (rule wf_acyclic)
  have n: "card (backend_names ?defs ?refs) \<le> 2" by (simp add: backend_names_def insert_commute)
  from backends_in_order[OF c n] a show ?thesis unfolding e by (auto split: option.splits sum.splits)
qed

section \<open>Bodies\<close>

definition MergeBodies :: "'e block \<Rightarrow> 'e block \<Rightarrow> bool \<Rightarrow> 'e block" where
  "MergeBodies dest src replace =
     Block (bl_type dest) (bl_labels dest)
       (fold (\<lambda>(k, v) as. if replace \<or> map_of as k = None then set_key k v as else as) (bl_attrs src) (bl_attrs dest))
       (bl_blocks dest @ bl_blocks src)"

definition RenameAttribute :: "string \<Rightarrow> string \<Rightarrow> 'e block \<Rightarrow> 'e block" where
  "RenameAttribute old new b =
     (case map_of (bl_attrs b) old of
        None \<Rightarrow> b
      | Some e \<Rightarrow> Block (bl_type b) (bl_labels b) (filter (\<lambda>(k, v). k \<noteq> old) (set_key new e (bl_attrs b))) (bl_blocks b))"

definition set_attr :: "string \<Rightarrow> 'e \<Rightarrow> 'e block \<Rightarrow> 'e block" where
  "set_attr k e b = Block (bl_type b) (bl_labels b) (set_key k e (bl_attrs b)) (bl_blocks b)"

text \<open>What the preparation takes from elsewhere: literals, source positions, the identity of expressions, and the
  decoding of the two blocks for tokens, which yields the name of the backend that their attribute refers to.\<close>

record 'e preparation =
  pp_literal :: "string \<Rightarrow> 'e"
  pp_range :: "'e block \<Rightarrow> string"
  pp_attr_range :: "'e block \<Rightarrow> string \<Rightarrow> string"
  pp_same :: "'e \<Rightarrow> 'e \<Rightarrow> bool"
  pp_decode_oauth2 :: "'e block \<Rightarrow> check_error + string"
  pp_decode_token :: "'e block \<Rightarrow> check_error + string"

definition newDefaultBackend :: "'e preparation \<Rightarrow> 'e block" where
  "newDefaultBackend pp = Block ''backend'' []
     [(''connect_timeout'', pp_literal pp ''10s''), (''ttfb_timeout'', pp_literal pp ''60s''), (''timeout'', pp_literal pp ''300s'')] []"

definition setName :: "'e preparation \<Rightarrow> string \<Rightarrow> 'e block \<Rightarrow> 'e block" where
  "setName pp name b = set_attr ''name'' (pp_literal pp name) b"

definition invalidAttributes :: "string list" where
  "invalidAttributes = [''disable_certificate_validation'', ''disable_connection_reuse'', ''http2'', ''max_connections'']"

definition invalidRefinement :: "'e block \<Rightarrow> check_error option" where
  "invalidRefinement b =
     (case find (has_attr b) invalidAttributes of
        Some name \<Rightarrow> Some (Diag ''backend reference: refinement for %q is not permitted'' [name])
      | None \<Rightarrow>
         (case bl_blocks b of
            [] \<Rightarrow> None
          | x # _ \<Rightarrow> Some (Diag ''backend reference: refinement for %q is not permitted'' [bl_type x])))"

definition invalidOriginRefinement :: "'e preparation \<Rightarrow> 'e block \<Rightarrow> 'e block \<Rightarrow> check_error option" where
  "invalidOriginRefinement pp reference params =
     (case (map_of (bl_attrs reference) ''origin'', map_of (bl_attrs params) ''origin'') of
        (Some r, Some p) \<Rightarrow> if pp_same pp p r then None else Some (Diag ''backend reference: origin must be equal'' [])
      | _ \<Rightarrow> None)"

definition getBackendReference :: "'e block \<Rightarrow> string \<Rightarrow> string \<times> 'e block option" where
  "getBackendReference body reference =
     (case BlocksOfType body ''backend'' of
        [] \<Rightarrow> (reference, None)
      | b # _ \<Rightarrow> (case bl_labels b of [] \<Rightarrow> [] | l # _ \<Rightarrow> l, Some b))"

definition anon_label :: "'e preparation \<Rightarrow> string \<Rightarrow> 'e block \<Rightarrow> string" where
  "anon_label pp attrName body =
     (let position = (if attrName \<noteq> [] \<and> has_attr body attrName then pp_attr_range pp body attrName else pp_range pp body)
      in ''anonymous_'' @ position @ (if attrName \<noteq> [] then ''_'' @ attrName else []))"

text \<open>The first part of \<open>PrepareBackend\<close>: a body that is returned as it is, or one whose blocks for tokens are prepared next.\<close>

datatype 'e chosen = Ready "'e block" | Prepare "'e block"

definition choose_backend ::
    "'e preparation \<Rightarrow> (string \<times> 'e block) list \<Rightarrow> string \<Rightarrow> string \<Rightarrow> 'e block \<Rightarrow> string \<Rightarrow> check_error + 'e chosen" where
  "choose_backend pp defs attrName attrValue body reference0 =
     (let (reference1, params) = getBackendReference body reference0;
          reference = (if has_suffix attrName ''_backend'' \<and> attrValue \<noteq> [] then attrValue else reference1) in
      if reference \<noteq> []
      then (case map_of defs reference of
              None \<Rightarrow> Inl (Diag ''referenced backend %q is not defined'' [reference])
            | Some refBody \<Rightarrow>
               (case params of
                  None \<Rightarrow>
                    if attrName = ''_init'' then Inr (Prepare (MergeBodies refBody (newDefaultBackend pp) False))
                    else Inr (Ready refBody)
                | Some b \<Rightarrow>
                   (case invalidRefinement b of
                      Some e \<Rightarrow> Inl e
                    | None \<Rightarrow>
                       (case invalidOriginRefinement pp refBody b of
                          Some e \<Rightarrow> Inl e
                        | None \<Rightarrow> Inr (Ready (setName pp reference b))))))
      else Inr (Prepare (setName pp (anon_label pp attrName body)
             (case params of None \<Rightarrow> newDefaultBackend pp | Some b \<Rightarrow> MergeBodies b (newDefaultBackend pp) False))))"

text \<open>The prepared backend stands in the place of the one of the block, or is added to the block.\<close>

fun replace_backend :: "'e block \<Rightarrow> 'e block list \<Rightarrow> 'e block list" where
  "replace_backend b [] = [b]"
| "replace_backend b (x # xs) =
     (if bl_type x = ''backend'' then Block ''backend'' (bl_labels x) (bl_attrs b) (bl_blocks b) # xs else x # replace_backend b xs)"

definition place_backend :: "'e block \<Rightarrow> 'e block \<Rightarrow> 'e block" where
  "place_backend b ab =
     Block (bl_type ab) (bl_labels ab) (bl_attrs ab)
       (replace_backend (Block ''backend'' [] (bl_attrs b) (bl_blocks b)) (bl_blocks ab))"

definition checkTokenRequestLabels :: "'e block list \<Rightarrow> check_error option" where
  "checkTokenRequestLabels blocks =
     (case try_fold (\<lambda>b unique.
          (case bl_labels b of
             [] \<Rightarrow> uniqueLabelName ''token request'' unique ''default''
           | l # _ \<Rightarrow> (case validLabel l of Some e \<Rightarrow> Inl e | None \<Rightarrow> uniqueLabelName ''token request'' unique l)))
        blocks {} of Inl e \<Rightarrow> Some e | Inr u \<Rightarrow> None)"

definition label_token_request :: "'e block \<Rightarrow> 'e block" where
  "label_token_request b =
     Block (bl_type b) (if bl_labels b = [] then [''default''] else bl_labels b) (bl_attrs b) (bl_blocks b)"

definition rename_token_request :: "'e block \<Rightarrow> 'e block" where
  "rename_token_request b = RenameAttribute ''query_params'' ''set_query_params'' (RenameAttribute ''headers'' ''set_request_headers'' b)"

text \<open>The blocks of a body with a function applied to the first one of a type.\<close>

fun update_first :: "string \<Rightarrow> 'e block \<Rightarrow> 'e block list \<Rightarrow> 'e block list" where
  "update_first t new [] = []"
| "update_first t new (x # xs) = (if bl_type x = t then new # xs else x # update_first t new xs)"

definition is_token :: "'e block \<Rightarrow> bool" where
  "is_token b = (bl_type b = ''beta_token_request'')"

abbreviation token_depth :: "'e block list \<Rightarrow> nat" where
  "token_depth bs \<equiv> depth_of (filter is_token bs)"


lemma depth_member: "x \<in> set bs \<Longrightarrow> block_depth x \<le> depth_of bs"
  by (induction bs) auto

lemma depth_filter: "depth_of (filter P bs) \<le> depth_of bs"
  by (induction bs) auto

text \<open>The blocks for token requests in the places of the ones that they come from.\<close>

fun put_tokens :: "'e block list \<Rightarrow> 'e block list \<Rightarrow> 'e block list" where
  "put_tokens ts [] = []"
| "put_tokens ts (x # xs) =
     (if is_token x then (case ts of [] \<Rightarrow> x # xs | t # ts' \<Rightarrow> t # put_tokens ts' xs) else x # put_tokens ts xs)"

lemma choose_depth:
  "choose_backend pp defs [] v ab ref = Inr (Prepare b) \<Longrightarrow> block_depth b \<le> block_depth ab"
proof -
  assume c: "choose_backend pp defs [] v ab ref = Inr (Prepare b)"
  have merge: "bl_blocks (MergeBodies x (newDefaultBackend pp) False) = bl_blocks x" for x
    by (simp add: MergeBodies_def newDefaultBackend_def)
  have "bl_blocks b = [] \<or> (\<exists>x\<in>set (bl_blocks ab). bl_blocks b = bl_blocks x)"
  proof (cases "BlocksOfType ab ''backend''")
    case Nil
    with c show ?thesis
      by (auto simp: choose_backend_def getBackendReference_def setName_def set_attr_def newDefaultBackend_def has_suffix_def
          split: if_splits option.splits)
  next
    case (Cons x xs)
    then have "x \<in> set (BlocksOfType ab ''backend'')" by simp
    then have "x \<in> set (bl_blocks ab)" by (simp add: BlocksOfType_def)
    moreover from c Cons have "bl_blocks b = bl_blocks x"
      by (auto simp: choose_backend_def getBackendReference_def setName_def set_attr_def merge has_suffix_def
          split: if_splits option.splits list.splits)
    ultimately show ?thesis by blast
  qed
  moreover have "block_depth x < block_depth ab" if "x \<in> set (bl_blocks ab)" for x
  proof -
    from that show ?thesis using depth_member[OF that] by (simp add: block_depth_blocks)
  qed
  ultimately show ?thesis by (force simp: block_depth_blocks)
qed


lemma oauth2_depth:
  assumes "BlocksOfType body t = ab # rest" "choose_backend pp defs [] v ab ref = Inr (Prepare b)"
  shows "block_depth b < block_depth body"
proof -
  have "ab \<in> set (BlocksOfType body t)" using assms(1) by simp
  then have "block_depth ab \<le> depth_of (bl_blocks body)" by (intro depth_member) (simp add: BlocksOfType_def)
  with choose_depth[OF assms(2)] show ?thesis by (simp add: block_depth_blocks[of body])
qed

lemma token_depth_less: "token_depth (bl_blocks body) < block_depth body"
  using depth_filter[of is_token "bl_blocks body"] by (simp add: block_depth_blocks[of body])

lemma token_request_depth:
  assumes "choose_backend pp defs [] v (rename_token_request (label_token_request x)) ref = Inr (Prepare b)"
  shows "block_depth b \<le> block_depth x"
proof -
  have "bl_blocks (rename_token_request (label_token_request x)) = bl_blocks x"
    by (simp add: rename_token_request_def RenameAttribute_def label_token_request_def split: option.splits)
  with choose_depth[OF assms] show ?thesis by (simp add: block_depth_blocks)
qed

function (sequential) finish_backend :: "'e preparation \<Rightarrow> (string \<times> 'e block) list \<Rightarrow> 'e block \<Rightarrow> check_error + 'e block"
  and finish_tokens :: "'e preparation \<Rightarrow> (string \<times> 'e block) list \<Rightarrow> 'e block list \<Rightarrow> check_error + 'e block list"
where
  "finish_backend pp defs body =
     (case (case BlocksOfType body ''oauth2'' of
              [] \<Rightarrow> Inr (bl_blocks body)
            | ab # _ \<Rightarrow>
               (case pp_decode_oauth2 pp ab of
                  Inl e \<Rightarrow> Inl e
                | Inr ref \<Rightarrow>
                   (case choose_backend pp defs [] [] ab ref of
                      Inl e \<Rightarrow> Inl e
                    | Inr (Ready b) \<Rightarrow> Inr (update_first ''oauth2'' (place_backend b ab) (bl_blocks body))
                    | Inr (Prepare b) \<Rightarrow>
                       (case finish_backend pp defs b of
                          Inl e \<Rightarrow> Inl e
                        | Inr b' \<Rightarrow> Inr (update_first ''oauth2'' (place_backend b' ab) (bl_blocks body)))))) of
        Inl e \<Rightarrow> Inl e
      | Inr blocks \<Rightarrow>
         (case checkTokenRequestLabels (BlocksOfType body ''beta_token_request'') of
            Some e \<Rightarrow> Inl e
          | None \<Rightarrow>
             (case finish_tokens pp defs (filter is_token (bl_blocks body)) of
                Inl e \<Rightarrow> Inl e
              | Inr tokens \<Rightarrow> Inr (Block (bl_type body) (bl_labels body) (bl_attrs body) (put_tokens tokens blocks)))))"
| "finish_tokens pp defs [] = Inr []"
| "finish_tokens pp defs (x # xs) =
     (let ab = label_token_request x in
      case pp_decode_token pp ab of
        Inl e \<Rightarrow> Inl e
      | Inr ref \<Rightarrow>
         (case verifyBodyAttributes ''beta_token_request'' ab of
            Some e \<Rightarrow> Inl e
          | None \<Rightarrow>
             (let ab' = rename_token_request ab in
              case choose_backend pp defs [] [] ab' ref of
                Inl e \<Rightarrow> Inl e
              | Inr (Ready b) \<Rightarrow> map_sum id ((#) (place_backend b ab')) (finish_tokens pp defs xs)
              | Inr (Prepare b) \<Rightarrow>
                 (case finish_backend pp defs b of
                    Inl e \<Rightarrow> Inl e
                  | Inr b' \<Rightarrow> map_sum id ((#) (place_backend b' ab')) (finish_tokens pp defs xs)))))"
  by pat_completeness auto
termination finish_backend
  apply (relation "inv_image (less_than <*lex*> less_than)
    (\<lambda>x. case x of Inl (pp, defs, b) \<Rightarrow> (block_depth b, 0) | Inr (pp, defs, bs) \<Rightarrow> (depth_of bs, Suc (length bs)))")
        apply (auto simp: token_depth_less dest: oauth2_depth token_request_depth)
  done


declare finish_backend.simps [simp del]

definition PrepareBackend ::
    "'e preparation \<Rightarrow> (string \<times> 'e block) list \<Rightarrow> string \<Rightarrow> string \<Rightarrow> 'e block \<Rightarrow> string \<Rightarrow> check_error + 'e block" where
  "PrepareBackend pp defs attrName attrValue body reference =
     (case choose_backend pp defs attrName attrValue body reference of
        Inl e \<Rightarrow> Inl e
      | Inr (Ready b) \<Rightarrow> Inr b
      | Inr (Prepare b) \<Rightarrow> finish_backend pp defs b)"

definition addBackend :: "'e preparation \<Rightarrow> string \<Rightarrow> 'e block \<Rightarrow> (string \<times> 'e block) list \<Rightarrow> (string \<times> 'e block) list" where
  "addBackend pp name b defs = set_key name (setName pp name b) defs"

definition configure_defined :: "'e preparation \<Rightarrow> string \<Rightarrow> (string \<times> 'e block) list \<Rightarrow> check_error + (string \<times> 'e block) list" where
  "configure_defined pp name defs =
     (case map_of defs name of
        None \<Rightarrow> Inl (Diag ''referenced backend %q is not defined'' [name])
      | Some b \<Rightarrow> map_sum id (\<lambda>be. set_key name be defs) (PrepareBackend pp defs ''_init'' [] b name))"

definition configureDefinedBackends ::
    "'e preparation \<Rightarrow> nat \<Rightarrow> ('e \<Rightarrow> cty) \<Rightarrow> (string \<times> 'e block) list \<Rightarrow> (string \<times> 'e block) list run" where
  "configureDefinedBackends pp fuel eval defs =
     map_option (\<lambda>r. case r of Inl e \<Rightarrow> Inl e | Inr names \<Rightarrow> try_fold (configure_defined pp) names defs)
       (resolveBackendDeps fuel eval defs)"

section \<open>Prepared backends are complete\<close>

text \<open>A body is complete if its blocks for tokens have a label, where they need one, and a backend that is complete itself.\<close>

definition authorizers :: "'e block list \<Rightarrow> 'e block list" where
  "authorizers bs = take 1 (filter (\<lambda>b. bl_type b = ''oauth2'') bs) @ filter is_token bs"

inductive complete_blocks :: "'e block list \<Rightarrow> bool" where
  complete: "(\<And>ab. ab \<in> set (authorizers bs) \<Longrightarrow> (is_token ab \<longrightarrow> bl_labels ab \<noteq> []) \<and>
     (\<exists>x xs. filter (\<lambda>b. bl_type b = ''backend'') (bl_blocks ab) = x # xs \<and> complete_blocks (bl_blocks x))) \<Longrightarrow>
   complete_blocks bs"

lemma no_authorizers: "authorizers bs = [] \<Longrightarrow> complete_blocks bs"
  by (rule complete) simp

lemma replace_backend_first:
  "bl_type b = ''backend'' \<Longrightarrow>
   \<exists>x xs. filter (\<lambda>b. bl_type b = ''backend'') (replace_backend b bs) = x # xs \<and> bl_blocks x = bl_blocks b"
  by (induction b bs rule: replace_backend.induct) auto

definition has_complete :: "'e block \<Rightarrow> bool" where
  "has_complete ab = (\<exists>x xs. filter (\<lambda>b. bl_type b = ''backend'') (bl_blocks ab) = x # xs \<and> complete_blocks (bl_blocks x))"

lemma placed_complete: "complete_blocks (bl_blocks b) \<Longrightarrow> has_complete (place_backend b ab)"
  using replace_backend_first[of "Block ''backend'' [] (bl_attrs b) (bl_blocks b)" "bl_blocks ab"]
  by (auto simp: has_complete_def place_backend_def)

lemma place_fields [simp]: "bl_type (place_backend b ab) = bl_type ab" "bl_labels (place_backend b ab) = bl_labels ab"
  by (simp_all add: place_backend_def)

lemma token_fields [simp]:
  "bl_type (rename_token_request (label_token_request x)) = bl_type x"
  "bl_labels (rename_token_request (label_token_request x)) \<noteq> []"
  by (simp_all add: rename_token_request_def RenameAttribute_def label_token_request_def split: option.splits)

lemma update_first_oauth2:
  "\<exists>x\<in>set bs. bl_type x = ''oauth2'' \<Longrightarrow> bl_type new = ''oauth2'' \<Longrightarrow>
     \<exists>r. filter (\<lambda>b. bl_type b = ''oauth2'') (update_first ''oauth2'' new bs) = new # r"
  "bl_type new = ''oauth2'' \<Longrightarrow> filter is_token (update_first ''oauth2'' new bs) = filter is_token bs"
  by (induction "''oauth2''" new bs rule: update_first.induct) (auto simp: is_token_def)

lemma put_tokens_filters:
  assumes "list_all is_token ts"
  shows "filter (\<lambda>b. bl_type b = ''oauth2'') (put_tokens ts bs) = filter (\<lambda>b. bl_type b = ''oauth2'') bs"
    "length ts = length (filter is_token bs) \<Longrightarrow> filter is_token (put_tokens ts bs) = ts"
  using assms
  by (induction ts bs rule: put_tokens.induct) (auto simp: is_token_def split: list.splits)

text \<open>A body that is returned as it is, is a defined backend or a refinement, which has no blocks.\<close>

lemma refinement_blocks: "invalidRefinement x = None \<Longrightarrow> bl_blocks x = []"
  by (auto simp: invalidRefinement_def split: option.splits list.splits)

lemma ready_origin:
  assumes "choose_backend pp defs a v ab ref = Inr (Ready b)"
  shows "\<exists>n d. map_of defs n = Some d \<and> (b = d \<or> (\<exists>m x. invalidRefinement x = None \<and> b = setName pp m x))"
proof -
  obtain r params where r: "getBackendReference ab ref = (r, params)" by fastforce
  define m where "m = (if has_suffix a ''_backend'' \<and> v \<noteq> [] then v else r)"
  from assms r have m: "m \<noteq> []" by (auto simp: choose_backend_def Let_def m_def split: if_splits)
  with assms r obtain d where d: "map_of defs m = Some d"
    by (auto simp: choose_backend_def Let_def m_def[symmetric] split: option.splits)
  show ?thesis
  proof (cases params)
    case None
    with assms r m d have "b = d" by (simp add: choose_backend_def Let_def m_def[symmetric] split: if_splits)
    with d show ?thesis by blast
  next
    case (Some x)
    with assms r m d have "invalidRefinement x = None \<and> b = setName pp m x"
      by (simp add: choose_backend_def Let_def m_def[symmetric] split: option.splits)
    with d show ?thesis by blast
  qed
qed

lemma ready_defined:
  assumes "choose_backend pp defs a v ab ref = Inr (Ready b)"
  shows "\<exists>n d. (n, d) \<in> set defs \<and> (b = d \<or> has_attr b ''name'' \<and> bl_blocks b = [])"
proof -
  have "has_attr (setName pp m x) ''name'' \<and> bl_blocks (setName pp m x) = []" if "invalidRefinement x = None" for m x
    using refinement_blocks[OF that] by (simp add: setName_def set_attr_def has_attr_def)
  with ready_origin[OF assms] map_of_SomeD show ?thesis by metis
qed

lemma ready_complete:
  assumes "choose_backend pp defs a v ab ref = Inr (Ready b)" "\<forall>(n, d)\<in>set defs. complete_blocks (bl_blocks d)"
  shows "complete_blocks (bl_blocks b)"
  using ready_defined[OF assms(1)] assms(2) no_authorizers[of "[]"] by (auto simp: authorizers_def)

lemma finish_complete:
  fixes body body' :: "'e block" and bs ts :: "'e block list"
  shows "finish_backend pp defs body = Inr body' \<Longrightarrow> \<forall>(n, d)\<in>set defs. complete_blocks (bl_blocks d) \<Longrightarrow> complete_blocks (bl_blocks body')"
    "finish_tokens pp defs bs = Inr ts \<Longrightarrow> \<forall>(n, d)\<in>set defs. complete_blocks (bl_blocks d) \<Longrightarrow> list_all is_token bs \<Longrightarrow>
       length ts = length bs \<and> list_all (\<lambda>t. is_token t \<and> bl_labels t \<noteq> [] \<and> has_complete t) ts"
proof (induction pp defs body and pp defs bs arbitrary: body' and ts rule: finish_backend_finish_tokens.induct)
  case (1 pp defs body)
  let ?oauth = "case BlocksOfType body ''oauth2'' of
              [] \<Rightarrow> Inr (bl_blocks body)
            | ab # _ \<Rightarrow>
               (case pp_decode_oauth2 pp ab of
                  Inl e \<Rightarrow> Inl e
                | Inr ref \<Rightarrow>
                   (case choose_backend pp defs [] [] ab ref of
                      Inl e \<Rightarrow> Inl e
                    | Inr (Ready b) \<Rightarrow> Inr (update_first ''oauth2'' (place_backend b ab) (bl_blocks body))
                    | Inr (Prepare b) \<Rightarrow>
                       (case finish_backend pp defs b of
                          Inl e \<Rightarrow> Inl e
                        | Inr b' \<Rightarrow> Inr (update_first ''oauth2'' (place_backend b' ab) (bl_blocks body)))))"
  obtain blocks where blocks: "?oauth = Inr blocks"
    using 1(3) by (cases ?oauth) (auto simp: finish_backend.simps)
  have labels: "checkTokenRequestLabels (BlocksOfType body ''beta_token_request'') = None"
    using 1(3) blocks by (cases "checkTokenRequestLabels (BlocksOfType body ''beta_token_request'')") (auto simp: finish_backend.simps)
  obtain tokens where tokens: "finish_tokens pp defs (filter is_token (bl_blocks body)) = Inr tokens"
    using 1(3) blocks labels by (cases "finish_tokens pp defs (filter is_token (bl_blocks body))") (auto simp: finish_backend.simps)
  have body': "bl_blocks body' = put_tokens tokens blocks"
    using 1(3) blocks labels tokens by (auto simp: finish_backend.simps)
  from 1(2)[OF blocks labels tokens 1(4)]
  have ts: "length tokens = length (filter is_token (bl_blocks body))"
    "list_all (\<lambda>t. is_token t \<and> bl_labels t \<noteq> [] \<and> has_complete t) tokens" by (auto simp: list_all_iff)
  have oauth: "(\<forall>ab \<in> set (take 1 (filter (\<lambda>b. bl_type b = ''oauth2'') blocks)). has_complete ab) \<and>
      filter is_token blocks = filter is_token (bl_blocks body)"
  proof (cases "BlocksOfType body ''oauth2''")
    case Nil
    with blocks show ?thesis by (simp add: BlocksOfType_def)
  next
    case (Cons ab abr)
    then have ab: "bl_type ab = ''oauth2''" "\<exists>x\<in>set (bl_blocks body). bl_type x = ''oauth2''"
      by (auto simp: BlocksOfType_def dest!: Cons_eq_filterD[OF sym])
    have placed: ?thesis if "blocks = update_first ''oauth2'' (place_backend b ab) (bl_blocks body)" "complete_blocks (bl_blocks b)" for b
    proof -
      note eq = that
      obtain r where "filter (\<lambda>b. bl_type b = ''oauth2'') blocks = place_backend b ab # r"
        using update_first_oauth2(1)[OF ab(2), of "place_backend b ab"] ab(1) eq(1) by auto
      with placed_complete[OF eq(2)] update_first_oauth2(2)[of "place_backend b ab" "bl_blocks body"] ab(1) eq(1)
      show ?thesis by simp
    qed
    obtain ref where ref: "pp_decode_oauth2 pp ab = Inr ref" using blocks Cons by (cases "pp_decode_oauth2 pp ab") auto
    obtain c where c: "choose_backend pp defs [] [] ab ref = Inr c"
      using blocks Cons ref by (cases "choose_backend pp defs [] [] ab ref") auto
    show ?thesis
    proof (cases c)
      case (Ready b)
      show ?thesis
        by (rule placed[of b]) (use blocks Cons ref c Ready ready_complete[OF c[unfolded Ready] 1(4)] in auto)
    next
      case (Prepare b)
      obtain b' where b': "finish_backend pp defs b = Inr b'"
        using blocks Cons ref c Prepare by (cases "finish_backend pp defs b") auto
      show ?thesis
        by (rule placed[of b']) (use blocks Cons ref c Prepare b' 1(1)[OF Cons ref c Prepare b' 1(4)] in auto)
    qed
  qed
  have "list_all is_token tokens" using ts(2) by (auto simp: list_all_iff)
  note put = put_tokens_filters[OF this, of blocks]
  show ?case
  proof (rule complete)
    fix ab assume "ab \<in> set (authorizers (bl_blocks body'))"
    then have "ab \<in> set (take 1 (filter (\<lambda>b. bl_type b = ''oauth2'') blocks)) \<or> ab \<in> set tokens"
      using put oauth ts(1) by (auto simp: authorizers_def body')
    moreover have "\<not> is_token ab" if "ab \<in> set (take 1 (filter (\<lambda>b. bl_type b = ''oauth2'') blocks))"
      using in_set_takeD[OF that] by (simp add: is_token_def)
    ultimately have "(is_token ab \<longrightarrow> bl_labels ab \<noteq> []) \<and> has_complete ab"
      using oauth ts(2) by (auto simp: list_all_iff)
    then show "(is_token ab \<longrightarrow> bl_labels ab \<noteq> []) \<and>
     (\<exists>x xs. filter (\<lambda>b. bl_type b = ''backend'') (bl_blocks ab) = x # xs \<and> complete_blocks (bl_blocks x))"
      by (simp add: has_complete_def)
  qed
next
  case (2 pp defs)
  then show ?case by simp
next
  case (3 pp defs x xs)
  let ?ab = "label_token_request x" let ?ab' = "rename_token_request ?ab"
  obtain ref where ref: "pp_decode_token pp ?ab = Inr ref" using 3(4) by (cases "pp_decode_token pp ?ab") (auto simp: Let_def)
  have ok: "verifyBodyAttributes ''beta_token_request'' ?ab = None"
    using 3(4) ref by (cases "verifyBodyAttributes ''beta_token_request'' ?ab") (auto simp: Let_def)
  obtain c where c: "choose_backend pp defs [] [] ?ab' ref = Inr c"
    using 3(4) ref ok by (cases "choose_backend pp defs [] [] ?ab' ref") (auto simp: Let_def)
  have x: "is_token x" "list_all is_token xs" using 3(6) by simp_all
  have placed: ?case if "ts = place_backend b ?ab' # ts'" "complete_blocks (bl_blocks b)"
    "length ts' = length xs \<and> list_all (\<lambda>t. is_token t \<and> bl_labels t \<noteq> [] \<and> has_complete t) ts'" for b ts'
    using that x(1) placed_complete[OF that(2), of ?ab'] by (simp add: is_token_def)
  show ?case
  proof (cases c)
    case (Ready b)
    obtain ts' where ts': "finish_tokens pp defs xs = Inr ts'"
      using 3(4) ref ok c Ready by (cases "finish_tokens pp defs xs") (auto simp: Let_def)
    show ?thesis
      by (rule placed[of b ts']) (use 3(4) ref ok c Ready ts' ready_complete[OF c[unfolded Ready] 3(5)]
          3(1)[OF refl ref ok refl c Ready ts' 3(5) x(2)] in \<open>auto simp: Let_def\<close>)
  next
    case (Prepare b)
    obtain b' where b': "finish_backend pp defs b = Inr b'"
      using 3(4) ref ok c Prepare by (cases "finish_backend pp defs b") (auto simp: Let_def)
    obtain ts' where ts': "finish_tokens pp defs xs = Inr ts'"
      using 3(4) ref ok c Prepare b' by (cases "finish_tokens pp defs xs") (auto simp: Let_def)
    show ?thesis
      by (rule placed[of b' ts']) (use 3(4) ref ok c Prepare b' ts' 3(2)[OF refl ref ok refl c Prepare b' 3(5)]
          3(3)[OF refl ref ok refl c Prepare b' ts' 3(5) x(2)] in \<open>auto simp: Let_def\<close>)
  qed
qed


lemma finish_attrs: "finish_backend pp defs b = Inr b' \<Longrightarrow> bl_attrs b' = bl_attrs b"
  by (auto simp: finish_backend.simps split: sum.splits option.splits)

definition default_timeouts :: "string list" where
  "default_timeouts = [''connect_timeout'', ''ttfb_timeout'', ''timeout'']"

lemma merged_timeouts: "list_all (has_attr (MergeBodies b (newDefaultBackend pp) False)) default_timeouts"
  by (simp add: default_timeouts_def has_attr_def MergeBodies_def newDefaultBackend_def)

lemma named_timeouts: "list_all (has_attr b) ks \<Longrightarrow> list_all (has_attr (setName pp n b)) ks"
  by (auto simp: list_all_iff has_attr_def setName_def set_attr_def)

lemma chosen_timeouts:
  assumes "choose_backend pp defs a v body ref = Inr (Prepare b)"
  shows "list_all (has_attr b) default_timeouts"
proof -
  have "list_all (has_attr (newDefaultBackend pp)) default_timeouts"
    by (simp add: default_timeouts_def has_attr_def newDefaultBackend_def)
  with assms show ?thesis
    by (auto simp: choose_backend_def Let_def intro!: merged_timeouts named_timeouts split: prod.splits if_splits option.splits)
qed

section \<open>The defined backends become complete\<close>

text \<open>
  What is known of the defined backends before: their names are unique and not blank, they hold no backend
  directly, and the references of their blocks for tokens are strings. The decoding of a block for tokens yields the
  name that its attribute has.
\<close>

definition definitions_fit :: "('e \<Rightarrow> cty) \<Rightarrow> (string \<times> 'e block) list \<Rightarrow> bool" where
  "definitions_fit eval defs \<longleftrightarrow> distinct (map fst defs) \<and>
     list_all (\<lambda>(n, b). trim_space n \<noteq> [] \<and> BlocksOfType b ''backend'' = [] \<and> string_references eval b) defs"

definition attribute_reference :: "('e \<Rightarrow> cty) \<Rightarrow> 'e block \<Rightarrow> string" where
  "attribute_reference eval ab =
     (case map_of (bl_attrs ab) ''backend'' of None \<Rightarrow> [] | Some e \<Rightarrow> (case eval e of CString s \<Rightarrow> s | _ \<Rightarrow> []))"

definition decodes_references :: "'e preparation \<Rightarrow> ('e \<Rightarrow> cty) \<Rightarrow> bool" where
  "decodes_references pp eval \<longleftrightarrow>
     (\<forall>ab r. (pp_decode_oauth2 pp ab = Inr r \<or> pp_decode_token pp ab = Inr r) \<longrightarrow> r = attribute_reference eval ab)"

text \<open>The name that a block for tokens refers to.\<close>

definition block_reference :: "('e \<Rightarrow> cty) \<Rightarrow> 'e block \<Rightarrow> string" where
  "block_reference eval ab =
     (case BlocksOfType ab ''backend'' of [] \<Rightarrow> attribute_reference eval ab | b # _ \<Rightarrow> (case bl_labels b of [] \<Rightarrow> [] | l # _ \<Rightarrow> l))"

text \<open>The collected references have it.\<close>

definition refs_le :: "refs \<Rightarrow> refs \<Rightarrow> bool" where
  "refs_le a b \<longleftrightarrow> (\<forall>n rs. map_of a n = Some rs \<longrightarrow> (\<exists>rs'. map_of b n = Some rs' \<and> set rs \<subseteq> set rs'))"

definition has_ref :: "string \<Rightarrow> string \<Rightarrow> refs \<Rightarrow> bool" where
  "has_ref n r refs \<longleftrightarrow> (\<exists>rs. map_of refs n = Some rs \<and> r \<in> set rs)"

lemma refs_le_refl [simp]: "refs_le a a" and refs_le_trans: "refs_le a b \<Longrightarrow> refs_le b c \<Longrightarrow> refs_le a c"
  unfolding refs_le_def by (blast, meson order_trans)

lemma has_ref_mono: "has_ref n r a \<Longrightarrow> refs_le a b \<Longrightarrow> has_ref n r b"
  unfolding has_ref_def refs_le_def by blast

lemma add_ref_grows: "refs_le refs (add_ref n r refs)" "has_ref n r (add_ref n r refs)"
  by (auto simp: refs_le_def has_ref_def add_ref_def)

lemma run_fold_grows:
  assumes "\<And>x s s'. x \<in> set xs \<Longrightarrow> f x s = Some (Inr s') \<Longrightarrow> refs_le s s'" "run_fold f xs s = Some (Inr t)"
  shows "refs_le s t"
  using assms
proof (induction xs arbitrary: s)
  case (Cons x xs)
  then obtain s1 where s1: "f x s = Some (Inr s1)" "run_fold f xs s1 = Some (Inr t)"
    by (auto split: option.splits sum.splits)
  have "refs_le s s1" by (rule Cons.prems(1)[OF _ s1(1)]) simp
  moreover have "refs_le s1 t" by (rule Cons.IH) (use Cons.prems s1 in auto)
  ultimately show ?case by (rule refs_le_trans)
qed simp

lemma run_fold_each:
  assumes "\<And>x s s'. x \<in> set xs \<Longrightarrow> f x s = Some (Inr s') \<Longrightarrow> refs_le s s'" "run_fold f xs s = Some (Inr t)" "x \<in> set xs"
  shows "\<exists>s0 s1. f x s0 = Some (Inr s1) \<and> refs_le s1 t"
  using assms
proof (induction xs arbitrary: s)
  case (Cons y xs)
  then obtain s1 where s1: "f y s = Some (Inr s1)" "run_fold f xs s1 = Some (Inr t)"
    by (auto split: option.splits sum.splits)
  show ?case
  proof (cases "x = y")
    case True
    have "refs_le s1 t" by (rule run_fold_grows[OF _ s1(2)]) (use Cons.prems(1) in auto)
    with True s1(1) show ?thesis by blast
  next
    case False
    have mem: "x \<in> set xs" using Cons.prems(3) False by simp
    show ?thesis by (rule Cons.IH[OF _ s1(2) mem]) (rule Cons.prems(1), simp_all)
  qed
qed simp

lemma collect_nested_grows:
  assumes "filter is_authorizer (bl_blocks x) = []" "collect_nested again name x s = Some (Inr s')"
  shows "refs_le s s'" "bl_labels x = l # ls \<Longrightarrow> has_ref name l s'"
  using assms add_ref_grows by (auto simp: collect_nested_def split: list.splits)

lemma collect_block_refs:
  assumes plain: "\<forall>x\<in>set (bl_blocks ab). bl_type x = ''backend'' \<longrightarrow> \<not> list_ex is_authorizer (bl_blocks x)"
    and c: "collect_block eval again name ab s = Some (Inr s')"
  shows "refs_le s s'" "block_reference eval ab \<noteq> [] \<Longrightarrow> has_ref name (block_reference eval ab) s'"
proof -
  obtain s1 where s1: "run_fold (collect_nested again name) (BlocksOfType ab ''backend'') s1 = Some (Inr s')"
    and le: "refs_le s s1" and attr: "attribute_reference eval ab \<noteq> [] \<Longrightarrow> has_ref name (attribute_reference eval ab) s1"
    using c add_ref_grows by (auto simp: collect_block_def attribute_reference_def split: option.splits cty.splits)
  have none: "filter is_authorizer (bl_blocks x) = []" if "x \<in> set (BlocksOfType ab ''backend'')" for x
    using plain that by (auto simp: BlocksOfType_def list_ex_iff filter_empty_conv)
  have grow: "refs_le t t'" if "x \<in> set (BlocksOfType ab ''backend'')" "collect_nested again name x t = Some (Inr t')" for x t t'
    by (rule collect_nested_grows(1)[OF none[OF that(1)] that(2)])
  have le1: "refs_le s1 s'" by (rule run_fold_grows[OF grow s1])
  from le le1 show "refs_le s s'" by (rule refs_le_trans)
  show "has_ref name (block_reference eval ab) s'" if "block_reference eval ab \<noteq> []"
  proof (cases "BlocksOfType ab ''backend''")
    case Nil
    with that attr le1 show ?thesis by (auto simp: block_reference_def intro: has_ref_mono)
  next
    case (Cons b bs)
    with that obtain l ls where l: "bl_labels b = l # ls" "block_reference eval ab = l"
      by (auto simp: block_reference_def split: list.splits)
    have mem: "b \<in> set (BlocksOfType ab ''backend'')" using Cons by simp
    have "\<exists>t t'. collect_nested again name b t = Some (Inr t') \<and> refs_le t' s'"
      by (rule run_fold_each[OF _ s1 mem]) (rule grow)
    then obtain t t' where t: "collect_nested again name b t = Some (Inr t')" "refs_le t' s'" by blast
    from has_ref_mono[OF collect_nested_grows(2)[OF none[OF mem] t(1) l(1)] t(2)] l(2) show ?thesis by simp
  qed
qed

lemma plain_blocks:
  assumes "\<not> nested_authorizer b" "ab \<in> set (bl_blocks b)" "is_authorizer ab"
  shows "\<forall>x\<in>set (bl_blocks ab). bl_type x = ''backend'' \<longrightarrow> \<not> list_ex is_authorizer (bl_blocks x)"
  using assms by (auto simp: nested_authorizer_def list_ex_iff)

lemma run_fold_append:
  "run_fold f (xs @ ys) s =
     (case run_fold f xs s of None \<Rightarrow> None | Some (Inl e) \<Rightarrow> Some (Inl e) | Some (Inr s') \<Rightarrow> run_fold f ys s')"
  by (induction xs arbitrary: s) (auto split: option.splits sum.splits)

lemma collect_backend_refs:
  assumes plain: "\<not> nested_authorizer b" and c: "collect_backend eval again (n, b) s = Some (Inr s')"
  shows "refs_le (set_key n [] s) s'"
    and "ab \<in> set (bl_blocks b) \<Longrightarrow> is_authorizer ab \<Longrightarrow> block_reference eval ab \<noteq> [] \<Longrightarrow> has_ref n (block_reference eval ab) s'"
proof -
  let ?as = "BlocksOfType b ''oauth2'' @ BlocksOfType b ''beta_token_request''"
  have f: "run_fold (collect_block eval again n) ?as (set_key n [] s) = Some (Inr s')"
    using c by (simp add: collect_backend_def collectFromBlocks_def)
  have pl: "\<forall>x\<in>set (bl_blocks ab). bl_type x = ''backend'' \<longrightarrow> \<not> list_ex is_authorizer (bl_blocks x)" if "ab \<in> set ?as" for ab
    using plain_blocks[OF plain, of ab] that unfolding authorizer_blocks by simp
  have grow: "refs_le t t'" if "ab \<in> set ?as" "collect_block eval again n ab t = Some (Inr t')" for ab t t'
    by (rule collect_block_refs(1)[OF pl[OF that(1)] that(2)])
  show "refs_le (set_key n [] s) s'" by (rule run_fold_grows[OF grow f])
  assume ab: "ab \<in> set (bl_blocks b)" "is_authorizer ab" "block_reference eval ab \<noteq> []"
  then have m: "ab \<in> set ?as" unfolding authorizer_blocks by simp
  have "\<exists>t t'. collect_block eval again n ab t = Some (Inr t') \<and> refs_le t' s'"
    by (rule run_fold_each[OF _ f m]) (rule grow)
  then obtain t t' where t: "collect_block eval again n ab t = Some (Inr t')" "refs_le t' s'" by blast
  from has_ref_mono[OF collect_block_refs(2)[OF pl[OF m] t(1) ab(3)] t(2)]
  show "has_ref n (block_reference eval ab) s'" .
qed

lemma collect_other:
  assumes "\<not> nested_authorizer b" "collect_backend eval again (n, b) s = Some (Inr s')" "n \<noteq> p" "has_ref p r s"
  shows "has_ref p r s'"
proof -
  have "has_ref p r (set_key n [] s)" using assms(3,4) by (simp add: has_ref_def)
  then show ?thesis by (rule has_ref_mono) (rule collect_backend_refs(1)[OF assms(1,2)])
qed

lemma collect_rest:
  assumes "run_fold (collect_backend eval again) ys s = Some (Inr t)" "list_all (\<lambda>(n, b). \<not> nested_authorizer b \<and> n \<noteq> p) ys" "has_ref p r s"
  shows "has_ref p r t"
  using assms
proof (induction ys arbitrary: s)
  case (Cons y ys)
  obtain n b where y: "y = (n, b)" by (cases y)
  with Cons.prems obtain s1 where s1: "collect_backend eval again (n, b) s = Some (Inr s1)"
      "run_fold (collect_backend eval again) ys s1 = Some (Inr t)" "\<not> nested_authorizer b" "n \<noteq> p"
    by (auto split: option.splits sum.splits)
  from Cons.IH[OF s1(2) _ collect_other[OF s1(3,1,4) Cons.prems(3)]] Cons.prems(2) show ?case by simp
qed simp

lemma collected_plain:
  assumes "definitions_fit eval defs" "collectBackendDeps k eval defs [] = Some r"
  shows "\<not> list_ex (\<lambda>(n, b). nested_authorizer b) defs"
proof -
  have "list_all (\<lambda>(n, b). string_references eval b) defs"
    using assms(1) by (auto simp: definitions_fit_def list_all_iff)
  from collect_diverges[OF this, of k "[]"] assms(2) show ?thesis by auto
qed

lemma collected_reference:
  assumes fit: "definitions_fit eval defs" and c: "collectBackendDeps k eval defs [] = Some (Inr refs)"
    and b: "(p, b) \<in> set defs" and ab: "ab \<in> set (bl_blocks b)" "is_authorizer ab" and r: "block_reference eval ab \<noteq> []"
  shows "has_ref p (block_reference eval ab) refs"
proof -
  obtain k' where k: "k = Suc k'" using c by (cases k) auto
  obtain xs ys where split: "defs = xs @ (p, b) # ys" using b by (meson split_list)
  let ?again = "collectBackendDeps k' eval defs"
  obtain s s1 where s1: "collect_backend eval ?again (p, b) s = Some (Inr s1)"
      "run_fold (collect_backend eval ?again) ys s1 = Some (Inr refs)"
    using c unfolding k collectBackendDeps.simps
    by (subst (asm) (2) split) (auto simp: run_fold_append split: option.splits sum.splits)
  note none = collected_plain[OF fit c]
  have nested: "\<not> nested_authorizer b" and rest: "list_all (\<lambda>(n, b). \<not> nested_authorizer b \<and> n \<noteq> p) ys"
    using fit none unfolding split by (auto simp: definitions_fit_def list_all_iff list_ex_iff image_iff)
  show ?thesis by (rule collect_rest[OF s1(2) rest collect_backend_refs(2)[OF nested s1(1) ab r]])
qed

text \<open>The preparation of a backend looks up the backends that its blocks for tokens refer to, and no other ones.\<close>

lemma choose_agrees:
  assumes "fst (getBackendReference ab ref) = [] \<or>
    map_of defs (fst (getBackendReference ab ref)) = map_of defs' (fst (getBackendReference ab ref))"
  shows "choose_backend pp defs [] v ab ref = choose_backend pp defs' [] v ab ref"
  using assms by (cases "getBackendReference ab ref") (auto simp: choose_backend_def has_suffix_def)

lemma finish_plain:
  assumes "\<not> list_ex is_authorizer (bl_blocks b)"
  shows "finish_backend pp defs b = finish_backend pp defs' b"
proof -
  from assms have "BlocksOfType b ''oauth2'' = []" "filter is_token (bl_blocks b) = []"
    by (auto simp: BlocksOfType_def is_authorizer_def is_token_def list_ex_iff filter_empty_conv)
  then show ?thesis unfolding finish_backend.simps[of pp defs b] finish_backend.simps[of pp defs' b] by (simp split: option.split)
qed

lemma chosen_plain:
  assumes "choose_backend pp defs [] v ab ref = Inr (Prepare b)"
    and "\<forall>x\<in>set (bl_blocks ab). bl_type x = ''backend'' \<longrightarrow> \<not> list_ex is_authorizer (bl_blocks x)"
  shows "\<not> list_ex is_authorizer (bl_blocks b)"
proof (cases "BlocksOfType ab ''backend''")
  case Nil
  with assms(1) have "bl_blocks b = []"
    by (auto simp: choose_backend_def getBackendReference_def setName_def set_attr_def newDefaultBackend_def has_suffix_def
          split: if_splits option.splits)
  then show ?thesis by simp
next
  case (Cons x xs)
  then have "x \<in> set (BlocksOfType ab ''backend'')" by simp
  then have x: "x \<in> set (bl_blocks ab)" "bl_type x = ''backend''" by (simp_all add: BlocksOfType_def)
  moreover from assms(1) Cons have "bl_blocks b = bl_blocks x"
    by (auto simp: choose_backend_def getBackendReference_def setName_def set_attr_def MergeBodies_def newDefaultBackend_def
          has_suffix_def split: if_splits option.splits list.splits)
  ultimately show ?thesis using assms(2) by simp
qed

lemma token_blocks:
  "bl_blocks (rename_token_request (label_token_request x)) = bl_blocks x"
  "BlocksOfType (rename_token_request (label_token_request x)) t = BlocksOfType x t"
  "map_of (bl_attrs (label_token_request x)) k = map_of (bl_attrs x) k"
  by (simp_all add: rename_token_request_def RenameAttribute_def label_token_request_def BlocksOfType_def split: option.splits)

definition agree_on :: "('e \<Rightarrow> cty) \<Rightarrow> (string \<times> 'e block) list \<Rightarrow> (string \<times> 'e block) list \<Rightarrow> 'e block \<Rightarrow> bool" where
  "agree_on eval defs defs' ab \<longleftrightarrow> (let r = block_reference eval ab in r = [] \<or> map_of defs r = map_of defs' r) \<and>
     (\<forall>x\<in>set (bl_blocks ab). bl_type x = ''backend'' \<longrightarrow> \<not> list_ex is_authorizer (bl_blocks x))"

lemma reference_oauth2:
  assumes "decodes_references pp eval" "pp_decode_oauth2 pp ab = Inr ref"
  shows "fst (getBackendReference ab ref) = block_reference eval ab"
proof -
  have "ref = attribute_reference eval ab" using assms unfolding decodes_references_def by blast
  then show ?thesis by (auto simp: getBackendReference_def block_reference_def split: list.splits)
qed

lemma reference_token:
  assumes "decodes_references pp eval" "pp_decode_token pp (label_token_request x) = Inr ref"
  shows "fst (getBackendReference (rename_token_request (label_token_request x)) ref) = block_reference eval x"
proof -
  have "ref = attribute_reference eval (label_token_request x)" using assms unfolding decodes_references_def by blast
  then have "ref = attribute_reference eval x" by (simp add: attribute_reference_def token_blocks)
  then show ?thesis by (auto simp: getBackendReference_def block_reference_def token_blocks split: list.splits)
qed

lemma finish_tokens_agree:
  assumes dec: "decodes_references pp eval" and "\<forall>x\<in>set xs. agree_on eval defs defs' x"
  shows "finish_tokens pp defs xs = finish_tokens pp defs' xs"
  using assms(2)
proof (induction xs)
  case (Cons x xs)
  then have IH: "finish_tokens pp defs xs = finish_tokens pp defs' xs" and x: "agree_on eval defs defs' x" by simp_all
  let ?ab = "rename_token_request (label_token_request x)"
  have choose: "choose_backend pp defs [] [] ?ab ref = choose_backend pp defs' [] [] ?ab ref"
    if "pp_decode_token pp (label_token_request x) = Inr ref" for ref
    by (rule choose_agrees) (use reference_token[OF dec that] x in \<open>simp add: agree_on_def Let_def\<close>)
  have finish: "finish_backend pp defs b = finish_backend pp defs' b" if "choose_backend pp defs' [] [] ?ab ref = Inr (Prepare b)" for ref b
    by (rule finish_plain) (rule chosen_plain[OF that], use x in \<open>simp add: agree_on_def token_blocks\<close>)
  show ?case
    by (auto simp: Let_def choose IH finish split: sum.splits option.splits chosen.splits)
qed simp

lemma finish_agree:
  assumes dec: "decodes_references pp eval" and agree: "\<forall>x\<in>set (bl_blocks b). is_authorizer x \<longrightarrow> agree_on eval defs defs' x"
  shows "finish_backend pp defs b = finish_backend pp defs' b"
proof -
  have tokens: "finish_tokens pp defs (filter is_token (bl_blocks b)) = finish_tokens pp defs' (filter is_token (bl_blocks b))"
    by (rule finish_tokens_agree[OF dec]) (use agree in \<open>auto simp: is_token_def is_authorizer_def\<close>)
  have x: "agree_on eval defs defs' ab" if "BlocksOfType b ''oauth2'' = ab # as" for ab as
  proof -
    have "ab \<in> set (BlocksOfType b ''oauth2'')" using that by simp
    with agree show ?thesis by (auto simp: BlocksOfType_def is_authorizer_def)
  qed
  have choose: "choose_backend pp defs [] [] ab ref = choose_backend pp defs' [] [] ab ref"
    if "BlocksOfType b ''oauth2'' = ab # as" "pp_decode_oauth2 pp ab = Inr ref" for ref ab as
    by (rule choose_agrees) (use reference_oauth2[OF dec that(2)] x[OF that(1)] in \<open>simp add: agree_on_def Let_def\<close>)
  have finish: "finish_backend pp defs y = finish_backend pp defs' y"
    if "BlocksOfType b ''oauth2'' = ab # as" "choose_backend pp defs' [] [] ab ref = Inr (Prepare y)" for ref ab as y
    by (rule finish_plain) (rule chosen_plain[OF that(2)], use x[OF that(1)] in \<open>simp add: agree_on_def\<close>)
  show ?thesis
    unfolding finish_backend.simps[of pp defs b] finish_backend.simps[of pp defs' b] tokens
    by (cases "BlocksOfType b ''oauth2''") (auto simp: choose finish split: sum.splits option.splits chosen.splits)
qed

text \<open>The defined backends while they are prepared: those of \<open>P\<close> are done, the others are as they were.\<close>

definition prepared_upto :: "(string \<times> 'e block) list \<Rightarrow> string set \<Rightarrow> (string \<times> 'e block) list \<Rightarrow> bool" where
  "prepared_upto defs P cur \<longleftrightarrow> distinct (map fst cur) \<and> dom (map_of cur) = dom (map_of defs) \<and>
     (\<forall>n. n \<notin> P \<longrightarrow> map_of cur n = map_of defs n) \<and>
     (\<forall>n d. n \<in> P \<longrightarrow> map_of cur n = Some d \<longrightarrow> complete_blocks (bl_blocks d) \<and> list_all (has_attr d) default_timeouts)"

lemma map_of_filter_names: "map_of (filter (\<lambda>(n, d). P n) xs) k = (if P k then map_of xs k else None)"
  by (induction xs) auto

lemma configure_step:
  assumes fit: "definitions_fit eval defs" and dec: "decodes_references pp eval"
    and c: "collectBackendDeps k eval defs [] = Some (Inr refs)"
    and before: "\<And>r. (p, r) \<in> backend_edges refs \<Longrightarrow> r \<in> P" and p: "p \<notin> P"
    and inv: "prepared_upto defs P cur" and step: "configure_defined pp p cur = Inr cur'"
  shows "prepared_upto defs (insert p P) cur'"
proof -
  obtain b be where b: "map_of cur p = Some b" and be: "PrepareBackend pp cur ''_init'' [] b p = Inr be"
      and cur': "cur' = set_key p be cur"
    using step by (cases "map_of cur p"; cases "PrepareBackend pp cur ''_init'' [] (the (map_of cur p)) p") (auto simp: configure_defined_def)
  have def: "map_of defs p = Some b" using inv p b by (simp add: prepared_upto_def)
  then have mem: "(p, b) \<in> set defs" by (rule map_of_SomeD)
  with fit have b_fit: "trim_space p \<noteq> []" "BlocksOfType b ''backend'' = []" by (auto simp: definitions_fit_def list_all_iff)
  have plain: "\<not> nested_authorizer b" using collected_plain[OF fit c] mem by (auto simp: list_ex_iff)
  let ?body = "MergeBodies b (newDefaultBackend pp) False" and ?done = "filter (\<lambda>(n, d). n \<in> P) cur"
  have blocks: "bl_blocks ?body = bl_blocks b" by (simp add: MergeBodies_def newDefaultBackend_def)
  have "p \<noteq> []" using b_fit(1) by (auto simp: trim_space_def trim_def trim_left_def)
  then have "finish_backend pp cur ?body = Inr be"
    using be b b_fit(2) by (simp add: PrepareBackend_def choose_backend_def getBackendReference_def has_suffix_def)
  moreover have "finish_backend pp cur ?body = finish_backend pp ?done ?body"
  proof (rule finish_agree[OF dec], unfold blocks, intro ballI impI)
    fix ab assume ab: "ab \<in> set (bl_blocks b)" "is_authorizer ab"
    let ?r = "block_reference eval ab"
    have "?r = [] \<or> ?r \<in> P \<or> map_of cur ?r = None"
    proof (rule ccontr)
      assume no: "\<not> ?thesis"
      then have "?r \<in> dom (map_of cur)" by auto
      then have "?r \<in> dom (map_of defs)" using inv unfolding prepared_upto_def by simp
      then have "trim_space ?r \<noteq> []" using fit by (auto simp: definitions_fit_def list_all_iff dest: map_of_SomeD)
      moreover obtain rs where "map_of refs p = Some rs" "?r \<in> set rs"
        using collected_reference[OF fit c mem ab] no by (auto simp: has_ref_def)
      ultimately have "(p, ?r) \<in> backend_edges refs" by (auto simp: backend_edges_def dest: map_of_SomeD)
      with before no show False by blast
    qed
    then show "agree_on eval cur ?done ab"
      using plain_blocks[OF plain ab] by (auto simp: agree_on_def Let_def map_of_filter_names)
  qed
  ultimately have f: "finish_backend pp ?done ?body = Inr be" by simp
  have "\<forall>(n, d)\<in>set ?done. complete_blocks (bl_blocks d)"
    using inv by (auto simp: prepared_upto_def)
  from finish_complete(1)[OF f this] have "complete_blocks (bl_blocks be)" .
  moreover have "list_all (has_attr be) default_timeouts"
    using merged_timeouts[of b pp] finish_attrs[OF f] by (simp add: has_attr_def list_all_iff)
  ultimately show ?thesis using inv b def by (auto simp: prepared_upto_def cur')
qed

lemma configure_all:
  assumes fit: "definitions_fit eval defs" and dec: "decodes_references pp eval"
    and c: "collectBackendDeps k eval defs [] = Some (Inr refs)"
    and order: "\<And>p r. (p, r) \<in> backend_edges refs \<Longrightarrow> \<exists>xs ys zs. pre @ names = xs @ r # ys @ p # zs"
    and distinct: "distinct (pre @ names)"
    and inv: "prepared_upto defs (set pre) cur" and run: "try_fold (configure_defined pp) names cur = Inr cur'"
  shows "prepared_upto defs (set (pre @ names)) cur'"
  using order distinct inv run
proof (induction names arbitrary: pre cur)
  case (Cons p names)
  obtain cur1 where step: "configure_defined pp p cur = Inr cur1" and rest: "try_fold (configure_defined pp) names cur1 = Inr cur'"
    using Cons.prems(4) by (auto split: sum.splits)
  have before: "r \<in> set pre" if pr: "(p, r) \<in> backend_edges refs" for r
  proof -
    obtain xs ys zs where split: "pre @ p # names = xs @ r # ys @ p # zs" using Cons.prems(1)[OF pr] by blast
    then have "pre @ p # names = (xs @ r # ys) @ p # zs" by simp
    moreover have "p \<notin> set pre" using Cons.prems(2) by simp
    moreover have "p \<notin> set names" using Cons.prems(2) by simp
    ultimately have "pre = xs @ r # ys" using append_Cons_eq_iff[of p pre names "xs @ r # ys" zs] by simp
    then show ?thesis by simp
  qed
  have "prepared_upto defs (insert p (set pre)) cur1"
    by (rule configure_step[OF fit dec c before _ Cons.prems(3) step]) (use Cons.prems(2) in auto)
  then have inv1: "prepared_upto defs (set (pre @ [p])) cur1" by simp
  have "prepared_upto defs (set ((pre @ [p]) @ names)) cur'"
    by (rule Cons.IH[OF _ _ inv1 rest]) (use Cons.prems(1,2) in simp_all)
  then show ?case by simp
qed simp

lemma defined_complete:
  assumes fit: "definitions_fit eval defs" and dec: "decodes_references pp eval"
    and c: "collectBackendDeps fuel eval defs [] = Some (Inr refs)" "acyclic (backend_edges refs)" "card (backend_names defs refs) \<le> fuel"
    and run: "configureDefinedBackends pp fuel eval defs = Some (Inr defs')"
  shows "fst ` set defs' = fst ` set defs \<and> (\<forall>(n, d)\<in>set defs'. complete_blocks (bl_blocks d) \<and> list_all (has_attr d) default_timeouts)"
proof -
  obtain names where names: "resolveBackendDeps fuel eval defs = Some (Inr names)" "try_fold (configure_defined pp) names defs = Inr defs'"
  proof -
    obtain z where "resolveBackendDeps fuel eval defs = Some z" "(case z of Inl e \<Rightarrow> Inl e | Inr names \<Rightarrow> try_fold (configure_defined pp) names defs) = Inr defs'"
      using run by (auto simp: configureDefinedBackends_def)
    with that show thesis by (cases z) auto
  qed
  have order: "distinct names" "fst ` set defs \<subseteq> set names"
      "\<And>p r. (p, r) \<in> backend_edges refs \<Longrightarrow> \<exists>xs ys zs. [] @ names = xs @ r # ys @ p # zs"
    using backend_order[OF c(1,3)] c(2) names(1) by auto
  have start: "prepared_upto defs (set []) defs" using fit by (simp add: prepared_upto_def definitions_fit_def)
  have inv: "prepared_upto defs (set names) defs'"
    using configure_all[OF fit dec c(1) order(3) _ start names(2)] order(1) by simp
  then have keys: "fst ` set defs' = fst ` set defs" by (simp add: prepared_upto_def dom_map_of_conv_image_fst)
  have "complete_blocks (bl_blocks d) \<and> list_all (has_attr d) default_timeouts" if nd: "(n, d) \<in> set defs'" for n d
  proof -
    have "n \<in> fst ` set defs'" using nd by force
    with order(2) keys have "n \<in> set names" by blast
    moreover have "map_of defs' n = Some d" using inv nd by (simp add: prepared_upto_def)
    ultimately show ?thesis using inv by (simp add: prepared_upto_def)
  qed
  with keys show ?thesis by blast
qed

lemma prepared_complete:
  assumes "PrepareBackend pp defs attrName attrValue body reference = Inr b"
    and "\<forall>(n, d)\<in>set defs. complete_blocks (bl_blocks d)"
  shows "complete_blocks (bl_blocks b) \<and>
    (list_all (has_attr b) default_timeouts \<or> (\<exists>n d. (n, d) \<in> set defs \<and> (b = d \<or> has_attr b ''name'' \<and> bl_blocks b = [])))"
proof -
  obtain c where c: "choose_backend pp defs attrName attrValue body reference = Inr c"
    using assms(1) by (cases "choose_backend pp defs attrName attrValue body reference") (auto simp: PrepareBackend_def)
  show ?thesis
  proof (cases c)
    case (Ready x)
    from Ready c assms(1) have x: "b = x" by (simp add: PrepareBackend_def)
    with ready_complete[OF c[unfolded Ready] assms(2)] ready_defined[OF c[unfolded Ready]] show ?thesis by simp
  next
    case (Prepare x)
    with c assms(1) have f: "finish_backend pp defs x = Inr b" by (simp add: PrepareBackend_def)
    have "list_all (has_attr b) default_timeouts"
      using chosen_timeouts[OF c[unfolded Prepare]] finish_attrs[OF f] by (simp add: has_attr_def list_all_iff)
    with finish_complete(1)[OF f assms(2)] show ?thesis by simp
  qed
qed

text \<open>
  Property C16: once the defined backends are configured, and their references have no circle, every backend is complete:
  each defined one, and each one that is prepared for an endpoint or an access control after that. Its blocks for tokens have a label and a backend, which is complete too,
  and it has the default timeouts, or is a refinement of a defined backend with its name and without blocks.
\<close>

theorem backends_complete:
  assumes "definitions_fit eval defs" "decodes_references pp eval"
    and "collectBackendDeps fuel eval defs [] = Some (Inr refs)" "acyclic (backend_edges refs)" "card (backend_names defs refs) \<le> fuel"
    and "configureDefinedBackends pp fuel eval defs = Some (Inr defs')"
  shows "fst ` set defs' = fst ` set defs \<and>
    (\<forall>(n, d)\<in>set defs'. complete_blocks (bl_blocks d) \<and> list_all (has_attr d) default_timeouts) \<and>
    (case PrepareBackend pp defs' attrName attrValue body reference of
       Inl e \<Rightarrow> True
     | Inr b \<Rightarrow> complete_blocks (bl_blocks b) \<and> (list_all (has_attr b) default_timeouts \<or> has_attr b ''name'' \<and> bl_blocks b = []))"
proof -
  note all = defined_complete[OF assms]
  then have "\<forall>(n, d)\<in>set defs'. complete_blocks (bl_blocks d)" by auto
  from prepared_complete[OF _ this, of pp attrName attrValue body reference] all
  show ?thesis by (auto split: sum.split)
qed

definition demo_preparation :: "string preparation" where
  "demo_preparation = \<lparr>pp_literal = id, pp_range = (\<lambda>b. ''1_1''), pp_attr_range = (\<lambda>b a. ''1_1''), pp_same = (=),
     pp_decode_oauth2 = (\<lambda>b. Inr (case map_of (bl_attrs b) ''backend'' of None \<Rightarrow> [] | Some s \<Rightarrow> s)),
     pp_decode_token = (\<lambda>b. Inr (case map_of (bl_attrs b) ''backend'' of None \<Rightarrow> [] | Some s \<Rightarrow> s))\<rparr>"

abbreviation demo_backends :: "(string \<times> string block) list" where
  "demo_backends \<equiv> [(''a'', Block ''backend'' [''a''] [] [Block ''oauth2'' [] [(''backend'', ''b'')] []]), (''b'', Block ''backend'' [''b''] [] [])]"

lemma backends_complete_witness:
  "\<exists>defs' a. configureDefinedBackends demo_preparation 2 CString demo_backends = Some (Inr defs') \<and>
     (''a'', a) \<in> set defs' \<and> complete_blocks (bl_blocks a)"
proof -
  let ?refs = "[(''a'', [''b'']), (''b'', [])]"
  have fit: "definitions_fit CString demo_backends"
    by (simp add: definitions_fit_def BlocksOfType_def string_references_def string_reference_def trim_space_def trim_def
        trim_left_def is_space_def)
  have dec: "decodes_references demo_preparation CString"
    by (auto simp: decodes_references_def demo_preparation_def attribute_reference_def split: option.splits)
  have c: "collectBackendDeps 2 CString demo_backends [] = Some (Inr ?refs)"
    by (simp add: numeral_2_eq_2 collect_backend_def collectFromBlocks_def collect_block_def BlocksOfType_def add_ref_def)
  have e: "backend_edges ?refs = {(''a'', ''b'')}"
    by (auto simp: backend_edges_simps edges_from_simps trim_space_def trim_def trim_left_def is_space_def)
  have "wf {(''a'', ''b'')}" by (rule wf_subset[of "inv_image less_than (\<lambda>n. if n = ''a'' then 0 else 1)"]) auto
  then have a: "acyclic (backend_edges ?refs)" unfolding e by (rule wf_acyclic)
  have n: "card (backend_names demo_backends ?refs) \<le> 2" by (simp add: backend_names_def insert_commute)
  obtain defs' where run: "configureDefinedBackends demo_preparation 2 CString demo_backends = Some (Inr defs')"
  proof -
    have "case add_all_refs ?refs no_items of None \<Rightarrow> False | Some (Inl y) \<Rightarrow> False
        | Some (Inr it) \<Rightarrow> Dependencies 2 (it_deps it) [''a''] = Some [[''b'', ''a'']]"
      unfolding numeral_2_eq_2 by code_simp
    then obtain it where it: "add_all_refs ?refs no_items = Some (Inr it)" "Dependencies 2 (it_deps it) [''a''] = Some [[''b'', ''a'']]"
      by (simp split: option.splits sum.splits)
    have "case try_fold (configure_defined demo_preparation) (unique_names [[''b'', ''a''], [''a'', ''b'']]) demo_backends of
        Inl e \<Rightarrow> False | Inr x \<Rightarrow> True"
      by code_simp
    then obtain x where "try_fold (configure_defined demo_preparation) (unique_names [[''b'', ''a''], [''a'', ''b'']]) demo_backends = Inr x"
      by (simp split: sum.splits)
    with it(2) show thesis
      by (intro that[of x]) (simp add: configureDefinedBackends_def resolveBackendDeps_def c it(1) del: Dependencies.simps add_all_refs.simps)
  qed
  note all = backends_complete[OF fit dec c a n run, of "[]" "[]" "Block [] [] [] []" "[]"]
  have "''a'' \<in> fst ` set defs'" using conjunct1[OF all] by simp
  then obtain d where d: "(''a'', d) \<in> set defs'" by (auto simp del: set_map)
  have "complete_blocks (bl_blocks d)" using conjunct1[OF conjunct2[OF all]] d by fast
  with d run show ?thesis by blast
qed

section \<open>The body of a request\<close>

text \<open>A store of bodies: \<open>MergeBodies\<close> changes its first argument, unless both are the same body.\<close>

definition merge_at :: "(nat \<Rightarrow> 'e block) \<Rightarrow> nat \<Rightarrow> nat \<Rightarrow> (nat \<Rightarrow> 'e block)" where
  "merge_at store dest src = (if src = dest then store else store(dest := MergeBodies (store dest) (store src) False))"

text \<open>The start of \<open>RoundTrip\<close>: \<open>params\<close> is the body that \<open>backend.Context\<close> puts into the context of the request, if any.\<close>

definition context_body :: "nat option \<Rightarrow> nat \<Rightarrow> (nat \<Rightarrow> 'e block) \<Rightarrow> nat \<times> (nat \<Rightarrow> 'e block)" where
  "context_body params own store =
     (case params of None \<Rightarrow> (own, store) | Some p \<Rightarrow> (p, merge_at store p own))"

definition after_requests :: "nat \<Rightarrow> nat option \<Rightarrow> nat \<Rightarrow> (nat \<Rightarrow> 'e block) \<Rightarrow> (nat \<Rightarrow> 'e block)" where
  "after_requests n params own store = ((\<lambda>s. snd (context_body params own s)) ^^ n) store"

text \<open>
  The body of a refined backend grows with every request: after \<open>n\<close> requests it has the blocks of the
  defined backend \<open>n\<close> times; the body of the defined backend does not change.
\<close>

theorem refinement_grows:
  "bl_blocks (after_requests n (Some p) own store p) =
     (if p = own then bl_blocks (store p) else bl_blocks (store p) @ concat (replicate n (bl_blocks (store own)))) \<and>
   after_requests n (Some p) own store own = store own"
proof (induction n)
  case (Suc n)
  have app: "concat (replicate n xs) @ xs = xs @ concat (replicate n xs)" for xs :: "'b list"
    by (induction n) simp_all
  from Suc show ?case
    by (auto simp: after_requests_def context_body_def merge_at_def MergeBodies_def app)
qed (simp add: after_requests_def)

end
