(* ===== verification/Spec2Isabelle.thy ===== *)
theory Spec2Isabelle
  imports EvalContext RateLimit ErrorHandlers Middleware BasicAuth TokenAuth Producers MergeConfig Mux Endpoint Jwks Functions
    Buffer Servers CustomLogs Validate Configure Backends
begin

text \<open>
  A verification development for Couper, an API gateway written in Go. All paths are relative to
  \<open>src/\<close>.

  The program. Couper reads configuration files, merges their blocks, checks and completes them
  (\<open>config/configload\<close>), and builds servers, endpoints, access controls and backends from the result
  (\<open>config/runtime\<close>). A request that arrives passes the middleware (\<open>handler/middleware\<close>), is given a
  handler by the routing (\<open>server/mux.go\<close>), passes the access controls of that handler
  (\<open>handler/access_control.go\<close>, \<open>accesscontrol\<close>), and reaches an endpoint (\<open>handler/endpoint.go\<close>). The
  endpoint sends its requests in the order of their references (\<open>config/sequence\<close>) through backends
  (\<open>handler/transport\<close>), which limit their rate (\<open>handler/ratelimit\<close>), know about their health
  (\<open>probe.go\<close>), fetch tokens (\<open>oauth2\<close>) and modify requests and responses (\<open>eval/http.go\<close>). An error on
  the way is a value of the package \<open>errors\<close>, and an error handler or a template answers it.

  The theories, and the code each one models:

  \<^item> \<open>GoPrelude\<close>: byte strings and the functions of the standard library that several components use.
  \<^item> \<open>HttpModel\<close>, \<open>QueryString\<close>: headers (\<open>net/http\<close>, \<open>net/textproto\<close>), base64, cookies; escaping and
    \<open>url.Values\<close>.
  \<^item> \<open>Durations\<close>: \<open>config/duration.go\<close> with the duration parser of the standard library.
  \<^item> \<open>Seetie\<close>: the values of expressions and of Go, and their conversions (\<open>internal/seetie/convert.go\<close>).
    A panic of the library \<open>cty\<close> is the value \<open>None\<close>.
  \<^item> \<open>Errors\<close>: the error type, its table of definitions and the generated tables (\<open>errors\<close>).
  \<^item> \<open>ErrorHandlers\<close>: \<open>config/configload/error_handler.go\<close>, \<open>config/runtime/error_handler.go\<close> and
    \<open>handler/error.go\<close>; which handler serves which error.
  \<^item> \<open>MergeConfig\<close>: \<open>config/configload/merge.go\<close>; blocks of several files become one.
  \<^item> \<open>Paths\<close>, \<open>Mux\<close>: \<open>utils/path.go\<close> and \<open>server/mux.go\<close>; the order of the patterns and the choice of a handler.
  \<^item> \<open>Middleware\<close>: allowed methods, CORS, request ids (\<open>handler/middleware\<close>).
  \<^item> \<open>AccessControl\<close>, \<open>BasicAuth\<close>, \<open>Jwt\<close>: the chain of access controls, required permissions, basic
    authentication and tokens (\<open>accesscontrol\<close>, \<open>handler/access_control.go\<close>).
  \<^item> \<open>Jwks\<close>: documents kept up to date (\<open>json/synced_json.go\<close>), key sets (\<open>accesscontrol/jwk\<close>) and the OpenID
    configuration (\<open>oauth2/oidc\<close>).
  \<^item> \<open>Functions\<close>: the functions of expressions (\<open>eval/lib\<close>): merging, encodings, URLs.
  \<^item> \<open>OAuth2\<close>: signing (\<open>eval/lib/jwt.go\<close>), the clients (\<open>oauth2\<close>) and the callback (\<open>accesscontrol/oauth2.go\<close>).
  \<^item> \<open>Cache\<close>, \<open>TokenAuth\<close>: the memory store (\<open>cache/memory.go\<close>), and tokens for backend requests kept in it
    (\<open>handler/transport/oauth2_req_auth.go\<close>, \<open>token_request.go\<close>).
  \<^item> \<open>Sequence\<close>, \<open>Producers\<close>: the dependencies between the requests of an endpoint, and the goroutines
    and channels that send them (\<open>config/sequence\<close>, \<open>config/configload/endpoint_sequence.go\<close>,
    \<open>handler/endpoint.go\<close>).
  \<^item> \<open>RingBuffer\<close>, \<open>RateLimit\<close>: the rate limiter of a backend (\<open>handler/ratelimit\<close>).
  \<^item> \<open>Probe\<close>: the health check of a backend and its race with the first request.
  \<^item> \<open>Modifiers\<close>, \<open>Backend\<close>: the attributes that modify requests and responses (\<open>eval/http.go\<close>), and a
    round trip of a backend (\<open>handler/transport/backend.go\<close>).
  \<^item> \<open>Writer\<close>: what the client gets (\<open>server/writer\<close>): compression, cookies, and the header of a response.
  \<^item> \<open>Proxy\<close>: \<open>handler/proxy.go\<close>; what a proxy sends, upgrades, and the copying of a response with its
    delayed flushes.
  \<^item> \<open>Endpoint\<close>: the single requests of an endpoint (\<open>handler/producer\<close>) and its response to the client
    (\<open>handler/endpoint.go\<close>).
  \<^item> \<open>Evaluation\<close>: how an expression is evaluated: its copy, the replacement of references to missing
    variables, and what stays changed in the parsed configuration (\<open>eval/value.go\<close>).
  \<^item> \<open>EvalContext\<close>: the variables and functions of expressions, and the responses shared between the goroutines of a
    request (\<open>eval/context.go\<close>, \<open>eval/sync.go\<close>).
  \<^item> \<open>Buffer\<close>: which bodies are buffered (\<open>eval/buffer/option.go\<close>, \<open>config/body/collect.go\<close>).
  \<^item> \<open>Hosts\<close>: hosts and ports of servers, and the server of a request (\<open>config/runtime/server.go\<close>,
    \<open>server/http.go\<close>, \<open>config/settings.go\<close>).
  \<^item> \<open>Slices\<close>: slices over shared arrays.
  \<^item> \<open>Servers\<close>: the construction of the servers: options, endpoints, the layers of each handler and the
    routes of each host (\<open>config/runtime/server.go\<close>, \<open>endpoint.go\<close>, \<open>error_handler.go\<close>, \<open>server/options.go\<close>).
  \<^item> \<open>Validate\<close>: environments and the checks of a configuration (\<open>config/configload/environment.go\<close>,
    \<open>validate.go\<close>).
  \<^item> \<open>Backends\<close>: the references between backends and their preparation (\<open>config/configload/backend.go\<close>,
    \<open>helper.go\<close>), and the body that a refined backend uses for a request.
  \<^item> \<open>Configure\<close>: servers, APIs and endpoints after decoding, the references to access controls (\<open>config/configload\<close>),
    and the access controls that are made (\<open>config/runtime\<close>).
  \<^item> \<open>CustomLogs\<close>: the bodies with the fields of the log that a server collects for each route.

  How the state corresponds to the code. A Go struct is a \<open>record\<close> with its fields in order, as far as
  they matter; an interface with its implementations is a \<open>datatype\<close>. A method that writes to its
  receiver returns the record. An error is \<open>Inl\<close>, or a constructor of a type of outcomes; a panic is
  \<open>None\<close> or a constructor of its own. A Go map is a function to options where only lookups matter, and
  a list of entries where its order is seen; the order in which Go ranges over a map is then an
  argument, and a property that depends on it says so. Integers have the width of the code (64 bit
  counters of the probe and the limiter, 8 bit counters of retries) wherever wrapping could matter.
  Goroutines are steps: \<open>run_step\<close> (producers), \<open>token_step\<close> (tokens), \<open>health_step\<close> (probes), \<open>sync_step\<close> (documents) and the turns
  of the limiter are the steps between which the code can be interrupted, and the properties about
  them hold in every reachable state.

  What the properties show, by group:

  \<^item> Ordering and interleaving: requests of an endpoint are sent after what they need and the run never
    gets stuck; one token request at a time; the health that a backend knows.
  \<^item> Access: what an accepted request has proved (basic authentication, JWT, permissions, OpenID
    Connect), and that a handler behind controls is reached in no other way.
  \<^item> Choice: which endpoint, error handler or error template answers; which definition wins a merge.
  \<^item> Bounds: requests per period in both windows of the limiter, retries.
  \<^item> What is sent: header and query modification, the pinned origin, hop-by-hop headers, the path prefix.
  \<^item> Configuration: what is accepted, where it is complete afterwards, and that the construction of the servers finds
    what the checks have seen.
  \<^item> Expressions: one parsed expression has in each request the value that it alone would have there, and a reference to
    something absent is no error; what the variables of a request and of its responses hold.
  \<^item> Termination: permission closure, dependency traversals; and the exact circumstances in which the
    code does not return or blocks (a circle through an item with two dependents, a canceled wait).

  Locales. \<open>sliding_log\<close> (\<open>RingBuffer\<close>) and \<open>ttl_store\<close> (\<open>Cache\<close>) are the interfaces that the limiter and the
  users of the store rely on, \<open>growth\<close> (\<open>Slices\<close>) is the promise of the runtime about the capacity of slices; each is
  interpreted on the model of the code.

  Bounds and fuel. Only four definitions have fuel, as the depth they may reach: \<open>resolveSequence\<close>,
  \<open>fillChannels\<close> and \<open>markDependencies\<close>, which follow dependencies, and \<open>collectBackendDeps\<close>, for which one call is
  enough or no depth is (\<open>references_collected\<close>). Without a circle the number of names is
  enough (\<open>dependencies_in_order\<close>, and \<open>produce_returns\<close> for the channels); with the circle of \<open>circle_missed\<close> no depth is. The construction of the servers
  takes it from its environment and ends with the error \<open>OutOfFuel\<close> where it is too small. The walks up the parents
  of an item are \<open>partial_function\<close>s, and their results are proved to exist.

  Not modelled, with the reasons: reading of files, sockets, TLS and the HTTP server of the standard
  library (input and output); logs, metrics and traces (no decision depends on them); the HCL, JWT,
  SAML, OpenAPI, Redis and telemetry libraries (not in the sources, parameters where used); generators of
  documentation; the command line.
\<close>

end
